(* ===== verification/Prelude.thy ===== *)
theory Prelude
  imports "HOL-Library.Word" "HOL-Library.Sublist"
begin

text \<open>
  What every component of the development shares: the error values that stand for the
  undefined behaviour of C (a fault is a value here, so that a theorem can say that it does
  not happen), checked access to a block of bytes, the arithmetic of \<^verbatim>\<open>size_t\<close>, and the
  functions of the C library the sources use on character strings
  (\<^verbatim>\<open>tolower\<close>, \<^verbatim>\<open>strcasecmp\<close>, \<^verbatim>\<open>strchr\<close>, \<^verbatim>\<open>strstr\<close>, \<^verbatim>\<open>atoi\<close>, \<^verbatim>\<open>sscanf\<close> with a hexadecimal
  conversion, \<^verbatim>\<open>snprintf\<close> and its decimal conversion).

  A C string is a list of characters that holds no NUL; the terminator is not written.
\<close>

section \<open>Lemma collections\<close>

named_theorems fault_simps \<open>rules that run the fault-or-value results\<close>
named_theorems cstr_simps \<open>rules on C strings that component proofs may unfold with\<close>
named_theorems wf_intros \<open>preservation of the components' invariants\<close>

section \<open>Faults\<close>

datatype c_fault =
    OutOfBounds   \<comment> \<open>a read or write outside an object\<close>
  | NullPointer   \<comment> \<open>a null pointer is dereferenced\<close>
  | AssertFailed  \<comment> \<open>\<open>assert\<close> or \<open>abort\<close> ends the program\<close>

type_synonym 'a c_result = "c_fault + 'a"

fun res_bind :: "'a c_result \<Rightarrow> ('a \<Rightarrow> 'b c_result) \<Rightarrow> 'b c_result" where
  "res_bind (Inl e) f = Inl e"
| "res_bind (Inr x) f = f x"

fun no_fault :: "'a c_result \<Rightarrow> bool" where
  "no_fault (Inl e) = False"
| "no_fault (Inr x) = True"

lemma res_bind_Inr_iff [fault_simps]:
  "res_bind r f = Inr y \<longleftrightarrow> (\<exists>x. r = Inr x \<and> f x = Inr y)"
  by (cases r) auto

lemma no_fault_iff [fault_simps]: "no_fault r \<longleftrightarrow> (\<exists>x. r = Inr x)"
  by (cases r) auto

section \<open>The machine's \<open>size_t\<close>\<close>

text \<open>
  A \<^verbatim>\<open>size_t\<close> is a natural number below \<open>2 ^ 64\<close>; its sum and difference wrap around.
\<close>

definition add64 :: "nat \<Rightarrow> nat \<Rightarrow> nat" where
  "add64 a b = (a + b) mod 2 ^ 64"

definition sub64 :: "nat \<Rightarrow> nat \<Rightarrow> nat" where
  "sub64 a b = (a + (2 ^ 64 - b)) mod 2 ^ 64"

lemma add64_exact: "a + b < 2 ^ 64 \<Longrightarrow> add64 a b = a + b"
  by (simp add: add64_def)

lemma sub64_exact: "b \<le> a \<Longrightarrow> a < 2 ^ 64 \<Longrightarrow> sub64 a b = a - b"
proof -
  assume ba: "b \<le> a" and a: "a < 2 ^ 64"
  have "a + (2 ^ 64 - b) = (a - b) + 2 ^ 64" using ba a by simp
  then have "sub64 a b = (a - b + 2 ^ 64) mod 2 ^ 64" unfolding sub64_def by (rule arg_cong)
  also have "\<dots> = (a - b) mod 2 ^ 64" by (rule mod_add_self2)
  also have "\<dots> = a - b" using a by (intro mod_less) simp
  finally show ?thesis .
qed

lemma sub64_wraps: "a < b \<Longrightarrow> b < 2 ^ 64 \<Longrightarrow> sub64 a b = 2 ^ 64 - (b - a)"
  by (simp add: sub64_def)

section \<open>Blocks of bytes\<close>

definition mem_load :: "char list \<Rightarrow> nat \<Rightarrow> char c_result" where
  "mem_load m i = (if i < length m then Inr (m ! i) else Inl OutOfBounds)"

definition mem_read :: "char list \<Rightarrow> nat \<Rightarrow> nat \<Rightarrow> char list c_result" where
  "mem_read m off n = (if off + n \<le> length m then Inr (take n (drop off m)) else Inl OutOfBounds)"

definition mem_write :: "char list \<Rightarrow> nat \<Rightarrow> char list \<Rightarrow> char list c_result" where
  "mem_write m off bs =
     (if off + length bs \<le> length m
      then Inr (take off m @ bs @ drop (off + length bs) m) else Inl OutOfBounds)"

lemma mem_load_in [fault_simps]: "i < length m \<Longrightarrow> mem_load m i = Inr (m ! i)"
  by (simp add: mem_load_def)

lemma mem_read_in [fault_simps]: "off + n \<le> length m \<Longrightarrow> mem_read m off n = Inr (take n (drop off m))"
  by (simp add: mem_read_def)

lemma mem_write_in [fault_simps]:
  "off + length bs \<le> length m \<Longrightarrow>
   mem_write m off bs = Inr (take off m @ bs @ drop (off + length bs) m)"
  by (simp add: mem_write_def)

text \<open>
  The allocator. \<open>can_alloc n\<close> tells whether memory is left for a request of \<open>n\<close> bytes and
  \<open>raw_byte i\<close> is the unspecified content of byte \<open>i\<close> of fresh memory. As in the C library
  of the target, a request above \<open>PTRDIFF_MAX\<close> always fails.
\<close>

record allocator =
  can_alloc :: "nat \<Rightarrow> bool"
  raw_byte :: "nat \<Rightarrow> char"

definition malloc_ok :: "allocator \<Rightarrow> nat \<Rightarrow> bool" where
  "malloc_ok A n \<longleftrightarrow> can_alloc A n \<and> n < 2 ^ 63"

definition c_realloc :: "allocator \<Rightarrow> char list \<Rightarrow> nat \<Rightarrow> char list option" where
  "c_realloc A old n =
     (if malloc_ok A n
      then Some (map (\<lambda>i. if i < length old then old ! i else raw_byte A i) [0..<n]) else None)"

lemma c_realloc_grow:
  "c_realloc A old n = Some new \<Longrightarrow> length old \<le> n \<Longrightarrow>
   length new = n \<and> n < 2 ^ 63 \<and> take (length old) new = old"
  by (auto simp: c_realloc_def malloc_ok_def split: if_splits intro!: nth_equalityI)

section \<open>Characters\<close>

definition byte_of :: "char \<Rightarrow> nat" where
  "byte_of c = of_char c"

text \<open>The value of a plain \<^verbatim>\<open>char\<close> of the target (x86-64 Linux, where it is signed).\<close>

definition schar :: "char \<Rightarrow> int" where
  "schar c = (if byte_of c < 128 then int (byte_of c) else int (byte_of c) - 256)"

abbreviation NUL :: char where "NUL \<equiv> CHR 0x00"
abbreviation LF :: char where "LF \<equiv> CHR 0x0A"
abbreviation CR :: char where "CR \<equiv> CHR 0x0D"
abbreviation TAB :: char where "TAB \<equiv> CHR 0x09"

definition c_tolower :: "char \<Rightarrow> char" where
  "c_tolower c = (if 65 \<le> byte_of c \<and> byte_of c \<le> 90 then char_of (byte_of c + 32) else c)"

definition c_isspace :: "char \<Rightarrow> bool" where
  "c_isspace c \<longleftrightarrow> byte_of c = 32 \<or> (9 \<le> byte_of c \<and> byte_of c \<le> 13)"

definition c_isdigit :: "char \<Rightarrow> bool" where
  "c_isdigit c \<longleftrightarrow> 48 \<le> byte_of c \<and> byte_of c \<le> 57"

definition digit_val :: "char \<Rightarrow> nat" where
  "digit_val c = byte_of c - 48"

definition hex_val :: "char \<Rightarrow> nat option" where
  "hex_val c =
     (let n = byte_of c
      in if 48 \<le> n \<and> n \<le> 57 then Some (n - 48)
         else if 97 \<le> n \<and> n \<le> 102 then Some (n - 87)
         else if 65 \<le> n \<and> n \<le> 70 then Some (n - 55) else None)"

lemma byte_of_less [simp]: "byte_of c < 256"
  by (simp add: byte_of_def)

lemma byte_of_inject [simp]: "byte_of c = byte_of d \<longleftrightarrow> c = d"
  by (simp add: byte_of_def)

lemma byte_of_char_of [simp]: "n < 256 \<Longrightarrow> byte_of (char_of n) = n"
  by (simp add: byte_of_def)

lemma char_of_byte_of [simp]: "char_of (byte_of c) = c"
  by (simp add: byte_of_def)

text \<open>Evaluation of \<^const>\<open>byte_of\<close> and \<^const>\<open>char_of\<close> on literals.\<close>

lemmas char_eval = byte_of_def char_of_def bit_Suc_0_iff

lemma c_tolower_idem [simp]: "c_tolower (c_tolower c) = c_tolower c"
  by (auto simp: c_tolower_def)

section \<open>Strings\<close>

definition cstring :: "string \<Rightarrow> bool" where
  "cstring s \<longleftrightarrow> NUL \<notin> set s"

text \<open>What a C function sees of a block of bytes: the characters before the first NUL.\<close>

definition c_str :: "char list \<Rightarrow> string" where
  "c_str bs = takeWhile (\<lambda>c. c \<noteq> NUL) bs"

definition strcaseeq :: "string \<Rightarrow> string \<Rightarrow> bool" where
  "strcaseeq s t \<longleftrightarrow> map c_tolower s = map c_tolower t"

text \<open>\<^verbatim>\<open>strchr\<close> and \<^verbatim>\<open>strstr\<close> return the rest of the string from the place found.\<close>

fun strchr :: "string \<Rightarrow> char \<Rightarrow> string option" where
  "strchr [] c = None"
| "strchr (x # xs) c = (if x = c then Some (x # xs) else strchr xs c)"

fun strstr :: "string \<Rightarrow> string \<Rightarrow> string option" where
  "strstr [] p = (if p = [] then Some [] else None)"
| "strstr (x # xs) p = (if prefix p (x # xs) then Some (x # xs) else strstr xs p)"

text \<open>The part of a string before its first occurrence of a character.\<close>

definition before_chr :: "string \<Rightarrow> char \<Rightarrow> string" where
  "before_chr s c = takeWhile (\<lambda>x. x \<noteq> c) s"

lemma strcaseeq_refl [simp]: "strcaseeq s s"
  by (simp add: strcaseeq_def)

lemma strcaseeq_sym: "strcaseeq s t \<longleftrightarrow> strcaseeq t s"
  by (auto simp: strcaseeq_def)

lemma strcaseeq_trans: "strcaseeq s t \<Longrightarrow> strcaseeq t u \<Longrightarrow> strcaseeq s u"
  by (simp add: strcaseeq_def)

lemma strcaseeq_Nil [simp]: "strcaseeq s [] \<longleftrightarrow> s = []" "strcaseeq [] s \<longleftrightarrow> s = []"
  by (auto simp: strcaseeq_def)

lemma strchr_None_iff [cstr_simps]: "strchr s c = None \<longleftrightarrow> c \<notin> set s"
  by (induction s) auto

lemma strchr_split: "strchr s c = Some r \<Longrightarrow> s = before_chr s c @ r \<and> (\<exists>t. r = c # t)"
  by (induction s) (auto simp: before_chr_def split: if_splits)

lemma strchr_append [cstr_simps]:
  "c \<notin> set u \<Longrightarrow> strchr (u @ c # v) c = Some (c # v)"
  by (induction u) auto

lemma before_chr_append [cstr_simps]: "c \<notin> set u \<Longrightarrow> before_chr (u @ c # v) c = u"
  by (induction u) (auto simp: before_chr_def)

lemma strchr_length: "strchr s c = Some r \<Longrightarrow> length r \<le> length s"
  by (induction s) (auto split: if_splits)

lemma strstr_suffix: "strstr s p = Some r \<Longrightarrow> suffix r s \<and> prefix p r"
  by (induction s) (auto split: if_splits simp: suffix_Cons)

lemma strstr_length: "strstr s p = Some r \<Longrightarrow> length p \<le> length r \<and> length r \<le> length s"
  using strstr_suffix [of s p r] by (auto dest: prefix_length_le suffix_length_le)

lemma c_str_id [cstr_simps]: "cstring s \<Longrightarrow> c_str s = s"
  unfolding cstring_def c_str_def by (induction s) auto

lemma cstring_c_str [simp]: "cstring (c_str bs)"
  by (auto simp: cstring_def c_str_def dest: set_takeWhileD)

lemma cstring_append [simp]: "cstring (s @ t) \<longleftrightarrow> cstring s \<and> cstring t"
  by (auto simp: cstring_def)

lemma cstring_Nil [simp]: "cstring []"
  by (simp add: cstring_def)

lemma cstring_Cons [simp]: "cstring (c # s) \<longleftrightarrow> c \<noteq> NUL \<and> cstring s"
  by (auto simp: cstring_def)

lemma cstring_take: "cstring s \<Longrightarrow> cstring (take n s)"
  by (auto simp: cstring_def dest: in_set_takeD)

lemma cstring_drop: "cstring s \<Longrightarrow> cstring (drop n s)"
  by (auto simp: cstring_def dest: in_set_dropD)

section \<open>Decimal conversions\<close>

fun dec_digits :: "nat \<Rightarrow> string" where
  "dec_digits n =
     (if n < 10 then [char_of (48 + n)] else dec_digits (n div 10) @ [char_of (48 + n mod 10)])"

declare dec_digits.simps [simp del]

definition dec_int :: "int \<Rightarrow> string" where
  "dec_int i = (if i < 0 then CHR ''-'' # dec_digits (nat (- i)) else dec_digits (nat i))"

fun digits_val :: "nat \<Rightarrow> string \<Rightarrow> nat" where
  "digits_val acc [] = acc"
| "digits_val acc (c # cs) = (if c_isdigit c then digits_val (10 * acc + digit_val c) cs else acc)"

text \<open>\<^verbatim>\<open>strtol\<close> in base 10: it skips white space, takes a sign, and stops at \<open>LONG_MIN\<close> or \<open>LONG_MAX\<close>.\<close>

definition c_strtol10 :: "string \<Rightarrow> int" where
  "c_strtol10 s =
     (let t = dropWhile c_isspace s;
          neg = (case t of c # _ \<Rightarrow> c = CHR ''-'' | [] \<Rightarrow> False);
          u = (case t of c # r \<Rightarrow> if c = CHR ''-'' \<or> c = CHR ''+'' then r else t | [] \<Rightarrow> []);
          v = int (digits_val 0 u)
      in max (- (2 ^ 63)) (min (2 ^ 63 - 1) (if neg then - v else v)))"

text \<open>\<^verbatim>\<open>atol\<close> is that value; \<^verbatim>\<open>atoi\<close> keeps its low 32 bits (the C library of the target).\<close>

definition c_atol :: "string \<Rightarrow> int" where
  "c_atol s = c_strtol10 s"

definition c_atoi :: "string \<Rightarrow> int" where
  "c_atoi s = signed_take_bit 31 (c_strtol10 s)"

lemma c_isdigit_char_of: "(n :: nat) < 10 \<Longrightarrow> c_isdigit (char_of (48 + n))"
  by (simp add: c_isdigit_def)

lemma digit_val_char_of: "(n :: nat) < 10 \<Longrightarrow> digit_val (char_of (48 + n)) = n"
  by (simp add: digit_val_def)

lemma digits_val_append:
  "list_all c_isdigit s \<Longrightarrow> digits_val acc (s @ t) = digits_val (digits_val acc s) t"
  by (induction s arbitrary: acc) auto

lemma dec_digits_all: "list_all c_isdigit (dec_digits n)"
  by (induction n rule: dec_digits.induct)
     (subst dec_digits.simps, auto simp: c_isdigit_char_of)

lemma digits_val_dec: "digits_val 0 (dec_digits n) = n"
proof (induction n rule: dec_digits.induct)
  case (1 n)
  show ?case
  proof (cases "n < 10")
    case True
    then show ?thesis
      by (subst dec_digits.simps) (simp add: c_isdigit_char_of digit_val_char_of)
  next
    case False
    then have "digits_val 0 (dec_digits (n div 10)) = n div 10" by (rule "1.IH")
    with False show ?thesis
      by (subst dec_digits.simps)
         (simp add: digits_val_append dec_digits_all c_isdigit_char_of digit_val_char_of)
  qed
qed

lemma digits_val_dec_append:
  "(case t of [] \<Rightarrow> True | c # _ \<Rightarrow> \<not> c_isdigit c) \<Longrightarrow> digits_val 0 (dec_digits n @ t) = n"
  by (simp add: digits_val_append dec_digits_all digits_val_dec split: list.splits)

lemma dec_digits_nonempty [simp]: "dec_digits n \<noteq> []"
  by (subst dec_digits.simps) simp

lemma dec_digits_hd: "\<exists>c cs. dec_digits n = c # cs \<and> c_isdigit c"
  using dec_digits_all [of n] by (cases "dec_digits n") auto

lemma digit_not_space_sign:
  "c_isdigit c \<Longrightarrow> \<not> c_isspace c \<and> c \<noteq> CHR ''-'' \<and> c \<noteq> CHR ''+'' \<and> c \<noteq> NUL"
  by (auto simp: c_isdigit_def c_isspace_def byte_of_def)

lemma c_strtol10_dec:
  assumes "n < 2 ^ 63"
  shows "c_strtol10 (dec_digits n) = int n"
proof -
  obtain c cs where d: "dec_digits n = c # cs" and c: "c_isdigit c"
    using dec_digits_hd by blast
  have "int n < 2 ^ 63" using assms by (metis of_nat_less_iff of_nat_numeral of_nat_power)
  moreover have "digits_val 0 (c # cs) = n" using digits_val_dec [of n] d by simp
  ultimately show ?thesis
    using digit_not_space_sign [OF c]
    by (simp add: c_strtol10_def d Let_def)
qed

lemma cstring_dec_digits [simp]: "cstring (dec_digits n)"
  using dec_digits_all [of n] digit_not_space_sign
  by (auto simp: cstring_def list_all_iff)

section \<open>\<open>snprintf\<close> and hexadecimal \<open>sscanf\<close>\<close>

text \<open>
  What \<^verbatim>\<open>snprintf(buf, n, ...)\<close> leaves in \<open>buf\<close> for a text \<open>s\<close>: at most \<open>n - 1\<close>
  characters (and the NUL); nothing is written when \<open>n\<close> is 0.
\<close>

definition snprintf_text :: "nat \<Rightarrow> string \<Rightarrow> string" where
  "snprintf_text n s = take (n - 1) s"

lemma snprintf_text_fits [simp]: "length s < n \<Longrightarrow> snprintf_text n s = s"
  by (simp add: snprintf_text_def)

fun hex_run :: "nat \<Rightarrow> nat \<Rightarrow> string \<Rightarrow> nat" where
  "hex_run 0 acc s = acc"
| "hex_run (Suc w) acc [] = acc"
| "hex_run (Suc w) acc (c # cs) =
     (case hex_val c of None \<Rightarrow> acc | Some v \<Rightarrow> hex_run w (16 * acc + v) cs)"

text \<open>
  The conversion \<^verbatim>\<open>%wx\<close> of \<^verbatim>\<open>sscanf\<close> into an \<^verbatim>\<open>unsigned int\<close>: white space is skipped and
  does not count, a sign and a prefix \<^verbatim>\<open>0x\<close> count towards the width; \<open>None\<close> when nothing
  is converted. A negative value wraps around at 32 bits.
\<close>

definition scan_hex_digits :: "nat \<Rightarrow> string \<Rightarrow> nat option" where
  "scan_hex_digits w s =
     (case s of
        [] \<Rightarrow> None
      | c # cs \<Rightarrow>
          if w = 0 then None
          else if c = CHR ''0'' \<and> 2 \<le> w \<and>
                  (case cs of [] \<Rightarrow> False | d # _ \<Rightarrow> d = CHR ''x'' \<or> d = CHR ''X'')
          then Some (hex_run (w - 2) 0 (tl cs))
          else (case hex_val c of None \<Rightarrow> None | Some v \<Rightarrow> Some (hex_run (w - 1) v cs)))"

definition sscanf_hex :: "nat \<Rightarrow> string \<Rightarrow> nat option" where
  "sscanf_hex w s =
     (let t = dropWhile c_isspace s
      in case t of
           [] \<Rightarrow> None
         | c # cs \<Rightarrow>
             if c = CHR ''-'' then map_option (\<lambda>v. sub64 0 v mod 2 ^ 32) (scan_hex_digits (w - 1) cs)
             else if c = CHR ''+'' then scan_hex_digits (w - 1) cs
             else scan_hex_digits w t)"

lemma hex_val_props:
  "hex_val c = Some v \<Longrightarrow> v < 16 \<and> \<not> c_isspace c \<and> c \<noteq> CHR ''-'' \<and> c \<noteq> CHR ''+'' \<and> c \<noteq> NUL"
  by (auto simp: hex_val_def Let_def c_isspace_def byte_of_def split: if_splits)

lemma hex_val_not_x: "hex_val c = Some v \<Longrightarrow> c \<noteq> CHR ''x'' \<and> c \<noteq> CHR ''X''"
  by (auto simp: hex_val_def Let_def byte_of_def split: if_splits)

text \<open>Two hexadecimal digits under \<^verbatim>\<open>%2x\<close>.\<close>

lemma sscanf_hex_2:
  assumes "hex_val a = Some x" "hex_val b = Some y"
  shows "sscanf_hex 2 (a # b # s) = Some (16 * x + y)"
  using hex_val_props [OF assms(1)] hex_val_not_x [OF assms(2)] assms
  by (simp add: sscanf_hex_def scan_hex_digits_def numeral_2_eq_2)

text \<open>Four hexadecimal digits under \<^verbatim>\<open>%4x\<close>.\<close>

lemma hex_run_3:
  assumes "hex_val b = Some x" "hex_val c = Some y" "hex_val d = Some z"
  shows "hex_run 3 v (b # c # d # s) = 4096 * v + 256 * x + 16 * y + z"
  using assms by (simp add: numeral_3_eq_3)

lemma sscanf_hex_4:
  assumes "hex_val a = Some w" "hex_val b = Some x" "hex_val c = Some y" "hex_val d = Some z"
  shows "sscanf_hex 4 (a # b # c # d # s) = Some (4096 * w + 256 * x + 16 * y + z)"
  using hex_val_props [OF assms(1)] hex_val_not_x [OF assms(2)] assms(1) hex_run_3 [OF assms(2-4)]
  by (simp add: sscanf_hex_def scan_hex_digits_def)

end
