(* ===== verification/EslText.thy ===== *)
theory EslText
  imports Prelude
begin

text \<open>
  The text utilities of the event socket library (\<^verbatim>\<open>esl/esl.c\<close>): the case tables and the
  case-insensitive search, URL encoding and decoding, the splitting of a string, bounded
  formatting and the default logger. A pointer that may be null is an option; the output
  buffer of the encoder has a capacity and every write to it is checked.
\<close>

section \<open>Case tables and case-insensitive search\<close>

definition C_EOF :: int where
  "C_EOF = -1"

definition esl_C_toupper :: "int list" where
  "esl_C_toupper = C_EOF # map int ([0..<97] @ [65..<91] @ [123..<256])"

definition esl_C_tolower :: "int list" where
  "esl_C_tolower = C_EOF # map int ([0..<65] @ [97..<123] @ [91..<256])"

definition esl_toupper :: "int \<Rightarrow> int" where
  "esl_toupper c =
     (if c < 0 \<or> 255 < c then c else if c < -1 then C_EOF else esl_C_toupper ! nat (c + 1))"

definition esl_tolower :: "int \<Rightarrow> int" where
  "esl_tolower c =
     (if c < 0 \<or> 255 < c then c else if c < -1 then C_EOF else esl_C_tolower ! nat (c + 1))"

text \<open>The character a pointer into a string points at; the terminator behind the last one.\<close>

definition at_ptr :: "string \<Rightarrow> char" where
  "at_ptr s = (case s of [] \<Rightarrow> NUL | c # _ \<Rightarrow> c)"

definition up_eq :: "char \<Rightarrow> char \<Rightarrow> bool" where
  "up_eq a b \<longleftrightarrow> esl_toupper (schar a) = esl_toupper (schar b)"

datatype match_result = MatchFound | TextEnded | MatchFailed

lemma tl_shorter: "tl s \<noteq> [] \<Longrightarrow> length (tl s) < length s"
  by (cases s) auto

function stristr_match :: "string \<Rightarrow> string \<Rightarrow> match_result" where
  "stristr_match sptr pptr =
     (if up_eq (at_ptr sptr) (at_ptr pptr) then
        (if tl pptr = [] then MatchFound
         else if tl sptr = [] then TextEnded
         else stristr_match (tl sptr) (tl pptr))
      else MatchFailed)"
  by pat_completeness auto
termination
  by (relation "measure (\<lambda>(s, p). length s)") (simp_all add: tl_shorter del: length_tl)

declare stristr_match.simps [simp del]

function stristr_from :: "string \<Rightarrow> string \<Rightarrow> string option" where
  "stristr_from instr start =
     (if start = [] then None
      else case dropWhile (\<lambda>x. \<not> up_eq x (at_ptr instr)) start of
             [] \<Rightarrow> None
           | c # rest \<Rightarrow>
               (case stristr_match (c # rest) instr of
                  MatchFound \<Rightarrow> Some (c # rest)
                | TextEnded \<Rightarrow> None
                | MatchFailed \<Rightarrow> stristr_from instr rest))"
  by pat_completeness auto
termination
proof (relation "measure (\<lambda>(instr, start). length start)")
  fix instr start :: string and c rest
  assume "dropWhile (\<lambda>x. \<not> up_eq x (at_ptr instr)) start = c # rest"
  then have "length (c # rest) \<le> length start" by (metis length_dropWhile_le)
  then show "((instr, rest), (instr, start)) \<in> measure (\<lambda>(instr, start). length start)" by simp
qed simp

declare stristr_from.simps [simp del]

definition esl_stristr :: "string option \<Rightarrow> string option \<Rightarrow> string option" where
  "esl_stristr instr str =
     (case (instr, str) of (Some p, Some s) \<Rightarrow> stristr_from p s | _ \<Rightarrow> None)"

lemma nth_map_int_upt: "i < n - m \<Longrightarrow> map int [m..<n] ! i = int (m + i)"
  by simp

lemma esl_toupper_char:
  "esl_toupper (schar c) = (if 97 \<le> schar c \<and> schar c \<le> 122 then schar c - 32 else schar c)"
proof (cases "byte_of c < 128")
  case True
  have "esl_C_toupper ! Suc (byte_of c) =
      int (if 97 \<le> byte_of c \<and> byte_of c \<le> 122 then byte_of c - 32 else byte_of c)"
    using True by (auto simp: esl_C_toupper_def nth_append simp del: upt_Suc upt_rec_numeral)
  then show ?thesis using True
    by (auto simp: esl_toupper_def schar_def nat_add_distrib of_nat_diff)
next
  case False
  then have "\<not> 353 \<le> byte_of c" using byte_of_less [of c] by linarith
  then show ?thesis using False byte_of_less [of c]
    by (auto simp: esl_toupper_def schar_def simp del: byte_of_less)
qed

lemma schar_inject: "schar a = schar b \<longleftrightarrow> a = b"
proof
  assume "schar a = schar b"
  then have "byte_of a = byte_of b"
    using byte_of_less [of a] byte_of_less [of b]
    by (simp add: schar_def split: if_splits del: byte_of_inject byte_of_less)
  then show "a = b" by simp
qed simp

lemma up_eq_iff: "up_eq a b \<longleftrightarrow> c_tolower a = c_tolower b"
proof -
  have lower: "byte_of (c_tolower c) = (if 65 \<le> byte_of c \<and> byte_of c \<le> 90 then byte_of c + 32 else byte_of c)" for c
    by (simp add: c_tolower_def)
  have upper: "esl_toupper (schar c) =
      (if 97 \<le> byte_of c \<and> byte_of c \<le> 122 then int (byte_of c) - 32
       else if byte_of c < 128 then int (byte_of c) else int (byte_of c) - 256)" for c
    unfolding esl_toupper_char
    by (cases "byte_of c < 128")
       (use byte_of_less [of c] in \<open>auto simp: schar_def not_less simp del: byte_of_less\<close>)
  define g where "g = (\<lambda>u. if u < 0 then u + 256 else if 65 \<le> u \<and> u \<le> 90 then u + 32 else (u :: int))"
  define h where "h = (\<lambda>l. if 97 \<le> l \<and> l \<le> 122 then l - 32 else if l < 128 then l else (l :: int) - 256)"
  have "int (byte_of (c_tolower c)) = g (esl_toupper (schar c))" for c
    unfolding lower upper g_def using byte_of_less [of c] by (simp del: byte_of_less)
  moreover have "esl_toupper (schar c) = h (int (byte_of (c_tolower c)))" for c
    unfolding lower upper h_def by simp
  ultimately show ?thesis unfolding up_eq_def by (metis byte_of_inject of_nat_eq_iff)
qed

text \<open>The specification of the search: the first place where the pattern matches.\<close>

definition ci_prefix :: "string \<Rightarrow> string \<Rightarrow> bool" where
  "ci_prefix p s \<longleftrightarrow> prefix (map c_tolower p) (map c_tolower s)"

fun ci_find :: "string \<Rightarrow> string \<Rightarrow> string option" where
  "ci_find p [] = None"
| "ci_find p (x # xs) = (if ci_prefix p (x # xs) then Some (x # xs) else ci_find p xs)"

lemma stristr_match_spec:
  assumes "s \<noteq> []" "p \<noteq> []"
  shows "(stristr_match s p = MatchFound \<longleftrightarrow> ci_prefix p s) \<and>
         (stristr_match s p = TextEnded \<longrightarrow> length s < length p)"
  using assms
proof (induction s p rule: stristr_match.induct)
  case (1 s p)
  from "1.prems" obtain c s' d p' where [simp]: "s = c # s'" "p = d # p'"
    by (auto simp: neq_Nil_conv)
  show ?case
  proof (cases "up_eq c d \<and> p' \<noteq> [] \<and> s' \<noteq> []")
    case True
    then have "(stristr_match s' p' = MatchFound \<longleftrightarrow> ci_prefix p' s') \<and>
         (stristr_match s' p' = TextEnded \<longrightarrow> length s' < length p')"
      using "1.IH" by (simp add: at_ptr_def)
    then show ?thesis using True
      by (simp add: stristr_match.simps [of "c # s'" "d # p'"] at_ptr_def ci_prefix_def up_eq_iff)
  next
    case False
    then show ?thesis
      by (auto simp: stristr_match.simps [of "c # s'" "d # p'"] at_ptr_def ci_prefix_def up_eq_iff)
  qed
qed

lemma ci_find_short: "length s < length p \<Longrightarrow> ci_find p s = None"
  by (induction s) (auto simp: ci_prefix_def dest!: prefix_length_le)

lemma ci_find_skip:
  "p \<noteq> [] \<Longrightarrow> ci_find p (dropWhile (\<lambda>x. \<not> up_eq x (at_ptr p)) s) = ci_find p s"
  by (induction s) (auto simp: ci_prefix_def at_ptr_def up_eq_iff neq_Nil_conv)

lemma stristr_from_spec: "p \<noteq> [] \<Longrightarrow> stristr_from p s = ci_find p s"
proof (induction p s rule: stristr_from.induct)
  case (1 p s)
  show ?case
  proof (cases "dropWhile (\<lambda>x. \<not> up_eq x (at_ptr p)) s")
    case Nil
    then have "ci_find p s = None" using ci_find_skip [OF "1.prems", of s] by (metis ci_find.simps(1))
    then show ?thesis unfolding stristr_from.simps [of p s] Nil by simp
  next
    case (Cons c r)
    then have s: "s \<noteq> []" by auto
    note spec = stristr_match_spec [of "c # r" p, OF _ "1.prems"]
    have skip: "ci_find p s = ci_find p (c # r)"
      using ci_find_skip [OF "1.prems", of s] Cons by simp
    show ?thesis
    proof (cases "stristr_match (c # r) p")
      case MatchFound
      then show ?thesis using spec s Cons skip by (simp add: stristr_from.simps [of p s])
    next
      case TextEnded
      then show ?thesis using spec s Cons skip ci_find_short [of "c # r" p]
        by (simp add: stristr_from.simps [of p s])
    next
      case MatchFailed
      then show ?thesis using spec s Cons skip "1.IH" [OF s Cons MatchFailed "1.prems"]
        by (simp add: stristr_from.simps [of p s])
    qed
  qed
qed

section \<open>URL encoding\<close>

definition urlunsafe :: string where
  "urlunsafe = [CR, LF, CHR '' '', CHR 0x22] @ ''#%&+:;<=>?@['' @ [CHR 0x5C] @ '']^'' @ [CHR 0x60] @ ''{|}''"

definition url_hex :: string where
  "url_hex = ''0123456789ABCDEF''"

definition url_is_unsafe :: "char \<Rightarrow> bool" where
  "url_is_unsafe c \<longleftrightarrow> schar c < schar (CHR '' '') \<or> schar (CHR ''~'') < schar c \<or> strchr urlunsafe c \<noteq> None"

definition url_put :: "nat \<Rightarrow> string \<Rightarrow> char \<Rightarrow> string c_result" where
  "url_put cap out c = (if length out < cap then Inr (out @ [c]) else Inl OutOfBounds)"

definition url_hex_digit :: "int \<Rightarrow> char c_result" where
  "url_hex_digit i = (if i < 0 then Inl OutOfBounds else mem_load (url_hex @ [NUL]) (nat i))"

text \<open>
  The loop of \<open>esl_url_encode\<close>: \<open>cap\<close> bytes are allocated for the output, \<open>len\<close> is the
  length after its decrement, \<open>out\<close> what is written so far (so \<open>x = length out\<close>).
\<close>

fun url_encode_loop :: "nat \<Rightarrow> nat \<Rightarrow> string \<Rightarrow> string \<Rightarrow> string c_result" where
  "url_encode_loop cap len [] out = Inr out"
| "url_encode_loop cap len (c # p) out =
     (if len \<le> length out then Inr out
      else if url_is_unsafe c then
        (if len \<le> length out + 3 then Inr out
         else res_bind (url_put cap out CHR ''%'') (\<lambda>o1.
              res_bind (url_hex_digit (schar c div 16)) (\<lambda>h.
              res_bind (url_put cap o1 h) (\<lambda>o2.
              res_bind (url_hex_digit (schar c mod 16)) (\<lambda>l.
              res_bind (url_put cap o2 l) (\<lambda>o3.
              url_encode_loop cap len p o3))))))
      else res_bind (url_put cap out c) (\<lambda>o1. url_encode_loop cap len p o1))"

text \<open>
  \<open>esl_url_encode\<close>: the text left in the buffer, \<open>None\<close> when the buffer is not touched. The
  C return value is the length of the text, or 0.
\<close>

definition esl_url_encode :: "string option \<Rightarrow> nat option \<Rightarrow> nat \<Rightarrow> string option c_result" where
  "esl_url_encode url buf len =
     (case (buf, url) of
        (Some cap, Some u) \<Rightarrow>
          res_bind (url_encode_loop cap (sub64 len 1) u []) (\<lambda>out.
            if length out < cap then Inr (Some out) else Inl OutOfBounds)
      | _ \<Rightarrow> Inr None)"

text \<open>\<open>esl_url_decode\<close> works in place; the result is what it writes before the final NUL.\<close>

function url_decode_loop :: "string \<Rightarrow> string" where
  "url_decode_loop s =
     (case s of
        [] \<Rightarrow> []
      | c # r \<Rightarrow>
          (case (if c = CHR ''%'' \<and> 2 < length s then sscanf_hex 2 r else None) of
             Some tmp \<Rightarrow> char_of tmp # url_decode_loop (drop 2 r)
           | None \<Rightarrow> c # url_decode_loop r))"
  by pat_completeness auto
termination
  by (relation "measure length") auto

declare url_decode_loop.simps [simp del]

definition esl_url_decode :: "string \<Rightarrow> string" where
  "esl_url_decode s = c_str (url_decode_loop s)"

lemma url_decode_Nil [simp]: "url_decode_loop [] = []"
  by (simp add: url_decode_loop.simps)

lemma url_decode_plain: "c \<noteq> CHR ''%'' \<Longrightarrow> url_decode_loop (c # r) = c # url_decode_loop r"
  by (simp add: url_decode_loop.simps [of "c # r"])

lemma url_decode_hex:
  "hex_val a = Some x \<Longrightarrow> hex_val b = Some y \<Longrightarrow>
   url_decode_loop (CHR ''%'' # a # b # r) = char_of (16 * x + y) # url_decode_loop r"
  by (simp add: url_decode_loop.simps [of "CHR ''%'' # a # b # r"] sscanf_hex_2)

text \<open>The encoding of one character, and of a string.\<close>

definition url_enc_char :: "char \<Rightarrow> string" where
  "url_enc_char c =
     (if url_is_unsafe c
      then [CHR ''%'', url_hex ! (byte_of c div 16), url_hex ! (byte_of c mod 16)] else [c])"

definition ascii :: "string \<Rightarrow> bool" where
  "ascii s \<longleftrightarrow> (\<forall>c \<in> set s. byte_of c < 128)"

lemma ascii_Cons [simp]: "ascii (c # s) \<longleftrightarrow> byte_of c < 128 \<and> ascii s"
  by (auto simp: ascii_def)

lemma ascii_Nil [simp]: "ascii []"
  by (simp add: ascii_def)

lemma url_hex_val: "n < 16 \<Longrightarrow> hex_val (url_hex ! n) = Some n"
proof -
  assume "n < 16"
  then have "n \<in> set [0..<16]" by simp
  moreover have "list_all (\<lambda>n. hex_val (url_hex ! n) = Some n) [0..<16]"
    by (simp add: upt_rec url_hex_def hex_val_def byte_of_def Let_def)
  ultimately show ?thesis by (auto simp: list_all_iff)
qed

lemma url_hex_digit_nat: "n < 16 \<Longrightarrow> url_hex_digit (int n) = Inr (url_hex ! n)"
proof -
  assume n: "n < 16"
  have "length url_hex = 16" by (simp add: url_hex_def)
  then show ?thesis using n
    by (simp add: url_hex_digit_def mem_load_def nth_append)
qed

lemma url_percent_unsafe: "url_is_unsafe CHR ''%''"
  by (simp add: url_is_unsafe_def urlunsafe_def)

lemma url_enc_char_length: "length (url_enc_char c) \<le> 3" "url_enc_char c \<noteq> []"
  by (simp_all add: url_enc_char_def)

lemma url_encode_step:
  assumes "byte_of c < 128" "length out + 3 < len" "len \<le> cap"
  shows "url_encode_loop cap len (c # p) out = url_encode_loop cap len p (out @ url_enc_char c)"
proof -
  have s: "schar c = int (byte_of c)" using assms(1) by (simp add: schar_def)
  have "schar c div 16 = int (byte_of c div 16)" "schar c mod 16 = int (byte_of c mod 16)"
    unfolding s by (simp_all add: zdiv_int zmod_int)
  moreover have "byte_of c div 16 < 16" "byte_of c mod 16 < 16" using assms(1) by simp_all
  ultimately show ?thesis
    using assms by (simp add: url_put_def url_enc_char_def url_hex_digit_nat)
qed

lemma url_encode_all:
  assumes "ascii s" "length out + 3 * length s < len" "len \<le> cap"
  shows "url_encode_loop cap len s out = Inr (out @ concat (map url_enc_char s))"
  using assms
proof (induction s arbitrary: out)
  case Nil
  then show ?case by simp
next
  case (Cons c s)
  have "length (out @ url_enc_char c) + 3 * length s < len"
    using Cons.prems(2) url_enc_char_length(1) [of c] by simp
  then show ?case using Cons by (simp add: url_encode_step del: url_encode_loop.simps)
qed

lemma url_decode_enc_char:
  "byte_of c < 128 \<Longrightarrow> url_decode_loop (url_enc_char c @ r) = c # url_decode_loop r"
proof (cases "url_is_unsafe c")
  case True
  assume c: "byte_of c < 128"
  have "hex_val (url_hex ! (byte_of c div 16)) = Some (byte_of c div 16)"
       "hex_val (url_hex ! (byte_of c mod 16)) = Some (byte_of c mod 16)"
    using c by (simp_all add: url_hex_val)
  from url_decode_hex [OF this] show ?thesis using True by (simp add: url_enc_char_def)
next
  case False
  then show ?thesis using url_percent_unsafe
    by (auto simp: url_enc_char_def intro!: url_decode_plain)
qed

lemma url_decode_enc: "ascii s \<Longrightarrow> url_decode_loop (concat (map url_enc_char s)) = s"
  by (induction s) (simp_all add: url_decode_enc_char)

text \<open>In every case the loop stays inside the buffer and writes the encoding of a prefix.\<close>

lemma url_encode_prefix:
  assumes "ascii s" "length out \<le> len" "len \<le> cap"
  shows "\<exists>k \<le> length s. url_encode_loop cap len s out = Inr (out @ concat (map url_enc_char (take k s))) \<and>
           length (out @ concat (map url_enc_char (take k s))) \<le> len"
  using assms
proof (induction s arbitrary: out)
  case Nil
  then show ?case by simp
next
  case (Cons c s)
  show ?case
  proof (cases "len \<le> length out \<or> url_is_unsafe c \<and> len \<le> length out + 3")
    case True
    then have "url_encode_loop cap len (c # s) out = Inr (out @ concat (map url_enc_char (take 0 (c # s))))"
      by auto
    then show ?thesis using Cons.prems(2) by (intro exI [of _ 0]) simp
  next
    case False
    have step: "url_encode_loop cap len (c # s) out = url_encode_loop cap len s (out @ url_enc_char c)"
    proof (cases "url_is_unsafe c")
      case True
      then show ?thesis using False Cons.prems by (intro url_encode_step) auto
    next
      case False
      then show ?thesis using \<open>\<not> (len \<le> length out \<or> _)\<close> Cons.prems(3)
        by (simp add: url_put_def url_enc_char_def)
    qed
    have "length (out @ url_enc_char c) \<le> len" using False by (auto simp: url_enc_char_def)
    then obtain k where "k \<le> length s"
      "url_encode_loop cap len s (out @ url_enc_char c) =
         Inr ((out @ url_enc_char c) @ concat (map url_enc_char (take k s)))"
      "length ((out @ url_enc_char c) @ concat (map url_enc_char (take k s))) \<le> len"
      using Cons by fastforce
    then show ?thesis using step by (intro exI [of _ "Suc k"]) simp
  qed
qed

section \<open>Splitting a string\<close>

text \<open>
  The slots of the result array are filled one by one; \<open>room\<close> are those left behind the
  current one. With an empty delimiter the NUL is written over the piece itself.
\<close>

fun sep_fill :: "string \<Rightarrow> nat \<Rightarrow> string \<Rightarrow> string list" where
  "sep_fill delim 0 cur = [cur]"
| "sep_fill delim (Suc room) cur =
     (case strstr cur delim of
        None \<Rightarrow> [cur]
      | Some d \<Rightarrow> take (length cur - length d) cur #
                  sep_fill delim room (if delim = [] then [] else drop (length delim) d))"

definition esl_separate_string_string :: "string \<Rightarrow> string \<Rightarrow> nat \<Rightarrow> string list c_result" where
  "esl_separate_string_string buf delim arraylen =
     (if arraylen = 0 then Inl OutOfBounds else Inr (sep_fill delim (arraylen - 1) buf))"

fun join_with :: "string \<Rightarrow> string list \<Rightarrow> string" where
  "join_with d [] = []"
| "join_with d [x] = x"
| "join_with d (x # y # ys) = x @ d @ join_with d (y # ys)"

lemma strstr_None_iff: "strstr s p = None \<longleftrightarrow> \<not> sublist p s"
  by (induction s) (auto simp: sublist_Cons_right)

lemma strstr_shape:
  assumes "strstr s p = Some d"
  shows "s = take (length s - length d) s @ p @ drop (length p) d"
proof -
  from strstr_suffix [OF assms] obtain u v where s: "s = u @ d" and d: "d = p @ v"
    by (auto simp: suffix_def prefix_def)
  then show ?thesis by simp
qed

text \<open>The part before the first occurrence does not contain the pattern.\<close>

lemma strstr_first:
  assumes "strstr s p = Some d" "p \<noteq> []"
  shows "\<not> sublist p (take (length s - length d) s)"
  using assms
proof (induction s)
  case Nil
  then show ?case by (simp split: if_splits)
next
  case (Cons x s)
  show ?case
  proof (cases "prefix p (x # s)")
    case True
    then show ?thesis using Cons.prems by auto
  next
    case False
    then have d: "strstr s p = Some d" using Cons.prems(1) by simp
    have len: "length d \<le> length s" using strstr_length [OF d] by simp
    have "prefix (x # take (length s - length d) s) (x # s)" by (simp add: take_is_prefix)
    then have "\<not> prefix p (x # take (length s - length d) s)" using False prefix_order.trans by blast
    then show ?thesis
      using Cons.IH [OF d Cons.prems(2)] len by (auto simp: Suc_diff_le sublist_Cons_right)
  qed
qed

lemma sep_fill_nonempty [simp]: "sep_fill delim room cur \<noteq> []"
  by (cases room) (auto split: option.splits)

lemma join_with_Cons: "xs \<noteq> [] \<Longrightarrow> join_with d (x # xs) = x @ d @ join_with d xs"
  by (cases xs) auto

lemma sep_fill_join: "delim \<noteq> [] \<Longrightarrow> join_with delim (sep_fill delim room cur) = cur"
proof (induction room arbitrary: cur)
  case (Suc room)
  then show ?case
    by (auto simp: join_with_Cons split: option.splits dest: strstr_shape [symmetric])
qed simp

lemma sep_fill_length: "length (sep_fill delim room cur) \<le> Suc room"
  by (induction room arbitrary: cur) (auto split: option.splits)

lemma sep_fill_pieces:
  "delim \<noteq> [] \<Longrightarrow> \<forall>x \<in> set (butlast (sep_fill delim room cur)). \<not> sublist delim x"
  by (induction room arbitrary: cur) (auto split: option.splits dest: strstr_first)

lemma sep_fill_complete:
  "delim \<noteq> [] \<Longrightarrow> length (sep_fill delim room cur) \<le> room \<Longrightarrow>
   \<not> sublist delim (last (sep_fill delim room cur))"
  by (induction room arbitrary: cur) (auto split: option.splits simp flip: strstr_None_iff)

section \<open>Formatting and logging\<close>

text \<open>
  \<open>esl_snprintf\<close> hands one byte less than the size of the buffer to \<^verbatim>\<open>vsnprintf\<close>, which
  never returns a negative value for the formats of the library. \<open>text\<close> is the formatted
  text; the result is what the buffer of \<open>count\<close> bytes holds, a fault when a count of 0
  wraps around and the text does not fit in nothing.
\<close>

definition esl_snprintf :: "nat \<Rightarrow> string \<Rightarrow> string c_result" where
  "esl_snprintf count text =
     (if count = 0 then Inl OutOfBounds else Inr (snprintf_text (sub64 count 1) text))"

text \<open>\<open>cut_path\<close>: the loop over the delimiters, each search starting again at the front.\<close>

function after_last :: "char \<Rightarrow> string \<Rightarrow> string \<Rightarrow> string" where
  "after_last c p ret = (case strchr p c of None \<Rightarrow> ret | Some q \<Rightarrow> after_last c (tl q) (tl q))"
  by pat_completeness auto
termination
proof (relation "measure (\<lambda>(c, p, ret). length p)")
  fix c p q
  assume "strchr p c = Some q"
  then show "((c, tl q, tl q), (c, p, ret)) \<in> measure (\<lambda>(c, p, ret). length p)" for ret :: string
    using strchr_split [of p c q] strchr_length [of p c q] by auto
qed simp

declare after_last.simps [simp del]

definition cut_path :: "string \<Rightarrow> string" where
  "cut_path inp = fold (\<lambda>i ret. after_last i inp ret) [CHR ''/'', CHR 0x5C] inp"

definition level_names :: "string list" where
  "level_names = [''EMERG'', ''ALERT'', ''CRIT'', ''ERROR'', ''WARNING'', ''NOTICE'', ''INFO'', ''DEBUG'']"

datatype 'l esl_logger = NullLogger | DefaultLogger | CustomLogger 'l

record 'l log_state =
  esl_log :: "'l esl_logger"
  esl_log_level :: int

definition initial_log :: "'l log_state" where
  "initial_log = \<lparr>esl_log = NullLogger, esl_log_level = 7\<rparr>"

definition esl_global_set_logger :: "'l log_state \<Rightarrow> 'l esl_logger option \<Rightarrow> 'l log_state" where
  "esl_global_set_logger st logger =
     (case logger of Some l \<Rightarrow> st\<lparr>esl_log := l\<rparr> | None \<Rightarrow> st\<lparr>esl_log := NullLogger\<rparr>)"

definition clamp_level :: "int \<Rightarrow> int" where
  "clamp_level level = (if level < 0 \<or> 7 < level then 7 else level)"

definition esl_global_set_default_logger :: "'l log_state \<Rightarrow> int \<Rightarrow> 'l log_state" where
  "esl_global_set_default_logger st level =
     st\<lparr>esl_log := DefaultLogger, esl_log_level := clamp_level level\<rparr>"

text \<open>
  \<open>default_logger\<close>: what is printed on the error stream; \<open>data\<close> is the formatted message,
  \<open>None\<close> when \<^verbatim>\<open>vasprintf\<close> fails.
\<close>

definition default_logger ::
  "'l log_state \<Rightarrow> string \<Rightarrow> string \<Rightarrow> int \<Rightarrow> int \<Rightarrow> string option \<Rightarrow> string" where
  "default_logger st file func line level data =
     (let level = clamp_level level
      in if esl_log_level st < level then []
         else case data of None \<Rightarrow> []
              | Some d \<Rightarrow> ''['' @ level_names ! nat level @ ''] '' @ cut_path file @ '':'' @
                          dec_int line @ '' '' @ func @ ''() '' @ d)"

lemma after_last_spec:
  "after_last c p ret = (if c \<in> set p then rev (takeWhile (\<lambda>x. x \<noteq> c) (rev p)) else ret)"
proof (induction c p ret rule: after_last.induct)
  case (1 c p ret)
  show ?case
  proof (cases "strchr p c")
    case None
    then show ?thesis using strchr_None_iff [of p c] by (simp add: after_last.simps [of c p])
  next
    case (Some q)
    then obtain t where p: "p = before_chr p c @ c # t" and q: "q = c # t"
      using strchr_split [OF Some] by auto
    have "after_last c p ret = after_last c t t"
      using Some q by (simp add: after_last.simps [of c p])
    also have "\<dots> = (if c \<in> set t then rev (takeWhile (\<lambda>x. x \<noteq> c) (rev t)) else t)"
      using "1.IH" [OF Some] q by simp
    also have "\<dots> = rev (takeWhile (\<lambda>x. x \<noteq> c) (rev (before_chr p c @ c # t)))"
      by (simp add: takeWhile_append)
    finally show ?thesis using p by (metis in_set_conv_decomp)
  qed
qed

section \<open>Properties\<close>

lemma url_encode_append:
  assumes "ascii a" "length out + 3 * length a < len" "len \<le> cap"
  shows "url_encode_loop cap len (a @ b) out = url_encode_loop cap len b (out @ concat (map url_enc_char a))"
  using assms
proof (induction a arbitrary: out)
  case Nil
  then show ?case by simp
next
  case (Cons c a)
  have "length (out @ url_enc_char c) + 3 * length a < len"
    using Cons.prems(2) url_enc_char_length(1) [of c] by simp
  then show ?case using Cons by (simp add: url_encode_step del: url_encode_loop.simps)
qed

lemma enc_length: "length (concat (map url_enc_char a)) \<le> 3 * length a"
proof (induction a)
  case (Cons c a)
  then show ?case using url_enc_char_length(1) [of c] by simp
qed simp

lemma url_encode_high:
  assumes "128 \<le> byte_of c" "length out + 3 < len" "len \<le> cap"
  shows "url_encode_loop cap len (c # t) out = Inl OutOfBounds"
proof -
  have "schar c < 0" using assms(1) byte_of_less [of c] by (simp add: schar_def del: byte_of_less)
  then have "schar c div 16 < 0" by simp
  moreover have "schar (CHR '' '') = 32" by (simp add: schar_def byte_of_def)
  moreover note \<open>schar c < 0\<close>
  ultimately show ?thesis using assms
    by (simp add: url_is_unsafe_def url_put_def url_hex_digit_def)
qed

text \<open>
  For a text of ASCII characters the encoder stays inside a buffer of at least \<open>len\<close>
  bytes, whatever \<open>len\<close> is, and decoding what it wrote gives back a prefix of the text: all of
  it when the buffer has three bytes per character and two more.
\<close>

theorem url_round_trip:
  assumes "ascii s" and "cstring s" and "1 \<le> len" and "len \<le> cap" and "len < 2 ^ 64"
  shows "\<exists>out k. esl_url_encode (Some s) (Some cap) len = Inr (Some out) \<and> length out < len \<and>
           esl_url_decode out = take k s \<and> (3 * length s + 2 \<le> len \<longrightarrow> k = length s)"
proof -
  have len: "sub64 len 1 = len - 1" using assms by (intro sub64_exact) auto
  obtain k where k: "k \<le> length s"
      "url_encode_loop cap (len - 1) s [] = Inr ([] @ concat (map url_enc_char (take k s)))"
      "length ([] @ concat (map url_enc_char (take k s))) \<le> len - 1"
  proof -
    have "len - 1 \<le> cap" using assms(4) by simp
    then show thesis using url_encode_prefix [of s "[]" "len - 1" cap] assms(1) that by fastforce
  qed
  define k' where "k' = (if 3 * length s + 2 \<le> len then length s else k)"
  have loop: "url_encode_loop cap (len - 1) s [] = Inr (concat (map url_enc_char (take k' s)))"
    using k(2) url_encode_all [of s "[]" "len - 1" cap] assms by (auto simp: k'_def)
  have fit: "length (concat (map url_enc_char (take k' s))) < len"
    using k(3) enc_length [of s] assms(3) by (auto simp: k'_def)
  have "ascii (take k' s)" using assms(1) by (auto simp: ascii_def dest: in_set_takeD)
  then have "esl_url_decode (concat (map url_enc_char (take k' s))) = take k' s"
    using assms(2) by (simp add: esl_url_decode_def url_decode_enc c_str_id cstring_take)
  then show ?thesis using loop fit assms(4) len
    by (intro exI [of _ "concat (map url_enc_char (take k' s))"] exI [of _ k'])
       (auto simp: esl_url_encode_def k'_def)
qed

theorem url_round_trip_witness:
  "\<exists>out k. esl_url_encode (Some ''a b%41'') (Some 20) 20 = Inr (Some out) \<and> length out < 20 \<and>
     esl_url_decode out = take k ''a b%41'' \<and> (3 * length ''a b%41'' + 2 \<le> 20 \<longrightarrow> k = length ''a b%41'')"
  by (rule url_round_trip) (simp_all add: byte_of_def)

text \<open>
  A byte from 128 up, so any character of a UTF-8 text outside ASCII, makes the encoder
  read outside its table of hexadecimal digits: the shift of the signed character gives a
  negative index.
\<close>

theorem url_encode_non_ascii_fault:
  assumes "ascii a" and "128 \<le> byte_of c" and "3 * length a + 5 \<le> len" and "len \<le> cap" and "len < 2 ^ 64"
  shows "esl_url_encode (Some (a @ c # t)) (Some cap) len = Inl OutOfBounds"
proof -
  have len: "sub64 len 1 = len - 1" using assms by (intro sub64_exact) auto
  have "url_encode_loop cap (len - 1) (a @ c # t) [] =
        url_encode_loop cap (len - 1) (c # t) ([] @ concat (map url_enc_char a))"
    using assms by (intro url_encode_append) auto
  also have "\<dots> = Inl OutOfBounds"
    using assms enc_length [of a] by (intro url_encode_high) auto
  finally show ?thesis using len by (simp add: esl_url_encode_def)
qed

theorem url_encode_non_ascii_fault_witness:
  "esl_url_encode (Some (''n='' @ CHR 0xE5 # [])) (Some 32) 32 = Inl OutOfBounds"
  by (rule url_encode_non_ascii_fault) (simp_all add: byte_of_def)

text \<open>
  The two nested loops of the case-insensitive search find exactly the first place of the
  text where a non-empty pattern matches up to case, and nothing when there is none.
\<close>

theorem stristr_first_match:
  assumes "p \<noteq> []"
  shows "esl_stristr (Some p) (Some s) = ci_find p s"
  using stristr_from_spec [OF assms] by (simp add: esl_stristr_def)

theorem stristr_first_match_witness:
  "esl_stristr (Some ''Plain'') (Some ''text/event-PLAIN'') = Some ''PLAIN''"
  using stristr_first_match [of "''Plain''" "''text/event-PLAIN''"]
  by (simp add: ci_prefix_def c_tolower_def char_eval)

text \<open>
  Splitting with a non-empty delimiter loses nothing: the pieces joined with the delimiter
  are the text, there are at most as many as the array has slots, no piece but the last
  contains the delimiter, and neither does the last when a slot is left.
\<close>

theorem separate_string_pieces:
  assumes "delim \<noteq> []" and "0 < arraylen"
  shows "\<exists>pieces. esl_separate_string_string buf delim arraylen = Inr pieces \<and>
           join_with delim pieces = buf \<and> 0 < length pieces \<and> length pieces \<le> arraylen \<and>
           (\<forall>x \<in> set (butlast pieces). \<not> sublist delim x) \<and>
           (length pieces < arraylen \<longrightarrow> \<not> sublist delim (last pieces))"
  using assms sep_fill_join [of delim "arraylen - 1" buf] sep_fill_length [of delim "arraylen - 1" buf]
    sep_fill_pieces [of delim "arraylen - 1" buf] sep_fill_complete [of delim "arraylen - 1" buf]
  by (auto simp: esl_separate_string_string_def)

theorem separate_string_pieces_witness:
  "\<exists>pieces. esl_separate_string_string ''a||b||c'' ''||'' 2 = Inr pieces \<and>
           join_with ''||'' pieces = ''a||b||c'' \<and> 0 < length pieces \<and> length pieces \<le> 2 \<and>
           (\<forall>x \<in> set (butlast pieces). \<not> sublist ''||'' x) \<and>
           (length pieces < 2 \<longrightarrow> \<not> sublist ''||'' (last pieces))"
  by (rule separate_string_pieces) simp_all

end
