(* ===== verification/EslConfig.thy ===== *)
theory EslConfig
  imports EslText
begin

text \<open>
  The configuration reader of \<^verbatim>\<open>esl/esl_config.c\<close>: lines of the form \<open>name = value\<close> in sections
  and categories, comments, and the bit patterns of \<^verbatim>\<open>esl_config_get_cas_bits\<close>; the truth values
  of \<^verbatim>\<open>esl/esl_config.h\<close>. A file is the text that is still to be read.
\<close>

section \<open>The state\<close>

record esl_config =
  cf_file :: "string option"
  cf_path :: string
  cf_category :: string
  cf_section :: string
  cf_lineno :: int
  cf_catno :: int
  cf_sectno :: int
  cf_lockto :: int

definition zero_config :: esl_config where
  "zero_config = \<lparr>cf_file = None, cf_path = [], cf_category = [], cf_section = [], cf_lineno = 0,
     cf_catno = 0, cf_sectno = 0, cf_lockto = 0\<rparr>"

text \<open>\<open>esl_copy_string\<close> into a cleared array of \<open>n\<close> characters.\<close>

definition esl_copy_string :: "nat \<Rightarrow> string \<Rightarrow> string" where
  "esl_copy_string n s = take (n - 1) s"

section \<open>One line\<close>

definition c_fgets :: "nat \<Rightarrow> string \<Rightarrow> (string \<times> string) option" where
  "c_fgets n s =
     (if s = [] then None
      else let l = before_chr s LF @ (if LF \<in> set s then [LF] else []);
               k = min (length l) (n - 1)
           in Some (take k s, drop k s))"

definition blank :: "char \<Rightarrow> bool" where
  "blank c \<longleftrightarrow> c = CHR '' '' \<or> c = TAB"

text \<open>The text between brackets of a section or category line.\<close>

definition config_bracket :: "string \<Rightarrow> string option" where
  "config_bracket line =
     (if prefix ''['' line \<and> CHR '']'' \<in> set line then Some (tl (before_chr line CHR '']'')) else None)"

text \<open>
  A comment, or the line end, is cut off. The second result is the index of \<open>end\<close>, where blanks stop
  being skipped: the last character in front of a comment, or the end of the text; there is none
  when the file ends without a line feed.
\<close>

definition config_cut_line :: "string \<Rightarrow> string \<times> nat option" where
  "config_cut_line line =
     (if LF \<notin> set line then (line, None)
      else let t = before_chr line LF
           in if t \<noteq> [] \<and> last t = CR then (butlast t, Some (length t - 1)) else (t, Some (length t)))"

definition config_cut :: "string \<Rightarrow> string \<times> nat option" where
  "config_cut line =
     (case strchr line CHR '';'' of
        Some (c # d # r) \<Rightarrow>
          if d = CHR '';''
          then (before_chr line CHR '';'', Some (length (before_chr line CHR '';'') - 1))
          else config_cut_line line
      | _ \<Rightarrow> config_cut_line line)"

text \<open>Blanks are skipped from the text at index \<open>at\<close> on, up to the index of \<open>end\<close>.\<close>

definition skip_blanks :: "nat option \<Rightarrow> nat \<Rightarrow> string \<Rightarrow> string" where
  "skip_blanks stop at s =
     (let n = length (takeWhile blank s)
      in drop (case stop of None \<Rightarrow> n | Some e \<Rightarrow> if at \<le> e then min n (e - at) else n) s)"

text \<open>Blanks behind the name are cut off, but never its first character.\<close>

definition trim_name :: "string \<Rightarrow> string" where
  "trim_name s = (case s of [] \<Rightarrow> [] | c # r \<Rightarrow> c # rev (dropWhile blank (rev r)))"

text \<open>The name from where it starts, and the pair when there is an equals sign.\<close>

definition config_split :: "string \<Rightarrow> string \<times> (string \<times> string) option" where
  "config_split line =
     (case config_cut line of (t, stop) \<Rightarrow>
        let var = skip_blanks stop 0 t
        in (var,
            case strchr var CHR ''='' of
              None \<Rightarrow> None
            | Some q \<Rightarrow>
                let val = (if prefix ''>'' (tl q) then tl (tl q) else tl q)
                in Some (trim_name (before_chr var CHR ''=''), skip_blanks stop (length t - length val) val)))"

section \<open>The next pair\<close>

lemma c_fgets_shorter: "c_fgets 1024 s = Some (l, rest) \<Longrightarrow> length rest < length s"
  by (cases s) (auto simp: c_fgets_def before_chr_def Let_def split: if_splits)

text \<open>
  The loop over the lines. The results are the C return value and what \<open>var\<close> and \<open>val\<close> point to; \<open>ret\<close>
  is the return value so far, which a line without an equals sign sets to -1.
\<close>

function config_loop :: "int \<Rightarrow> string option \<Rightarrow> esl_config \<Rightarrow> int \<times> string option \<times> string option \<times> esl_config" where
  "config_loop ret var cfg =
     (let cfg1 = cfg\<lparr>cf_lineno := cf_lineno cfg + 1\<rparr>
      in case Option.bind (cf_file cfg) (c_fgets 1024) of
           None \<Rightarrow> (0, var, None, cfg1)
         | Some (raw, rest) \<Rightarrow>
             let line = c_str raw; cfg2 = cfg1\<lparr>cf_file := Some rest\<rparr>
             in case config_bracket line of
                  Some inner \<Rightarrow>
                    if prefix ''+'' inner
                    then let cfg3 = cfg2\<lparr>cf_section := esl_copy_string 256 (tl inner), cf_sectno := cf_sectno cfg2 + 1\<rparr>
                         in if -1 < cf_lockto cfg3 \<and> cf_sectno cfg3 \<noteq> cf_lockto cfg3
                            then (ret, Some (tl inner), None, cfg3)
                            else (1, Some [], Some [], cfg3\<lparr>cf_catno := 0, cf_lineno := 0\<rparr>)
                    else config_loop ret (Some inner)
                           (cfg2\<lparr>cf_category := esl_copy_string 256 inner, cf_catno := cf_catno cfg2 + 1\<rparr>)
                | None \<Rightarrow>
                    if prefix ''#'' line \<or> prefix '';'' line \<or> prefix [LF] line \<or> prefix [CR] line
                    then config_loop ret (Some line) cfg2
                    else if prefix ''__END__'' line then (ret, Some line, None, cfg2)
                    else case config_split line of
                           (v, None) \<Rightarrow> config_loop (-1) (Some v) cfg2
                         | (v, Some (name, val)) \<Rightarrow> (1, Some name, Some val, cfg2))"
  by pat_completeness auto
termination
  by (relation "measure (\<lambda>(ret, var, cfg). case cf_file cfg of None \<Rightarrow> 0 | Some s \<Rightarrow> length s)")
     (auto dest!: c_fgets_shorter split: option.splits simp: bind_eq_Some_conv)

declare config_loop.simps [simp del]

definition esl_config_next_pair :: "esl_config \<Rightarrow> int \<times> string option \<times> string option \<times> esl_config" where
  "esl_config_next_pair cfg =
     (if cf_file cfg = None then (0, None, None, cfg) else config_loop 0 None cfg)"

definition esl_config_close_file :: "esl_config \<Rightarrow> esl_config" where
  "esl_config_close_file cfg = zero_config"

definition config_left :: "esl_config \<Rightarrow> nat" where
  "config_left cfg = (case cf_file cfg of None \<Rightarrow> 0 | Some s \<Rightarrow> length s)"

lemma config_loop_shorter:
  "config_loop ret var cfg = (r, v, w, cfg') \<Longrightarrow> (r = 0 \<and> config_left cfg' \<le> config_left cfg) \<or> config_left cfg' < config_left cfg"
proof (induction ret var cfg arbitrary: r v w cfg' rule: config_loop.induct)
  case (1 ret var cfg)
  show ?case
  proof (cases "Option.bind (cf_file cfg) (c_fgets 1024)")
    case None
    then show ?thesis using "1.prems" by (simp add: config_loop.simps [of ret var cfg] config_left_def) auto
  next
    case (Some p)
    obtain raw rest where p: "p = (raw, rest)" by (cases p)
    then have sh: "length rest < config_left cfg"
      using Some by (auto simp: bind_eq_Some_conv config_left_def dest: c_fgets_shorter)
    note IH = "1.IH" [OF refl Some p [symmetric] refl refl]
    note step = "1.prems" [unfolded config_loop.simps [of ret var cfg]]
    let ?line = "c_str raw"
    show ?thesis
    proof (cases "config_bracket ?line")
      case None
      obtain v0 y where sp: "config_split ?line = (v0, y)" by (cases "config_split ?line")
      show ?thesis using step Some p sh None IH(1) [OF None] IH(2) [OF None _ _ sp [symmetric]] sp
        by (cases y) (auto simp: Let_def config_left_def split: if_splits option.splits)
    next
      case inner: (Some inner)
      show ?thesis using step Some p sh inner IH(3) [OF inner]
        by (auto simp: Let_def config_left_def split: if_splits)
    qed
  qed
qed

lemma next_pair_shorter:
  "esl_config_next_pair cfg = (r, v, w, cfg') \<Longrightarrow> r \<noteq> 0 \<Longrightarrow> config_left cfg' < config_left cfg"
  using config_loop_shorter [of 0 None cfg r v w cfg'] by (auto simp: esl_config_next_pair_def split: if_splits)

section \<open>Opening a file\<close>

text \<open>
  A relative name that is no file is looked for as a section of \<^verbatim>\<open>openesl.conf\<close>; \<open>files\<close> are the
  texts of the files.
\<close>

definition config_path :: "string \<Rightarrow> string" where
  "config_path file = snprintf_text (1024 - 1) (''/etc/openesl'' @ ''/'' @ file)"

function config_find :: "string \<Rightarrow> esl_config \<Rightarrow> int \<times> esl_config" where
  "config_find name cfg =
     (case esl_config_next_pair cfg of (r, v, w, c) \<Rightarrow>
        if r = 0 then (0, esl_config_close_file c)
        else if cf_sectno c \<noteq> -1 \<and> cf_section c = name then (1, c\<lparr>cf_lockto := cf_sectno c\<rparr>)
        else config_find name c)"
  by pat_completeness auto
termination
  by (relation "measure (\<lambda>(name, cfg). config_left cfg)") (auto dest: next_pair_shorter [OF sym])

declare config_find.simps [simp del]

definition esl_config_open_file :: "(string \<Rightarrow> string option) \<Rightarrow> string \<Rightarrow> int \<times> esl_config" where
  "esl_config_open_file files file_path =
     (let absolute = prefix ''/'' file_path;
          path = (if absolute then file_path else config_path file_path);
          cfg = zero_config\<lparr>cf_lockto := -1\<rparr>
      in case files path of
           Some t \<Rightarrow> (1, cfg\<lparr>cf_file := Some t, cf_path := esl_copy_string 512 path\<rparr>)
         | None \<Rightarrow>
             if absolute then (0, cfg)
             else let path' = config_path ''openesl.conf''
                  in case files path' of
                       None \<Rightarrow> (0, cfg)
                     | Some t \<Rightarrow>
                         config_find file_path (cfg\<lparr>cf_file := Some t, cf_path := esl_copy_string 512 path'\<rparr>))"

section \<open>Values\<close>

text \<open>
  \<open>cas_loop\<close> runs over the four characters behind the colon, with the bit to set and the bits set
  so far; it stops with -1 at a character that is neither 0 nor 1. The second result of
  \<open>esl_config_get_cas_bits\<close> is what is written to \<open>outbits\<close>, \<open>None\<close> where nothing is.
\<close>

fun cas_loop :: "string \<Rightarrow> 8 word \<Rightarrow> 8 word \<Rightarrow> int \<times> 8 word" where
  "cas_loop [] bitw out = (0, out)"
| "cas_loop (c # cs) bitw out =
     (if c = CHR ''1'' then cas_loop cs (drop_bit 1 bitw) (or out bitw)
      else if c \<noteq> CHR ''0'' then (-1, out) else cas_loop cs (drop_bit 1 bitw) out)"

definition esl_config_get_cas_bits :: "string \<Rightarrow> int \<times> 8 word option" where
  "esl_config_get_cas_bits strvalue =
     (case strchr strvalue CHR '':'' of
        None \<Rightarrow> (-1, None)
      | Some q \<Rightarrow>
          if length (tl q) < 4 then (-1, Some 0)
          else (case cas_loop (take 4 (tl q)) 8 0 of (r, w) \<Rightarrow> (r, Some w)))"

definition any_of :: "string list \<Rightarrow> string \<Rightarrow> bool" where
  "any_of ws s \<longleftrightarrow> list_ex (strcaseeq s) ws"

definition esl_true :: "string option \<Rightarrow> bool" where
  "esl_true expr =
     (case expr of None \<Rightarrow> False
      | Some s \<Rightarrow> any_of [''yes'', ''on'', ''true'', ''enabled'', ''active'', ''allow''] s \<or> c_atoi s \<noteq> 0)"

definition esl_false :: "string option \<Rightarrow> bool" where
  "esl_false expr =
     (case expr of None \<Rightarrow> False
      | Some s \<Rightarrow> any_of [''no'', ''off'', ''false'', ''disabled'', ''inactive'', ''disallow''] s \<or> \<not> c_atoi s \<noteq> 0)"

text \<open>A word for true has no digits, so \<open>esl_false\<close> takes it for false as well.\<close>

lemma true_words_are_false:
  "\<forall>w \<in> set [''yes'', ''on'', ''true'', ''enabled'', ''active'', ''allow'']. esl_true (Some w) \<and> esl_false (Some w)"
  by (simp add: esl_true_def esl_false_def any_of_def c_atoi_def c_strtol10_def Let_def c_isspace_def c_isdigit_def
      byte_of_def)

section \<open>Reading a file that was written\<close>

datatype config_entry = ConfPair string string | ConfComment string | ConfCategory string | ConfSection string

fun entry_line :: "config_entry \<Rightarrow> string" where
  "entry_line (ConfPair n v) = n @ '' = '' @ v @ [LF]"
| "entry_line (ConfComment c) = ''#'' @ c @ [LF]"
| "entry_line (ConfCategory c) = ''['' @ c @ '']'' @ [LF]"
| "entry_line (ConfSection s) = ''[+'' @ s @ '']'' @ [LF]"

fun entry_ok :: "config_entry \<Rightarrow> bool" where
  "entry_ok (ConfPair n v) \<longleftrightarrow>
     n \<noteq> [] \<and> hd n \<notin> {CHR ''['', CHR ''#'', CR} \<and> \<not> blank (hd n) \<and> \<not> blank (last n) \<and> \<not> prefix ''__END__'' n \<and>
     set n \<inter> {CHR ''='', CHR '';'', LF, NUL} = {} \<and>
     v \<noteq> [] \<and> \<not> blank (hd v) \<and> last v \<noteq> CR \<and> set v \<inter> {CHR '';'', LF, NUL} = {}"
| "entry_ok (ConfComment c) \<longleftrightarrow> LF \<notin> set c \<and> NUL \<notin> set c"
| "entry_ok (ConfCategory c) \<longleftrightarrow> set c \<inter> {CHR '']'', LF, NUL} = {} \<and> \<not> prefix ''+'' c"
| "entry_ok (ConfSection c) \<longleftrightarrow> set c \<inter> {CHR '']'', LF, NUL} = {}"

definition entries_ok :: "config_entry list \<Rightarrow> bool" where
  "entries_ok es \<longleftrightarrow> list_all (\<lambda>e. entry_ok e \<and> length (entry_line e) < 1024) es"

text \<open>What the entries mean: the pairs a reader is to see, a section as a pair of empty texts.\<close>

fun entry_pairs :: "config_entry \<Rightarrow> (string \<times> string) list" where
  "entry_pairs (ConfPair n v) = [(n, v)]"
| "entry_pairs (ConfSection s) = [([], [])]"
| "entry_pairs _ = []"

function config_all :: "esl_config \<Rightarrow> (string option \<times> string option) list" where
  "config_all cfg =
     (case esl_config_next_pair cfg of (r, v, w, c) \<Rightarrow> if r = 0 then [] else (v, w) # config_all c)"
  by pat_completeness auto
termination
  by (relation "measure config_left") (auto dest: next_pair_shorter [OF sym])

declare config_all.simps [simp del]

lemma fgets_line:
  assumes "LF \<notin> set body" "length body < 1023"
  shows "c_fgets 1024 (body @ LF # rest) = Some (body @ [LF], rest)"
proof -
  have "before_chr (body @ LF # rest) LF = body" using assms(1) by (induction body) (auto simp: before_chr_def)
  then show ?thesis using assms(2) by (simp add: c_fgets_def Let_def)
qed

lemma before_chr_at: "c \<notin> set a \<Longrightarrow> before_chr (a @ c # r) c = a"
  by (induction a) (auto simp: before_chr_def)

lemma strchr_at: "c \<notin> set a \<Longrightarrow> strchr (a @ c # r) c = Some (c # r)"
  by (induction a) auto

lemma dropWhile_rev_last: "r \<noteq> [] \<Longrightarrow> \<not> P (last r) \<Longrightarrow> dropWhile P (rev r) = rev r"
  by (cases r rule: rev_cases) auto

lemma trim_name_spaced: "n \<noteq> [] \<Longrightarrow> \<not> blank (last n) \<Longrightarrow> trim_name (n @ '' '') = n"
proof -
  assume n: "n \<noteq> []" "\<not> blank (last n)"
  then obtain c r where c: "n = c # r" by (cases n) auto
  have "dropWhile blank (rev (r @ '' '')) = dropWhile blank (rev r)" by (simp add: blank_def)
  also have "\<dots> = rev r" using n c by (cases "r = []") (auto intro: dropWhile_rev_last)
  finally show ?thesis by (simp add: c trim_name_def)
qed

lemma pair_split:
  assumes "entry_ok (ConfPair n v)"
  shows "config_split (n @ '' = '' @ v @ [LF]) = (n @ '' = '' @ v, Some (n, v))"
proof -
  let ?t = "n @ '' = '' @ v"
  have ok: "n \<noteq> []" "\<not> blank (hd n)" "\<not> blank (last n)" "CHR ''='' \<notin> set n" "v \<noteq> []" "\<not> blank (hd v)" "last v \<noteq> CR"
      "CHR '';'' \<notin> set (n @ '' = '' @ v @ [LF])" "LF \<notin> set ?t"
    using assms by auto
  have "config_cut (n @ '' = '' @ v @ [LF]) = config_cut_line (n @ '' = '' @ v @ [LF])"
  proof -
    have "strchr (n @ '' = '' @ v @ [LF]) CHR '';'' = None" by (rule strchr_None_iff [THEN iffD2, OF ok(8)])
    then show ?thesis by (simp only: config_cut_def option.case)
  qed
  also have "\<dots> = (?t, Some (length ?t))"
    using ok(5,7) ok(9) before_chr_at [of LF ?t "[]"] by (simp add: config_cut_line_def Let_def)
  finally have cut: "config_cut (n @ '' = '' @ v @ [LF]) = (?t, Some (length ?t))" .
  have "takeWhile blank ?t = []" using ok(1,2) by (cases n) auto
  then have var: "skip_blanks (Some (length ?t)) 0 ?t = ?t" by (simp add: skip_blanks_def del: append.simps)
  have eq: "?t = (n @ '' '') @ CHR ''='' # CHR '' '' # v" by simp
  have q: "strchr ?t CHR ''='' = Some (CHR ''='' # CHR '' '' # v)" "before_chr ?t CHR ''='' = n @ '' ''"
    unfolding eq using ok(4) by (auto simp del: append.simps append_assoc intro!: strchr_at before_chr_at)
  have "takeWhile blank (CHR '' '' # v) = '' ''" using ok(5,6) by (cases v) (auto simp: blank_def)
  then have val: "skip_blanks (Some (length ?t)) (length ?t - length (CHR '' '' # v)) (CHR '' '' # v) = v"
    by (simp add: skip_blanks_def Let_def)
  show ?thesis
    unfolding config_split_def cut prod.case Let_def var q option.case
    using val trim_name_spaced [OF ok(1,3)] by simp
qed

definition entries_text :: "config_entry list \<Rightarrow> string" where
  "entries_text es = concat (map entry_line es)"

lemma bracket_line:
  "CHR '']'' \<notin> set c \<Longrightarrow> config_bracket (CHR ''['' # c @ CHR '']'' # r) = Some c"
  using before_chr_at [of "CHR '']''" "CHR ''['' # c" r] by (auto simp: config_bracket_def)

text \<open>What the loop returns when the entries \<open>es\<close> are left in the file.\<close>

definition loop_reads :: "config_entry list \<Rightarrow> int \<times> string option \<times> string option \<times> esl_config \<Rightarrow> bool" where
  "loop_reads es res \<longleftrightarrow>
     (case concat (map entry_pairs es) of
        [] \<Rightarrow> (\<exists>v c. res = (0, v, None, c))
      | p # ps \<Rightarrow> (\<exists>es' c. res = (1, Some (fst p), Some (snd p), c) \<and>
          cf_file c = Some (entries_text es') \<and> cf_lockto c = -1 \<and> entries_ok es' \<and>
          concat (map entry_pairs es') = ps \<and> length es' < length es))"

lemma loop_reads_skip:
  assumes "entry_pairs e = []" "loop_reads es res"
  shows "loop_reads (e # es) res"
proof -
  have "concat (map entry_pairs (e # es)) = concat (map entry_pairs es)" using assms(1) by simp
  then show ?thesis
    using assms(2) unfolding loop_reads_def by (cases "concat (map entry_pairs es)") (auto simp del: concat_eq_Nil_conv intro: less_SucI)
qed

lemma config_loop_entries:
  assumes "cf_file cfg = Some (entries_text es)" "cf_lockto cfg = -1" "entries_ok es"
  shows "loop_reads es (config_loop ret var cfg)"
  using assms
proof (induction es arbitrary: ret var cfg)
  case Nil
  then show ?case by (simp add: loop_reads_def entries_text_def config_loop.simps [of ret var cfg] c_fgets_def Let_def)
next
  case (Cons e es)
  have ok: "entry_ok e" "length (entry_line e) < 1024" "entries_ok es" using Cons.prems(3) by (auto simp: entries_ok_def)
  have sh: "\<exists>body. entry_line e = body @ [LF] \<and> LF \<notin> set body \<and> NUL \<notin> set (entry_line e)"
    using ok(1) by (cases e) auto
  then obtain body where body: "entry_line e = body @ [LF]" "LF \<notin> set body" "NUL \<notin> set (entry_line e)" by blast
  have "c_fgets 1024 (body @ LF # entries_text es) = Some (body @ [LF], entries_text es)"
    using body ok(2) by (intro fgets_line) auto
  then have get: "Option.bind (cf_file cfg) (c_fgets 1024) = Some (entry_line e, entries_text es)"
    using Cons.prems(1) body(1) by (simp add: entries_text_def)
  have str: "c_str (entry_line e) = entry_line e" using body(3) by (intro c_str_id) (simp add: cstring_def)
  note step = config_loop.simps [of ret var cfg, unfolded get option.case prod.case Let_def str]
  show ?case
  proof (cases e)
    case (ConfPair n v)
    have hd: "hd n \<notin> {CHR ''['', CHR ''#'', CHR '';'', LF, CR}" "n \<noteq> []" "\<not> prefix ''__END__'' n"
      using ok(1) ConfPair by (cases n; auto)+
    have e: "entry_line e = n @ '' = '' @ v @ [LF]" using ConfPair by simp
    obtain c n' where n: "n = c # n'" using hd(2) by (cases n) auto
    have "config_bracket (n @ '' = '' @ v @ [LF]) = None" using hd(1) n by (auto simp: config_bracket_def)
    moreover have "\<not> prefix ''__END__'' (n @ '' = '' @ v @ [LF])"
    proof
      assume "prefix ''__END__'' (n @ '' = '' @ v @ [LF])"
      then obtain zs where zs: "''__END__'' = n @ zs" "prefix zs ('' = '' @ v @ [LF])"
        using hd(3) by (auto simp: prefix_append)
      have "zs \<noteq> []" using zs(1) hd(3) by auto
      then have "CHR '' '' \<in> set zs" using zs(2) by (auto simp: prefix_Cons)
      moreover have "set zs \<subseteq> set ''__END__''" unfolding zs(1) by simp
      ultimately show False by auto
    qed
    moreover have "\<not> (prefix ''#'' (n @ '' = '' @ v @ [LF]) \<or> prefix '';'' (n @ '' = '' @ v @ [LF]) \<or>
        prefix [LF] (n @ '' = '' @ v @ [LF]) \<or> prefix [CR] (n @ '' = '' @ v @ [LF]))"
      using hd(1) n by auto
    moreover have "config_split (n @ '' = '' @ v @ [LF]) = (n @ '' = '' @ v, Some (n, v))"
      using pair_split [of n v] ok(1) ConfPair by simp
    ultimately have "config_loop ret var cfg = (1, Some n, Some v, cfg\<lparr>cf_lineno := cf_lineno cfg + 1, cf_file := Some (entries_text es)\<rparr>)"
      unfolding step e by (simp only: option.case prod.case if_False)
    then show ?thesis using ConfPair ok(3) Cons.prems(2) by (auto simp: loop_reads_def)
  next
    case (ConfComment c)
    let ?c = "cfg\<lparr>cf_lineno := cf_lineno cfg + 1, cf_file := Some (entries_text es)\<rparr>"
    have "config_loop ret var cfg = config_loop ret (Some (entry_line e)) ?c"
      unfolding step by (simp add: ConfComment config_bracket_def)
    then show ?thesis using Cons.IH [of ?c ret "Some (entry_line e)"] Cons.prems(2) ok(3) ConfComment
      by (simp add: loop_reads_skip)
  next
    case (ConfCategory c)
    let ?c = "cfg\<lparr>cf_lineno := cf_lineno cfg + 1, cf_file := Some (entries_text es),
      cf_category := esl_copy_string 256 c, cf_catno := cf_catno cfg + 1\<rparr>"
    have "config_bracket (entry_line e) = Some c" using ConfCategory ok(1) bracket_line [of c "[LF]"] by simp
    then have "config_loop ret var cfg = config_loop ret (Some c) ?c"
      unfolding step using ConfCategory ok(1) by simp
    then show ?thesis using Cons.IH [of ?c ret "Some c"] Cons.prems(2) ok(3) ConfCategory
      by (simp add: loop_reads_skip)
  next
    case (ConfSection c)
    have "config_bracket (entry_line e) = Some (CHR ''+'' # c)"
      using ConfSection ok(1) bracket_line [of "CHR ''+'' # c" "[LF]"] by simp
    then show ?thesis unfolding step using ConfSection ok(3) Cons.prems(2) by (auto simp: loop_reads_def)
  qed
qed

lemma config_all_entries:
  "cf_file cfg = Some (entries_text es) \<Longrightarrow> cf_lockto cfg = -1 \<Longrightarrow> entries_ok es \<Longrightarrow>
   config_all cfg = map (\<lambda>(n, v). (Some n, Some v)) (concat (map entry_pairs es))"
proof (induction es arbitrary: cfg rule: length_induct)
  case (1 es)
  have np: "esl_config_next_pair cfg = config_loop 0 None cfg" using "1.prems"(1) by (simp add: esl_config_next_pair_def)
  show ?case
  proof (cases "concat (map entry_pairs es)")
    case Nil
    obtain v c where "config_loop 0 None cfg = (0, v, None, c)"
      using config_loop_entries [OF "1.prems", of 0 None] unfolding loop_reads_def Nil list.case by blast
    then show ?thesis unfolding Nil by (simp add: config_all.simps [of cfg] np)
  next
    case (Cons p ps)
    then obtain es' c where c: "config_loop 0 None cfg = (1, Some (fst p), Some (snd p), c)"
        "cf_file c = Some (entries_text es')" "cf_lockto c = -1" "entries_ok es'"
        "concat (map entry_pairs es') = ps" "length es' < length es"
      using config_loop_entries [OF "1.prems", of 0 None] unfolding loop_reads_def Cons list.case by blast
    then have "config_all c = map (\<lambda>(n, v). (Some n, Some v)) ps" using "1.IH" by blast
    then show ?thesis using c(1) np Cons by (auto simp: config_all.simps [of cfg] split: prod.split)
  qed
qed




definition bits_value :: "string \<Rightarrow> nat" where
  "bits_value cs = fold (\<lambda>c v. 2 * v + (if c = CHR ''1'' then 1 else 0)) cs 0"

lemma cas_loop_binary:
  assumes "length cs = 4"
  shows "if set cs \<subseteq> {CHR ''0'', CHR ''1''} then cas_loop cs 8 0 = (0, of_nat (bits_value cs))
         else fst (cas_loop cs 8 0) = -1"
proof -
  obtain a b c d where "cs = [a, b, c, d]" using assms by (auto simp: numeral_eq_Suc length_Suc_conv)
  then show ?thesis by (auto simp: bits_value_def)
qed

text \<open>
  \<open>esl_config_get_cas_bits\<close> succeeds exactly when the first colon is followed by four binary
  digits, whatever comes after them, and then writes their value, the first digit being the highest.
\<close>

theorem cas_bits_value:
  assumes "CHR '':'' \<notin> set a"
  shows "if 4 \<le> length b \<and> set (take 4 b) \<subseteq> {CHR ''0'', CHR ''1''}
    then esl_config_get_cas_bits (a @ '':'' @ b) = (0, Some (of_nat (bits_value (take 4 b))))
    else fst (esl_config_get_cas_bits (a @ '':'' @ b)) = -1"
  using cas_loop_binary [of "take 4 b"] assms
  by (auto simp: esl_config_get_cas_bits_def strchr_at split: if_splits prod.splits)

theorem cas_bits_value_witness: "esl_config_get_cas_bits ''1:1101'' = (0, Some 13)"
  using cas_bits_value [of "''1''" "''1101''"] by (simp add: bits_value_def)

end
