(* ===== verification/EslBuffer.thy ===== *)
theory EslBuffer
  imports Prelude
begin

text \<open>
  The packet buffer of the event socket library (\<^verbatim>\<open>esl/esl_buffer.c\<close>): a growing block of
  bytes with a read position. The struct is a record whose \<open>data\<close> is the allocated block
  and whose \<open>head\<close> is the distance of the head pointer from \<open>data\<close>; every access to the
  block is checked, so a read or write outside it is the value \<open>Inl OutOfBounds\<close>.
  \<open>buf_content\<close> is the byte queue the buffer stands for; the locale \<open>byte_fifo\<close> states the
  queue laws its clients rely on, and the buffer created without a length limit (the only
  kind the library creates) is an interpretation of it.
\<close>

datatype esl_status = ESL_SUCCESS | ESL_FAIL | ESL_BREAK | ESL_DISCONNECTED | ESL_GENERR

record esl_buffer =
  buf_data :: "char list option"
  buf_head :: nat
  buf_used :: nat
  buf_actually_used :: nat
  buf_datalen :: nat
  buf_max_len :: nat
  buf_blocksize :: nat
  buf_id :: "32 word"
  buf_loops :: "32 word"

section \<open>Operations\<close>

definition esl_buffer_create ::
  "allocator \<Rightarrow> 32 word \<Rightarrow> nat \<Rightarrow> nat \<Rightarrow> nat \<Rightarrow> esl_status \<times> esl_buffer option \<times> 32 word" where
  "esl_buffer_create A buffer_id blocksize start_len max_len =
     (if malloc_ok A 64 then
        (if start_len \<noteq> 0 \<and> \<not> malloc_ok A start_len then (ESL_FAIL, None, buffer_id)
         else (ESL_SUCCESS,
               Some \<lparr>buf_data = (if start_len \<noteq> 0 then Some (replicate start_len NUL) else None),
                     buf_head = 0, buf_used = 0, buf_actually_used = 0, buf_datalen = start_len,
                     buf_max_len = max_len, buf_blocksize = blocksize, buf_id = buffer_id,
                     buf_loops = 0\<rparr>,
               buffer_id + 1))
      else (ESL_FAIL, None, buffer_id))"

definition esl_buffer_len :: "esl_buffer \<Rightarrow> nat" where
  "esl_buffer_len b = buf_datalen b"

definition esl_buffer_freespace :: "esl_buffer \<Rightarrow> nat" where
  "esl_buffer_freespace b =
     (if buf_max_len b \<noteq> 0 then sub64 (buf_max_len b) (buf_used b) else 1000000)"

definition esl_buffer_inuse :: "esl_buffer \<Rightarrow> nat" where
  "esl_buffer_inuse b = buf_used b"

text \<open>The number of bytes a request for \<open>n\<close> bytes moves over.\<close>

definition buf_reading :: "esl_buffer \<Rightarrow> nat \<Rightarrow> nat" where
  "buf_reading b n = (if n \<le> buf_used b then n else buf_used b)"

definition buf_mem :: "esl_buffer \<Rightarrow> char list c_result" where
  "buf_mem b = (case buf_data b of None \<Rightarrow> Inl NullPointer | Some m \<Rightarrow> Inr m)"

definition esl_buffer_seek :: "esl_buffer \<Rightarrow> nat \<Rightarrow> nat \<times> esl_buffer" where
  "esl_buffer_seek b n =
     (if buf_used b < 1 then (0, b\<lparr>buf_used := 0\<rparr>)
      else let r = buf_reading b n
           in (r, b\<lparr>buf_used := sub64 (buf_actually_used b) r, buf_head := r\<rparr>))"

definition esl_buffer_toss :: "esl_buffer \<Rightarrow> nat \<Rightarrow> nat \<times> esl_buffer" where
  "esl_buffer_toss b n =
     (if buf_used b < 1 then (0, b\<lparr>buf_used := 0\<rparr>)
      else let r = buf_reading b n;
               b' = b\<lparr>buf_used := buf_used b - r, buf_head := buf_head b + r\<rparr>
           in (buf_used b', b'))"

definition esl_buffer_set_loops :: "esl_buffer \<Rightarrow> 32 word \<Rightarrow> esl_buffer" where
  "esl_buffer_set_loops b n = b\<lparr>buf_loops := n\<rparr>"

text \<open>\<open>esl_buffer_read\<close> returns the bytes it copies out; their number is the C return value.\<close>

definition esl_buffer_read :: "esl_buffer \<Rightarrow> nat \<Rightarrow> (char list \<times> esl_buffer) c_result" where
  "esl_buffer_read b n =
     (if buf_used b < 1 then Inr ([], b\<lparr>buf_used := 0\<rparr>)
      else let r = buf_reading b n
           in res_bind (buf_mem b) (\<lambda>m.
              res_bind (mem_read m (buf_head b) r) (\<lambda>bs.
              Inr (bs, b\<lparr>buf_used := buf_used b - r, buf_head := buf_head b + r\<rparr>))))"

text \<open>\<open>esl_buffer_read_loop\<close> returns its C return value, the bytes copied, and the buffer.\<close>

definition esl_buffer_read_loop :: "esl_buffer \<Rightarrow> nat \<Rightarrow> (nat \<times> char list \<times> esl_buffer) c_result" where
  "esl_buffer_read_loop b n =
     res_bind (esl_buffer_read b n) (\<lambda>(bs, b1).
       if length bs < n then
         (if buf_loops b1 = 0 then Inr (length bs, bs, b1)
          else res_bind (esl_buffer_read
                  (b1\<lparr>buf_head := 0, buf_used := buf_actually_used b1\<rparr>) (n - length bs)) (\<lambda>(cs, b2).
               Inr (length cs, bs @ cs, b2\<lparr>buf_loops := buf_loops b2 - 1\<rparr>)))
       else Inr (length bs, bs, b1))"

text \<open>
  At a line feed in position \<open>p\<close>: is it followed by another one, with a carriage return
  allowed between? The result is the position after the second line feed.
\<close>

definition packet_sep :: "char list \<Rightarrow> nat \<Rightarrow> nat \<Rightarrow> nat option c_result" where
  "packet_sep m e p =
     res_bind (mem_load m (p + 1)) (\<lambda>c.
       let pe = (if c = CR then p + 2 else p + 1)
       in if pe \<le> e
          then res_bind (mem_load m pe) (\<lambda>d. Inr (if d = LF then Some (pe + 1) else None))
          else Inr None)"

lemma packet_sep_later: "packet_sep m e p = Inr (Some q) \<Longrightarrow> p < q"
  by (cases "mem_load m (p + 1)"; cases "mem_load m (p + 2)")
     (auto simp: packet_sep_def Let_def fault_simps split: if_splits)

function buf_count :: "char list \<Rightarrow> nat \<Rightarrow> nat \<Rightarrow> nat \<Rightarrow> nat c_result" where
  "buf_count m e p x =
     (case mem_load m p of Inl f \<Rightarrow> Inl f | Inr c \<Rightarrow>
        if c \<noteq> NUL \<and> p < e then
          (if c = LF then
             (case packet_sep m e p of
                Inl f \<Rightarrow> Inl f
              | Inr None \<Rightarrow> buf_count m e (Suc p) x
              | Inr (Some q) \<Rightarrow> buf_count m e q (Suc x))
           else buf_count m e (Suc p) x)
        else Inr x)"
  by pat_completeness auto
termination
  by (relation "measure (\<lambda>(m, e, p, x). e - p)") (auto dest: packet_sep_later)

declare buf_count.simps [simp del]

definition esl_buffer_packet_count :: "esl_buffer \<Rightarrow> nat c_result" where
  "esl_buffer_packet_count b =
     (case buf_data b of None \<Rightarrow> Inr 0
      | Some m \<Rightarrow> buf_count m (buf_head b + buf_used b) (buf_head b) 0)"

function buf_scan :: "char list \<Rightarrow> nat \<Rightarrow> nat \<Rightarrow> nat option c_result" where
  "buf_scan m e p =
     (case mem_load m p of Inl f \<Rightarrow> Inl f | Inr c \<Rightarrow>
        if c \<noteq> NUL \<and> p < e then
          (if c = LF then
             (case packet_sep m e p of
                Inl f \<Rightarrow> Inl f
              | Inr None \<Rightarrow> buf_scan m e (Suc p)
              | Inr (Some q) \<Rightarrow> Inr (Some q))
           else buf_scan m e (Suc p))
        else Inr None)"
  by pat_completeness auto
termination
  by (relation "measure (\<lambda>(m, e, p). e - p)") auto

declare buf_scan.simps [simp del]

definition esl_buffer_read_packet :: "esl_buffer \<Rightarrow> nat \<Rightarrow> (char list \<times> esl_buffer) c_result" where
  "esl_buffer_read_packet b maxlen =
     (case buf_data b of None \<Rightarrow> esl_buffer_read b 0
      | Some m \<Rightarrow>
          res_bind (buf_scan m (buf_head b + buf_used b) (buf_head b)) (\<lambda>r.
            esl_buffer_read b
              (case r of None \<Rightarrow> 0
               | Some q \<Rightarrow> (let datalen = q - buf_head b
                             in if maxlen < datalen then maxlen else datalen))))"

text \<open>
  \<open>esl_buffer_write\<close> in its three phases: the unread bytes are moved to the front of the
  block, the block grows, the new bytes are copied behind the unread ones. Its first result
  is the C return value.
\<close>

definition buf_compact :: "esl_buffer \<Rightarrow> nat \<Rightarrow> esl_buffer c_result" where
  "buf_compact b n =
     (if sub64 (buf_datalen b) (buf_actually_used b) < n \<and>
         (buf_max_len b = 0 \<or> add64 (buf_used b) n \<le> buf_max_len b)
      then res_bind (buf_mem b) (\<lambda>m.
           res_bind (mem_read m (buf_head b) (buf_used b)) (\<lambda>bs.
           res_bind (mem_write m 0 bs) (\<lambda>m'.
           Inr (b\<lparr>buf_data := Some m', buf_head := 0, buf_actually_used := buf_used b\<rparr>))))
      else Inr b)"

definition buf_grow :: "allocator \<Rightarrow> esl_buffer \<Rightarrow> nat \<Rightarrow> (bool \<times> esl_buffer) c_result" where
  "buf_grow A b n =
     (if sub64 (buf_datalen b) (buf_used b) < n then
        let new_size = add64 (buf_datalen b) n;
            new_block_size = add64 (buf_datalen b) (buf_blocksize b);
            size = (if new_size < new_block_size then new_block_size else new_size)
        in res_bind (buf_mem b) (\<lambda>m.
           Inr (case c_realloc A m size of
                  None \<Rightarrow> (False, b\<lparr>buf_head := 0\<rparr>)
                | Some m' \<Rightarrow> (True, b\<lparr>buf_data := Some m', buf_head := 0, buf_datalen := size\<rparr>)))
      else Inr (True, b))"

definition buf_append :: "esl_buffer \<Rightarrow> char list \<Rightarrow> (nat \<times> esl_buffer) c_result" where
  "buf_append b bs =
     (if sub64 (buf_datalen b) (buf_used b) < length bs then Inr (0, b)
      else res_bind (buf_mem b) (\<lambda>m.
           res_bind (mem_write m (buf_head b + buf_used b) bs) (\<lambda>m'.
           let used' = add64 (buf_used b) (length bs)
           in Inr (used', b\<lparr>buf_data := Some m', buf_used := used',
                            buf_actually_used := add64 (buf_actually_used b) (length bs)\<rparr>))))"

definition esl_buffer_write :: "allocator \<Rightarrow> esl_buffer \<Rightarrow> char list \<Rightarrow> (nat \<times> esl_buffer) c_result" where
  "esl_buffer_write A b bs =
     (if buf_data b = None then Inl AssertFailed
      else if bs = [] then Inr (buf_used b, b)
      else res_bind (buf_compact b (length bs)) (\<lambda>b1.
           res_bind (buf_grow A b1 (length bs)) (\<lambda>(ok, b2).
           if ok then buf_append b2 bs else Inr (0, b2))))"

definition esl_buffer_zero :: "esl_buffer \<Rightarrow> esl_buffer c_result" where
  "esl_buffer_zero b =
     (if buf_data b = None then Inl AssertFailed
      else Inr (b\<lparr>buf_used := 0, buf_actually_used := 0, buf_head := 0\<rparr>))"

definition esl_buffer_zwrite :: "allocator \<Rightarrow> esl_buffer \<Rightarrow> char list \<Rightarrow> (nat \<times> esl_buffer) c_result" where
  "esl_buffer_zwrite A b bs =
     res_bind (esl_buffer_write A b bs) (\<lambda>(w, b1).
       if w = 0 then res_bind (esl_buffer_zero b1) (\<lambda>b2. esl_buffer_write A b2 bs)
       else Inr (w, b1))"

definition esl_buffer_destroy :: "esl_buffer option \<Rightarrow> esl_buffer option" where
  "esl_buffer_destroy b = None"

section \<open>Invariant and abstraction\<close>

text \<open>
  The invariant of a buffer without a length limit. \<open>buf_content\<close> are the unread bytes.
\<close>

definition buf_wf :: "esl_buffer \<Rightarrow> bool" where
  "buf_wf b \<longleftrightarrow>
     (case buf_data b of None \<Rightarrow> False | Some m \<Rightarrow> length m = buf_datalen b) \<and>
     buf_head b + buf_used b = buf_actually_used b \<and>
     buf_actually_used b \<le> buf_datalen b \<and>
     buf_datalen b < 2 ^ 63 \<and> buf_blocksize b < 2 ^ 63 \<and> buf_max_len b = 0"

definition buf_content :: "esl_buffer \<Rightarrow> char list" where
  "buf_content b = (case buf_data b of None \<Rightarrow> [] | Some m \<Rightarrow> take (buf_used b) (drop (buf_head b) m))"

lemma buf_wfE:
  assumes "buf_wf b"
  obtains m where "buf_data b = Some m" "length m = buf_datalen b"
    "buf_head b + buf_used b = buf_actually_used b" "buf_actually_used b \<le> buf_datalen b"
    "buf_datalen b < 2 ^ 63" "buf_blocksize b < 2 ^ 63" "buf_max_len b = 0"
  using assms by (auto simp: buf_wf_def split: option.splits)

lemma buf_content_length: "buf_wf b \<Longrightarrow> length (buf_content b) = buf_used b"
  by (elim buf_wfE) (simp add: buf_content_def)

lemma buf_create_wf [wf_intros]:
  "esl_buffer_create A i blocksize start_len 0 = (ESL_SUCCESS, Some b, j) \<Longrightarrow>
   start_len \<noteq> 0 \<Longrightarrow> blocksize < 2 ^ 63 \<Longrightarrow> buf_wf b \<and> buf_content b = []"
  by (auto simp: esl_buffer_create_def buf_wf_def buf_content_def malloc_ok_def split: if_splits)

lemma buf_read_spec:
  assumes "buf_wf b"
  shows "\<exists>b'. esl_buffer_read b n = Inr (take n (buf_content b), b') \<and>
              buf_wf b' \<and> buf_content b' = drop n (buf_content b)"
proof (cases "buf_used b < 1")
  case True
  then have "buf_content b = []" using buf_content_length [OF assms] by simp
  moreover have "esl_buffer_read b n = Inr ([], b)"
    using True by (cases b) (simp add: esl_buffer_read_def)
  ultimately show ?thesis using assms by simp
next
  case False
  from assms obtain m where m: "buf_data b = Some m" "length m = buf_datalen b"
    "buf_head b + buf_used b = buf_actually_used b" "buf_actually_used b \<le> buf_datalen b"
    "buf_datalen b < 2 ^ 63" "buf_blocksize b < 2 ^ 63" "buf_max_len b = 0"
    by (rule buf_wfE)
  define r where "r = buf_reading b n"
  have r: "r \<le> buf_used b" "r = min n (buf_used b)" by (auto simp: r_def buf_reading_def)
  have in_m: "buf_head b + r \<le> length m" using r(1) m by simp
  let ?b' = "b\<lparr>buf_used := buf_used b - r, buf_head := buf_head b + r\<rparr>"
  have "esl_buffer_read b n = Inr (take r (drop (buf_head b) m), ?b')"
    using False m in_m by (simp add: esl_buffer_read_def Let_def buf_mem_def fault_simps flip: r_def)
  moreover have "take r (drop (buf_head b) m) = take n (buf_content b)"
    using m r by (simp add: buf_content_def min.commute)
  moreover have "buf_wf ?b'" using m r by (simp add: buf_wf_def)
  moreover have "buf_content ?b' = drop n (buf_content b)"
  proof (cases "n \<le> buf_used b")
    case True
    then have "r = n" using r by simp
    then show ?thesis using m by (simp add: buf_content_def drop_take add.commute)
  next
    case False
    then have "r = buf_used b" using r by simp
    then show ?thesis using m False by (simp add: buf_content_def)
  qed
  ultimately show ?thesis by auto
qed

lemma take_drop_move:
  "h + u \<le> length m \<Longrightarrow> take u (take u (drop h m) @ rest) = take u (drop h m)"
  by simp

lemma buf_compact_spec:
  assumes "buf_wf b" "n < 2 ^ 63"
  shows "\<exists>b'. buf_compact b n = Inr b' \<and> buf_wf b' \<and> buf_content b' = buf_content b \<and>
              buf_used b' = buf_used b \<and> buf_datalen b' = buf_datalen b \<and>
              (buf_head b' = 0 \<or> n \<le> buf_datalen b' - buf_actually_used b')"
proof -
  from assms(1) obtain m where m: "buf_data b = Some m" "length m = buf_datalen b"
    "buf_head b + buf_used b = buf_actually_used b" "buf_actually_used b \<le> buf_datalen b"
    "buf_datalen b < 2 ^ 63" "buf_blocksize b < 2 ^ 63" "buf_max_len b = 0"
    by (rule buf_wfE)
  have sub: "sub64 (buf_datalen b) (buf_actually_used b) = buf_datalen b - buf_actually_used b"
    using m by (intro sub64_exact) auto
  show ?thesis
  proof (cases "buf_datalen b - buf_actually_used b < n")
    case True
    let ?bs = "take (buf_used b) (drop (buf_head b) m)"
    let ?m' = "?bs @ drop (buf_used b) m"
    have len: "length ?bs = buf_used b" using m by simp
    have "buf_compact b n =
            Inr (b\<lparr>buf_data := Some ?m', buf_head := 0, buf_actually_used := buf_used b\<rparr>)"
      using True m sub len by (simp add: buf_compact_def buf_mem_def fault_simps)
    moreover have "buf_wf (b\<lparr>buf_data := Some ?m', buf_head := 0, buf_actually_used := buf_used b\<rparr>)"
      using m by (simp add: buf_wf_def)
    ultimately show ?thesis using m len by (auto simp: buf_content_def)
  next
    case False
    then show ?thesis using m sub assms(1) by (auto simp: buf_compact_def)
  qed
qed

lemma buf_grow_spec:
  assumes wf: "buf_wf b" and n: "n < 2 ^ 63"
    and room: "buf_head b = 0 \<or> n \<le> buf_datalen b - buf_actually_used b"
  shows "\<exists>ok b'. buf_grow A b n = Inr (ok, b') \<and> buf_wf b' \<and> buf_content b' = buf_content b \<and>
              buf_used b' = buf_used b \<and> (ok \<longrightarrow> n \<le> buf_datalen b' - buf_actually_used b')"
proof -
  from wf obtain m where m: "buf_data b = Some m" "length m = buf_datalen b"
    "buf_head b + buf_used b = buf_actually_used b" "buf_actually_used b \<le> buf_datalen b"
    "buf_datalen b < 2 ^ 63" "buf_blocksize b < 2 ^ 63" "buf_max_len b = 0"
    by (rule buf_wfE)
  have sub: "sub64 (buf_datalen b) (buf_used b) = buf_datalen b - buf_used b"
    using m by (intro sub64_exact) auto
  show ?thesis
  proof (cases "buf_datalen b - buf_used b < n")
    case True
    then have h0: "buf_head b = 0" using room m by auto
    define size where "size = max (buf_datalen b + n) (buf_datalen b + buf_blocksize b)"
    have e1: "add64 (buf_datalen b) n = buf_datalen b + n"
      using m n by (intro add64_exact) simp
    have e2: "add64 (buf_datalen b) (buf_blocksize b) = buf_datalen b + buf_blocksize b"
      using m by (intro add64_exact) simp
    have grow: "buf_grow A b n =
        Inr (case c_realloc A m size of None \<Rightarrow> (False, b\<lparr>buf_head := 0\<rparr>)
             | Some m' \<Rightarrow> (True, b\<lparr>buf_data := Some m', buf_head := 0, buf_datalen := size\<rparr>))"
    proof -
      have sz: "(if buf_datalen b + n < buf_datalen b + buf_blocksize b
                 then buf_datalen b + buf_blocksize b else buf_datalen b + n) = size"
        by (simp add: size_def max_def)
      show ?thesis
        unfolding buf_grow_def Let_def sub e1 e2 sz using True m by (simp add: buf_mem_def)
    qed
    show ?thesis
    proof (cases "c_realloc A m size")
      case None
      have "b\<lparr>buf_head := 0\<rparr> = b" using h0 by (cases b) simp
      then have "buf_grow A b n = Inr (False, b)" using grow None by simp
      then show ?thesis using wf by blast
    next
      case (Some m')
      have "length m' = size \<and> size < 2 ^ 63 \<and> take (length m) m' = m"
        using c_realloc_grow [OF Some] m(2) by (simp add: size_def)
      then have m': "length m' = size" "size < 2 ^ 63" "take (buf_datalen b) m' = m"
        using m(2) by auto
      have "take (buf_used b) m' = take (buf_used b) (take (buf_datalen b) m')"
        using m by (simp add: min_def)
      then have "take (buf_used b) m' = take (buf_used b) m" using m'(3) by simp
      define b' where "b' = b\<lparr>buf_data := Some m', buf_head := 0, buf_datalen := size\<rparr>"
      have "buf_grow A b n = Inr (True, b')" using grow Some by (simp add: b'_def)
      moreover have "buf_datalen b \<le> size" "n \<le> size - buf_datalen b" by (simp_all add: size_def)
      then have "buf_wf b'" "n \<le> buf_datalen b' - buf_actually_used b'"
        using m m'(1,2) h0 by (simp_all add: buf_wf_def b'_def)
      moreover have "buf_content b' = buf_content b" "buf_used b' = buf_used b"
        using h0 m(1) by (simp_all add: buf_content_def b'_def \<open>take (buf_used b) m' = take (buf_used b) m\<close>)
      ultimately show ?thesis by blast
    qed
  next
    case False
    moreover have "n \<le> buf_datalen b - buf_actually_used b"
      using False room m by auto
    ultimately have "buf_grow A b n = Inr (True, b)" using sub by (simp add: buf_grow_def)
    then show ?thesis using wf \<open>n \<le> buf_datalen b - buf_actually_used b\<close> by blast
  qed
qed

lemma window_after_write:
  assumes "h + u + length bs \<le> length m"
  shows "take (u + length bs) (drop h (take (h + u) m @ bs @ r)) = take u (drop h m) @ bs"
proof -
  have "drop h (take (h + u) m) = take u (drop h m)" by (simp add: drop_take)
  moreover have "h \<le> length (take (h + u) m)" "length (take u (drop h m)) = u" using assms by auto
  ultimately show ?thesis by simp
qed

lemma buf_append_spec:
  assumes "buf_wf b" "length bs \<le> buf_datalen b - buf_actually_used b"
  shows "\<exists>b'. buf_append b bs = Inr (buf_used b + length bs, b') \<and> buf_wf b' \<and>
              buf_content b' = buf_content b @ bs"
proof -
  from assms(1) obtain m where m: "buf_data b = Some m" "length m = buf_datalen b"
    "buf_head b + buf_used b = buf_actually_used b" "buf_actually_used b \<le> buf_datalen b"
    "buf_datalen b < 2 ^ 63" "buf_blocksize b < 2 ^ 63" "buf_max_len b = 0"
    by (rule buf_wfE)
  let ?at = "buf_head b + buf_used b"
  have fit: "?at + length bs \<le> length m" using m assms(2) by simp
  have sub: "sub64 (buf_datalen b) (buf_used b) = buf_datalen b - buf_used b"
    using m by (intro sub64_exact) auto
  have a1: "add64 (buf_used b) (length bs) = buf_used b + length bs"
    using m assms(2) by (intro add64_exact) simp
  have a2: "add64 (buf_actually_used b) (length bs) = buf_actually_used b + length bs"
    using m assms(2) by (intro add64_exact) simp
  let ?m' = "take ?at m @ bs @ drop (?at + length bs) m"
  let ?b' = "b\<lparr>buf_data := Some ?m', buf_used := buf_used b + length bs,
               buf_actually_used := buf_actually_used b + length bs\<rparr>"
  have "\<not> buf_datalen b - buf_used b < length bs" using m assms(2) by linarith
  then have "buf_append b bs = Inr (buf_used b + length bs, ?b')"
    using m(1) fit sub a1 a2 by (simp add: buf_append_def buf_mem_def Let_def fault_simps)
  moreover have "buf_wf ?b'" using m fit assms(2) by (simp add: buf_wf_def)
  moreover have "buf_content ?b' = buf_content b @ bs"
  proof -
    have c: "buf_content ?b' = take (buf_used b + length bs) (drop (buf_head b) ?m')"
      unfolding buf_content_def esl_buffer.update_convs esl_buffer.select_convs
      by (simp del: take_append drop_append)
    show ?thesis unfolding c using window_after_write [OF fit] m(1) by (simp only: buf_content_def option.case)
  qed
  ultimately show ?thesis by blast
qed

lemma buf_write_spec:
  assumes wf: "buf_wf b" and len: "length bs < 2 ^ 63"
  shows "\<exists>r b'. esl_buffer_write A b bs = Inr (r, b') \<and> buf_wf b' \<and>
           (r = 0 \<longrightarrow> buf_content b' = buf_content b) \<and>
           (r \<noteq> 0 \<longrightarrow> buf_content b' = buf_content b @ bs \<and> r = length (buf_content b'))"
proof (cases "bs = []")
  case True
  then show ?thesis using wf by (auto simp: esl_buffer_write_def buf_content_length elim!: buf_wfE)
next
  case False
  obtain b1 where b1: "buf_compact b (length bs) = Inr b1" "buf_wf b1"
      "buf_content b1 = buf_content b" "buf_used b1 = buf_used b"
      "buf_head b1 = 0 \<or> length bs \<le> buf_datalen b1 - buf_actually_used b1"
    using buf_compact_spec [OF wf len] by blast
  obtain ok b2 where b2: "buf_grow A b1 (length bs) = Inr (ok, b2)" "buf_wf b2"
      "buf_content b2 = buf_content b1" "ok \<longrightarrow> length bs \<le> buf_datalen b2 - buf_actually_used b2"
    using buf_grow_spec [OF b1(2) len b1(5)] by blast
  have nn: "buf_data b \<noteq> None" using wf by (auto elim: buf_wfE)
  show ?thesis
  proof (cases ok)
    case True
    then obtain b3 where b3: "buf_append b2 bs = Inr (buf_used b2 + length bs, b3)" "buf_wf b3"
        "buf_content b3 = buf_content b2 @ bs"
      using buf_append_spec [OF b2(2)] b2(4) by blast
    then show ?thesis
      using True False nn b1 b2 buf_content_length [OF b2(2)] by (auto simp: esl_buffer_write_def)
  next
    case False
    then show ?thesis using \<open>bs \<noteq> []\<close> nn b1 b2 by (auto simp: esl_buffer_write_def)
  qed
qed

section \<open>The byte-queue interface\<close>

text \<open>
  What a client of the buffer relies on: a \<open>put\<close> that may refuse (its result is 0), a
  \<open>get\<close> that takes what is there, and both keep the invariant and never fault.
\<close>

locale byte_fifo =
  fixes put :: "'b \<Rightarrow> char list \<Rightarrow> (nat \<times> 'b) c_result"
    and get :: "'b \<Rightarrow> nat \<Rightarrow> (char list \<times> 'b) c_result"
    and content :: "'b \<Rightarrow> char list"
    and inv :: "'b \<Rightarrow> bool"
  assumes put_law: "inv b \<Longrightarrow> length bs < 2 ^ 63 \<Longrightarrow>
      \<exists>r b'. put b bs = Inr (r, b') \<and> inv b' \<and>
        (r = 0 \<longrightarrow> content b' = content b) \<and>
        (r \<noteq> 0 \<longrightarrow> content b' = content b @ bs \<and> r = length (content b'))"
    and get_law: "inv b \<Longrightarrow>
      \<exists>b'. get b n = Inr (take n (content b), b') \<and> inv b' \<and> content b' = drop n (content b)"

text \<open>A client's use of the queue: the bytes it put in that were taken, and the bytes it got.\<close>

datatype fifo_op = Put "char list" | Get nat

fun fifo_run ::
  "('b \<Rightarrow> char list \<Rightarrow> (nat \<times> 'b) c_result) \<Rightarrow> ('b \<Rightarrow> nat \<Rightarrow> (char list \<times> 'b) c_result) \<Rightarrow>
   'b \<Rightarrow> fifo_op list \<Rightarrow> (char list \<times> char list \<times> 'b) c_result" where
  "fifo_run put get b [] = Inr ([], [], b)"
| "fifo_run put get b (Put bs # ops) =
     res_bind (put b bs) (\<lambda>(r, b1).
     res_bind (fifo_run put get b1 ops) (\<lambda>(i, out, b2). Inr ((if r = 0 then [] else bs) @ i, out, b2)))"
| "fifo_run put get b (Get n # ops) =
     res_bind (get b n) (\<lambda>(cs, b1).
     res_bind (fifo_run put get b1 ops) (\<lambda>(i, out, b2). Inr (i, cs @ out, b2)))"

definition small_puts :: "fifo_op list \<Rightarrow> bool" where
  "small_puts ops \<longleftrightarrow> list_all (\<lambda>opn. case opn of Put bs \<Rightarrow> length bs < 2 ^ 63 | Get n \<Rightarrow> True) ops"

context byte_fifo begin

lemma conservation:
  "inv b \<Longrightarrow> small_puts ops \<Longrightarrow>
   \<exists>i out b'. fifo_run put get b ops = Inr (i, out, b') \<and> inv b' \<and> content b @ i = out @ content b'"
proof (induction ops arbitrary: b)
  case Nil
  then show ?case by simp
next
  case (Cons opn ops)
  have rest: "small_puts ops" using Cons.prems(2) by (simp add: small_puts_def)
  show ?case
  proof (cases opn)
    case (Put bs)
    then have "length bs < 2 ^ 63" using Cons.prems(2) by (simp add: small_puts_def)
    then obtain r b1 where 1: "put b bs = Inr (r, b1)" "inv b1"
        "content b1 = (if r = 0 then content b else content b @ bs)"
      using put_law [OF Cons.prems(1)] by metis
    then show ?thesis using Put Cons.IH [OF 1(2) rest] by auto
  next
    case (Get n)
    obtain b1 where 1: "get b n = Inr (take n (content b), b1)" "inv b1" "content b1 = drop n (content b)"
      using get_law [OF Cons.prems(1)] by blast
    then obtain i out b' where 2: "fifo_run put get b1 ops = Inr (i, out, b')" "inv b'"
        "content b1 @ i = out @ content b'" using Cons.IH [OF 1(2) rest] by blast
    have "content b @ i = take n (content b) @ out @ content b'"
      using 2(3) unfolding 1(3) by (metis append.assoc append_take_drop_id)
    then show ?thesis using Get 1 2 by simp
  qed
qed

end

interpretation esl_buf: byte_fifo "esl_buffer_write A" esl_buffer_read buf_content buf_wf
  for A :: allocator
  by (unfold_locales, erule (1) buf_write_spec, erule buf_read_spec)

section \<open>Packets\<close>

text \<open>
  The specification of a packet: the bytes up to and including the first empty line.
  \<open>packet_end\<close> is its length, \<open>packet_total\<close> the number of packets.
\<close>

fun sep_after :: "char list \<Rightarrow> nat option" where
  "sep_after [] = None"
| "sep_after (c # cs) =
     (if c = CR then (case cs of [] \<Rightarrow> None | d # _ \<Rightarrow> if d = LF then Some 2 else None)
      else if c = LF then Some 1 else None)"

fun packet_end :: "char list \<Rightarrow> nat option" where
  "packet_end [] = None"
| "packet_end (c # cs) =
     (case (if c = LF then sep_after cs else None) of
        Some k \<Rightarrow> Some (Suc k)
      | None \<Rightarrow> map_option Suc (packet_end cs))"

lemma sep_after_bound: "sep_after s = Some k \<Longrightarrow> 0 < k \<and> k \<le> length s"
  by (cases s) (auto split: if_splits list.splits)

lemma packet_end_bound: "packet_end s = Some k \<Longrightarrow> 0 < k \<and> k \<le> length s"
  by (induction s arbitrary: k) (auto split: option.splits if_splits dest: sep_after_bound)

function packet_total :: "char list \<Rightarrow> nat" where
  "packet_total s = (case packet_end s of None \<Rightarrow> 0 | Some k \<Rightarrow> Suc (packet_total (drop k s)))"
  by pat_completeness auto
termination
  by (relation "measure length") (auto dest: packet_end_bound)

declare packet_total.simps [simp del]

text \<open>The unread bytes from position \<open>p\<close> on.\<close>

abbreviation window :: "char list \<Rightarrow> nat \<Rightarrow> nat \<Rightarrow> char list" where
  "window m e p \<equiv> take (e - p) (drop p m)"

lemma window_Cons: "p < e \<Longrightarrow> e \<le> length m \<Longrightarrow> window m e p = m ! p # window m e (Suc p)"
  by (metis Cons_nth_drop_Suc Suc_diff_Suc less_le_trans take_Suc_Cons)

lemma window_Nil [simp]: "\<not> p < e \<Longrightarrow> window m e p = []"
  by simp

text \<open>The byte behind the unread ones must exist and must not be a line feed.\<close>

definition sentinel :: "char list \<Rightarrow> nat \<Rightarrow> bool" where
  "sentinel m e \<longleftrightarrow> e < length m \<and> m ! e \<noteq> LF"

lemma packet_sep_spec:
  assumes "sentinel m e" "p < e"
  shows "packet_sep m e p = Inr (map_option (\<lambda>k. Suc p + k) (sep_after (window m e (Suc p))))"
proof (cases "Suc p < e")
  case False
  then have "Suc p = e" using assms(2) by simp
  then show ?thesis using assms
    by (auto simp: packet_sep_def sentinel_def Let_def fault_simps)
next
  case True
  have le: "e \<le> length m" using assms by (simp add: sentinel_def)
  have w: "window m e (Suc p) = m ! Suc p # window m e (Suc (Suc p))"
    using window_Cons [OF True le] .
  show ?thesis
  proof (cases "Suc (Suc p) < e")
    case True
    then show ?thesis using assms w window_Cons [OF True le]
      by (auto simp: packet_sep_def sentinel_def Let_def fault_simps)
  next
    case False
    then have "Suc (Suc p) = e" using \<open>Suc p < e\<close> by simp
    then show ?thesis using assms w
      by (auto simp: packet_sep_def sentinel_def Let_def fault_simps)
  qed
qed

lemma buf_scan_spec:
  assumes "sentinel m e" "p \<le> e" "NUL \<notin> set (window m e p)"
  shows "buf_scan m e p = Inr (map_option (\<lambda>k. p + k) (packet_end (window m e p)))"
  using assms
proof (induction m e p rule: buf_scan.induct)
  case (1 m e p)
  have le: "e < length m" using "1.prems"(1) by (simp add: sentinel_def)
  then have ld: "mem_load m p = Inr (m ! p)" using "1.prems"(2) by (simp add: mem_load_def)
  show ?case
  proof (cases "p < e")
    case False
    then show ?thesis using ld by (simp add: buf_scan.simps [of m e p])
  next
    case True
    have w: "window m e p = m ! p # window m e (Suc p)" using True le by (intro window_Cons) auto
    have nul: "m ! p \<noteq> NUL" "NUL \<notin> set (window m e (Suc p))" using "1.prems"(3) w by auto
    have sep: "packet_sep m e p = Inr (map_option (\<lambda>k. Suc p + k) (sep_after (window m e (Suc p))))"
      using "1.prems"(1) True by (rule packet_sep_spec)
    note IH = "1.IH" [OF ld]
    show ?thesis
    proof (cases "m ! p = LF \<and> sep_after (window m e (Suc p)) \<noteq> None")
      case True
      then show ?thesis using ld sep w nul \<open>p < e\<close>
        by (auto simp: buf_scan.simps [of m e p])
    next
      case False
      have "buf_scan m e (Suc p) = Inr (map_option (\<lambda>k. Suc p + k) (packet_end (window m e (Suc p))))"
        using IH False True "1.prems"(1) nul sep by (cases "m ! p = LF") auto
      then show ?thesis using ld sep w nul \<open>p < e\<close> False
        by (auto simp: buf_scan.simps [of m e p] option.map_comp o_def)
    qed
  qed
qed

lemma buf_count_spec:
  assumes "sentinel m e" "p \<le> e" "NUL \<notin> set (window m e p)"
  shows "buf_count m e p x = Inr (x + packet_total (window m e p))"
  using assms
proof (induction m e p x rule: buf_count.induct)
  case (1 m e p x)
  have le: "e < length m" using "1.prems"(1) by (simp add: sentinel_def)
  then have ld: "mem_load m p = Inr (m ! p)" using "1.prems"(2) by (simp add: mem_load_def)
  show ?case
  proof (cases "p < e")
    case False
    then show ?thesis using ld by (simp add: buf_count.simps [of m e p] packet_total.simps)
  next
    case True
    have w: "window m e p = m ! p # window m e (Suc p)" using True le by (intro window_Cons) auto
    have nul: "m ! p \<noteq> NUL" "NUL \<notin> set (window m e (Suc p))" using "1.prems"(3) w by auto
    have sep: "packet_sep m e p = Inr (map_option (\<lambda>k. Suc p + k) (sep_after (window m e (Suc p))))"
      using "1.prems"(1) True by (rule packet_sep_spec)
    note IH = "1.IH" [OF ld]
    show ?thesis
    proof (cases "m ! p = LF \<and> sep_after (window m e (Suc p)) \<noteq> None")
      case True
      then obtain k where k: "sep_after (window m e (Suc p)) = Some k" by auto
      have kb: "Suc p + k \<le> e" using sep_after_bound [OF k] le \<open>p < e\<close> by auto
      have d: "window m e (Suc p + k) = drop (Suc k) (window m e p)"
        by (simp add: drop_take add.commute)
      have "NUL \<notin> set (window m e (Suc p + k))"
        unfolding d using "1.prems"(3) by (meson in_set_dropD)
      then have "buf_count m e (Suc p + k) (Suc x) = Inr (Suc x + packet_total (window m e (Suc p + k)))"
        using IH True \<open>p < e\<close> "1.prems"(1) nul sep k kb by auto
      moreover have "packet_end (window m e p) = Some (Suc k)" using w True k by simp
      then have "packet_total (window m e p) = Suc (packet_total (window m e (Suc p + k)))"
        unfolding packet_total.simps [of "window m e p"] d by simp
      ultimately show ?thesis using ld sep nul \<open>p < e\<close> True k
        by (simp add: buf_count.simps [of m e p])
    next
      case False
      have c: "buf_count m e (Suc p) x = Inr (x + packet_total (window m e (Suc p)))"
        using IH False True "1.prems"(1) nul sep by (cases "m ! p = LF") auto
      have e: "packet_end (window m e p) = map_option Suc (packet_end (window m e (Suc p)))"
        using w False by auto
      have "packet_total (window m e p) = packet_total (window m e (Suc p))"
        unfolding packet_total.simps [of "window m e p"] packet_total.simps [of "window m e (Suc p)"] e
        using w by (simp split: option.split)
      then show ?thesis using ld sep nul \<open>p < e\<close> False c
        by (auto simp: buf_count.simps [of m e p])
    qed
  qed
qed

definition buf_sentinel :: "esl_buffer \<Rightarrow> bool" where
  "buf_sentinel b \<longleftrightarrow> (case buf_data b of None \<Rightarrow> False | Some m \<Rightarrow> sentinel m (buf_actually_used b))"

lemma buf_content_window:
  "buf_data b = Some m \<Longrightarrow> buf_content b = window m (buf_head b + buf_used b) (buf_head b)"
  by (simp add: buf_content_def)

lemma read_packet_found:
  assumes "buf_wf b" "buf_sentinel b" "NUL \<notin> set (buf_content b)"
  shows "\<exists>b'. esl_buffer_read_packet b maxlen =
           Inr (take (case packet_end (buf_content b) of None \<Rightarrow> 0 | Some k \<Rightarrow> min k maxlen) (buf_content b), b') \<and>
           buf_wf b' \<and>
           buf_content b' =
             drop (case packet_end (buf_content b) of None \<Rightarrow> 0 | Some k \<Rightarrow> min k maxlen) (buf_content b)"
proof -
  from assms(1) obtain m where m: "buf_data b = Some m" "buf_head b + buf_used b = buf_actually_used b"
    by (rule buf_wfE)
  have scan: "buf_scan m (buf_head b + buf_used b) (buf_head b) =
      Inr (map_option (\<lambda>k. buf_head b + k) (packet_end (buf_content b)))"
    unfolding buf_content_window [OF m(1)]
    by (rule buf_scan_spec)
       (use assms m buf_content_window [OF m(1)] in \<open>simp_all add: buf_sentinel_def\<close>)
  define n where "n = (case packet_end (buf_content b) of None \<Rightarrow> 0 | Some k \<Rightarrow> min k maxlen)"
  have "esl_buffer_read_packet b maxlen = esl_buffer_read b n"
    using m scan by (auto simp: esl_buffer_read_packet_def n_def Let_def min_def split: option.splits)
  then show ?thesis using buf_read_spec [OF assms(1), of n] by (simp add: n_def)
qed

lemma packet_count_total:
  assumes "buf_wf b" "buf_sentinel b" "NUL \<notin> set (buf_content b)"
  shows "esl_buffer_packet_count b = Inr (packet_total (buf_content b))"
proof -
  from assms(1) obtain m where m: "buf_data b = Some m" "buf_head b + buf_used b = buf_actually_used b"
    by (rule buf_wfE)
  have "buf_count m (buf_head b + buf_used b) (buf_head b) 0 = Inr (0 + packet_total (buf_content b))"
    unfolding buf_content_window [OF m(1)]
    by (rule buf_count_spec)
       (use assms m buf_content_window [OF m(1)] in \<open>simp_all add: buf_sentinel_def\<close>)
  then show ?thesis using m(1) by (simp add: esl_buffer_packet_count_def)
qed

section \<open>When a write must succeed\<close>

lemma buf_grow_succeeds:
  assumes wf: "buf_wf b" and mem: "\<And>k. k < 2 ^ 63 \<Longrightarrow> can_alloc A k"
    and fits: "buf_datalen b + n < 2 ^ 63" "buf_datalen b + buf_blocksize b < 2 ^ 63"
  shows "\<exists>b'. buf_grow A b n = Inr (True, b')"
proof -
  from wf obtain m where m: "buf_data b = Some m" "buf_datalen b < 2 ^ 63"
    by (rule buf_wfE)
  have e1: "add64 (buf_datalen b) n = buf_datalen b + n"
    using fits by (intro add64_exact) simp
  have e2: "add64 (buf_datalen b) (buf_blocksize b) = buf_datalen b + buf_blocksize b"
    using fits by (intro add64_exact) simp
  have "malloc_ok A (if buf_datalen b + n < buf_datalen b + buf_blocksize b
                     then buf_datalen b + buf_blocksize b else buf_datalen b + n)"
    using mem fits by (simp add: malloc_ok_def)
  then show ?thesis
    using m(1) unfolding buf_grow_def Let_def e1 e2 by (simp add: buf_mem_def c_realloc_def)
qed

lemma buf_write_succeeds:
  assumes wf: "buf_wf b" and mem: "\<And>k. k < 2 ^ 63 \<Longrightarrow> can_alloc A k"
    and fits: "buf_datalen b + length bs < 2 ^ 63" "buf_datalen b + buf_blocksize b < 2 ^ 63"
  shows "\<exists>b'. esl_buffer_write A b bs = Inr (length (buf_content b @ bs), b') \<and>
              buf_wf b' \<and> buf_content b' = buf_content b @ bs"
proof (cases "bs = []")
  case True
  then show ?thesis using wf by (auto simp: esl_buffer_write_def buf_content_length elim!: buf_wfE)
next
  case False
  have len: "length bs < 2 ^ 63" using fits by simp
  obtain b1 where b1: "buf_compact b (length bs) = Inr b1" "buf_wf b1"
      "buf_content b1 = buf_content b" "buf_datalen b1 = buf_datalen b"
      "buf_blocksize b1 = buf_blocksize b"
      "buf_head b1 = 0 \<or> length bs \<le> buf_datalen b1 - buf_actually_used b1"
  proof -
    obtain b1 where 1: "buf_compact b (length bs) = Inr b1" "buf_wf b1"
        "buf_content b1 = buf_content b" "buf_datalen b1 = buf_datalen b"
        "buf_head b1 = 0 \<or> length bs \<le> buf_datalen b1 - buf_actually_used b1"
      using buf_compact_spec [OF wf len] by blast
    have "buf_blocksize b1 = buf_blocksize b"
      using 1(1) by (auto simp: buf_compact_def fault_simps split: if_splits)
    then show thesis using that 1 by blast
  qed
  obtain ok b2 where b2: "buf_grow A b1 (length bs) = Inr (ok, b2)" "buf_wf b2"
      "buf_content b2 = buf_content b1" "ok \<longrightarrow> length bs \<le> buf_datalen b2 - buf_actually_used b2"
    using buf_grow_spec [OF b1(2) len b1(6)] by blast
  have ok using buf_grow_succeeds [OF b1(2) mem, of "length bs"] b1(4,5) fits b2(1) by auto
  then obtain b3 where b3: "buf_append b2 bs = Inr (buf_used b2 + length bs, b3)" "buf_wf b3"
      "buf_content b3 = buf_content b2 @ bs"
    using buf_append_spec [OF b2(2)] b2(4) by blast
  have nn: "buf_data b \<noteq> None" using wf by (auto elim: buf_wfE)
  show ?thesis
    using False nn \<open>ok\<close> b1 b2 b3 buf_content_length [OF b2(2)] by (auto simp: esl_buffer_write_def)
qed

section \<open>Properties\<close>

lemmas list_eval = take_Cons' drop_Cons' nth_Cons'

definition wit_alloc :: allocator where
  "wit_alloc = \<lparr>can_alloc = (\<lambda>_. True), raw_byte = (\<lambda>_. CHR ''?'')\<rparr>"

definition wit_buffer :: "char list \<Rightarrow> nat \<Rightarrow> nat \<Rightarrow> esl_buffer" where
  "wit_buffer m h u = \<lparr>buf_data = Some m, buf_head = h, buf_used = u, buf_actually_used = h + u,
     buf_datalen = length m, buf_max_len = 0, buf_blocksize = 4, buf_id = 0, buf_loops = 0\<rparr>"

text \<open>
  C18. A buffer created without a length limit is a byte queue: whatever sequence of writes
  and reads is run on it, no access leaves the allocated block, and the bytes written
  (those of the writes that did not report failure) are exactly the bytes read, in order,
  followed by the bytes still in the buffer.
\<close>

theorem buffer_fifo:
  assumes "esl_buffer_create A i blocksize start_len 0 = (ESL_SUCCESS, Some b, j)"
    and "start_len \<noteq> 0" and "blocksize < 2 ^ 63" and "small_puts ops"
  shows "\<exists>written got b'. fifo_run (esl_buffer_write A) esl_buffer_read b ops = Inr (written, got, b') \<and>
           written = got @ buf_content b'"
  using esl_buf.conservation [of b ops A] buf_create_wf [OF assms(1-3)] assms(4) by fastforce

theorem buffer_fifo_witness:
  "\<exists>written got b'. fifo_run (esl_buffer_write wit_alloc) esl_buffer_read
     (wit_buffer (replicate 4 NUL) 0 0) [Put ''abc'', Get 2, Put ''defg'', Get 9] = Inr (written, got, b') \<and>
   written = got @ buf_content b'"
proof (rule buffer_fifo)
  show "esl_buffer_create wit_alloc 0 4 4 0 = (ESL_SUCCESS, Some (wit_buffer (replicate 4 NUL) 0 0), 1)"
    by (simp add: esl_buffer_create_def malloc_ok_def wit_alloc_def wit_buffer_def)
qed (simp_all add: small_puts_def)

text \<open>
  A write to such a buffer never faults; when memory is left and the sizes stay below
  \<^verbatim>\<open>PTRDIFF_MAX\<close> it appends all its bytes, keeps the invariant and returns the new number of
  unread bytes, whatever has to be compacted or reallocated on the way.
\<close>

theorem buffer_write_appends:
  assumes "buf_wf b" and "\<forall>k < 2 ^ 63. can_alloc A k"
    and "buf_datalen b + length bs < 2 ^ 63" and "buf_datalen b + buf_blocksize b < 2 ^ 63"
  shows "\<exists>b'. esl_buffer_write A b bs = Inr (length (buf_content b @ bs), b') \<and>
              buf_wf b' \<and> buf_content b' = buf_content b @ bs"
  using buf_write_succeeds [of b A bs] assms by blast

theorem buffer_write_appends_witness:
  "\<exists>b'. esl_buffer_write wit_alloc (wit_buffer ''xyab'' 2 2) ''cdefgh'' = Inr (8, b') \<and>
        buf_content b' = ''abcdefgh''"
proof -
  have "\<exists>b'. esl_buffer_write wit_alloc (wit_buffer ''xyab'' 2 2) ''cdefgh'' =
          Inr (length (buf_content (wit_buffer ''xyab'' 2 2) @ ''cdefgh''), b') \<and>
          buf_wf b' \<and> buf_content b' = buf_content (wit_buffer ''xyab'' 2 2) @ ''cdefgh''"
    by (rule buffer_write_appends) (simp_all add: wit_buffer_def buf_wf_def wit_alloc_def)
  moreover have "buf_content (wit_buffer ''xyab'' 2 2) = ''ab''"
    by (simp add: wit_buffer_def buf_content_def)
  ultimately show ?thesis by auto
qed

text \<open>
  Reading a packet hands out exactly the bytes up to and including the first empty line
  (cut to the caller's space) and leaves the rest; it hands out nothing while no packet is
  complete. It needs the byte behind the unread ones to exist and not to be a line feed.
\<close>

theorem buffer_read_packet:
  assumes "buf_wf b" and "buf_sentinel b" and "NUL \<notin> set (buf_content b)"
  shows "\<exists>b'. esl_buffer_read_packet b maxlen =
           Inr (take (case packet_end (buf_content b) of None \<Rightarrow> 0 | Some k \<Rightarrow> min k maxlen) (buf_content b), b') \<and>
           buf_wf b' \<and>
           buf_content b' =
             drop (case packet_end (buf_content b) of None \<Rightarrow> 0 | Some k \<Rightarrow> min k maxlen) (buf_content b)"
  using read_packet_found [OF assms] .

theorem buffer_read_packet_witness:
  "\<exists>b'. esl_buffer_read_packet (wit_buffer [CHR ''z'', CHR ''a'', LF, CR, LF, CHR ''b'', NUL] 1 5) 100 =
          Inr ([CHR ''a'', LF, CR, LF], b') \<and> buf_content b' = ''b''"
proof -
  let ?b = "wit_buffer [CHR ''z'', CHR ''a'', LF, CR, LF, CHR ''b'', NUL] 1 5"
  have c: "buf_content ?b = [CHR ''a'', LF, CR, LF, CHR ''b'']"
    by (simp add: wit_buffer_def buf_content_def list_eval)
  have "buf_wf ?b" "buf_sentinel ?b" "NUL \<notin> set (buf_content ?b)"
    unfolding c by (simp_all add: wit_buffer_def buf_wf_def buf_sentinel_def sentinel_def)
  from buffer_read_packet [OF this, of 100] show ?thesis unfolding c by (auto simp: list_eval)
qed

text \<open>
  Under the same condition the packet count is the number of complete packets that
  successive packet reads would find.
\<close>

theorem buffer_packet_count:
  assumes "buf_wf b" and "buf_sentinel b" and "NUL \<notin> set (buf_content b)"
  shows "esl_buffer_packet_count b = Inr (packet_total (buf_content b))"
  using packet_count_total [OF assms] .

theorem buffer_packet_count_witness:
  "esl_buffer_packet_count (wit_buffer [CHR ''a'', LF, LF, CHR ''b'', LF, CR, LF, CHR ''c'', NUL] 0 8) = Inr 2"
  using buffer_packet_count [of "wit_buffer [CHR ''a'', LF, LF, CHR ''b'', LF, CR, LF, CHR ''c'', NUL] 0 8"]
  by (simp add: wit_buffer_def buf_wf_def buf_sentinel_def sentinel_def buf_content_def
      packet_total.simps list_eval)

text \<open>
  Without that condition the scan goes wrong: the line feed an earlier, tossed packet
  left behind the unread bytes completes a packet that has not arrived yet. The buffer holds
  one line and no empty one, and still a packet is handed out and counted.
\<close>

theorem buffer_stale_line_feed:
  "\<exists>b. buf_wf b \<and> packet_end (buf_content b) = None \<and>
       esl_buffer_packet_count b = Inr 1 \<and>
       (\<exists>b'. esl_buffer_read_packet b 100 = Inr (buf_content b, b') \<and> buf_content b \<noteq> [])"
proof (intro exI conjI)
  let ?b = "wit_buffer [CHR ''c'', LF, LF, NUL] 0 2"
  show "buf_wf ?b" "packet_end (buf_content ?b) = None"
    by (simp_all add: wit_buffer_def buf_wf_def buf_content_def list_eval)
  show "esl_buffer_packet_count ?b = Inr 1"
    by (simp add: esl_buffer_packet_count_def wit_buffer_def buf_count.simps packet_sep_def
        mem_load_def list_eval)
  show "esl_buffer_read_packet ?b 100 = Inr (buf_content ?b, ?b\<lparr>buf_used := 0, buf_head := 2\<rparr>)"
    by (simp add: esl_buffer_read_packet_def wit_buffer_def buf_scan.simps packet_sep_def
        mem_load_def mem_read_def esl_buffer_read_def buf_reading_def buf_mem_def buf_content_def
        list_eval)
  show "buf_content ?b \<noteq> []" by (simp add: wit_buffer_def buf_content_def)
qed

end
