(* ===== verification/EslEvent.thy ===== *)
theory EslEvent
  imports EslText EslBuffer
begin

text \<open>
  Events of the event socket library (\<^verbatim>\<open>esl/esl_event.c\<close>): a list of named headers, a body
  and an identifier. A header pointer is the position of the header in the list; the C
  pointer \<open>last_header\<close> always points at the last element of the list and is not a field of
  its own. A header's \<open>idx\<close> is the length of its array. Allocation does not fail here: the
  code ends the program with an assertion where it does (and when an event grows to a
  million headers).
\<close>

section \<open>Data\<close>

datatype esl_stack = ESL_STACK_BOTTOM | ESL_STACK_TOP | ESL_STACK_PUSH | ESL_STACK_UNSHIFT

datatype esl_priority = ESL_PRIORITY_NORMAL | ESL_PRIORITY_LOW | ESL_PRIORITY_HIGH

text \<open>An event identifier is the number of the C enumeration constant.\<close>

type_synonym esl_event_type = nat

definition ESL_EVENT_CUSTOM :: esl_event_type where "ESL_EVENT_CUSTOM = 0"
definition ESL_EVENT_CLONE :: esl_event_type where "ESL_EVENT_CLONE = 1"
definition ESL_EVENT_ALL :: esl_event_type where "ESL_EVENT_ALL = 89"

definition event_names :: "string list" where
  "event_names =
   [''CUSTOM'', ''CLONE'', ''CHANNEL_CREATE'', ''CHANNEL_DESTROY'', ''CHANNEL_STATE'',
    ''CHANNEL_CALLSTATE'', ''CHANNEL_ANSWER'', ''CHANNEL_HANGUP'', ''CHANNEL_HANGUP_COMPLETE'',
    ''CHANNEL_EXECUTE'', ''CHANNEL_EXECUTE_COMPLETE'', ''CHANNEL_HOLD'', ''CHANNEL_UNHOLD'',
    ''CHANNEL_BRIDGE'', ''CHANNEL_UNBRIDGE'', ''CHANNEL_PROGRESS'', ''CHANNEL_PROGRESS_MEDIA'',
    ''CHANNEL_OUTGOING'', ''CHANNEL_PARK'', ''CHANNEL_UNPARK'', ''CHANNEL_APPLICATION'',
    ''CHANNEL_ORIGINATE'', ''CHANNEL_UUID'', ''API'', ''LOG'', ''INBOUND_CHAN'',
    ''OUTBOUND_CHAN'', ''STARTUP'', ''SHUTDOWN'', ''PUBLISH'', ''UNPUBLISH'', ''TALK'',
    ''NOTALK'', ''SESSION_CRASH'', ''MODULE_LOAD'', ''MODULE_UNLOAD'', ''DTMF'', ''MESSAGE'',
    ''PRESENCE_IN'', ''NOTIFY_IN'', ''PRESENCE_OUT'', ''PRESENCE_PROBE'', ''MESSAGE_WAITING'',
    ''MESSAGE_QUERY'', ''ROSTER'', ''CODEC'', ''BACKGROUND_JOB'', ''DETECTED_SPEECH'',
    ''DETECTED_TONE'', ''PRIVATE_COMMAND'', ''HEARTBEAT'', ''TRAP'', ''ADD_SCHEDULE'',
    ''DEL_SCHEDULE'', ''EXE_SCHEDULE'', ''RE_SCHEDULE'', ''RELOADXML'', ''NOTIFY'',
    ''PHONE_FEATURE'', ''PHONE_FEATURE_SUBSCRIBE'', ''SEND_MESSAGE'', ''RECV_MESSAGE'',
    ''REQUEST_PARAMS'', ''CHANNEL_DATA'', ''GENERAL'', ''COMMAND'', ''SESSION_HEARTBEAT'',
    ''CLIENT_DISCONNECTED'', ''SERVER_DISCONNECTED'', ''SEND_INFO'', ''RECV_INFO'',
    ''RECV_RTCP_MESSAGE'', ''CALL_SECURE'', ''NAT'', ''RECORD_START'', ''RECORD_STOP'',
    ''PLAYBACK_START'', ''PLAYBACK_STOP'', ''CALL_UPDATE'', ''FAILURE'', ''SOCKET_DATA'',
    ''MEDIA_BUG_START'', ''MEDIA_BUG_STOP'', ''CONFERENCE_DATA_QUERY'', ''CONFERENCE_DATA'',
    ''CALL_SETUP_REQ'', ''CALL_SETUP_RESULT'', ''CALL_DETAIL'', ''DEVICE_STATE'', ''ALL'']"

record esl_event_header =
  hdr_name :: string
  hdr_value :: "string option"
  hdr_array :: "string list"
  hdr_hash :: "32 word"

record esl_event =
  ev_id :: esl_event_type
  ev_priority :: esl_priority
  ev_owner :: "string option"
  ev_subclass_name :: "string option"
  ev_headers :: "esl_event_header list"
  ev_body :: "string option"
  ev_bind_user_data :: nat
  ev_event_user_data :: nat
  ev_key :: nat
  ev_uniq_headers :: bool

text \<open>The bits of a stack argument, and the tests and the update the code makes on them.\<close>

definition stack_bits :: "esl_stack \<Rightarrow> nat" where
  "stack_bits s =
     (case s of ESL_STACK_BOTTOM \<Rightarrow> 0 | ESL_STACK_TOP \<Rightarrow> 1 | ESL_STACK_PUSH \<Rightarrow> 2 | ESL_STACK_UNSHIFT \<Rightarrow> 3)"

definition stack_test :: "esl_stack \<Rightarrow> esl_stack \<Rightarrow> bool" where
  "stack_test s t \<longleftrightarrow>
     odd (stack_bits s) \<and> odd (stack_bits t) \<or> 2 \<le> stack_bits s \<and> 2 \<le> stack_bits t"

definition stack_clear_order :: "esl_stack \<Rightarrow> esl_stack" where
  "stack_clear_order s =
     (case s of ESL_STACK_TOP \<Rightarrow> ESL_STACK_BOTTOM | ESL_STACK_UNSHIFT \<Rightarrow> ESL_STACK_PUSH | _ \<Rightarrow> s)"

definition stack_array :: "esl_stack \<Rightarrow> bool" where
  "stack_array s \<longleftrightarrow> stack_test s ESL_STACK_PUSH \<or> stack_test s ESL_STACK_UNSHIFT"

section \<open>Names\<close>

definition esl_event_name :: "esl_event_type \<Rightarrow> string c_result" where
  "esl_event_name e = (if e < length event_names then Inr (event_names ! e) else Inl OutOfBounds)"

fun name_event_from :: "string \<Rightarrow> esl_event_type \<Rightarrow> string list \<Rightarrow> esl_event_type option" where
  "name_event_from name x [] = None"
| "name_event_from name x (n # ns) =
     (if 13 < length name \<and> strcaseeq (drop 13 name) n \<or> strcaseeq name n then Some x
      else name_event_from name (Suc x) ns)"

definition esl_name_event :: "string \<Rightarrow> esl_event_type option" where
  "esl_name_event name = name_event_from name 0 (take (Suc ESL_EVENT_ALL) event_names)"

definition esl_priority_name :: "esl_priority \<Rightarrow> string" where
  "esl_priority_name p =
     (case p of ESL_PRIORITY_NORMAL \<Rightarrow> ''NORMAL'' | ESL_PRIORITY_LOW \<Rightarrow> ''LOW''
              | ESL_PRIORITY_HIGH \<Rightarrow> ''HIGH'')"

section \<open>Lookup\<close>

fun ci_hash :: "32 word \<Rightarrow> string \<Rightarrow> 32 word" where
  "ci_hash h [] = h"
| "ci_hash h (c # cs) = ci_hash (h * 33 + of_nat (byte_of (c_tolower c))) cs"

text \<open>The hash and the length the code stores back through \<open>klen\<close>.\<close>

definition esl_ci_hashfunc_default :: "string \<Rightarrow> int \<Rightarrow> 32 word \<times> int" where
  "esl_ci_hashfunc_default key klen =
     (if klen = -1 then (ci_hash 0 key, int (length key)) else (ci_hash 0 (take (nat klen) key), klen))"

definition name_hash :: "string \<Rightarrow> 32 word" where
  "name_hash name = fst (esl_ci_hashfunc_default name (-1))"

definition hash_match :: "32 word \<Rightarrow> string \<Rightarrow> esl_event_header \<Rightarrow> bool" where
  "hash_match hash name hp \<longleftrightarrow> (hdr_hash hp = 0 \<or> hash = hdr_hash hp) \<and> strcaseeq (hdr_name hp) name"

fun find_header :: "(esl_event_header \<Rightarrow> bool) \<Rightarrow> nat \<Rightarrow> esl_event_header list \<Rightarrow> nat option" where
  "find_header P i [] = None"
| "find_header P i (h # hs) = (if P h then Some i else find_header P (Suc i) hs)"

definition esl_event_get_header_ptr :: "esl_event \<Rightarrow> string option \<Rightarrow> nat option" where
  "esl_event_get_header_ptr ev header_name =
     (case header_name of None \<Rightarrow> None
      | Some n \<Rightarrow> find_header (hash_match (name_hash n) n) 0 (ev_headers ev))"

definition esl_event_get_header_idx :: "esl_event \<Rightarrow> string option \<Rightarrow> int \<Rightarrow> string option" where
  "esl_event_get_header_idx ev header_name idx =
     (case esl_event_get_header_ptr ev header_name of
        Some p \<Rightarrow>
          let hp = ev_headers ev ! p
          in if -1 < idx
             then (if idx < int (length (hdr_array hp)) then Some (hdr_array hp ! nat idx) else None)
             else hdr_value hp
      | None \<Rightarrow> if header_name = Some ''_body'' then ev_body ev else None)"

definition esl_event_get_header :: "esl_event \<Rightarrow> string \<Rightarrow> string option" where
  "esl_event_get_header ev name = esl_event_get_header_idx ev (Some name) (-1)"

definition esl_event_get_body :: "esl_event option \<Rightarrow> string option" where
  "esl_event_get_body ev = (case ev of None \<Rightarrow> None | Some e \<Rightarrow> ev_body e)"

section \<open>Update\<close>

definition esl_event_set_body :: "esl_event \<Rightarrow> string option \<Rightarrow> esl_event" where
  "esl_event_set_body ev body = ev\<lparr>ev_body := body\<rparr>"

definition esl_event_add_body :: "esl_event \<Rightarrow> string option option \<Rightarrow> esl_status \<times> esl_event" where
  "esl_event_add_body ev fmt =
     (case fmt of Some (Some text) \<Rightarrow> (ESL_SUCCESS, ev\<lparr>ev_body := Some text\<rparr>) | _ \<Rightarrow> (ESL_FAIL, ev))"

text \<open>
  Deletion visits the headers in order; \<open>hlen\<close> is -1 for the first hash and the length of
  the name for the others. The status is initialised with \<open>ESL_FALSE\<close>, which is the number
  of \<open>ESL_SUCCESS\<close>.
\<close>

fun del_headers :: "string \<Rightarrow> string option \<Rightarrow> int \<Rightarrow> esl_event_header list \<Rightarrow> esl_event_header list" where
  "del_headers name val hlen [] = []"
| "del_headers name val hlen (hp # tp) =
     (case esl_ci_hashfunc_default name hlen of (hash, hlen') \<Rightarrow>
        if hash_match hash name hp \<and>
           (val = None \<or> val = Some [] \<or> (hdr_value hp \<noteq> None \<and> hdr_value hp = val))
        then del_headers name val hlen' tp else hp # del_headers name val hlen' tp)"

definition esl_event_del_header_val :: "esl_event \<Rightarrow> string \<Rightarrow> string option \<Rightarrow> esl_status \<times> esl_event" where
  "esl_event_del_header_val ev name val =
     (ESL_SUCCESS, ev\<lparr>ev_headers := del_headers name val (-1) (ev_headers ev)\<rparr>)"

definition esl_event_del_header :: "esl_event \<Rightarrow> string \<Rightarrow> esl_event" where
  "esl_event_del_header ev name = snd (esl_event_del_header_val ev name None)"

definition new_header :: "string \<Rightarrow> esl_event_header" where
  "new_header name = \<lparr>hdr_name = name, hdr_value = None, hdr_array = [], hdr_hash = 0\<rparr>"

text \<open>
  The \<open>redraw\<close> part: the value is printed from the array into a buffer of \<open>len\<close> bytes, each
  piece with what space is left (\<open>esl_snprintf\<close> uses one byte less than it is given).
\<close>

definition redraw_len :: "string list \<Rightarrow> nat" where
  "redraw_len arr = (\<Sum>a\<leftarrow>arr. length a + 2) + 8"

fun redraw_items :: "nat \<Rightarrow> bool \<Rightarrow> string list \<Rightarrow> string \<Rightarrow> string" where
  "redraw_items len first [] v = v"
| "redraw_items len first (a # as) v =
     redraw_items len False as
       (v @ snprintf_text (len - length v - 1) ((if first then [] else ''|:'') @ a))"

definition header_redraw :: "string list \<Rightarrow> string" where
  "header_redraw arr =
     redraw_items (redraw_len arr) True arr
       (if 1 < length arr then snprintf_text (redraw_len arr - 1) ''ARRAY::'' else [])"

text \<open>A value is put into the array of a header; an earlier plain value becomes its first element.\<close>

definition header_push :: "esl_stack \<Rightarrow> esl_event_header \<Rightarrow> string \<Rightarrow> esl_event_header" where
  "header_push stack h data =
     (let arr = (case hdr_value h of
                   Some v \<Rightarrow> if hdr_array h = [] then [v] else hdr_array h
                 | None \<Rightarrow> hdr_array h);
          arr' = (if stack_test stack ESL_STACK_PUSH then arr @ [data]
                  else if stack_test stack ESL_STACK_UNSHIFT then data # arr else arr)
      in h\<lparr>hdr_array := arr', hdr_value := Some (header_redraw arr')\<rparr>)"

definition header_store :: "esl_stack \<Rightarrow> esl_event_header \<Rightarrow> string \<Rightarrow> esl_event_header" where
  "header_store stack h data =
     (if stack_array stack then header_push stack h data else h\<lparr>hdr_value := Some data\<rparr>)"

definition link_header :: "esl_event \<Rightarrow> esl_stack \<Rightarrow> esl_event_header \<Rightarrow> esl_event" where
  "link_header ev stack h =
     (let h' = h\<lparr>hdr_hash := name_hash (hdr_name h)\<rparr>
      in ev\<lparr>ev_headers := (if stack_test stack ESL_STACK_TOP then h' # ev_headers ev
                           else ev_headers ev @ [h'])\<rparr>)"

definition update_header :: "esl_event \<Rightarrow> nat \<Rightarrow> esl_event_header \<Rightarrow> esl_event" where
  "update_header ev p h = ev\<lparr>ev_headers := (ev_headers ev)[p := h]\<rparr>"

definition split_header_name :: "string \<Rightarrow> int option \<times> string" where
  "split_header_name name =
     (case strchr name CHR ''['' of
        None \<Rightarrow> (None, name)
      | Some q \<Rightarrow> (Some (c_atoi (tl q)), before_chr name CHR ''[''))"

text \<open>The header \<open>name[index]\<close>: one element of the array is replaced, or the array grows up to it.\<close>

definition extend_array :: "string list \<Rightarrow> nat \<Rightarrow> string \<Rightarrow> string list" where
  "extend_array arr index data = arr @ replicate (index - length arr) [] @ [data]"

definition set_header_index ::
  "esl_event \<Rightarrow> esl_stack \<Rightarrow> string \<Rightarrow> int \<Rightarrow> string \<Rightarrow> esl_event" where
  "set_header_index ev stack name index data =
     (case esl_event_get_header_ptr ev (Some name) of
        Some p \<Rightarrow>
          let h = ev_headers ev ! p
          in if -1 < index \<and> index \<le> 4000 then
               (if index < int (length (hdr_array h))
                then update_header ev p (h\<lparr>hdr_array := (hdr_array h)[nat index := data]\<rparr>)
                else let arr = extend_array (hdr_array h) (nat index) data
                     in update_header ev p (h\<lparr>hdr_array := arr, hdr_value := Some (header_redraw arr)\<rparr>))
             else ev
      | None \<Rightarrow>
          let ev1 = (if ev_uniq_headers ev then esl_event_del_header ev name else ev)
          in if -1 < index \<and> index \<le> 4000 then
               (let arr = extend_array [] (nat index) data
                in link_header ev1 stack
                     ((new_header name)\<lparr>hdr_array := arr, hdr_value := Some (header_redraw arr)\<rparr>))
             else ev1)"

text \<open>The number of elements of an array value and its elements.\<close>

function count_sep :: "string \<Rightarrow> nat" where
  "count_sep p = (case strstr p ''|:'' of None \<Rightarrow> 0 | Some q \<Rightarrow> Suc (count_sep (drop 2 q)))"
  by pat_completeness auto
termination
  by (relation "measure length") (auto dest!: strstr_length)

declare count_sep.simps [simp del]

definition array_slots :: "string \<Rightarrow> string option list" where
  "array_slots val =
     (let data = drop 7 val; max = 1 + count_sep data; pieces = sep_fill ''|:'' (max - 1) data
      in map Some pieces @ replicate (max - length pieces) None)"

lemma sep_fill_pieces_length: "x \<in> set (sep_fill delim room cur) \<Longrightarrow> length x \<le> length cur"
proof (induction room arbitrary: cur)
  case (Suc room)
  then show ?case
    by (auto split: option.splits if_splits dest!: strstr_length) force+
qed simp

lemma array_slots_shorter:
  "Some x \<in> set (array_slots val) \<Longrightarrow> 8 \<le> length val \<Longrightarrow> length x < length val"
  by (auto simp: array_slots_def Let_def dest!: sep_fill_pieces_length)

function esl_event_base_add_header :: "esl_event \<Rightarrow> esl_stack \<Rightarrow> string \<Rightarrow> string \<Rightarrow> esl_event"
  and esl_event_add_array :: "esl_event \<Rightarrow> string \<Rightarrow> string \<Rightarrow> int \<times> esl_event"
where
  "esl_event_base_add_header ev stack header_name data =
     (let ev1 = (if header_name = ''_body'' then esl_event_set_body ev (Some data) else ev)
      in case split_header_name header_name of
           (Some index, name) \<Rightarrow> set_header_index ev1 stack name index data
         | (None, name) \<Rightarrow>
             (case (if stack_array stack then esl_event_get_header_ptr ev1 (Some name) else None) of
                Some p \<Rightarrow> update_header ev1 p (header_store (stack_clear_order stack) (ev_headers ev1 ! p) data)
              | None \<Rightarrow>
                  if data = [] then esl_event_del_header ev1 name
                  else let ev2 = (if ev_uniq_headers ev1 then esl_event_del_header ev1 name else ev1)
                       in if strstr data ''ARRAY::'' \<noteq> None
                          then snd (esl_event_add_array ev2 name data)
                          else link_header ev2 stack (header_store stack (new_header name) data)))"
| "esl_event_add_array ev var val =
     (if length val < 8 then (-1, ev)
      else (0, fold (\<lambda>slot e. case slot of None \<Rightarrow> e
                                | Some x \<Rightarrow> esl_event_base_add_header e ESL_STACK_PUSH var x)
                    (array_slots val) ev))"
  by pat_completeness auto
termination
proof (relation "measure (\<lambda>a. case a of Inl (e, s, n, d) \<Rightarrow> Suc (2 * length d) | Inr (e, n, d) \<Rightarrow> 2 * length d)")
qed (auto dest: array_slots_shorter)

declare esl_event_base_add_header.simps [simp del] esl_event_add_array.simps [simp del]

definition esl_event_add_header ::
  "esl_event \<Rightarrow> esl_stack \<Rightarrow> string \<Rightarrow> string option \<Rightarrow> esl_status \<times> esl_event" where
  "esl_event_add_header ev stack name text =
     (case text of None \<Rightarrow> (ESL_FAIL, ev)
      | Some data \<Rightarrow> (ESL_SUCCESS, esl_event_base_add_header ev stack name data))"

definition esl_event_add_header_string ::
  "esl_event \<Rightarrow> esl_stack \<Rightarrow> string \<Rightarrow> string option \<Rightarrow> esl_status \<times> esl_event" where
  "esl_event_add_header_string ev stack name data =
     (case data of None \<Rightarrow> (ESL_FAIL, ev)
      | Some d \<Rightarrow> (ESL_SUCCESS, esl_event_base_add_header ev stack name d))"

abbreviation add_string :: "esl_stack \<Rightarrow> string \<Rightarrow> string option \<Rightarrow> esl_event \<Rightarrow> esl_event" where
  "add_string stack name data ev \<equiv> snd (esl_event_add_header_string ev stack name data)"

section \<open>Whole events\<close>

definition empty_event :: esl_event where
  "empty_event = \<lparr>ev_id = 0, ev_priority = ESL_PRIORITY_NORMAL, ev_owner = None, ev_subclass_name = None,
     ev_headers = [], ev_body = None, ev_bind_user_data = 0, ev_event_user_data = 0, ev_key = 0,
     ev_uniq_headers = False\<rparr>"

definition esl_event_create_subclass ::
  "esl_event_type \<Rightarrow> string option \<Rightarrow> (esl_status \<times> esl_event option) c_result" where
  "esl_event_create_subclass event_id subclass_name =
     (if event_id \<noteq> ESL_EVENT_CLONE \<and> event_id \<noteq> ESL_EVENT_CUSTOM \<and> subclass_name \<noteq> None
      then Inr (ESL_FAIL, None)
      else
        res_bind
          (if event_id \<noteq> ESL_EVENT_CLONE
           then res_bind (esl_event_name event_id) (\<lambda>n.
                Inr (add_string ESL_STACK_BOTTOM ''Event-Name'' (Some n) (empty_event\<lparr>ev_id := event_id\<rparr>)))
           else Inr empty_event) (\<lambda>ev.
        Inr (ESL_SUCCESS, Some
          (case subclass_name of None \<Rightarrow> ev
           | Some s \<Rightarrow> add_string ESL_STACK_BOTTOM ''Event-Subclass'' (Some s)
                         (ev\<lparr>ev_subclass_name := Some s\<rparr>)))))"

definition esl_event_set_priority :: "esl_event \<Rightarrow> esl_priority \<Rightarrow> esl_status \<times> esl_event" where
  "esl_event_set_priority ev p =
     (ESL_SUCCESS, add_string ESL_STACK_TOP ''priority'' (Some (esl_priority_name p)) (ev\<lparr>ev_priority := p\<rparr>))"

definition esl_event_destroy :: "esl_event option \<Rightarrow> esl_event option" where
  "esl_event_destroy ev = None"

text \<open>The headers of one event are added to another: arrays element by element.\<close>

definition copy_header :: "esl_event_header \<Rightarrow> esl_event \<Rightarrow> esl_event" where
  "copy_header hp ev =
     (if hdr_array hp \<noteq> []
      then fold (\<lambda>a. add_string ESL_STACK_PUSH (hdr_name hp) (Some a)) (hdr_array hp) ev
      else add_string ESL_STACK_BOTTOM (hdr_name hp) (hdr_value hp) ev)"

definition esl_event_merge :: "esl_event \<Rightarrow> esl_event \<Rightarrow> esl_event" where
  "esl_event_merge ev tomerge = fold copy_header (ev_headers tomerge) ev"

definition esl_event_dup :: "esl_event \<Rightarrow> (esl_status \<times> esl_event option) c_result" where
  "esl_event_dup todup =
     res_bind (esl_event_create_subclass ESL_EVENT_CLONE (ev_subclass_name todup)) (\<lambda>(st, e).
       case e of None \<Rightarrow> Inr (ESL_GENERR, None)
       | Some ev \<Rightarrow>
           let ev1 = ev\<lparr>ev_id := ev_id todup, ev_event_user_data := ev_event_user_data todup,
                        ev_bind_user_data := ev_bind_user_data todup,
                        ev_uniq_headers := ev_uniq_headers todup\<rparr>;
               ev2 = fold (\<lambda>hp e. if ev_subclass_name todup \<noteq> None \<and> hdr_name hp = ''Event-Subclass''
                                  then e else copy_header hp e) (ev_headers todup) ev1;
               ev3 = (case ev_body todup of None \<Rightarrow> ev2 | Some b \<Rightarrow> ev2\<lparr>ev_body := Some b\<rparr>)
           in Inr (ESL_SUCCESS, Some (ev3\<lparr>ev_key := ev_key todup\<rparr>)))"

section \<open>The stack tests\<close>

lemma stack_simps [simp]:
  "stack_array ESL_STACK_BOTTOM = False" "stack_array ESL_STACK_TOP = True"
  "stack_array ESL_STACK_PUSH = True" "stack_array ESL_STACK_UNSHIFT = True"
  "stack_test ESL_STACK_BOTTOM t = False" "stack_test ESL_STACK_TOP ESL_STACK_TOP = True"
  "stack_test ESL_STACK_TOP ESL_STACK_PUSH = False" "stack_test ESL_STACK_TOP ESL_STACK_UNSHIFT = True"
  "stack_test ESL_STACK_PUSH ESL_STACK_TOP = False" "stack_test ESL_STACK_PUSH ESL_STACK_PUSH = True"
  "stack_test ESL_STACK_PUSH ESL_STACK_UNSHIFT = True" "stack_test ESL_STACK_UNSHIFT ESL_STACK_TOP = True"
  "stack_test ESL_STACK_UNSHIFT ESL_STACK_PUSH = True" "stack_test ESL_STACK_UNSHIFT ESL_STACK_UNSHIFT = True"
  "stack_clear_order ESL_STACK_BOTTOM = ESL_STACK_BOTTOM" "stack_clear_order ESL_STACK_TOP = ESL_STACK_BOTTOM"
  "stack_clear_order ESL_STACK_PUSH = ESL_STACK_PUSH" "stack_clear_order ESL_STACK_UNSHIFT = ESL_STACK_PUSH"
  by (simp_all add: stack_array_def stack_test_def stack_bits_def stack_clear_order_def)

section \<open>The hash only speeds the lookup up\<close>

lemma ci_hash_caseeq: "strcaseeq a b \<Longrightarrow> ci_hash h a = ci_hash h b"
proof (induction a arbitrary: h b)
  case (Cons x a)
  then obtain y b' where b: "b = y # b'" "c_tolower x = c_tolower y" "strcaseeq a b'"
    by (auto simp: strcaseeq_def)
  then show ?case using Cons.IH [OF b(3)] by simp
qed simp

lemma name_hash_caseeq: "strcaseeq a b \<Longrightarrow> name_hash a = name_hash b"
  by (simp add: name_hash_def esl_ci_hashfunc_default_def ci_hash_caseeq)

definition header_wf :: "esl_event_header \<Rightarrow> bool" where
  "header_wf h \<longleftrightarrow> hdr_value h \<noteq> None \<and> hdr_hash h = name_hash (hdr_name h)"

definition event_wf :: "esl_event \<Rightarrow> bool" where
  "event_wf ev \<longleftrightarrow> (\<forall>h \<in> set (ev_headers ev). header_wf h)"

definition header_named :: "string \<Rightarrow> esl_event_header \<Rightarrow> bool" where
  "header_named n h \<longleftrightarrow> strcaseeq (hdr_name h) n"

lemma hash_match_wf: "header_wf h \<Longrightarrow> hash_match (name_hash n) n h = header_named n h"
  by (auto simp: hash_match_def header_wf_def header_named_def dest: name_hash_caseeq)

lemma find_header_cong:
  "(\<And>h. h \<in> set hs \<Longrightarrow> P h = Q h) \<Longrightarrow> find_header P i hs = find_header Q i hs"
  by (induction hs arbitrary: i) auto

lemma find_header_None: "find_header P i hs = None \<longleftrightarrow> (\<forall>h \<in> set hs. \<not> P h)"
  by (induction hs arbitrary: i) auto

lemma find_header_Some:
  "find_header P i hs = Some p \<Longrightarrow>
   i \<le> p \<and> p - i < length hs \<and> P (hs ! (p - i)) \<and> find P hs = Some (hs ! (p - i)) \<and>
   (\<forall>j < p - i. \<not> P (hs ! j))"
proof (induction hs arbitrary: i)
  case (Cons h hs)
  show ?case
  proof (cases "P h")
    case False
    then have "find_header P (Suc i) hs = Some p" using Cons.prems by simp
    from Cons.IH [OF this] show ?thesis using False
      by (auto simp: nth_Cons' Suc_le_eq)
  qed (use Cons.prems in auto)
qed simp

lemma find_header_find: "map_option (\<lambda>p. hs ! p) (find_header P 0 hs) = find P hs"
  using find_header_Some [of P 0 hs] find_header_None [of P 0 hs]
  by (cases "find_header P 0 hs") (auto simp: find_None_iff2)

lemma find_header_append:
  "find_header P i (hs @ gs) =
     (case find_header P i hs of Some p \<Rightarrow> Some p | None \<Rightarrow> find_header P (i + length hs) gs)"
  by (induction hs arbitrary: i) (auto split: option.split)

definition header_at :: "esl_event \<Rightarrow> string \<Rightarrow> nat option" where
  "header_at ev n = find_header (header_named n) 0 (ev_headers ev)"

lemma get_ptr_wf: "event_wf ev \<Longrightarrow> esl_event_get_header_ptr ev (Some n) = header_at ev n"
  by (auto simp: esl_event_get_header_ptr_def event_wf_def header_at_def hash_match_wf
      intro!: find_header_cong)

section \<open>The array value\<close>

definition array_value :: "string list \<Rightarrow> string" where
  "array_value arr = (if 1 < length arr then ''ARRAY::'' else []) @ join_with ''|:'' arr"

lemma redraw_items_fits:
  "(\<Sum>a\<leftarrow>as. length a + 2) + length v + 1 < len + (if first then 2 else 0) \<Longrightarrow>
   redraw_items len first as v =
     v @ (if as = [] then [] else (if first then [] else ''|:'') @ join_with ''|:'' as)"
proof (induction as arbitrary: v first)
  case (Cons a as)
  let ?piece = "(if first then [] else ''|:'') @ a"
  have "length ?piece < len - length v - 1" using Cons.prems by auto
  then have step: "redraw_items len first (a # as) v = redraw_items len False as (v @ ?piece)"
    by simp
  have "(\<Sum>a\<leftarrow>as. length a + 2) + length (v @ ?piece) + 1 < len + (if False then 2 else 0)"
    using Cons.prems by auto
  from Cons.IH [OF this] show ?case unfolding step
    by (cases as) auto
qed simp

lemma header_redraw_value: "arr \<noteq> [] \<Longrightarrow> header_redraw arr = array_value arr"
proof -
  assume ne: "arr \<noteq> []"
  have fits: "(\<Sum>a\<leftarrow>arr. length a + 2) + length v + 1 < redraw_len arr" if "length v \<le> 6" for v :: string
    using that by (simp add: redraw_len_def)
  show ?thesis
  proof (cases "1 < length arr")
    case True
    then have "4 \<le> (\<Sum>a\<leftarrow>arr. length a + 2)"
      by (cases arr; cases "tl arr") auto
    then have len: "snprintf_text (redraw_len arr - 1) ''ARRAY::'' = ''ARRAY::''"
      by (intro snprintf_text_fits) (simp add: redraw_len_def)
    show ?thesis
      unfolding header_redraw_def array_value_def len
      using True ne by (simp add: redraw_items_fits redraw_len_def)
  next
    case False
    then show ?thesis using ne fits [of "[]"]
      by (simp add: header_redraw_def array_value_def redraw_items_fits)
  qed
qed

section \<open>Every operation keeps events well formed\<close>

lemma header_store_wf: "hdr_hash (header_store s h d) = hdr_hash h \<and> hdr_name (header_store s h d) = hdr_name h
    \<and> hdr_value (header_store s h d) \<noteq> None"
  by (auto simp: header_store_def header_push_def Let_def)

lemma new_header_simps [simp]:
  "hdr_name (new_header n) = n" "hdr_value (new_header n) = None" "hdr_array (new_header n) = []"
  by (simp_all add: new_header_def)

lemma link_header_wf: "event_wf ev \<Longrightarrow> hdr_value h \<noteq> None \<Longrightarrow> event_wf (link_header ev s h)"
  by (auto simp: link_header_def event_wf_def header_wf_def Let_def)

lemma update_header_wf:
  "event_wf ev \<Longrightarrow> header_wf h \<Longrightarrow> event_wf (update_header ev p h)"
  by (auto simp: update_header_def event_wf_def dest!: set_update_subset_insert [THEN subsetD])

lemma del_headers_subset: "set (del_headers n v l hs) \<subseteq> set hs"
  by (induction hs arbitrary: l) (fastforce split: prod.splits if_splits)+

lemma del_header_val_wf: "event_wf ev \<Longrightarrow> event_wf (snd (esl_event_del_header_val ev n v))"
  using del_headers_subset by (fastforce simp: esl_event_del_header_val_def event_wf_def)

lemma del_header_wf: "event_wf ev \<Longrightarrow> event_wf (esl_event_del_header ev n)"
  by (simp add: esl_event_del_header_def del_header_val_wf)

lemma set_body_wf: "event_wf ev \<Longrightarrow> event_wf (esl_event_set_body ev b)"
  by (simp add: esl_event_set_body_def event_wf_def)

lemma header_at_nth: "header_at ev n = Some p \<Longrightarrow> p < length (ev_headers ev) \<and> header_named n (ev_headers ev ! p)"
  by (auto simp: header_at_def dest: find_header_Some)

lemma event_wf_nth: "event_wf ev \<Longrightarrow> p < length (ev_headers ev) \<Longrightarrow> header_wf (ev_headers ev ! p)"
  by (simp add: event_wf_def)

lemma set_header_index_wf: "event_wf ev \<Longrightarrow> event_wf (set_header_index ev s n i d)"
  unfolding set_header_index_def Let_def
  by (auto simp: get_ptr_wf split: option.splits dest!: header_at_nth
      intro!: update_header_wf link_header_wf del_header_wf dest: event_wf_nth simp: header_wf_def)

lemma fold_invariant: "P e \<Longrightarrow> (\<And>x e. x \<in> set xs \<Longrightarrow> P e \<Longrightarrow> P (f x e)) \<Longrightarrow> P (fold f xs e)"
  by (induction xs arbitrary: e) auto

lemma base_add_header_wf_mutual:
  "event_wf ev \<Longrightarrow> event_wf (esl_event_base_add_header ev s n d)"
  "event_wf ev' \<Longrightarrow> event_wf (snd (esl_event_add_array ev' n' d'))"
proof (induction ev s n d and ev' n' d' rule: esl_event_base_add_header_esl_event_add_array.induct)
  case (1 ev stack name data)
  define ev1 where "ev1 = (if name = ''_body'' then esl_event_set_body ev (Some data) else ev)"
  define ev2 where "ev2 n = (if ev_uniq_headers ev1 then esl_event_del_header ev1 n else ev1)" for n
  have wf1: "event_wf ev1" using "1.prems" by (simp add: ev1_def set_body_wf)
  then have wf2: "event_wf (ev2 n)" for n by (simp add: ev2_def del_header_wf)
  obtain ix nm where sp: "split_header_name name = (ix, nm)" by force
  show ?case
  proof (cases ix)
    case (Some i)
    then show ?thesis using sp wf1
      by (simp add: esl_event_base_add_header.simps Let_def set_header_index_wf flip: ev1_def)
  next
    case None
    show ?thesis
    proof (cases "if stack_array stack then esl_event_get_header_ptr ev1 (Some nm) else None")
      case (Some p)
      then have "header_wf (ev_headers ev1 ! p)"
        using wf1 by (auto simp: get_ptr_wf split: if_splits dest!: header_at_nth intro: event_wf_nth)
      then have "header_wf (header_store (stack_clear_order stack) (ev_headers ev1 ! p) data)"
        using header_store_wf by (simp add: header_wf_def)
      then show ?thesis using Some sp None wf1
        by (simp add: esl_event_base_add_header.simps Let_def update_header_wf flip: ev1_def)
    next
      case no: None
      have "event_wf (snd (esl_event_add_array (ev2 nm) nm data))"
        if "data \<noteq> []" "strstr data ''ARRAY::'' \<noteq> None"
        using "1.IH" [OF ev1_def sp [symmetric] None no that(1) _ that(2), of "ev2 nm"] wf2
        by (simp add: ev2_def)
      moreover have "event_wf (link_header (ev2 nm) stack (header_store stack (new_header nm) data))"
        by (intro link_header_wf wf2) (use header_store_wf in auto)
      ultimately show ?thesis using no sp None wf1
        by (auto simp: esl_event_base_add_header.simps [of ev stack] Let_def del_header_wf ev2_def
            simp flip: ev1_def)
    qed
  qed
next
  case (2 ev var val)
  show ?case
  proof (cases "length val < 8")
    case True
    then show ?thesis using "2.prems" by (simp add: esl_event_add_array.simps)
  next
    case False
    have "event_wf (fold (\<lambda>slot e. case slot of None \<Rightarrow> e
              | Some x \<Rightarrow> esl_event_base_add_header e ESL_STACK_PUSH var x) (array_slots val) ev)"
      using "2.prems" by (rule fold_invariant) (auto split: option.split intro: "2.IH" [OF False])
    then show ?thesis using False by (simp add: esl_event_add_array.simps)
  qed
qed

lemma add_string_wf [wf_intros]: "event_wf ev \<Longrightarrow> event_wf (add_string s n d ev)"
  by (auto simp: esl_event_add_header_string_def base_add_header_wf_mutual split: option.split)

lemma copy_header_wf [wf_intros]: "event_wf ev \<Longrightarrow> event_wf (copy_header h ev)"
  by (auto simp: copy_header_def intro: fold_invariant add_string_wf)

section \<open>Adding and deleting by name\<close>

lemma del_headers_wf:
  assumes "\<forall>h \<in> set hs. header_wf h" "hlen = -1 \<or> hlen = int (length n)"
  shows "del_headers n None hlen hs = filter (\<lambda>h. \<not> header_named n h) hs"
  using assms
proof (induction hs arbitrary: hlen)
  case (Cons h hs)
  have "esl_ci_hashfunc_default n hlen = (name_hash n, int (length n))"
    using Cons.prems(2) by (auto simp: esl_ci_hashfunc_default_def name_hash_def)
  then show ?case using Cons by (simp add: hash_match_wf)
qed simp

lemma del_header_filter:
  "event_wf ev \<Longrightarrow>
   esl_event_del_header ev n = ev\<lparr>ev_headers := filter (\<lambda>h. \<not> header_named n h) (ev_headers ev)\<rparr>"
  by (simp add: esl_event_del_header_def esl_event_del_header_val_def event_wf_def del_headers_wf)

text \<open>The value a name is bound to by the headers: the one of the first header of that name.\<close>

definition header_lookup :: "esl_event \<Rightarrow> string \<Rightarrow> string option" where
  "header_lookup ev n = Option.bind (find (header_named n) (ev_headers ev)) hdr_value"

lemma get_header_lookup:
  assumes "event_wf ev"
  shows "esl_event_get_header ev n =
           (if find (header_named n) (ev_headers ev) = None \<and> n = ''_body'' then ev_body ev
            else header_lookup ev n)"
proof (cases "header_at ev n")
  case None
  then have "find (header_named n) (ev_headers ev) = None"
    unfolding header_at_def by (metis find_header_find option.map_disc_iff)
  then show ?thesis using None assms
    by (simp add: esl_event_get_header_def esl_event_get_header_idx_def get_ptr_wf header_lookup_def)
next
  case (Some p)
  then have "find (header_named n) (ev_headers ev) = Some (ev_headers ev ! p)"
    unfolding header_at_def by (metis find_header_find option.map(2))
  then show ?thesis using Some assms
    by (simp add: esl_event_get_header_def esl_event_get_header_idx_def get_ptr_wf header_lookup_def)
qed

definition plain_name :: "string \<Rightarrow> bool" where
  "plain_name n \<longleftrightarrow> CHR ''['' \<notin> set n \<and> n \<noteq> ''_body''"

definition plain_value :: "string \<Rightarrow> bool" where
  "plain_value v \<longleftrightarrow> v \<noteq> [] \<and> \<not> sublist ''ARRAY::'' v"

lemma split_plain: "plain_name n \<Longrightarrow> split_header_name n = (None, n)"
  by (simp add: plain_name_def split_header_name_def strchr_None_iff [THEN iffD2])

definition named_header :: "string \<Rightarrow> string \<Rightarrow> string list \<Rightarrow> esl_event_header" where
  "named_header n v arr = \<lparr>hdr_name = n, hdr_value = Some v, hdr_array = arr, hdr_hash = name_hash n\<rparr>"

lemma named_header_simps [simp]:
  "hdr_name (named_header n v a) = n" "hdr_value (named_header n v a) = Some v"
  "hdr_array (named_header n v a) = a" "header_wf (named_header n v a)"
  by (simp_all add: named_header_def header_wf_def)

lemma base_add_bottom:
  assumes "plain_name n" "plain_value v" "\<not> ev_uniq_headers ev"
  shows "esl_event_base_add_header ev ESL_STACK_BOTTOM n v =
           ev\<lparr>ev_headers := ev_headers ev @ [named_header n v []]\<rparr>"
  using assms split_plain [OF assms(1)]
  by (simp add: esl_event_base_add_header.simps Let_def plain_value_def strstr_None_iff link_header_def
      plain_name_def header_store_def new_header_def named_header_def)

lemma find_append: "find P (xs @ ys) = (case find P xs of None \<Rightarrow> find P ys | Some x \<Rightarrow> Some x)"
  by (induction xs) auto

lemma header_lookup_add:
  assumes "event_wf ev" "plain_name n" "plain_value v" "\<not> ev_uniq_headers ev"
  shows "header_lookup (add_string ESL_STACK_BOTTOM n (Some v) ev) m =
           (if strcaseeq n m \<and> header_lookup ev m = None then Some v else header_lookup ev m)"
proof -
  have "hdr_value h \<noteq> None" if "find (header_named m) (ev_headers ev) = Some h" for h
    using that assms(1) by (auto simp: find_Some_iff event_wf_def header_wf_def)
  then show ?thesis
    using assms
    by (auto simp: esl_event_add_header_string_def base_add_bottom header_lookup_def find_append
        header_named_def split: option.split)
qed

lemma header_lookup_del:
  assumes "event_wf ev"
  shows "header_lookup (esl_event_del_header ev n) m = (if strcaseeq n m then None else header_lookup ev m)"
proof -
  have "find (header_named m) (filter (\<lambda>h. \<not> header_named n h) hs) =
          (if strcaseeq n m then None else find (header_named m) hs)" for hs
    unfolding header_named_def [abs_def]
    by (induction hs) (auto intro: strcaseeq_trans dest: strcaseeq_sym [THEN iffD1])
  then show ?thesis using assms by (simp add: del_header_filter header_lookup_def)
qed

section \<open>The header store interface\<close>

text \<open>
  What a user of an event relies on: a name is bound by the first header added for it, names
  are compared without case, and deletion unbinds.
\<close>

locale first_binding_store =
  fixes get :: "'s \<Rightarrow> string \<Rightarrow> string option"
    and put :: "string \<Rightarrow> string \<Rightarrow> 's \<Rightarrow> 's"
    and del :: "string \<Rightarrow> 's \<Rightarrow> 's"
    and inv :: "'s \<Rightarrow> bool"
    and ok :: "string \<Rightarrow> string \<Rightarrow> bool"
  assumes inv_put: "inv s \<Longrightarrow> ok k v \<Longrightarrow> inv (put k v s)"
    and inv_del: "inv s \<Longrightarrow> inv (del k s)"
    and get_put: "inv s \<Longrightarrow> ok k v \<Longrightarrow>
      get (put k v s) m = (if strcaseeq k m \<and> get s m = None then Some v else get s m)"
    and get_del: "inv s \<Longrightarrow> get (del k s) m = (if strcaseeq k m then None else get s m)"
begin

lemma inv_put_all: "inv s \<Longrightarrow> (\<forall>(k, v) \<in> set kvs. ok k v) \<Longrightarrow> inv (fold (\<lambda>(k, v). put k v) kvs s)"
  by (induction kvs arbitrary: s) (auto intro: inv_put)

lemma get_put_all:
  "inv s \<Longrightarrow> (\<forall>(k, v) \<in> set kvs. ok k v) \<Longrightarrow>
   get (fold (\<lambda>(k, v). put k v) kvs s) m =
     (case get s m of Some v \<Rightarrow> Some v
      | None \<Rightarrow> map_option snd (find (\<lambda>(k, v). strcaseeq k m) kvs))"
proof (induction kvs arbitrary: s)
  case Nil
  then show ?case by (simp split: option.split)
next
  case (Cons kv kvs)
  then show ?case by (cases kv) (auto simp: get_put inv_put split: option.splits)
qed

lemma get_replace:
  "inv s \<Longrightarrow> ok k v \<Longrightarrow> get (put k v (del k s)) m = (if strcaseeq k m then Some v else get s m)"
  by (simp add: get_put inv_del get_del)

end

definition event_inv :: "esl_event \<Rightarrow> bool" where
  "event_inv ev \<longleftrightarrow> event_wf ev \<and> \<not> ev_uniq_headers ev"

interpretation ev_store: first_binding_store header_lookup
  "\<lambda>k v. add_string ESL_STACK_BOTTOM k (Some v)" "\<lambda>k ev. esl_event_del_header ev k" event_inv
  "\<lambda>k v. plain_name k \<and> plain_value v"
proof (unfold_locales, goal_cases)
  case (1 s k v)
  then show ?case
    by (simp add: event_inv_def add_string_wf) (simp add: esl_event_add_header_string_def base_add_bottom)
next
  case (2 s k)
  then show ?case
    by (simp add: event_inv_def del_header_wf) (simp add: del_header_filter)
next
  case (3 s k v m)
  then show ?case by (simp add: event_inv_def header_lookup_add)
next
  case (4 s k m)
  then show ?case by (simp add: event_inv_def header_lookup_del)
qed

section \<open>Array headers\<close>

lemma strstr_sep: "\<not> sublist ''|:'' v \<Longrightarrow> strstr (v @ ''|:'' @ r) ''|:'' = Some (''|:'' @ r)"
proof (induction v)
  case (Cons c v)
  have "\<not> prefix ''|:'' (c # v @ ''|:'' @ r)"
    using Cons.prems by (cases v) (auto simp: sublist_Cons_right)
  then show ?case using Cons by (simp add: sublist_Cons_right)
qed simp

lemma strstr_no_sep: "\<not> sublist ''|:'' v \<Longrightarrow> strstr v ''|:'' = None"
  by (simp add: strstr_None_iff)

lemma sep_pieces_of_join:
  "vs \<noteq> [] \<Longrightarrow> (\<forall>x \<in> set vs. \<not> sublist ''|:'' x) \<Longrightarrow>
   sep_fill ''|:'' (length vs - 1) (join_with ''|:'' vs) = vs \<and>
   count_sep (join_with ''|:'' vs) = length vs - 1"
proof (induction vs)
  case (Cons v vs)
  show ?case
  proof (cases "vs = []")
    case True
    then show ?thesis using Cons.prems strstr_no_sep [of v] by (simp add: count_sep.simps)
  next
    case False
    then obtain n where n: "length vs = Suc n" by (cases vs) auto
    have j: "join_with ''|:'' (v # vs) = v @ ''|:'' @ join_with ''|:'' vs"
      using False by (rule join_with_Cons)
    have s: "strstr (join_with ''|:'' (v # vs)) ''|:'' = Some (''|:'' @ join_with ''|:'' vs)"
      unfolding j using Cons.prems by (intro strstr_sep) simp
    show ?thesis
      using s Cons False n
      by (simp add: count_sep.simps [of "join_with ''|:'' (v # vs)"]) (simp add: j)
  qed
qed simp

lemma array_slots_value:
  assumes "2 \<le> length vs" "\<forall>x \<in> set vs. \<not> sublist ''|:'' x"
  shows "array_slots (array_value vs) = map Some vs"
proof -
  have ne: "vs \<noteq> []" using assms(1) by auto
  have "drop 7 (array_value vs) = join_with ''|:'' vs" using assms(1) by (simp add: array_value_def)
  then show ?thesis using sep_pieces_of_join [OF ne assms(2)] ne
    by (cases vs) (simp_all add: array_slots_def Let_def)
qed

lemma header_at_None_list: "header_at ev n = None \<longleftrightarrow> (\<forall>h \<in> set (ev_headers ev). \<not> header_named n h)"
  by (simp add: header_at_def find_header_None)

lemma push_new:
  assumes "event_inv ev" "plain_name n" "plain_value v" "header_at ev n = None"
  shows "esl_event_base_add_header ev ESL_STACK_PUSH n v =
           ev\<lparr>ev_headers := ev_headers ev @ [named_header n (array_value [v]) [v]]\<rparr>"
  using assms split_plain [OF assms(2)] get_ptr_wf [of ev n]
  by (simp add: esl_event_base_add_header.simps Let_def plain_value_def strstr_None_iff link_header_def
      plain_name_def header_store_def header_push_def new_header_def named_header_def event_inv_def
      header_redraw_value)

lemma push_more:
  assumes "event_inv ev" "plain_name n" "arr \<noteq> []" "\<forall>h \<in> set hs. \<not> header_named n h"
    and "ev_headers ev = hs @ [named_header n v arr]"
  shows "esl_event_base_add_header ev ESL_STACK_PUSH n d =
           ev\<lparr>ev_headers := hs @ [named_header n (array_value (arr @ [d])) (arr @ [d])]\<rparr>"
proof -
  have "header_at ev n = Some (length hs)"
    using assms(4,5) by (simp add: header_at_def find_header_append find_header_None [THEN iffD2]
        header_named_def)
  then have "esl_event_get_header_ptr ev (Some n) = Some (length hs)"
    using assms(1) by (simp add: event_inv_def get_ptr_wf)
  then show ?thesis
    using assms(2,3,5) split_plain [OF assms(2)]
    by (simp add: esl_event_base_add_header.simps Let_def plain_name_def update_header_def
        header_store_def header_push_def header_redraw_value named_header_def)
qed

lemma push_array:
  assumes "event_inv ev" "plain_name n" "vs \<noteq> []" "plain_value (hd vs)" "header_at ev n = None"
  shows "fold (\<lambda>a. add_string ESL_STACK_PUSH n (Some a)) vs ev =
           ev\<lparr>ev_headers := ev_headers ev @ [named_header n (array_value vs) vs]\<rparr>"
  using assms(3,4)
proof (induction vs rule: rev_induct)
  case (snoc v vs)
  show ?case
  proof (cases "vs = []")
    case True
    then show ?thesis using snoc assms push_new [of ev n v]
      by (simp add: esl_event_add_header_string_def)
  next
    case False
    let ?ev = "ev\<lparr>ev_headers := ev_headers ev @ [named_header n (array_value vs) vs]\<rparr>"
    have "event_inv ?ev" using assms(1) by (auto simp: event_inv_def event_wf_def)
    then show ?thesis
      using False snoc push_more [of ?ev n vs "ev_headers ev" "array_value vs" v] assms(2,5)
      by (simp add: esl_event_add_header_string_def header_at_None_list)
  qed
qed simp

lemma add_array_pieces:
  assumes "event_inv ev" "plain_name n" "2 \<le> length vs" "plain_value (hd vs)" "header_at ev n = None"
    and "\<forall>x \<in> set vs. \<not> sublist ''|:'' x"
  shows "snd (esl_event_add_array ev n (array_value vs)) =
           ev\<lparr>ev_headers := ev_headers ev @ [named_header n (array_value vs) vs]\<rparr>"
proof -
  have ne: "vs \<noteq> []" using assms(3) by auto
  then have "hd vs \<noteq> []" using assms(4) by (simp add: plain_value_def)
  then have len: "\<not> length (array_value vs) < 8"
    using assms(3) ne by (cases vs; cases "tl vs") (auto simp: array_value_def Suc_le_eq)
  then have "snd (esl_event_add_array ev n (array_value vs)) =
        fold (\<lambda>a. add_string ESL_STACK_PUSH n (Some a)) vs ev"
    by (simp add: esl_event_add_array.simps array_slots_value [OF assms(3,6)] fold_map o_def
        esl_event_add_header_string_def)
  then show ?thesis using push_array [OF assms(1,2) ne assms(4,5)] by simp
qed

lemma add_array_value:
  assumes "event_inv ev" "plain_name n" "2 \<le> length vs" "plain_value (hd vs)" "header_at ev n = None"
    and "\<forall>x \<in> set vs. \<not> sublist ''|:'' x"
  shows "add_string ESL_STACK_BOTTOM n (Some (array_value vs)) ev =
           ev\<lparr>ev_headers := ev_headers ev @ [named_header n (array_value vs) vs]\<rparr>"
proof -
  have "strstr (array_value vs) ''ARRAY::'' \<noteq> None" "array_value vs \<noteq> []"
    using assms(3) by (auto simp: array_value_def)
  then show ?thesis
    using add_array_pieces [OF assms] assms(1,2) split_plain [OF assms(2)]
    by (simp add: esl_event_add_header_string_def esl_event_base_add_header.simps [of ev ESL_STACK_BOTTOM]
        Let_def plain_name_def event_inv_def)
qed

section \<open>Duplicates\<close>

text \<open>
  The events whose headers \<open>esl_event_dup\<close> can rebuild: plain values, arrays that agree with
  their value and whose name no earlier header has.
\<close>

definition header_plain :: "esl_event_header \<Rightarrow> bool" where
  "header_plain h \<longleftrightarrow>
     header_wf h \<and> plain_name (hdr_name h) \<and>
     (if hdr_array h = [] then (case hdr_value h of None \<Rightarrow> False | Some v \<Rightarrow> plain_value v)
      else hdr_value h = Some (array_value (hdr_array h)) \<and> plain_value (hd (hdr_array h)))"

fun copyable :: "esl_event_header list \<Rightarrow> esl_event_header list \<Rightarrow> bool" where
  "copyable seen [] = True"
| "copyable seen (h # hs) =
     (header_plain h \<and> (hdr_array h \<noteq> [] \<longrightarrow> list_all (\<lambda>g. \<not> header_named (hdr_name h) g) seen) \<and>
      copyable (seen @ [h]) hs)"

lemma named_header_id: "header_wf h \<Longrightarrow> hdr_value h = Some v \<Longrightarrow> named_header (hdr_name h) v (hdr_array h) = h"
  by (cases h) (simp add: named_header_def header_wf_def)

lemma copy_header_plain:
  assumes "event_inv ev" "header_plain h"
    and "hdr_array h \<noteq> [] \<longrightarrow> list_all (\<lambda>g. \<not> header_named (hdr_name h) g) (ev_headers ev)"
  shows "copy_header h ev = ev\<lparr>ev_headers := ev_headers ev @ [h]\<rparr>"
proof (cases "hdr_array h = []")
  case True
  then obtain v where v: "hdr_value h = Some v" "plain_value v" "plain_name (hdr_name h)" "header_wf h"
    using assms(2) by (auto simp: header_plain_def split: option.splits)
  then have "named_header (hdr_name h) v [] = h" using named_header_id [of h v] True by simp
  then show ?thesis using True v assms(1)
    by (simp add: copy_header_def esl_event_add_header_string_def base_add_bottom event_inv_def)
next
  case False
  then have h: "hdr_value h = Some (array_value (hdr_array h))" "plain_value (hd (hdr_array h))"
      "plain_name (hdr_name h)" "header_wf h"
    using assms(2) by (auto simp: header_plain_def)
  have "header_at ev (hdr_name h) = None"
    using assms(3) False by (simp add: header_at_None_list list_all_iff)
  from push_array [OF assms(1) h(3) False h(2) this]
  show ?thesis using False named_header_id [OF h(4,1)] by (simp add: copy_header_def)
qed

lemma copy_headers_plain:
  "event_inv ev \<Longrightarrow> copyable (ev_headers ev) hs \<Longrightarrow>
   fold copy_header hs ev = ev\<lparr>ev_headers := ev_headers ev @ hs\<rparr>"
proof (induction hs arbitrary: ev)
  case (Cons h hs)
  let ?ev = "ev\<lparr>ev_headers := ev_headers ev @ [h]\<rparr>"
  have h: "header_plain h" "hdr_array h \<noteq> [] \<longrightarrow> list_all (\<lambda>g. \<not> header_named (hdr_name h) g) (ev_headers ev)"
    using Cons.prems(2) by auto
  have "event_inv ?ev" using Cons.prems(1) h(1)
    by (auto simp: event_inv_def event_wf_def header_plain_def)
  then have "fold copy_header hs ?ev = ?ev\<lparr>ev_headers := ev_headers ?ev @ hs\<rparr>"
    using Cons.prems(2) by (intro Cons.IH) auto
  then show ?case using copy_header_plain [OF Cons.prems(1) h] by simp
qed simp

section \<open>Properties\<close>

definition wit_event :: esl_event where
  "wit_event = empty_event\<lparr>ev_headers := [named_header ''Event-Name'' ''DTMF'' [],
     named_header ''DTMF-Digit'' ''5'' [], named_header ''dtmf-digit'' ''6'' []]\<rparr>"

lemma event_inv_empty: "event_inv empty_event"
  by (simp add: event_inv_def event_wf_def empty_event_def)

lemma wit_event_inv: "event_inv wit_event"
  by (simp add: event_inv_def event_wf_def wit_event_def empty_event_def)

text \<open>
  Every operation on events keeps them well formed: each header has a value, and the
  hash stored in it is the hash of its name.
\<close>

theorem event_wf_preserved:
  assumes "event_wf ev" and "event_wf other"
  shows "event_wf (snd (esl_event_add_header_string ev stack name data)) \<and>
         event_wf (snd (esl_event_add_header ev stack name data)) \<and>
         event_wf (snd (esl_event_add_array ev name val)) \<and>
         event_wf (snd (esl_event_del_header_val ev name data)) \<and>
         event_wf (esl_event_set_body ev data) \<and>
         event_wf (snd (esl_event_set_priority ev p)) \<and>
         event_wf (esl_event_merge ev other) \<and>
         (case esl_event_dup ev of Inr (_, Some e) \<Rightarrow> event_wf e | _ \<Rightarrow> True)"
proof (intro conjI)
  show "event_wf (snd (esl_event_add_header ev stack name data))"
    using assms(1) by (auto simp: esl_event_add_header_def base_add_header_wf_mutual split: option.split)
  show "event_wf (snd (esl_event_add_array ev name val))"
    using assms(1) by (rule base_add_header_wf_mutual)
  show "event_wf (esl_event_set_body ev data)" using assms(1) by (rule set_body_wf)
  have "event_wf (ev\<lparr>ev_priority := p\<rparr>)" using assms(1) by (simp add: event_wf_def)
  then show "event_wf (snd (esl_event_set_priority ev p))"
    by (simp add: esl_event_set_priority_def add_string_wf)
  show "event_wf (esl_event_merge ev other)"
    using assms(1) by (auto simp: esl_event_merge_def intro: fold_invariant copy_header_wf)
  have e: "event_wf empty_event" using event_inv_empty by (simp add: event_inv_def)
  have upd: "event_wf (e\<lparr>ev_subclass_name := a\<rparr>) = event_wf e" "event_wf (e\<lparr>ev_body := b\<rparr>) = event_wf e"
    "event_wf (e\<lparr>ev_key := k\<rparr>) = event_wf e"
    "event_wf (e\<lparr>ev_id := k, ev_event_user_data := l, ev_bind_user_data := m, ev_uniq_headers := u\<rparr>) = event_wf e"
    for e a b k l m u by (simp_all add: event_wf_def)
  have copies: "event_wf e \<Longrightarrow> event_wf (fold (\<lambda>hp e. if P hp then e else copy_header hp e) hs e)" for P hs e
    by (erule fold_invariant) (auto intro: copy_header_wf)
  note copies' = copies [of _ "\<lambda>_. False", simplified]
  show "case esl_event_dup ev of Inr (_, Some e) \<Rightarrow> event_wf e | _ \<Rightarrow> True"
    by (cases "ev_subclass_name ev"; cases "ev_body ev")
       (simp_all add: esl_event_dup_def esl_event_create_subclass_def ESL_EVENT_CLONE_def Let_def
         upd copies copies' e add_string_wf)
qed (use assms in \<open>simp_all add: add_string_wf del_header_val_wf\<close>)

theorem event_wf_preserved_witness:
  "event_wf (snd (esl_event_add_header_string wit_event ESL_STACK_PUSH ''dtmf-digit'' (Some ''7''))) \<and>
   event_wf (esl_event_merge wit_event wit_event)"
  using event_wf_preserved [of wit_event wit_event ESL_STACK_PUSH "''dtmf-digit''" "Some ''7''"] wit_event_inv
  by (simp add: event_inv_def)

text \<open>
  C21. In a well-formed event the stored hashes never hide a header: a lookup finds the first
  header whose name is the wanted one up to case, and gives its value or the wanted element
  of its array; the name \<^verbatim>\<open>_body\<close> gives the body when no header has it.
\<close>

theorem event_get_header:
  assumes "event_wf ev"
  shows "esl_event_get_header_idx ev (Some n) idx =
    (case find (\<lambda>h. strcaseeq (hdr_name h) n) (ev_headers ev) of
       Some h \<Rightarrow> if idx < 0 then hdr_value h
                 else if nat idx < length (hdr_array h) then Some (hdr_array h ! nat idx) else None
     | None \<Rightarrow> if n = ''_body'' then ev_body ev else None)"
proof -
  have "find (\<lambda>h. strcaseeq (hdr_name h) n) (ev_headers ev) =
        map_option (\<lambda>p. ev_headers ev ! p) (header_at ev n)"
    unfolding header_at_def find_header_find by (simp add: header_named_def [abs_def])
  then show ?thesis using assms
    by (auto simp: esl_event_get_header_idx_def get_ptr_wf Let_def split: option.split)
qed

theorem event_get_header_witness:
  "esl_event_get_header_idx wit_event (Some ''DTMF-DIGIT'') (-1) = Some ''5''"
  using event_get_header [of wit_event "''DTMF-DIGIT''" "-1"] wit_event_inv
  by (simp add: event_inv_def) (simp add: wit_event_def strcaseeq_def c_tolower_def char_eval)

text \<open>
  Headers added one after the other are found again: a name already bound keeps its
  value, otherwise the first of the added pairs with that name (up to case) is found. To
  delete a name and add it again rebinds it, and no other name is affected.
\<close>

theorem event_headers_bind_first:
  assumes "event_inv ev" and "\<forall>(k, v) \<in> set kvs. plain_name k \<and> plain_value v"
    and "plain_name n" and "plain_value w"
  shows "header_lookup (fold (\<lambda>(k, v) e. snd (esl_event_add_header_string e ESL_STACK_BOTTOM k (Some v))) kvs ev) m =
           (case header_lookup ev m of Some v \<Rightarrow> Some v
            | None \<Rightarrow> map_option snd (find (\<lambda>(k, v). strcaseeq k m) kvs)) \<and>
         header_lookup (snd (esl_event_add_header_string (esl_event_del_header ev n) ESL_STACK_BOTTOM n (Some w))) m =
           (if strcaseeq n m then Some w else header_lookup ev m)"
  using ev_store.get_put_all [OF assms(1,2)] ev_store.get_replace [OF assms(1)] assms(3,4) by blast

theorem event_headers_bind_first_witness:
  "header_lookup (fold (\<lambda>(k, v) e. snd (esl_event_add_header_string e ESL_STACK_BOTTOM k (Some v)))
     [(''a'', ''1''), (''b'', ''2''), (''a'', ''3'')] empty_event) ''a'' = Some ''1''"
proof -
  have ok: "\<forall>(k, v) \<in> set [(''a'', ''1''), (''b'', ''2''), (''a'', ''3'')]. plain_name k \<and> plain_value v"
      "plain_name ''a''" "plain_value ''1''"
    by (simp_all add: plain_name_def plain_value_def sublist_Cons_right)
  have "header_lookup empty_event ''a'' = None" by (simp add: header_lookup_def empty_event_def)
  then show ?thesis using event_headers_bind_first [OF event_inv_empty ok, of "''a''"] by simp
qed

text \<open>
  The array notation is a round trip: pushing values one by one under a new name builds
  the same header, with the same printed value, as adding the printed \<^verbatim>\<open>ARRAY::\<close> value in one
  piece, and every element can be read back by its index.
\<close>

theorem event_array_round_trip:
  assumes "event_inv ev" and "plain_name n" and "header_at ev n = None" and "2 \<le> length vs"
    and "plain_value (hd vs)" and "\<forall>x \<in> set vs. \<not> sublist ''|:'' x"
  shows "fold (\<lambda>a e. snd (esl_event_add_header_string e ESL_STACK_PUSH n (Some a))) vs ev =
           snd (esl_event_add_header_string ev ESL_STACK_BOTTOM n (Some (''ARRAY::'' @ join_with ''|:'' vs))) \<and>
         (\<forall>i < length vs. esl_event_get_header_idx
            (snd (esl_event_add_header_string ev ESL_STACK_BOTTOM n (Some (''ARRAY::'' @ join_with ''|:'' vs))))
            (Some n) (int i) = Some (vs ! i))"
proof -
  have ne: "vs \<noteq> []" using assms(4) by auto
  have val: "''ARRAY::'' @ join_with ''|:'' vs = array_value vs" using assms(4) by (simp add: array_value_def)
  let ?ev = "ev\<lparr>ev_headers := ev_headers ev @ [named_header n (array_value vs) vs]\<rparr>"
  have eq: "add_string ESL_STACK_BOTTOM n (Some (array_value vs)) ev = ?ev"
    by (rule add_array_value [OF assms(1,2,4,5,3,6)])
  have wf: "event_wf ?ev" using assms(1) by (auto simp: event_inv_def event_wf_def)
  have "find_header (header_named n) 0 (ev_headers ev) = None" using assms(3) by (simp add: header_at_def)
  then have at: "header_at ?ev n = Some (length (ev_headers ev))"
    by (simp add: header_at_def find_header_append header_named_def)
  have "esl_event_get_header_idx ?ev (Some n) (int i) = Some (vs ! i)" if "i < length vs" for i
    using that wf at by (simp add: esl_event_get_header_idx_def get_ptr_wf)
  then show ?thesis unfolding val eq using push_array [OF assms(1,2) ne assms(5,3)] by simp
qed

theorem event_array_round_trip_witness:
  "esl_event_get_header_idx
     (snd (esl_event_add_header_string empty_event ESL_STACK_BOTTOM ''v''
        (Some (''ARRAY::'' @ join_with ''|:'' [''x'', ''y|'', '''']))))
     (Some ''v'') (int 1) = Some ''y|''"
proof -
  let ?vs = "[''x'', ''y|'', '''']"
  have "plain_name ''v''" "header_at empty_event ''v'' = None" "2 \<le> length ?vs"
    "plain_value (hd ?vs)" "\<forall>x \<in> set ?vs. \<not> sublist ''|:'' x"
    by (simp_all add: plain_name_def plain_value_def header_at_def empty_event_def sublist_Cons_right)
  from event_array_round_trip [OF event_inv_empty this]
  have "\<forall>i < length ?vs. esl_event_get_header_idx
     (snd (esl_event_add_header_string empty_event ESL_STACK_BOTTOM ''v'' (Some (''ARRAY::'' @ join_with ''|:'' ?vs))))
     (Some ''v'') (int i) = Some (?vs ! i)" by (rule conjunct2)
  from this [rule_format, of 1] show ?thesis by simp
qed

text \<open>
  \<^verbatim>\<open>ESL_STACK_UNSHIFT\<close>, which is meant to put a value at the front of a header's array,
  behaves exactly like \<^verbatim>\<open>ESL_STACK_PUSH\<close> on a header that exists: the value goes to the end.
\<close>

theorem event_unshift_appends:
  assumes "event_wf ev" and "plain_name n" and "header_at ev n = Some p"
  shows "esl_event_add_header_string ev ESL_STACK_UNSHIFT n (Some d) =
         esl_event_add_header_string ev ESL_STACK_PUSH n (Some d)"
  using assms split_plain [OF assms(2)]
  by (simp add: esl_event_add_header_string_def esl_event_base_add_header.simps [of ev] Let_def
      plain_name_def get_ptr_wf)

theorem event_unshift_appends_witness:
  "esl_event_add_header_string wit_event ESL_STACK_UNSHIFT ''DTMF-Digit'' (Some ''0'') =
   esl_event_add_header_string wit_event ESL_STACK_PUSH ''DTMF-Digit'' (Some ''0'')"
proof (rule event_unshift_appends)
  show "event_wf wit_event" using wit_event_inv by (simp add: event_inv_def)
  show "header_at wit_event ''DTMF-Digit'' = Some 1"
    by (simp add: header_at_def wit_event_def header_named_def strcaseeq_def c_tolower_def char_eval)
qed (simp add: plain_name_def)

text \<open>
  Setting the priority of an event twice leaves two answers in it: the value of the
  header is the second priority, its array, which JSON output and copies are made from, still
  holds the first.
\<close>

theorem event_priority_stale_array:
  "\<exists>ev. ev = snd (esl_event_set_priority (snd (esl_event_set_priority empty_event ESL_PRIORITY_HIGH)) ESL_PRIORITY_LOW) \<and>
     esl_event_get_header ev ''priority'' = Some ''LOW'' \<and>
     esl_event_get_header_idx ev (Some ''priority'') 0 = Some ''HIGH''"
  by (simp add: esl_event_set_priority_def esl_priority_name_def esl_event_add_header_string_def
      esl_event_base_add_header.simps split_header_name_def empty_event_def esl_event_get_header_ptr_def
      link_header_def header_store_def header_push_def hash_match_def update_header_def
      esl_event_get_header_def esl_event_get_header_idx_def header_redraw_value array_value_def Let_def)

text \<open>
  A duplicate of an event whose values are plain and whose arrays agree with their values
  has the same headers in the same order, the same body and the same identification; only the
  priority and the owner are not copied.
\<close>

theorem event_dup_copies:
  assumes "event_inv ev" and "ev_subclass_name ev = None" and "copyable [] (ev_headers ev)"
  shows "esl_event_dup ev = Inr (ESL_SUCCESS, Some (ev\<lparr>ev_priority := ESL_PRIORITY_NORMAL, ev_owner := None\<rparr>))"
proof -
  let ?e = "empty_event\<lparr>ev_id := ev_id ev, ev_bind_user_data := ev_bind_user_data ev,
     ev_event_user_data := ev_event_user_data ev, ev_uniq_headers := ev_uniq_headers ev\<rparr>"
  have "event_inv ?e" "copyable (ev_headers ?e) (ev_headers ev)"
    using assms by (simp_all add: event_inv_def event_wf_def empty_event_def)
  from copy_headers_plain [OF this]
  have "fold copy_header (ev_headers ev) ?e = ?e\<lparr>ev_headers := ev_headers ev\<rparr>"
    by (simp add: empty_event_def)
  then show ?thesis using assms(2)
    by (cases ev) (auto simp: esl_event_dup_def esl_event_create_subclass_def ESL_EVENT_CLONE_def Let_def
        empty_event_def split: option.split)
qed

theorem event_dup_copies_witness:
  "esl_event_dup wit_event = Inr (ESL_SUCCESS, Some wit_event)"
proof -
  have c: "copyable [] (ev_headers wit_event)"
    by (simp add: wit_event_def header_plain_def plain_name_def plain_value_def sublist_Cons_right)
  have "ev_subclass_name wit_event = None" by (simp add: wit_event_def empty_event_def)
  from event_dup_copies [OF wit_event_inv this c] show ?thesis
    by (simp add: wit_event_def empty_event_def)
qed

section \<open>Event names\<close>

definition no_lower :: "string \<Rightarrow> bool" where
  "no_lower s \<longleftrightarrow> list_all (\<lambda>c. \<not> (97 \<le> byte_of c \<and> byte_of c \<le> 122)) s"

lemma c_tolower_inj_upper:
  assumes "\<not> (97 \<le> byte_of a \<and> byte_of a \<le> 122)" "\<not> (97 \<le> byte_of b \<and> byte_of b \<le> 122)"
  shows "c_tolower a = c_tolower b \<longleftrightarrow> a = b"
proof
  assume eq: "c_tolower a = c_tolower b"
  have lower: "byte_of (c_tolower c) = (if 65 \<le> byte_of c \<and> byte_of c \<le> 90 then byte_of c + 32 else byte_of c)" for c
    by (simp add: c_tolower_def)
  have "byte_of (c_tolower a) = byte_of (c_tolower b)" using eq by simp
  then have "byte_of a = byte_of b" unfolding lower using assms
    by (simp split: if_splits del: byte_of_inject)
  then show "a = b" by simp
qed simp

lemma strcaseeq_upper: "no_lower s \<Longrightarrow> no_lower t \<Longrightarrow> strcaseeq s t \<longleftrightarrow> s = t"
proof (induction s arbitrary: t)
  case (Cons a s)
  then show ?case by (cases t) (auto simp: strcaseeq_def no_lower_def c_tolower_inj_upper)
qed (auto simp: no_lower_def)

lemma event_names_upper: "list_all no_lower event_names"
  by (simp add: event_names_def no_lower_def char_eval)

lemma event_names_distinct: "distinct event_names"
  by (simp add: event_names_def)

lemma event_names_suffixes:
  "list_all (\<lambda>s. s \<notin> set event_names) (map (drop 13) (filter (\<lambda>n. 13 < length n) event_names))"
  by (simp add: event_names_def)

lemma event_names_prefix: "list_all (\<lambda>n. \<not> prefix ''SWITCH'' n) event_names"
  by (simp add: event_names_def)

lemma name_event_from_find:
  "e < length ns \<Longrightarrow>
   (\<forall>i < e. \<not> (13 < length n \<and> strcaseeq (drop 13 n) (ns ! i) \<or> strcaseeq n (ns ! i))) \<Longrightarrow>
   13 < length n \<and> strcaseeq (drop 13 n) (ns ! e) \<or> strcaseeq n (ns ! e) \<Longrightarrow>
   name_event_from n x ns = Some (x + e)"
proof (induction ns arbitrary: x e)
  case (Cons m ns)
  show ?case
  proof (cases e)
    case 0
    then show ?thesis using Cons.prems(3) by simp
  next
    case (Suc e')
    have hd: "\<not> (13 < length n \<and> strcaseeq (drop 13 n) m \<or> strcaseeq n m)"
      using Cons.prems(2) Suc by force
    have "name_event_from n (Suc x) ns = Some (Suc x + e')"
      by (rule Cons.IH) (use Cons.prems Suc in auto)
    then show ?thesis using hd Suc by simp
  qed
qed simp

text \<open>
  The name of every event is recognised as that event, also with the 13 characters
  \<^verbatim>\<open>SWITCH_EVENT_\<close> in front that the code skips, although each name is compared both whole and
  from its 14th character on.
\<close>

theorem event_name_round_trip:
  assumes "e \<le> ESL_EVENT_ALL"
  shows "\<exists>n. esl_event_name e = Inr n \<and> esl_name_event n = Some e \<and>
             esl_name_event (''SWITCH_EVENT_'' @ n) = Some e"
proof -
  have len: "length event_names = 90" by (simp add: event_names_def)
  then have e: "e < length event_names" using assms by (simp add: ESL_EVENT_ALL_def)
  define n where "n = event_names ! e"
  have n: "n \<in> set event_names" "no_lower n"
    using e event_names_upper by (auto simp: n_def list_all_iff)
  have up: "i < 90 \<Longrightarrow> no_lower (event_names ! i)" for i
    using event_names_upper len by (simp add: list_all_iff)
  have uniq: "i < e \<Longrightarrow> event_names ! i \<noteq> n" for i
    using event_names_distinct e by (auto simp: n_def nth_eq_iff_index_eq)
  have all: "take (Suc ESL_EVENT_ALL) event_names = event_names" by (simp add: len ESL_EVENT_ALL_def)
  have "esl_name_event n = Some (0 + e)"
    unfolding esl_name_event_def all
  proof (rule name_event_from_find)
    show "\<forall>i<e. \<not> (13 < length n \<and> strcaseeq (drop 13 n) (event_names ! i) \<or> strcaseeq n (event_names ! i))"
    proof (intro allI impI)
      fix i assume i: "i < e"
      have "no_lower (drop 13 n)" using n(2) by (auto simp: no_lower_def list_all_iff dest: in_set_dropD)
      moreover have "13 < length n \<longrightarrow> drop 13 n \<notin> set event_names"
        using event_names_suffixes n(1) by (auto simp: list_all_iff)
      moreover have "event_names ! i \<in> set event_names" using i e by simp
      ultimately show "\<not> (13 < length n \<and> strcaseeq (drop 13 n) (event_names ! i) \<or> strcaseeq n (event_names ! i))"
        using uniq [OF i] up [of i] n(2) i e len by (auto simp: strcaseeq_upper)
    qed
  qed (use e in \<open>simp_all add: n_def\<close>)
  moreover have "esl_name_event (''SWITCH_EVENT_'' @ n) = Some (0 + e)"
    unfolding esl_name_event_def all
  proof (rule name_event_from_find)
    have ne: "n \<noteq> []" using n(1) by (auto simp: event_names_def)
    have pre: "no_lower (''SWITCH_EVENT_'' @ n)" using n(2) by (simp add: no_lower_def char_eval)
    show "13 < length (''SWITCH_EVENT_'' @ n) \<and> strcaseeq (drop 13 (''SWITCH_EVENT_'' @ n)) (event_names ! e) \<or>
          strcaseeq (''SWITCH_EVENT_'' @ n) (event_names ! e)" using ne by (simp add: n_def)
    show "\<forall>i<e. \<not> (13 < length (''SWITCH_EVENT_'' @ n) \<and>
             strcaseeq (drop 13 (''SWITCH_EVENT_'' @ n)) (event_names ! i) \<or>
             strcaseeq (''SWITCH_EVENT_'' @ n) (event_names ! i))"
    proof (intro allI impI)
      fix i assume i: "i < e"
      have "event_names ! i \<in> set event_names" using i e by simp
      then have "\<not> prefix ''SWITCH'' (event_names ! i)"
        using event_names_prefix by (auto simp: list_all_iff)
      then have "event_names ! i \<noteq> ''SWITCH_EVENT_'' @ n" by auto
      then show "\<not> (13 < length (''SWITCH_EVENT_'' @ n) \<and>
             strcaseeq (drop 13 (''SWITCH_EVENT_'' @ n)) (event_names ! i) \<or>
             strcaseeq (''SWITCH_EVENT_'' @ n) (event_names ! i))"
        using uniq [OF i] up [of i] n(2) pre i e len strcaseeq_upper [OF pre, of "event_names ! i"]
        by (simp add: strcaseeq_upper)
    qed
  qed (rule e)
  ultimately show ?thesis using e by (intro exI [of _ n]) (simp add: esl_event_name_def n_def)
qed

theorem event_name_round_trip_witness:
  "\<exists>n. esl_event_name 36 = Inr n \<and> esl_name_event n = Some 36 \<and> esl_name_event (''SWITCH_EVENT_'' @ n) = Some 36"
  by (rule event_name_round_trip) (simp add: ESL_EVENT_ALL_def)

end
