(* ===== verification/EslSerialize.thy ===== *)
theory EslSerialize
  imports EslEvent
begin

text \<open>
  The text form of an event (\<^verbatim>\<open>esl_event_serialize\<close> of \<^verbatim>\<open>esl/esl_event.c\<close>): one line per header,
  its value URL-encoded when wanted, then the body with its length. The state of the loop is
  the text written, the size of the output buffer and the size of the encoding buffer; each
  piece is printed into what is left of the output buffer, so a size computed too small shows
  as text cut off.
\<close>

section \<open>The serializer\<close>

text \<open>The space the code reserves for the encoded value of a header.\<close>

definition ser_new_len :: "esl_event_header \<Rightarrow> string \<Rightarrow> nat" where
  "ser_new_len hp v =
     (if hdr_array hp \<noteq> [] then (\<Sum>a\<leftarrow>hdr_array hp. length a * 3 + 1) else length v * 3 + 1)"

definition ser_encode :: "bool \<Rightarrow> string \<Rightarrow> nat \<Rightarrow> string c_result" where
  "ser_encode encode v encode_len =
     (if encode
      then res_bind (esl_url_encode (Some v) (Some encode_len) encode_len) (\<lambda>r.
             Inr (case r of None \<Rightarrow> [] | Some t \<Rightarrow> t))
      else Inr (snprintf_text (encode_len - 1) v))"

definition ser_grow :: "nat \<Rightarrow> nat \<Rightarrow> nat \<Rightarrow> nat" where
  "ser_grow len llen dlen = (if dlen < len + llen then dlen + (512 + (len + llen)) else dlen)"

definition ser_header ::
  "bool \<Rightarrow> esl_event_header \<Rightarrow> string \<times> nat \<times> nat \<Rightarrow> (string \<times> nat \<times> nat) c_result" where
  "ser_header encode hp st =
     (case st of (buf, dlen, encode_len) \<Rightarrow>
      case hdr_value hp of
        None \<Rightarrow> Inl NullPointer
      | Some v \<Rightarrow>
          let encode_len' = max encode_len (ser_new_len hp v)
          in res_bind (ser_encode encode v encode_len') (\<lambda>enc.
             let llen = length (hdr_name hp) + length enc + 8;
                 dlen' = ser_grow (length buf) llen dlen
             in Inr (buf @ snprintf_text (dlen' - length buf - 1)
                       (hdr_name hp @ '': '' @ (if enc = [] then ''_undef_'' else enc) @ [LF]),
                     dlen', encode_len')))"

fun ser_headers ::
  "bool \<Rightarrow> esl_event_header list \<Rightarrow> string \<times> nat \<times> nat \<Rightarrow> (string \<times> nat \<times> nat) c_result" where
  "ser_headers encode [] st = Inr st"
| "ser_headers encode (hp # hs) st = res_bind (ser_header encode hp st) (ser_headers encode hs)"

definition ser_body :: "string option \<Rightarrow> string \<Rightarrow> nat \<Rightarrow> string" where
  "ser_body body buf dlen =
     (case body of
        None \<Rightarrow> buf @ snprintf_text (dlen - length buf - 1) [LF]
      | Some b \<Rightarrow>
          let blen = length b;
              dlen' = ser_grow (length buf) (blen + (if blen \<noteq> 0 then 25 else 5)) dlen
          in buf @ snprintf_text (dlen' - length buf - 1)
               (if blen \<noteq> 0 then ''Content-Length: '' @ dec_digits blen @ [LF, LF] @ b else [LF]))"

definition esl_event_serialize :: "esl_event \<Rightarrow> bool \<Rightarrow> string c_result" where
  "esl_event_serialize ev encode =
     res_bind (ser_headers encode (ev_headers ev) ([], 1024, 1536)) (\<lambda>(buf, dlen, _).
       Inr (ser_body (ev_body ev) buf dlen))"

section \<open>What is written when nothing is cut off\<close>

definition ser_value :: "bool \<Rightarrow> string \<Rightarrow> string" where
  "ser_value encode v = (if encode then concat (map url_enc_char v) else v)"

definition ser_line :: "bool \<Rightarrow> esl_event_header \<Rightarrow> string" where
  "ser_line encode hp =
     hdr_name hp @ '': '' @ ser_value encode (case hdr_value hp of None \<Rightarrow> [] | Some v \<Rightarrow> v) @ [LF]"

definition ser_tail :: "string option \<Rightarrow> string" where
  "ser_tail body =
     (case body of None \<Rightarrow> [LF]
      | Some b \<Rightarrow> if b = [] then [LF] else ''Content-Length: '' @ dec_digits (length b) @ [LF, LF] @ b)"

text \<open>
  The headers that are serialized exactly: their values are not empty, short enough for the
  first encoding buffer and, when they are encoded, ASCII text.
\<close>

definition ser_plain :: "bool \<Rightarrow> esl_event_header \<Rightarrow> bool" where
  "ser_plain encode hp \<longleftrightarrow>
     (case hdr_value hp of None \<Rightarrow> False
      | Some v \<Rightarrow> v \<noteq> [] \<and> length v \<le> 511 \<and> (encode \<longrightarrow> ascii v))"

lemma ser_encode_exact:
  assumes "length v \<le> 511" "encode \<longrightarrow> ascii v" "1536 \<le> encode_len" "encode_len < 2 ^ 64"
  shows "ser_encode encode v encode_len = Inr (ser_value encode v)"
proof (cases encode)
  case True
  have "sub64 encode_len 1 = encode_len - 1" using assms by (intro sub64_exact) auto
  moreover have "url_encode_loop encode_len (encode_len - 1) v [] = Inr ([] @ concat (map url_enc_char v))"
    using assms True by (intro url_encode_all) auto
  moreover have "length (concat (map url_enc_char v)) < encode_len"
    using enc_length [of v] assms by linarith
  ultimately show ?thesis using True by (simp add: ser_encode_def esl_url_encode_def ser_value_def)
next
  case False
  then show ?thesis using assms by (simp add: ser_encode_def ser_value_def)
qed

lemma ser_value_nonempty: "v \<noteq> [] \<Longrightarrow> ser_value encode v \<noteq> []"
  using url_enc_char_length(2) by (cases v) (auto simp: ser_value_def)

definition ser_ok :: "string \<times> nat \<times> nat \<Rightarrow> bool" where
  "ser_ok st \<longleftrightarrow> (case st of (buf, dlen, encode_len) \<Rightarrow> length buf + 5 \<le> dlen \<and> 1536 \<le> encode_len)"

lemma ser_header_exact:
  assumes "ser_plain encode hp" "ser_ok (buf, dlen, encode_len)" "encode_len < 2 ^ 64"
    and "ser_new_len hp (case hdr_value hp of None \<Rightarrow> [] | Some v \<Rightarrow> v) < 2 ^ 64"
  shows "\<exists>dlen' encode_len'. ser_header encode hp (buf, dlen, encode_len) =
           Inr (buf @ ser_line encode hp, dlen', encode_len') \<and>
         ser_ok (buf @ ser_line encode hp, dlen', encode_len') \<and> encode_len' < 2 ^ 64"
proof -
  obtain v where v: "hdr_value hp = Some v" "v \<noteq> []" "length v \<le> 511" "encode \<longrightarrow> ascii v"
    using assms(1) by (auto simp: ser_plain_def split: option.splits)
  define el where "el = max encode_len (ser_new_len hp v)"
  have el: "1536 \<le> el" "el < 2 ^ 64" using assms(2-4) v(1) by (auto simp: el_def ser_ok_def)
  have enc: "ser_encode encode v el = Inr (ser_value encode v)"
    using v el by (intro ser_encode_exact)
  define llen where "llen = length (hdr_name hp) + length (ser_value encode v) + 8"
  define dl where "dl = ser_grow (length buf) llen dlen"
  have dl: "length buf + llen \<le> dl" by (auto simp: dl_def ser_grow_def)
  have ne: "ser_value encode v \<noteq> []" using v(2) by (rule ser_value_nonempty)
  have line: "ser_line encode hp = hdr_name hp @ '': '' @ ser_value encode v @ [LF]"
    using v(1) by (simp add: ser_line_def)
  have fit: "length (ser_line encode hp) < dl - length buf - 1" using dl line by (simp add: llen_def)
  have step: "ser_header encode hp (buf, dlen, encode_len) =
      Inr (buf @ snprintf_text (dl - length buf - 1) (ser_line encode hp), dl, el)"
    using v(1) enc ne by (simp add: ser_header_def Let_def line dl_def llen_def flip: el_def)
  have "ser_header encode hp (buf, dlen, encode_len) = Inr (buf @ ser_line encode hp, dl, el)"
    unfolding step using fit by simp
  moreover have "ser_ok (buf @ ser_line encode hp, dl, el)"
    using dl line el by (simp add: ser_ok_def llen_def)
  ultimately show ?thesis using el(2) by blast
qed

lemma ser_headers_exact:
  assumes "\<forall>h \<in> set hs. ser_plain encode h \<and> ser_new_len h (case hdr_value h of None \<Rightarrow> [] | Some v \<Rightarrow> v) < 2 ^ 64"
    and "ser_ok (buf, dlen, encode_len)" "encode_len < 2 ^ 64"
  shows "\<exists>dlen' encode_len'. ser_headers encode hs (buf, dlen, encode_len) =
           Inr (buf @ concat (map (ser_line encode) hs), dlen', encode_len') \<and>
         length (buf @ concat (map (ser_line encode) hs)) + 5 \<le> dlen'"
  using assms
proof (induction hs arbitrary: buf dlen encode_len)
  case Nil
  then show ?case by (simp add: ser_ok_def)
next
  case (Cons h hs)
  obtain d e where 1: "ser_header encode h (buf, dlen, encode_len) = Inr (buf @ ser_line encode h, d, e)"
      "ser_ok (buf @ ser_line encode h, d, e)" "e < 2 ^ 64"
    using ser_header_exact [of encode h buf dlen encode_len] Cons.prems by auto
  obtain d' e' where "ser_headers encode hs (buf @ ser_line encode h, d, e) =
      Inr ((buf @ ser_line encode h) @ concat (map (ser_line encode) hs), d', e')"
      "length ((buf @ ser_line encode h) @ concat (map (ser_line encode) hs)) + 5 \<le> d'"
    using Cons.IH [OF _ 1(2,3)] Cons.prems(1) by auto
  then show ?case using 1(1) by simp
qed

lemma dec_digits_length_less: "n < 10 ^ k \<Longrightarrow> 0 < k \<Longrightarrow> length (dec_digits n) \<le> k"
proof (induction k arbitrary: n)
  case (Suc k)
  show ?case
  proof (cases "n < 10")
    case True
    then show ?thesis by (subst dec_digits.simps) simp
  next
    case False
    then have "0 < k" using Suc.prems(1) by (cases k) auto
    moreover have "n div 10 < 10 ^ k" using Suc.prems(1) by (simp add: less_mult_imp_div_less mult.commute)
    ultimately have "length (dec_digits (n div 10)) \<le> k" using Suc.IH by simp
    then show ?thesis using False by (subst dec_digits.simps) simp
  qed
qed simp

lemma ser_body_exact:
  assumes "length buf + 5 \<le> dlen" "case body of None \<Rightarrow> True | Some b \<Rightarrow> length b < 100000"
  shows "ser_body body buf dlen = buf @ ser_tail body"
proof (cases body)
  case None
  then show ?thesis using assms by (simp add: ser_body_def ser_tail_def)
next
  case (Some b)
  show ?thesis
  proof (cases "b = []")
    case True
    then show ?thesis using Some by (simp add: ser_body_def ser_tail_def ser_grow_def Let_def)
  next
    case False
    have "length (dec_digits (length b)) \<le> 5"
      using assms(2) Some by (intro dec_digits_length_less) auto
    then show ?thesis using Some False
      by (simp add: ser_body_def ser_tail_def ser_grow_def Let_def)
  qed
qed

lemma serialize_text:
  assumes "\<forall>h \<in> set (ev_headers ev). ser_plain encode h \<and>
             ser_new_len h (case hdr_value h of None \<Rightarrow> [] | Some v \<Rightarrow> v) < 2 ^ 64"
    and "case ev_body ev of None \<Rightarrow> True | Some b \<Rightarrow> length b < 100000"
  shows "esl_event_serialize ev encode =
           Inr (concat (map (ser_line encode) (ev_headers ev)) @ ser_tail (ev_body ev))"
proof -
  have "ser_ok ([], 1024, 1536)" by (simp add: ser_ok_def)
  from ser_headers_exact [OF assms(1) this] obtain d e where
    "ser_headers encode (ev_headers ev) ([], 1024, 1536) = Inr (concat (map (ser_line encode) (ev_headers ev)), d, e)"
    "length (concat (map (ser_line encode) (ev_headers ev))) + 5 \<le> d" by auto
  then show ?thesis using assms(2) by (simp add: esl_event_serialize_def ser_body_exact)
qed

section \<open>Properties\<close>



lemma url_encode_run:
  assumes "url_is_unsafe c" "byte_of c < 128" "3 * n + length out = len" "len \<le> cap" "0 < n"
  shows "url_encode_loop cap len (replicate n c) out = Inr (out @ concat (replicate (n - 1) (url_enc_char c)))"
  using assms(3,5)
proof (induction n arbitrary: out)
  case (Suc n)
  show ?case
  proof (cases n)
    case 0
    then show ?thesis using Suc.prems assms(1) by simp
  next
    case (Suc m)
    have l: "length (url_enc_char c) = 3" using assms(1) by (simp add: url_enc_char_def)
    have "length out + 3 < len" using Suc.prems(1) Suc by simp
    then have "url_encode_loop cap len (replicate (Suc n) c) out =
        url_encode_loop cap len (replicate n c) (out @ url_enc_char c)"
      using url_encode_step [OF assms(2) _ assms(4), of out "replicate n c"] by simp
    also have "\<dots> = Inr ((out @ url_enc_char c) @ concat (replicate (n - 1) (url_enc_char c)))"
      using Suc.prems Suc l by (intro Suc.IH) auto
    finally show ?thesis using Suc by simp
  qed
qed simp

text \<open>
  Above that size the serializer loses characters: it gives the encoder three bytes per
  character and one more, and the encoder wants one more than that, so the last character of a
  value of at least 512 characters that all need encoding is dropped.
\<close>

theorem event_serialize_drops_last:
  assumes "url_is_unsafe c" and "byte_of c < 128" and "512 \<le> n" and "3 * n + 1 < 2 ^ 64"
  shows "esl_event_serialize (empty_event\<lparr>ev_headers := [named_header name (replicate n c) []]\<rparr>) True =
         Inr (name @ '': '' @ concat (replicate (n - 1) (url_enc_char c)) @ [LF, LF])"
proof -
  let ?h = "named_header name (replicate n c) []"
  let ?enc = "concat (replicate (n - 1) (url_enc_char c))"
  have len: "sub64 (3 * n + 1) 1 = 3 * n" using assms(4) by (subst sub64_exact) auto
  have l3: "length (url_enc_char c) = 3" using assms(1) by (simp add: url_enc_char_def)
  have "url_encode_loop (3 * n + 1) (3 * n) (replicate n c) [] = Inr ([] @ ?enc)"
    using assms by (intro url_encode_run) auto
  moreover have le: "length ?enc = 3 * (n - 1)" using l3 by (simp add: length_concat sum_list_replicate)
  ultimately have enc: "ser_encode True (replicate n c) (3 * n + 1) = Inr ?enc"
    using len by (simp add: ser_encode_def esl_url_encode_def)
  have ne: "?enc \<noteq> []" using le assms(3) by fastforce
  have mx: "max 1536 (ser_new_len ?h (replicate n c)) = 3 * n + 1" using assms(3) by (simp add: ser_new_len_def)
  define dl where "dl = ser_grow 0 (length name + length ?enc + 8) 1024"
  have dl: "length name + length ?enc + 8 \<le> dl" by (auto simp: dl_def ser_grow_def)
  have "ser_header True ?h ([], 1024, 1536) =
      Inr ([] @ snprintf_text (dl - 0 - 1) (name @ '': '' @ ?enc @ [LF]), dl, 3 * n + 1)"
    using enc ne mx by (simp add: ser_header_def Let_def dl_def)
  also have "snprintf_text (dl - 0 - 1) (name @ '': '' @ ?enc @ [LF]) = name @ '': '' @ ?enc @ [LF]"
    using dl by (intro snprintf_text_fits) simp
  finally have "ser_headers True [?h] ([], 1024, 1536) = Inr (name @ '': '' @ ?enc @ [LF], dl, 3 * n + 1)"
    by simp
  then show ?thesis using dl
    by (simp add: esl_event_serialize_def ser_body_def empty_event_def)
qed

theorem event_serialize_drops_last_witness:
  "esl_event_serialize (empty_event\<lparr>ev_headers := [named_header ''X'' (replicate 512 CHR '' '') []]\<rparr>) True =
         Inr (''X'' @ '': '' @ concat (replicate (512 - 1) (url_enc_char CHR '' '')) @ [LF, LF])"
  by (rule event_serialize_drops_last) (simp_all add: url_is_unsafe_def urlunsafe_def byte_of_def)

end
