(* ===== verification/EslJson.thy ===== *)
theory EslJson
  imports Prelude
begin

text \<open>
  The JSON reader and printer of the event socket library (\<^verbatim>\<open>esl/esl_json.c\<close>). An item is a
  datatype with the fields of the C struct; the chain of its children is a list. A parser
  takes the rest of the text (which holds no NUL) and gives the item and the text behind it,
  \<open>None\<close> where the code returns a null pointer, and a fault where it leaves a buffer. The
  operations on \<^verbatim>\<open>double\<close> are a parameter. Allocation succeeds and the error pointer is left out; the memory
  of the items, with freeing and reference items, is in \<open>JsonMemory\<close>.
\<close>

unbundle bit_operations_syntax

section \<open>Items\<close>

datatype json_type = JFalse | JTrue | JNull | JNumber | JString | JArray | JObject

datatype 'd cJSON = Item (cj_type: json_type) (cj_valuestring: "string option") (cj_valueint: int)
  (cj_valuedouble: 'd) (cj_string: "string option") (cj_child: "'d cJSON list")

record 'd double_ops =
  dbl_of_int :: "int \<Rightarrow> 'd"
  dbl_add :: "'d \<Rightarrow> 'd \<Rightarrow> 'd"
  dbl_sub :: "'d \<Rightarrow> 'd \<Rightarrow> 'd"
  dbl_mul :: "'d \<Rightarrow> 'd \<Rightarrow> 'd"
  dbl_pow10 :: "'d \<Rightarrow> 'd"
  dbl_abs :: "'d \<Rightarrow> 'd"
  dbl_floor :: "'d \<Rightarrow> 'd"
  dbl_le :: "'d \<Rightarrow> 'd \<Rightarrow> bool"
  dbl_less :: "'d \<Rightarrow> 'd \<Rightarrow> bool"
  dbl_trunc :: "'d \<Rightarrow> int"
  dbl_epsilon :: 'd
  dbl_1e_minus6 :: 'd
  dbl_1e9 :: 'd
  fmt_0f :: "'d \<Rightarrow> string"
  fmt_e :: "'d \<Rightarrow> string"
  fmt_f :: "'d \<Rightarrow> string"

definition cJSON_New_Item :: "'d double_ops \<Rightarrow> 'd cJSON" where
  "cJSON_New_Item F = Item JFalse None 0 (dbl_of_int F 0) None []"

fun set_type :: "json_type \<Rightarrow> 'd cJSON \<Rightarrow> 'd cJSON" where
  "set_type t (Item _ vs vi vd s ch) = Item t vs vi vd s ch"

fun set_valuestring :: "string option \<Rightarrow> 'd cJSON \<Rightarrow> 'd cJSON" where
  "set_valuestring v (Item t _ vi vd s ch) = Item t v vi vd s ch"

fun set_number :: "int \<Rightarrow> 'd \<Rightarrow> 'd cJSON \<Rightarrow> 'd cJSON" where
  "set_number i d (Item t vs _ _ s ch) = Item t vs i d s ch"

fun set_string :: "string option \<Rightarrow> 'd cJSON \<Rightarrow> 'd cJSON" where
  "set_string v (Item t vs vi vd _ ch) = Item t vs vi vd v ch"

fun set_child :: "'d cJSON list \<Rightarrow> 'd cJSON \<Rightarrow> 'd cJSON" where
  "set_child c (Item t vs vi vd s _) = Item t vs vi vd s c"

definition cJSON_strcasecmp_eq :: "string option \<Rightarrow> string option \<Rightarrow> bool" where
  "cJSON_strcasecmp_eq s1 s2 =
     (case (s1, s2) of (Some a, Some b) \<Rightarrow> strcaseeq a b | (None, None) \<Rightarrow> True | _ \<Rightarrow> False)"

section \<open>Numbers\<close>

text \<open>The digit loops: of the integer part, of the fraction (which counts \<open>scale\<close> down), of the exponent.\<close>

fun num_digits :: "'d double_ops \<Rightarrow> 'd \<Rightarrow> string \<Rightarrow> 'd \<times> string" where
  "num_digits F n [] = (n, [])"
| "num_digits F n (c # cs) =
     (if c_isdigit c
      then num_digits F (dbl_add F (dbl_mul F n (dbl_of_int F 10)) (dbl_of_int F (int (digit_val c)))) cs
      else (n, c # cs))"

fun num_fraction :: "'d double_ops \<Rightarrow> 'd \<Rightarrow> 'd \<Rightarrow> string \<Rightarrow> 'd \<times> 'd \<times> string" where
  "num_fraction F n scale [] = (n, scale, [])"
| "num_fraction F n scale (c # cs) =
     (if c_isdigit c
      then num_fraction F (dbl_add F (dbl_mul F n (dbl_of_int F 10)) (dbl_of_int F (int (digit_val c))))
             (dbl_sub F scale (dbl_of_int F 1)) cs
      else (n, scale, c # cs))"

fun num_exponent :: "int \<Rightarrow> string \<Rightarrow> int \<times> string" where
  "num_exponent subscale [] = (subscale, [])"
| "num_exponent subscale (c # cs) =
     (if c_isdigit c then num_exponent (subscale * 10 + int (digit_val c)) cs else (subscale, c # cs))"

definition starts :: "string \<Rightarrow> (char \<Rightarrow> bool) \<Rightarrow> bool" where
  "starts s P \<longleftrightarrow> (case s of [] \<Rightarrow> False | c # _ \<Rightarrow> P c)"

definition num_sign :: "'d double_ops \<Rightarrow> string \<Rightarrow> 'd \<times> string" where
  "num_sign F s = (if starts s (\<lambda>c. c = CHR ''-'') then (dbl_of_int F (-1), tl s) else (dbl_of_int F 1, s))"

definition num_zero :: "string \<Rightarrow> string" where
  "num_zero s = (if starts s (\<lambda>c. c = CHR ''0'') then tl s else s)"

definition num_int :: "'d double_ops \<Rightarrow> string \<Rightarrow> 'd \<times> string" where
  "num_int F s =
     (if starts s (\<lambda>c. c_isdigit c \<and> c \<noteq> CHR ''0'') then num_digits F (dbl_of_int F 0) s
      else (dbl_of_int F 0, s))"

definition num_frac :: "'d double_ops \<Rightarrow> 'd \<Rightarrow> string \<Rightarrow> 'd \<times> 'd \<times> string" where
  "num_frac F n s =
     (if starts s (\<lambda>c. c = CHR ''.'') \<and> starts (tl s) c_isdigit
      then num_fraction F n (dbl_of_int F 0) (tl s) else (n, dbl_of_int F 0, s))"

definition num_exp_sign :: "string \<Rightarrow> int \<times> string" where
  "num_exp_sign s =
     (if starts s (\<lambda>c. c = CHR ''+'') then (1, tl s)
      else if starts s (\<lambda>c. c = CHR ''-'') then (-1, tl s) else (1, s))"

definition num_exp :: "string \<Rightarrow> int \<times> string" where
  "num_exp s =
     (if starts s (\<lambda>c. c = CHR ''e'' \<or> c = CHR ''E'')
      then (case num_exp_sign (tl s) of (signsubscale, t) \<Rightarrow>
            case num_exponent 0 t of (subscale, r) \<Rightarrow> (subscale * signsubscale, r))
      else (0, s))"

definition parse_number :: "'d double_ops \<Rightarrow> 'd cJSON \<Rightarrow> string \<Rightarrow> 'd cJSON \<times> string" where
  "parse_number F item num =
     (case num_sign F num of (sign, s1) \<Rightarrow>
      case num_int F (num_zero s1) of (n1, s2) \<Rightarrow>
      case num_frac F n1 s2 of (n2, scale, s3) \<Rightarrow>
      case num_exp s3 of (ex, s4) \<Rightarrow>
        let n = dbl_mul F (dbl_mul F sign n2) (dbl_pow10 F (dbl_add F scale (dbl_of_int F ex)))
        in (set_type JNumber (set_number (dbl_trunc F n) n item), s4))"

definition INT_MAX :: int where "INT_MAX = 2 ^ 31 - 1"
definition INT_MIN :: int where "INT_MIN = - (2 ^ 31)"

text \<open>A text printed into a block of \<open>n\<close> bytes, with its terminator.\<close>

definition print_into :: "nat \<Rightarrow> string \<Rightarrow> string c_result" where
  "print_into n text = (if length text < n then Inr text else Inl OutOfBounds)"

definition print_number :: "'d double_ops \<Rightarrow> 'd cJSON \<Rightarrow> string c_result" where
  "print_number F item =
     (let d = cj_valuedouble item
      in if dbl_le F (dbl_abs F (dbl_sub F (dbl_of_int F (cj_valueint item)) d)) (dbl_epsilon F) \<and>
            dbl_le F d (dbl_of_int F INT_MAX) \<and> dbl_le F (dbl_of_int F INT_MIN) d
         then print_into 21 (dec_int (cj_valueint item))
         else if dbl_le F (dbl_abs F (dbl_sub F (dbl_floor F d) d)) (dbl_epsilon F)
         then print_into 64 (fmt_0f F d)
         else if dbl_less F (dbl_abs F d) (dbl_1e_minus6 F) \<or> dbl_less F (dbl_1e9 F) (dbl_abs F d)
         then print_into 64 (fmt_e F d)
         else print_into 64 (fmt_f F d))"

section \<open>Strings\<close>

abbreviation DQ :: char where "DQ \<equiv> CHR 0x22"
abbreviation BSL :: char where "BSL \<equiv> CHR 0x5C"

definition is_hexdigit :: "char \<Rightarrow> bool" where
  "is_hexdigit c \<longleftrightarrow> hex_val c \<noteq> None"

definition scan_unicode :: "string \<Rightarrow> nat option" where
  "scan_unicode ptr =
     (case ptr of
        a # b # c # d # _ \<Rightarrow>
          if is_hexdigit a \<and> is_hexdigit b \<and> is_hexdigit c \<and> is_hexdigit d then sscanf_hex 4 ptr else None
      | _ \<Rightarrow> None)"

definition first_byte_mark :: "nat list" where
  "first_byte_mark = [0x00, 0x00, 0xC0, 0xE0, 0xF0, 0xF8, 0xFC]"

definition utf8_len :: "nat \<Rightarrow> nat" where
  "utf8_len uc = (if uc < 0x80 then 1 else if uc < 0x800 then 2 else if uc < 0x10000 then 3 else 4)"

text \<open>The bytes are written from the last to the first, six bits of \<open>uc\<close> each.\<close>

fun utf8_bytes :: "nat \<Rightarrow> nat \<Rightarrow> nat \<Rightarrow> string" where
  "utf8_bytes len 0 uc = []"
| "utf8_bytes len (Suc 0) uc = [char_of (uc OR first_byte_mark ! len)]"
| "utf8_bytes len (Suc (Suc k)) uc =
     utf8_bytes len (Suc k) (drop_bit 6 uc) @ [char_of ((uc OR 0x80) AND 0xBF)]"

definition utf8_encode :: "nat \<Rightarrow> string" where
  "utf8_encode uc = utf8_bytes (utf8_len uc) (utf8_len uc) uc"

text \<open>
  The escape behind \<^verbatim>\<open>\u\<close>: what is written, and how many of the characters behind the \<open>u\<close>
  are passed over.
\<close>

definition parse_unicode :: "string \<Rightarrow> string \<times> nat" where
  "parse_unicode r =
     (case scan_unicode r of
        None \<Rightarrow> ([], 0)
      | Some uc \<Rightarrow>
          if (0xDC00 \<le> uc \<and> uc \<le> 0xDFFF) \<or> uc = 0 then ([], 4)
          else if 0xD800 \<le> uc \<and> uc \<le> 0xDBFF then
            (if \<not> prefix [BSL, CHR ''u''] (drop 4 r) then ([], 4)
             else case scan_unicode (drop 6 r) of
                    None \<Rightarrow> ([], 4)
                  | Some uc2 \<Rightarrow>
                      if uc2 < 0xDC00 \<or> 0xDFFF < uc2 then ([], 10)
                      else (utf8_encode (0x10000 OR push_bit 10 (uc AND 0x3FF) OR (uc2 AND 0x3FF)), 10))
          else (utf8_encode uc, 4))"

definition unescape_char :: "char \<Rightarrow> char" where
  "unescape_char c =
     (if c = CHR ''b'' then CHR 0x08 else if c = CHR ''f'' then CHR 0x0C else if c = CHR ''n'' then LF
      else if c = CHR ''r'' then CR else if c = CHR ''t'' then TAB else c)"

text \<open>
  The first loop of \<open>parse_string\<close> counts; behind a final backslash it steps over the
  terminator. The second loop decodes: its result is what it writes and the text where it
  stops.
\<close>

fun string_len :: "nat \<Rightarrow> string \<Rightarrow> nat c_result" where
  "string_len len [] = Inr len"
| "string_len len (c # r) =
     (if c = DQ then Inr len
      else if c = BSL then (case r of [] \<Rightarrow> Inl OutOfBounds | _ # r' \<Rightarrow> string_len (Suc len) r')
      else string_len (Suc len) r)"

function unescape :: "string \<Rightarrow> string \<times> string" where
  "unescape s =
     (case s of
        [] \<Rightarrow> ([], [])
      | c # r \<Rightarrow>
          if c = DQ then ([], s)
          else if c \<noteq> BSL then (case unescape r of (out, rest) \<Rightarrow> (c # out, rest))
          else (case r of
                  [] \<Rightarrow> ([NUL], [])
                | d # r' \<Rightarrow>
                    if d = CHR ''u''
                    then (case parse_unicode r' of (bytes, k) \<Rightarrow>
                            case unescape (drop k r') of (out, rest) \<Rightarrow> (bytes @ out, rest))
                    else (case unescape r' of (out, rest) \<Rightarrow> (unescape_char d # out, rest))))"
  by pat_completeness auto
termination
  by (relation "measure length") auto

declare unescape.simps [simp del]

definition parse_string :: "'d cJSON \<Rightarrow> string \<Rightarrow> ('d cJSON \<times> string) option c_result" where
  "parse_string item str =
     (if \<not> starts str (\<lambda>c. c = DQ) then Inr None
      else res_bind (string_len 0 (tl str)) (\<lambda>len.
           case unescape (tl str) of (out, rest) \<Rightarrow>
             if length out \<le> len
             then Inr (Some (set_type JString (set_valuestring (Some (c_str out)) item),
                             if starts rest (\<lambda>c. c = DQ) then tl rest else rest))
             else Inl OutOfBounds))"

definition hex_lower :: "nat \<Rightarrow> char" where
  "hex_lower n = (if n < 10 then char_of (48 + n) else char_of (87 + n))"

text \<open>The escape of one character, and the space reserved for it.\<close>

definition escape_char :: "char \<Rightarrow> string" where
  "escape_char c =
     (if 31 < byte_of c \<and> c \<noteq> DQ \<and> c \<noteq> BSL then [c]
      else if c = BSL then [BSL, BSL]
      else if c = DQ then [BSL, DQ]
      else if c = CHR 0x08 then [BSL, CHR ''b'']
      else if c = CHR 0x0C then [BSL, CHR ''f'']
      else if c = LF then [BSL, CHR ''n'']
      else if c = CR then [BSL, CHR ''r'']
      else if c = TAB then [BSL, CHR ''t'']
      else [BSL, CHR ''u'', CHR ''0'', CHR ''0'', hex_lower (byte_of c div 16), hex_lower (byte_of c mod 16)])"

definition escape_len :: "char \<Rightarrow> nat" where
  "escape_len c =
     (if c \<in> set [DQ, BSL, CHR 0x08, CHR 0x0C, LF, CR, TAB] then 2 else if byte_of c < 32 then 6 else 1)"

definition print_string_ptr :: "string option \<Rightarrow> string c_result" where
  "print_string_ptr str =
     (case str of
        None \<Rightarrow> Inr []
      | Some s \<Rightarrow> print_into (sum_list (map escape_len s) + 3) ([DQ] @ concat (map escape_char s) @ [DQ]))"

section \<open>Parsing values\<close>

definition skip :: "string \<Rightarrow> string" where
  "skip s = dropWhile (\<lambda>c. byte_of c \<le> 32) s"

lemma skip_length: "length (skip s) \<le> length s"
  by (simp add: skip_def length_dropWhile_le)

lemma num_digits_length: "length (snd (num_digits F n s)) \<le> length s"
  by (induction F n s rule: num_digits.induct) auto

lemma num_fraction_length: "length (snd (snd (num_fraction F n sc s))) \<le> length s"
  by (induction F n sc s rule: num_fraction.induct) auto

lemma num_exponent_length: "length (snd (num_exponent n s)) \<le> length s"
  by (induction n s rule: num_exponent.induct) auto

lemma unescape_rules:
  "unescape [] = ([], [])"
  "unescape (DQ # r) = ([], DQ # r)"
  "c \<noteq> DQ \<Longrightarrow> c \<noteq> BSL \<Longrightarrow> unescape (c # r) = apfst ((#) c) (unescape r)"
  "unescape [BSL] = ([NUL], [])"
  "unescape (BSL # CHR ''u'' # r) =
     apfst ((@) (fst (parse_unicode r))) (unescape (drop (snd (parse_unicode r)) r))"
  "d \<noteq> CHR ''u'' \<Longrightarrow> unescape (BSL # d # r) = apfst ((#) (unescape_char d)) (unescape r)"
  by (subst unescape.simps, simp split: prod.split)+

lemma unescape_length: "length (snd (unescape s)) \<le> length s"
proof (induction s rule: length_induct)
  case (1 s)
  then have IH: "length t < length s \<Longrightarrow> length (snd (unescape t)) \<le> length t" for t by blast
  show ?case
  proof (cases s)
    case (Cons c r)
    show ?thesis
    proof (cases "c = DQ \<or> c \<noteq> BSL \<or> r = []")
      case True
      then show ?thesis using Cons IH [of r]
        by (cases "c = DQ"; cases "c = BSL") (auto simp: unescape_rules)
    next
      case False
      then obtain d r' where r: "r = d # r'" by (cases r) auto
      have "length (snd (unescape (drop k r'))) \<le> length s" for k
      proof -
        have "length (drop k r') < length s" using Cons r by simp
        with IH show ?thesis by (meson le_trans less_imp_le)
      qed
      from this [of 0] this [of "snd (parse_unicode r')"] show ?thesis
        using False Cons r by (cases "d = CHR ''u''") (auto simp: unescape_rules)
    qed
  qed (simp add: unescape_rules)
qed

lemma parse_string_length:
  assumes "parse_string it s = Inr (Some (it', r))"
  shows "length r < length s"
proof -
  obtain t where s: "s = DQ # t"
    using assms by (cases s) (auto simp: parse_string_def starts_def split: if_splits)
  obtain out rest where u: "unescape t = (out, rest)" by force
  have "length rest \<le> length t" using unescape_length [of t] u by simp
  moreover have "r = rest \<or> r = tl rest"
    using assms s u by (auto simp: parse_string_def starts_def fault_simps split: if_splits list.splits)
  ultimately show ?thesis using s by auto
qed

lemma num_frac_length: "length (snd (snd (num_frac F n s))) \<le> length s"
  using num_fraction_length [of F n "dbl_of_int F 0" "tl s"] by (auto simp: num_frac_def)

lemma num_exp_length: "length (snd (num_exp s)) \<le> length s"
  using num_exponent_length [of 0 "snd (num_exp_sign (tl s))"]
  by (auto simp: num_exp_def num_exp_sign_def split: prod.split if_splits)

lemma num_int_length: "length (snd (num_int F s)) \<le> length s"
  using num_digits_length [of F "dbl_of_int F 0" s] by (simp add: num_int_def)

lemma num_int_progress: "c_isdigit c \<Longrightarrow> length (snd (num_int F (num_zero (c # s)))) < length (c # s)"
  using num_int_length [of F s] num_digits_length [of F _ s]
  by (auto simp: num_zero_def num_int_def starts_def le_imp_less_Suc)

lemma parse_number_length:
  assumes "starts s (\<lambda>c. c = CHR ''-'' \<or> c_isdigit c)"
  shows "length (snd (parse_number F it s)) < length s"
proof -
  obtain sign s1 where 1: "num_sign F s = (sign, s1)" by force
  obtain n1 s2 where 2: "num_int F (num_zero s1) = (n1, s2)" by force
  obtain n2 sc s3 where 3: "num_frac F n1 s2 = (n2, sc, s3)" by (metis prod.exhaust)
  obtain ex s4 where 4: "num_exp s3 = (ex, s4)" by force
  have "snd (parse_number F it s) = s4" using 1 2 3 4 by (simp add: parse_number_def Let_def)
  moreover have "length s4 \<le> length s3" using num_exp_length [of s3] 4 by simp
  moreover have "length s3 \<le> length s2" using num_frac_length [of F n1 s2] 3 by simp
  moreover have "length s2 < length s"
  proof (cases "starts s (\<lambda>c. c = CHR ''-'')")
    case True
    then have "length s1 < length s" using 1 by (cases s) (auto simp: num_sign_def starts_def)
    moreover have "length (num_zero s1) \<le> length s1" by (simp add: num_zero_def)
    moreover have "length s2 \<le> length (num_zero s1)" using num_int_length [of F "num_zero s1"] 2 by simp
    ultimately show ?thesis by simp
  next
    case False
    then obtain c t where "s = c # t" "c_isdigit c" "s1 = s"
      using assms 1 by (cases s) (auto simp: num_sign_def starts_def)
    then show ?thesis using num_int_progress [of c F t] 2 by simp
  qed
  ultimately show ?thesis by simp
qed

function parse_value :: "'d double_ops \<Rightarrow> string \<Rightarrow> ('d cJSON \<times> string) option c_result"
  and parse_elems :: "'d double_ops \<Rightarrow> string \<Rightarrow> ('d cJSON list \<times> string) option c_result"
  and parse_members :: "'d double_ops \<Rightarrow> string \<Rightarrow> ('d cJSON list \<times> string) option c_result"
where
  "parse_value F value =
     (let item = cJSON_New_Item F
      in if prefix ''null'' value then Inr (Some (set_type JNull item, drop 4 value))
         else if prefix ''false'' value then Inr (Some (set_type JFalse item, drop 5 value))
         else if prefix ''true'' value
         then Inr (Some (set_type JTrue (set_number 1 (cj_valuedouble item) item), drop 4 value))
         else case value of
                [] \<Rightarrow> Inr None
              | c # rest \<Rightarrow>
                  if c = DQ then parse_string item value
                  else if c = CHR ''-'' \<or> c_isdigit c then Inr (Some (parse_number F item value))
                  else if c = CHR ''['' then
                    (if starts (skip rest) (\<lambda>c. c = CHR '']'')
                     then Inr (Some (set_type JArray item, tl (skip rest)))
                     else (case parse_elems F (skip rest) of
                             Inl f \<Rightarrow> Inl f
                           | Inr None \<Rightarrow> Inr None
                           | Inr (Some (its, r)) \<Rightarrow> Inr (Some (set_child its (set_type JArray item), r))))
                  else if c = CHR ''{'' then
                    (if starts (skip rest) (\<lambda>c. c = CHR ''}'')
                     then Inr (Some (set_type JObject item, tl (skip rest)))
                     else (case parse_members F (skip rest) of
                             Inl f \<Rightarrow> Inl f
                           | Inr None \<Rightarrow> Inr None
                           | Inr (Some (its, r)) \<Rightarrow> Inr (Some (set_child its (set_type JObject item), r))))
                  else Inr None)"
| "parse_elems F s =
     (case parse_value F (skip s) of
        Inl f \<Rightarrow> Inl f
      | Inr None \<Rightarrow> Inr None
      | Inr (Some (it, r)) \<Rightarrow>
          (case skip r of
             [] \<Rightarrow> Inr None
           | c # r' \<Rightarrow>
               if c = CHR '','' then
                 (case parse_elems F r' of
                    Inl f \<Rightarrow> Inl f
                  | Inr None \<Rightarrow> Inr None
                  | Inr (Some (its, r'')) \<Rightarrow> Inr (Some (it # its, r'')))
               else if c = CHR '']'' then Inr (Some ([it], r'))
               else Inr None))"
| "parse_members F s =
     (case parse_string (cJSON_New_Item F) (skip s) of
        Inl f \<Rightarrow> Inl f
      | Inr None \<Rightarrow> Inr None
      | Inr (Some (nm, r)) \<Rightarrow>
          if \<not> starts (skip r) (\<lambda>c. c = CHR '':'') then Inr None
          else (case parse_value F (skip (tl (skip r))) of
                  Inl f \<Rightarrow> Inl f
                | Inr None \<Rightarrow> Inr None
                | Inr (Some (it, r1)) \<Rightarrow>
                    let it' = set_string (cj_valuestring nm) it
                    in (case skip r1 of
                          [] \<Rightarrow> Inr None
                        | c # r' \<Rightarrow>
                            if c = CHR '','' then
                              (case parse_members F r' of
                                 Inl f \<Rightarrow> Inl f
                               | Inr None \<Rightarrow> Inr None
                               | Inr (Some (its, r'')) \<Rightarrow> Inr (Some (it' # its, r'')))
                            else if c = CHR ''}'' then Inr (Some ([it'], r'))
                            else Inr None)))"
  by pat_completeness auto

lemma prefix_drop_shorter: "prefix p v \<Longrightarrow> p \<noteq> [] \<Longrightarrow> length p = n \<Longrightarrow> length (drop n v) < length v"
  by (cases v) auto

lemma skip_Cons_length: "skip s = c # r \<Longrightarrow> length r < length s"
  using skip_length [of s] by simp

lemma skip_tl_length: "starts (skip s) P \<Longrightarrow> length (tl (skip s)) < length s"
  using skip_length [of s] by (cases "skip s") (auto simp: starts_def)

lemma parse_partial:
  "parse_value_parse_elems_parse_members_dom (Inl (F, s)) \<Longrightarrow>
     parse_value F s = Inr (Some (it, r)) \<longrightarrow> length r < length s"
  "parse_value_parse_elems_parse_members_dom (Inr (Inl (F, s))) \<Longrightarrow>
     parse_elems F s = Inr (Some (its, r)) \<longrightarrow> length r < length s"
  "parse_value_parse_elems_parse_members_dom (Inr (Inr (F, s))) \<Longrightarrow>
     parse_members F s = Inr (Some (its, r)) \<longrightarrow> length r < length s"
proof (induction F s and F s and F s arbitrary: it r and its r and its r
    rule: parse_value_parse_elems_parse_members.pinduct)
  case (1 F v)
  show ?case
  proof
    assume eq: "parse_value F v = Inr (Some (it, r))"
    show "length r < length v"
    proof (cases "prefix ''null'' v \<or> prefix ''false'' v \<or> prefix ''true'' v")
      case True
      then show ?thesis using eq "1.hyps"
        by (auto simp: parse_value.psimps Let_def split: if_splits intro!: prefix_drop_shorter)
    next
      case False
      then obtain c t where v: "v = c # t" using eq "1.hyps"
        by (cases v) (auto simp: parse_value.psimps)
      show ?thesis
      proof (cases "c = DQ \<or> c = CHR ''-'' \<or> c_isdigit c")
        case True
        then show ?thesis using eq "1.hyps" False v parse_number_length [of v F "cJSON_New_Item F"]
          by (auto simp: parse_value.psimps Let_def starts_def dest: parse_string_length split: if_splits)
      next
        case other: False
        show ?thesis
        proof (cases "c = CHR ''[''")
          case True
          show ?thesis
          proof (cases "starts (skip t) (\<lambda>c. c = CHR '']'')")
            case T: True
            then show ?thesis using eq "1.hyps" False v other True skip_tl_length [OF T]
              by (auto simp: parse_value.psimps Let_def)
          next
            case F: False
            then obtain its where its: "parse_elems F (skip t) = Inr (Some (its, r))"
              using eq "1.hyps" False v other True
              by (auto simp: parse_value.psimps Let_def split: sum.splits option.splits)
            have "parse_elems F (skip t) = Inr (Some (its, r)) \<longrightarrow> length r < length (skip t)"
              by (rule "1.IH"(1) [OF refl _ _ _ v _ _ True F]) (use False other \<open>\<not> (prefix _ _ \<or> _)\<close> in auto)
            then show ?thesis using its skip_length [of t] v by simp
          qed
        next
          case nb: False
          have c: "c = CHR ''{''" using eq "1.hyps" False v other nb
            by (auto simp: parse_value.psimps Let_def split: if_splits)
          show ?thesis
          proof (cases "starts (skip t) (\<lambda>c. c = CHR ''}'')")
            case T: True
            then show ?thesis using eq "1.hyps" False v other c skip_tl_length [OF T]
              by (auto simp: parse_value.psimps Let_def)
          next
            case F: False
            then obtain its where its: "parse_members F (skip t) = Inr (Some (its, r))"
              using eq "1.hyps" False v other c
              by (auto simp: parse_value.psimps Let_def split: sum.splits option.splits)
            have "parse_members F (skip t) = Inr (Some (its, r)) \<longrightarrow> length r < length (skip t)"
              by (rule "1.IH"(2) [OF refl _ _ _ v _ _ nb c F]) (use False other \<open>\<not> (prefix _ _ \<or> _)\<close> in auto)
            then show ?thesis using its skip_length [of t] v by simp
          qed
        qed
      qed
    qed
  qed
next
  case (2 F s)
  show ?case
  proof
    assume eq: "parse_elems F s = Inr (Some (its, r))"
    then obtain it r1 c r2 where p: "parse_value F (skip s) = Inr (Some (it, r1))" and k: "skip r1 = c # r2"
      using "2.hyps" by (auto simp: parse_elems.psimps split: sum.splits option.splits list.splits)
    have l1: "length r1 < length (skip s)" using "2.IH"(1) p by blast
    show "length r < length s"
    proof (cases "c = CHR '',''")
      case True
      then obtain its' where "parse_elems F r2 = Inr (Some (its', r))"
        using eq "2.hyps" p k by (auto simp: parse_elems.psimps split: sum.splits option.splits)
      then have "length r < length r2" using "2.IH"(2) [OF p refl refl k True] by blast
      then show ?thesis using l1 skip_length [of s] skip_Cons_length [OF k] by simp
    next
      case False
      then have "r = r2" using eq "2.hyps" p k by (auto simp: parse_elems.psimps split: if_splits)
      then show ?thesis using l1 skip_length [of s] skip_Cons_length [OF k] by simp
    qed
  qed
next
  case (3 F s)
  show ?case
  proof
    assume eq: "parse_members F s = Inr (Some (its, r))"
    then obtain nm r0 it r1 c r2 where
      n: "parse_string (cJSON_New_Item F) (skip s) = Inr (Some (nm, r0))" and
      st: "starts (skip r0) (\<lambda>c. c = CHR '':'')" and
      p: "parse_value F (skip (tl (skip r0))) = Inr (Some (it, r1))" and k: "skip r1 = c # r2"
      using "3.hyps"
      by (auto simp: parse_members.psimps Let_def split: sum.splits option.splits list.splits if_splits)
    have st': "\<not> \<not> starts (skip r0) (\<lambda>c. c = CHR '':'')" using st by simp
    have l0: "length r0 < length (skip s)" using parse_string_length [OF n] .
    have l1: "length r1 < length (skip (tl (skip r0)))" using "3.IH"(1) [OF n refl refl st'] p by blast
    show "length r < length s"
    proof (cases "c = CHR '',''")
      case True
      then obtain its' where "parse_members F r2 = Inr (Some (its', r))"
        using eq "3.hyps" n st p k by (auto simp: parse_members.psimps Let_def split: sum.splits option.splits)
      then have "length r < length r2" using "3.IH"(2) [OF n refl refl st' p refl refl refl k True] by blast
      then show ?thesis
        using l0 l1 skip_length [of s] skip_length [of "tl (skip r0)"] skip_tl_length [OF st] skip_Cons_length [OF k]
        by simp
    next
      case False
      then have "r = r2" using eq "3.hyps" n st p k by (auto simp: parse_members.psimps Let_def split: if_splits)
      then show ?thesis
        using l0 l1 skip_length [of s] skip_length [of "tl (skip r0)"] skip_tl_length [OF st] skip_Cons_length [OF k]
        by simp
    qed
  qed
qed

termination parse_value
proof (relation "measure (\<lambda>a. case a of Inl (F, s) \<Rightarrow> 2 * length s | Inr (Inl (F, s)) \<Rightarrow> Suc (2 * length s)
    | Inr (Inr (F, s)) \<Rightarrow> Suc (2 * length s))", goal_cases)
  case 1
  show ?case by simp
next
  case (2 F v x c t)
  then show ?case using skip_length [of t] by simp
next
  case (3 F v x c t)
  then show ?case using skip_length [of t] by simp
next
  case (4 F s)
  then show ?case using skip_length [of s] by simp
next
  case (5 F s b x2 x y c r)
  then have "length y < length (skip s)" using parse_partial(1) by blast
  then show ?case using 5 skip_length [of s] skip_Cons_length [of y c r] by simp
next
  case (6 F s b x2 x y)
  then have "length y < length (skip s)" by (auto dest: parse_string_length)
  then show ?case
    using 6 skip_length [of s] skip_length [of "tl (skip y)"] skip_tl_length [of y "\<lambda>c. c = CHR '':''"] by simp
next
  case (7 F s b x2 x y ba x2a xa ya xb c r)
  then have "length ya < length (skip (tl (skip y)))" using parse_partial(1) by blast
  moreover have "length y < length (skip s)" using 7 by (auto dest: parse_string_length)
  ultimately show ?case
    using 7 skip_length [of s] skip_length [of "tl (skip y)"] skip_tl_length [of y "\<lambda>c. c = CHR '':''"]
      skip_Cons_length [of ya c r] by simp
qed
declare parse_value.simps [simp del] parse_elems.simps [simp del] parse_members.simps [simp del]

definition cJSON_Parse :: "'d double_ops \<Rightarrow> string \<Rightarrow> 'd cJSON option c_result" where
  "cJSON_Parse F value = res_bind (parse_value F (skip value)) (\<lambda>r. Inr (map_option fst r))"

section \<open>Printing\<close>

text \<open>
  The entries of an array or object are printed first, then composed into a block whose size
  was summed up on the way.
\<close>

fun elems_text :: "bool \<Rightarrow> string list \<Rightarrow> string" where
  "elems_text fmt [] = []"
| "elems_text fmt [e] = e"
| "elems_text fmt (e # e' # es) = e @ '','' @ (if fmt then '' '' else []) @ elems_text fmt (e' # es)"

definition print_array_text :: "bool \<Rightarrow> string list \<Rightarrow> string c_result" where
  "print_array_text fmt es =
     print_into (5 + (\<Sum>e\<leftarrow>es. length e + 2 + (if fmt then 1 else 0)))
       (''['' @ elems_text fmt es @ '']'')"

fun members_text :: "bool \<Rightarrow> nat \<Rightarrow> (string \<times> string) list \<Rightarrow> string" where
  "members_text fmt depth [] = []"
| "members_text fmt depth ((n, e) # ps) =
     (if fmt then replicate depth TAB else []) @ n @ '':'' @ (if fmt then [TAB] else []) @ e @
     (if ps \<noteq> [] then '','' else []) @ (if fmt then [LF] else []) @ members_text fmt depth ps"

definition print_object_text :: "bool \<Rightarrow> nat \<Rightarrow> (string \<times> string) list \<Rightarrow> string c_result" where
  "print_object_text fmt depth ps =
     print_into (7 + (if fmt then depth else 0) +
                 (\<Sum>(n, e)\<leftarrow>ps. length e + length n + 2 + (if fmt then 2 + depth else 0)))
       (''{'' @ (if fmt then [LF] else []) @ members_text fmt depth ps @
        (if fmt then replicate (depth - 1) TAB else []) @ ''}'')"

fun print_value :: "'d double_ops \<Rightarrow> bool \<Rightarrow> nat \<Rightarrow> 'd cJSON \<Rightarrow> string c_result"
  and print_entries :: "'d double_ops \<Rightarrow> bool \<Rightarrow> nat \<Rightarrow> 'd cJSON list \<Rightarrow> string list c_result"
  and print_pairs :: "'d double_ops \<Rightarrow> bool \<Rightarrow> nat \<Rightarrow> 'd cJSON list \<Rightarrow> (string \<times> string) list c_result"
where
  "print_value F fmt depth (Item t vs vi vd s ch) =
     (case t of
        JNull \<Rightarrow> Inr ''null''
      | JFalse \<Rightarrow> Inr ''false''
      | JTrue \<Rightarrow> Inr ''true''
      | JNumber \<Rightarrow> print_number F (Item t vs vi vd s ch)
      | JString \<Rightarrow> print_string_ptr vs
      | JArray \<Rightarrow> res_bind (print_entries F fmt (depth + 1) ch) (print_array_text fmt)
      | JObject \<Rightarrow> res_bind (print_pairs F fmt (depth + 1) ch) (print_object_text fmt (depth + 1)))"
| "print_entries F fmt depth [] = Inr []"
| "print_entries F fmt depth (c # cs) =
     res_bind (print_value F fmt depth c) (\<lambda>e.
     res_bind (print_entries F fmt depth cs) (\<lambda>es. Inr (e # es)))"
| "print_pairs F fmt depth [] = Inr []"
| "print_pairs F fmt depth (c # cs) =
     res_bind (print_string_ptr (cj_string c)) (\<lambda>n.
     res_bind (print_value F fmt depth c) (\<lambda>e.
     res_bind (print_pairs F fmt depth cs) (\<lambda>ps. Inr ((n, e) # ps))))"

definition cJSON_Print :: "'d double_ops \<Rightarrow> 'd cJSON \<Rightarrow> string c_result" where
  "cJSON_Print F item = print_value F True 0 item"

definition cJSON_PrintUnformatted :: "'d double_ops \<Rightarrow> 'd cJSON \<Rightarrow> string c_result" where
  "cJSON_PrintUnformatted F item = print_value F False 0 item"

section \<open>Access and construction\<close>

definition cJSON_GetArraySize :: "'d cJSON \<Rightarrow> nat" where
  "cJSON_GetArraySize a = length (cj_child a)"

definition cJSON_GetArrayItem :: "'d cJSON \<Rightarrow> int \<Rightarrow> 'd cJSON option" where
  "cJSON_GetArrayItem a item =
     (case drop (nat item) (cj_child a) of [] \<Rightarrow> None | c # _ \<Rightarrow> Some c)"

definition cJSON_GetObjectItem :: "'d cJSON \<Rightarrow> string option \<Rightarrow> 'd cJSON option" where
  "cJSON_GetObjectItem obj name = find (\<lambda>c. cJSON_strcasecmp_eq (cj_string c) name) (cj_child obj)"

definition cJSON_AddItemToArray :: "'d cJSON \<Rightarrow> 'd cJSON option \<Rightarrow> 'd cJSON" where
  "cJSON_AddItemToArray a item =
     (case item of None \<Rightarrow> a | Some i \<Rightarrow> set_child (cj_child a @ [i]) a)"

definition cJSON_AddItemToObject :: "'d cJSON \<Rightarrow> string option \<Rightarrow> 'd cJSON option \<Rightarrow> 'd cJSON" where
  "cJSON_AddItemToObject obj name item =
     (case item of None \<Rightarrow> obj
      | Some i \<Rightarrow> cJSON_AddItemToArray obj
                    (Some (set_string (Some (case name of None \<Rightarrow> [] | Some n \<Rightarrow> n)) i)))"

definition cJSON_DetachItemFromArray :: "'d cJSON \<Rightarrow> int \<Rightarrow> 'd cJSON option \<times> 'd cJSON" where
  "cJSON_DetachItemFromArray a which =
     (case drop (nat which) (cj_child a) of
        [] \<Rightarrow> (None, a)
      | c # rest \<Rightarrow> (Some c, set_child (take (nat which) (cj_child a) @ rest) a))"

definition cJSON_DeleteItemFromArray :: "'d cJSON \<Rightarrow> int \<Rightarrow> 'd cJSON" where
  "cJSON_DeleteItemFromArray a which = snd (cJSON_DetachItemFromArray a which)"

definition object_position :: "'d cJSON \<Rightarrow> string option \<Rightarrow> nat" where
  "object_position obj name =
     length (takeWhile (\<lambda>c. \<not> cJSON_strcasecmp_eq (cj_string c) name) (cj_child obj))"

definition cJSON_DetachItemFromObject :: "'d cJSON \<Rightarrow> string option \<Rightarrow> 'd cJSON option \<times> 'd cJSON" where
  "cJSON_DetachItemFromObject obj name = cJSON_DetachItemFromArray obj (int (object_position obj name))"

definition cJSON_DeleteItemFromObject :: "'d cJSON \<Rightarrow> string option \<Rightarrow> 'd cJSON" where
  "cJSON_DeleteItemFromObject obj name = snd (cJSON_DetachItemFromObject obj name)"

definition cJSON_ReplaceItemInArray :: "'d cJSON \<Rightarrow> int \<Rightarrow> 'd cJSON \<Rightarrow> 'd cJSON" where
  "cJSON_ReplaceItemInArray a which newitem =
     (if nat which < length (cj_child a) then set_child ((cj_child a)[nat which := newitem]) a else a)"

definition cJSON_ReplaceItemInObject :: "'d cJSON \<Rightarrow> string \<Rightarrow> 'd cJSON \<Rightarrow> 'd cJSON" where
  "cJSON_ReplaceItemInObject obj name newitem =
     (if object_position obj (Some name) < length (cj_child obj)
      then cJSON_ReplaceItemInArray obj (int (object_position obj (Some name))) (set_string (Some name) newitem)
      else obj)"

definition cJSON_CreateNull :: "'d double_ops \<Rightarrow> 'd cJSON" where
  "cJSON_CreateNull F = set_type JNull (cJSON_New_Item F)"

definition cJSON_CreateBool :: "'d double_ops \<Rightarrow> bool \<Rightarrow> 'd cJSON" where
  "cJSON_CreateBool F b = set_type (if b then JTrue else JFalse) (cJSON_New_Item F)"

definition cJSON_CreateNumber :: "'d double_ops \<Rightarrow> 'd \<Rightarrow> 'd cJSON" where
  "cJSON_CreateNumber F num = set_type JNumber (set_number (dbl_trunc F num) num (cJSON_New_Item F))"

definition cJSON_CreateString :: "'d double_ops \<Rightarrow> string option \<Rightarrow> 'd cJSON" where
  "cJSON_CreateString F s =
     set_type JString (set_valuestring (Some (case s of None \<Rightarrow> [] | Some t \<Rightarrow> t)) (cJSON_New_Item F))"

definition cJSON_CreateArray :: "'d double_ops \<Rightarrow> 'd cJSON" where
  "cJSON_CreateArray F = set_type JArray (cJSON_New_Item F)"

definition cJSON_CreateObject :: "'d double_ops \<Rightarrow> 'd cJSON" where
  "cJSON_CreateObject F = set_type JObject (cJSON_New_Item F)"

definition cJSON_CreateIntArray :: "'d double_ops \<Rightarrow> int list \<Rightarrow> 'd cJSON" where
  "cJSON_CreateIntArray F ns = set_child (map (\<lambda>n. cJSON_CreateNumber F (dbl_of_int F n)) ns) (cJSON_CreateArray F)"

definition cJSON_CreateDoubleArray :: "'d double_ops \<Rightarrow> 'd list \<Rightarrow> 'd cJSON" where
  "cJSON_CreateDoubleArray F ds = set_child (map (cJSON_CreateNumber F) ds) (cJSON_CreateArray F)"

definition cJSON_CreateStringArray :: "'d double_ops \<Rightarrow> string list \<Rightarrow> 'd cJSON" where
  "cJSON_CreateStringArray F ss = set_child (map (\<lambda>s. cJSON_CreateString F (Some s)) ss) (cJSON_CreateArray F)"

section \<open>Strings: what is printed is read back\<close>

lemma hex_lower_val: "n < 16 \<Longrightarrow> hex_val (hex_lower n) = Some n"
  by (auto simp: hex_lower_def hex_val_def Let_def)

lemma is_hexdigit_lower: "n < 16 \<Longrightarrow> is_hexdigit (hex_lower n)"
  by (simp add: is_hexdigit_def hex_lower_val)

lemma utf8_ascii: "n < 128 \<Longrightarrow> utf8_encode n = [char_of n]"
  by (simp add: utf8_encode_def utf8_len_def first_byte_mark_def)

lemma parse_unicode_low:
  assumes "0 < n" "n < 32"
  shows "parse_unicode (CHR ''0'' # CHR ''0'' # hex_lower (n div 16) # hex_lower (n mod 16) # t) = ([char_of n], 4)"
proof -
  have z: "hex_val CHR ''0'' = Some 0" by (simp add: hex_val_def byte_of_def)
  have "scan_unicode (CHR ''0'' # CHR ''0'' # hex_lower (n div 16) # hex_lower (n mod 16) # t) = Some n"
    using assms sscanf_hex_4 [OF z z hex_lower_val [of "n div 16"] hex_lower_val [of "n mod 16"], of t]
      is_hexdigit_lower [of "n div 16"] is_hexdigit_lower [of "n mod 16"]
    by (simp add: scan_unicode_def is_hexdigit_lower is_hexdigit_def z)
  then show ?thesis using assms by (simp add: parse_unicode_def utf8_ascii)
qed

lemma escape_cases:
  assumes "c \<noteq> NUL"
  obtains (plain) "escape_char c = [c]" "c \<noteq> DQ" "c \<noteq> BSL"
    | (short) d where "escape_char c = [BSL, d]" "d \<noteq> CHR ''u''" "unescape_char d = c"
    | (code) n where "escape_char c = [BSL, CHR ''u'', CHR ''0'', CHR ''0'', hex_lower (n div 16), hex_lower (n mod 16)]"
        "0 < n" "n < 32" "c = char_of n"
proof -
  consider "31 < byte_of c \<and> c \<noteq> DQ \<and> c \<noteq> BSL"
    | "c \<in> set [DQ, BSL, CHR 0x08, CHR 0x0C, LF, CR, TAB]"
    | "byte_of c < 32" "c \<notin> set [DQ, BSL, CHR 0x08, CHR 0x0C, LF, CR, TAB]"
    by (cases "c \<in> set [DQ, BSL, CHR 0x08, CHR 0x0C, LF, CR, TAB]"; cases "byte_of c < 32") auto
  then show thesis
  proof cases
    case 1
    then show thesis by (intro plain) (auto simp: escape_char_def)
  next
    case 2
    then show thesis by (auto intro: short simp: escape_char_def unescape_char_def byte_of_def)
  next
    case 3
    have "byte_of c \<noteq> byte_of NUL" using assms unfolding byte_of_inject .
    then have "0 < byte_of c" by (simp add: byte_of_def)
    with 3 show thesis by (intro code [of "byte_of c"]) (auto simp: escape_char_def)
  qed
qed

lemma unescape_escape_char:
  "c \<noteq> NUL \<Longrightarrow> unescape (escape_char c @ t) = apfst ((#) c) (unescape t)"
  by (erule escape_cases) (auto simp: unescape_rules parse_unicode_low)

lemma unescape_escape:
  "cstring s \<Longrightarrow> unescape (concat (map escape_char s) @ DQ # t) = (s, DQ # t)"
  by (induction s) (simp_all add: unescape_rules unescape_escape_char)

lemma hex_lower_plain: "n < 16 \<Longrightarrow> hex_lower n \<noteq> DQ \<and> hex_lower n \<noteq> BSL"
  using hex_lower_val [of n] by (auto simp: hex_val_def Let_def byte_of_def split: if_splits)

lemma string_len_escape_char:
  "c \<noteq> NUL \<Longrightarrow> \<exists>k \<ge> 1. \<forall>len t. string_len len (escape_char c @ t) = string_len (len + k) t"
proof (erule escape_cases)
  fix n assume "escape_char c = [BSL, CHR ''u'', CHR ''0'', CHR ''0'', hex_lower (n div 16), hex_lower (n mod 16)]"
    "0 < n" "n < 32"
  then show ?thesis using hex_lower_plain [of "n div 16"] hex_lower_plain [of "n mod 16"]
    by (intro exI [of _ "Suc (Suc (Suc (Suc (Suc 0))))"]) simp
qed (auto intro!: exI [of _ 1])

lemma string_len_escape:
  "cstring s \<Longrightarrow> \<exists>m \<ge> len + length s. string_len len (concat (map escape_char s) @ DQ # t) = Inr m"
proof (induction s arbitrary: len)
  case (Cons c s)
  then obtain k where "1 \<le> k" "\<forall>len t. string_len len (escape_char c @ t) = string_len (len + k) t"
    using string_len_escape_char [of c] by auto
  moreover obtain m where "m \<ge> len + k + length s"
      "string_len (len + k) (concat (map escape_char s) @ DQ # t) = Inr m"
    using Cons.IH [of "len + k"] Cons.prems by auto
  ultimately show ?case by (intro exI [of _ m]) simp
qed simp

lemma escape_len_bound: "c \<noteq> NUL \<Longrightarrow> length (escape_char c) = escape_len c"
  by (auto simp: escape_char_def escape_len_def byte_of_def)

lemma print_string_text:
  "cstring s \<Longrightarrow> print_string_ptr (Some s) = Inr ([DQ] @ concat (map escape_char s) @ [DQ])"
proof -
  assume "cstring s"
  then have "length (concat (map escape_char s)) = sum_list (map escape_len s)"
    by (induction s) (simp_all add: escape_len_bound)
  then show ?thesis by (simp add: print_string_ptr_def print_into_def)
qed

lemma parse_printed_string:
  assumes "cstring s"
  shows "parse_string it ([DQ] @ concat (map escape_char s) @ [DQ] @ rest) =
           Inr (Some (set_type JString (set_valuestring (Some s) it), rest))"
  using string_len_escape [OF assms, of 0 rest] unescape_escape [OF assms, of rest]
  by (auto simp: parse_string_def starts_def c_str_id assms)

section \<open>Values: what is printed is read back\<close>

text \<open>
  The items a parse can produce, without numbers: \<open>tree_item\<close> leaves the name of the item
  itself open, the elements of an array have no name and the members of an object have one.
\<close>

primrec tree_item :: "'d double_ops \<Rightarrow> 'd cJSON \<Rightarrow> bool" where
  "tree_item F (Item t vs vi vd s ch) \<longleftrightarrow>
     vd = dbl_of_int F 0 \<and> list_all (\<lambda>b. b) (map (tree_item F) ch) \<and>
     (case t of
        JNumber \<Rightarrow> False
      | JString \<Rightarrow> vi = 0 \<and> ch = [] \<and> (case vs of None \<Rightarrow> False | Some v \<Rightarrow> cstring v)
      | JTrue \<Rightarrow> vs = None \<and> vi = 1 \<and> ch = []
      | JNull \<Rightarrow> vs = None \<and> vi = 0 \<and> ch = []
      | JFalse \<Rightarrow> vs = None \<and> vi = 0 \<and> ch = []
      | JArray \<Rightarrow> vs = None \<and> vi = 0 \<and> list_all (\<lambda>c. cj_string c = None) ch
      | JObject \<Rightarrow> vs = None \<and> vi = 0 \<and>
          list_all (\<lambda>c. case cj_string c of None \<Rightarrow> False | Some n \<Rightarrow> cstring n) ch)"

text \<open>The text of an item, without the checks of the space for it.\<close>

definition string_text :: "string \<Rightarrow> string" where
  "string_text s = [DQ] @ concat (map escape_char s) @ [DQ]"

definition name_of :: "'d cJSON \<Rightarrow> string" where
  "name_of c = (case cj_string c of None \<Rightarrow> [] | Some n \<Rightarrow> n)"

primrec item_text :: "'d cJSON \<Rightarrow> bool \<Rightarrow> nat \<Rightarrow> string" where
  "item_text (Item t vs vi vd s ch) = (\<lambda>fmt depth.
     (case t of
        JNull \<Rightarrow> ''null''
      | JFalse \<Rightarrow> ''false''
      | JTrue \<Rightarrow> ''true''
      | JNumber \<Rightarrow> []
      | JString \<Rightarrow> string_text (case vs of None \<Rightarrow> [] | Some v \<Rightarrow> v)
      | JArray \<Rightarrow> ''['' @ elems_text fmt (map (\<lambda>f. f fmt (depth + 1)) (map item_text ch)) @ '']''
      | JObject \<Rightarrow>
          ''{'' @ (if fmt then [LF] else []) @
          members_text fmt (depth + 1)
            (zip (map (string_text o name_of) ch) (map (\<lambda>f. f fmt (depth + 1)) (map item_text ch))) @
          (if fmt then replicate depth TAB else []) @ ''}''))"

lemma elems_text_length:
  "length (elems_text fmt es) \<le> (\<Sum>e\<leftarrow>es. length e + 2 + (if fmt then 1 else 0))"
  by (induction fmt es rule: elems_text.induct) auto

lemma print_array_fits: "print_array_text fmt es = Inr (''['' @ elems_text fmt es @ '']'')"
  using elems_text_length [of fmt es] by (simp add: print_array_text_def print_into_def)

lemma members_text_length:
  "length (members_text fmt depth ps) \<le>
     (\<Sum>(n, e)\<leftarrow>ps. length e + length n + 2 + (if fmt then 2 + depth else 0))"
  by (induction fmt depth ps rule: members_text.induct) auto

lemma print_object_fits:
  "print_object_text fmt depth ps =
     Inr (''{'' @ (if fmt then [LF] else []) @ members_text fmt depth ps @
          (if fmt then replicate (depth - 1) TAB else []) @ ''}'')"
  using members_text_length [of fmt depth ps]
  by (cases fmt) (auto simp: print_object_text_def print_into_def)

lemma print_name_text:
  "(case cj_string c of None \<Rightarrow> False | Some n \<Rightarrow> cstring n) \<Longrightarrow>
   print_string_ptr (cj_string c) = Inr (string_text (name_of c))"
  by (auto simp: name_of_def string_text_def print_string_text split: option.splits)

lemma print_entries_map:
  "(\<forall>c \<in> set cs. print_value F fmt d c = Inr (item_text c fmt d)) \<Longrightarrow>
   print_entries F fmt d cs = Inr (map (\<lambda>c. item_text c fmt d) cs)"
  by (induction cs) auto

lemma print_pairs_map:
  "(\<forall>c \<in> set cs. print_value F fmt d c = Inr (item_text c fmt d)) \<Longrightarrow>
   list_all (\<lambda>c. case cj_string c of None \<Rightarrow> False | Some n \<Rightarrow> cstring n) cs \<Longrightarrow>
   print_pairs F fmt d cs =
     Inr (zip (map (string_text o name_of) cs) (map (\<lambda>c. item_text c fmt d) cs))"
  by (induction cs) (auto simp: print_name_text)

lemma print_value_text: "tree_item F it \<Longrightarrow> print_value F fmt depth it = Inr (item_text it fmt depth)"
proof (induction it arbitrary: fmt depth)
  case (Item t vs vi vd s ch)
  have ch: "\<forall>c \<in> set ch. print_value F fmt (depth + 1) c = Inr (item_text c fmt (depth + 1))"
    using Item by (auto simp: list_all_iff)
  show ?case
  proof (cases t)
    case JArray
    then show ?thesis using print_entries_map [OF ch] by (simp add: print_array_fits o_def)
  next
    case JObject
    then have "list_all (\<lambda>c. case cj_string c of None \<Rightarrow> False | Some n \<Rightarrow> cstring n) ch"
      using Item.prems by simp
    from print_pairs_map [OF ch this] show ?thesis using JObject
      by (simp add: print_object_fits o_def)
  qed (use Item.prems in \<open>auto simp: string_text_def print_string_text split: option.splits\<close>)
qed

text \<open>Reading back. No text of an item begins with white space.\<close>

lemma skip_white: "list_all (\<lambda>c. byte_of c \<le> 32) w \<Longrightarrow> skip (w @ t) = skip t"
  by (simp add: skip_def list_all_iff dropWhile_append)

lemma skip_Cons: "32 < byte_of c \<Longrightarrow> skip (c # t) = c # t"
  by (simp add: skip_def)

definition item_start :: "char \<Rightarrow> bool" where
  "item_start c \<longleftrightarrow> 32 < byte_of c \<and> c \<noteq> CHR '']'' \<and> c \<noteq> CHR ''}''"

lemma item_text_start: "tree_item F it \<Longrightarrow> \<exists>c t. item_text it fmt d = c # t \<and> item_start c"
  by (cases it) (auto simp: item_start_def string_text_def byte_of_def split: json_type.splits)

lemma skip_item_text: "tree_item F it \<Longrightarrow> skip (item_text it fmt d @ r) = item_text it fmt d @ r"
  using item_text_start [of F it fmt d] by (auto simp: item_start_def skip_Cons)

definition reads_back :: "'d double_ops \<Rightarrow> 'd cJSON \<Rightarrow> bool \<Rightarrow> nat \<Rightarrow> bool" where
  "reads_back F it fmt d \<longleftrightarrow>
     (\<forall>rest. parse_value F (item_text it fmt d @ rest) = Inr (Some (set_string None it, rest)))"

lemma reads_backI:
  "(\<And>rest. parse_value F (item_text it fmt d @ rest) = Inr (Some (set_string None it, rest))) \<Longrightarrow>
   reads_back F it fmt d"
  by (simp add: reads_back_def)

lemma byte_of_punct:
  "byte_of CHR '','' = 44" "byte_of CHR '']'' = 93" "byte_of CHR ''}'' = 125" "byte_of CHR '':'' = 58"
  "byte_of DQ = 34" "byte_of TAB = 9" "byte_of LF = 10" "byte_of CHR '' '' = 32"
  by (simp_all add: byte_of_def)

lemma set_string_None_id: "cj_string c = None \<Longrightarrow> set_string None c = c"
  by (cases c) simp

lemma set_string_back: "cj_string c = Some n \<Longrightarrow> set_string (Some n) (set_string None c) = c"
  by (cases c) simp

lemma parse_elems_back:
  assumes "cs \<noteq> []" "\<forall>c \<in> set cs. tree_item F c \<and> reads_back F c fmt d \<and> cj_string c = None"
  shows "parse_elems F (elems_text fmt (map (\<lambda>c. item_text c fmt d) cs) @ '']'' @ rest) = Inr (Some (cs, rest))"
  using assms
proof (induction cs)
  case (Cons c cs)
  have rb: "parse_value F (skip (item_text c fmt d @ r)) = Inr (Some (c, r))" for r
    using Cons.prems(2) skip_item_text [of F c fmt d r]
    by (simp add: reads_back_def set_string_None_id)
  show ?case
  proof (cases "cs = []")
    case True
    then show ?thesis using rb [of "'']'' @ rest"]
      by (simp add: parse_elems.simps skip_Cons byte_of_punct)
  next
    case False
    then obtain c' cs' where cs: "cs = c' # cs'" by (cases cs) auto
    define w where "w = (if fmt then '' '' else [])"
    define u where "u = elems_text fmt (map (\<lambda>c. item_text c fmt d) cs) @ '']'' @ rest"
    have IH: "parse_elems F u = Inr (Some (cs, rest))"
      unfolding u_def using Cons.IH [OF False] Cons.prems(2) by simp
    have w: "list_all (\<lambda>c. byte_of c \<le> 32) w" by (simp add: w_def byte_of_punct)
    have "parse_elems F (w @ u) = parse_elems F u"
      unfolding parse_elems.simps [of F "w @ u"] parse_elems.simps [of F u] skip_white [OF w] ..
    moreover have "elems_text fmt (map (\<lambda>c. item_text c fmt d) (c # cs)) @ '']'' @ rest =
        item_text c fmt d @ '','' @ w @ u"
      by (simp add: cs u_def w_def)
    moreover have "parse_elems F (item_text c fmt d @ '','' @ w @ u) =
        (case parse_elems F (w @ u) of Inl f \<Rightarrow> Inl f | Inr None \<Rightarrow> Inr None
         | Inr (Some (its, r'')) \<Rightarrow> Inr (Some (c # its, r'')))"
      using rb [of "'','' @ w @ u"] by (simp add: parse_elems.simps [of F "item_text _ _ _ @ _"] skip_Cons byte_of_punct)
    ultimately show ?thesis using IH by simp
  qed
qed simp

lemma parse_string_text:
  "cstring n \<Longrightarrow> parse_string it (string_text n @ r) = Inr (Some (set_type JString (set_valuestring (Some n) it), r))"
  using parse_printed_string [of n it r] by (simp add: string_text_def)

lemma skip_string_text: "skip (string_text n @ r) = string_text n @ r"
  by (simp add: string_text_def skip_Cons byte_of_punct)

lemma white_tabs: "list_all (\<lambda>c. byte_of c \<le> 32) (if fmt then replicate k TAB else [])"
  by (simp add: list_all_iff byte_of_punct)

lemma parse_members_back:
  assumes "cs \<noteq> []"
    and "\<forall>c \<in> set cs. tree_item F c \<and> reads_back F c fmt d \<and>
           (case cj_string c of None \<Rightarrow> False | Some n \<Rightarrow> cstring n)"
    and "list_all (\<lambda>c. byte_of c \<le> 32) w"
  shows "parse_members F (members_text fmt d (zip (map (string_text o name_of) cs) (map (\<lambda>c. item_text c fmt d) cs)) @
           w @ ''}'' @ rest) = Inr (Some (cs, rest))"
  using assms(1,2)
proof (induction cs)
  case (Cons c cs)
  obtain n where n: "cj_string c = Some n" "cstring n"
    using Cons.prems(2) by (auto split: option.splits)
  define tabs where "tabs = (if fmt then replicate d TAB else [])"
  define tb where "tb = (if fmt then [TAB] else [])"
  define nl where "nl = (if fmt then [LF] else [])"
  have white: "list_all (\<lambda>c. byte_of c \<le> 32) tabs" "list_all (\<lambda>c. byte_of c \<le> 32) tb"
    "list_all (\<lambda>c. byte_of c \<le> 32) nl"
    by (simp_all add: tabs_def tb_def nl_def white_tabs byte_of_punct)
  have name: "parse_string (cJSON_New_Item F) (skip (tabs @ string_text n @ r)) =
      Inr (Some (set_type JString (set_valuestring (Some n) (cJSON_New_Item F)), r))" for r
    by (simp only: skip_white [OF white(1)] skip_string_text parse_string_text [OF n(2)])
  have val: "parse_value F (skip (tb @ item_text c fmt d @ r)) = Inr (Some (set_string None c, r))" for r
    using Cons.prems(2) skip_item_text [of F c fmt d r]
    by (simp add: skip_white [OF white(2)] reads_back_def)
  have named: "set_string (cj_valuestring (set_type JString (set_valuestring (Some n) (cJSON_New_Item F)))) (set_string None c) = c"
    using set_string_back [OF n(1)] by (simp add: cJSON_New_Item_def)
  have step: "parse_members F (tabs @ string_text n @ '':'' @ tb @ item_text c fmt d @ u) =
      (case skip u of
         [] \<Rightarrow> Inr None
       | k # r' \<Rightarrow>
           if k = CHR '','' then
             (case parse_members F r' of Inl f \<Rightarrow> Inl f | Inr None \<Rightarrow> Inr None
              | Inr (Some (its, r'')) \<Rightarrow> Inr (Some (c # its, r'')))
           else if k = CHR ''}'' then Inr (Some ([c], r')) else Inr None)" for u
    using name [of "'':'' @ tb @ item_text c fmt d @ u"] val [of u] named
    by (simp add: parse_members.simps [of F "tabs @ _"] skip_Cons byte_of_punct starts_def Let_def split: list.split sum.split option.split)
  define ps where "ps = members_text fmt d (zip (map (string_text o name_of) cs) (map (\<lambda>c. item_text c fmt d) cs))"
  have whole: "members_text fmt d (zip (map (string_text o name_of) (c # cs)) (map (\<lambda>c. item_text c fmt d) (c # cs))) =
      tabs @ string_text n @ '':'' @ tb @ item_text c fmt d @ (if cs \<noteq> [] then '','' else []) @ nl @ ps"
    using n(1) by (cases cs) (simp_all add: tabs_def tb_def nl_def ps_def name_of_def)
  show ?case
  proof (cases "cs = []")
    case True
    have "skip (nl @ w @ ''}'' @ rest) = ''}'' @ rest"
      by (simp add: skip_white [OF white(3)] skip_white [OF assms(3)] skip_Cons byte_of_punct)
    then show ?thesis using True step [of "nl @ w @ ''}'' @ rest"] unfolding whole
      by (simp add: ps_def)
  next
    case False
    have IH: "parse_members F (ps @ w @ ''}'' @ rest) = Inr (Some (cs, rest))"
      unfolding ps_def by (rule Cons.IH [OF False]) (use Cons.prems(2) in simp)
    have "parse_members F (nl @ r) = parse_members F r" for r
      unfolding parse_members.simps [of F "nl @ r"] parse_members.simps [of F r] skip_white [OF white(3)] ..
    then show ?thesis using False IH step [of "'','' @ nl @ ps @ w @ ''}'' @ rest"] unfolding whole
      by (simp add: skip_Cons byte_of_punct del: map_map o_apply)
  qed
qed simp

lemma skip_skip: "skip (skip s) = skip s"
  by (simp add: skip_def)

lemma parse_members_skip: "parse_members F (skip s) = parse_members F s"
  unfolding parse_members.simps [of F "skip s"] parse_members.simps [of F s] skip_skip ..

lemma parse_item_text: "tree_item F it \<Longrightarrow> reads_back F it fmt d"
proof (induction it arbitrary: d)
  case (Item t vs vi vd s ch d)
  have ch: "\<forall>c \<in> set ch. tree_item F c \<and> reads_back F c fmt (d + 1)"
    using Item by (auto simp: list_all_iff)
  have vd: "vd = dbl_of_int F 0" using Item.prems by simp
  have punct: "\<not> c_isdigit CHR ''[''" "\<not> c_isdigit CHR ''{''" by (simp_all add: c_isdigit_def byte_of_def)
  show ?case
  proof (cases t)
    case JArray
    then have no: "vs = None" "vi = 0" "list_all (\<lambda>c. cj_string c = None) ch" using Item.prems by auto
    show ?thesis
    proof (rule reads_backI)
      fix rest :: string
      define u where "u = elems_text fmt (map (\<lambda>c. item_text c fmt (d + 1)) ch) @ '']'' @ rest"
      have whole: "item_text (Item t vs vi vd s ch) fmt d @ rest = CHR ''['' # u"
        using JArray by (simp add: u_def o_def)
      show "parse_value F (item_text (Item t vs vi vd s ch) fmt d @ rest) = Inr (Some (set_string None (Item t vs vi vd s ch), rest))"
      proof (cases "ch = []")
        case True
        then show ?thesis unfolding whole using JArray no vd punct
          by (simp add: parse_value.simps u_def skip_Cons byte_of_punct starts_def cJSON_New_Item_def)
      next
        case False
        then obtain c cs where cs: "ch = c # cs" by (cases ch) auto
        obtain k v where kv: "item_text c fmt (d + 1) = k # v" "item_start k"
          using item_text_start [of F c fmt "d + 1"] ch cs by auto
        then obtain v' where u: "u = k # v'" unfolding u_def cs by (cases cs) auto
        then have st: "skip u = u" "\<not> starts u (\<lambda>c. c = CHR '']'')"
          using kv(2) by (simp_all add: skip_Cons item_start_def starts_def)
        have "parse_elems F u = Inr (Some (ch, rest))"
          unfolding u_def using no(3) ch False by (intro parse_elems_back) (auto simp: list_all_iff)
        then show ?thesis unfolding whole using st JArray no vd punct
          by (simp add: parse_value.simps [of F "CHR ''['' # u"] cJSON_New_Item_def)
      qed
    qed
  next
    case JObject
    then have no: "vs = None" "vi = 0" "list_all (\<lambda>c. case cj_string c of None \<Rightarrow> False | Some n \<Rightarrow> cstring n) ch"
      using Item.prems by auto
    show ?thesis
    proof (rule reads_backI)
      fix rest :: string
      define nl where "nl = (if fmt then [LF] else [])"
      define w where "w = (if fmt then replicate d TAB else [])"
      define ps where "ps = members_text fmt (d + 1) (zip (map (string_text o name_of) ch)
          (map (\<lambda>c. item_text c fmt (d + 1)) ch))"
      have white: "list_all (\<lambda>c. byte_of c \<le> 32) nl" "list_all (\<lambda>c. byte_of c \<le> 32) w"
        by (simp_all add: nl_def w_def white_tabs byte_of_punct)
      have whole: "item_text (Item t vs vi vd s ch) fmt d @ rest = CHR ''{'' # nl @ ps @ w @ ''}'' @ rest"
        using JObject by (simp add: nl_def w_def ps_def o_def)
      show "parse_value F (item_text (Item t vs vi vd s ch) fmt d @ rest) = Inr (Some (set_string None (Item t vs vi vd s ch), rest))"
      proof (cases "ch = []")
        case True
        have "skip (nl @ ps @ w @ ''}'' @ rest) = ''}'' @ rest"
          using True by (simp add: ps_def skip_white [OF white(1)] skip_white [OF white(2)] skip_Cons byte_of_punct)
        then show ?thesis unfolding whole using True JObject no vd punct
          by (simp add: parse_value.simps starts_def cJSON_New_Item_def)
      next
        case False
        then obtain c cs where cs: "ch = c # cs" by (cases ch) auto
        define u where "u = skip (nl @ ps @ w @ ''}'' @ rest)"
        have "ps = (if fmt then replicate (d + 1) TAB else []) @ string_text (name_of c) @ drop (length (if fmt then replicate (d + 1) TAB else []) + length (string_text (name_of c))) ps"
          by (simp add: ps_def cs)
        then obtain v where v: "ps = (if fmt then replicate (d + 1) TAB else []) @ string_text (name_of c) @ v" by blast
        have u: "u = string_text (name_of c) @ v @ w @ ''}'' @ rest"
          by (simp only: u_def skip_white [OF white(1)] v append_assoc skip_white [OF white_tabs] skip_string_text)
        then have st: "\<not> starts u (\<lambda>c. c = CHR ''}'')" by (simp add: starts_def string_text_def)
        have uu: "skip (nl @ ps @ w @ CHR ''}'' # rest) = u" by (simp add: u_def)
        have "parse_members F u = parse_members F (ps @ w @ ''}'' @ rest)"
          by (simp only: u_def skip_white [OF white(1)] parse_members_skip)
        also have "\<dots> = Inr (Some (ch, rest))"
          unfolding ps_def using no(3) ch False white(2) by (intro parse_members_back) (auto simp: list_all_iff)
        finally show ?thesis unfolding whole using st JObject no vd punct
          by (simp add: parse_value.simps [of F "CHR ''{'' # _"] cJSON_New_Item_def uu)
      qed
    qed
  next
    case JString
    then obtain v where v: "vs = Some v" "cstring v" "vi = 0" "ch = []" using Item.prems
      by (auto split: option.splits)
    then show ?thesis using JString vd parse_string_text [OF v(2), of "cJSON_New_Item F"]
      by (simp add: reads_back_def parse_value.simps) (simp add: string_text_def cJSON_New_Item_def)
  qed (use Item.prems in \<open>auto simp: reads_back_def parse_value.simps cJSON_New_Item_def\<close>)
qed

section \<open>Properties\<close>

definition unit_ops :: "unit double_ops" where
  "unit_ops = \<lparr>dbl_of_int = (\<lambda>_. ()), dbl_add = (\<lambda>_ _. ()), dbl_sub = (\<lambda>_ _. ()), dbl_mul = (\<lambda>_ _. ()),
     dbl_pow10 = (\<lambda>_. ()), dbl_abs = (\<lambda>_. ()), dbl_floor = (\<lambda>_. ()), dbl_le = (\<lambda>_ _. True),
     dbl_less = (\<lambda>_ _. False), dbl_trunc = (\<lambda>_. 0), dbl_epsilon = (), dbl_1e_minus6 = (), dbl_1e9 = (),
     fmt_0f = (\<lambda>_. ''0''), fmt_e = (\<lambda>_. ''0''), fmt_f = (\<lambda>_. ''0'')\<rparr>"

definition wit_json :: "unit cJSON" where
  "wit_json = Item JObject None 0 () None
     [Item JString (Some [DQ, LF, CHR 0x01, CHR ''x'']) 0 () (Some ''k'') [],
      Item JArray None 0 () (Some ''l'') [Item JNull None 0 () None [], Item JTrue None 1 () None []]]"

text \<open>
  C23. Every item without numbers that a parse can produce is printed within the space
  computed for it, formatted or not, and parsing the printed text gives the item back,
  whatever text follows it.
\<close>

theorem json_round_trip:
  assumes "tree_item F it" and "cj_string it = None"
  shows "\<exists>t. print_value F fmt depth it = Inr t \<and>
             (\<forall>rest. parse_value F (t @ rest) = Inr (Some (it, rest))) \<and>
             cJSON_Parse F t = Inr (Some it)"
proof -
  let ?t = "item_text it fmt depth"
  have id: "set_string None it = it" using assms(2) by (rule set_string_None_id)
  have p: "parse_value F (?t @ rest) = Inr (Some (it, rest))" for rest
    using parse_item_text [OF assms(1), of fmt depth] id by (simp add: reads_back_def)
  have "cJSON_Parse F ?t = Inr (Some it)"
    using p [of "[]"] skip_item_text [OF assms(1), of fmt depth "[]"] by (simp add: cJSON_Parse_def)
  then show ?thesis using p print_value_text [OF assms(1)] by blast
qed

theorem json_round_trip_witness:
  "\<exists>t. print_value unit_ops True 0 wit_json = Inr t \<and>
       (\<forall>rest. parse_value unit_ops (t @ rest) = Inr (Some (wit_json, rest))) \<and>
       cJSON_Parse unit_ops t = Inr (Some wit_json)"
  by (rule json_round_trip) (simp_all add: wit_json_def unit_ops_def)

text \<open>The decoding never writes more than the first loop counted.\<close>

lemma utf8_len_le: "length (utf8_encode uc) \<le> 4"
proof -
  have "length (utf8_bytes l k u) = k" for l k u
    by (induction l k u rule: utf8_bytes.induct) auto
  then show ?thesis by (simp add: utf8_encode_def utf8_len_def)
qed

lemma parse_unicode_bytes: "length (fst (parse_unicode r)) \<le> 4"
  by (simp add: parse_unicode_def utf8_len_le split: option.split)

lemma scan_unicode_shape:
  "scan_unicode r = Some u \<Longrightarrow>
   \<exists>a b c d t. r = a # b # c # d # t \<and> is_hexdigit a \<and> is_hexdigit b \<and> is_hexdigit c \<and> is_hexdigit d"
  by (auto simp: scan_unicode_def split: list.splits if_splits)

lemma hexdigit_plain: "is_hexdigit c \<Longrightarrow> c \<noteq> DQ \<and> c \<noteq> BSL"
  by (auto simp: is_hexdigit_def hex_val_def Let_def byte_of_def split: if_splits)

lemma string_len_scanned:
  assumes "scan_unicode r = Some u"
  shows "string_len len r = string_len (len + 4) (drop 4 r)"
proof -
  obtain a b c d t where r: "r = a # b # c # d # t"
      and h: "is_hexdigit a" "is_hexdigit b" "is_hexdigit c" "is_hexdigit d"
    using scan_unicode_shape [OF assms] by blast
  show ?thesis using h [THEN hexdigit_plain] by (simp add: r eval_nat_numeral)
qed

lemma parse_unicode_count:
  assumes "string_len len r = Inr m" "parse_unicode r = (bytes, k)"
  shows "\<exists>len'. string_len len' (drop k r) = Inr m \<and> len + length bytes \<le> Suc len'"
proof (cases "scan_unicode r")
  case None
  then show ?thesis using assms by (auto simp: parse_unicode_def)
next
  case (Some uc)
  have s4: "string_len (len + 4) (drop 4 r) = Inr m" using string_len_scanned [OF Some] assms(1) by simp
  show ?thesis
  proof (cases "k = 4")
    case True
    have "length bytes \<le> 4" using assms(2) parse_unicode_bytes [of r] by simp
    then show ?thesis using s4 True by (intro exI [of _ "len + 4"]) simp
  next
    case False
    then obtain uc2 where k: "k = 10" and p: "prefix [BSL, CHR ''u''] (drop 4 r)"
        and u2: "scan_unicode (drop 6 r) = Some uc2"
      using assms(2) Some by (auto simp: parse_unicode_def split: if_splits option.splits)
    have b: "length bytes \<le> 4" using assms(2) parse_unicode_bytes [of r] by simp
    obtain t where t: "drop 4 r = BSL # CHR ''u'' # t" using p by (auto simp: prefix_def)
    have "drop 6 r = drop 2 (drop 4 r)" by simp
    then have d6: "drop 6 r = t" unfolding t by simp
    have "string_len (Suc (len + 4)) t = Inr m" using s4 t by simp
    then have "string_len (len + 9) (drop 4 t) = Inr m"
      using string_len_scanned [of t uc2 "Suc (len + 4)"] u2 d6 by (simp add: eval_nat_numeral)
    moreover have "drop 4 t = drop 10 r" unfolding d6 [symmetric] by simp
    ultimately show ?thesis using k b by (intro exI [of _ "len + 9"]) simp
  qed
qed

lemma unescape_fits:
  "string_len len s = Inr m \<Longrightarrow> len + length (fst (unescape s)) \<le> m"
proof (induction s arbitrary: len rule: length_induct)
  case (1 s)
  have IH: "string_len l t = Inr m \<Longrightarrow> l + length (fst (unescape t)) \<le> m" if "length t < length s" for l t
    using "1.IH" that by blast
  show ?case
  proof (cases s)
    case (Cons c r)
    consider "c = DQ" | "c \<noteq> DQ" "c \<noteq> BSL" | "c = BSL" by blast
    then show ?thesis
    proof cases
      case 2
      then show ?thesis using Cons "1.prems" IH [of r "Suc len"] by (simp add: unescape_rules)
    next
      case 3
      then obtain d r' where r: "r = d # r'" using Cons "1.prems" by (cases r) auto
      then have s': "string_len (Suc len) r' = Inr m" using Cons 3 "1.prems" by simp
      show ?thesis
      proof (cases "d = CHR ''u''")
        case True
        obtain bytes k where u: "parse_unicode r' = (bytes, k)" by force
        obtain l' where "string_len l' (drop k r') = Inr m" "Suc len + length bytes \<le> Suc l'"
          using parse_unicode_count [OF s' u] by blast
        moreover have "length (drop k r') < length s" using Cons r by simp
        ultimately show ?thesis using IH [of "drop k r'" l'] Cons 3 r True u by (simp add: unescape_rules)
      next
        case False
        then show ?thesis using IH [of r' "Suc len"] s' Cons 3 r by (simp add: unescape_rules)
      qed
    qed (use Cons "1.prems" in \<open>simp add: unescape_rules\<close>)
  qed (use "1.prems" in \<open>simp add: unescape_rules\<close>)
qed

text \<open>
  The string reader never writes behind the block it allocates, although the size of the
  block is counted without decoding the escapes: whatever the text is, it either succeeds or
  the counting loop itself ran over the end of the text, which happens only when the text
  ends in the middle of an escape.
\<close>

theorem json_string_in_bounds:
  "(\<exists>r. parse_string it s = Inr r) \<or>
   (\<exists>u. s = DQ # u @ [BSL] \<and> string_len 0 (u @ [BSL]) = Inl OutOfBounds)"
proof (cases "starts s (\<lambda>c. c = DQ)")
  case True
  then obtain t where s: "s = DQ # t" by (cases s) (auto simp: starts_def)
  have ends: "string_len n v = Inl f \<Longrightarrow> f = OutOfBounds \<and> (\<exists>u. v = u @ [BSL])" for n v f
  proof (induction n v rule: string_len.induct)
    case (2 len c r)
    show ?case
    proof (cases "c = BSL \<and> r \<noteq> []")
      case True
      then obtain d r' where r: "r = d # r'" by (cases r) auto
      have "f = OutOfBounds \<and> (\<exists>u. r' = u @ [BSL])"
        using "2.IH"(1) [of d r'] "2.prems" True r by simp
      then show ?thesis using r by (metis append_Cons)
    next
      case False
      then show ?thesis using 2 by (auto split: if_splits list.splits)
    qed
  qed simp
  show ?thesis
  proof (cases "string_len 0 t")
    case (Inl f)
    then obtain u where "t = u @ [BSL]" "f = OutOfBounds" using ends by blast
    then show ?thesis using s Inl by auto
  next
    case (Inr m)
    have "length (fst (unescape t)) \<le> m" using unescape_fits [OF Inr] by simp
    then show ?thesis using s Inr by (cases "unescape t") (simp add: parse_string_def starts_def)
  qed
qed (simp add: parse_string_def)

end
