(* ===== verification/EslEventJson.thy ===== *)
theory EslEventJson
  imports EslSerialize EslJson
begin

text \<open>
  Events as JSON (\<^verbatim>\<open>esl_event_serialize_json\<close> and \<^verbatim>\<open>esl_event_create_json\<close> of
  \<^verbatim>\<open>esl/esl_event.c\<close>): an object with one member per header, an array for an array header, and
  members for the body and its length. The reader passes the text of the body to
  \<^verbatim>\<open>esl_event_add_body\<close> as its format, followed by the arguments of \<^verbatim>\<open>ESL_VA_NONE\<close>.
\<close>

section \<open>Writing\<close>

definition json_header :: "'d double_ops \<Rightarrow> esl_event_header \<Rightarrow> 'd cJSON" where
  "json_header F hp =
     (if hdr_array hp \<noteq> []
      then fold (\<lambda>a arr. cJSON_AddItemToArray arr (Some (cJSON_CreateString F (Some a)))) (hdr_array hp)
             (cJSON_CreateArray F)
      else cJSON_CreateString F (hdr_value hp))"

definition event_json :: "'d double_ops \<Rightarrow> esl_event \<Rightarrow> 'd cJSON" where
  "event_json F ev =
     (let cj = fold (\<lambda>hp c. cJSON_AddItemToObject c (Some (hdr_name hp)) (Some (json_header F hp)))
                 (ev_headers ev) (cJSON_CreateObject F)
      in case ev_body ev of
           None \<Rightarrow> cj
         | Some b \<Rightarrow>
             let tmp = snprintf_text (25 - 1) (dec_digits (length b))
             in cJSON_AddItemToObject
                  (cJSON_AddItemToObject cj (Some ''Content-Length'') (Some (cJSON_CreateString F (Some tmp))))
                  (Some ''_body'') (Some (cJSON_CreateString F (Some b))))"

definition esl_event_serialize_json :: "'d double_ops \<Rightarrow> esl_event \<Rightarrow> string c_result" where
  "esl_event_serialize_json F ev = cJSON_Print F (event_json F ev)"

section \<open>Reading\<close>

text \<open>
  The part of \<^verbatim>\<open>printf\<close> the body can meet: plain text, \<^verbatim>\<open>%%\<close>, and \<^verbatim>\<open>%s\<close> with the string arguments
  that are there. Every other conversion, and one argument too many, counts as a fault.
\<close>

fun c_printf :: "string list \<Rightarrow> string \<Rightarrow> string c_result" where
  "c_printf args [] = Inr []"
| "c_printf args (c # r) =
     (if c \<noteq> CHR ''%'' then res_bind (c_printf args r) (\<lambda>t. Inr (c # t))
      else case r of
             [] \<Rightarrow> Inl OutOfBounds
           | d # r' \<Rightarrow>
               if d = CHR ''%'' then res_bind (c_printf args r') (\<lambda>t. Inr (d # t))
               else if d = CHR ''s'' then
                 (case args of
                    [] \<Rightarrow> Inl OutOfBounds
                  | a # args' \<Rightarrow> res_bind (c_printf args' r') (\<lambda>t. Inr (a @ t)))
               else Inl OutOfBounds)"

definition json_child :: "'d cJSON \<Rightarrow> esl_event \<Rightarrow> esl_event c_result" where
  "json_child cjp ev =
     (case cj_string cjp of
        None \<Rightarrow> Inr ev
      | Some name \<Rightarrow>
          (case cj_valuestring cjp of
             Some v \<Rightarrow>
               if strcaseeq name ''_body''
               then res_bind (c_printf [''%s'', []] v) (\<lambda>t. Inr (snd (esl_event_add_body ev (Some (Some t)))))
               else let ev1 = (if strcaseeq name ''event-name''
                               then (let e = esl_event_del_header ev ''event-name''
                                     in case esl_name_event v of None \<Rightarrow> e | Some t \<Rightarrow> e\<lparr>ev_id := t\<rparr>)
                               else ev)
                    in Inr (add_string ESL_STACK_BOTTOM name (Some v) ev1)
           | None \<Rightarrow>
               if cj_type cjp = JArray
               then Inr (fold (\<lambda>i e. case cJSON_GetArrayItem cjp (int i) of
                                       None \<Rightarrow> e
                                     | Some item \<Rightarrow>
                                         if cj_type item = JString \<and> cj_valuestring item \<noteq> None
                                         then add_string ESL_STACK_PUSH name (cj_valuestring item) e else e)
                           [0..<cJSON_GetArraySize cjp] ev)
               else Inr ev))"

fun json_children :: "'d cJSON list \<Rightarrow> esl_event \<Rightarrow> esl_event c_result" where
  "json_children [] ev = Inr ev"
| "json_children (c # cs) ev = res_bind (json_child c ev) (json_children cs)"

text \<open>
  A text that cannot be parsed is answered with \<open>ESL_FALSE\<close>, which is the number of
  \<open>ESL_SUCCESS\<close>, and no event.
\<close>

definition esl_event_create_json ::
  "'d double_ops \<Rightarrow> string \<Rightarrow> (esl_status \<times> esl_event option) c_result" where
  "esl_event_create_json F json =
     res_bind (cJSON_Parse F json) (\<lambda>cj.
       case cj of
         None \<Rightarrow> Inr (ESL_SUCCESS, None)
       | Some c \<Rightarrow>
           res_bind (esl_event_create_subclass ESL_EVENT_CLONE None) (\<lambda>(st, e).
             case e of
               None \<Rightarrow> Inr (ESL_SUCCESS, None)
             | Some ev \<Rightarrow> res_bind (json_children (cj_child c) ev) (\<lambda>ev'. Inr (ESL_SUCCESS, Some ev'))))"

section \<open>What is written is read back\<close>

definition string_item :: "'d double_ops \<Rightarrow> string option \<Rightarrow> string \<Rightarrow> 'd cJSON" where
  "string_item F name v = Item JString (Some v) 0 (dbl_of_int F 0) name []"

definition header_item :: "'d double_ops \<Rightarrow> esl_event_header \<Rightarrow> 'd cJSON" where
  "header_item F h =
     (if hdr_array h \<noteq> []
      then Item JArray None 0 (dbl_of_int F 0) (Some (hdr_name h)) (map (string_item F None) (hdr_array h))
      else string_item F (Some (hdr_name h)) (case hdr_value h of None \<Rightarrow> [] | Some v \<Rightarrow> v))"

lemma fold_add_to_array:
  "fold (\<lambda>a arr. cJSON_AddItemToArray arr (Some (g a))) xs (Item t vs vi vd s ch) =
     Item t vs vi vd s (ch @ map g xs)"
  by (induction xs arbitrary: ch) (simp_all add: cJSON_AddItemToArray_def)

lemma json_header_item: "set_string (Some (hdr_name h)) (json_header F h) = header_item F h"
  by (simp add: json_header_def header_item_def cJSON_CreateArray_def cJSON_New_Item_def fold_add_to_array
      cJSON_CreateString_def string_item_def)

lemma fold_add_to_object:
  "fold (\<lambda>hp c. cJSON_AddItemToObject c (Some (hdr_name hp)) (Some (json_header F hp))) hs (Item t vs vi vd s ch) =
     Item t vs vi vd s (ch @ map (header_item F) hs)"
  by (induction hs arbitrary: ch)
     (simp_all add: cJSON_AddItemToObject_def cJSON_AddItemToArray_def json_header_item)

definition body_items :: "'d double_ops \<Rightarrow> string option \<Rightarrow> 'd cJSON list" where
  "body_items F body =
     (case body of
        None \<Rightarrow> []
      | Some b \<Rightarrow> [string_item F (Some ''Content-Length'') (snprintf_text 24 (dec_digits (length b))),
                   string_item F (Some ''_body'') b])"

lemma event_json_item:
  "event_json F ev =
     Item JObject None 0 (dbl_of_int F 0) None (map (header_item F) (ev_headers ev) @ body_items F (ev_body ev))"
proof -
  have "fold (\<lambda>hp c. cJSON_AddItemToObject c (Some (hdr_name hp)) (Some (json_header F hp))) (ev_headers ev)
          (cJSON_CreateObject F) =
        Item JObject None 0 (dbl_of_int F 0) None (map (header_item F) (ev_headers ev))"
    unfolding cJSON_CreateObject_def cJSON_New_Item_def by (simp only: fold_add_to_object cJSON.sel set_type.simps append_Nil)
  then show ?thesis
    by (simp add: event_json_def body_items_def cJSON_AddItemToObject_def cJSON_AddItemToArray_def
        cJSON_CreateString_def cJSON_New_Item_def string_item_def Let_def split: option.split)
qed

definition header_text_ok :: "esl_event_header \<Rightarrow> bool" where
  "header_text_ok h \<longleftrightarrow>
     cstring (hdr_name h) \<and> list_all cstring (hdr_array h) \<and>
     (case hdr_value h of None \<Rightarrow> True | Some v \<Rightarrow> cstring v)"

lemma string_item_tree: "cstring v \<Longrightarrow> tree_item F (string_item F n v)"
  by (simp add: string_item_def)

lemma header_item_tree: "header_text_ok h \<Longrightarrow> tree_item F (header_item F h)"
  by (auto simp: header_item_def header_text_ok_def string_item_def list_all_iff split: option.split)

lemma string_item_name [simp]: "cj_string (string_item F n v) = n"
  by (simp add: string_item_def)

lemma header_item_name [simp]: "cj_string (header_item F h) = Some (hdr_name h)"
  by (simp add: header_item_def)

lemma event_json_tree:
  assumes "\<forall>h \<in> set (ev_headers ev). header_text_ok h" "case ev_body ev of None \<Rightarrow> True | Some b \<Rightarrow> cstring b"
  shows "tree_item F (event_json F ev)"
proof -
  have "\<forall>c \<in> set (body_items F (ev_body ev)). tree_item F c \<and> (\<exists>n. cj_string c = Some n \<and> cstring n)"
    using assms(2) by (auto simp: body_items_def snprintf_text_def string_item_tree cstring_take split: option.splits)
  then show ?thesis using assms(1)
    by (fastforce simp: event_json_item list_all_iff header_item_tree header_text_ok_def split: option.split)
qed

text \<open>Reading one member appends the header it was made from.\<close>

definition json_id :: "esl_event_type \<Rightarrow> esl_event_header \<Rightarrow> esl_event_type" where
  "json_id i h =
     (if hdr_array h = [] \<and> strcaseeq (hdr_name h) ''event-name''
      then (case Option.bind (hdr_value h) esl_name_event of None \<Rightarrow> i | Some t \<Rightarrow> t) else i)"

lemma push_elems:
  "fold (\<lambda>i e. case cJSON_GetArrayItem (Item JArray vs vi vd nm (map (string_item F None) arr)) (int i) of
            None \<Rightarrow> e
          | Some item \<Rightarrow> if cj_type item = JString \<and> cj_valuestring item \<noteq> None
                         then add_string ESL_STACK_PUSH n (cj_valuestring item) e else e)
     [0..<length arr] ev = fold (\<lambda>a. add_string ESL_STACK_PUSH n (Some a)) arr ev"
proof -
  have "fold (\<lambda>i e. case cJSON_GetArrayItem (Item JArray vs vi vd nm (map (string_item F None) arr)) (int i) of
            None \<Rightarrow> e
          | Some item \<Rightarrow> if cj_type item = JString \<and> cj_valuestring item \<noteq> None
                         then add_string ESL_STACK_PUSH n (cj_valuestring item) e else e)
     [0..<length arr] ev =
     fold (\<lambda>i e. add_string ESL_STACK_PUSH n (Some (arr ! i)) e) [0..<length arr] ev"
    by (rule fold_cong) (auto simp: cJSON_GetArrayItem_def string_item_def Cons_nth_drop_Suc [symmetric] drop_map)
  also have "\<dots> = fold (\<lambda>a. add_string ESL_STACK_PUSH n (Some a)) (map (\<lambda>i. arr ! i) [0..<length arr]) ev"
    by (simp only: fold_map o_def)
  finally show ?thesis by (simp only: map_nth)
qed

lemma json_child_plain:
  assumes "event_inv ev" "header_plain h" "\<not> strcaseeq (hdr_name h) ''_body''"
    and "hdr_array h \<noteq> [] \<longrightarrow> list_all (\<lambda>g. \<not> header_named (hdr_name h) g) (ev_headers ev)"
    and "strcaseeq (hdr_name h) ''event-name'' \<longrightarrow> list_all (\<lambda>g. \<not> header_named ''event-name'' g) (ev_headers ev)"
  shows "json_child (header_item F h) ev =
           Inr (ev\<lparr>ev_headers := ev_headers ev @ [h], ev_id := json_id (ev_id ev) h\<rparr>)"
proof -
  have copy: "copy_header h ev = ev\<lparr>ev_headers := ev_headers ev @ [h]\<rparr>"
    by (rule copy_header_plain [OF assms(1,2,4)])
  show ?thesis
  proof (cases "hdr_array h = []")
    case False
    then have "json_child (header_item F h) ev = Inr (fold (\<lambda>a. add_string ESL_STACK_PUSH (hdr_name h) (Some a)) (hdr_array h) ev)"
      using push_elems [where vs = None and vi = 0 and vd = "dbl_of_int F 0" and nm = "Some (hdr_name h)" and F = F
          and arr = "hdr_array h" and n = "hdr_name h" and ev = ev]
      by (simp add: json_child_def header_item_def cJSON_GetArraySize_def)
    then show ?thesis using copy False by (simp add: copy_header_def json_id_def)
  next
    case True
    then obtain v where v: "hdr_value h = Some v" "plain_name (hdr_name h)" "plain_value v"
      using assms(2) by (auto simp: header_plain_def split: option.splits)
    have add: "add_string ESL_STACK_BOTTOM (hdr_name h) (Some v) ev = ev\<lparr>ev_headers := ev_headers ev @ [h]\<rparr>"
      using copy True v(1) by (simp add: copy_header_def)
    have h: "named_header (hdr_name h) v [] = h"
      using arg_cong [OF add, of ev_headers] v(2,3) assms(1)
      by (simp add: esl_event_add_header_string_def base_add_bottom event_inv_def)
    have "add_string ESL_STACK_BOTTOM (hdr_name h) (Some v) (ev\<lparr>ev_id := i\<rparr>) =
        ev\<lparr>ev_headers := ev_headers ev @ [h], ev_id := i\<rparr>" for i
      using h v(2,3) assms(1) by (simp add: esl_event_add_header_string_def base_add_bottom event_inv_def)
    moreover have "esl_event_del_header ev ''event-name'' = ev" if "strcaseeq (hdr_name h) ''event-name''"
    proof -
      have "filter (\<lambda>g. \<not> header_named ''event-name'' g) (ev_headers ev) = ev_headers ev"
        using assms(5) that by (simp add: list_all_iff)
      then show ?thesis using assms(1) by (simp add: del_header_filter event_inv_def)
    qed
    moreover have "ev\<lparr>ev_headers := hs, ev_id := ev_id ev\<rparr> = ev\<lparr>ev_headers := hs\<rparr>" for hs
      by (cases ev) simp
    ultimately show ?thesis using True v(1) assms(3) add
      by (auto simp: json_child_def header_item_def string_item_def json_id_def Let_def split: option.split)
  qed
qed

fun json_copyable :: "esl_event_header list \<Rightarrow> esl_event_header list \<Rightarrow> bool" where
  "json_copyable seen [] = True"
| "json_copyable seen (h # hs) =
     (header_text_ok h \<and> \<not> strcaseeq (hdr_name h) ''_body'' \<and>
      (strcaseeq (hdr_name h) ''event-name'' \<longrightarrow> list_all (\<lambda>g. \<not> header_named ''event-name'' g) seen) \<and>
      json_copyable (seen @ [h]) hs)"

lemma json_children_plain:
  "event_inv ev \<Longrightarrow> copyable (ev_headers ev) hs \<Longrightarrow> json_copyable (ev_headers ev) hs \<Longrightarrow>
   json_children (map (header_item F) hs @ cs) ev =
     json_children cs (ev\<lparr>ev_headers := ev_headers ev @ hs, ev_id := foldl json_id (ev_id ev) hs\<rparr>)"
proof (induction hs arbitrary: ev)
  case Nil
  then show ?case by (cases ev) simp
next
  case (Cons h hs)
  let ?ev = "ev\<lparr>ev_headers := ev_headers ev @ [h], ev_id := json_id (ev_id ev) h\<rparr>"
  have h: "json_child (header_item F h) ev = Inr ?ev"
    using Cons.prems by (intro json_child_plain) auto
  have "event_inv ?ev" using Cons.prems(1,2)
    by (auto simp: event_inv_def event_wf_def header_plain_def)
  then have "json_children (map (header_item F) hs @ cs) ?ev =
      json_children cs (?ev\<lparr>ev_headers := ev_headers ?ev @ hs, ev_id := foldl json_id (ev_id ?ev) hs\<rparr>)"
    using Cons.prems by (intro Cons.IH) auto
  then show ?case using h by simp
qed

lemma c_printf_plain: "CHR ''%'' \<notin> set s \<Longrightarrow> c_printf args s = Inr s"
  by (induction s arbitrary: args) (auto split: list.split)

lemma c_printf_nil: "c_printf args [] = Inr []"
  by simp

lemma json_copyable_text: "json_copyable seen hs \<Longrightarrow> \<forall>h \<in> set hs. header_text_ok h"
  by (induction hs arbitrary: seen) auto

section \<open>Properties\<close>


definition wit_json_event :: esl_event where
  "wit_json_event = empty_event\<lparr>ev_headers := [named_header ''Event-Name'' ''DTMF'' [],
     named_header ''v'' ''ARRAY::a|:b'' [''a'', ''b'']], ev_body := Some ''hi''\<rparr>"


text \<open>
  The body member is used as a format: a body with a percent sign is not read back. One
  \<^verbatim>\<open>%s\<close> becomes the text \<^verbatim>\<open>%s\<close> again by chance, a second one vanishes, a third one reads an
  argument that was never passed.
\<close>

theorem event_json_body_is_format:
  "json_child (string_item unit_ops (Some ''_body'') ''%s%s'') empty_event = Inr (empty_event\<lparr>ev_body := Some ''%s''\<rparr>) \<and>
   json_child (string_item unit_ops (Some ''_body'') ''%s%s%s'') empty_event = Inl OutOfBounds \<and>
   json_child (string_item unit_ops (Some ''_body'') ''100%%'') empty_event = Inr (empty_event\<lparr>ev_body := Some ''100%''\<rparr>)"
  by (simp add: json_child_def string_item_def esl_event_add_body_def)

end
