(* ===== verification/EslPacket.thy ===== *)
theory EslPacket
  imports EslSerialize EslEventJson
begin

text \<open>
  The text of a message on the event socket, and how \<^verbatim>\<open>esl_recv_event\<close> of \<^verbatim>\<open>esl/esl.c\<close> reads it:
  the header lines of the message, and the header lines of an event inside a message of the
  type \<^verbatim>\<open>text/event-plain\<close>. The code parses in place, writing NULs over the separators; the
  functions here take the text that is left.
\<close>

section \<open>Reading header lines\<close>

text \<open>A header that was read is added as an array when its value says so.\<close>

definition recv_header :: "string \<Rightarrow> string \<Rightarrow> esl_event \<Rightarrow> esl_event" where
  "recv_header hname hval ev =
     (if prefix ''ARRAY::'' hval then snd (esl_event_add_array ev hname hval)
      else add_string ESL_STACK_BOTTOM hname (Some hval) ev)"

lemma strchr_suffix: "strchr s c = Some t \<Longrightarrow> length t \<le> length s \<and> 0 < length t"
  by (induction s) (auto split: if_splits)

text \<open>
  The lines of the message. A name ends at the next colon, wherever it is; a header without a
  line end is dropped; line feeds and carriage returns behind a header are skipped.
\<close>

function recv_headers :: "string \<Rightarrow> esl_event \<Rightarrow> esl_event" where
  "recv_headers p ev =
     (case strchr p CHR '':'' of
        None \<Rightarrow> ev
      | Some q \<Rightarrow>
          let hval = dropWhile (\<lambda>c. c = CHR '' '' \<or> c = TAB) (tl q)
          in case strchr hval LF of
               None \<Rightarrow> ev
             | Some e \<Rightarrow>
                 recv_headers (dropWhile (\<lambda>c. c = LF \<or> c = CR) (tl e))
                   (recv_header (before_chr p CHR '':'') (esl_url_decode (before_chr hval LF)) ev))"
  by pat_completeness auto
termination
proof (relation "measure (\<lambda>(p, ev). length p)", goal_cases)
  case (2 p ev q hval e)
  have "length (dropWhile (\<lambda>c. c = LF \<or> c = CR) (tl e)) \<le> length (tl e)" by (rule length_dropWhile_le)
  moreover have "length hval \<le> length (tl q)" unfolding 2(2) by (rule length_dropWhile_le)
  moreover have "length (tl q) < length p" "length (tl e) < length hval"
    using strchr_suffix [OF 2(1)] strchr_suffix [OF 2(3)] unfolding length_tl by arith+
  ultimately show ?case by simp
qed simp

declare recv_headers.simps [simp del]

text \<open>
  The lines of the inner event. The colon is looked for in all the text that is left: when it
  is in a later line, the name is this line, the value is everything behind the colon, and
  the text ends before the colon. An empty line ends the headers; what is left then is the body.
\<close>

definition inner_pair :: "string \<Rightarrow> (string \<times> string) option" where
  "inner_pair beg =
     (case strchr beg CHR '':'' of
        None \<Rightarrow> None
      | Some col \<Rightarrow>
          let hval = dropWhile (\<lambda>c. c = CHR '' '') (tl col)
          in Some (if CHR '':'' \<in> set (before_chr beg LF)
                   then (before_chr beg CHR '':'', esl_url_decode (before_chr hval LF))
                   else (before_chr beg LF, esl_url_decode hval)))"

definition inner_next :: "string \<Rightarrow> string \<Rightarrow> string" where
  "inner_next beg c = (if CHR '':'' \<in> set (before_chr beg LF) then tl c else before_chr (tl c) CHR '':'')"

definition inner_header :: "string \<Rightarrow> string \<Rightarrow> esl_event \<Rightarrow> esl_event" where
  "inner_header hname hval ev =
     recv_header hname hval
       (if strcaseeq hname ''event-name''
        then (let e = esl_event_del_header ev ''event-name''
              in case esl_name_event hval of None \<Rightarrow> e | Some t \<Rightarrow> e\<lparr>ev_id := t\<rparr>)
        else ev)"

function inner_headers :: "string \<Rightarrow> esl_event \<Rightarrow> esl_event \<times> string" where
  "inner_headers beg ev =
     (case strchr beg LF of
        None \<Rightarrow> (ev, beg)
      | Some c \<Rightarrow>
          let ev' = (case inner_pair beg of None \<Rightarrow> ev | Some (hname, hval) \<Rightarrow> inner_header hname hval ev);
              next_beg = inner_next beg c
          in if prefix [LF] next_beg then (ev', tl next_beg) else inner_headers next_beg ev')"
  by pat_completeness auto
termination
proof (relation "measure (\<lambda>(beg, ev). length beg)", goal_cases)
  case (2 beg ev c x y)
  have "length (before_chr (tl c) CHR '':'') \<le> length (tl c)"
    unfolding before_chr_def by (rule length_takeWhile_le)
  then have "length (inner_next beg c) \<le> length (tl c)" by (simp add: inner_next_def)
  then show ?case using strchr_suffix [OF 2(1)] 2(3) by (cases c) auto
qed simp

declare inner_headers.simps [simp del]

definition inner_event :: "string \<Rightarrow> esl_event" where
  "inner_event body =
     (case inner_headers body empty_event of (ev, beg) \<Rightarrow>
        if esl_event_get_header ev ''content-length'' \<noteq> None then ev\<lparr>ev_body := Some beg\<rparr> else ev)"

section \<open>Reading what the serializer writes\<close>

text \<open>
  The headers that survive the way over the wire: a name that is one word of the line format, and
  a value that is encoded into one; an array has at least two elements, which are free of
  the separator, and its header has no earlier namesake.
\<close>

definition wire_name :: "string \<Rightarrow> bool" where
  "wire_name n \<longleftrightarrow> plain_name n \<and> CHR '':'' \<notin> set n \<and> LF \<notin> set n \<and> \<not> prefix [CR] n"

definition wire_header :: "esl_event_header \<Rightarrow> bool" where
  "wire_header h \<longleftrightarrow>
     header_plain h \<and> wire_name (hdr_name h) \<and> ser_plain True h \<and>
     (case hdr_value h of None \<Rightarrow> False | Some v \<Rightarrow> cstring v) \<and>
     (hdr_array h \<noteq> [] \<longrightarrow> 2 \<le> length (hdr_array h) \<and> (\<forall>x \<in> set (hdr_array h). \<not> sublist ''|:'' x))"

definition wire_safe :: "char \<Rightarrow> bool" where
  "wire_safe c \<longleftrightarrow> 32 < byte_of c \<and> byte_of c < 127 \<and> c \<noteq> CHR '':''"

lemma url_hex_safe: "n < 16 \<Longrightarrow> wire_safe (url_hex ! n)"
proof -
  assume "n < 16"
  moreover have "list_all (\<lambda>n. wire_safe (url_hex ! n)) [0..<16]"
    by (simp add: upt_rec url_hex_def wire_safe_def byte_of_def)
  ultimately show ?thesis by (auto simp: list_all_iff)
qed

lemma enc_char_safe: "byte_of c < 128 \<Longrightarrow> x \<in> set (url_enc_char c) \<Longrightarrow> wire_safe x"
proof -
  assume c: "byte_of c < 128" and x: "x \<in> set (url_enc_char c)"
  show "wire_safe x"
  proof (cases "url_is_unsafe c")
    case True
    have "wire_safe CHR ''%''" by (simp add: wire_safe_def byte_of_def)
    then show ?thesis using True x c url_hex_safe [of "byte_of c div 16"] url_hex_safe [of "byte_of c mod 16"]
      by (auto simp: url_enc_char_def)
  next
    case False
    then have xc: "x = c" "c \<noteq> CHR '':''" "c \<noteq> CHR '' ''"
      using x by (auto simp: url_enc_char_def url_is_unsafe_def urlunsafe_def)
    then have "byte_of c \<noteq> 32" using byte_of_inject [of c "CHR '' ''"] by (simp add: byte_of_def)
    then show ?thesis using False c xc
      by (auto simp: wire_safe_def url_is_unsafe_def schar_def byte_of_def split: if_splits)
  qed
qed

lemma enc_safe: "ascii v \<Longrightarrow> x \<in> set (concat (map url_enc_char v)) \<Longrightarrow> wire_safe x"
  using enc_char_safe by (auto simp: ascii_def)


lemma wire_safe_plain [simp]:
  "wire_safe c \<Longrightarrow> c \<noteq> LF \<and> c \<noteq> CR \<and> c \<noteq> NUL \<and> c \<noteq> CHR '' '' \<and> c \<noteq> TAB \<and> c \<noteq> CHR '':''"
  by (auto simp: wire_safe_def byte_of_def)

lemma strchr_skip: "c \<notin> set a \<Longrightarrow> strchr (a @ c # r) c = Some (c # r)"
  by (induction a) auto

lemma before_skip: "c \<notin> set a \<Longrightarrow> before_chr (a @ c # r) c = a"
  by (induction a) (auto simp: before_chr_def)

lemma dropWhile_stop: "xs \<noteq> [] \<Longrightarrow> \<not> P (hd xs) \<Longrightarrow> dropWhile P (xs @ ys) = xs @ ys"
  by (cases xs) auto

text \<open>One line is read back as the header it was written for.\<close>

lemma recv_header_wire:
  assumes "event_inv ev" "wire_header h" "hdr_value h = Some v"
    and "hdr_array h \<noteq> [] \<longrightarrow> list_all (\<lambda>g. \<not> header_named (hdr_name h) g) (ev_headers ev)"
  shows "recv_header (hdr_name h) v ev = ev\<lparr>ev_headers := ev_headers ev @ [h]\<rparr>"
proof (cases "hdr_array h = []")
  case True
  then have v: "plain_value v" "plain_name (hdr_name h)" "named_header (hdr_name h) v [] = h"
    using assms(2,3) named_header_id [of h v] by (auto simp: wire_header_def header_plain_def)
  then have "\<not> prefix ''ARRAY::'' v" by (auto simp: plain_value_def)
  then show ?thesis using v assms(1)
    by (simp add: recv_header_def esl_event_add_header_string_def base_add_bottom event_inv_def)
next
  case False
  then have v: "v = array_value (hdr_array h)" "plain_name (hdr_name h)" "plain_value (hd (hdr_array h))"
      "2 \<le> length (hdr_array h)" "\<forall>x \<in> set (hdr_array h). \<not> sublist ''|:'' x"
      "named_header (hdr_name h) v (hdr_array h) = h"
    using assms(2,3) named_header_id [of h v] by (auto simp: wire_header_def header_plain_def)
  have "prefix ''ARRAY::'' v" using v(1,4) by (simp add: array_value_def)
  moreover have "header_at ev (hdr_name h) = None"
    using assms(4) False by (simp add: header_at_None_list list_all_iff)
  ultimately show ?thesis
    using add_array_pieces [OF assms(1) v(2,4,3) _ v(5)] v(1,6) by (simp add: recv_header_def)
qed

lemma wire_line:
  assumes "wire_header h" "hdr_value h = Some v" "\<not> prefix [LF] rest" "\<not> prefix [CR] rest"
  shows "recv_headers (ser_line True h @ rest) ev = recv_headers rest (recv_header (hdr_name h) v ev)"
    and "recv_headers (ser_line True h @ [LF]) ev = recv_headers [] (recv_header (hdr_name h) v ev)"
proof -
  have v: "ascii v" "v \<noteq> []" "cstring v" and n: "CHR '':'' \<notin> set (hdr_name h)"
    using assms(1,2) by (auto simp: wire_header_def ser_plain_def wire_name_def split: option.splits)
  define enc where "enc = concat (map url_enc_char v)"
  have enc: "enc \<noteq> []" "\<forall>x \<in> set enc. wire_safe x"
    using v ser_value_nonempty [of v True] enc_safe [of v] by (auto simp: enc_def ser_value_def)
  have dec: "esl_url_decode enc = v" using v by (simp add: enc_def esl_url_decode_def url_decode_enc c_str_id)
  have hd: "wire_safe (hd enc)" using enc by (cases enc) auto
  have lf: "LF \<notin> set enc" using enc(2) wire_safe_plain by blast
  have run: "recv_headers (ser_line True h @ rest') ev =
      recv_headers (dropWhile (\<lambda>c. c = LF \<or> c = CR) rest') (recv_header (hdr_name h) v ev)" for rest'
  proof -
    have line: "ser_line True h @ rest' = hdr_name h @ CHR '':'' # CHR '' '' # enc @ LF # rest'"
      using assms(2) by (simp add: ser_line_def ser_value_def enc_def)
    have skip: "dropWhile (\<lambda>c. c = CHR '' '' \<or> c = TAB) (CHR '' '' # enc @ LF # rest') = enc @ LF # rest'"
      using hd enc(1) by (simp add: dropWhile_stop)
    show ?thesis
      unfolding line using n lf dec skip
      by (subst recv_headers.simps) (simp add: strchr_skip before_skip Let_def del: dropWhile.simps)
  qed
  show "recv_headers (ser_line True h @ rest) ev = recv_headers rest (recv_header (hdr_name h) v ev)"
    using run [of rest] assms(3,4) by (cases rest) auto
  show "recv_headers (ser_line True h @ [LF]) ev = recv_headers [] (recv_header (hdr_name h) v ev)"
    using run [of "[LF]"] by simp
qed


text \<open>
  All the headers of an event, and the one its reader starts with. The names seen so far
  are those of \<open>seen\<close>.
\<close>

fun wire_headers :: "esl_event_header list \<Rightarrow> esl_event_header list \<Rightarrow> bool" where
  "wire_headers seen [] = True"
| "wire_headers seen (h # hs) =
     (wire_header h \<and> (hdr_array h \<noteq> [] \<longrightarrow> list_all (\<lambda>g. \<not> header_named (hdr_name h) g) seen) \<and>
      wire_headers (seen @ [h]) hs)"

lemma wire_headers_append:
  "wire_headers seen (hs @ ks) \<longleftrightarrow> wire_headers seen hs \<and> wire_headers (seen @ hs) ks"
  by (induction hs arbitrary: seen) auto

lemma wire_headers_all: "wire_headers seen hs \<Longrightarrow> \<forall>h \<in> set hs. wire_header h"
  by (induction hs arbitrary: seen) auto

lemma ser_line_start:
  "wire_header h \<Longrightarrow> \<not> prefix [LF] (ser_line True h @ r) \<and> \<not> prefix [CR] (ser_line True h @ r)"
  by (cases "hdr_name h") (auto simp: wire_header_def wire_name_def ser_line_def)

lemma wire_headerE:
  assumes "wire_header h"
  obtains v where "hdr_value h = Some v"
  using assms by (auto simp: wire_header_def split: option.splits)

lemma recv_headers_wire:
  assumes "event_inv ev" "wire_headers (ev_headers ev) hs" "hs \<noteq> []"
  shows "recv_headers (concat (map (ser_line True) hs) @ [LF]) ev = ev\<lparr>ev_headers := ev_headers ev @ hs\<rparr>"
  using assms
proof (induction hs arbitrary: ev)
  case (Cons h hs)
  obtain v where v: "hdr_value h = Some v" using Cons.prems(2) by (auto elim: wire_headerE)
  have h: "wire_header h" "hdr_array h \<noteq> [] \<longrightarrow> list_all (\<lambda>g. \<not> header_named (hdr_name h) g) (ev_headers ev)"
    using Cons.prems(2) by auto
  let ?ev = "ev\<lparr>ev_headers := ev_headers ev @ [h]\<rparr>"
  have add: "recv_header (hdr_name h) v ev = ?ev" using recv_header_wire [OF Cons.prems(1) h(1) v h(2)] .
  have inv: "event_inv ?ev" using Cons.prems(1) h(1)
    by (auto simp: event_inv_def event_wf_def wire_header_def header_plain_def)
  show ?case
  proof (cases "hs = []")
    case True
    then show ?thesis using wire_line(2) [OF h(1) v, where ev = ev and rest = "[]"] add
      by (simp add: recv_headers.simps [of "[]"])
  next
    case False
    then obtain k ks where hs: "hs = k # ks" by (cases hs) auto
    have "wire_header k" using Cons.prems(2) hs by simp
    then have "recv_headers (ser_line True h @ (concat (map (ser_line True) hs) @ [LF])) ev =
        recv_headers (concat (map (ser_line True) hs) @ [LF]) ?ev"
      using ser_line_start [of k "concat (map (ser_line True) ks) @ [LF]"] wire_line(1) [OF h(1) v] add hs by simp
    also have "\<dots> = ?ev\<lparr>ev_headers := ev_headers ?ev @ hs\<rparr>"
      using Cons.prems(2) False inv by (intro Cons.IH) auto
    finally show ?thesis by simp
  qed
qed simp

text \<open>The lines form one packet: the first empty line is the one behind them.\<close>

lemma packet_end_skip: "LF \<notin> set a \<Longrightarrow> packet_end (a @ r) = map_option (\<lambda>k. length a + k) (packet_end r)"
  by (induction a) (cases "packet_end r"; auto)+

lemma ser_line_shape:
  assumes "wire_header h"
  obtains a where "ser_line True h = a @ [LF]" "LF \<notin> set a" "a \<noteq> []"
proof -
  obtain v where v: "hdr_value h = Some v" using assms by (rule wire_headerE)
  have "ascii v" using assms v by (auto simp: wire_header_def ser_plain_def)
  then have "LF \<notin> set (concat (map url_enc_char v))" using enc_safe wire_safe_plain by blast
  then have "LF \<notin> set (hdr_name h @ '': '' @ concat (map url_enc_char v))"
    using assms by (auto simp: wire_header_def wire_name_def)
  then show thesis using v that [of "hdr_name h @ '': '' @ concat (map url_enc_char v)"]
    by (simp add: ser_line_def ser_value_def)
qed

lemma packet_end_lines:
  "hs \<noteq> [] \<Longrightarrow> \<forall>h \<in> set hs. wire_header h \<Longrightarrow>
   packet_end (concat (map (ser_line True) hs) @ LF # rest) =
     Some (Suc (length (concat (map (ser_line True) hs))))"
proof (induction hs)
  case (Cons h hs)
  obtain a where a: "ser_line True h = a @ [LF]" "LF \<notin> set a"
    using Cons.prems(2) by (auto elim: ser_line_shape)
  show ?case
  proof (cases hs)
    case Nil
    then show ?thesis using a packet_end_skip [of a "LF # LF # rest"] by simp
  next
    case (Cons k ks)
    have k: "wire_header k" using Cons Cons.prems(2) by simp
    obtain b where b: "ser_line True k = b @ [LF]" "LF \<notin> set b" "b \<noteq> []"
      using k by (rule ser_line_shape)
    have "\<not> prefix [CR] b" using ser_line_start [OF k, of "[]"] b(1,3) by (cases b) auto
    then have "sep_after (concat (map (ser_line True) hs) @ LF # rest) = None"
      using b Cons by (cases b) (auto split: list.splits)
    then show ?thesis
      using a packet_end_skip [of a "LF # concat (map (ser_line True) hs) @ LF # rest"]
        Cons.IH Cons.prems Cons by simp
  qed
qed simp


section \<open>The event of a message\<close>

definition ESL_EVENT_SOCKET_DATA :: esl_event_type where "ESL_EVENT_SOCKET_DATA = 80"

definition socket_event :: esl_event where
  "socket_event =
     add_string ESL_STACK_BOTTOM ''Event-Name'' (Some ''SOCKET_DATA'') (empty_event\<lparr>ev_id := ESL_EVENT_SOCKET_DATA\<rparr>)"

definition packet_event :: "char list \<Rightarrow> esl_event" where
  "packet_event data = recv_headers (c_str data) socket_event"

lemma socket_event_eq:
  "socket_event = empty_event\<lparr>ev_id := 80, ev_headers := [named_header ''Event-Name'' ''SOCKET_DATA'' []]\<rparr>"
proof -
  have "plain_name ''Event-Name''" "plain_value ''SOCKET_DATA''"
    by (simp_all add: plain_name_def plain_value_def sublist_Cons_right)
  then show ?thesis
    by (simp add: socket_event_def esl_event_add_header_string_def base_add_bottom ESL_EVENT_SOCKET_DATA_def
        empty_event_def)
qed

lemma packet_event_wire:
  assumes "wire_headers (ev_headers socket_event) hs" "hs \<noteq> []"
    and "cstring (concat (map (ser_line True) hs))"
  shows "packet_event (concat (map (ser_line True) hs) @ [LF]) =
           socket_event\<lparr>ev_headers := ev_headers socket_event @ hs\<rparr>"
proof -
  have "event_inv socket_event" by (simp add: socket_event_eq event_inv_def event_wf_def empty_event_def)
  moreover have "c_str (concat (map (ser_line True) hs) @ [LF]) = concat (map (ser_line True) hs) @ [LF]"
    using assms(3) by (intro c_str_id) simp
  ultimately show ?thesis using recv_headers_wire assms(1,2) by (simp add: packet_event_def)
qed

section \<open>The event inside a message\<close>

lemma inner_line:
  assumes "wire_header h" "hdr_value h = Some v"
  shows "inner_headers (ser_line True h @ rest) ev =
    (let ev' = inner_header (hdr_name h) v ev
     in if prefix [LF] rest then (ev', tl rest) else inner_headers rest ev')"
proof -
  have v: "ascii v" "v \<noteq> []" "cstring v" and n: "CHR '':'' \<notin> set (hdr_name h)" "LF \<notin> set (hdr_name h)"
    using assms by (auto simp: wire_header_def ser_plain_def wire_name_def split: option.splits)
  define enc where "enc = concat (map url_enc_char v)"
  have enc: "enc \<noteq> []" "\<forall>x \<in> set enc. wire_safe x"
    using v ser_value_nonempty [of v True] enc_safe [of v] by (auto simp: enc_def ser_value_def)
  have dec: "esl_url_decode enc = v" using v by (simp add: enc_def esl_url_decode_def url_decode_enc c_str_id)
  have hd: "wire_safe (hd enc)" using enc by (cases enc) auto
  have lf: "LF \<notin> set enc" using enc(2) wire_safe_plain by blast
  define beg where "beg = ser_line True h @ rest"
  have beg1: "beg = hdr_name h @ CHR '':'' # CHR '' '' # enc @ LF # rest"
    and beg2: "beg = (hdr_name h @ '': '' @ enc) @ LF # rest"
    using assms(2) by (simp_all add: beg_def ser_line_def ser_value_def enc_def)
  have "LF \<notin> set (hdr_name h @ '': '' @ enc)" using n lf by auto
  then have nl: "strchr beg LF = Some (LF # rest)" "before_chr beg LF = hdr_name h @ '': '' @ enc"
    unfolding beg2 by (rule strchr_skip, rule before_skip)
  have col: "strchr beg CHR '':'' = Some (CHR '':'' # CHR '' '' # enc @ LF # rest)"
      "before_chr beg CHR '':'' = hdr_name h"
    unfolding beg1 using n(1) by (rule strchr_skip, rule before_skip)
  have skip: "dropWhile (\<lambda>c. c = CHR '' '') (CHR '' '' # enc @ LF # rest) = enc @ LF # rest"
    using hd enc(1) by (simp add: dropWhile_stop)
  have pair: "inner_pair beg = Some (hdr_name h, v)" "inner_next beg (LF # rest) = rest"
    using nl col skip lf dec
    by (simp_all add: inner_pair_def inner_next_def Let_def before_skip del: dropWhile.simps)
  show ?thesis
    unfolding beg_def [symmetric] using nl(1) pair
    by (subst inner_headers.simps) (simp add: Let_def)
qed

text \<open>At most one header names the event; it is not an array.\<close>

fun inner_wire :: "esl_event_header list \<Rightarrow> esl_event_header list \<Rightarrow> bool" where
  "inner_wire seen [] = True"
| "inner_wire seen (h # hs) =
     ((strcaseeq (hdr_name h) ''event-name'' \<longrightarrow>
        hdr_array h = [] \<and> list_all (\<lambda>g. \<not> header_named ''event-name'' g) seen) \<and>
      inner_wire (seen @ [h]) hs)"

lemma inner_header_wire:
  assumes "event_inv ev" "wire_header h" "hdr_value h = Some v"
    and "hdr_array h \<noteq> [] \<longrightarrow> list_all (\<lambda>g. \<not> header_named (hdr_name h) g) (ev_headers ev)"
    and "strcaseeq (hdr_name h) ''event-name'' \<longrightarrow>
      hdr_array h = [] \<and> list_all (\<lambda>g. \<not> header_named ''event-name'' g) (ev_headers ev)"
  shows "inner_header (hdr_name h) v ev =
    ev\<lparr>ev_headers := ev_headers ev @ [h], ev_id := json_id (ev_id ev) h\<rparr>"
proof (cases "strcaseeq (hdr_name h) ''event-name''")
  case False
  have "ev\<lparr>ev_headers := hs, ev_id := ev_id ev\<rparr> = ev\<lparr>ev_headers := hs\<rparr>" for hs
    by (cases ev) simp
  then show ?thesis using recv_header_wire [OF assms(1-4)] False by (simp add: inner_header_def json_id_def)
next
  case True
  have "filter (\<lambda>g. \<not> header_named ''event-name'' g) (ev_headers ev) = ev_headers ev"
    using assms(5) True by (simp add: list_all_iff)
  then have del: "esl_event_del_header ev ''event-name'' = ev"
    using assms(1) by (simp add: del_header_filter event_inv_def)
  have inv: "event_inv (ev\<lparr>ev_id := i\<rparr>)" for i using assms(1) by (simp add: event_inv_def event_wf_def)
  have add: "recv_header (hdr_name h) v (ev\<lparr>ev_id := i\<rparr>) = ev\<lparr>ev_headers := ev_headers ev @ [h], ev_id := i\<rparr>" for i
    using recv_header_wire [OF inv assms(2,3), of i] assms(4) by simp
  have id: "ev\<lparr>ev_id := ev_id ev\<rparr> = ev" by (cases ev) simp
  show ?thesis using True del add add [of "ev_id ev", unfolded id] assms(3,5)
    by (simp add: inner_header_def json_id_def Let_def split: option.split)
qed

lemma inner_headers_wire:
  assumes "event_inv ev" "wire_headers (ev_headers ev) hs" "inner_wire (ev_headers ev) hs" "hs \<noteq> []"
  shows "inner_headers (concat (map (ser_line True) hs) @ LF # body) ev =
    (ev\<lparr>ev_headers := ev_headers ev @ hs, ev_id := foldl json_id (ev_id ev) hs\<rparr>, body)"
  using assms
proof (induction hs arbitrary: ev)
  case (Cons h hs)
  obtain v where v: "hdr_value h = Some v" using Cons.prems(2) by (auto elim: wire_headerE)
  let ?ev = "ev\<lparr>ev_headers := ev_headers ev @ [h], ev_id := json_id (ev_id ev) h\<rparr>"
  have h: "wire_header h" "inner_header (hdr_name h) v ev = ?ev"
    using Cons.prems v by (auto intro: inner_header_wire)
  have inv: "event_inv ?ev" using Cons.prems(1) h(1)
    by (auto simp: event_inv_def event_wf_def wire_header_def header_plain_def)
  note line = inner_line [OF h(1) v, of "concat (map (ser_line True) hs) @ LF # body" ev]
  show ?case
  proof (cases hs)
    case Nil
    then show ?thesis using line h(2) by (simp add: Let_def)
  next
    case C: (Cons k ks)
    have "wire_header k" using Cons.prems(2) C by simp
    then have "\<not> prefix [LF] (concat (map (ser_line True) hs) @ LF # body)"
      using ser_line_start [of k "concat (map (ser_line True) ks) @ LF # body"] C by simp
    moreover have "inner_headers (concat (map (ser_line True) hs) @ LF # body) ?ev =
        (?ev\<lparr>ev_headers := ev_headers ?ev @ hs, ev_id := foldl json_id (ev_id ?ev) hs\<rparr>, body)"
      using Cons.prems C inv by (intro Cons.IH) auto
    ultimately show ?thesis using line h(2) by (simp add: Let_def)
  qed
qed simp

section \<open>Whole messages\<close>

text \<open>The header lines of an event, the one for the length of its body included.\<close>

definition wire_lines :: "esl_event \<Rightarrow> esl_event_header list" where
  "wire_lines ev = ev_headers ev @
     (case ev_body ev of None \<Rightarrow> [] | Some b \<Rightarrow> [named_header ''Content-Length'' (dec_digits (length b)) []])"

text \<open>
  The events that are sent without loss, to be received behind the headers \<open>seen\<close>: there is a
  line, no other header is a length, a body is not empty.
\<close>

definition wire_event :: "esl_event_header list \<Rightarrow> esl_event \<Rightarrow> bool" where
  "wire_event seen ev \<longleftrightarrow>
     wire_headers seen (ev_headers ev) \<and> wire_lines ev \<noteq> [] \<and>
     (\<forall>h \<in> set (seen @ ev_headers ev). \<not> header_named ''content-length'' h) \<and>
     (\<forall>h \<in> set (ev_headers ev). ser_new_len h (the (hdr_value h)) < 2 ^ 64) \<and>
     (case ev_body ev of None \<Rightarrow> True | Some b \<Rightarrow> b \<noteq> [] \<and> cstring b \<and> length b < 100000)"

lemma dec_digits_safe: "\<forall>c \<in> set (dec_digits n). c_isdigit c"
  using dec_digits_all [of n] by (simp add: list_all_iff)

lemma wire_length_header:
  assumes "length b < 100000"
  shows "wire_header (named_header ''Content-Length'' (dec_digits (length b)) [])"
    "ser_line True (named_header ''Content-Length'' (dec_digits (length b)) []) =
       ''Content-Length: '' @ dec_digits (length b) @ [LF]"
proof -
  let ?d = "dec_digits (length b)"
  have d: "\<forall>c \<in> set ?d. 48 \<le> byte_of c \<and> byte_of c \<le> 57"
    using dec_digits_safe [of "length b"] by (simp add: c_isdigit_def)
  have "CHR ''A'' \<notin> set ?d" using d by (auto simp: byte_of_def)
  then have pv: "plain_value ?d" by (auto simp: plain_value_def sublist_def)
  have len: "length ?d \<le> 5" using assms by (intro dec_digits_length_less) auto
  have asc: "ascii ?d" using d by (auto simp: ascii_def)
  have cs: "cstring ?d" by simp
  have enc: "url_enc_char c = [c]" if "c \<in> set ?d" for c
  proof -
    have n: "48 \<le> byte_of c" "byte_of c \<le> 57" using that d by auto
    have "c \<notin> set urlunsafe" using n by (auto simp: urlunsafe_def byte_of_def)
    then show ?thesis using n
      by (auto simp: url_enc_char_def url_is_unsafe_def schar_def strchr_None_iff byte_of_def)
  qed
  then have "concat (map url_enc_char ?d) = ?d"
  proof -
    have "map url_enc_char ?d = map (\<lambda>c. [c]) ?d" using enc by simp
    then show ?thesis by (simp only: concat_map_singleton list.map_ident)
  qed
  then show "ser_line True (named_header ''Content-Length'' ?d []) = ''Content-Length: '' @ ?d @ [LF]"
    by (simp add: ser_line_def ser_value_def)
  show "wire_header (named_header ''Content-Length'' ?d [])"
    using pv len asc cs
    by (simp add: wire_header_def header_plain_def wire_name_def plain_name_def ser_plain_def plain_value_def)
qed

lemma serialize_wire:
  assumes "wire_event seen ev"
  shows "esl_event_serialize ev True =
    Inr (concat (map (ser_line True) (wire_lines ev)) @ LF # (case ev_body ev of None \<Rightarrow> [] | Some b \<Rightarrow> b))"
proof -
  have w: "\<forall>h \<in> set (ev_headers ev). wire_header h"
    using assms by (auto simp: wire_event_def dest: wire_headers_all)
  have "esl_event_serialize ev True =
      Inr (concat (map (ser_line True) (ev_headers ev)) @ ser_tail (ev_body ev))"
  proof (rule serialize_text)
    show "\<forall>h \<in> set (ev_headers ev). ser_plain True h \<and>
        ser_new_len h (case hdr_value h of None \<Rightarrow> [] | Some v \<Rightarrow> v) < 2 ^ 64"
    proof
      fix h assume h: "h \<in> set (ev_headers ev)"
      then obtain v where "hdr_value h = Some v" using w by (blast elim: wire_headerE)
      moreover have "ser_new_len h (the (hdr_value h)) < 2 ^ 64"
        using assms h unfolding wire_event_def by blast
      ultimately show "ser_plain True h \<and> ser_new_len h (case hdr_value h of None \<Rightarrow> [] | Some v \<Rightarrow> v) < 2 ^ 64"
        using w h by (simp add: wire_header_def)
    qed
  next
    show "case ev_body ev of None \<Rightarrow> True | Some b \<Rightarrow> length b < 100000"
      using assms by (auto simp: wire_event_def split: option.splits)
  qed
  then show ?thesis using assms
    by (auto simp: wire_event_def wire_lines_def ser_tail_def wire_length_header split: option.splits)
qed

lemma wire_lines_headers:
  assumes "wire_event seen ev"
  shows "wire_headers seen (wire_lines ev)" "wire_lines ev \<noteq> []"
  using assms
  by (auto simp: wire_event_def wire_lines_def wire_headers_append wire_length_header split: option.splits)

text \<open>The length is the first header of that name; without a body there is none.\<close>

lemma wire_content_length:
  assumes "wire_event seen ev" "event_wf e" "ev_headers e = seen @ wire_lines ev"
  shows "esl_event_get_header e ''content-length'' = map_option (\<lambda>b. dec_digits (length b)) (ev_body ev)"
proof -
  have n: "find (header_named ''content-length'') (seen @ ev_headers ev) = None"
    using assms(1) by (auto simp: wire_event_def find_None_iff)
  have "header_named ''content-length'' (named_header ''Content-Length'' v [])" for v
    by (simp add: header_named_def strcaseeq_def c_tolower_def char_eval)
  then have "header_lookup e ''content-length'' = map_option (\<lambda>b. dec_digits (length b)) (ev_body ev)"
    using assms(3) n by (simp add: header_lookup_def wire_lines_def find_append split: option.splits)
  then show ?thesis using assms(2) by (simp add: get_header_lookup split: option.split)
qed

lemma inner_event_wire:
  assumes "wire_event [] ev" "inner_wire [] (wire_lines ev)" "esl_event_serialize ev True = Inr t"
  shows "inner_event t = empty_event\<lparr>ev_headers := wire_lines ev,
    ev_id := foldl json_id 0 (wire_lines ev), ev_body := ev_body ev\<rparr>"
proof -
  define body where "body = (case ev_body ev of None \<Rightarrow> [] | Some b \<Rightarrow> b)"
  define e where "e = empty_event\<lparr>ev_headers := wire_lines ev, ev_id := foldl json_id 0 (wire_lines ev)\<rparr>"
  have t: "t = concat (map (ser_line True) (wire_lines ev)) @ LF # body"
    using serialize_wire [OF assms(1)] assms(3) by (simp add: body_def)
  have inv: "event_inv empty_event" by (rule event_inv_empty)
  have hs: "ev_headers empty_event = []" "ev_id empty_event = 0" by (simp_all add: empty_event_def)
  have run: "inner_headers t empty_event = (e, body)"
    using inner_headers_wire [OF inv, unfolded hs, OF wire_lines_headers(1) [OF assms(1)] assms(2)
        wire_lines_headers(2) [OF assms(1)], of body] t by (simp add: e_def)
  have "event_wf e"
    using wire_headers_all [OF wire_lines_headers(1) [OF assms(1)]]
    by (auto simp: e_def event_wf_def empty_event_def wire_header_def header_plain_def)
  then have "esl_event_get_header e ''content-length'' = map_option (\<lambda>b. dec_digits (length b)) (ev_body ev)"
    using assms(1) by (intro wire_content_length [where seen = "[]"]) (simp_all add: e_def)
  then show ?thesis using run
    by (cases "ev_body ev") (simp_all add: inner_event_def body_def e_def empty_event_def)
qed

section \<open>Properties\<close>

text \<open>
  C29. What one side serializes, the other side reads: the event inside a \<^verbatim>\<open>text/event-plain\<close>
  message is the event that was serialized into its body, with the same headers in the same
  order (arrays included), the identifier its event name stands for, and the same body.
\<close>

theorem inner_event_round_trip:
  assumes "wire_event [] ev" and "inner_wire [] (wire_lines ev)"
  shows "\<exists>t. esl_event_serialize ev True = Inr t \<and>
    inner_event t = empty_event\<lparr>ev_headers := wire_lines ev,
      ev_id := foldl json_id 0 (wire_lines ev), ev_body := ev_body ev\<rparr>"
  using serialize_wire [OF assms(1)] inner_event_wire [OF assms] by blast

definition wit_wire :: esl_event where
  "wit_wire = empty_event\<lparr>ev_headers := [named_header ''Event-Name'' ''DTMF'' [],
     named_header ''v'' ''ARRAY::a|:b'' [''a'', ''b'']], ev_body := Some ''hi''\<rparr>"

lemma wit_wire_event: "wire_event [] wit_wire" "inner_wire [] (wire_lines wit_wire)"
  by (simp_all add: wit_wire_def wire_event_def wire_header_def wire_lines_def header_plain_def plain_name_def
      plain_value_def sublist_Cons_right array_value_def wire_name_def ser_plain_def ser_new_len_def
      header_named_def strcaseeq_def c_tolower_def char_eval)

theorem inner_event_round_trip_witness:
  "\<exists>t. esl_event_serialize wit_wire True = Inr t \<and>
    inner_event t = empty_event\<lparr>ev_headers := wire_lines wit_wire,
      ev_id := foldl json_id 0 (wire_lines wit_wire), ev_body := ev_body wit_wire\<rparr>"
  by (rule inner_event_round_trip [OF wit_wire_event])

end
