(* ===== verification/IoMonad.thy ===== *)
theory IoMonad
  imports Prelude
begin

text \<open>
  Results of code that may wait for ever: \<open>None\<close> when it does not return, otherwise a fault or a value. Loops over
  such code are \<^theory_text>\<open>partial_function (option)\<close>, for which \<open>io_bind_mono\<close> is the rule of the sequence.
\<close>

type_synonym 'a io = "'a c_result option"

definition io_return :: "'a \<Rightarrow> 'a io" where
  "io_return x = Some (Inr x)"

definition io_bind :: "'a io \<Rightarrow> ('a \<Rightarrow> 'b io) \<Rightarrow> 'b io" where
  "io_bind m f =
     (case m of None \<Rightarrow> None | Some (Inl e) \<Rightarrow> Some (Inl e) | Some (Inr x) \<Rightarrow> f x)"

lemma io_bind_simps [simp]:
  "io_bind None f = None" "io_bind (Some (Inl e)) f = Some (Inl e)" "io_bind (Some (Inr x)) f = f x"
  "io_bind (io_return x) f = f x"
  by (simp_all add: io_bind_def io_return_def)

lemma io_bind_done [fault_simps]:
  "io_bind m f = Some (Inr y) \<longleftrightarrow> (\<exists>x. m = Some (Inr x) \<and> f x = Some (Inr y))"
  by (auto simp: io_bind_def split: option.split sum.split)

lemma io_return_eq [simp]: "io_return x = io_return y \<longleftrightarrow> x = y"
  by (simp add: io_return_def)

lemma io_bind_cong [fundef_cong]:
  "m = m' \<Longrightarrow> (\<And>x. m' = Some (Inr x) \<Longrightarrow> f x = g x) \<Longrightarrow> io_bind m f = io_bind m' g"
  by (auto simp: io_bind_def split: option.split sum.split)

lemma io_return_done [fault_simps]: "io_return x = Some (Inr y) \<longleftrightarrow> x = y"
  by (simp add: io_return_def)

definition io_map :: "('a \<Rightarrow> 'b) \<Rightarrow> 'a io \<Rightarrow> 'b io" where
  "io_map f m = io_bind m (\<lambda>x. io_return (f x))"

lemma io_map_simps [simp]:
  "io_map f (io_return x) = io_return (f x)" "io_map f None = None" "io_map f (Some (Inl e)) = Some (Inl e)"
  by (simp_all add: io_map_def)

lemma io_map_bind: "io_map f (io_bind m g) = io_bind m (\<lambda>x. io_map f (g x))"
  by (auto simp: io_map_def io_bind_def split: option.split sum.split)

lemma io_bind_map: "io_bind (io_map f m) g = io_bind m (\<lambda>x. g (f x))"
  by (auto simp: io_map_def io_bind_def io_return_def split: option.split sum.split)

text \<open>The least fixed points of loops.\<close>

lemma io_bind_mono [partial_function_mono]:
  fixes B :: "('x \<Rightarrow> 'y option) \<Rightarrow> 'a io" and C :: "'a \<Rightarrow> ('x \<Rightarrow> 'y option) \<Rightarrow> 'b io"
  assumes "mono_option B" "\<And>y. mono_option (\<lambda>f. C y f)"
  shows "mono_option (\<lambda>f. io_bind (B f) (\<lambda>y. C y f))"
proof (rule monotoneI)
  fix f g :: "'x \<Rightarrow> 'y option"
  assume fg: "option.le_fun f g"
  from assms(1) have 1: "option_ord (B f) (B g)" using fg unfolding monotone_def by blast
  have 2: "option_ord (C y f) (C y g)" for y using assms(2) [of y] fg unfolding monotone_def by blast
  show "option_ord (io_bind (B f) (\<lambda>y. C y f)) (io_bind (B g) (\<lambda>y. C y g))"
  proof (cases "B f")
    case (Some r)
    then have "B g = Some r" using 1 by (simp add: flat_ord_def)
    then show ?thesis using Some 2 by (cases r) (auto simp: flat_ord_def)
  qed (simp add: flat_ord_def)
qed

end
