(* ===== verification/EslHandle.thy ===== *)
theory EslHandle
  imports EslPacket EslEventJson IoMonad
begin

text \<open>
  The event socket of \<^verbatim>\<open>esl/esl.c\<close>: receiving messages into a handle, sending commands, the queue
  of events that arrive while a command waits for its reply, connecting and disconnecting; and
  the mutex of \<^verbatim>\<open>esl/esl_threadmutex.c\<close> a handle is guarded with.

  The operating system is a script of answers (record \<open>net\<close>) that the calls use up in order. A
  call that needs an answer the script does not have is still waiting: its result is \<open>None\<close>.
  The operations are those of one thread; what other threads do to the mutex shows in the
  answers of \<^verbatim>\<open>pthread_mutex_trylock\<close>.
\<close>

section \<open>The world outside\<close>

text \<open>
  \<^verbatim>\<open>poll\<close> fails, times out, or reports the socket readable, writable or in error (the first two
  only when they were asked for); \<^verbatim>\<open>recv\<close> delivers bytes (none when the peer has closed), would
  block, or fails. A missing answer of \<^verbatim>\<open>send\<close> or of a lock attempt means success. The rest are
  what was sent, the sockets that were closed, and the counter of \<^verbatim>\<open>esl_buffer.c\<close>.
\<close>

datatype poll_answer = PollFailed | PollTimeout | PollReady bool bool bool

datatype recv_answer = RecvBytes "char list" | RecvAgain | RecvFailed

record net =
  net_polls :: "poll_answer list"
  net_recvs :: "recv_answer list"
  net_sends :: "bool list"
  net_locks :: "bool list"
  net_out :: "string list"
  net_closed :: "int list"
  net_buffer_id :: "32 word"

definition poll_bits :: "bool \<Rightarrow> bool \<Rightarrow> poll_answer \<Rightarrow> int" where
  "poll_bits rd wr a =
     (case a of
        PollFailed \<Rightarrow> -1
      | PollTimeout \<Rightarrow> 0
      | PollReady i w e \<Rightarrow> (if rd \<and> i then 1 else 0) + (if wr \<and> w then 2 else 0) + (if e then 4 else 0))"

definition ESL_SOCK_INVALID :: int where "ESL_SOCK_INVALID = -1"

definition esl_wait_sock :: "int \<Rightarrow> bool \<Rightarrow> bool \<Rightarrow> net \<Rightarrow> (int \<times> net) io" where
  "esl_wait_sock sock rd wr net =
     (if sock = ESL_SOCK_INVALID then io_return (ESL_SOCK_INVALID, net)
      else case net_polls net of
             [] \<Rightarrow> None
           | a # as \<Rightarrow> io_return (poll_bits rd wr a, net\<lparr>net_polls := as\<rparr>))"

definition net_send :: "string \<Rightarrow> net \<Rightarrow> bool \<times> net" where
  "net_send s net =
     (case net_sends net of
        [] \<Rightarrow> (True, net\<lparr>net_out := net_out net @ [s]\<rparr>)
      | ok # r \<Rightarrow> (ok, net\<lparr>net_sends := r, net_out := (if ok then net_out net @ [s] else net_out net)\<rparr>))"

section \<open>The mutex\<close>

text \<open>A recursive mutex, by the number of locks its owner holds.\<close>

type_synonym esl_mutex = nat

definition esl_mutex_create :: "bool \<Rightarrow> esl_mutex option \<Rightarrow> esl_status \<times> esl_mutex option" where
  "esl_mutex_create available m = (if available then (ESL_SUCCESS, Some 0) else (ESL_FAIL, m))"

definition esl_mutex_destroy :: "esl_mutex option \<Rightarrow> esl_status \<times> esl_mutex option" where
  "esl_mutex_destroy m =
     (case m of None \<Rightarrow> (ESL_FAIL, None) | Some n \<Rightarrow> (if n = 0 then ESL_SUCCESS else ESL_FAIL, None))"

definition esl_mutex_lock :: "esl_mutex option \<Rightarrow> esl_mutex option c_result" where
  "esl_mutex_lock m = (case m of None \<Rightarrow> Inl NullPointer | Some n \<Rightarrow> Inr (Some (Suc n)))"

definition esl_mutex_trylock :: "esl_mutex option \<Rightarrow> net \<Rightarrow> (esl_status \<times> esl_mutex option \<times> net) c_result" where
  "esl_mutex_trylock m net =
     (case m of
        None \<Rightarrow> Inl NullPointer
      | Some n \<Rightarrow>
          (case net_locks net of
             False # r \<Rightarrow> Inr (ESL_FAIL, Some n, net\<lparr>net_locks := r\<rparr>)
           | True # r \<Rightarrow> Inr (ESL_SUCCESS, Some (Suc n), net\<lparr>net_locks := r\<rparr>)
           | [] \<Rightarrow> Inr (ESL_SUCCESS, Some (Suc n), net)))"

definition esl_mutex_unlock :: "esl_mutex option \<Rightarrow> (esl_status \<times> esl_mutex option) c_result" where
  "esl_mutex_unlock m =
     (case m of
        None \<Rightarrow> Inl NullPointer
      | Some n \<Rightarrow> Inr (if n = 0 then (ESL_FAIL, Some 0) else (ESL_SUCCESS, Some (n - 1))))"

section \<open>The handle\<close>

record esl_handle =
  h_sock :: int
  h_err :: string
  h_packet_buf :: "esl_buffer option"
  h_last_reply :: "char list"
  h_last_sr_reply :: "char list"
  h_last_event :: "esl_event option"
  h_last_sr_event :: "esl_event option"
  h_race_event :: "esl_event list"
  h_last_ievent :: "esl_event option"
  h_info_event :: "esl_event option"
  h_connected :: bool
  h_mutex :: "esl_mutex option"
  h_async_execute :: bool
  h_event_lock :: bool
  h_destroyed :: bool

definition zero_handle :: esl_handle where
  "zero_handle = \<lparr>h_sock = 0, h_err = [], h_packet_buf = None, h_last_reply = replicate 1024 NUL,
     h_last_sr_reply = replicate 1024 NUL, h_last_event = None, h_last_sr_event = None, h_race_event = [],
     h_last_ievent = None, h_info_event = None, h_connected = False, h_mutex = None,
     h_async_execute = False, h_event_lock = False, h_destroyed = False\<rparr>"

definition h_lock :: "esl_handle \<Rightarrow> esl_handle io" where
  "h_lock h = io_bind (Some (esl_mutex_lock (h_mutex h))) (\<lambda>m. io_return (h\<lparr>h_mutex := m\<rparr>))"

definition h_unlock :: "esl_handle \<Rightarrow> esl_handle io" where
  "h_unlock h = io_bind (Some (esl_mutex_unlock (h_mutex h))) (\<lambda>(st, m). io_return (h\<lparr>h_mutex := m\<rparr>))"

text \<open>The test at the head of the operations: connected, and with a socket.\<close>

definition h_usable :: "esl_handle \<Rightarrow> bool" where
  "h_usable h \<longleftrightarrow> h_connected h \<and> h_sock h \<noteq> ESL_SOCK_INVALID"

text \<open>\<^verbatim>\<open>strncpy\<close> into a block of \<open>n\<close> characters: the rest is filled with NULs, if there is a rest.\<close>

definition c_strncpy :: "nat \<Rightarrow> string \<Rightarrow> char list" where
  "c_strncpy n s = take n s @ replicate (n - length s) NUL"

definition esl_safe_strcaseeq :: "string option \<Rightarrow> string \<Rightarrow> bool" where
  "esl_safe_strcaseeq s t = (case s of None \<Rightarrow> False | Some v \<Rightarrow> strcaseeq v t)"

section \<open>Receiving\<close>

text \<open>\<open>handle_recv\<close>: \<open>None\<close> for a negative result, otherwise the bytes received (none: try again).\<close>

definition handle_recv :: "esl_handle \<Rightarrow> nat \<Rightarrow> net \<Rightarrow> (char list option \<times> net) io" where
  "handle_recv h datalen net =
     (if \<not> h_connected h then io_return (None, net)
      else io_bind (esl_wait_sock (h_sock h) True False net) (\<lambda>(activity, net1).
        if activity < 0 then io_return (None, net1)
        else if activity = 0 then io_return (Some [], net1)
        else if bit activity 2 then io_return (None, net1)
        else case net_recvs net1 of
               [] \<Rightarrow> None
             | RecvBytes bs # rs \<Rightarrow>
                 io_return (if bs = [] then None else Some (take datalen bs),
                   net1\<lparr>net_recvs := (if datalen < length bs then RecvBytes (drop datalen bs) # rs else rs)\<rparr>)
             | RecvAgain # rs \<Rightarrow> io_return (Some [], net1\<lparr>net_recvs := rs\<rparr>)
             | RecvFailed # rs \<Rightarrow> io_return (None, net1\<lparr>net_recvs := rs\<rparr>)))"

lemma handle_recv_polls:
  "handle_recv h n net = Some (Inr (r, net1)) \<Longrightarrow> r = None \<or> length (net_polls net1) < length (net_polls net)"
  by (auto simp: handle_recv_def esl_wait_sock_def fault_simps ESL_SOCK_INVALID_def
      split: if_splits list.splits recv_answer.splits)

text \<open>\<open>sizeof (handle->socket_buf) - 1\<close>.\<close>

definition SOCKET_ROOM :: nat where "SOCKET_ROOM = 65535"

text \<open>
  The reading loop: a complete packet in the buffer is the message, otherwise more bytes are
  read. No event as the result stands for the jump to \<open>fail\<close>.
\<close>

function recv_wait :: "allocator \<Rightarrow> esl_handle \<Rightarrow> net \<Rightarrow> (esl_event option \<times> esl_handle \<times> net) io" where
  "recv_wait A h net =
     (if \<not> h_connected h then io_return (None, h, net)
      else case h_packet_buf h of
             None \<Rightarrow> Some (Inl NullPointer)
           | Some b \<Rightarrow>
               io_bind (Some (esl_buffer_read_packet b SOCKET_ROOM)) (\<lambda>(data, b1).
                 let h1 = h\<lparr>h_packet_buf := Some b1\<rparr>
                 in if data \<noteq> [] then io_return (Some (packet_event data), h1, net)
                    else io_bind (handle_recv h1 SOCKET_ROOM net) (\<lambda>(r, net1).
                      case r of
                        None \<Rightarrow> io_return (None, h1, net1)
                      | Some bs \<Rightarrow>
                          if bs = [] then recv_wait A h1 net1
                          else io_bind (Some (esl_buffer_write A b1 bs)) (\<lambda>(w, b2).
                            recv_wait A (h1\<lparr>h_packet_buf := Some b2\<rparr>) net1))))"
  by pat_completeness auto
termination
  by (relation "measure (\<lambda>(A, h, net). length (net_polls net))") (auto dest: handle_recv_polls)

declare recv_wait.simps [simp del]

text \<open>The loop that waits until the buffer holds the body.\<close>

function recv_body_bytes ::
  "allocator \<Rightarrow> nat \<Rightarrow> esl_handle \<Rightarrow> net \<Rightarrow> (char list option \<times> esl_handle \<times> net) io" where
  "recv_body_bytes A len h net =
     (case h_packet_buf h of
        None \<Rightarrow> Some (Inl NullPointer)
      | Some b \<Rightarrow>
          if len \<le> esl_buffer_inuse b
          then io_bind (Some (esl_buffer_read b len)) (\<lambda>(bs, b1).
                 io_return (Some bs, h\<lparr>h_packet_buf := Some b1\<rparr>, net))
          else io_bind (handle_recv h SOCKET_ROOM net) (\<lambda>(r, net1).
                 case r of
                   None \<Rightarrow> io_return (None, h, net1)
                 | Some bs \<Rightarrow>
                     if bs = [] then recv_body_bytes A len h net1
                     else io_bind (Some (esl_buffer_write A b bs)) (\<lambda>(w, b1).
                       recv_body_bytes A len (h\<lparr>h_packet_buf := Some b1\<rparr>) net1)))"
  by pat_completeness auto
termination
  by (relation "measure (\<lambda>(A, len, h, net). length (net_polls net))") (auto dest: handle_recv_polls)

declare recv_body_bytes.simps [simp del]

text \<open>
  The body of a message with a length: \<open>malloc (len + 1)\<close>, the terminator at \<open>len\<close>, the bytes.
\<close>

definition recv_body ::
  "allocator \<Rightarrow> esl_event \<Rightarrow> esl_handle \<Rightarrow> net \<Rightarrow> (esl_event option \<times> esl_handle \<times> net) io" where
  "recv_body A revent h net =
     (case esl_event_get_header revent ''content-length'' of
        None \<Rightarrow> io_return (Some revent, h, net)
      | Some cl \<Rightarrow>
          let len = c_atol cl
          in if \<not> malloc_ok A (nat ((len + 1) mod 2 ^ 64)) then Some (Inl AssertFailed)
             else if len < 0 then Some (Inl OutOfBounds)
             else io_bind (recv_body_bytes A (nat len) h net) (\<lambda>(r, h1, net1).
                    io_return (case r of None \<Rightarrow> None | Some bs \<Rightarrow> Some (revent\<lparr>ev_body := Some (c_str bs)\<rparr>),
                               h1, net1)))"

text \<open>
  What is done with an event the caller does not take: the last reply, the notice of a
  disconnection (\<open>False\<close>: the handle is given up), the event inside the body.
\<close>

definition recv_process :: "'d double_ops \<Rightarrow> esl_event \<Rightarrow> esl_handle \<Rightarrow> (bool \<times> esl_handle) c_result" where
  "recv_process F revent h =
     (let h1 = (case esl_event_get_header revent ''reply-text'' of
                  None \<Rightarrow> h
                | Some v \<Rightarrow> if v \<noteq> [] then h\<lparr>h_last_reply := c_strncpy 1024 v\<rparr> else h);
          ctype = esl_event_get_header revent ''content-type''
      in case ev_body revent of
           None \<Rightarrow> Inr (True, h1)
         | Some body \<Rightarrow>
             if esl_safe_strcaseeq ctype ''text/disconnect-notice'' \<and>
                (case esl_event_get_header revent ''content-disposition'' of
                   None \<Rightarrow> True | Some d \<Rightarrow> d = [] \<or> \<not> strcaseeq d ''linger'')
             then Inr (False, h1)
             else if esl_safe_strcaseeq ctype ''text/event-plain''
             then Inr (True, h1\<lparr>h_last_ievent := Some (inner_event body)\<rparr>)
             else if esl_safe_strcaseeq ctype ''text/event-json''
             then res_bind (esl_event_create_json F body) (\<lambda>(st, e).
                    Inr (True, case e of None \<Rightarrow> h1 | Some i \<Rightarrow> h1\<lparr>h_last_ievent := Some i\<rparr>))
             else Inr (True, h1))"

type_synonym recv_result = "(esl_status \<times> esl_event option \<times> esl_handle \<times> net) io"

definition recv_fail :: "esl_handle \<Rightarrow> net \<Rightarrow> recv_result" where
  "recv_fail h net =
     io_bind (h_unlock h) (\<lambda>h1. io_return (ESL_FAIL, None, h1\<lparr>h_connected := False\<rparr>, net))"

text \<open>The part behind the label \<open>parse_event\<close>; \<open>save\<close> tells whether the caller wants the event.\<close>

definition recv_finish :: "'d double_ops \<Rightarrow> bool \<Rightarrow> esl_event \<Rightarrow> esl_handle \<Rightarrow> net \<Rightarrow> recv_result" where
  "recv_finish F save revent h net =
     (if save then io_bind (h_unlock h) (\<lambda>h1. io_return (ESL_SUCCESS, Some revent, h1, net))
      else io_bind (Some (recv_process F revent (h\<lparr>h_last_event := Some revent\<rparr>))) (\<lambda>(ok, h1).
             if ok then io_bind (h_unlock h1) (\<lambda>h2. io_return (ESL_SUCCESS, None, h2, net))
             else recv_fail h1 net))"

definition esl_recv_event ::
  "allocator \<Rightarrow> 'd double_ops \<Rightarrow> esl_handle \<Rightarrow> bool \<Rightarrow> bool \<Rightarrow> net \<Rightarrow> recv_result" where
  "esl_recv_event A F h check_q save net =
     (if \<not> h_usable h then io_return (ESL_FAIL, None, h, net)
      else io_bind (h_lock h) (\<lambda>h0.
        if \<not> h_usable h0 then recv_fail h0 net
        else let h1 = h0\<lparr>h_last_ievent := None\<rparr>
             in case (check_q, h_race_event h1) of
                  (True, e # es) \<Rightarrow> recv_finish F save e (h1\<lparr>h_race_event := es\<rparr>) net
                | _ \<Rightarrow>
                    io_bind (recv_wait A h1 net) (\<lambda>(r, h2, net2).
                      case r of
                        None \<Rightarrow> recv_fail h2 net2
                      | Some revent \<Rightarrow>
                          io_bind (recv_body A revent h2 net2) (\<lambda>(r', h3, net3).
                            case r' of
                              None \<Rightarrow> recv_fail h3 net3
                            | Some revent' \<Rightarrow> recv_finish F save revent' h3 net3))))"

section \<open>Progress\<close>

text \<open>The bytes that are still to be read: those in the buffer, and those that the peer will send.\<close>

definition unread :: "esl_handle \<Rightarrow> net \<Rightarrow> nat" where
  "unread h net =
     (case h_packet_buf h of None \<Rightarrow> 0 | Some b \<Rightarrow> buf_used b) +
     (\<Sum>a\<leftarrow>net_recvs net. case a of RecvBytes bs \<Rightarrow> length bs | _ \<Rightarrow> 0)"

lemma handle_recv_unread:
  "handle_recv h n net = Some (Inr (r, net1)) \<Longrightarrow>
   unread h net1 + (case r of None \<Rightarrow> 0 | Some bs \<Rightarrow> length bs) \<le> unread h net"
  by (auto simp: handle_recv_def esl_wait_sock_def fault_simps ESL_SOCK_INVALID_def unread_def
      split: if_splits list.splits recv_answer.splits)

lemma buffer_read_used: "esl_buffer_read b n = Inr (bs, b1) \<Longrightarrow> buf_used b1 + length bs = buf_used b"
  by (auto simp: esl_buffer_read_def Let_def fault_simps buf_reading_def mem_read_def split: if_splits)

lemma read_packet_used: "esl_buffer_read_packet b n = Inr (bs, b1) \<Longrightarrow> buf_used b1 + length bs = buf_used b"
  by (auto simp: esl_buffer_read_packet_def fault_simps split: option.splits dest: buffer_read_used)

lemma buffer_write_used: "esl_buffer_write A b bs = Inr (w, b1) \<Longrightarrow> buf_used b1 \<le> buf_used b + length bs"
proof -
  have "buf_append b0 bs = Inr (w, b1) \<Longrightarrow> buf_used b1 \<le> buf_used b0 + length bs" for b0
    by (auto simp: buf_append_def Let_def fault_simps add64_def mod_less_eq_dividend split: if_splits)
  moreover have "buf_compact b n = Inr b0 \<Longrightarrow> buf_used b0 = buf_used b" for b0 n
    by (auto simp: buf_compact_def fault_simps split: if_splits)
  moreover have "buf_grow A b0 n = Inr (ok, b2) \<Longrightarrow> buf_used b2 = buf_used b0" for b0 b2 n ok
    by (auto simp: buf_grow_def Let_def fault_simps split: if_splits option.splits)
  ultimately show "esl_buffer_write A b bs = Inr (w, b1) \<Longrightarrow> buf_used b1 \<le> buf_used b + length bs"
    by (fastforce simp: esl_buffer_write_def fault_simps split: if_splits)
qed

lemma unread_buf: "h_packet_buf h = Some b \<Longrightarrow>
  unread (h\<lparr>h_packet_buf := Some b1\<rparr>) net + buf_used b = unread h net + buf_used b1"
  by (simp add: unread_def)

text \<open>
  The rules of the two loops: \<open>P\<close> holds at every turn of the loop, \<open>Q\<close> when it is left.
\<close>

lemma recv_wait_rule:
  assumes "recv_wait A h net = Some (Inr (r, h', net'))" "P h net"
    and gone: "\<And>h net. P h net \<Longrightarrow> \<not> h_connected h \<Longrightarrow> Q None h net"
    and packet: "\<And>h net b data b1. P h net \<Longrightarrow> h_packet_buf h = Some b \<Longrightarrow>
      esl_buffer_read_packet b SOCKET_ROOM = Inr (data, b1) \<Longrightarrow> data \<noteq> [] \<Longrightarrow>
      Q (Some (packet_event data)) (h\<lparr>h_packet_buf := Some b1\<rparr>) net"
    and fail: "\<And>h net b b1 net1. P h net \<Longrightarrow> h_packet_buf h = Some b \<Longrightarrow>
      esl_buffer_read_packet b SOCKET_ROOM = Inr ([], b1) \<Longrightarrow>
      handle_recv (h\<lparr>h_packet_buf := Some b1\<rparr>) SOCKET_ROOM net = Some (Inr (None, net1)) \<Longrightarrow>
      Q None (h\<lparr>h_packet_buf := Some b1\<rparr>) net1"
    and retry: "\<And>h net b b1 net1. P h net \<Longrightarrow> h_packet_buf h = Some b \<Longrightarrow>
      esl_buffer_read_packet b SOCKET_ROOM = Inr ([], b1) \<Longrightarrow>
      handle_recv (h\<lparr>h_packet_buf := Some b1\<rparr>) SOCKET_ROOM net = Some (Inr (Some [], net1)) \<Longrightarrow>
      P (h\<lparr>h_packet_buf := Some b1\<rparr>) net1"
    and more: "\<And>h net b b1 net1 bs w b2. P h net \<Longrightarrow> h_packet_buf h = Some b \<Longrightarrow>
      esl_buffer_read_packet b SOCKET_ROOM = Inr ([], b1) \<Longrightarrow>
      handle_recv (h\<lparr>h_packet_buf := Some b1\<rparr>) SOCKET_ROOM net = Some (Inr (Some bs, net1)) \<Longrightarrow>
      bs \<noteq> [] \<Longrightarrow> esl_buffer_write A b1 bs = Inr (w, b2) \<Longrightarrow> P (h\<lparr>h_packet_buf := Some b2\<rparr>) net1"
  shows "Q r h' net'"
proof -
  have "recv_wait B h net = Some (Inr (r, h', net')) \<Longrightarrow> B = A \<Longrightarrow> P h net \<Longrightarrow> Q r h' net'" for B
  proof (induction B h net arbitrary: r h' net' rule: recv_wait.induct)
    case (1 B h net)
    note step = "1.prems"(1) [unfolded recv_wait.simps [of B h net], unfolded "1.prems"(2)]
    show ?case
    proof (cases "h_connected h")
      case False
      then show ?thesis using step gone [OF "1.prems"(3)] by (simp add: fault_simps)
    next
      case c: True
      then obtain b data b1 where b: "h_packet_buf h = Some b" "esl_buffer_read_packet b SOCKET_ROOM = Inr (data, b1)"
        using step by (auto simp: fault_simps split: option.splits)
      let ?h1 = "h\<lparr>h_packet_buf := Some b1\<rparr>"
      show ?thesis
      proof (cases "data = []")
        case False
        then show ?thesis using step c b packet [OF "1.prems"(3) b] by (simp add: fault_simps)
      next
        case True
        then obtain q net1 where q: "handle_recv ?h1 SOCKET_ROOM net = Some (Inr (q, net1))"
          using step c b by (auto simp: fault_simps Let_def)
        note b' = b(1) b(2) [unfolded True]
        show ?thesis
        proof (cases q)
          case None
          then show ?thesis using step c b q True fail [OF "1.prems"(3) b'] by (simp add: fault_simps)
        next
          case (Some bs)
          show ?thesis
          proof (cases "bs = []")
            case e: True
            show ?thesis
              using "1.IH"(1) [of b "(data, b1)" data b1 ?h1 "(q, net1)" q net1 bs r h' net'] step "1.prems"(2) c b q True Some e
                retry [OF "1.prems"(3) b', of net1] by simp
          next
            case ne: False
            then obtain w b2 where w: "esl_buffer_write A b1 bs = Inr (w, b2)"
              using step c b q True Some by (auto simp: fault_simps)
            show ?thesis
              using "1.IH"(2) [of b "(data, b1)" data b1 ?h1 "(q, net1)" q net1 bs "(w, b2)" w b2 r h' net'] step "1.prems"(2) c b q True
                Some ne w more [OF "1.prems"(3) b' q [unfolded Some] ne w] by simp
          qed
        qed
      qed
    qed
  qed
  then show ?thesis using assms(1,2) by blast
qed

lemma recv_body_rule:
  assumes "recv_body_bytes A len h net = Some (Inr (r, h', net'))" "P h net"
    and full: "\<And>h net b bs b1. P h net \<Longrightarrow> h_packet_buf h = Some b \<Longrightarrow> len \<le> esl_buffer_inuse b \<Longrightarrow>
      esl_buffer_read b len = Inr (bs, b1) \<Longrightarrow> Q (Some bs) (h\<lparr>h_packet_buf := Some b1\<rparr>) net"
    and fail: "\<And>h net b net1. P h net \<Longrightarrow> h_packet_buf h = Some b \<Longrightarrow> esl_buffer_inuse b < len \<Longrightarrow>
      handle_recv h SOCKET_ROOM net = Some (Inr (None, net1)) \<Longrightarrow> Q None h net1"
    and retry: "\<And>h net b net1. P h net \<Longrightarrow> h_packet_buf h = Some b \<Longrightarrow>
      handle_recv h SOCKET_ROOM net = Some (Inr (Some [], net1)) \<Longrightarrow> P h net1"
    and more: "\<And>h net b net1 bs w b1. P h net \<Longrightarrow> h_packet_buf h = Some b \<Longrightarrow>
      handle_recv h SOCKET_ROOM net = Some (Inr (Some bs, net1)) \<Longrightarrow>
      bs \<noteq> [] \<Longrightarrow> esl_buffer_write A b bs = Inr (w, b1) \<Longrightarrow> P (h\<lparr>h_packet_buf := Some b1\<rparr>) net1"
  shows "Q r h' net'"
proof -
  have "recv_body_bytes B l h net = Some (Inr (r, h', net')) \<Longrightarrow> B = A \<and> l = len \<Longrightarrow> P h net \<Longrightarrow> Q r h' net'" for B l
  proof (induction B l h net arbitrary: r h' net' rule: recv_body_bytes.induct)
    case (1 B l h net)
    note step = "1.prems"(1) [unfolded recv_body_bytes.simps [of B l h net]]
    have eq: "B = A" "l = len" using "1.prems"(2) by auto
    note step = step [unfolded eq]
    obtain b where b: "h_packet_buf h = Some b" using step by (auto split: option.splits)
    show ?case
    proof (cases "len \<le> esl_buffer_inuse b")
      case True
      then show ?thesis using step b full [OF "1.prems"(3) b True] by (auto simp: fault_simps)
    next
      case False
      then obtain q net1 where q: "handle_recv h SOCKET_ROOM net = Some (Inr (q, net1))"
        using step b by (auto simp: fault_simps)
      show ?thesis
      proof (cases q)
        case None
        then show ?thesis using step b q False fail [OF "1.prems"(3) b] by (simp add: fault_simps)
      next
        case (Some bs)
        show ?thesis
        proof (cases "bs = []")
          case e: True
          show ?thesis
            using "1.IH"(1) [of b "(q, net1)" q net1 bs r h' net'] step eq b q False Some e
              retry [OF "1.prems"(3) b, of net1] by simp
        next
          case ne: False
          then obtain w b1 where w: "esl_buffer_write A b bs = Inr (w, b1)"
            using step b q False Some by (auto simp: fault_simps)
          show ?thesis
            using "1.IH"(2) [of b "(q, net1)" q net1 bs "(w, b1)" w b1 r h' net'] step eq b q False
              Some ne w more [OF "1.prems"(3) b q [unfolded Some] ne w] by simp
        qed
      qed
    qed
  qed
  then show ?thesis using assms(1,2) by blast
qed

text \<open>The loops change the packet buffer of the handle only, and use the unread bytes up.\<close>

definition buf_only :: "esl_handle \<Rightarrow> esl_handle \<Rightarrow> bool" where
  "buf_only h h' \<longleftrightarrow> (\<exists>b. h' = h\<lparr>h_packet_buf := b\<rparr>)"

lemma buf_only_refl [simp]: "buf_only h h"
proof -
  have "h = h\<lparr>h_packet_buf := h_packet_buf h\<rparr>" by simp
  then show ?thesis unfolding buf_only_def by blast
qed

lemma buf_only_set: "buf_only h h' \<Longrightarrow> buf_only h (h'\<lparr>h_packet_buf := b\<rparr>)"
  by (auto simp: buf_only_def)

lemma recv_wait_frame: "recv_wait A h net = Some (Inr (r, h', net')) \<Longrightarrow> buf_only h h'"
  by (erule recv_wait_rule [where P = "\<lambda>g _. buf_only h g" and Q = "\<lambda>_ g _. buf_only h g"])
     (auto intro: buf_only_set)

lemma recv_body_frame: "recv_body_bytes A len h net = Some (Inr (r, h', net')) \<Longrightarrow> buf_only h h'"
  by (erule recv_body_rule [where P = "\<lambda>g _. buf_only h g" and Q = "\<lambda>_ g _. buf_only h g"])
     (auto intro: buf_only_set)

lemma set_buf_unread:
  assumes "h_packet_buf h = Some b" "handle_recv (h\<lparr>h_packet_buf := Some b1\<rparr>) n net = Some (Inr (r, net1))"
    and "buf_used b2 \<le> buf_used b1 + (case r of None \<Rightarrow> 0 | Some bs \<Rightarrow> length bs)" "buf_used b1 \<le> buf_used b"
  shows "unread (h\<lparr>h_packet_buf := Some b2\<rparr>) net1 \<le> unread h net"
  using handle_recv_unread [OF assms(2)] assms(1,3,4) by (simp add: unread_def)

lemma recv_wait_unread:
  "recv_wait A h net = Some (Inr (r, h', net')) \<Longrightarrow>
   (if r = None then unread h' net' \<le> unread h net else unread h' net' < unread h net)"
proof (erule recv_wait_rule [where P = "\<lambda>g n. unread g n \<le> unread h net"])
  fix g n b data b1
  assume "unread g n \<le> unread h net" "h_packet_buf g = Some b"
    "esl_buffer_read_packet b SOCKET_ROOM = Inr (data, b1)" "data \<noteq> []"
  then show "if Some (packet_event data) = None then unread (g\<lparr>h_packet_buf := Some b1\<rparr>) n \<le> unread h net
      else unread (g\<lparr>h_packet_buf := Some b1\<rparr>) n < unread h net"
    using unread_buf [of g b b1 n] by (cases data) (auto dest!: read_packet_used)
qed (auto dest!: read_packet_used buffer_write_used intro: order_trans [OF set_buf_unread])

lemma recv_body_unread:
  "recv_body_bytes A len h net = Some (Inr (r, h', net')) \<Longrightarrow> unread h' net' \<le> unread h net"
proof (erule recv_body_rule [where P = "\<lambda>g n. unread g n \<le> unread h net"])
  fix g n b bs b1
  assume "unread g n \<le> unread h net" "h_packet_buf g = Some b" "esl_buffer_read b len = Inr (bs, b1)"
  then show "unread (g\<lparr>h_packet_buf := Some b1\<rparr>) n \<le> unread h net"
    using unread_buf [of g b b1 n] by (auto dest!: buffer_read_used)
next
  fix g n b n1 bs w b1
  assume "unread g n \<le> unread h net" "h_packet_buf g = Some b"
    "handle_recv g SOCKET_ROOM n = Some (Inr (Some bs, n1))" "esl_buffer_write A b bs = Inr (w, b1)"
  then show "unread (g\<lparr>h_packet_buf := Some b1\<rparr>) n1 \<le> unread h net"
    using unread_buf [of g b b1 n1] by (auto dest!: handle_recv_unread buffer_write_used)
qed (auto dest!: handle_recv_unread)

section \<open>One event\<close>

lemma h_lock_done [fault_simps]:
  "h_lock h = Some (Inr h1) \<longleftrightarrow> (\<exists>n. h_mutex h = Some n \<and> h1 = h\<lparr>h_mutex := Some (Suc n)\<rparr>)"
  by (auto simp: h_lock_def esl_mutex_lock_def fault_simps split: option.splits)

lemma h_unlock_done [fault_simps]:
  "h_unlock h = Some (Inr h1) \<longleftrightarrow> (\<exists>n. h_mutex h = Some n \<and> h1 = h\<lparr>h_mutex := Some (n - 1)\<rparr>)"
  by (auto simp: h_unlock_def esl_mutex_unlock_def fault_simps split: option.splits)

text \<open>
  What receiving keeps, whatever happens: the locks held, the socket, the queued events (but for the one
  taken from the queue) and the last reply of a command.
\<close>

definition recv_keeps :: "esl_handle \<Rightarrow> esl_handle \<Rightarrow> bool" where
  "recv_keeps h h' \<longleftrightarrow>
     h_mutex h' = h_mutex h \<and> h_sock h' = h_sock h \<and> h_race_event h' = h_race_event h \<and>
     h_last_sr_event h' = h_last_sr_event h \<and> h_last_sr_reply h' = h_last_sr_reply h \<and>
     h_info_event h' = h_info_event h \<and> h_destroyed h' = h_destroyed h \<and>
     h_async_execute h' = h_async_execute h \<and> h_event_lock h' = h_event_lock h"

lemma recv_process_keeps:
  assumes "recv_process F e h = Inr (ok, h')"
  shows "recv_keeps h h' \<and> h_packet_buf h' = h_packet_buf h"
proof -
  define h1 where "h1 = (case esl_event_get_header e ''reply-text'' of None \<Rightarrow> h
      | Some v \<Rightarrow> if v \<noteq> [] then h\<lparr>h_last_reply := c_strncpy 1024 v\<rparr> else h)"
  have "recv_keeps h h1 \<and> h_packet_buf h1 = h_packet_buf h"
    by (simp add: h1_def recv_keeps_def split: option.split)
  moreover have "h' = h1 \<or> (\<exists>i. h' = h1\<lparr>h_last_ievent := i\<rparr>)"
    using assms unfolding recv_process_def h1_def [symmetric] Let_def
    by (cases "ev_body e") (auto simp: fault_simps split: if_splits option.splits)
  ultimately show ?thesis by (auto simp: recv_keeps_def)
qed

lemma recv_body_event:
  "recv_body A e h net = Some (Inr (r, h', net')) \<Longrightarrow> buf_only h h' \<and> unread h' net' \<le> unread h net"
  by (auto simp: recv_body_def Let_def fault_simps split: option.splits if_splits
      dest: recv_body_frame recv_body_unread)

lemma recv_finish_result:
  assumes "recv_finish F save e h net = Some (Inr (st, r, h', net'))" "h_mutex h = Some (Suc n)"
  shows "recv_keeps (h\<lparr>h_mutex := Some n\<rparr>) h' \<and> h_packet_buf h' = h_packet_buf h \<and> net' = net \<and>
    r = (if save then Some e else None)"
proof (cases save)
  case True
  then show ?thesis using assms by (auto simp: recv_finish_def fault_simps recv_keeps_def)
next
  case False
  then obtain ok h1 where p: "recv_process F e (h\<lparr>h_last_event := Some e\<rparr>) = Inr (ok, h1)"
    using assms(1) by (auto simp: recv_finish_def fault_simps)
  have "recv_keeps (h\<lparr>h_last_event := Some e\<rparr>) h1" "h_packet_buf h1 = h_packet_buf h"
    using recv_process_keeps [OF p] by auto
  then show ?thesis using False p assms
    by (cases ok) (auto simp: recv_finish_def recv_fail_def fault_simps recv_keeps_def)
qed

text \<open>Receiving without the queue.\<close>

lemma recv_event_result:
  assumes "esl_recv_event A F h False save net = Some (Inr (st, r, h', net'))"
  shows "recv_keeps h h' \<and> unread h' net' \<le> unread h net \<and>
    (r \<noteq> None \<longrightarrow> save \<and> unread h' net' < unread h net)"
proof (cases "h_usable h")
  case False
  then show ?thesis using assms by (auto simp: esl_recv_event_def fault_simps recv_keeps_def)
next
  case True
  obtain n where n: "h_mutex h = Some n"
    using assms True by (auto simp: esl_recv_event_def fault_simps)
  let ?h1 = "h\<lparr>h_mutex := Some (Suc n), h_last_ievent := None\<rparr>"
  have lock: "h_lock h = Some (Inr (h\<lparr>h_mutex := Some (Suc n)\<rparr>))" using n by (simp add: fault_simps)
  have u: "h_usable (h\<lparr>h_mutex := Some (Suc n)\<rparr>)" using True by (simp add: h_usable_def)
  obtain w h2 net2 where w: "recv_wait A ?h1 net = Some (Inr (w, h2, net2))"
    using assms True lock u by (auto simp: esl_recv_event_def Let_def fault_simps split: list.splits)
  obtain pb where h2: "h2 = ?h1\<lparr>h_packet_buf := pb\<rparr>" using recv_wait_frame [OF w] by (auto simp: buf_only_def)
  have "unread ?h1 net = unread h net" by (simp add: unread_def)
  then have w1: "if w = None then unread h2 net2 \<le> unread h net else unread h2 net2 < unread h net"
    using recv_wait_unread [OF w] by (simp split: if_splits)
  show ?thesis
  proof (cases w)
    case None
    then show ?thesis using assms True lock u w h2 n w1
      by (auto simp: esl_recv_event_def Let_def recv_fail_def fault_simps recv_keeps_def unread_def)
  next
    case (Some e)
    obtain b h3 net3 where b: "recv_body A e h2 net2 = Some (Inr (b, h3, net3))"
      using assms True lock u w Some by (auto simp: esl_recv_event_def Let_def fault_simps)
    obtain pb' where h3: "h3 = h2\<lparr>h_packet_buf := pb'\<rparr>" "unread h3 net3 \<le> unread h2 net2"
      using recv_body_event [OF b] by (auto simp: buf_only_def)
    show ?thesis
    proof (cases b)
      case None
      then show ?thesis using assms True lock u w h2 n w1 Some b h3
        by (auto simp: esl_recv_event_def Let_def recv_fail_def fault_simps recv_keeps_def unread_def)
    next
      case b': (Some e')
      have "recv_finish F save e' h3 net3 = Some (Inr (st, r, h', net'))"
        using assms True lock u w Some b b' by (simp add: esl_recv_event_def Let_def)
      then have "recv_keeps (h3\<lparr>h_mutex := Some n\<rparr>) h' \<and> h_packet_buf h' = h_packet_buf h3 \<and> net' = net3 \<and>
          r = (if save then Some e' else None)"
        using h2 h3 by (intro recv_finish_result) auto
      then show ?thesis using h2 h3 n w1 Some by (auto simp: recv_keeps_def unread_def)
    qed
  qed
qed

text \<open>Waiting for an event no longer than a time limit; \<^verbatim>\<open>ESL_BREAK\<close> when none came.\<close>

definition recv_activity :: "esl_handle \<Rightarrow> net \<Rightarrow> (int \<times> net) io" where
  "recv_activity h net =
     (if (case h_packet_buf h of None \<Rightarrow> False | Some b \<Rightarrow> esl_buffer_inuse b \<noteq> 0)
      then io_return (1, net) else esl_wait_sock (h_sock h) True False net)"

definition recv_queued :: "esl_handle \<Rightarrow> bool io" where
  "recv_queued h =
     (if h_race_event h \<noteq> [] then io_return True
      else case h_packet_buf h of
             None \<Rightarrow> Some (Inl NullPointer)
           | Some b \<Rightarrow> io_bind (Some (esl_buffer_packet_count b)) (\<lambda>n. io_return (n \<noteq> 0)))"

definition esl_recv_event_timed ::
  "allocator \<Rightarrow> 'd double_ops \<Rightarrow> esl_handle \<Rightarrow> nat \<Rightarrow> bool \<Rightarrow> bool \<Rightarrow> net \<Rightarrow> recv_result" where
  "esl_recv_event_timed A F h ms check_q save net =
     (if ms = 0 then esl_recv_event A F h check_q save net
      else if \<not> h_usable h then io_return (ESL_FAIL, None, h, net)
      else io_bind
        (if check_q
         then io_bind (h_lock h) (\<lambda>h1. io_bind (recv_queued h1) (\<lambda>q. io_bind (h_unlock h1) (\<lambda>h2. io_return (q, h2))))
         else io_return (False, h)) (\<lambda>(q, h2).
        if q then esl_recv_event A F h2 check_q save net
        else io_bind (recv_activity h2 net) (\<lambda>(activity, net1).
          if activity < 0 then io_return (ESL_FAIL, None, h2\<lparr>h_connected := False\<rparr>, net1)
          else if activity = 0 \<or> \<not> bit activity 0 then io_return (ESL_BREAK, None, h2, net1)
          else io_bind (Some (esl_mutex_trylock (h_mutex h2) net1)) (\<lambda>(locked, m, net2).
            if locked \<noteq> ESL_SUCCESS then io_return (ESL_BREAK, None, h2\<lparr>h_mutex := m\<rparr>, net2)
            else io_bind (esl_recv_event A F (h2\<lparr>h_mutex := m\<rparr>) check_q save net2) (\<lambda>(st, r, h3, net3).
              io_bind (if h_mutex h3 = None then io_return h3 else h_unlock h3) (\<lambda>h4.
                io_return (if st = ESL_SUCCESS then ESL_SUCCESS else ESL_FAIL, r, h4, net3)))))))"

lemma recv_timed_result:
  assumes "esl_recv_event_timed A F h ms False save net = Some (Inr (st, r, h', net'))"
  shows "recv_keeps h h' \<and> (r \<noteq> None \<longrightarrow> save \<and> unread h' net' < unread h net)"
proof (cases "ms = 0 \<or> \<not> h_usable h")
  case True
  then show ?thesis using assms recv_event_result [of A F h save net]
    by (auto simp: esl_recv_event_timed_def fault_simps recv_keeps_def split: if_splits)
next
  case False
  have le: "recv_activity h net = Some (Inr (a, net1)) \<Longrightarrow> unread h net1 = unread h net" for a net1
    by (auto simp: recv_activity_def esl_wait_sock_def fault_simps unread_def split: if_splits list.splits option.splits)
  from assms False obtain a net1 where a: "recv_activity h net = Some (Inr (a, net1))"
    by (auto simp: esl_recv_event_timed_def fault_simps)
  show ?thesis
  proof (cases "a < 0 \<or> a = 0 \<or> \<not> bit a 0")
    case True
    then show ?thesis using assms False a
      by (auto simp: esl_recv_event_timed_def fault_simps recv_keeps_def split: if_splits)
  next
    case go: False
    then obtain lk m net2 where t: "esl_mutex_trylock (h_mutex h) net1 = Inr (lk, m, net2)"
      using assms False a by (auto simp: esl_recv_event_timed_def fault_simps)
    have m: "unread h net2 = unread h net1"
      "lk \<noteq> ESL_SUCCESS \<longrightarrow> m = h_mutex h" "lk = ESL_SUCCESS \<longrightarrow> (\<exists>n. h_mutex h = Some n \<and> m = Some (Suc n))"
      using t by (auto simp: esl_mutex_trylock_def unread_def split: option.splits list.splits bool.splits)
    show ?thesis
    proof (cases "lk = ESL_SUCCESS")
      case False
      then show ?thesis using assms \<open>\<not> (ms = 0 \<or> _)\<close> a go t m
        by (auto simp: esl_recv_event_timed_def fault_simps recv_keeps_def)
    next
      case True
      then obtain n where n: "h_mutex h = Some n" "m = Some (Suc n)" using m by blast
      obtain st0 h3 h4 where e: "esl_recv_event A F (h\<lparr>h_mutex := m\<rparr>) False save net2 = Some (Inr (st0, r, h3, net'))"
          and h4: "(if h_mutex h3 = None then io_return h3 else h_unlock h3) = Some (Inr h')"
        using assms False a go t True by (auto simp: esl_recv_event_timed_def fault_simps)
      have k: "recv_keeps (h\<lparr>h_mutex := m\<rparr>) h3"
        "r \<noteq> None \<longrightarrow> save \<and> unread h3 net' < unread (h\<lparr>h_mutex := m\<rparr>) net2"
        using recv_event_result [OF e] by auto
      then have "h' = h3\<lparr>h_mutex := Some n\<rparr>" using h4 n by (auto simp: recv_keeps_def fault_simps)
      then show ?thesis using k n m le [OF a] by (auto simp: recv_keeps_def unread_def)
    qed
  qed
qed

section \<open>Sending\<close>

text \<open>
  \<open>esl_send\<close> looks at the last two characters of the command, also of a shorter one.
\<close>

definition cmd_ends :: "string \<Rightarrow> bool c_result" where
  "cmd_ends cmd =
     (case rev cmd of
        [] \<Rightarrow> Inl OutOfBounds
      | e # r \<Rightarrow> if e \<noteq> LF then Inr False else case r of [] \<Rightarrow> Inl OutOfBounds | e' # _ \<Rightarrow> Inr (e' = LF))"

definition esl_send :: "esl_handle \<Rightarrow> string \<Rightarrow> net \<Rightarrow> (esl_status \<times> esl_handle \<times> net) io" where
  "esl_send h cmd net =
     (if \<not> h_usable h then io_return (ESL_FAIL, h, net)
      else case net_send cmd net of
             (False, net1) \<Rightarrow> io_return (ESL_FAIL, h\<lparr>h_connected := False\<rparr>, net1)
           | (True, net1) \<Rightarrow>
               io_bind (Some (cmd_ends cmd)) (\<lambda>ends.
                 if ends then io_return (ESL_SUCCESS, h, net1)
                 else case net_send [LF, LF] net1 of
                        (False, net2) \<Rightarrow> io_return (ESL_FAIL, h\<lparr>h_connected := False\<rparr>, net2)
                      | (True, net2) \<Rightarrow> io_return (ESL_SUCCESS, h, net2)))"

text \<open>The reply of the last command is emptied by writing its first character.\<close>

definition sr_reset :: "esl_handle \<Rightarrow> esl_handle" where
  "sr_reset h = h\<lparr>h_last_sr_event := None, h_last_sr_reply := NUL # tl (h_last_sr_reply h)\<rparr>"

text \<open>An event that is neither the reply to a command nor without a type is not for the sender.\<close>

definition race_for :: "esl_event \<Rightarrow> bool" where
  "race_for e \<longleftrightarrow>
     (case esl_event_get_header e ''content-type'' of
        None \<Rightarrow> False
      | Some ct \<Rightarrow> \<not> strcaseeq ct ''api/response'' \<and> \<not> strcaseeq ct ''command/reply'')"

definition sr_keep_reply :: "esl_event \<Rightarrow> esl_handle \<Rightarrow> esl_handle" where
  "sr_keep_reply e h =
     (case esl_event_get_header e ''reply-text'' of
        None \<Rightarrow> h
      | Some v \<Rightarrow> if v \<noteq> [] then h\<lparr>h_last_sr_reply := c_strncpy 1024 v\<rparr> else h)"

function send_recv_loop ::
  "allocator \<Rightarrow> 'd double_ops \<Rightarrow> nat \<Rightarrow> esl_handle \<Rightarrow> net \<Rightarrow> (esl_status \<times> esl_handle \<times> net) io" where
  "send_recv_loop A F ms h net =
     io_bind (esl_recv_event_timed A F (sr_reset h) ms False True net) (\<lambda>(status, r, h1, net1).
       case r of
         None \<Rightarrow> io_bind (h_unlock h1) (\<lambda>h2. io_return (status, h2, net1))
       | Some e \<Rightarrow>
           if race_for e
           then (let h2 = h1\<lparr>h_race_event := h_race_event h1 @ [e], h_last_sr_event := None\<rparr>
                 in io_bind (h_unlock h2) (\<lambda>h3. io_bind (h_lock h3) (\<lambda>h4.
                      if \<not> h_usable h4
                      then io_bind (h_unlock (h4\<lparr>h_connected := False\<rparr>)) (\<lambda>h5. io_return (ESL_FAIL, h5, net1))
                      else send_recv_loop A F ms h4 net1)))
           else io_bind (h_unlock (sr_keep_reply e (h1\<lparr>h_last_sr_event := Some e\<rparr>))) (\<lambda>h2.
                  io_return (status, h2, net1)))"
  by pat_completeness auto
termination
proof (relation "measure (\<lambda>(A, F, ms, h, net). unread h net)", goal_cases)
  case (2 A F ms h net v status v1 r v2 h1 net1 e h2 h3 h4)
  then have "unread h1 net1 < unread (sr_reset h) net"
    using recv_timed_result [of A F "sr_reset h" ms True net status r h1 net1] by simp
  moreover have "unread (sr_reset h) net = unread h net" by (simp add: unread_def sr_reset_def)
  moreover have "unread h4 net1 = unread h1 net1"
    using 2 by (auto simp: unread_def fault_simps)
  ultimately show ?case by simp
qed simp

declare send_recv_loop.simps [simp del]

definition esl_send_recv_timed ::
  "allocator \<Rightarrow> 'd double_ops \<Rightarrow> esl_handle \<Rightarrow> string \<Rightarrow> nat \<Rightarrow> net \<Rightarrow> (esl_status \<times> esl_handle \<times> net) io" where
  "esl_send_recv_timed A F h cmd ms net =
     (if \<not> h_usable h then io_return (ESL_FAIL, h, net)
      else io_bind (h_lock h) (\<lambda>h1.
        if \<not> h_usable h1
        then io_bind (h_unlock (h1\<lparr>h_connected := False\<rparr>)) (\<lambda>h2. io_return (ESL_FAIL, h2, net))
        else io_bind (esl_send (sr_reset h1) cmd net) (\<lambda>(status, h2, net1).
          if status \<noteq> ESL_SUCCESS then io_bind (h_unlock h2) (\<lambda>h3. io_return (status, h3, net1))
          else send_recv_loop A F ms h2 net1)))"

definition esl_send_recv ::
  "allocator \<Rightarrow> 'd double_ops \<Rightarrow> esl_handle \<Rightarrow> string \<Rightarrow> net \<Rightarrow> (esl_status \<times> esl_handle \<times> net) io" where
  "esl_send_recv A F h cmd net = esl_send_recv_timed A F h cmd 0 net"

section \<open>Commands\<close>

definition opt_text :: "string \<Rightarrow> string option \<Rightarrow> string" where
  "opt_text lbl v = (case v of None \<Rightarrow> [] | Some t \<Rightarrow> lbl @ t)"

text \<open>The message of \<open>esl_execute\<close>, built in four buffers of fixed size.\<close>

definition execute_text ::
  "bool \<Rightarrow> bool \<Rightarrow> string option \<Rightarrow> string option \<Rightarrow> string option \<Rightarrow> string" where
  "execute_text event_lock async app arg uuid =
     (let cmd_buf = (case uuid of None \<Rightarrow> ''sendmsg'' | Some u \<Rightarrow> snprintf_text 128 (''sendmsg '' @ u));
          app_buf = (case app of None \<Rightarrow> [] | Some a \<Rightarrow> snprintf_text 512 (''execute-app-name: '' @ a @ [LF]));
          arg_buf = (case arg of None \<Rightarrow> [] | Some a \<Rightarrow> snprintf_text 4096 (''execute-app-arg: '' @ a @ [LF]))
      in snprintf_text 5120 (cmd_buf @ [LF] @ ''call-command: execute'' @ [LF] @ app_buf @ arg_buf @
           (if event_lock then ''event-lock: true'' @ [LF] else []) @
           (if async then ''async: true'' @ [LF] else []) @ [LF]))"

definition esl_execute ::
  "allocator \<Rightarrow> 'd double_ops \<Rightarrow> esl_handle \<Rightarrow> string option \<Rightarrow> string option \<Rightarrow> string option \<Rightarrow> net \<Rightarrow>
   (esl_status \<times> esl_handle \<times> net) io" where
  "esl_execute A F h app arg uuid net =
     (if \<not> h_usable h then io_return (ESL_FAIL, h, net)
      else esl_send_recv A F h (execute_text (h_event_lock h) (h_async_execute h) app arg uuid) net)"

definition esl_sendevent ::
  "allocator \<Rightarrow> 'd double_ops \<Rightarrow> esl_handle \<Rightarrow> esl_event option \<Rightarrow> net \<Rightarrow> (esl_status \<times> esl_handle \<times> net) io" where
  "esl_sendevent A F h event net =
     (case event of
        None \<Rightarrow> io_return (ESL_FAIL, h, net)
      | Some ev \<Rightarrow>
          if \<not> h_connected h then io_return (ESL_FAIL, h, net)
          else io_bind (Some (esl_event_serialize ev False)) (\<lambda>txt.
            let len = length txt + 100
            in if \<not> malloc_ok A len then Some (Inl AssertFailed)
               else io_bind (Some (esl_event_name (ev_id ev))) (\<lambda>name.
                 esl_send_recv A F h (snprintf_text len (''sendevent '' @ name @ [LF] @ txt)) net)))"

definition esl_sendmsg ::
  "allocator \<Rightarrow> 'd double_ops \<Rightarrow> esl_handle \<Rightarrow> esl_event \<Rightarrow> string option \<Rightarrow> net \<Rightarrow>
   (esl_status \<times> esl_handle \<times> net) io" where
  "esl_sendmsg A F h event uuid net =
     (if \<not> h_usable h then io_return (ESL_FAIL, h, net)
      else io_bind (Some (esl_event_serialize event False)) (\<lambda>txt.
        let len = length txt + 100
        in if \<not> malloc_ok A len then Some (Inl AssertFailed)
           else esl_send_recv A F h
             (snprintf_text len (case uuid of None \<Rightarrow> ''sendmsg'' @ [LF] @ txt
                                            | Some u \<Rightarrow> ''sendmsg '' @ u @ [LF] @ txt)) net))"

definition esl_filter ::
  "allocator \<Rightarrow> 'd double_ops \<Rightarrow> esl_handle \<Rightarrow> string \<Rightarrow> string \<Rightarrow> net \<Rightarrow> (esl_status \<times> esl_handle \<times> net) io" where
  "esl_filter A F h header val net =
     (if \<not> h_usable h then io_return (ESL_FAIL, h, net)
      else esl_send_recv A F h (snprintf_text 1024 (''filter '' @ header @ '' '' @ val @ [LF, LF])) net)"

datatype event_format = ESL_EVENT_TYPE_PLAIN | ESL_EVENT_TYPE_XML | ESL_EVENT_TYPE_JSON

definition esl_events ::
  "allocator \<Rightarrow> 'd double_ops \<Rightarrow> esl_handle \<Rightarrow> event_format \<Rightarrow> string \<Rightarrow> net \<Rightarrow>
   (esl_status \<times> esl_handle \<times> net) io" where
  "esl_events A F h etype val net =
     (if \<not> h_usable h then io_return (ESL_FAIL, h, net)
      else esl_send_recv A F h
        (snprintf_text 1024 (''event '' @
           (case etype of ESL_EVENT_TYPE_XML \<Rightarrow> ''xml'' | ESL_EVENT_TYPE_JSON \<Rightarrow> ''json''
            | ESL_EVENT_TYPE_PLAIN \<Rightarrow> ''plain'') @ '' '' @ val @ [LF, LF])) net)"

section \<open>Connecting and disconnecting\<close>

text \<open>Everything the handle owned is freed; the cleared handle has socket 0, not the invalid one.\<close>

definition esl_disconnect :: "esl_handle \<Rightarrow> net \<Rightarrow> esl_status \<times> esl_handle \<times> net" where
  "esl_disconnect h net =
     (if h_destroyed h then (ESL_FAIL, h, net)
      else case (if h_sock h \<noteq> ESL_SOCK_INVALID
                 then (ESL_SUCCESS, net\<lparr>net_closed := net_closed net @ [h_sock h]\<rparr>)
                 else (ESL_FAIL, net)) of
             (status, net1) \<Rightarrow> (status, zero_handle\<lparr>h_destroyed := True\<rparr>, net1))"

text \<open>\<^verbatim>\<open>BUF_CHUNK\<close> and \<^verbatim>\<open>BUF_START\<close>; the mutex and the buffer are created when they are not there.\<close>

definition h_prepare :: "allocator \<Rightarrow> bool \<Rightarrow> esl_handle \<Rightarrow> net \<Rightarrow> esl_handle \<times> net" where
  "h_prepare A mutex_ok h net =
     (let h1 = (if h_mutex h = None then h\<lparr>h_mutex := snd (esl_mutex_create mutex_ok None)\<rparr> else h)
      in if h_packet_buf h1 = None
         then (case esl_buffer_create A (net_buffer_id net) (65536 * 50) (65536 * 100) 0 of
                 (st, b, bid) \<Rightarrow> (h1\<lparr>h_packet_buf := b\<rparr>, net\<lparr>net_buffer_id := bid\<rparr>))
         else (h1, net))"

definition sock_setup :: "esl_handle \<Rightarrow> esl_status" where
  "sock_setup h = (if h_sock h = ESL_SOCK_INVALID then ESL_FAIL else ESL_SUCCESS)"

definition esl_attach_handle ::
  "allocator \<Rightarrow> 'd double_ops \<Rightarrow> bool \<Rightarrow> esl_handle \<Rightarrow> int \<Rightarrow> net \<Rightarrow> (esl_status \<times> esl_handle \<times> net) io" where
  "esl_attach_handle A F mutex_ok h socket net =
     (if socket = ESL_SOCK_INVALID then io_return (ESL_FAIL, h, net)
      else let h0 = h\<lparr>h_sock := socket\<rparr>
           in if sock_setup h0 \<noteq> ESL_SUCCESS then io_return (ESL_FAIL, h0, net)
              else case h_prepare A mutex_ok h0 net of (h1, net1) \<Rightarrow>
                io_bind (esl_send_recv A F (h1\<lparr>h_connected := True\<rparr>) (''connect'' @ [LF, LF]) net1) (\<lambda>(st, h2, net2).
                  case h_last_sr_event h2 of
                    Some e \<Rightarrow> io_return (ESL_SUCCESS, h2\<lparr>h_info_event := Some e, h_last_sr_event := None\<rparr>, net2)
                  | None \<Rightarrow> (case esl_disconnect h2 net2 of (st', h3, net3) \<Rightarrow> io_return (ESL_FAIL, h3, net3))))"

text \<open>
  What the name service and the socket calls answer while connecting: the address family found (\<open>None\<close>:
  no address; other families than \<^verbatim>\<open>AF_INET\<close> and \<^verbatim>\<open>AF_INET6\<close> are \<open>False\<close>), the new socket, whether
  \<^verbatim>\<open>fcntl\<close> works, the result of \<^verbatim>\<open>connect\<close>.
\<close>

record connect_env =
  env_family :: "bool option"
  env_socket :: int
  env_fcntl :: bool
  env_connect :: int

definition connect_fail :: "string \<Rightarrow> esl_handle \<Rightarrow> net \<Rightarrow> (esl_status \<times> esl_handle \<times> net) io" where
  "connect_fail msg h net = io_return (ESL_FAIL, h\<lparr>h_err := msg, h_connected := False\<rparr>, net)"

definition last_header :: "esl_handle \<Rightarrow> string \<Rightarrow> string option c_result" where
  "last_header h name =
     (case h_last_event h of None \<Rightarrow> Inl AssertFailed | Some e \<Rightarrow> Inr (esl_event_get_header e name))"

text \<open>The dialogue behind the connection: the request for authentication, the password, the answer.\<close>

definition connect_auth ::
  "allocator \<Rightarrow> 'd double_ops \<Rightarrow> esl_handle \<Rightarrow> string option \<Rightarrow> string \<Rightarrow> nat \<Rightarrow> net \<Rightarrow>
   (esl_status \<times> esl_handle \<times> net) io" where
  "connect_auth A F h user password timeout net =
     io_bind (esl_recv_event_timed A F h timeout False False net) (\<lambda>(st, _, h1, net1).
       if st \<noteq> ESL_SUCCESS then connect_fail ''Connection Error'' h1 net1
       else io_bind (Some (last_header h1 ''content-type'')) (\<lambda>ct.
         if \<not> esl_safe_strcaseeq ct ''auth/request'' then connect_fail ''Connection Error'' h1 net1
         else io_bind (esl_send h1
                (snprintf_text 256
                   (case user of
                      Some (c # u) \<Rightarrow> ''userauth '' @ (c # u) @ '':'' @ password @ [LF, LF]
                    | _ \<Rightarrow> ''auth '' @ password @ [LF, LF])) net1) (\<lambda>(_, h2, net2).
           io_bind (esl_recv_event_timed A F h2 timeout False False net2) (\<lambda>(st3, _, h3, net3).
             if st3 \<noteq> ESL_SUCCESS then connect_fail ''Authentication Error'' h3 net3
             else io_bind (Some (last_header h3 ''reply-text'')) (\<lambda>rt.
               if \<not> esl_safe_strcaseeq rt ''+OK accepted'' then connect_fail ''Authentication Error'' h3 net3
               else io_return (ESL_SUCCESS, h3, net3))))))"

definition esl_connect_timeout ::
  "allocator \<Rightarrow> 'd double_ops \<Rightarrow> bool \<Rightarrow> connect_env \<Rightarrow> esl_handle \<Rightarrow> string option \<Rightarrow> string \<Rightarrow> nat \<Rightarrow> net \<Rightarrow>
   (esl_status \<times> esl_handle \<times> net) io" where
  "esl_connect_timeout A F mutex_ok env h user password timeout net =
     (case h_prepare A mutex_ok h net of (h1, net1) \<Rightarrow>
      case env_family env of
        None \<Rightarrow> connect_fail ''Cannot resolve host'' h1 net1
      | Some False \<Rightarrow> connect_fail ''Host resolves to unsupported address family'' h1 net1
      | Some True \<Rightarrow>
          let h2 = h1\<lparr>h_sock := env_socket env\<rparr>
          in if h_sock h2 = ESL_SOCK_INVALID then connect_fail ''Socket Error'' h2 net1
             else if timeout \<noteq> 0 \<and> \<not> env_fcntl env then connect_fail ''Socket Connection Error'' h2 net1
             else io_bind (if timeout \<noteq> 0 then esl_wait_sock (h_sock h2) False True net1
                           else io_return (2, net1)) (\<lambda>(r, net2).
               if r \<le> 0 \<or> \<not> bit r 1 then connect_fail ''Connection timed out'' h2 net2
               else if timeout = 0 \<and> env_connect env \<noteq> 0
               then connect_fail ''Socket Connection Error'' h2 net2
               else connect_auth A F (h2\<lparr>h_connected := True\<rparr>) user password timeout net2))"

section \<open>A message that is in the buffer\<close>

lemma buffer_read_keeps:
  "esl_buffer_read b n = Inr (bs, b1) \<Longrightarrow> buf_sentinel b1 = buf_sentinel b"
  by (auto simp: esl_buffer_read_def Let_def fault_simps buf_sentinel_def split: if_splits option.splits)

lemma read_packet_keeps:
  "esl_buffer_read_packet b n = Inr (bs, b1) \<Longrightarrow> buf_sentinel b1 = buf_sentinel b"
  by (auto simp: esl_buffer_read_packet_def fault_simps split: option.splits dest: buffer_read_keeps)

lemma recv_wait_packet:
  assumes "h_connected h" "h_packet_buf h = Some b" "buf_wf b" "buf_sentinel b" "NUL \<notin> set (buf_content b)"
    and "packet_end (buf_content b) = Some k" "k \<le> SOCKET_ROOM"
  shows "\<exists>b1. recv_wait A h net = io_return (Some (packet_event (take k (buf_content b))),
             h\<lparr>h_packet_buf := Some b1\<rparr>, net) \<and> buf_wf b1 \<and> buf_sentinel b1 \<and>
           buf_content b1 = drop k (buf_content b)"
proof -
  obtain b1 where b1: "esl_buffer_read_packet b SOCKET_ROOM = Inr (take k (buf_content b), b1)" "buf_wf b1"
      "buf_content b1 = drop k (buf_content b)"
    using read_packet_found [OF assms(3-5), of SOCKET_ROOM] assms(6,7) by (auto simp: min_def)
  have "take k (buf_content b) \<noteq> []" using packet_end_bound [OF assms(6)] by auto
  moreover have "buf_sentinel b1" using read_packet_keeps [OF b1(1)] assms(4) by simp
  ultimately show ?thesis using b1 assms(1,2)
    by (intro exI [of _ b1]) (subst recv_wait.simps, simp)
qed

lemma recv_body_present:
  assumes "h_packet_buf h = Some b" "buf_wf b" "buf_content b = body @ rest" "cstring body" "length body < 2 ^ 63 - 1"
    and "esl_event_get_header e ''content-length'' = Some (dec_digits (length body))" "malloc_ok A (Suc (length body))"
  shows "\<exists>b1. recv_body A e h net = io_return (Some (e\<lparr>ev_body := Some body\<rparr>), h\<lparr>h_packet_buf := Some b1\<rparr>, net) \<and>
    buf_wf b1 \<and> buf_sentinel b1 = buf_sentinel b \<and> buf_content b1 = rest"
proof -
  obtain b1 where b1: "esl_buffer_read b (length body) = Inr (body, b1)" "buf_wf b1" "buf_content b1 = rest"
    using buf_read_spec [OF assms(2), of "length body"] assms(3) by auto
  have inuse: "length body \<le> esl_buffer_inuse b"
    using buf_content_length [OF assms(2)] assms(3) by (simp add: esl_buffer_inuse_def)
  have len: "c_atol (dec_digits (length body)) = int (length body)"
    using assms(5) by (simp add: c_atol_def c_strtol10_dec)
  have "nat ((int (length body) + 1) mod 2 ^ 64) = Suc (length body)"
      "nat (int (length body) + 1) = Suc (length body)"
    using assms(5) by (simp_all add: nat_add_distrib)
  then have "recv_body A e h net =
      io_bind (recv_body_bytes A (length body) h net) (\<lambda>(r, h1, net1).
        io_return (case r of None \<Rightarrow> None | Some bs \<Rightarrow> Some (e\<lparr>ev_body := Some (c_str bs)\<rparr>), h1, net1))"
    using assms(6,7) len by (simp add: recv_body_def Let_def)
  moreover have "recv_body_bytes A (length body) h net = io_return (Some body, h\<lparr>h_packet_buf := Some b1\<rparr>, net)"
    using assms(1) inuse b1(1) by (subst recv_body_bytes.simps) simp
  ultimately show ?thesis using b1(2,3) buffer_read_keeps [OF b1(1)] assms(4) by (intro exI [of _ b1]) (simp add: c_str_id)
qed

text \<open>The message of a serialized event: what the reading loop and the reading of the body deliver.\<close>

lemma recv_message_wire:
  assumes "h_usable h" and "h_packet_buf h = Some b"
    and "buf_wf b" and "buf_sentinel b" and "NUL \<notin> set (buf_content b)"
    and "wire_event (ev_headers socket_event) ev"
    and "esl_event_serialize ev True = Inr t" and "buf_content b = t @ rest"
    and "length t \<le> SOCKET_ROOM"
    and "\<And>m. m \<le> Suc (length t) \<Longrightarrow> malloc_ok A m"
  shows "\<exists>e b1 b2. recv_wait A h net = io_return (Some e, h\<lparr>h_packet_buf := Some b1\<rparr>, net) \<and>
    recv_body A e (h\<lparr>h_packet_buf := Some b1\<rparr>) net =
      io_return (Some (socket_event\<lparr>ev_headers := ev_headers socket_event @ wire_lines ev, ev_body := ev_body ev\<rparr>),
        h\<lparr>h_packet_buf := Some b2\<rparr>, net) \<and>
    buf_wf b2 \<and> buf_sentinel b2 \<and> buf_content b2 = rest"
proof -
  let ?ls = "concat (map (ser_line True) (wire_lines ev))"
  define body where "body = (case ev_body ev of None \<Rightarrow> [] | Some b \<Rightarrow> b)"
  have t: "t = ?ls @ LF # body" using serialize_wire [OF assms(6)] assms(7) by (simp add: body_def)
  have nul: "cstring ?ls" "cstring body" using assms(5,8) t by (auto simp: cstring_def)
  have pe: "packet_end (buf_content b) = Some (Suc (length ?ls))"
    using packet_end_lines [OF wire_lines_headers(2) [OF assms(6)] wire_headers_all
        [OF wire_lines_headers(1) [OF assms(6)]], of "body @ rest"] t assms(8) by simp
  have "h_connected h" "Suc (length ?ls) \<le> SOCKET_ROOM" using assms(1,9) t by (simp_all add: h_usable_def)
  from recv_wait_packet [OF this(1) assms(2-5) pe this(2)] obtain b1 where
    w: "recv_wait A h net = io_return (Some (packet_event (take (Suc (length ?ls)) (buf_content b))),
          h\<lparr>h_packet_buf := Some b1\<rparr>, net)" and b1: "buf_wf b1" "buf_sentinel b1" "buf_content b1 = body @ rest"
    using t assms(8) by auto
  define e where "e = socket_event\<lparr>ev_headers := ev_headers socket_event @ wire_lines ev\<rparr>"
  have "take (Suc (length ?ls)) (buf_content b) = ?ls @ [LF]" using t assms(8) by simp
  then have ev: "packet_event (take (Suc (length ?ls)) (buf_content b)) = e"
    using packet_event_wire [OF wire_lines_headers(1,2) [OF assms(6)] nul(1)] by (simp add: e_def)
  have wf: "event_wf e"
    using wire_headers_all [OF wire_lines_headers(1) [OF assms(6)]]
    by (auto simp: e_def socket_event_eq event_wf_def empty_event_def wire_header_def header_plain_def)
  have cl: "esl_event_get_header e ''content-length'' = map_option (\<lambda>b. dec_digits (length b)) (ev_body ev)"
    using assms(6) wf by (intro wire_content_length [where seen = "ev_headers socket_event"]) (simp_all add: e_def)
  have "\<exists>b2. recv_body A e (h\<lparr>h_packet_buf := Some b1\<rparr>) net =
      io_return (Some (e\<lparr>ev_body := ev_body ev\<rparr>), h\<lparr>h_packet_buf := Some b2\<rparr>, net) \<and>
      buf_wf b2 \<and> buf_sentinel b2 \<and> buf_content b2 = rest"
  proof (cases "ev_body ev")
    case None
    have "e\<lparr>ev_body := None\<rparr> = e" by (simp add: e_def socket_event_eq empty_event_def)
    then show ?thesis using None cl b1 by (intro exI [of _ b1]) (simp add: recv_body_def body_def)
  next
    case (Some bd)
    have "length body < 100000" using assms(6) Some by (simp add: wire_event_def body_def)
    then show ?thesis
      using recv_body_present [of "h\<lparr>h_packet_buf := Some b1\<rparr>" b1 body rest e A net] b1 nul(2) cl Some
        assms(10) [of "Suc (length body)"] t by (simp add: body_def)
  qed
  then show ?thesis using w ev by (simp add: e_def) blast
qed

lemma recv_event_wire:
  assumes "h_usable h" and "h_mutex h = Some n" and "h_packet_buf h = Some b"
    and "buf_wf b" and "buf_sentinel b" and "NUL \<notin> set (buf_content b)"
    and "wire_event (ev_headers socket_event) ev"
    and "esl_event_serialize ev True = Inr t" and "buf_content b = t @ rest"
    and "length t \<le> SOCKET_ROOM"
    and "\<And>m. m \<le> Suc (length t) \<Longrightarrow> malloc_ok A m"
  shows "\<exists>h' b'. esl_recv_event A F h False True net = io_return (ESL_SUCCESS,
      Some (socket_event\<lparr>ev_headers := ev_headers socket_event @ wire_lines ev, ev_body := ev_body ev\<rparr>), h', net) \<and>
    h_packet_buf h' = Some b' \<and> buf_wf b' \<and> buf_content b' = rest \<and> recv_keeps h h'"
proof -
  let ?h1 = "h\<lparr>h_mutex := Some (Suc n), h_last_ievent := None\<rparr>"
  have u: "h_usable ?h1" "h_packet_buf ?h1 = Some b" "h_usable (h\<lparr>h_mutex := Some (Suc n)\<rparr>)"
    using assms(1,3) by (simp_all add: h_usable_def)
  obtain e b1 b2 where m: "recv_wait A ?h1 net = io_return (Some e, ?h1\<lparr>h_packet_buf := Some b1\<rparr>, net)"
      "recv_body A e (?h1\<lparr>h_packet_buf := Some b1\<rparr>) net =
        io_return (Some (socket_event\<lparr>ev_headers := ev_headers socket_event @ wire_lines ev, ev_body := ev_body ev\<rparr>),
          ?h1\<lparr>h_packet_buf := Some b2\<rparr>, net)" "buf_wf b2" "buf_content b2 = rest"
    using recv_message_wire [OF u(1,2) assms(4-11)] by blast
  have lock: "h_lock h = io_return (h\<lparr>h_mutex := Some (Suc n)\<rparr>)"
    using assms(2) by (simp add: h_lock_def esl_mutex_lock_def)
  have "esl_recv_event A F h False True net =
      io_return (ESL_SUCCESS, Some (socket_event\<lparr>ev_headers := ev_headers socket_event @ wire_lines ev, ev_body := ev_body ev\<rparr>),
        h\<lparr>h_last_ievent := None, h_packet_buf := Some b2, h_mutex := Some n\<rparr>, net)"
    using assms(1) lock u(3) m(1,2)
    by (simp add: esl_recv_event_def Let_def recv_finish_def h_unlock_def esl_mutex_unlock_def)
  then show ?thesis using m(3,4) assms(2) by (simp add: recv_keeps_def)
qed

text \<open>A message without a length is just its header lines.\<close>

lemma recv_event_packet:
  assumes "h_usable h" "h_mutex h = Some n" "h_packet_buf h = Some b"
    and "buf_wf b" "buf_sentinel b" "NUL \<notin> set (buf_content b)"
    and "packet_end (buf_content b) = Some k" "k \<le> SOCKET_ROOM"
    and "esl_event_get_header (packet_event (take k (buf_content b))) ''content-length'' = None"
  shows "\<exists>b'. esl_recv_event A F h False True net =
      io_return (ESL_SUCCESS, Some (packet_event (take k (buf_content b))),
        h\<lparr>h_last_ievent := None, h_packet_buf := Some b', h_mutex := Some n\<rparr>, net) \<and>
    buf_wf b' \<and> buf_sentinel b' \<and> buf_content b' = drop k (buf_content b)"
proof -
  let ?h1 = "h\<lparr>h_mutex := Some (Suc n), h_last_ievent := None\<rparr>"
  have "h_connected ?h1" "h_packet_buf ?h1 = Some b" using assms(1,3) by (simp_all add: h_usable_def)
  from recv_wait_packet [OF this assms(4-8), of A net] obtain b1 where
    w: "recv_wait A ?h1 net = io_return (Some (packet_event (take k (buf_content b))), ?h1\<lparr>h_packet_buf := Some b1\<rparr>, net)"
      "buf_wf b1" "buf_sentinel b1" "buf_content b1 = drop k (buf_content b)" by blast
  have lock: "h_lock h = io_return (h\<lparr>h_mutex := Some (Suc n)\<rparr>)"
    using assms(2) by (simp add: h_lock_def esl_mutex_lock_def)
  have u: "h_usable (h\<lparr>h_mutex := Some (Suc n)\<rparr>)" using assms(1) by (simp add: h_usable_def)
  show ?thesis using assms(1,9) lock u w
    by (intro exI [of _ b1]) (simp add: esl_recv_event_def Let_def recv_finish_def h_unlock_def esl_mutex_unlock_def
        recv_body_def)
qed

section \<open>What receiving does not look at\<close>

text \<open>
  The queue, and the event and the reply of the last command, play no part in receiving: it
  does the same whatever they are.
\<close>

definition bystanders :: "esl_event list \<Rightarrow> esl_event option \<Rightarrow> char list \<Rightarrow> esl_handle \<Rightarrow> esl_handle" where
  "bystanders q e r h = h\<lparr>h_race_event := q, h_last_sr_event := e, h_last_sr_reply := r\<rparr>"

lemma bystanders_simps [simp]:
  "h_connected (bystanders q e r h) = h_connected h" "h_sock (bystanders q e r h) = h_sock h"
  "h_packet_buf (bystanders q e r h) = h_packet_buf h" "h_mutex (bystanders q e r h) = h_mutex h"
  "h_race_event (bystanders q e r h) = q" "h_usable (bystanders q e r h) = h_usable h"
  "(bystanders q e r h)\<lparr>h_packet_buf := b\<rparr> = bystanders q e r (h\<lparr>h_packet_buf := b\<rparr>)"
  "(bystanders q e r h)\<lparr>h_mutex := m\<rparr> = bystanders q e r (h\<lparr>h_mutex := m\<rparr>)"
  "(bystanders q e r h)\<lparr>h_connected := c\<rparr> = bystanders q e r (h\<lparr>h_connected := c\<rparr>)"
  "(bystanders q e r h)\<lparr>h_last_ievent := i\<rparr> = bystanders q e r (h\<lparr>h_last_ievent := i\<rparr>)"
  by (simp_all add: bystanders_def h_usable_def)

lemma io_bind_eq:
  "(\<And>x. m = Some (Inr x) \<Longrightarrow> f x = g x) \<Longrightarrow> io_bind m f = io_bind m g"
  by (auto simp: io_bind_def split: option.split sum.split)

lemma handle_recv_bystanders [simp]: "handle_recv (bystanders q e r h) n net = handle_recv h n net"
  by (simp add: handle_recv_def)

lemma recv_wait_bystanders:
  "recv_wait A (bystanders q e r h) net = io_map (\<lambda>(w, g, n). (w, bystanders q e r g, n)) (recv_wait A h net)"
proof (induction A h net rule: recv_wait.induct)
  case (1 A h net)
  show ?case
    unfolding recv_wait.simps [of A "bystanders q e r h" net] recv_wait.simps [of A h net]
    apply (auto simp: io_map_bind Let_def "1.IH"(1) split: option.split intro!: io_bind_eq)
    subgoal premises p for b b1 net1 bs w b2
      using "1.IH"(2) [of b "([], b1)" "[]" b1 "h\<lparr>h_packet_buf := Some b1\<rparr>" "(Some bs, net1)" "Some bs" net1 bs
          "(w, b2)" w b2] p by simp
    done
qed

lemma recv_body_bytes_bystanders:
  "recv_body_bytes A len (bystanders q e r h) net =
     io_map (\<lambda>(w, g, n). (w, bystanders q e r g, n)) (recv_body_bytes A len h net)"
proof (induction A len h net rule: recv_body_bytes.induct)
  case (1 A len h net)
  show ?case
    unfolding recv_body_bytes.simps [of A len "bystanders q e r h" net] recv_body_bytes.simps [of A len h net]
    by (auto simp: io_map_bind "1.IH" split: option.split intro!: io_bind_eq)
qed

lemma recv_event_bystanders:
  "esl_recv_event A F (bystanders q e r h) False True net =
     io_map (\<lambda>(st, w, g, n). (st, w, bystanders q e r g, n)) (esl_recv_event A F h False True net)"
proof -
  have lock: "h_lock (bystanders q e r g) = io_map (bystanders q e r) (h_lock g)" for g
    by (simp add: h_lock_def io_map_bind)
  have unlock: "h_unlock (bystanders q e r g) = io_map (bystanders q e r) (h_unlock g)" for g
    by (auto simp: h_unlock_def io_map_bind intro!: io_bind_eq)
  have body: "recv_body A v (bystanders q e r g) n =
      io_map (\<lambda>(w, g, n). (w, bystanders q e r g, n)) (recv_body A v g n)" for v g n
    by (auto simp: recv_body_def Let_def recv_body_bytes_bystanders io_map_bind io_bind_map
        split: option.split intro!: io_bind_eq)
  show ?thesis
    by (auto simp: esl_recv_event_def recv_fail_def recv_finish_def Let_def lock unlock body recv_wait_bystanders
        io_map_bind io_bind_map split: option.split intro!: io_bind_eq)
qed

lemma recv_timed_bystanders:
  "esl_recv_event_timed A F (bystanders q e r h) ms False True net =
     io_map (\<lambda>(st, w, g, n). (st, w, bystanders q e r g, n)) (esl_recv_event_timed A F h ms False True net)"
proof -
  have unlock: "h_unlock (bystanders q e r g) = io_map (bystanders q e r) (h_unlock g)" for g
    by (auto simp: h_unlock_def io_map_bind intro!: io_bind_eq)
  have act: "recv_activity (bystanders q e r h) net = recv_activity h net" by (simp add: recv_activity_def)
  show ?thesis
    by (auto simp: esl_recv_event_timed_def recv_event_bystanders act unlock io_map_bind io_bind_map
        intro!: io_bind_eq)
qed

lemma io_map_done [fault_simps]: "io_map f m = Some (Inr y) \<longleftrightarrow> (\<exists>x. m = Some (Inr x) \<and> y = f x)"
  by (auto simp: io_map_def fault_simps)

lemma bystanders_twice [simp]: "bystanders q e r (bystanders q' e' r' h) = bystanders q e r h"
  by (simp add: bystanders_def)

section \<open>The queue of events\<close>

text \<open>
  The events that receiving again and again hands over, without any queue: \<open>recv_seq\<close> runs
  through a given sequence of them.
\<close>

fun recv_seq ::
  "allocator \<Rightarrow> 'd double_ops \<Rightarrow> nat \<Rightarrow> esl_event list \<Rightarrow> esl_handle \<Rightarrow> net \<Rightarrow> (esl_handle \<times> net) option" where
  "recv_seq A F ms [] h net = Some (h, net)"
| "recv_seq A F ms (e # es) h net =
     (case esl_recv_event_timed A F h ms False True net of
        Some (Inr (st, Some e', h1, net1)) \<Rightarrow> if e' = e then recv_seq A F ms es h1 net1 else None
      | _ \<Rightarrow> None)"

lemma recv_seq_bystanders:
  "recv_seq A F ms es (bystanders q e r h) net =
     map_option (\<lambda>(g, n). (bystanders q e r g, n)) (recv_seq A F ms es h net)"
  by (induction es arbitrary: h net)
     (auto simp: recv_timed_bystanders io_map_def io_bind_def io_return_def split: option.split sum.split)

lemma sr_reset_bystanders:
  "sr_reset h = bystanders (h_race_event h) None (NUL # tl (h_last_sr_reply h)) h"
  by (simp add: sr_reset_def bystanders_def)

lemma send_recv_loop_events:
  assumes "send_recv_loop A F ms h net = Some (Inr (st, h', net'))" "h_mutex h = Some (Suc n)"
  shows "\<exists>es. h_race_event h' = h_race_event h @ es \<and> list_all race_for es \<and> h_mutex h' = Some n \<and>
    recv_seq A F ms es h net \<noteq> None \<and>
    (\<forall>e. h_last_sr_event h' = Some e \<longrightarrow> \<not> race_for e \<and> recv_seq A F ms (es @ [e]) h net \<noteq> None)"
  using assms
proof (induction A F ms h net arbitrary: st h' net' rule: send_recv_loop.induct)
  case (1 A F ms h net)
  note step = "1.prems"(1) [unfolded send_recv_loop.simps [of A F ms h net]]
  obtain status r h1 net1 where t: "esl_recv_event_timed A F (sr_reset h) ms False True net = Some (Inr (status, r, h1, net1))"
    using step by (auto simp: fault_simps)
  then obtain g where g: "esl_recv_event_timed A F h ms False True net = Some (Inr (status, r, g, net1))"
      "h1 = bystanders (h_race_event h) None (NUL # tl (h_last_sr_reply h)) g"
    by (auto simp: sr_reset_bystanders recv_timed_bystanders fault_simps)
  have keep: "h_race_event h1 = h_race_event h" "h_mutex h1 = Some (Suc n)" "h_last_sr_event h1 = None"
    using recv_timed_result [OF t] "1.prems"(2) by (auto simp: recv_keeps_def sr_reset_def)
  show ?case
  proof (cases r)
    case None
    then show ?thesis using step t keep by (auto simp: fault_simps intro!: exI [of _ "[]"])
  next
    case (Some e)
    have seq: "recv_seq A F ms (e # es) h net = recv_seq A F ms es g net1" for es
      using g(1) Some by simp
    show ?thesis
    proof (cases "race_for e")
      case False
      let ?k = "sr_keep_reply e (h1\<lparr>h_last_sr_event := Some e\<rparr>)"
      have k: "h_mutex ?k = Some (Suc n)" "h_race_event ?k = h_race_event h" "h_last_sr_event ?k = Some e"
        using keep by (auto simp: sr_keep_reply_def split: option.split)
      then have "h' = ?k\<lparr>h_mutex := Some n\<rparr>" using step t Some False by (auto simp: fault_simps)
      then show ?thesis using k False seq [of "[]"] by (intro exI [of _ "[]"]) simp
    next
      case True
      let ?h4 = "h1\<lparr>h_race_event := h_race_event h1 @ [e], h_last_sr_event := None\<rparr>"
      have id: "?h4\<lparr>h_mutex := Some (Suc n)\<rparr> = ?h4" using keep(2) by simp
      have h4: "?h4 = bystanders (h_race_event h @ [e]) None (NUL # tl (h_last_sr_reply h)) g"
        using g(2) keep(1) by (simp add: bystanders_def)
      have un: "h_unlock ?h4 = Some (Inr (?h4\<lparr>h_mutex := Some n\<rparr>))" using keep(2) by (simp add: fault_simps)
      have lk: "h_lock (?h4\<lparr>h_mutex := Some n\<rparr>) = Some (Inr ?h4)" using id by (simp add: fault_simps)
      show ?thesis
      proof (cases "h_usable ?h4")
        case False
        then have "io_bind (h_unlock (?h4\<lparr>h_connected := False\<rparr>)) (\<lambda>h5. io_return (ESL_FAIL, h5, net1)) =
            Some (Inr (st, h', net'))"
          using step t Some True un lk by (simp add: Let_def)
        then have "h' = ?h4\<lparr>h_connected := False, h_mutex := Some n\<rparr>"
          using keep(2) by (auto simp: fault_simps)
        then show ?thesis using keep True seq [of "[]"] by (intro exI [of _ "[e]"]) simp
      next
        case u: True
        have "send_recv_loop A F ms ?h4 net1 = Some (Inr (st, h', net'))"
          using step t Some True un lk u by (simp add: Let_def)
        then obtain es where es: "h_race_event h' = h_race_event ?h4 @ es" "list_all race_for es" "h_mutex h' = Some n"
            "recv_seq A F ms es ?h4 net1 \<noteq> None"
            "\<forall>e. h_last_sr_event h' = Some e \<longrightarrow> \<not> race_for e \<and> recv_seq A F ms (es @ [e]) ?h4 net1 \<noteq> None"
          using "1.IH" [OF t refl refl refl Some True refl un lk] u keep(2) by auto
        have "recv_seq A F ms fs ?h4 net1 \<noteq> None \<longleftrightarrow> recv_seq A F ms (e # fs) h net \<noteq> None" for fs
          unfolding h4 seq by (simp add: recv_seq_bystanders)
        then show ?thesis using es keep(1) True by (intro exI [of _ "e # es"]) auto
      qed
    qed
  qed
qed

text \<open>Taking \<open>n\<close> events, the queue first.\<close>

fun take_queued ::
  "allocator \<Rightarrow> 'd double_ops \<Rightarrow> nat \<Rightarrow> esl_handle \<Rightarrow> net \<Rightarrow> (esl_event list \<times> esl_handle) io" where
  "take_queued A F 0 h net = io_return ([], h)"
| "take_queued A F (Suc n) h net =
     io_bind (esl_recv_event A F h True True net) (\<lambda>(st, r, h1, net1).
       io_map (\<lambda>(es, h2). (case r of None \<Rightarrow> es | Some e \<Rightarrow> e # es, h2)) (take_queued A F n h1 net1))"

lemma recv_event_queued:
  assumes "h_usable h" "h_mutex h = Some n" "h_race_event h = e # es"
  shows "esl_recv_event A F h True True net =
    io_return (ESL_SUCCESS, Some e, h\<lparr>h_last_ievent := None, h_race_event := es, h_mutex := Some n\<rparr>, net)"
  using assms
  by (simp add: esl_recv_event_def h_lock_def esl_mutex_lock_def h_usable_def recv_finish_def h_unlock_def
      esl_mutex_unlock_def)

lemma take_queued_all:
  "h_usable h \<Longrightarrow> h_mutex h = Some n \<Longrightarrow>
   \<exists>h2. take_queued A F (length (h_race_event h)) h net = io_return (h_race_event h, h2) \<and> h_race_event h2 = []"
proof (induction "h_race_event h" arbitrary: h)
  case (Cons e es)
  let ?h1 = "h\<lparr>h_last_ievent := None, h_race_event := es, h_mutex := Some n\<rparr>"
  have "h_usable ?h1" "h_mutex ?h1 = Some n" "es = h_race_event ?h1"
    using Cons.prems by (simp_all add: h_usable_def)
  then obtain h2 where "take_queued A F (length es) ?h1 net = io_return (es, h2)" "h_race_event h2 = []"
    using Cons.hyps(1) [of ?h1] by auto
  then show ?case
    using recv_event_queued [OF Cons.prems Cons.hyps(2) [symmetric], of A F net] Cons.hyps(2) [symmetric] by simp
qed simp

lemma recv_event_mutex:
  assumes "esl_recv_event A F h check_q save net = Some (Inr (st, r, h', net'))"
  shows "h_mutex h' = h_mutex h"
proof (cases "check_q \<and> h_usable h \<and> h_race_event h \<noteq> []")
  case False
  have "esl_recv_event A F h check_q save net = esl_recv_event A F h False save net"
  proof (cases "h_usable h")
    case True
    then have "h_race_event h = [] \<or> \<not> check_q" using False by auto
    moreover have "h_lock h = Some (Inr g) \<Longrightarrow> h_race_event g = h_race_event h" for g by (auto simp: fault_simps)
    ultimately show ?thesis
      by (auto simp: esl_recv_event_def Let_def intro!: io_bind_eq split: list.splits bool.splits)
  qed (simp add: esl_recv_event_def)
  then have "esl_recv_event A F h False save net = Some (Inr (st, r, h', net'))" using assms by simp
  from recv_event_result [OF this] show ?thesis by (simp add: recv_keeps_def)
next
  case True
  then obtain e es where q: "h_race_event h = e # es" by (cases "h_race_event h") auto
  obtain n where n: "h_mutex h = Some n" using assms True by (auto simp: esl_recv_event_def fault_simps)
  have lock: "h_lock h = Some (Inr (h\<lparr>h_mutex := Some (Suc n)\<rparr>))" using n by (simp add: fault_simps)
  have u: "h_usable (h\<lparr>h_mutex := Some (Suc n)\<rparr>)" using True by (simp add: h_usable_def)
  have "recv_finish F save e (h\<lparr>h_mutex := Some (Suc n), h_last_ievent := None, h_race_event := es\<rparr>) net =
      Some (Inr (st, r, h', net'))"
    using assms True q lock u by (simp add: esl_recv_event_def Let_def)
  from recv_finish_result [OF this, of n] show ?thesis using n by (simp add: recv_keeps_def)
qed

lemma recv_timed_mutex:
  assumes "esl_recv_event_timed A F h ms check_q save net = Some (Inr (st, r, h', net'))"
  shows "h_mutex h' = h_mutex h"
proof (cases "ms = 0 \<or> \<not> h_usable h")
  case True
  then show ?thesis using assms
    by (auto simp: esl_recv_event_timed_def fault_simps dest: recv_event_mutex split: if_splits)
next
  case False
  define pre where "pre = (if check_q
      then io_bind (h_lock h) (\<lambda>h1. io_bind (recv_queued h1) (\<lambda>q. io_bind (h_unlock h1) (\<lambda>h2. io_return (q, h2))))
      else io_return (False, h))"
  obtain q h2 where q: "pre = Some (Inr (q, h2))"
    using assms False by (auto simp: esl_recv_event_timed_def pre_def [symmetric] fault_simps)
  have m2: "h_mutex h2 = h_mutex h" using q by (auto simp: pre_def fault_simps split: if_splits)
  show ?thesis
  proof (cases q)
    case True
    then have "esl_recv_event A F h2 check_q save net = Some (Inr (st, r, h', net'))"
      using assms False q by (simp add: esl_recv_event_timed_def pre_def [symmetric])
    then show ?thesis using m2 recv_event_mutex by metis
  next
    case nq: False
    obtain a net1 where a: "recv_activity h2 net = Some (Inr (a, net1))"
      using assms False q nq by (auto simp: esl_recv_event_timed_def pre_def [symmetric] fault_simps)
    show ?thesis
    proof (cases "a < 0 \<or> a = 0 \<or> \<not> bit a 0")
      case True
      then show ?thesis using assms False q nq a m2
        by (auto simp: esl_recv_event_timed_def pre_def [symmetric] fault_simps split: if_splits)
    next
      case go: False
      obtain lk m net2 where t: "esl_mutex_trylock (h_mutex h2) net1 = Inr (lk, m, net2)"
        using assms False q nq a go by (auto simp: esl_recv_event_timed_def pre_def [symmetric] fault_simps)
      have m: "lk \<noteq> ESL_SUCCESS \<longrightarrow> m = h_mutex h2"
        "lk = ESL_SUCCESS \<longrightarrow> (\<exists>n. h_mutex h2 = Some n \<and> m = Some (Suc n))"
        using t by (auto simp: esl_mutex_trylock_def split: option.splits list.splits bool.splits)
      show ?thesis
      proof (cases "lk = ESL_SUCCESS")
        case lf: False
        then show ?thesis using assms False q nq a go t m m2
          by (auto simp: esl_recv_event_timed_def pre_def [symmetric] fault_simps)
      next
        case True
        then obtain n where n: "h_mutex h2 = Some n" "m = Some (Suc n)" using m by blast
        obtain st0 r0 h3 net3 where e: "esl_recv_event A F (h2\<lparr>h_mutex := m\<rparr>) check_q save net2 = Some (Inr (st0, r0, h3, net3))"
            and h': "(if h_mutex h3 = None then io_return h3 else h_unlock h3) = Some (Inr h')"
          using assms False q nq a go t True by (auto simp: esl_recv_event_timed_def pre_def [symmetric] fault_simps)
        have "h_mutex h3 = Some (Suc n)" using recv_event_mutex [OF e] n by simp
        then show ?thesis using h' n m2 by (auto simp: fault_simps)
      qed
    qed
  qed
qed

lemma send_recv_mutex:
  assumes "esl_send_recv_timed A F h cmd ms net = Some (Inr (st, h', net'))"
  shows "h_mutex h' = h_mutex h"
proof (cases "h_usable h")
  case False
  then show ?thesis using assms by (auto simp: esl_send_recv_timed_def fault_simps)
next
  case True
  obtain n where n: "h_mutex h = Some n" using assms True by (auto simp: esl_send_recv_timed_def fault_simps)
  let ?h1 = "h\<lparr>h_mutex := Some (Suc n)\<rparr>"
  have lock: "h_lock h = Some (Inr ?h1)" "h_usable ?h1" using n True by (simp_all add: fault_simps h_usable_def)
  then obtain s h2 net1 where s: "esl_send (sr_reset ?h1) cmd net = Some (Inr (s, h2, net1))"
    using assms True by (auto simp: esl_send_recv_timed_def fault_simps)
  have h2: "h_mutex h2 = Some (Suc n)"
    using s by (auto simp: esl_send_def fault_simps sr_reset_def split: if_splits prod.splits bool.splits)
  show ?thesis
  proof (cases "s = ESL_SUCCESS")
    case ok: True
    then have "send_recv_loop A F ms h2 net1 = Some (Inr (st, h', net'))"
      using assms True lock s by (simp add: esl_send_recv_timed_def)
    from send_recv_loop_events [OF this h2] show ?thesis using n by auto
  next
    case False
    then have "h_unlock h2 = Some (Inr h')" using assms True lock s by (auto simp: esl_send_recv_timed_def fault_simps)
    then show ?thesis using h2 n by (auto simp: fault_simps)
  qed
qed

lemma net_send_open: "net_sends net = [] \<Longrightarrow> net_send s net = (True, net\<lparr>net_out := net_out net @ [s]\<rparr>)"
  by (simp add: net_send_def)

lemma cmd_ends_cases:
  "cmd_ends cmd = (if cmd = [] \<or> cmd = [LF] then Inl OutOfBounds else Inr (suffix [LF, LF] cmd))"
proof (cases "rev cmd")
  case (Cons e r)
  then have "cmd = rev r @ [e]" by (metis rev.simps(2) rev_rev_ident)
  then show ?thesis
    by (cases r) (auto simp: cmd_ends_def suffix_def append_eq_append_conv2 Cons_eq_append_conv append_eq_Cons_conv)
qed (simp add: cmd_ends_def)

definition opt_line :: "string \<Rightarrow> string option \<Rightarrow> string" where
  "opt_line lbl v = (case v of None \<Rightarrow> [] | Some t \<Rightarrow> lbl @ t @ [LF])"

definition execute_flags :: "bool \<Rightarrow> bool \<Rightarrow> string" where
  "execute_flags event_lock async =
     (if event_lock then ''event-lock: true'' @ [LF] else []) @ (if async then ''async: true'' @ [LF] else []) @ [LF]"

definition text_at_most :: "nat \<Rightarrow> string option \<Rightarrow> bool" where
  "text_at_most n v \<longleftrightarrow> (case v of None \<Rightarrow> True | Some t \<Rightarrow> length t \<le> n)"

lemma execute_text_shape:
  assumes "text_at_most 119 uuid" "text_at_most 492 app"
  shows "execute_text event_lock async app arg uuid =
    ''sendmsg'' @ opt_text '' '' uuid @ [LF] @ ''call-command: execute'' @ [LF] @
    opt_line ''execute-app-name: '' app @
    (case arg of None \<Rightarrow> [] | Some a \<Rightarrow> take 4095 (''execute-app-arg: '' @ a @ [LF])) @ execute_flags event_lock async"
proof -
  define argb where "argb = (case arg of None \<Rightarrow> [] | Some a \<Rightarrow> take 4095 (''execute-app-arg: '' @ a @ [LF]))"
  have al: "length argb \<le> 4095" by (auto simp: argb_def split: option.split)
  have ab: "(case arg of None \<Rightarrow> [] | Some a \<Rightarrow> snprintf_text 4096 (''execute-app-arg: '' @ a @ [LF])) = argb"
    by (auto simp: argb_def snprintf_text_def split: option.split)
  have cm: "(case uuid of None \<Rightarrow> ''sendmsg'' | Some u \<Rightarrow> snprintf_text 128 (''sendmsg '' @ u)) = ''sendmsg'' @ opt_text '' '' uuid"
    using assms(1) by (cases uuid) (simp_all add: text_at_most_def opt_text_def)
  have ap: "(case app of None \<Rightarrow> [] | Some a \<Rightarrow> snprintf_text 512 (''execute-app-name: '' @ a @ [LF])) =
      opt_line ''execute-app-name: '' app"
    using assms(2) by (cases app) (simp_all add: text_at_most_def opt_line_def)
  have l1: "length (opt_text '' '' uuid) \<le> 120" "length (opt_line ''execute-app-name: '' app) \<le> 511"
    using assms by (auto simp: text_at_most_def opt_text_def opt_line_def split: option.splits)
  have l2: "length (execute_flags event_lock async) \<le> 30" by (simp add: execute_flags_def)
  show ?thesis
    unfolding execute_text_def Let_def cm ap ab argb_def [symmetric] execute_flags_def [symmetric] append_assoc
    using al l1 l2 by (intro snprintf_text_fits) simp
qed

section \<open>Properties\<close>

text \<open>
  C19. Receiving is the inverse of serializing: when the serialized text of an event is in the
  packet buffer, \<open>esl_recv_event\<close> delivers that event (behind the header that names it socket
  data), and leaves exactly the text behind it for the next message.
\<close>

theorem recv_event_round_trip:
  assumes "h_usable h" and "h_mutex h = Some n" and "h_packet_buf h = Some b"
    and "buf_wf b" and "buf_sentinel b" and "NUL \<notin> set (buf_content b)"
    and "wire_event (ev_headers socket_event) ev"
    and "esl_event_serialize ev True = Inr t" and "buf_content b = t @ rest"
    and "length t \<le> SOCKET_ROOM"
    and "\<And>m. m \<le> Suc (length t) \<Longrightarrow> malloc_ok A m"
  shows "\<exists>h' b'. esl_recv_event A F h False True net = io_return (ESL_SUCCESS,
      Some (socket_event\<lparr>ev_headers := ev_headers socket_event @ wire_lines ev, ev_body := ev_body ev\<rparr>), h', net) \<and>
    h_packet_buf h' = Some b' \<and> buf_wf b' \<and> buf_content b' = rest \<and> recv_keeps h h'"
  using assms by (rule recv_event_wire)

definition wit_handle :: "string \<Rightarrow> esl_handle" where
  "wit_handle t = zero_handle\<lparr>h_sock := 5, h_connected := True, h_mutex := Some 0,
     h_packet_buf := Some \<lparr>buf_data = Some (t @ [NUL]), buf_head = 0, buf_used = length t,
       buf_actually_used = length t, buf_datalen = Suc (length t), buf_max_len = 0, buf_blocksize = 1,
       buf_id = 0, buf_loops = 0\<rparr>\<rparr>"

definition wit_net :: net where
  "wit_net = \<lparr>net_polls = [], net_recvs = [], net_sends = [], net_locks = [], net_out = [], net_closed = [],
     net_buffer_id = 0\<rparr>"

definition wit_alloc :: allocator where
  "wit_alloc = \<lparr>can_alloc = (\<lambda>n. n < 1000), raw_byte = (\<lambda>n. NUL)\<rparr>"

lemma wit_handle_ok:
  assumes "cstring t"
  shows "h_usable (wit_handle t)" "h_mutex (wit_handle t) = Some 0"
    "\<exists>b. h_packet_buf (wit_handle t) = Some b \<and> (length t < 2 ^ 62 \<longrightarrow> buf_wf b) \<and> buf_sentinel b \<and> buf_content b = t"
  using assms
  by (auto simp: wit_handle_def h_usable_def ESL_SOCK_INVALID_def buf_wf_def buf_sentinel_def sentinel_def
      buf_content_def)

text \<open>One short event, its text, and what is received for it.\<close>

definition wit_digit :: esl_event where
  "wit_digit = empty_event\<lparr>ev_headers := [named_header ''DTMF-Digit'' ''5'' []]\<rparr>"

lemma wit_digit_wire: "wire_event (ev_headers socket_event) wit_digit"
  by (simp add: wit_digit_def socket_event_eq wire_event_def wire_header_def wire_lines_def header_plain_def
      plain_name_def plain_value_def sublist_Cons_right wire_name_def ser_plain_def ser_new_len_def
      header_named_def strcaseeq_def c_tolower_def empty_event_def char_eval)

lemma wit_digit_text: "esl_event_serialize wit_digit True = Inr (''DTMF-Digit: 5'' @ [LF, LF])"
  using serialize_wire [OF wit_digit_wire]
  by (simp add: wit_digit_def wire_lines_def ser_line_def ser_value_def url_enc_char_def url_is_unsafe_def
      urlunsafe_def schar_def empty_event_def char_eval)

theorem recv_event_round_trip_witness:
  "\<exists>h' b'. esl_recv_event wit_alloc unit_ops (wit_handle (''DTMF-Digit: 5'' @ [LF, LF] @ ''rest'')) False True wit_net =
     io_return (ESL_SUCCESS, Some (socket_event\<lparr>ev_headers := ev_headers socket_event @ wire_lines wit_digit,
        ev_body := ev_body wit_digit\<rparr>), h', wit_net) \<and>
     h_packet_buf h' = Some b' \<and> buf_content b' = ''rest''"
proof -
  let ?t = "''DTMF-Digit: 5'' @ [LF, LF]"
  have c: "cstring (?t @ ''rest'')" by simp
  obtain b where b: "h_packet_buf (wit_handle (?t @ ''rest'')) = Some b" "buf_wf b" "buf_sentinel b"
      "buf_content b = ?t @ ''rest''"
    using wit_handle_ok(3) [OF c] by auto
  have "NUL \<notin> set (buf_content b)" using b(4) by simp
  from recv_event_round_trip [OF wit_handle_ok(1,2) [OF c] b(1,2,3) this wit_digit_wire wit_digit_text b(4),
      of wit_alloc unit_ops wit_net]
  show ?thesis by (auto simp: SOCKET_ROOM_def wit_alloc_def malloc_ok_def)
qed

text \<open>
  C20. A command that waits for its reply loses no event and keeps their order: the events that
  receiving hands over before the reply, and no others, are at the end of the queue in the
  order of their arrival, the event kept as the reply is the next one, and taking events
  afterwards gives the whole queue from its front.
\<close>

theorem send_recv_keeps_events:
  assumes "esl_send_recv_timed A F h cmd ms net = Some (Inr (st, h', net'))"
    and "h_usable h" and "h_mutex h = Some n"
    and "esl_send (sr_reset (h\<lparr>h_mutex := Some (Suc n)\<rparr>)) cmd net = Some (Inr (ESL_SUCCESS, h1, net1))"
  shows "\<exists>es. h_race_event h' = h_race_event h @ es \<and> list_all race_for es \<and>
    recv_seq A F ms es h1 net1 \<noteq> None \<and>
    (\<forall>e. h_last_sr_event h' = Some e \<longrightarrow> \<not> race_for e \<and> recv_seq A F ms (es @ [e]) h1 net1 \<noteq> None) \<and>
    (h_usable h' \<longrightarrow> (\<exists>g. take_queued A F (length (h_race_event h')) h' net' = io_return (h_race_event h @ es, g)))"
proof -
  have lock: "h_lock h = Some (Inr (h\<lparr>h_mutex := Some (Suc n)\<rparr>))" "h_usable (h\<lparr>h_mutex := Some (Suc n)\<rparr>)"
    using assms(2,3) by (simp_all add: fault_simps h_usable_def)
  have loop: "send_recv_loop A F ms h1 net1 = Some (Inr (st, h', net'))"
    using assms(1,2,4) lock by (simp add: esl_send_recv_timed_def)
  have h1: "h_mutex h1 = Some (Suc n)" "h_race_event h1 = h_race_event h"
    using assms(4) by (auto simp: esl_send_def fault_simps sr_reset_def split: if_splits prod.splits bool.splits)
  obtain es where es: "h_race_event h' = h_race_event h1 @ es" "list_all race_for es" "h_mutex h' = Some n"
      "recv_seq A F ms es h1 net1 \<noteq> None"
      "\<forall>e. h_last_sr_event h' = Some e \<longrightarrow> \<not> race_for e \<and> recv_seq A F ms (es @ [e]) h1 net1 \<noteq> None"
    using send_recv_loop_events [OF loop h1(1)] by blast
  then show ?thesis using take_queued_all [of h' n A F net'] h1(2) by auto
qed

lemma wit_reply_step:
  assumes "h_usable h" "h_mutex h = Some n" "h_packet_buf h = Some b" "buf_wf b" "buf_sentinel b"
    and "buf_content b = hdr @ [LF, LF] @ rest" "cstring rest" "cstring hdr" "packet_end (hdr @ [LF, LF] @ rest) = Some k"
    and "k = length hdr + 2" "k \<le> SOCKET_ROOM" "packet_event (hdr @ [LF, LF]) = e"
    and "esl_event_get_header e ''content-length'' = None"
  shows "\<exists>b'. esl_recv_event_timed A F h 0 False True net =
      io_return (ESL_SUCCESS, Some e, h\<lparr>h_last_ievent := None, h_packet_buf := Some b', h_mutex := Some n\<rparr>, net) \<and>
    buf_wf b' \<and> buf_sentinel b' \<and> buf_content b' = rest"
proof -
  have "NUL \<notin> set (buf_content b)" "packet_end (buf_content b) = Some k"
    "packet_event (take k (buf_content b)) = e" "drop k (buf_content b) = rest"
    using assms(6-12) by (simp_all add: cstring_def)
  then show ?thesis
    using recv_event_packet [OF assms(1-5), of k A F net] assms(11,13) by (simp add: esl_recv_event_timed_def)
qed

definition wit_type :: "string \<Rightarrow> esl_event_header" where
  "wit_type t = named_header ''Content-Type'' t []"

lemma wit_type_message:
  assumes "wire_header (wit_type t)" "ser_line True (wit_type t) = ''Content-Type: '' @ t @ [LF]" "cstring t"
  defines "e \<equiv> socket_event\<lparr>ev_headers := ev_headers socket_event @ [wit_type t]\<rparr>"
  shows "packet_event ((''Content-Type: '' @ t) @ [LF, LF]) = e"
    "packet_end ((''Content-Type: '' @ t) @ [LF, LF] @ rest) = Some (length (''Content-Type: '' @ t) + 2)"
    "esl_event_get_header e ''content-length'' = None" "esl_event_get_header e ''content-type'' = Some t"
    "esl_event_get_header e ''reply-text'' = None"
proof -
  have line: "concat (map (ser_line True) [wit_type t]) = ''Content-Type: '' @ t @ [LF]" using assms(2) by simp
  have ws: "wire_headers (ev_headers socket_event) [wit_type t]" using assms(1) by (simp add: wit_type_def)
  have "cstring (''Content-Type: '' @ t @ [LF])" using assms(3) by simp
  from packet_event_wire [OF ws, unfolded line] this
  show "packet_event ((''Content-Type: '' @ t) @ [LF, LF]) = e" by (simp add: e_def)
  show "packet_end ((''Content-Type: '' @ t) @ [LF, LF] @ rest) = Some (length (''Content-Type: '' @ t) + 2)"
    using packet_end_lines [of "[wit_type t]" rest, unfolded line] assms(1) by simp
  have wf: "event_wf e" by (simp add: e_def socket_event_eq event_wf_def wit_type_def empty_event_def)
  have "header_lookup e ''content-length'' = None" "header_lookup e ''content-type'' = Some t"
      "header_lookup e ''reply-text'' = None"
    by (simp_all add: e_def socket_event_eq wit_type_def header_lookup_def header_named_def strcaseeq_def
        c_tolower_def char_eval)
  then show "esl_event_get_header e ''content-length'' = None" "esl_event_get_header e ''content-type'' = Some t"
    "esl_event_get_header e ''reply-text'' = None"
    using wf by (simp_all add: get_header_lookup)
qed

lemma wit_types:
  "wire_header (wit_type ''text/x'')" "ser_line True (wit_type ''text/x'') = ''Content-Type: '' @ ''text/x'' @ [LF]"
  "wire_header (wit_type ''command/reply'')"
  "ser_line True (wit_type ''command/reply'') = ''Content-Type: '' @ ''command/reply'' @ [LF]"
  by (simp_all add: wit_type_def wire_header_def header_plain_def plain_name_def plain_value_def sublist_Cons_right
      wire_name_def ser_plain_def ser_line_def ser_value_def url_enc_char_def url_is_unsafe_def urlunsafe_def
      schar_def char_eval)

lemma wit_race: "race_for (socket_event\<lparr>ev_headers := ev_headers socket_event @ [wit_type ''text/x'']\<rparr>)"
  "\<not> race_for (socket_event\<lparr>ev_headers := ev_headers socket_event @ [wit_type ''command/reply'']\<rparr>)"
  using wit_type_message(4) [OF wit_types(1,2)] wit_type_message(4) [OF wit_types(3,4)]
  by (simp_all add: race_for_def strcaseeq_def c_tolower_def char_eval)

definition wit_dialogue :: string where
  "wit_dialogue = (''Content-Type: '' @ ''text/x'') @ [LF, LF] @ (''Content-Type: '' @ ''command/reply'') @ [LF, LF] @ []"

definition wit_sent :: net where
  "wit_sent = wit_net\<lparr>net_out := [''abc'', [LF, LF]]\<rparr>"

lemma wit_dialogue_send:
  "esl_send (sr_reset ((wit_handle wit_dialogue)\<lparr>h_mutex := Some 1\<rparr>)) ''abc'' wit_net =
     io_return (ESL_SUCCESS, sr_reset ((wit_handle wit_dialogue)\<lparr>h_mutex := Some 1\<rparr>), wit_sent)"
proof -
  have "h_usable (wit_handle wit_dialogue)" by (rule wit_handle_ok(1)) (simp add: wit_dialogue_def)
  then show ?thesis
    by (simp add: esl_send_def h_usable_def sr_reset_def cmd_ends_def net_send_def wit_net_def wit_sent_def)
qed

lemma wit_dialogue_runs:
  "\<exists>st h' net'. esl_send_recv_timed wit_alloc unit_ops (wit_handle wit_dialogue) ''abc'' 0 wit_net = Some (Inr (st, h', net')) \<and>
     h_race_event h' = [socket_event\<lparr>ev_headers := ev_headers socket_event @ [wit_type ''text/x'']\<rparr>]"
proof -
  let ?h = "wit_handle wit_dialogue" and ?t1 = "''Content-Type: '' @ ''text/x''"
    and ?t2 = "''Content-Type: '' @ ''command/reply''"
  let ?e1 = "socket_event\<lparr>ev_headers := ev_headers socket_event @ [wit_type ''text/x'']\<rparr>"
  let ?e2 = "socket_event\<lparr>ev_headers := ev_headers socket_event @ [wit_type ''command/reply'']\<rparr>"
  let ?r = "?t2 @ [LF, LF] @ []"
  have c: "cstring wit_dialogue" by (simp add: wit_dialogue_def)
  obtain b where b: "h_packet_buf ?h = Some b" "buf_wf b" "buf_sentinel b" "buf_content b = ?t1 @ [LF, LF] @ ?r"
    using wit_handle_ok(3) [OF c] by (auto simp: wit_dialogue_def)
  let ?h1 = "?h\<lparr>h_mutex := Some 1\<rparr>"
  note send = wit_dialogue_send
  have u: "h_usable (sr_reset (sr_reset ?h1))" using wit_handle_ok(1) [OF c] by (simp add: h_usable_def sr_reset_def)
  have "h_mutex (sr_reset (sr_reset ?h1)) = Some 1" "h_packet_buf (sr_reset (sr_reset ?h1)) = Some b"
    using b(1) by (simp_all add: sr_reset_def)
  from wit_reply_step [OF u this b(2-4) _ _ _ refl _ wit_type_message(1) [OF wit_types(1,2)]
      wit_type_message(3) [OF wit_types(1,2)], of wit_alloc unit_ops wit_sent]
  obtain b1 where s1: "esl_recv_event_timed wit_alloc unit_ops (sr_reset (sr_reset ?h1)) 0 False True wit_sent =
        io_return (ESL_SUCCESS, Some ?e1,
          (sr_reset (sr_reset ?h1))\<lparr>h_last_ievent := None, h_packet_buf := Some b1, h_mutex := Some 1\<rparr>, wit_sent)"
      and b1: "buf_wf b1" "buf_sentinel b1" "buf_content b1 = ?r"
    using wit_type_message(2) [OF wit_types(1,2), of ?r] by (auto simp: SOCKET_ROOM_def)
  let ?g = "(sr_reset (sr_reset ?h1))\<lparr>h_last_ievent := None, h_packet_buf := Some b1, h_race_event := [?e1],
      h_last_sr_event := None, h_mutex := Some 1\<rparr>"
  have u2: "h_usable (sr_reset ?g)" using u by (simp add: h_usable_def sr_reset_def)
  have "h_mutex (sr_reset ?g) = Some 1" "h_packet_buf (sr_reset ?g) = Some b1" by (simp_all add: sr_reset_def)
  from wit_reply_step [OF u2 this b1 _ _ _ refl _ wit_type_message(1) [OF wit_types(3,4)]
      wit_type_message(3) [OF wit_types(3,4)], of wit_alloc unit_ops wit_sent]
  obtain b2 where s2: "esl_recv_event_timed wit_alloc unit_ops (sr_reset ?g) 0 False True wit_sent =
        io_return (ESL_SUCCESS, Some ?e2,
          (sr_reset ?g)\<lparr>h_last_ievent := None, h_packet_buf := Some b2, h_mutex := Some 1\<rparr>, wit_sent)"
    using wit_type_message(2) [OF wit_types(3,4), of "[]"] by (auto simp: SOCKET_ROOM_def)
  have un: "h_unlock x = io_return (x\<lparr>h_mutex := Some (n - 1)\<rparr>)" if "h_mutex x = Some n" for x n
    using that by (simp add: h_unlock_def esl_mutex_unlock_def)
  have lk: "h_lock x = io_return (x\<lparr>h_mutex := Some (Suc n)\<rparr>)" if "h_mutex x = Some n" for x n
    using that by (simp add: h_lock_def esl_mutex_lock_def)
  have loop2: "send_recv_loop wit_alloc unit_ops 0 ?g wit_sent =
      io_return (ESL_SUCCESS, (sr_keep_reply ?e2 ((sr_reset ?g)\<lparr>h_last_ievent := None, h_packet_buf := Some b2,
        h_mutex := Some 1, h_last_sr_event := Some ?e2\<rparr>))\<lparr>h_mutex := Some 0\<rparr>, wit_sent)"
    using s2 wit_race(2) wit_type_message(5) [OF wit_types(3,4)]
    by (subst send_recv_loop.simps) (simp add: un sr_keep_reply_def)
  have race0: "h_race_event ?h = []" by (simp add: wit_handle_def zero_handle_def)
  have gu: "h_usable ?g" using u by (simp add: h_usable_def)
  have "send_recv_loop wit_alloc unit_ops 0 (sr_reset ?h1) wit_sent = send_recv_loop wit_alloc unit_ops 0 ?g wit_sent"
    using s1 wit_race(1) gu race0 by (subst send_recv_loop.simps) (simp add: un lk Let_def sr_reset_def)
  then show ?thesis
    using loop2 send wit_handle_ok(1,2) [OF c] lk [of ?h 0] wit_type_message(5) [OF wit_types(3,4)]
    by (simp add: esl_send_recv_timed_def h_usable_def sr_keep_reply_def io_return_def sr_reset_def)
qed

theorem send_recv_keeps_events_witness:
  "\<exists>st h' net' es. esl_send_recv_timed wit_alloc unit_ops (wit_handle wit_dialogue) ''abc'' 0 wit_net = Some (Inr (st, h', net')) \<and>
     h_race_event h' = [socket_event\<lparr>ev_headers := ev_headers socket_event @ [wit_type ''text/x'']\<rparr>] \<and>
     h_race_event h' = es \<and> list_all race_for es"
proof -
  obtain st h' net' where r: "esl_send_recv_timed wit_alloc unit_ops (wit_handle wit_dialogue) ''abc'' 0 wit_net =
        Some (Inr (st, h', net'))"
      "h_race_event h' = [socket_event\<lparr>ev_headers := ev_headers socket_event @ [wit_type ''text/x'']\<rparr>]"
    using wit_dialogue_runs by blast
  have c: "cstring wit_dialogue" by (simp add: wit_dialogue_def)
  have "esl_send (sr_reset ((wit_handle wit_dialogue)\<lparr>h_mutex := Some (Suc 0)\<rparr>)) ''abc'' wit_net =
      Some (Inr (ESL_SUCCESS, sr_reset ((wit_handle wit_dialogue)\<lparr>h_mutex := Some (Suc 0)\<rparr>), wit_sent))"
    using wit_dialogue_send by (simp add: io_return_def)
  from send_recv_keeps_events [OF r(1) wit_handle_ok(1,2) [OF c] this]
  have "\<exists>es. h_race_event h' = es \<and> list_all race_for es"
    by (auto simp: wit_handle_def zero_handle_def)
  then show ?thesis using r by blast
qed

text \<open>
  Every operation on a handle leaves its mutex as it found it, on every path through
  receiving (with or without the queue, with or without a time limit) and through sending a
  command: locks and unlocks are balanced.
\<close>

theorem handle_locks_balanced:
  "(esl_recv_event A F h check_q save net = Some (Inr (st, r, h', net')) \<longrightarrow> h_mutex h' = h_mutex h) \<and>
   (esl_recv_event_timed A F h ms check_q save net = Some (Inr (st, r, h', net')) \<longrightarrow> h_mutex h' = h_mutex h) \<and>
   (esl_send_recv_timed A F h cmd ms net = Some (Inr (st, h', net')) \<longrightarrow> h_mutex h' = h_mutex h)"
  by (intro conjI impI) (erule recv_event_mutex recv_timed_mutex send_recv_mutex)+

theorem handle_locks_balanced_witness:
  "\<exists>st h' net'. esl_send_recv_timed wit_alloc unit_ops (wit_handle wit_dialogue) ''abc'' 0 wit_net = Some (Inr (st, h', net')) \<and>
     h_mutex h' = h_mutex (wit_handle wit_dialogue)"
  using wit_dialogue_runs handle_locks_balanced by blast

text \<open>
  What \<open>esl_send\<close> puts on the socket ends with an empty line: the command itself when it does,
  otherwise two line feeds are sent behind it. A command of no character, or of a line feed
  alone, makes it read in front of the text.
\<close>

theorem send_ends_with_blank_line:
  assumes "h_usable h" and "net_sends net = []"
  shows "esl_send h cmd net =
    (if cmd = [] \<or> cmd = [LF] then Some (Inl OutOfBounds)
     else io_return (ESL_SUCCESS, h,
            net\<lparr>net_out := net_out net @ (if suffix [LF, LF] cmd then [cmd] else [cmd, [LF, LF]])\<rparr>))"
  using assms by (simp add: esl_send_def net_send_open cmd_ends_cases)

theorem send_ends_with_blank_line_witness:
  "esl_send (wit_handle []) ''events'' wit_net = io_return (ESL_SUCCESS, wit_handle [],
     wit_net\<lparr>net_out := [''events'', [LF, LF]]\<rparr>)"
proof -
  have "h_usable (wit_handle [])" "net_sends wit_net = []"
    using wit_handle_ok(1) [of "[]"] by (simp_all add: wit_net_def)
  from send_ends_with_blank_line [OF this, of "''events''"] show ?thesis
    by (simp add: suffix_def append_eq_Cons_conv Cons_eq_append_conv wit_net_def)
qed

text \<open>
  \<open>esl_execute\<close> sends exactly the lines of its message when the identifier, the application and
  its argument fit into their buffers: at most 119, 492 and 4077 characters.
\<close>

theorem execute_text_exact:
  assumes "text_at_most 119 uuid" and "text_at_most 492 app" and "text_at_most 4077 arg"
  shows "execute_text event_lock async app arg uuid =
    ''sendmsg'' @ opt_text '' '' uuid @ [LF] @ ''call-command: execute'' @ [LF] @
    opt_line ''execute-app-name: '' app @ opt_line ''execute-app-arg: '' arg @ execute_flags event_lock async"
  using execute_text_shape [OF assms(1,2)] assms(3)
  by (cases arg) (simp_all add: opt_line_def text_at_most_def)

theorem execute_text_exact_witness:
  "execute_text True False (Some ''playback'') (Some ''a.wav'') None =
     ''sendmsg'' @ [LF] @ ''call-command: execute'' @ [LF] @ ''execute-app-name: playback'' @ [LF] @
     ''execute-app-arg: a.wav'' @ [LF] @ ''event-lock: true'' @ [LF, LF]"
  using execute_text_exact [of None "Some ''playback''" "Some ''a.wav''" True False]
  by (simp add: text_at_most_def opt_text_def opt_line_def execute_flags_def)

text \<open>
  A longer argument is cut at 4078 characters together with the end of its line, so the
  lines behind it become part of the argument.
\<close>

theorem execute_argument_swallows_line:
  assumes "text_at_most 119 uuid" and "text_at_most 492 app" and "4078 \<le> length a"
  shows "execute_text True async app (Some a) uuid =
    ''sendmsg'' @ opt_text '' '' uuid @ [LF] @ ''call-command: execute'' @ [LF] @
    opt_line ''execute-app-name: '' app @ ''execute-app-arg: '' @ take 4078 a @ ''event-lock: true'' @ [LF] @
    execute_flags False async"
  using execute_text_shape [OF assms(1,2), of True async "Some a"] assms(3)
  by (simp add: execute_flags_def)

theorem execute_argument_swallows_line_witness:
  "execute_text True False None (Some (replicate 5000 CHR ''x'')) None =
    ''sendmsg'' @ [LF] @ ''call-command: execute'' @ [LF] @ ''execute-app-arg: '' @
    replicate 4078 CHR ''x'' @ ''event-lock: true'' @ [LF, LF]"
  using execute_argument_swallows_line [of None None "replicate 5000 CHR ''x''" False]
  by (simp add: text_at_most_def opt_text_def opt_line_def execute_flags_def)

text \<open>
  C31. The length a peer announces is trusted: a message with the length -1 makes the receiver
  write in front of the block it allocates, and one with a smaller length ends the program.
\<close>

definition length_message :: "string \<Rightarrow> string" where
  "length_message n = ''Content-Length: '' @ n @ [LF, LF]"

lemma length_message_event:
  assumes "n = ''-1'' \<or> n = ''-2''"
  shows "packet_event (length_message n) = socket_event\<lparr>ev_headers := ev_headers socket_event @ [named_header ''Content-Length'' n []]\<rparr>"
    "packet_end (length_message n @ rest) = Some (length (length_message n))"
    "esl_event_get_header (packet_event (length_message n)) ''content-length'' = Some n"
proof -
  let ?h = "named_header ''Content-Length'' n []"
  have h: "wire_header ?h" "ser_line True ?h = ''Content-Length: '' @ n @ [LF]" "cstring n"
    using assms by (auto simp: wire_header_def header_plain_def plain_name_def plain_value_def sublist_Cons_right
        wire_name_def ser_plain_def ser_line_def ser_value_def url_enc_char_def url_is_unsafe_def urlunsafe_def
        schar_def char_eval)
  have line: "concat (map (ser_line True) [?h]) = ''Content-Length: '' @ n @ [LF]" using h(2) by simp
  have ws: "wire_headers (ev_headers socket_event) [?h]" using h(1) by simp
  have "cstring (''Content-Length: '' @ n @ [LF])" using h(3) by simp
  from packet_event_wire [OF ws, unfolded line] this
  show pe: "packet_event (length_message n) = socket_event\<lparr>ev_headers := ev_headers socket_event @ [?h]\<rparr>"
    by (simp add: length_message_def)
  show "packet_end (length_message n @ rest) = Some (length (length_message n))"
    using packet_end_lines [of "[?h]" rest, unfolded line] h(1) by (simp add: length_message_def)
  have "event_wf (packet_event (length_message n))" by (simp add: pe socket_event_eq event_wf_def empty_event_def)
  moreover have "header_lookup (packet_event (length_message n)) ''content-length'' = Some n"
    by (simp add: pe socket_event_eq header_lookup_def header_named_def strcaseeq_def c_tolower_def char_eval)
  ultimately show "esl_event_get_header (packet_event (length_message n)) ''content-length'' = Some n"
    by (simp add: get_header_lookup)
qed

theorem recv_negative_length:
  assumes "h_usable h" and "h_mutex h = Some m" and "h_packet_buf h = Some b" and "buf_wf b" and "buf_sentinel b"
    and "NUL \<notin> set (buf_content b)" and "malloc_ok A 0"
  shows "(buf_content b = length_message ''-1'' @ rest \<longrightarrow>
            esl_recv_event A F h False save net = Some (Inl OutOfBounds)) \<and>
         (buf_content b = length_message ''-2'' @ rest \<longrightarrow>
            esl_recv_event A F h False save net = Some (Inl AssertFailed))"
proof -
  let ?h1 = "h\<lparr>h_mutex := Some (Suc m), h_last_ievent := None\<rparr>"
  have lock: "h_lock h = io_return (h\<lparr>h_mutex := Some (Suc m)\<rparr>)"
    using assms(2) by (simp add: h_lock_def esl_mutex_lock_def)
  have u: "h_usable (h\<lparr>h_mutex := Some (Suc m)\<rparr>)" using assms(1) by (simp add: h_usable_def)
  have run: "esl_recv_event A F h False save net = Some (Inl f)"
    if n: "n = ''-1'' \<or> n = ''-2''" and c: "buf_content b = length_message n @ rest"
      and f: "f = (if n = ''-1'' then OutOfBounds else AssertFailed)" for n f
  proof -
    have k: "packet_end (buf_content b) = Some (length (length_message n))"
      using length_message_event(2) [OF n] c by simp
    have "length (length_message n) \<le> SOCKET_ROOM" using n by (auto simp: length_message_def SOCKET_ROOM_def)
    moreover have "h_connected ?h1" "h_packet_buf ?h1 = Some b" using assms(1,3) by (simp_all add: h_usable_def)
    ultimately obtain b1 where w: "recv_wait A ?h1 net =
        io_return (Some (packet_event (length_message n)), ?h1\<lparr>h_packet_buf := Some b1\<rparr>, net)"
      using recv_wait_packet [of ?h1 b "length (length_message n)" A net] assms(4-6) k c by auto
    have "c_atol n = (if n = ''-1'' then -1 else -2)"
      using n by (auto simp: c_atol_def c_strtol10_def Let_def c_isspace_def c_isdigit_def digit_val_def char_eval)
    moreover have "\<not> malloc_ok A (nat ((-2 + 1) mod 2 ^ 64))" by (simp add: malloc_ok_def)
    ultimately have "recv_body A (packet_event (length_message n)) g net = Some (Inl f)" for g
      using n f assms(7) length_message_event(3) [OF n] by (auto simp: recv_body_def Let_def)
    then show ?thesis using assms(1) lock u w by (simp add: esl_recv_event_def Let_def)
  qed
  show ?thesis using run [of "''-1''" OutOfBounds] run [of "''-2''" AssertFailed] by simp
qed

theorem recv_negative_length_witness:
  "esl_recv_event wit_alloc unit_ops (wit_handle (length_message ''-1'' @ [])) False False wit_net = Some (Inl OutOfBounds)"
proof -
  have c: "cstring (length_message ''-1'' @ [])" by (simp add: length_message_def)
  obtain b where b: "h_packet_buf (wit_handle (length_message ''-1'' @ [])) = Some b" "buf_wf b" "buf_sentinel b"
      "buf_content b = length_message ''-1'' @ []"
    using wit_handle_ok(3) [OF c] by (auto simp: length_message_def)
  have "NUL \<notin> set (buf_content b)" "malloc_ok wit_alloc 0"
    using b(4) by (simp_all add: length_message_def wit_alloc_def malloc_ok_def)
  from recv_negative_length [OF wit_handle_ok(1,2) [OF c] b(1-3) this, of "[]" unit_ops False wit_net]
  show ?thesis using b(4) by blast
qed

end
