(* ===== verification/EslObject.thy ===== *)
theory EslObject
  imports EslHandle EslConfig
begin

text \<open>
  The classes over the event socket library (\<^verbatim>\<open>esl/esl_oop.cpp\<close>, \<^verbatim>\<open>esl/esl_oop.h\<close>): \<^verbatim>\<open>ESLevent\<close> holds an event
  and a place in its list of headers, \<^verbatim>\<open>ESLconnection\<close> a handle. A pointer into the list is the position of the
  header it points to; it dangles when that header has been freed, and is wild when nothing has set it.
\<close>

section \<open>Events\<close>

datatype header_pos = NoPos | Pos nat | Dangling | Wild

record ESLevent =
  oe_hp :: header_pos
  oe_event :: "esl_event option"
  oe_serialized :: "string option"
  oe_mine :: bool

definition event_construct_common :: ESLevent where
  "event_construct_common = \<lparr>oe_hp = NoPos, oe_event = None, oe_serialized = None, oe_mine = False\<rparr>"

definition ESL_EVENT_MESSAGE :: esl_event_type where "ESL_EVENT_MESSAGE = 37"

definition esl_strlen_zero :: "string option \<Rightarrow> bool" where
  "esl_strlen_zero s \<longleftrightarrow> s = None \<or> s = Some []"

definition ESLevent_new :: "'d double_ops \<Rightarrow> string \<Rightarrow> string option \<Rightarrow> ESLevent c_result" where
  "ESLevent_new F type subclass_name =
     (if strcaseeq type ''json'' \<and> \<not> esl_strlen_zero subclass_name
      then res_bind (esl_event_create_json F (the subclass_name)) (\<lambda>(st, ev).
             if st \<noteq> ESL_SUCCESS then Inr (event_construct_common\<lparr>oe_event := ev\<rparr>)
             else if ev = None then Inl NullPointer
             else Inr (event_construct_common\<lparr>oe_event := ev, oe_mine := True\<rparr>))
      else
        let event_id = (case esl_name_event type of None \<Rightarrow> ESL_EVENT_MESSAGE | Some t \<Rightarrow> t);
            event_id' = (if \<not> esl_strlen_zero subclass_name \<and> event_id \<noteq> ESL_EVENT_CUSTOM then ESL_EVENT_CUSTOM else event_id)
        in res_bind (esl_event_create_subclass event_id' subclass_name) (\<lambda>(st, ev).
             Inr (event_construct_common\<lparr>oe_event := if st \<noteq> ESL_SUCCESS then None else ev, oe_mine := True\<rparr>)))"

definition ESLevent_wrap :: "esl_event option \<Rightarrow> bool \<Rightarrow> ESLevent" where
  "ESLevent_wrap wrap_me free_me = event_construct_common\<lparr>oe_event := wrap_me, oe_mine := free_me\<rparr>"

text \<open>The new object and what is left of the other; the place in the list is not set.\<close>

definition ESLevent_take :: "ESLevent \<Rightarrow> ESLevent \<times> ESLevent" where
  "ESLevent_take me =
     (\<lparr>oe_hp = Wild, oe_event = oe_event me, oe_serialized = None, oe_mine = oe_mine me\<rparr>,
      me\<lparr>oe_event := None, oe_mine := False, oe_serialized := None\<rparr>)"

text \<open>What the destructor frees.\<close>

definition ESLevent_delete :: "ESLevent \<Rightarrow> esl_event option" where
  "ESLevent_delete me = (if oe_mine me then oe_event me else None)"

section \<open>Headers\<close>

definition headers_of :: "ESLevent \<Rightarrow> esl_event_header list" where
  "headers_of me = (case oe_event me of None \<Rightarrow> [] | Some ev \<Rightarrow> ev_headers ev)"

definition nextHeader :: "ESLevent \<Rightarrow> (string option \<times> ESLevent) c_result" where
  "nextHeader me =
     (case oe_hp me of
        NoPos \<Rightarrow> Inr (None, me)
      | Pos i \<Rightarrow>
          if i < length (headers_of me)
          then Inr (Some (hdr_name (headers_of me ! i)),
                    me\<lparr>oe_hp := if Suc i < length (headers_of me) then Pos (Suc i) else NoPos\<rparr>)
          else Inl OutOfBounds
      | _ \<Rightarrow> Inl OutOfBounds)"

definition firstHeader :: "ESLevent \<Rightarrow> (string option \<times> ESLevent) c_result" where
  "firstHeader me =
     nextHeader (case oe_event me of
                   None \<Rightarrow> me
                 | Some ev \<Rightarrow> me\<lparr>oe_hp := if ev_headers ev = [] then NoPos else Pos 0\<rparr>)"

text \<open>
  What a change of the list does to a place in it: a new header may go to the front. A deletion leaves the other headers in their order, and the
  header at a place is gone when the ones up to it are one fewer than those before it and itself.
\<close>

definition pos_del :: "string \<Rightarrow> esl_event_header list \<Rightarrow> header_pos \<Rightarrow> header_pos" where
  "pos_del name hs hp =
     (case hp of
        Pos i \<Rightarrow>
          (let before = length (del_headers name None (-1) (take i hs));
               upto = length (del_headers name None (-1) (take (Suc i) hs))
           in if upto = before then Dangling else Pos before)
      | _ \<Rightarrow> hp)"

definition add_deletes :: "esl_event \<Rightarrow> esl_stack \<Rightarrow> string \<Rightarrow> string \<Rightarrow> string option" where
  "add_deletes ev stack header_name data =
     (case split_header_name header_name of
        (Some _, _) \<Rightarrow> None
      | (None, name) \<Rightarrow>
          if stack_array stack \<and> esl_event_get_header_ptr ev (Some name) \<noteq> None then None
          else if data = [] \<or> ev_uniq_headers ev then Some name else None)"

definition add_in_front :: "esl_event \<Rightarrow> esl_stack \<Rightarrow> string \<Rightarrow> string \<Rightarrow> bool" where
  "add_in_front ev stack header_name data \<longleftrightarrow>
     stack_test stack ESL_STACK_TOP \<and>
     (case split_header_name header_name of
        (Some index, name) \<Rightarrow> esl_event_get_header_ptr ev (Some name) = None \<and> -1 < index \<and> index \<le> 4000
      | (None, name) \<Rightarrow>
          esl_event_get_header_ptr ev (Some name) = None \<and> data \<noteq> [] \<and> strstr data ''ARRAY::'' = None)"

definition pos_add :: "esl_event \<Rightarrow> esl_stack \<Rightarrow> string \<Rightarrow> string \<Rightarrow> header_pos \<Rightarrow> header_pos" where
  "pos_add ev stack name data hp =
     (let hp1 = (case add_deletes ev stack name data of None \<Rightarrow> hp | Some n \<Rightarrow> pos_del n (ev_headers ev) hp)
      in case (add_in_front ev stack name data, hp1) of (True, Pos i) \<Rightarrow> Pos (Suc i) | _ \<Rightarrow> hp1)"

section \<open>Operations on events\<close>

definition serialize :: "'d double_ops \<Rightarrow> string option \<Rightarrow> ESLevent \<Rightarrow> (string \<times> ESLevent) c_result" where
  "serialize F format me =
     (let me1 = me\<lparr>oe_serialized := None\<rparr>;
          fmt = (case format of None \<Rightarrow> ''text'' | Some f \<Rightarrow> f)
      in case oe_event me of
           None \<Rightarrow> Inr ([], me1)
         | Some ev \<Rightarrow>
             res_bind (if strcaseeq fmt ''json'' then esl_event_serialize_json F ev else esl_event_serialize ev True) (\<lambda>s.
             Inr (s, me1\<lparr>oe_serialized := Some s\<rparr>)))"

definition setPriority :: "esl_priority \<Rightarrow> ESLevent \<Rightarrow> bool \<times> ESLevent" where
  "setPriority priority me =
     (case oe_event me of
        None \<Rightarrow> (False, me)
      | Some ev \<Rightarrow>
          (True, me\<lparr>oe_event := Some (snd (esl_event_set_priority ev priority)),
                    oe_hp := pos_add ev ESL_STACK_TOP ''priority'' (esl_priority_name priority) (oe_hp me)\<rparr>))"

definition getHeader :: "string option \<Rightarrow> int \<Rightarrow> ESLevent \<Rightarrow> string option" where
  "getHeader header_name idx me =
     (case oe_event me of None \<Rightarrow> None | Some ev \<Rightarrow> esl_event_get_header_idx ev header_name idx)"

definition stack_header :: "esl_stack \<Rightarrow> string \<Rightarrow> string option \<Rightarrow> ESLevent \<Rightarrow> bool \<times> ESLevent" where
  "stack_header stack header_name val me =
     (case oe_event me of
        None \<Rightarrow> (False, me)
      | Some ev \<Rightarrow>
          (case esl_event_add_header_string ev stack header_name val of
             (st, ev') \<Rightarrow>
               (st = ESL_SUCCESS,
                me\<lparr>oe_event := Some ev',
                   oe_hp := (case val of None \<Rightarrow> oe_hp me | Some d \<Rightarrow> pos_add ev stack header_name d (oe_hp me))\<rparr>)))"

definition addHeader :: "string \<Rightarrow> string option \<Rightarrow> ESLevent \<Rightarrow> bool \<times> ESLevent" where
  "addHeader = stack_header ESL_STACK_BOTTOM"

definition pushHeader :: "string \<Rightarrow> string option \<Rightarrow> ESLevent \<Rightarrow> bool \<times> ESLevent" where
  "pushHeader = stack_header ESL_STACK_PUSH"

definition unshiftHeader :: "string \<Rightarrow> string option \<Rightarrow> ESLevent \<Rightarrow> bool \<times> ESLevent" where
  "unshiftHeader = stack_header ESL_STACK_UNSHIFT"

definition delHeader :: "string \<Rightarrow> ESLevent \<Rightarrow> bool \<times> ESLevent" where
  "delHeader header_name me =
     (case oe_event me of
        None \<Rightarrow> (False, me)
      | Some ev \<Rightarrow>
          (case esl_event_del_header_val ev header_name None of
             (st, ev') \<Rightarrow>
               (st = ESL_SUCCESS, me\<lparr>oe_event := Some ev', oe_hp := pos_del header_name (ev_headers ev) (oe_hp me)\<rparr>)))"

text \<open>The text is an argument of the format, not the format itself.\<close>

definition addBody :: "string \<Rightarrow> ESLevent \<Rightarrow> (bool \<times> ESLevent) c_result" where
  "addBody val me =
     (case oe_event me of
        None \<Rightarrow> Inr (False, me)
      | Some ev \<Rightarrow>
          res_bind (c_printf [val] ''%s'') (\<lambda>t.
          case esl_event_add_body ev (Some (Some t)) of (st, ev') \<Rightarrow> Inr (st = ESL_SUCCESS, me\<lparr>oe_event := Some ev'\<rparr>)))"

definition getBody :: "ESLevent \<Rightarrow> string option" where
  "getBody me = esl_event_get_body (oe_event me)"

definition getType :: "ESLevent \<Rightarrow> string c_result" where
  "getType me = (case oe_event me of None \<Rightarrow> Inr ''invalid'' | Some ev \<Rightarrow> esl_event_name (ev_id ev))"

section \<open>Connections\<close>

type_synonym 'd world = "allocator \<times> 'd double_ops"

text \<open>The results: the event handed out, if any, the handle, and what is left of the answers of the system.\<close>

type_synonym event_result = "(ESLevent option \<times> esl_handle \<times> net) io"

definition ESLconnection_new ::
  "'d world \<Rightarrow> bool \<Rightarrow> connect_env \<Rightarrow> string option \<Rightarrow> string \<Rightarrow> net \<Rightarrow> (esl_handle \<times> net) io" where
  "ESLconnection_new W mutex_ok env user password net =
     io_bind (esl_connect_timeout (fst W) (snd W) mutex_ok env zero_handle user password 0 net) (\<lambda>(st, h, net1).
       io_return (h, net1))"

text \<open>With the port as a text; the environment answers for the port it stands for.\<close>

definition ESLconnection_port ::
  "'d world \<Rightarrow> bool \<Rightarrow> (int \<Rightarrow> connect_env) \<Rightarrow> string option \<Rightarrow> string option \<Rightarrow> string \<Rightarrow> net \<Rightarrow> (esl_handle \<times> net) io" where
  "ESLconnection_port W mutex_ok env port user password net =
     (case port of
        None \<Rightarrow> io_return (zero_handle, net)
      | Some p \<Rightarrow> ESLconnection_new W mutex_ok (env (c_atoi p)) user password net)"

definition ESLconnection_socket :: "'d world \<Rightarrow> bool \<Rightarrow> int \<Rightarrow> net \<Rightarrow> (esl_handle \<times> net) io" where
  "ESLconnection_socket W mutex_ok sock net =
     io_bind (esl_attach_handle (fst W) (snd W) mutex_ok zero_handle sock net) (\<lambda>(st, h, net1). io_return (h, net1))"

definition ESLconnection_delete :: "esl_handle \<Rightarrow> net \<Rightarrow> esl_handle \<times> net" where
  "ESLconnection_delete h net = (if \<not> h_destroyed h then snd (esl_disconnect h net) else (h, net))"

definition socketDescriptor :: "esl_handle \<Rightarrow> int" where
  "socketDescriptor h = (if h_connected h then h_sock h else -1)"

definition oo_disconnect :: "esl_handle \<Rightarrow> net \<Rightarrow> esl_status \<times> esl_handle \<times> net" where
  "oo_disconnect h net = (if \<not> h_destroyed h then esl_disconnect h net else (ESL_SUCCESS, h, net))"

definition oo_connected :: "esl_handle \<Rightarrow> bool" where
  "oo_connected h = h_connected h"

definition oo_send :: "string \<Rightarrow> esl_handle \<Rightarrow> net \<Rightarrow> (esl_status \<times> esl_handle \<times> net) io" where
  "oo_send cmd h net = esl_send h cmd net"

text \<open>An event of the handle is copied for the caller; without one the copy reads a null pointer.\<close>

definition dup_event :: "esl_event option \<Rightarrow> ESLevent option io" where
  "dup_event e =
     (case e of
        None \<Rightarrow> Some (Inl NullPointer)
      | Some ev \<Rightarrow> io_bind (Some (esl_event_dup ev)) (\<lambda>(st, d). io_return (Some (ESLevent_wrap d True))))"

definition reply_event :: "esl_status \<times> esl_handle \<times> net \<Rightarrow> event_result" where
  "reply_event r =
     (case r of (st, h, net) \<Rightarrow>
        if st = ESL_SUCCESS then io_bind (dup_event (h_last_sr_event h)) (\<lambda>e. io_return (e, h, net))
        else io_return (None, h, net))"

definition sendRecv :: "'d world \<Rightarrow> string \<Rightarrow> esl_handle \<Rightarrow> net \<Rightarrow> event_result" where
  "sendRecv W cmd h net = io_bind (esl_send_recv (fst W) (snd W) h cmd net) reply_event"

definition or_empty :: "string option \<Rightarrow> string" where
  "or_empty s = (case s of None \<Rightarrow> [] | Some t \<Rightarrow> t)"

definition api :: "'d world \<Rightarrow> string option \<Rightarrow> string option \<Rightarrow> esl_handle \<Rightarrow> net \<Rightarrow> event_result" where
  "api W cmd arg h net =
     (case cmd of
        None \<Rightarrow> io_return (None, h, net)
      | Some c \<Rightarrow>
          let len = length c + length (or_empty arg) + 10
          in if \<not> malloc_ok (fst W) (len + 1) then Some (Inl AssertFailed)
             else sendRecv W (snprintf_text len (''api '' @ c @ '' '' @ or_empty arg)) h net)"

definition bgapi ::
  "'d world \<Rightarrow> string option \<Rightarrow> string option \<Rightarrow> string option \<Rightarrow> esl_handle \<Rightarrow> net \<Rightarrow> event_result" where
  "bgapi W cmd arg job_uuid h net =
     (case cmd of
        None \<Rightarrow> io_return (None, h, net)
      | Some c \<Rightarrow>
          let len = length c + length (or_empty arg) + (case job_uuid of None \<Rightarrow> 0 | Some u \<Rightarrow> length u + 12) + 10;
              line = ''bgapi '' @ c @ (if arg = None then [] else '' '') @ or_empty arg
          in if \<not> malloc_ok (fst W) (len + 1) then Some (Inl AssertFailed)
             else sendRecv W (snprintf_text len
                    (case job_uuid of None \<Rightarrow> line | Some u \<Rightarrow> line @ [LF] @ ''Job-UUID: '' @ u)) h net)"

definition getInfo :: "esl_handle \<Rightarrow> ESLevent option io" where
  "getInfo h = (if h_connected h \<and> h_info_event h \<noteq> None then dup_event (h_info_event h) else io_return None)"

definition setAsyncExecute :: "string option \<Rightarrow> esl_handle \<Rightarrow> bool \<times> esl_handle" where
  "setAsyncExecute val h =
     (let h1 = (if val = None then h else h\<lparr>h_async_execute := esl_true val\<rparr>) in (h_async_execute h1, h1))"

definition setEventLock :: "string option \<Rightarrow> esl_handle \<Rightarrow> bool \<times> esl_handle" where
  "setEventLock val h =
     (let h1 = (if val = None then h else h\<lparr>h_event_lock := esl_true val\<rparr>) in (h_event_lock h1, h1))"

definition oo_execute ::
  "'d world \<Rightarrow> string option \<Rightarrow> string option \<Rightarrow> string option \<Rightarrow> esl_handle \<Rightarrow> net \<Rightarrow> event_result" where
  "oo_execute W app arg uuid h net = io_bind (esl_execute (fst W) (snd W) h app arg uuid net) reply_event"

definition executeAsync ::
  "'d world \<Rightarrow> string option \<Rightarrow> string option \<Rightarrow> string option \<Rightarrow> esl_handle \<Rightarrow> net \<Rightarrow> event_result" where
  "executeAsync W app arg uuid h net =
     io_bind (esl_execute (fst W) (snd W) (h\<lparr>h_async_execute := True\<rparr>) app arg uuid net) (\<lambda>(st, h1, net1).
       reply_event (st, h1\<lparr>h_async_execute := h_async_execute h\<rparr>, net1))"

text \<open>The event received last, or the one that stands for the end of the connection.\<close>

definition gone_event :: "'d world \<Rightarrow> esl_handle \<Rightarrow> net \<Rightarrow> event_result" where
  "gone_event W h net =
     io_bind (Some (ESLevent_new (snd W) ''server_disconnected'' None)) (\<lambda>e. io_return (Some e, h, net))"

definition newest_event :: "esl_handle \<Rightarrow> esl_event option" where
  "newest_event h = (case h_last_ievent h of None \<Rightarrow> h_last_event h | Some e \<Rightarrow> Some e)"

definition last_event_or_gone :: "'d world \<Rightarrow> esl_status \<Rightarrow> esl_handle \<Rightarrow> net \<Rightarrow> event_result" where
  "last_event_or_gone W st h net =
     (if st = ESL_SUCCESS \<and> newest_event h \<noteq> None
      then io_bind (dup_event (newest_event h)) (\<lambda>e. io_return (e, h, net))
      else gone_event W h net)"

definition sendEvent :: "'d world \<Rightarrow> ESLevent \<Rightarrow> esl_handle \<Rightarrow> net \<Rightarrow> event_result" where
  "sendEvent W send_me h net =
     io_bind (esl_sendevent (fst W) (snd W) h (oe_event send_me) net) (\<lambda>(st, h1, net1). last_event_or_gone W st h1 net1)"

text \<open>\<open>esl_sendmsg\<close> serialises the event whether there is one or not.\<close>

definition sendMSG :: "'d world \<Rightarrow> ESLevent \<Rightarrow> string option \<Rightarrow> esl_handle \<Rightarrow> net \<Rightarrow> (int \<times> esl_handle \<times> net) io" where
  "sendMSG W send_me uuid h net =
     (case oe_event send_me of
        None \<Rightarrow> if h_usable h then Some (Inl NullPointer) else io_return (1, h, net)
      | Some ev \<Rightarrow>
          io_bind (esl_sendmsg (fst W) (snd W) h ev uuid net) (\<lambda>(st, h1, net1).
            io_return (if st = ESL_SUCCESS then 0 else 1, h1, net1)))"

definition recvEvent :: "'d world \<Rightarrow> esl_handle \<Rightarrow> net \<Rightarrow> event_result" where
  "recvEvent W h net =
     io_bind (esl_recv_event (fst W) (snd W) h True False net) (\<lambda>(st, r, h1, net1). last_event_or_gone W st h1 net1)"

definition recvEventTimed :: "'d world \<Rightarrow> int \<Rightarrow> esl_handle \<Rightarrow> net \<Rightarrow> event_result" where
  "recvEventTimed W ms h net =
     io_bind (esl_recv_event_timed (fst W) (snd W) h (nat (ms mod 2 ^ 32)) True False net) (\<lambda>(st, r, h1, net1).
       if st = ESL_SUCCESS \<and> newest_event h1 \<noteq> None
       then io_bind (dup_event (newest_event h1)) (\<lambda>e. io_return (e, h1, net1))
       else io_return (None, h1, net1))"

definition oo_filter :: "'d world \<Rightarrow> string \<Rightarrow> string \<Rightarrow> esl_handle \<Rightarrow> net \<Rightarrow> event_result" where
  "oo_filter W header val h net =
     io_bind (esl_filter (fst W) (snd W) h header val net) (\<lambda>(st, h1, net1).
       if st = ESL_SUCCESS \<and> h_last_sr_event h1 \<noteq> None
       then io_bind (dup_event (h_last_sr_event h1)) (\<lambda>e. io_return (e, h1, net1))
       else io_return (None, h1, net1))"

definition oo_events :: "'d world \<Rightarrow> string \<Rightarrow> string \<Rightarrow> esl_handle \<Rightarrow> net \<Rightarrow> (esl_status \<times> esl_handle \<times> net) io" where
  "oo_events W etype val h net =
     esl_events (fst W) (snd W) h
       (if etype = ''xml'' then ESL_EVENT_TYPE_XML else if etype = ''json'' then ESL_EVENT_TYPE_JSON else ESL_EVENT_TYPE_PLAIN)
       val net"

section \<open>What the commands leave in the handle\<close>

text \<open>Receiving the reply of a command: it is the caller's, and what was received before stays.\<close>

lemma recv_saved:
  assumes "esl_recv_event A F h False True net = Some (Inr (st, r, h', net'))"
  shows "(st = ESL_SUCCESS \<longleftrightarrow> r \<noteq> None) \<and> h_last_event h' = h_last_event h \<and> (r \<noteq> None \<longrightarrow> h_last_ievent h' = None)"
proof (cases "h_usable h")
  case False
  then show ?thesis using assms by (auto simp: esl_recv_event_def fault_simps)
next
  case True
  then obtain n where n: "h_mutex h = Some n" using assms by (auto simp: esl_recv_event_def fault_simps)
  let ?h1 = "h\<lparr>h_mutex := Some (Suc n), h_last_ievent := None\<rparr>"
  have lock: "h_lock h = Some (Inr (h\<lparr>h_mutex := Some (Suc n)\<rparr>))" using n by (simp add: fault_simps)
  have u: "h_usable (h\<lparr>h_mutex := Some (Suc n)\<rparr>)" using True by (simp add: h_usable_def)
  obtain w h2 net2 where w: "recv_wait A ?h1 net = Some (Inr (w, h2, net2))"
    using assms True lock u by (auto simp: esl_recv_event_def Let_def fault_simps split: list.splits)
  obtain pb where h2: "h2 = ?h1\<lparr>h_packet_buf := pb\<rparr>" using recv_wait_frame [OF w] by (auto simp: buf_only_def)
  show ?thesis
  proof (cases w)
    case None
    then show ?thesis using assms True lock u w h2
      by (auto simp: esl_recv_event_def Let_def recv_fail_def fault_simps)
  next
    case (Some e)
    obtain b h3 net3 where b: "recv_body A e h2 net2 = Some (Inr (b, h3, net3))"
      using assms True lock u w Some by (auto simp: esl_recv_event_def Let_def fault_simps)
    obtain pb' where "h3 = h2\<lparr>h_packet_buf := pb'\<rparr>" using recv_body_event [OF b] by (auto simp: buf_only_def)
    then show ?thesis using assms True lock u w Some b h2
      by (cases b) (auto simp: esl_recv_event_def Let_def recv_fail_def recv_finish_def fault_simps)
  qed
qed

lemma send_loop_reply:
  "send_recv_loop A F 0 h net = Some (Inr (st, h', net')) \<Longrightarrow>
   h_last_event h' = h_last_event h \<and> (st = ESL_SUCCESS \<longrightarrow> h_last_sr_event h' \<noteq> None \<and> h_last_ievent h' = None)"
proof (induction "unread h net" arbitrary: h net rule: less_induct)
  case less
  obtain st1 r h1 net1 where r: "esl_recv_event A F (sr_reset h) False True net = Some (Inr (st1, r, h1, net1))"
    using less.prems by (subst (asm) send_recv_loop.simps) (auto simp: esl_recv_event_timed_def fault_simps)
  note keep = recv_saved [OF r]
  have unr: "r \<noteq> None \<longrightarrow> unread h1 net1 < unread h net"
    using recv_event_result [OF r] by (simp add: unread_def sr_reset_def)
  have run: "(case r of
         None \<Rightarrow> io_bind (h_unlock h1) (\<lambda>h2. io_return (st1, h2, net1))
       | Some e \<Rightarrow>
           if race_for e
           then (let h2 = h1\<lparr>h_race_event := h_race_event h1 @ [e], h_last_sr_event := None\<rparr>
                 in io_bind (h_unlock h2) (\<lambda>h3. io_bind (h_lock h3) (\<lambda>h4.
                      if \<not> h_usable h4
                      then io_bind (h_unlock (h4\<lparr>h_connected := False\<rparr>)) (\<lambda>h5. io_return (ESL_FAIL, h5, net1))
                      else send_recv_loop A F 0 h4 net1)))
           else io_bind (h_unlock (sr_keep_reply e (h1\<lparr>h_last_sr_event := Some e\<rparr>))) (\<lambda>h2.
                  io_return (st1, h2, net1))) = Some (Inr (st, h', net'))"
    using less.prems r by (subst (asm) send_recv_loop.simps) (simp add: esl_recv_event_timed_def)
  show ?case
  proof (cases r)
    case None
    then show ?thesis using run keep by (auto simp: fault_simps sr_reset_def)
  next
    case (Some e)
    show ?thesis
    proof (cases "race_for e")
      case True
      then obtain n where n: "h_mutex h1 = Some n" using run Some by (auto simp: Let_def fault_simps)
      define h4 where "h4 = h1\<lparr>h_race_event := h_race_event h1 @ [e], h_last_sr_event := None, h_mutex := Some (Suc (n - 1))\<rparr>"
      have "(if \<not> h_usable h4 then io_bind (h_unlock (h4\<lparr>h_connected := False\<rparr>)) (\<lambda>h5. io_return (ESL_FAIL, h5, net1))
          else send_recv_loop A F 0 h4 net1) = Some (Inr (st, h', net'))"
        using run Some True n by (auto simp: Let_def fault_simps h4_def)
      moreover have "unread h4 net1 < unread h net" using unr Some by (simp add: unread_def h4_def)
      moreover have "h_last_event h4 = h_last_event h" using keep by (simp add: h4_def sr_reset_def)
      ultimately show ?thesis using less.hyps [of h4 net1] by (auto simp: fault_simps split: if_splits)
    next
      case False
      then show ?thesis using run Some keep by (auto simp: fault_simps sr_keep_reply_def sr_reset_def split: option.splits)
    qed
  qed
qed

lemma esl_send_keeps:
  "esl_send h cmd net = Some (Inr (st, h', net')) \<Longrightarrow> h' = h \<or> h' = h\<lparr>h_connected := False\<rparr>"
  by (auto simp: esl_send_def fault_simps split: if_splits prod.splits bool.splits)

lemma send_recv_reply:
  assumes "esl_send_recv A F h cmd net = Some (Inr (st, h', net'))"
  shows "h_last_event h' = h_last_event h \<and> (st = ESL_SUCCESS \<longrightarrow> h_last_sr_event h' \<noteq> None \<and> h_last_ievent h' = None)"
proof (cases "h_usable h")
  case False
  then show ?thesis using assms by (auto simp: esl_send_recv_def esl_send_recv_timed_def fault_simps)
next
  case True
  obtain n where n: "h_mutex h = Some n" using assms True by (auto simp: esl_send_recv_def esl_send_recv_timed_def fault_simps)
  let ?h1 = "h\<lparr>h_mutex := Some (Suc n)\<rparr>"
  have u: "h_usable ?h1" using True by (simp add: h_usable_def)
  obtain st2 h2 net2 where s: "esl_send (sr_reset ?h1) cmd net = Some (Inr (st2, h2, net2))"
    using assms True n u by (auto simp: esl_send_recv_def esl_send_recv_timed_def fault_simps)
  have h2: "h_last_event h2 = h_last_event h" using esl_send_keeps [OF s] by (auto simp: sr_reset_def)
  have "(if st2 \<noteq> ESL_SUCCESS then io_bind (h_unlock h2) (\<lambda>h3. io_return (st2, h3, net2))
      else send_recv_loop A F 0 h2 net2) = Some (Inr (st, h', net'))"
    using assms True n u s by (auto simp: esl_send_recv_def esl_send_recv_timed_def fault_simps)
  then show ?thesis using h2 send_loop_reply [of A F h2 net2 st h' net'] by (auto simp: fault_simps split: if_splits)
qed

section \<open>Walking over the headers\<close>

text \<open>A client's loop: the names until there are no more, at most \<open>n\<close>.\<close>

fun next_names :: "nat \<Rightarrow> ESLevent \<Rightarrow> string list c_result" where
  "next_names 0 me = Inr []"
| "next_names (Suc n) me =
     res_bind (nextHeader me) (\<lambda>(name, me').
       case name of None \<Rightarrow> Inr [] | Some x \<Rightarrow> res_bind (next_names n me') (\<lambda>xs. Inr (x # xs)))"

definition all_names :: "nat \<Rightarrow> ESLevent \<Rightarrow> string list c_result" where
  "all_names n me =
     res_bind (firstHeader me) (\<lambda>(name, me').
       case name of None \<Rightarrow> Inr [] | Some x \<Rightarrow> res_bind (next_names n me') (\<lambda>xs. Inr (x # xs)))"

lemma nextHeader_at:
  "oe_event me = Some ev \<Longrightarrow> i < length (ev_headers ev) \<Longrightarrow> oe_hp me = Pos i \<Longrightarrow>
   nextHeader me = Inr (Some (hdr_name (ev_headers ev ! i)),
     me\<lparr>oe_hp := if Suc i < length (ev_headers ev) then Pos (Suc i) else NoPos\<rparr>)"
  by (simp add: nextHeader_def headers_of_def)

lemma next_names_from:
  "oe_event me = Some ev \<Longrightarrow> oe_hp me = (if i < length (ev_headers ev) then Pos i else NoPos) \<Longrightarrow> length (ev_headers ev) - i \<le> n \<Longrightarrow>
   next_names n me = Inr (map hdr_name (drop i (ev_headers ev)))"
proof (induction n arbitrary: i me)
  case (Suc n)
  show ?case
  proof (cases "i < length (ev_headers ev)")
    case True
    then have "next_names n (me\<lparr>oe_hp := if Suc i < length (ev_headers ev) then Pos (Suc i) else NoPos\<rparr>) =
        Inr (map hdr_name (drop (Suc i) (ev_headers ev)))"
      using Suc.prems by (intro Suc.IH) auto
    then show ?thesis using True Suc.prems nextHeader_at [of me ev i] by (simp add: Cons_nth_drop_Suc [symmetric])
  next
    case False
    then show ?thesis using Suc.prems by (simp add: nextHeader_def)
  qed
qed simp

lemma pos_del_wf:
  assumes "\<forall>h \<in> set hs. header_wf h" "i < length hs"
  shows "pos_del n hs (Pos i) =
    (if header_named n (hs ! i) then Dangling else Pos (length (filter (\<lambda>h. \<not> header_named n h) (take i hs))))"
proof -
  have "\<forall>h \<in> set (take k hs). header_wf h" for k using assms(1) by (auto dest: in_set_takeD)
  then have d: "del_headers n None (-1) (take k hs) = filter (\<lambda>h. \<not> header_named n h) (take k hs)" for k
    by (intro del_headers_wf) auto
  show ?thesis using assms(2) d [of i] d [of "Suc i"] by (simp add: pos_del_def take_Suc_conv_app_nth)
qed

lemma nth_filter_take: "k < length hs \<Longrightarrow> P (hs ! k) \<Longrightarrow> filter P hs ! length (filter P (take k hs)) = hs ! k"
  by (subst (1) id_take_nth_drop [of k hs]) (simp_all add: nth_append)

lemma length_filter_take: "k < length hs \<Longrightarrow> P (hs ! k) \<Longrightarrow> length (filter P (take k hs)) < length (filter P hs)"
  by (subst (2) id_take_nth_drop [of k hs]) simp_all

section \<open>Properties\<close>

text \<open>
  C31. Walking over the headers gives their names in order, all of them. A header may be deleted once its name
  has been given out: the walk goes on with the next header, unless that one has the same name, compared without
  case. Then it has been freed too, and the walk reads it.
\<close>

theorem header_walk:
  assumes "oe_event me = Some ev" and "event_wf ev"
  shows "(length (ev_headers ev) \<le> n \<longrightarrow> all_names n me = Inr (map hdr_name (ev_headers ev))) \<and>
    (i < length (ev_headers ev) \<and> oe_hp me = Pos i \<longrightarrow>
      (\<exists>me1 me2. nextHeader me = Inr (Some (hdr_name (ev_headers ev ! i)), me1) \<and>
        delHeader (hdr_name (ev_headers ev ! i)) me1 = (True, me2) \<and>
        res_bind (nextHeader me2) (\<lambda>(name, me3). Inr name) =
          (if Suc i = length (ev_headers ev) then Inr None
           else if strcaseeq (hdr_name (ev_headers ev ! Suc i)) (hdr_name (ev_headers ev ! i)) then Inl OutOfBounds
           else Inr (Some (hdr_name (ev_headers ev ! Suc i))))))"
proof -
  let ?hs = "ev_headers ev"
  have "all_names n me = Inr (map hdr_name ?hs)" if "length ?hs \<le> n"
  proof (cases "?hs")
    case Nil
    then show ?thesis using assms(1) by (simp add: all_names_def firstHeader_def nextHeader_def)
  next
    case (Cons h hs)
    then have "firstHeader me = Inr (Some (hdr_name h), me\<lparr>oe_hp := if 1 < length ?hs then Pos 1 else NoPos\<rparr>)"
      using assms(1) by (simp add: firstHeader_def nextHeader_def headers_of_def)
    moreover have "next_names n (me\<lparr>oe_hp := if 1 < length ?hs then Pos 1 else NoPos\<rparr>) = Inr (map hdr_name (drop 1 ?hs))"
      using assms(1) that by (intro next_names_from) auto
    ultimately show ?thesis using Cons by (simp add: all_names_def)
  qed
  moreover have "\<exists>me1 me2. nextHeader me = Inr (Some (hdr_name (?hs ! i)), me1) \<and> delHeader (hdr_name (?hs ! i)) me1 = (True, me2) \<and>
      res_bind (nextHeader me2) (\<lambda>(name, me3). Inr name) =
        (if Suc i = length ?hs then Inr None
         else if strcaseeq (hdr_name (?hs ! Suc i)) (hdr_name (?hs ! i)) then Inl OutOfBounds
         else Inr (Some (hdr_name (?hs ! Suc i))))" if i: "i < length ?hs" "oe_hp me = Pos i"
  proof -
    define m where "m = hdr_name (?hs ! i)"
    define me1 where "me1 = me\<lparr>oe_hp := if Suc i < length ?hs then Pos (Suc i) else NoPos\<rparr>"
    define me2 where "me2 = snd (delHeader m me1)"
    have wf: "\<forall>h \<in> set ?hs. header_wf h" using assms(2) by (simp add: event_wf_def)
    have del: "esl_event_del_header_val ev m None = (ESL_SUCCESS, ev\<lparr>ev_headers := filter (\<lambda>h. \<not> header_named m h) ?hs\<rparr>)"
      using del_header_filter [OF assms(2), of m] by (simp add: esl_event_del_header_def esl_event_del_header_val_def)
    have 1: "nextHeader me = Inr (Some m, me1)" using nextHeader_at [OF assms(1) i] by (simp add: me1_def m_def)
    have 2: "delHeader m me1 = (True, me2)" using assms(1) del by (simp add: delHeader_def me1_def me2_def)
    have hd2: "headers_of me2 = filter (\<lambda>h. \<not> header_named m h) ?hs"
      using assms(1) del by (simp add: me2_def delHeader_def me1_def headers_of_def)
    have pos: "oe_hp me2 = pos_del m ?hs (oe_hp me1)" using assms(1) del by (simp add: me2_def delHeader_def me1_def)
    have "res_bind (nextHeader me2) (\<lambda>(name, me3). Inr name) =
        (if Suc i = length ?hs then Inr None else if header_named m (?hs ! Suc i) then Inl OutOfBounds
         else Inr (Some (hdr_name (?hs ! Suc i))))"
    proof (cases "Suc i < length ?hs")
      case False
      then show ?thesis using pos i(1) by (simp add: me1_def pos_del_def nextHeader_def)
    next
      case True
      show ?thesis
        using pos True pos_del_wf [OF wf True, of m] hd2 nth_filter_take [OF True, of "\<lambda>h. \<not> header_named m h"]
          length_filter_take [OF True, of "\<lambda>h. \<not> header_named m h"]
        by (auto simp: me1_def nextHeader_def)
    qed
    then show ?thesis using 1 2 unfolding m_def header_named_def by blast
  qed
  ultimately show ?thesis by blast
qed

definition walk_event :: esl_event where
  "walk_event = empty_event\<lparr>ev_headers := [named_header ''a'' ''1'' [], named_header ''b'' ''2'' [], named_header ''B'' ''3'' []]\<rparr>"

theorem header_walk_witness:
  "all_names 3 (ESLevent_wrap (Some walk_event) True) = Inr [''a'', ''b'', ''B''] \<and>
   (\<exists>me1 me2. nextHeader ((ESLevent_wrap (Some walk_event) True)\<lparr>oe_hp := Pos 1\<rparr>) = Inr (Some ''b'', me1) \<and>
      delHeader ''b'' me1 = (True, me2) \<and> res_bind (nextHeader me2) (\<lambda>(name, me3). Inr name) = Inl OutOfBounds)"
proof -
  have wf: "event_wf walk_event" by (simp add: walk_event_def event_wf_def empty_event_def)
  have hs: "ev_headers walk_event = [named_header ''a'' ''1'' [], named_header ''b'' ''2'' [], named_header ''B'' ''3'' []]"
    by (simp add: walk_event_def)
  have "strcaseeq ''B'' ''b''" by (simp add: strcaseeq_def c_tolower_def char_eval)
  then show ?thesis
    using header_walk [of "ESLevent_wrap (Some walk_event) True" walk_event 3 0]
      header_walk [of "(ESLevent_wrap (Some walk_event) True)\<lparr>oe_hp := Pos 1\<rparr>" walk_event 0 1] wf
    by (simp add: ESLevent_wrap_def hs named_header_def)
qed

text \<open>
  C32. Sending an event never hands out the reply to it. The reply is kept where commands keep theirs, and what
  the caller gets is a copy of the event received last before the call, or, when there was none, the event that
  stands for a lost connection, although the event was sent.
\<close>

theorem send_event_answers_old:
  assumes "esl_sendevent (fst W) (snd W) h (oe_event me) net = Some (Inr (ESL_SUCCESS, h1, net1))"
  shows "h_last_sr_event h1 \<noteq> None \<and>
    sendEvent W me h net =
      (case h_last_event h of
         None \<Rightarrow> gone_event W h1 net1
       | Some e \<Rightarrow> io_bind (Some (esl_event_dup e)) (\<lambda>(st, d). io_return (Some (ESLevent_wrap d True), h1, net1)))"
proof -
  obtain cmd where "esl_send_recv (fst W) (snd W) h cmd net = Some (Inr (ESL_SUCCESS, h1, net1))"
    using assms by (auto simp: esl_sendevent_def Let_def fault_simps split: option.splits if_splits)
  note r = send_recv_reply [OF this]
  then have "newest_event h1 = h_last_event h" by (simp add: newest_event_def)
  then show ?thesis using r assms
    by (auto simp: sendEvent_def last_event_or_gone_def dup_event_def io_bind_def io_return_def split: option.split sum.split)
qed

text \<open>
  A command that succeeds always has its reply: what \<open>sendRecv\<close>, \<open>api\<close>, \<open>bgapi\<close> and \<open>execute\<close> copy is there.
  The texts of the commands are built without a loss, in a block that is large enough for them.
\<close>

theorem commands_hand_out_reply:
  assumes "esl_send_recv (fst W) (snd W) h (''api '' @ c @ '' '' @ a) net = Some (Inr (ESL_SUCCESS, h1, net1))"
    and "malloc_ok (fst W) (11 + (length c + length a))"
  shows "\<exists>e. h_last_sr_event h1 = Some e \<and>
    api W (Some c) (Some a) h net = io_bind (Some (esl_event_dup e)) (\<lambda>(st, d). io_return (Some (ESLevent_wrap d True), h1, net1))"
proof -
  obtain e where e: "h_last_sr_event h1 = Some e" using send_recv_reply [OF assms(1)] by auto
  have "snprintf_text (length c + length a + 10) (''api '' @ c @ '' '' @ a) = ''api '' @ c @ '' '' @ a" by simp
  then show ?thesis using e assms
    by (auto simp: api_def Let_def or_empty_def sendRecv_def reply_event_def dup_event_def io_bind_def io_return_def split: sum.split)
qed

section \<open>A server that answers each command\<close>

definition reply_text :: string where
  "reply_text = (''Content-Type: '' @ ''command/reply'') @ [LF, LF] @ []"

lemma reply_runs:
  assumes "cmd_ends cmd = Inr ends"
  shows "\<exists>h1 net1. esl_send_recv wit_alloc unit_ops (wit_handle reply_text) cmd wit_net = Some (Inr (ESL_SUCCESS, h1, net1)) \<and>
    h_last_sr_event h1 = Some (socket_event\<lparr>ev_headers := ev_headers socket_event @ [wit_type ''command/reply'']\<rparr>)"
proof -
  let ?h = "wit_handle reply_text" and ?t = "''Content-Type: '' @ ''command/reply''"
  let ?e = "socket_event\<lparr>ev_headers := ev_headers socket_event @ [wit_type ''command/reply'']\<rparr>"
  let ?h1 = "?h\<lparr>h_mutex := Some 1\<rparr>"
  have c: "cstring reply_text" by (simp add: reply_text_def)
  obtain b where b: "h_packet_buf ?h = Some b" "buf_wf b" "buf_sentinel b" "buf_content b = ?t @ [LF, LF] @ []"
    using wit_handle_ok(3) [OF c] by (auto simp: reply_text_def)
  define net where "net = wit_net\<lparr>net_out := cmd # (if ends then [] else [[LF, LF]])\<rparr>"
  have u: "h_usable ?h" "h_mutex ?h = Some 0" using wit_handle_ok(1,2) [OF c] by auto
  have send: "esl_send (sr_reset ?h1) cmd wit_net = io_return (ESL_SUCCESS, sr_reset ?h1, net)"
    using u assms by (simp add: esl_send_def h_usable_def sr_reset_def net_send_def wit_net_def net_def)
  have u2: "h_usable (sr_reset (sr_reset ?h1))" using u by (simp add: h_usable_def sr_reset_def)
  have "h_mutex (sr_reset (sr_reset ?h1)) = Some 1" "h_packet_buf (sr_reset (sr_reset ?h1)) = Some b"
    using b(1) by (simp_all add: sr_reset_def)
  from wit_reply_step [OF u2 this b(2-4) _ _ _ refl _ wit_type_message(1) [OF wit_types(3,4)]
      wit_type_message(3) [OF wit_types(3,4)], of wit_alloc unit_ops net]
  obtain b1 where s1: "esl_recv_event_timed wit_alloc unit_ops (sr_reset (sr_reset ?h1)) 0 False True net =
        io_return (ESL_SUCCESS, Some ?e,
          (sr_reset (sr_reset ?h1))\<lparr>h_last_ievent := None, h_packet_buf := Some b1, h_mutex := Some 1\<rparr>, net)"
    using wit_type_message(2) [OF wit_types(3,4), of "[]"] by (auto simp: SOCKET_ROOM_def)
  have un: "h_unlock x = io_return (x\<lparr>h_mutex := Some (n - 1)\<rparr>)" if "h_mutex x = Some n" for x n
    using that by (simp add: h_unlock_def esl_mutex_unlock_def)
  have lk: "h_lock x = io_return (x\<lparr>h_mutex := Some (Suc n)\<rparr>)" if "h_mutex x = Some n" for x n
    using that by (simp add: h_lock_def esl_mutex_lock_def)
  have loop: "send_recv_loop wit_alloc unit_ops 0 (sr_reset ?h1) net =
      io_return (ESL_SUCCESS, (sr_keep_reply ?e ((sr_reset (sr_reset ?h1))\<lparr>h_last_ievent := None, h_packet_buf := Some b1,
        h_mutex := Some 1, h_last_sr_event := Some ?e\<rparr>))\<lparr>h_mutex := Some 0\<rparr>, net)"
    using s1 wit_race(2) wit_type_message(5) [OF wit_types(3,4)]
    by (subst send_recv_loop.simps) (simp add: un sr_keep_reply_def)
  have "h_usable ?h1" using u by (simp add: h_usable_def)
  then show ?thesis
    using send loop u lk [of ?h 0] wit_type_message(5) [OF wit_types(3,4)]
    by (simp add: esl_send_recv_def esl_send_recv_timed_def sr_keep_reply_def io_return_def)
qed

theorem send_event_answers_old_witness:
  "\<exists>h1 net1. h_last_sr_event h1 \<noteq> None \<and>
     sendEvent (wit_alloc, unit_ops) (ESLevent_wrap (Some empty_event) True) (wit_handle reply_text) wit_net = gone_event (wit_alloc, unit_ops) h1 net1"
proof -
  let ?cmd = "''sendevent CUSTOM'' @ [LF, LF]"
  have ends: "cmd_ends ?cmd = Inr True" by (simp add: cmd_ends_def)
  have "esl_event_serialize empty_event False = Inr [LF]"
    by (simp add: esl_event_serialize_def empty_event_def ser_body_def)
  moreover have "esl_event_name (ev_id empty_event) = Inr ''CUSTOM''" by (simp add: esl_event_name_def empty_event_def event_names_def)
  ultimately have "esl_sendevent wit_alloc unit_ops (wit_handle reply_text) (Some empty_event) wit_net =
      esl_send_recv wit_alloc unit_ops (wit_handle reply_text) ?cmd wit_net"
    by (simp add: esl_sendevent_def wit_handle_def wit_alloc_def malloc_ok_def)
  then obtain h1 net1 where "esl_sendevent (fst (wit_alloc, unit_ops)) (snd (wit_alloc, unit_ops)) (wit_handle reply_text)
      (oe_event (ESLevent_wrap (Some empty_event) True)) wit_net = Some (Inr (ESL_SUCCESS, h1, net1))"
    using reply_runs [OF ends] by (auto simp: ESLevent_wrap_def)
  from send_event_answers_old [OF this] show ?thesis
    by (auto simp: wit_handle_def zero_handle_def)
qed

theorem commands_hand_out_reply_witness:
  "\<exists>h1 net1 e. h_last_sr_event h1 = Some e \<and> api (wit_alloc, unit_ops) (Some ''status'') (Some ''x'') (wit_handle reply_text) wit_net =
     io_bind (Some (esl_event_dup e)) (\<lambda>(st, d). io_return (Some (ESLevent_wrap d True), h1, net1))"
proof -
  have "cmd_ends (''api '' @ ''status'' @ '' '' @ ''x'') = Inr False" by (simp add: cmd_ends_def)
  from reply_runs [OF this] obtain h1 net1 where
    "esl_send_recv (fst (wit_alloc, unit_ops)) (snd (wit_alloc, unit_ops)) (wit_handle reply_text) (''api '' @ ''status'' @ '' '' @ ''x'') wit_net =
       Some (Inr (ESL_SUCCESS, h1, net1))" by auto
  from commands_hand_out_reply [OF this] show ?thesis by (auto simp: wit_alloc_def malloc_ok_def)
qed

section \<open>What the code does not expect\<close>

text \<open>A text that is no JSON: the reader answers with the number of success and no event, whose identifier is read.\<close>

lemma json_event_crashes:
  "cJSON_Parse F s = Inr None \<Longrightarrow> s \<noteq> [] \<Longrightarrow> ESLevent_new F ''json'' (Some s) = Inl NullPointer"
  by (simp add: ESLevent_new_def esl_strlen_zero_def strcaseeq_def esl_event_create_json_def)

text \<open>A host that has no address: the handle keeps socket 0, which the destructor closes.\<close>

lemma unresolved_closes_stdin:
  assumes "env_family env = None" "ESLconnection_new W m env u p net = Some (Inr (h, net1))"
  shows "net_closed (snd (ESLconnection_delete h net1)) = net_closed net @ [0]"
  using assms
  by (auto simp: ESLconnection_new_def esl_connect_timeout_def connect_fail_def ESLconnection_delete_def esl_disconnect_def
      ESL_SOCK_INVALID_def h_prepare_def zero_handle_def fault_simps Let_def split: prod.splits if_splits)

text \<open>An event is freed once, whichever of the two objects goes first; the new one has no place in the list.\<close>

lemma take_owns:
  "ESLevent_take me = (a, b) \<Longrightarrow> ESLevent_delete a = ESLevent_delete me \<and> ESLevent_delete b = None \<and> nextHeader a = Inl OutOfBounds"
  by (auto simp: ESLevent_take_def ESLevent_delete_def nextHeader_def)

text \<open>Running in the background for one command leaves the setting of the connection.\<close>

lemma executeAsync_restores:
  "executeAsync W app arg uuid h net = Some (Inr (e, h', net')) \<Longrightarrow> h_async_execute h' = h_async_execute h"
  by (auto simp: executeAsync_def reply_event_def fault_simps split: if_splits)

lemma bgapi_text:
  "malloc_ok (fst W) (23 + (length c + length a + length u)) \<Longrightarrow>
   bgapi W (Some c) (Some a) (Some u) h net = sendRecv W (''bgapi '' @ c @ '' '' @ a @ [LF] @ ''Job-UUID: '' @ u) h net"
  by (simp add: bgapi_def Let_def or_empty_def algebra_simps)

end
