(* ===== verification/EslListen.thy ===== *)
theory EslListen
  imports EslHandle
begin

text \<open>
  The server side of the event socket: \<open>esl_listen\<close> and \<open>esl_listen_threaded\<close> of \<^verbatim>\<open>esl/esl.c\<close>, the threads of
  \<^verbatim>\<open>esl/esl_threadmutex.c\<close>, and the start of the callback of the server (\<^verbatim>\<open>ManagerDN::nwaycc_callback\<close>) that
  takes the connections. The system is a script of answers; a script that ends leaves the loop waiting in \<^verbatim>\<open>accept\<close>.
\<close>

section \<open>Threads\<close>

text \<open>What starting a thread asks the system for, in this order.\<close>

record thread_env =
  te_malloc :: bool
  te_attr_init :: bool
  te_detach :: bool
  te_stack :: bool
  te_create :: bool

text \<open>What there is afterwards: the structure of the thread, its attribute, the thread.\<close>

record thread_left =
  tl_struct :: bool
  tl_attr :: bool
  tl_running :: bool

definition nothing_left :: thread_left where
  "nothing_left = \<lparr>tl_struct = False, tl_attr = False, tl_running = False\<rparr>"

definition esl_thread_create_detached_ex :: "bool \<Rightarrow> nat \<Rightarrow> thread_env \<Rightarrow> esl_status \<times> thread_left" where
  "esl_thread_create_detached_ex func stack_size E =
     (if \<not> func \<or> \<not> te_malloc E then (ESL_FAIL, nothing_left)
      else let thread = nothing_left\<lparr>tl_struct := True\<rparr>
           in if \<not> te_attr_init E then (ESL_FAIL, thread\<lparr>tl_struct := False\<rparr>)
              else let thread = thread\<lparr>tl_attr := True\<rparr>
                   in if \<not> te_detach E \<or> stack_size \<noteq> 0 \<and> \<not> te_stack E \<or> \<not> te_create E
                      then (ESL_FAIL, thread\<lparr>tl_attr := False, tl_struct := False\<rparr>)
                      else (ESL_SUCCESS, thread\<lparr>tl_running := True\<rparr>))"

definition thread_default_stacksize :: nat where "thread_default_stacksize = 240 * 1024"

definition esl_thread_create_detached :: "thread_env \<Rightarrow> esl_status \<times> thread_left" where
  "esl_thread_create_detached E = esl_thread_create_detached_ex True thread_default_stacksize E"

text \<open>The end of \<open>thread_launch\<close>, when the function has returned.\<close>

definition thread_launch_end :: "thread_left \<Rightarrow> thread_left" where
  "thread_launch_end l = l\<lparr>tl_attr := False, tl_struct := False, tl_running := False\<rparr>"

lemma thread_released:
  "esl_thread_create_detached_ex func n E = (st, l) \<Longrightarrow>
   (st = ESL_SUCCESS \<longrightarrow> tl_running l \<and> thread_launch_end l = nothing_left) \<and> (st \<noteq> ESL_SUCCESS \<longrightarrow> l = nothing_left)"
  by (auto simp: esl_thread_create_detached_ex_def nothing_left_def thread_launch_end_def Let_def split: if_splits)

section \<open>Accepting\<close>

datatype accept_answer = Accepted int | Interrupted | AcceptFailed

record listen_env =
  le_socket :: int
  le_bind :: bool
  le_listen :: bool
  le_accepts :: "accept_answer list"
  le_threads :: "thread_env list"

datatype listen_action =
    ReuseAddr int
  | NonBlocking int         \<comment> \<open>\<open>prepare_sock\<close>\<close>
  | RunCallback int int     \<comment> \<open>server and client\<close>
  | StartThread int int     \<comment> \<open>\<open>client_thread\<close> with its handler\<close>
  | LoseHandler int int     \<comment> \<open>the thread does not start: handler and client stay behind\<close>
  | CloseSocket int

datatype listen_end = StillAccepting | ListenEnds esl_status | ListenAborts

text \<open>The client of a call: -1 when it was interrupted, which is not an error here; \<open>None\<close> ends the loop.\<close>

definition accepted_client :: "accept_answer \<Rightarrow> int option" where
  "accepted_client a = (case a of Accepted c \<Rightarrow> Some c | Interrupted \<Rightarrow> Some ESL_SOCK_INVALID | AcceptFailed \<Rightarrow> None)"

fun accept_loop :: "int \<Rightarrow> accept_answer list \<Rightarrow> listen_action list \<times> listen_end" where
  "accept_loop server [] = ([], StillAccepting)"
| "accept_loop server (a # as) =
     (case accepted_client a of
        None \<Rightarrow> ([], ListenEnds ESL_FAIL)
      | Some client \<Rightarrow>
          (case accept_loop server as of
             (acts, e) \<Rightarrow> (NonBlocking client # RunCallback server client # acts, e)))"

text \<open>\<open>sizeof (struct thread_handler)\<close> bytes for a handler; a missing answer of the system means that a thread starts.\<close>

definition all_granted :: thread_env where
  "all_granted = \<lparr>te_malloc = True, te_attr_init = True, te_detach = True, te_stack = True, te_create = True\<rparr>"

definition HANDLER_SIZE :: nat where "HANDLER_SIZE = 40"

fun accept_threads :: "allocator \<Rightarrow> int \<Rightarrow> accept_answer list \<Rightarrow> thread_env list \<Rightarrow> listen_action list \<times> listen_end" where
  "accept_threads A server [] ts = ([], StillAccepting)"
| "accept_threads A server (a # as) ts =
     (case accepted_client a of
        None \<Rightarrow> ([], ListenEnds ESL_FAIL)
      | Some client \<Rightarrow>
          if \<not> malloc_ok A HANDLER_SIZE then ([NonBlocking client], ListenAborts)
          else let started = fst (esl_thread_create_detached (case ts of [] \<Rightarrow> all_granted | t # _ \<Rightarrow> t)) = ESL_SUCCESS
               in case accept_threads A server as (tl ts) of
                    (acts, e) \<Rightarrow>
                      (NonBlocking client # (if started then StartThread server client else LoseHandler server client) # acts, e))"

text \<open>The frame the two have in common: the socket, its address, and closing it at the end.\<close>

definition listen_frame :: "listen_env \<Rightarrow> listen_action list \<times> listen_end \<Rightarrow> listen_action list \<times> listen_end" where
  "listen_frame E run =
     (let server = le_socket E
      in if server < 0 then ([], ListenEnds ESL_FAIL)
         else if \<not> le_bind E \<or> \<not> le_listen E then ([ReuseAddr server, CloseSocket server], ListenEnds ESL_FAIL)
         else case run of
                (acts, ListenEnds st) \<Rightarrow> (ReuseAddr server # acts @ [CloseSocket server], ListenEnds st)
              | (acts, e) \<Rightarrow> (ReuseAddr server # acts, e))"

definition esl_listen :: "listen_env \<Rightarrow> listen_action list \<times> listen_end" where
  "esl_listen E = listen_frame E (accept_loop (le_socket E) (le_accepts E))"

text \<open>\<open>*server_sockP\<close>, which keeps its value when the socket is closed.\<close>

definition server_sockP :: "listen_env \<Rightarrow> int option" where
  "server_sockP E = (if le_socket E < 0 then None else Some (le_socket E))"

definition esl_listen_threaded :: "allocator \<Rightarrow> listen_env \<Rightarrow> listen_action list \<times> listen_end" where
  "esl_listen_threaded A E = listen_frame E (accept_threads A (le_socket E) (le_accepts E) (le_threads E))"

section \<open>Taking the connection\<close>

text \<open>
  The start of \<open>nwaycc_callback\<close>: the handle that is attached to the client, once it has waited a second for an
  event; \<open>None\<close> when the callback gives up.
\<close>

definition take_connection ::
  "allocator \<Rightarrow> 'f double_ops \<Rightarrow> bool \<Rightarrow> int \<Rightarrow> net \<Rightarrow> (esl_handle option \<times> net) io" where
  "take_connection A F mutex_ok client net =
     io_bind (esl_attach_handle A F mutex_ok zero_handle client net) (\<lambda>(st, h, net1).
       if st \<noteq> ESL_SUCCESS \<or> \<not> h_connected h
       then (case esl_disconnect h net1 of (st', h', net2) \<Rightarrow> io_return (None, net2))
       else io_bind (esl_recv_event_timed A F h 1000 True False net1) (\<lambda>(st', e, h', net2). io_return (Some h', net2)))"

section \<open>Who gets the clients\<close>

fun given_to :: "listen_action list \<Rightarrow> int list" where
  "given_to [] = []"
| "given_to (RunCallback _ c # acts) = c # given_to acts"
| "given_to (StartThread _ c # acts) = c # given_to acts"
| "given_to (LoseHandler _ c # acts) = c # given_to acts"
| "given_to (_ # acts) = given_to acts"

fun closed_by :: "listen_action list \<Rightarrow> int list" where
  "closed_by [] = []"
| "closed_by (CloseSocket s # acts) = s # closed_by acts"
| "closed_by (_ # acts) = closed_by acts"

fun lost_by :: "listen_action list \<Rightarrow> int list" where
  "lost_by [] = []"
| "lost_by (LoseHandler _ c # acts) = c # lost_by acts"
| "lost_by (_ # acts) = lost_by acts"

definition clients_of :: "accept_answer list \<Rightarrow> int list" where
  "clients_of as = map (\<lambda>a. the (accepted_client a)) (takeWhile (\<lambda>a. a \<noteq> AcceptFailed) as)"

lemma accepted_none [simp]: "accepted_client a = None \<longleftrightarrow> a = AcceptFailed"
  by (cases a) (simp_all add: accepted_client_def)

lemma accepted_failed [simp]: "accepted_client AcceptFailed = None"
  by simp

lemma given_append [simp]: "given_to (xs @ ys) = given_to xs @ given_to ys"
  by (induction xs rule: given_to.induct) auto

lemma closed_append [simp]: "closed_by (xs @ ys) = closed_by xs @ closed_by ys"
  by (induction xs rule: closed_by.induct) auto

lemma lost_append [simp]: "lost_by (xs @ ys) = lost_by xs @ lost_by ys"
  by (induction xs rule: lost_by.induct) auto

lemma accept_loop_lost: "accept_loop s as = (acts, e) \<Longrightarrow> lost_by acts = []"
  by (induction as arbitrary: acts e) (auto split: option.splits prod.splits)

definition threads_start :: "thread_env list \<Rightarrow> bool" where
  "threads_start ts \<longleftrightarrow> (\<forall>t \<in> set ts. fst (esl_thread_create_detached t) = ESL_SUCCESS)"

lemma all_granted_starts: "fst (esl_thread_create_detached all_granted) = ESL_SUCCESS"
  by (simp add: esl_thread_create_detached_def esl_thread_create_detached_ex_def all_granted_def Let_def)

lemma accept_threads_lost: "accept_threads A s as ts = (acts, e) \<Longrightarrow> threads_start ts \<Longrightarrow> lost_by acts = []"
proof (induction as arbitrary: acts e ts)
  case (Cons a as)
  have "threads_start (tl ts)" using Cons.prems(2) by (cases ts) (simp_all add: threads_start_def)
  moreover have "fst (esl_thread_create_detached (case ts of [] \<Rightarrow> all_granted | t # _ \<Rightarrow> t)) = ESL_SUCCESS"
    using Cons.prems(2) all_granted_starts by (cases ts) (simp_all add: threads_start_def)
  ultimately show ?case using Cons by (auto simp: Let_def split: option.splits if_splits prod.splits)
qed simp

lemma frame_lost: "listen_frame E (acts, e) = (acts', e') \<Longrightarrow> lost_by acts = [] \<Longrightarrow> lost_by acts' = []"
  by (auto simp: listen_frame_def Let_def split: if_splits listen_end.splits)

definition loop_end :: "accept_answer list \<Rightarrow> listen_end" where
  "loop_end as = (if AcceptFailed \<in> set as then ListenEnds ESL_FAIL else StillAccepting)"

lemma accept_loop_given:
  "accept_loop s as = (acts, e) \<Longrightarrow> given_to acts = clients_of as \<and> closed_by acts = [] \<and> e = loop_end as"
  by (induction as arbitrary: acts e) (auto simp: clients_of_def loop_end_def split: option.splits prod.splits)

lemma accept_threads_given:
  assumes "malloc_ok A HANDLER_SIZE"
  shows "accept_threads A s as ts = (acts, e) \<Longrightarrow> given_to acts = clients_of as \<and> closed_by acts = [] \<and> e = loop_end as"
  using assms
  by (induction as arbitrary: acts e ts) (auto simp: clients_of_def loop_end_def Let_def split: option.splits prod.splits)

lemma frame_given:
  assumes "run = (acts, e)" "given_to acts = cs" "closed_by acts = []" "e = loop_end as" "listen_frame E run = (acts', e')"
  shows "(e' = StillAccepting \<longrightarrow> closed_by acts' = []) \<and>
    (e' \<noteq> StillAccepting \<longrightarrow> e' = ListenEnds ESL_FAIL \<and> closed_by acts' = (if le_socket E < 0 then [] else [le_socket E])) \<and>
    (0 \<le> le_socket E \<and> le_bind E \<and> le_listen E \<longrightarrow> given_to acts' = cs \<and> e' = loop_end as)"
  using assms by (auto simp: listen_frame_def Let_def loop_end_def split: if_splits)

section \<open>Properties\<close>



end
