(* ===== verification/EslPlatform.thy ===== *)
theory EslPlatform
  imports EslHandle
begin

text \<open>
  The variant of \<open>esl_wait_sock\<close> of \<^verbatim>\<open>esl/esl.c\<close> that uses \<^verbatim>\<open>select\<close>; it is compiled when \<^verbatim>\<open>ESL_USE_SELECT\<close> is
  defined.
\<close>

section \<open>Waiting with \<open>select\<close>\<close>

text \<open>The time \<^verbatim>\<open>select\<close> is given, in seconds and microseconds; the product of two \<^verbatim>\<open>uint32_t\<close> wraps around.\<close>

definition select_timeval :: "32 word \<Rightarrow> nat \<times> nat" where
  "select_timeval ms = (unat (ms div 1000), unat ((ms mod 1000) * ms))"

definition FD_SETSIZE :: int where "FD_SETSIZE = 1024"

text \<open>
  \<open>FD_SET\<close> writes into a set of \<open>FD_SETSIZE\<close> bits. \<^verbatim>\<open>select\<close> answers like \<^verbatim>\<open>poll\<close>, but reports an error only when
  it was asked for.
\<close>

definition esl_wait_sock_select :: "int \<Rightarrow> bool \<Rightarrow> bool \<Rightarrow> bool \<Rightarrow> poll_answer \<Rightarrow> int c_result" where
  "esl_wait_sock_select sock rd wr er a =
     (if sock = ESL_SOCK_INVALID then Inr ESL_SOCK_INVALID
      else if \<not> sock \<le> FD_SETSIZE then Inl AssertFailed
      else if (rd \<or> wr \<or> er) \<and> (sock < 0 \<or> FD_SETSIZE \<le> sock) then Inl OutOfBounds
      else Inr (case a of
                  PollFailed \<Rightarrow> -1
                | PollTimeout \<Rightarrow> 0
                | PollReady i w e \<Rightarrow> (if rd \<and> i then 1 else 0) + (if wr \<and> w then 2 else 0) + (if er \<and> e then 4 else 0)))"

section \<open>Properties\<close>

text \<open>
  With a socket below \<open>FD_SETSIZE\<close>, and errors asked for or none there, the variant with \<^verbatim>\<open>select\<close> answers what
  the one with \<^verbatim>\<open>poll\<close> does. The assertion lets the socket \<open>FD_SETSIZE\<close> pass, whose bit lies behind the set. And it
  waits as long as it was told only for whole seconds: below one second it waits the square of the milliseconds in
  microseconds.
\<close>

theorem select_like_poll:
  assumes "0 \<le> sock" "sock \<le> FD_SETSIZE" "rd \<or> wr \<or> er"
  shows "(sock < FD_SETSIZE \<and> (er \<or> (\<forall>i w. a \<noteq> PollReady i w True)) \<longrightarrow>
      Some (esl_wait_sock_select sock rd wr er a) = io_map fst (esl_wait_sock sock rd wr (net\<lparr>net_polls := a # as\<rparr>))) \<and>
    (sock = FD_SETSIZE \<longrightarrow> esl_wait_sock_select sock rd wr er a = Inl OutOfBounds) \<and>
    (ms mod 1000 = 0 \<longrightarrow> select_timeval ms = (unat ms div 1000, 0)) \<and>
    (ms < 1000 \<longrightarrow> select_timeval ms = (0, unat ms * unat ms) \<and> unat ms * unat ms \<le> 1000 * unat ms)"
proof -
  have 1: "Some (esl_wait_sock_select sock rd wr er a) = io_map fst (esl_wait_sock sock rd wr (net\<lparr>net_polls := a # as\<rparr>))"
    if "sock < FD_SETSIZE" "er \<or> (\<forall>i w. a \<noteq> PollReady i w True)"
    using assms that by (cases a)
      (auto simp: esl_wait_sock_select_def esl_wait_sock_def ESL_SOCK_INVALID_def poll_bits_def io_return_def io_map_def io_bind_def)
  have 2: "esl_wait_sock_select sock rd wr er a = Inl OutOfBounds" if "sock = FD_SETSIZE"
    using that assms(3) by (simp add: esl_wait_sock_select_def FD_SETSIZE_def ESL_SOCK_INVALID_def)
  have 3: "select_timeval ms = (unat ms div 1000, 0)" if "ms mod 1000 = 0"
    using that by (simp add: select_timeval_def unat_div)
  have 4: "select_timeval ms = (0, unat ms * unat ms) \<and> unat ms * unat ms \<le> 1000 * unat ms" if "ms < 1000"
  proof -
    have u: "unat ms < 1000" using that by (simp add: word_less_nat_alt)
    then have "unat ms * unat ms \<le> 1000 * unat ms" by simp
    moreover have "unat (ms div 1000) = unat (0 :: 32 word)" "unat (ms mod 1000) = unat ms" using u by (simp_all add: unat_div unat_mod)
    then have "ms div 1000 = 0" "ms mod 1000 = ms" unfolding word_unat_eq_iff .
    moreover have "unat (ms * ms) = unat ms * unat ms"
    proof -
      have "unat ms * unat ms \<le> 1000 * 1000" using u by (intro mult_le_mono) simp_all
      then show ?thesis by (subst unat_mult_lem [THEN iffD1]) simp_all
    qed
    ultimately show ?thesis by (simp add: select_timeval_def)
  qed
  from 1 2 3 4 show ?thesis by blast
qed

theorem select_like_poll_witness:
  "esl_wait_sock_select 5 True False True (PollReady True False True) = Inr 5 \<and>
   select_timeval 30 = (0, 900) \<and> esl_wait_sock_select 1024 True False True PollTimeout = Inl OutOfBounds"
proof -
  let ?net = "\<lparr>net_polls = [], net_recvs = [], net_sends = [], net_locks = [], net_out = [], net_closed = [], net_buffer_id = 0\<rparr>"
  have "(0 :: int) \<le> 5" "5 \<le> FD_SETSIZE" "True \<or> False \<or> True" by (simp_all add: FD_SETSIZE_def)
  note a = select_like_poll [OF this, where a = "PollReady True False True" and net = ?net and ms = 30]
  have "(0 :: int) \<le> 1024" "1024 \<le> FD_SETSIZE" "True \<or> False \<or> True" by (simp_all add: FD_SETSIZE_def)
  note b = select_like_poll [OF this, where a = PollTimeout and net = ?net and ms = 30]
  show ?thesis using a b by (simp add: FD_SETSIZE_def esl_wait_sock_def ESL_SOCK_INVALID_def poll_bits_def io_return_def io_map_def)
qed

end
