(* ===== verification/StdMap.thy ===== *)
theory StdMap
  imports Prelude "HOL-Library.List_Lexorder" "HOL-Library.Char_ord"
begin

text \<open>
  \<^verbatim>\<open>std::map\<close> of the C++ sources: its nodes in the order of their keys, which is the order an
  iterator visits them in. A \<^verbatim>\<open>std::string\<close> key is compared character by character as unsigned
  bytes, the order of \<^verbatim>\<open>HOL-Library.Char_ord\<close> and \<^verbatim>\<open>List_Lexorder\<close>.

  The locale \<open>ordered_map\<close> states what the components rely on (what a lookup finds after an
  assignment, an insertion or an erasure, and that the order is kept); the model of \<^verbatim>\<open>std::map\<close>
  is an interpretation of it.
\<close>

section \<open>The operations\<close>

type_synonym ('k, 'v) std_map = "('k \<times> 'v) list"

text \<open>\<open>m[k] = v\<close>\<close>

fun map_put :: "'k :: linorder \<Rightarrow> 'v \<Rightarrow> ('k, 'v) std_map \<Rightarrow> ('k, 'v) std_map" where
  "map_put k v [] = [(k, v)]"
| "map_put k v ((k', v') # m) =
     (if k < k' then (k, v) # (k', v') # m
      else if k = k' then (k, v) # m else (k', v') # map_put k v m)"

text \<open>\<open>m.find(k)\<close>, \<open>None\<close> for the end of the map\<close>

definition map_find :: "('k, 'v) std_map \<Rightarrow> 'k \<Rightarrow> 'v option" where
  "map_find m k = map_of m k"

text \<open>\<open>m.insert(pair(k, v))\<close>, which leaves a node that is there alone\<close>

definition map_insert :: "'k :: linorder \<Rightarrow> 'v \<Rightarrow> ('k, 'v) std_map \<Rightarrow> ('k, 'v) std_map" where
  "map_insert k v m = (if map_find m k = None then map_put k v m else m)"

text \<open>\<open>m.erase(k)\<close>\<close>

fun map_erase :: "'k \<Rightarrow> ('k, 'v) std_map \<Rightarrow> ('k, 'v) std_map" where
  "map_erase k [] = []"
| "map_erase k ((k', v') # m) = (if k = k' then m else (k', v') # map_erase k m)"

text \<open>\<open>f(m[k])\<close> on the node that \<open>m[k]\<close> makes with the value \<open>d\<close> when there is none\<close>

definition map_modify :: "'k :: linorder \<Rightarrow> 'v \<Rightarrow> ('v \<Rightarrow> 'v) \<Rightarrow> ('k, 'v) std_map \<Rightarrow> ('k, 'v) std_map" where
  "map_modify k d f m = map_put k (f (case map_find m k of None \<Rightarrow> d | Some v \<Rightarrow> v)) m"

text \<open>The order of the nodes.\<close>

definition map_ok :: "('k :: linorder, 'v) std_map \<Rightarrow> bool" where
  "map_ok m \<longleftrightarrow> sorted_wrt (<) (map fst m)"

section \<open>Their laws\<close>

lemma map_ok_Nil [simp]: "map_ok []"
  by (simp add: map_ok_def)

lemma map_ok_Cons: "map_ok ((k, v) # m) \<longleftrightarrow> (\<forall>x \<in> fst ` set m. k < x) \<and> map_ok m"
  by (auto simp: map_ok_def)

lemma map_ok_distinct: "map_ok m \<Longrightarrow> distinct (map fst m)"
  by (simp add: map_ok_def strict_sorted_iff)

lemma map_find_Nil [simp]: "map_find [] k = None"
  by (simp add: map_find_def)

lemma map_find_Cons: "map_find ((k', v) # m) k = (if k = k' then Some v else map_find m k)"
  by (simp add: map_find_def)

lemma map_find_set: "map_ok m \<Longrightarrow> map_find m k = Some v \<longleftrightarrow> (k, v) \<in> set m"
  by (simp add: map_find_def map_ok_distinct)

lemma map_find_None: "map_find m k = None \<longleftrightarrow> k \<notin> fst ` set m"
  by (simp add: map_find_def map_of_eq_None_iff)

lemma map_put_keys: "fst ` set (map_put k v m) = insert k (fst ` set m)"
  by (induction k v m rule: map_put.induct) auto

lemma map_find_put: "map_find (map_put k v m) = (map_find m)(k := Some v)"
  by (induction k v m rule: map_put.induct) (auto simp: map_find_def)

lemma map_ok_put: "map_ok m \<Longrightarrow> map_ok (map_put k v m)"
  by (induction k v m rule: map_put.induct) (auto simp: map_ok_Cons map_put_keys)

lemma map_find_erase: "map_ok m \<Longrightarrow> map_find (map_erase k m) = (map_find m)(k := None)"
proof (induction k m rule: map_erase.induct)
  case (2 k k' v' m)
  then show ?case
    using map_find_None [of m k] by (auto simp: map_find_Cons map_ok_Cons fun_eq_iff)
qed (simp add: fun_eq_iff)

lemma map_erase_keys: "fst ` set (map_erase k m) \<subseteq> fst ` set m"
  by (induction k m rule: map_erase.induct) auto

lemma map_ok_erase: "map_ok m \<Longrightarrow> map_ok (map_erase k m)"
  using map_erase_keys by (induction k m rule: map_erase.induct) (force simp: map_ok_Cons)+

text \<open>A map is determined by what is found in it.\<close>

lemma map_ok_ext: "map_ok m \<Longrightarrow> map_ok m' \<Longrightarrow> map_find m = map_find m' \<Longrightarrow> m = m'"
proof -
  assume ok: "map_ok m" "map_ok m'" and f: "map_find m = map_find m'"
  have "set m = set m'" using f ok by (auto simp flip: map_find_set)
  moreover have "sorted_wrt (\<lambda>a b. fst a < fst b) m" "sorted_wrt (\<lambda>a b. fst a < fst b) m'"
    using ok by (simp_all add: map_ok_def sorted_wrt_map)
  ultimately show "m = m'"
  proof (induction m arbitrary: m')
    case (Cons p m)
    then obtain q r where r: "m' = q # r" by (cases m') auto
    have "p = q"
    proof (rule ccontr)
      assume "p \<noteq> q"
      then have "fst q < fst p" "fst p < fst q" using Cons.prems r by auto
      then show False by simp
    qed
    moreover have "p \<notin> set m" "q \<notin> set r" using Cons.prems r by auto
    ultimately have "set m = set r" using Cons.prems(1) r by auto
    then show ?case using Cons.IH [of r] Cons.prems r \<open>p = q\<close> by simp
  qed simp
qed

lemma find_SomeD: "find P xs = Some x \<Longrightarrow> x \<in> set xs \<and> P x"
  by (induction xs) (auto split: if_splits)

section \<open>The contract\<close>

locale ordered_map =
  fixes lookup :: "'m \<Rightarrow> 'k :: linorder \<Rightarrow> 'v option"
    and put :: "'k \<Rightarrow> 'v \<Rightarrow> 'm \<Rightarrow> 'm"
    and erase :: "'k \<Rightarrow> 'm \<Rightarrow> 'm"
    and ok :: "'m \<Rightarrow> bool"
  assumes lookup_put: "lookup (put k v m) = (lookup m)(k := Some v)"
    and lookup_erase: "ok m \<Longrightarrow> lookup (erase k m) = (lookup m)(k := None)"
    and ok_put: "ok m \<Longrightarrow> ok (put k v m)"
    and ok_erase: "ok m \<Longrightarrow> ok (erase k m)"
    and ext: "ok m \<Longrightarrow> ok m' \<Longrightarrow> lookup m = lookup m' \<Longrightarrow> m = m'"
begin

lemma put_erase_fresh:
  assumes "ok m" "lookup m k = None"
  shows "erase k (put k v m) = m"
  using assms by (intro ext) (auto simp: ok_put ok_erase lookup_erase lookup_put)

lemma put_twice: "ok m \<Longrightarrow> put k w (put k v m) = put k w m"
  by (intro ext) (auto simp: ok_put lookup_put)

lemma put_commute: "ok m \<Longrightarrow> k \<noteq> l \<Longrightarrow> put k v (put l w m) = put l w (put k v m)"
  by (intro ext) (auto simp: ok_put lookup_put fun_upd_twist)

lemma put_same: "ok m \<Longrightarrow> lookup m k = Some v \<Longrightarrow> put k v m = m"
  by (intro ext) (auto simp: ok_put lookup_put)

lemma erase_fresh: "ok m \<Longrightarrow> lookup m k = None \<Longrightarrow> erase k m = m"
  by (intro ext) (auto simp: ok_erase lookup_erase)

end

interpretation std: ordered_map map_find map_put map_erase map_ok
  by unfold_locales (auto simp: map_find_put map_find_erase map_ok_put map_ok_erase intro: map_ok_ext)

lemmas map_laws = map_find_put map_find_erase map_ok_put map_ok_erase

lemma map_ok_insert: "map_ok m \<Longrightarrow> map_ok (map_insert k v m)"
  by (simp add: map_insert_def map_ok_put)

lemma map_ok_modify: "map_ok m \<Longrightarrow> map_ok (map_modify k d f m)"
  by (simp add: map_modify_def map_ok_put)

lemma map_find_modify:
  "map_find (map_modify k d f m) = (map_find m)(k := Some (f (case map_find m k of None \<Rightarrow> d | Some v \<Rightarrow> v)))"
  by (simp add: map_modify_def map_find_put)

end
