(* ===== verification/IvrFlow.thy ===== *)
theory IvrFlow
  imports StdMap
begin

text \<open>
  The voice menus (\<^verbatim>\<open>IVRmanager.cpp\<close>): \<open>Initivrflow\<close> turns the rows of the node table into the menu
  of every company, \<open>Getnodeinfo\<close> follows a key press. A \<^verbatim>\<open>t_ivrnode*\<close> points into the table of a
  company, whose nodes a \<^verbatim>\<open>std::map\<close> never moves: it is the pair of the company and the number of the
  node, and \<open>None\<close> for a null pointer.
\<close>

section \<open>The data\<close>

record t_ivrnode =
  enterprise_id :: int
  company_id :: int
  node_id :: int
  descript :: string
  user_word :: string
  recordfile :: string

type_synonym node_ptr = "int \<times> int"
type_synonym node_table = "(int, t_ivrnode) std_map"

record t_flownode =
  fl_current :: "node_ptr option"
  fl_next :: "(string, node_ptr) std_map"

record ivr_manager =
  m_IVRnodetable :: "(int, node_table) std_map"
  m_flowtable :: "(string, t_flownode) std_map"

definition IVR_AGENT_FLOW_INDEX :: int where "IVR_AGENT_FLOW_INDEX = 9999"
definition IVR_AGNET_MSG :: string where "IVR_AGNET_MSG = ''TransformAgent''"
definition IVR_ANS_DFTM :: string where "IVR_ANS_DFTM = ''-1''"

definition agent_node :: "int \<Rightarrow> t_ivrnode" where
  "agent_node c = \<lparr>enterprise_id = 0, company_id = c, node_id = IVR_AGENT_FLOW_INDEX, descript = [],
     user_word = [], recordfile = IVR_AGNET_MSG\<rparr>"

text \<open>\<open>sprintf(Uniqueid, "%d_%d", ...)\<close> into an array of 16 characters.\<close>

definition flow_key :: "int \<Rightarrow> int \<Rightarrow> string c_result" where
  "flow_key c n =
     (let s = dec_int c @ ''_'' @ dec_int n in if length s < 16 then Inr s else Inl OutOfBounds)"

section \<open>The tables of the companies\<close>

text \<open>
  The loop over the rows of one company, from the row that is reached. It compares the row behind
  the last one as well: \<open>stray\<close> is the company number that is read there, \<open>None\<close> when that memory
  cannot be read; a match would copy a row that is none.
\<close>

fun company_nodes :: "int option \<Rightarrow> int \<Rightarrow> t_ivrnode list \<Rightarrow> node_table \<Rightarrow> (node_table \<times> t_ivrnode list) c_result" where
  "company_nodes stray c [] t = (if stray = None \<or> stray = Some c then Inl OutOfBounds else Inr (t, []))"
| "company_nodes stray c (n # ns) t =
     (if company_id n = c then company_nodes stray c ns (map_put (node_id n) n t) else Inr (t, n # ns))"

lemma company_nodes_shorter:
  "company_nodes stray c ns t = Inr (t', rest) \<Longrightarrow> length rest \<le> length ns"
  by (induction stray c ns t rule: company_nodes.induct) (auto split: if_splits)

function node_tables ::
  "int option \<Rightarrow> t_ivrnode list \<Rightarrow> (int, node_table) std_map \<Rightarrow> (int, node_table) std_map c_result" where
  "node_tables stray ns tables =
     (case ns of
        [] \<Rightarrow> Inr tables
      | n # ns' \<Rightarrow>
          (case company_nodes stray (company_id n) (n # ns') [(IVR_AGENT_FLOW_INDEX, agent_node (company_id n))] of
             Inl e \<Rightarrow> Inl e
           | Inr (t, rest) \<Rightarrow> node_tables stray rest (map_put (company_id n) t tables)))"
  by pat_completeness auto
termination
  by (relation "measure (\<lambda>(stray, ns, tables). length ns)") (auto dest!: company_nodes_shorter)

declare node_tables.simps [simp del]

section \<open>The menus\<close>

text \<open>One entry of a menu: the key \<open>d\<close> leads to the node \<open>n\<close>, the key 0 to the agents.\<close>

fun menu_entry :: "int \<Rightarrow> node_table \<Rightarrow> int \<times> string \<Rightarrow> (string, node_ptr) std_map \<Rightarrow> (string, node_ptr) std_map" where
  "menu_entry c t (n, d) next =
     (if d = ''0'' then map_put ''0'' (c, IVR_AGENT_FLOW_INDEX) next
      else if map_find t n \<noteq> None then map_put d (c, n) next else next)"

text \<open>
  \<open>parse\<close> is \<^verbatim>\<open>Json::Reader\<close> on the text of a node: the numbers and keys of its elements in order,
  \<open>None\<close> for a text that is not JSON. An element whose fields cannot be converted throws.
\<close>

definition node_menu ::
  "(string \<Rightarrow> (int \<times> string) option list option) \<Rightarrow> int \<Rightarrow> node_table \<Rightarrow> t_ivrnode \<Rightarrow> (string, node_ptr) std_map c_result" where
  "node_menu parse c t node =
     (case parse (user_word node) of
        None \<Rightarrow> Inr []
      | Some es \<Rightarrow> if None \<in> set es then Inl AssertFailed else Inr (fold (menu_entry c t) (map the es) []))"

fun company_flows ::
  "(string \<Rightarrow> (int \<times> string) option list option) \<Rightarrow> int \<Rightarrow> node_table \<Rightarrow> node_table \<Rightarrow>
   (string, t_flownode) std_map \<Rightarrow> (string, t_flownode) std_map c_result" where
  "company_flows parse c t [] flows = Inr flows"
| "company_flows parse c t ((k, node) # ns) flows =
     res_bind (flow_key c (node_id node)) (\<lambda>key.
     res_bind (node_menu parse c t node) (\<lambda>menu.
     company_flows parse c t ns (map_put key \<lparr>fl_current = Some (c, k), fl_next = menu\<rparr> flows)))"

fun all_flows ::
  "(string \<Rightarrow> (int \<times> string) option list option) \<Rightarrow> (int, node_table) std_map \<Rightarrow>
   (string, t_flownode) std_map \<Rightarrow> (string, t_flownode) std_map c_result" where
  "all_flows parse [] flows = Inr flows"
| "all_flows parse ((c, t) # ts) flows = res_bind (company_flows parse c t t flows) (all_flows parse ts)"

definition Initivrflow ::
  "int option \<Rightarrow> (string \<Rightarrow> (int \<times> string) option list option) \<Rightarrow> t_ivrnode list \<Rightarrow> ivr_manager \<Rightarrow> ivr_manager c_result" where
  "Initivrflow stray parse nodetable mgr =
     res_bind (node_tables stray nodetable (m_IVRnodetable mgr)) (\<lambda>tables.
     res_bind (all_flows parse tables (m_flowtable mgr)) (\<lambda>flows.
     Inr \<lparr>m_IVRnodetable = tables, m_flowtable = flows\<rparr>))"

text \<open>\<open>Init\<close> and \<open>Reload\<close>; \<open>nodetable\<close> is what the database returns.\<close>

definition ivr_Reload ::
  "int option \<Rightarrow> (string \<Rightarrow> (int \<times> string) option list option) \<Rightarrow> t_ivrnode list \<Rightarrow> ivr_manager \<Rightarrow> ivr_manager c_result" where
  "ivr_Reload stray parse nodetable mgr =
     Initivrflow stray parse nodetable (mgr\<lparr>m_IVRnodetable := [], m_flowtable := []\<rparr>)"

section \<open>Following a key\<close>

text \<open>\<open>m_flowtable[uniqueid]\<close> makes a node without menu when there is none.\<close>

definition Getnodeinfo :: "int \<Rightarrow> int \<Rightarrow> string \<Rightarrow> ivr_manager \<Rightarrow> (node_ptr option \<times> ivr_manager) c_result" where
  "Getnodeinfo companyid currentnode dtmfnum mgr =
     (case map_find (m_IVRnodetable mgr) companyid of
        None \<Rightarrow> Inr (None, mgr)
      | Some ptable \<Rightarrow>
          if map_find ptable currentnode = None then Inr (None, mgr)
          else res_bind (flow_key companyid currentnode) (\<lambda>uniqueid.
            let flow = (case map_find (m_flowtable mgr) uniqueid of
                          None \<Rightarrow> \<lparr>fl_current = None, fl_next = []\<rparr> | Some f \<Rightarrow> f);
                mgr' = mgr\<lparr>m_flowtable := map_put uniqueid flow (m_flowtable mgr)\<rparr>
            in Inr (if dtmfnum = IVR_ANS_DFTM then fl_current flow
                    else if dtmfnum = ''#'' then map_find (fl_next flow) []
                    else map_find (fl_next flow) dtmfnum, mgr')))"


section \<open>The tables hold\<close>

definition table_ok :: "node_table \<Rightarrow> bool" where
  "table_ok t \<longleftrightarrow> map_ok t \<and> (\<forall>k n. map_find t k = Some n \<longrightarrow> node_id n = k) \<and> map_find t IVR_AGENT_FLOW_INDEX \<noteq> None"

definition tables_ok :: "(int, node_table) std_map \<Rightarrow> bool" where
  "tables_ok ts \<longleftrightarrow> map_ok ts \<and> (\<forall>c t. map_find ts c = Some t \<longrightarrow> table_ok t)"

abbreviation put_row :: "t_ivrnode \<Rightarrow> node_table \<Rightarrow> node_table" where
  "put_row n \<equiv> map_put (node_id n) n"

lemma put_row_ok [wf_intros]: "table_ok t \<Longrightarrow> table_ok (put_row n t)"
  by (auto simp: table_ok_def map_laws)

lemma agent_table_ok [wf_intros]: "table_ok [(IVR_AGENT_FLOW_INDEX, agent_node c)]"
  by (auto simp: table_ok_def map_ok_def map_find_Cons agent_node_def split: if_splits)

lemma company_nodes_rows:
  "company_nodes stray c ns t = Inr (t', rest) \<Longrightarrow>
   t' = fold put_row (takeWhile (\<lambda>n. company_id n = c) ns) t \<and> rest = dropWhile (\<lambda>n. company_id n = c) ns"
  by (induction stray c ns t rule: company_nodes.induct) (auto split: if_splits)

lemma fold_put_row_ok [wf_intros]: "table_ok t \<Longrightarrow> table_ok (fold put_row ns t)"
  by (induction ns arbitrary: t) (auto intro: put_row_ok)

lemma node_tables_step:
  assumes "node_tables stray (n # ns) tables = Inr ts"
  shows "node_tables stray (dropWhile (\<lambda>m. company_id m = company_id n) ns)
     (map_put (company_id n) (fold put_row (n # takeWhile (\<lambda>m. company_id m = company_id n) ns)
        [(IVR_AGENT_FLOW_INDEX, agent_node (company_id n))]) tables) = Inr ts"
proof (cases "company_nodes stray (company_id n) (n # ns) [(IVR_AGENT_FLOW_INDEX, agent_node (company_id n))]")
  case (Inl e)
  then show ?thesis using assms by (simp add: node_tables.simps [of _ "n # ns"])
next
  case (Inr p)
  obtain t rest where p: "p = (t, rest)" by (cases p)
  then show ?thesis
    using company_nodes_rows [OF Inr [unfolded p]] assms Inr by (simp add: node_tables.simps [of _ "n # ns"])
qed

lemma node_tables_ok: "node_tables stray ns tables = Inr ts \<Longrightarrow> tables_ok tables \<Longrightarrow> tables_ok ts"
proof (induction "length ns" arbitrary: ns tables rule: less_induct)
  case less
  show ?case
  proof (cases ns)
    case Nil
    then show ?thesis using less.prems by (simp add: node_tables.simps [of _ "[]"])
  next
    case (Cons n ns')
    let ?t = "fold put_row (n # takeWhile (\<lambda>m. company_id m = company_id n) ns') [(IVR_AGENT_FLOW_INDEX, agent_node (company_id n))]"
    have "table_ok ?t" by (intro wf_intros)
    then have "tables_ok (map_put (company_id n) ?t tables)"
      using less.prems(2) by (auto simp: tables_ok_def map_laws)
    moreover have "length (dropWhile (\<lambda>m. company_id m = company_id n) ns') < length ns"
      using Cons by (simp add: le_imp_less_Suc length_dropWhile_le)
    ultimately show ?thesis
      using less.hyps node_tables_step [OF less.prems(1) [unfolded Cons]] by blast
  qed
qed

section \<open>The keys of the flows are different\<close>

lemma dec_digits_inj: "dec_digits a = dec_digits b \<Longrightarrow> a = b"
  by (metis digits_val_dec)

lemma dec_digits_chars: "x \<in> set (dec_digits n) \<Longrightarrow> c_isdigit x"
  using dec_digits_all [of n] by (auto simp: list_all_iff)

lemma dec_int_inj: "dec_int a = dec_int b \<Longrightarrow> a = b"
proof -
  have minus: "dec_digits n \<noteq> CHR ''-'' # s" for n s
    using dec_digits_chars [of "CHR ''-''" n] by (auto simp: c_isdigit_def byte_of_def)
  show "dec_int a = dec_int b \<Longrightarrow> a = b"
    using minus minus [symmetric] by (auto simp: dec_int_def split: if_splits dest!: dec_digits_inj)
qed

lemma dec_int_no_underscore: "CHR ''_'' \<notin> set (dec_int i)"
  using dec_digits_chars [of "CHR ''_''"] by (auto simp: dec_int_def c_isdigit_def byte_of_def)

lemma flow_key_inj: "flow_key c n = Inr s \<Longrightarrow> flow_key d m = Inr s \<Longrightarrow> c = d \<and> n = m"
proof -
  assume "flow_key c n = Inr s" "flow_key d m = Inr s"
  then have s: "s = dec_int c @ ''_'' @ dec_int n" "s = dec_int d @ ''_'' @ dec_int m"
    by (auto simp: flow_key_def Let_def split: if_splits)
  have "before_chr s CHR ''_'' = dec_int c" unfolding s(1) using before_chr_append [OF dec_int_no_underscore] by simp
  moreover have "before_chr s CHR ''_'' = dec_int d" unfolding s(2) using before_chr_append [OF dec_int_no_underscore] by simp
  ultimately have "dec_int c = dec_int d" by simp
  moreover from this have "dec_int n = dec_int m" using s by simp
  ultimately show ?thesis using dec_int_inj by simp
qed

section \<open>The menus are what the node texts say\<close>

definition menu_target :: "int \<Rightarrow> node_table \<Rightarrow> (int \<times> string) list \<Rightarrow> string \<Rightarrow> node_ptr option" where
  "menu_target c t es d =
     map_option (\<lambda>(n, _). (c, if d = ''0'' then IVR_AGENT_FLOW_INDEX else n))
       (find (\<lambda>(n, d'). d' = d \<and> (d = ''0'' \<or> map_find t n \<noteq> None)) (rev es))"

lemma menu_fold: "map_find (fold (menu_entry c t) es []) d = menu_target c t es d"
proof (induction es rule: rev_induct)
  case (snoc e es)
  obtain n d' where e: "e = (n, d')" by (cases e)
  show ?case
    using snoc e by (cases "d' = ''0''"; cases "map_find t n = None") (auto simp: menu_target_def map_find_put)
qed (simp add: menu_target_def)

lemma company_flows_other:
  "company_flows parse c t ns flows = Inr flows' \<Longrightarrow> (\<And>k n. (k, n) \<in> set ns \<Longrightarrow> flow_key c (node_id n) \<noteq> Inr key) \<Longrightarrow>
   map_find flows' key = map_find flows key"
  by (induction parse c t ns flows rule: company_flows.induct)
     (fastforce simp: res_bind_Inr_iff map_find_put)+

lemma company_flows_node:
  assumes "company_flows parse c t ns flows = Inr flows'" "(k, node) \<in> set ns" "distinct (map fst ns)"
    "\<And>k n. (k, n) \<in> set ns \<Longrightarrow> node_id n = k"
  shows "\<exists>key menu. flow_key c k = Inr key \<and> node_menu parse c t node = Inr menu \<and>
    map_find flows' key = Some \<lparr>fl_current = Some (c, k), fl_next = menu\<rparr>"
  using assms
proof (induction parse c t ns flows rule: company_flows.induct)
  case (2 parse c t k' node' ns flows)
  from "2.prems"(1) obtain key menu where s: "flow_key c k' = Inr key" "node_menu parse c t node' = Inr menu"
      "company_flows parse c t ns (map_put key \<lparr>fl_current = Some (c, k'), fl_next = menu\<rparr> flows) = Inr flows'"
    using "2.prems"(4) by (auto simp: res_bind_Inr_iff)
  show ?case
  proof (cases "k = k'")
    case True
    then have "node = node'" using "2.prems"(2,3) by (force simp: image_iff)
    have "flow_key c (node_id n) \<noteq> Inr key" if "(j, n) \<in> set ns" for j n
    proof
      assume "flow_key c (node_id n) = Inr key"
      then have "j = k'" using flow_key_inj s(1) "2.prems"(4) [of j n] that by force
      then show False using "2.prems"(3) that by (force simp: image_iff)
    qed
    then have "map_find flows' key = Some \<lparr>fl_current = Some (c, k'), fl_next = menu\<rparr>"
      using company_flows_other [OF s(3), of key] by (auto simp: map_find_put)
    then show ?thesis using s True \<open>node = node'\<close> by blast
  next
    case False
    then show ?thesis using "2.IH" [OF s(3)] s "2.prems" "2.prems"(4) [of k' node'] by auto
  qed
qed simp

lemma company_flows_ok: "company_flows parse c t ns flows = Inr flows' \<Longrightarrow> map_ok flows \<Longrightarrow> map_ok flows'"
  by (induction parse c t ns flows rule: company_flows.induct) (auto simp: res_bind_Inr_iff map_ok_put)

lemma all_flows_ok: "all_flows parse ts flows = Inr flows' \<Longrightarrow> map_ok flows \<Longrightarrow> map_ok flows'"
  by (induction parse ts flows rule: all_flows.induct) (auto simp: res_bind_Inr_iff dest: company_flows_ok)

lemma all_flows_other:
  assumes "all_flows parse ts flows = Inr flows'" "c \<notin> fst ` set ts" "flow_key c k = Inr key"
  shows "map_find flows' key = map_find flows key"
  using assms
proof (induction parse ts flows rule: all_flows.induct)
  case (2 parse d w ts flows)
  obtain flows1 where g: "company_flows parse d w w flows = Inr flows1" "all_flows parse ts flows1 = Inr flows'"
    using "2.prems"(1) by (auto simp: res_bind_Inr_iff)
  have "flow_key d (node_id n) \<noteq> Inr key" for n using flow_key_inj "2.prems"(2,3) by fastforce
  then have "map_find flows1 key = map_find flows key" by (intro company_flows_other [OF g(1)]) auto
  then show ?case using "2.IH" [OF g(2)] "2.prems"(2,3) by simp
qed simp

lemma all_flows_node:
  assumes "all_flows parse ts flows = Inr flows'" "map_find ts c = Some t" "tables_ok ts" "map_find t k = Some node"
  shows "\<exists>key menu. flow_key c k = Inr key \<and> node_menu parse c t node = Inr menu \<and>
    map_find flows' key = Some \<lparr>fl_current = Some (c, k), fl_next = menu\<rparr>"
  using assms
proof (induction parse ts flows rule: all_flows.induct)
  case (2 parse c' t' ts flows)
  obtain flows1 where f: "company_flows parse c' t' t' flows = Inr flows1" "all_flows parse ts flows1 = Inr flows'"
    using "2.prems"(1) by (auto simp: res_bind_Inr_iff)
  have ts: "map_ok ts" "c' \<notin> fst ` set ts" using "2.prems"(3) by (auto simp: tables_ok_def map_ok_Cons)
  then have ok: "tables_ok ts"
    using "2.prems"(3) map_find_None [of ts c'] unfolding tables_ok_def map_find_Cons
    by (metis (mono_tags, lifting) option.distinct(1))
  show ?case
  proof (cases "c = c'")
    case False
    then show ?thesis using "2.IH" [OF f(2) _ ok "2.prems"(4)] "2.prems"(2) by (simp add: map_find_Cons)
  next
    case True
    then have t: "t = t'" using "2.prems"(2) by (simp add: map_find_Cons)
    have tok: "table_ok t'" using "2.prems"(3) unfolding tables_ok_def map_find_Cons by metis
    then have ids: "node_id n = j" if "(j, n) \<in> set t'" for j n
      using that map_find_set [of t' j n] by (auto simp: table_ok_def)
    obtain key menu where k: "flow_key c k = Inr key" "node_menu parse c t node = Inr menu"
        "map_find flows1 key = Some \<lparr>fl_current = Some (c, k), fl_next = menu\<rparr>"
      using company_flows_node [OF f(1), of k node] ids tok "2.prems"(4) map_ok_distinct [of t'] map_find_set [of t' k node] t True
      by (auto simp: table_ok_def)
    have "map_find flows' key = map_find flows1 key"
      using all_flows_other [OF f(2) _ k(1)] ts True by simp
    then show ?thesis using k by auto
  qed
qed simp


text \<open>
  The key \<open>#\<close> stands for the empty text in a menu, \<open>-1\<close> asks for the node itself.
\<close>

definition pressed :: "string \<Rightarrow> string" where
  "pressed d = (if d = ''#'' then [] else d)"

text \<open>
  C4. In the menus that \<open>Initivrflow\<close> builds from nothing, every node of every company answers a key
  as its text says: -1 gives the node itself; another key gives the node of the last entry with that
  key whose node exists, the agents for the key 0, and nothing when there is no such entry. A node
  whose text is no JSON answers no key, and no key changes the menus.
\<close>

theorem ivr_follows_menu:
  assumes "Initivrflow stray parse nodetable \<lparr>m_IVRnodetable = [], m_flowtable = []\<rparr> = Inr mgr"
    "map_find (m_IVRnodetable mgr) c = Some t" "map_find t k = Some node"
  shows "Getnodeinfo c k d mgr = Inr
    (if d = IVR_ANS_DFTM then Some (c, k)
     else case parse (user_word node) of
            None \<Rightarrow> None
          | Some es \<Rightarrow> menu_target c t (map the es) (pressed d), mgr)"
proof -
  obtain ts flows where i: "node_tables stray nodetable [] = Inr ts" "all_flows parse ts [] = Inr flows"
      "mgr = \<lparr>m_IVRnodetable = ts, m_flowtable = flows\<rparr>"
    using assms(1) by (auto simp: Initivrflow_def res_bind_Inr_iff)
  have ok: "tables_ok ts" using node_tables_ok [OF i(1)] by (simp add: tables_ok_def)
  obtain key menu where k: "flow_key c k = Inr key" "node_menu parse c t node = Inr menu"
      "map_find flows key = Some \<lparr>fl_current = Some (c, k), fl_next = menu\<rparr>"
    using all_flows_node [OF i(2) _ ok, of c t k node] assms i(3) by auto
  have m: "map_find menu x = (case parse (user_word node) of None \<Rightarrow> None | Some es \<Rightarrow> menu_target c t (map the es) x)" for x
    using k(2) menu_fold [of c t _ x] by (auto simp: node_menu_def split: option.splits if_splits)
  have "map_ok flows" using all_flows_ok [OF i(2)] by simp
  then have "map_put key \<lparr>fl_current = Some (c, k), fl_next = menu\<rparr> flows = flows"
    using k(3) by (rule std.put_same)
  then show ?thesis
    using assms(2,3) i(3) k(1,3) m by (simp add: Getnodeinfo_def pressed_def Let_def split: option.split)
qed


definition menu_row :: "int \<Rightarrow> string \<Rightarrow> string \<Rightarrow> t_ivrnode" where
  "menu_row k words file = \<lparr>enterprise_id = 1, company_id = 3, node_id = k, descript = [], user_word = words, recordfile = file\<rparr>"

definition menu_parse :: "string \<Rightarrow> (int \<times> string) option list option" where
  "menu_parse s = (if s = ''menu'' then Some [Some (2, ''1''), Some (7, ''2''), Some (1, ''0'')] else None)"

abbreviation menu_table :: node_table where
  "menu_table \<equiv> [(1, menu_row 1 ''menu'' ''hello.wav''), (2, menu_row 2 [] ''sale.wav''), (9999, agent_node 3)]"

abbreviation menu_manager :: ivr_manager where
  "menu_manager \<equiv> \<lparr>m_IVRnodetable = [(3, menu_table)],
     m_flowtable = [(''3_1'', \<lparr>fl_current = Some (3, 1), fl_next = [(''0'', (3, 9999)), (''1'', (3, 2))]\<rparr>),
       (''3_2'', \<lparr>fl_current = Some (3, 2), fl_next = []\<rparr>), (''3_9999'', \<lparr>fl_current = Some (3, 9999), fl_next = []\<rparr>)]\<rparr>"

lemma menu_example:
  "Initivrflow (Some 0) menu_parse [menu_row 1 ''menu'' ''hello.wav'', menu_row 2 [] ''sale.wav''] \<lparr>m_IVRnodetable = [], m_flowtable = []\<rparr> =
   Inr menu_manager"
  by (simp add: Initivrflow_def menu_row_def menu_parse_def agent_node_def node_tables.simps
      IVR_AGENT_FLOW_INDEX_def IVR_AGNET_MSG_def flow_key_def dec_int_def dec_digits.simps char_of_def bit_Suc bit_Suc_0_iff
      node_menu_def map_find_Cons Let_def less_char_def of_char_def)

theorem ivr_follows_menu_witness:
  "\<exists>mgr. Initivrflow (Some 0) menu_parse [menu_row 1 ''menu'' ''hello.wav'', menu_row 2 [] ''sale.wav''] \<lparr>m_IVRnodetable = [], m_flowtable = []\<rparr> = Inr mgr \<and>
     Getnodeinfo 3 1 ''1'' mgr = Inr (Some (3, 2), mgr) \<and> Getnodeinfo 3 1 ''2'' mgr = Inr (None, mgr)"
proof (intro exI conjI)
  note follows = ivr_follows_menu [OF menu_example, of 3 menu_table 1 "menu_row 1 ''menu'' ''hello.wav''"]
  note run = map_find_Cons menu_row_def menu_parse_def IVR_ANS_DFTM_def menu_target_def pressed_def
  show "Initivrflow (Some 0) menu_parse [menu_row 1 ''menu'' ''hello.wav'', menu_row 2 [] ''sale.wav'']
      \<lparr>m_IVRnodetable = [], m_flowtable = []\<rparr> = Inr menu_manager"
    by (rule menu_example)
  show "Getnodeinfo 3 1 ''1'' menu_manager = Inr (Some (3, 2), menu_manager)"
    by (rule trans, rule follows) (simp_all add: run)
  show "Getnodeinfo 3 1 ''2'' menu_manager = Inr (None, menu_manager)"
    by (rule trans, rule follows) (simp_all add: run)
qed

section \<open>The rows that are kept\<close>

lemma node_tables_other:
  "node_tables stray ns tables = Inr ts \<Longrightarrow> c \<notin> company_id ` set ns \<Longrightarrow> map_find ts c = map_find tables c"
proof (induction "length ns" arbitrary: ns tables rule: less_induct)
  case less
  show ?case
  proof (cases ns)
    case Nil
    then show ?thesis using less.prems by (simp add: node_tables.simps [of _ "[]"])
  next
    case (Cons n ns')
    have "length (dropWhile (\<lambda>m. company_id m = company_id n) ns') < length ns"
      using Cons by (simp add: le_imp_less_Suc length_dropWhile_le)
    moreover have "c \<notin> company_id ` set (dropWhile (\<lambda>m. company_id m = company_id n) ns')"
      using less.prems(2) Cons by (auto dest: set_dropWhileD)
    ultimately show ?thesis
      using less.hyps [OF _ node_tables_step [OF less.prems(1) [unfolded Cons]]] less.prems(2) Cons
      by (auto simp: map_find_put)
  qed
qed

lemma last_dropWhile: "dropWhile P xs \<noteq> [] \<Longrightarrow> last (dropWhile P xs) = last xs"
  by (induction xs) auto

lemma node_tables_run:
  assumes "node_tables stray (pre @ run @ post) tables = Inr ts" "run \<noteq> []" "\<forall>n \<in> set run. company_id n = c"
    "pre = [] \<or> company_id (last pre) \<noteq> c" "c \<notin> company_id ` set post"
  shows "map_find ts c = Some (fold put_row run [(IVR_AGENT_FLOW_INDEX, agent_node c)])"
  using assms(1,4)
proof (induction "length pre" arbitrary: pre tables rule: less_induct)
  case less
  show ?case
  proof (cases pre)
    case Nil
    obtain r rs where r: "run = r # rs" using assms(2) by (cases run) auto
    have p: "company_id r = c" "\<forall>n \<in> set rs. company_id n = c" using assms(3) r by auto
    have "takeWhile (\<lambda>m. company_id m = c) (rs @ post) = rs"
      using p assms(5) by (cases post) (auto simp: takeWhile_append2)
    moreover have "dropWhile (\<lambda>m. company_id m = c) (rs @ post) = post"
      using p assms(5) by (cases post) (auto simp: dropWhile_append2)
    ultimately have "node_tables stray post (map_put c (fold put_row run [(IVR_AGENT_FLOW_INDEX, agent_node c)]) tables) = Inr ts"
      using node_tables_step [of stray r "rs @ post" tables ts] less.prems(1) Nil r p(1) by simp
    then show ?thesis using node_tables_other assms(5) by (fastforce simp: map_find_put)
  next
    case (Cons n pre')
    let ?d = "company_id n" and ?P = "\<lambda>m. company_id m = company_id n"
    obtain tb where tb: "node_tables stray (dropWhile ?P (pre' @ run @ post)) tb = Inr ts"
      using node_tables_step [of stray n "pre' @ run @ post" tables ts] less.prems(1) Cons by auto
    have "dropWhile ?P (pre' @ run @ post) = dropWhile ?P pre' @ run @ post"
    proof (cases "\<forall>m \<in> set pre'. ?P m")
      case True
      then have "?d \<noteq> c" using less.prems(2) Cons by (cases "pre' = []") auto
      then have "dropWhile ?P (run @ post) = run @ post" using assms(2,3) by (cases run) auto
      then show ?thesis using True by (simp add: dropWhile_append2 dropWhile_eq_Nil_conv [THEN iffD2])
    next
      case False
      then show ?thesis by (auto intro: dropWhile_append1)
    qed
    moreover have "dropWhile ?P pre' = [] \<or> company_id (last (dropWhile ?P pre')) \<noteq> c"
      using less.prems(2) Cons by (cases "dropWhile ?P pre' = []") (auto simp: last_dropWhile split: if_splits)
    ultimately show ?thesis
      using less.hyps [of "dropWhile ?P pre'" tb] tb Cons by (simp add: le_imp_less_Suc length_dropWhile_le)
  qed
qed

text \<open>
  A company has in its menu exactly the agents' node and the rows of its last unbroken run in the
  node table, the last row of a number counting: rows of the company in front of rows of another one
  are lost. (The query has no order, so the rows of a company need not stand together.)
\<close>

theorem ivr_last_run:
  assumes "Initivrflow stray parse (pre @ run @ post) mgr = Inr mgr'" "run \<noteq> []"
    "\<forall>n \<in> set run. company_id n = c" "pre = [] \<or> company_id (last pre) \<noteq> c" "c \<notin> company_id ` set post"
  shows "\<exists>t. map_find (m_IVRnodetable mgr') c = Some t \<and>
    map_find t k = (case find (\<lambda>n. node_id n = k) (rev run) of
       Some n \<Rightarrow> Some n | None \<Rightarrow> if k = IVR_AGENT_FLOW_INDEX then Some (agent_node c) else None)"
proof -
  obtain ts where "node_tables stray (pre @ run @ post) (m_IVRnodetable mgr) = Inr ts" "m_IVRnodetable mgr' = ts"
    using assms(1) by (auto simp: Initivrflow_def res_bind_Inr_iff)
  then have "map_find (m_IVRnodetable mgr') c = Some (fold put_row run [(IVR_AGENT_FLOW_INDEX, agent_node c)])"
    using node_tables_run assms(2-5) by blast
  moreover have "map_find (fold put_row run t) k =
      (case find (\<lambda>n. node_id n = k) (rev run) of Some n \<Rightarrow> Some n | None \<Rightarrow> map_find t k)" for t
    by (induction run rule: rev_induct) (auto simp: map_find_put)
  ultimately show ?thesis by (auto simp: map_find_Cons split: option.split)
qed

theorem ivr_last_run_witness:
  "\<exists>t. map_find (m_IVRnodetable menu_manager) 3 = Some t \<and> map_find t 2 = Some (menu_row 2 [] ''sale.wav'')"
  using ivr_last_run [of "Some 0" menu_parse "[]" "[menu_row 1 ''menu'' ''hello.wav'', menu_row 2 [] ''sale.wav'']" "[]",
      unfolded append_Nil append_Nil2, OF menu_example, of 3 2]
  by (simp add: menu_row_def map_find_Cons)

text \<open>Without the memory behind the rows, no table can be read.\<close>

lemma ivr_reads_behind:
  "nodetable \<noteq> [] \<Longrightarrow> Initivrflow None parse nodetable mgr = Inl OutOfBounds"
proof -
  have co: "company_nodes None c ns t = Inl OutOfBounds \<or> (\<exists>t' n r. company_nodes None c ns t = Inr (t', n # r))" for c ns t
    by (induction "None :: int option" c ns t rule: company_nodes.induct) auto
  have "ns \<noteq> [] \<Longrightarrow> node_tables None ns tables = Inl OutOfBounds" for ns tables
  proof (induction "length ns" arbitrary: ns tables rule: less_induct)
    case less
    then obtain n ns' where n: "ns = n # ns'" by (cases ns) auto
    let ?r = "company_nodes None (company_id n) (n # ns') [(IVR_AGENT_FLOW_INDEX, agent_node (company_id n))]"
    show ?case
    proof (cases ?r)
      case (Inl e)
      then have "e = OutOfBounds"
        using co [of "company_id n" "n # ns'" "[(IVR_AGENT_FLOW_INDEX, agent_node (company_id n))]"]
        by (auto simp del: company_nodes.simps)
      then show ?thesis using Inl n by (simp add: node_tables.simps [of _ "n # ns'"] del: company_nodes.simps)
    next
      case (Inr p)
      then obtain t m r where p: "?r = Inr (t, m # r)"
        using co [of "company_id n" "n # ns'" "[(IVR_AGENT_FLOW_INDEX, agent_node (company_id n))]"]
        by (auto simp del: company_nodes.simps)
      have "m # r = dropWhile (\<lambda>x. company_id x = company_id n) ns'" using company_nodes_rows [OF p] by simp
      then have "length (m # r) < length ns" using n by (metis length_dropWhile_le le_imp_less_Suc length_Cons)
      then show ?thesis using less.hyps p n by (simp add: node_tables.simps [of _ "n # ns'"] del: company_nodes.simps)
    qed
  qed
  then show "nodetable \<noteq> [] \<Longrightarrow> Initivrflow None parse nodetable mgr = Inl OutOfBounds" by (simp add: Initivrflow_def)
qed

end
