(* ===== verification/AcdQueue.thy ===== *)
theory AcdQueue
  imports Prelude "HOL-Library.Multiset"
begin

text \<open>
  The queue of waiting callers (\<^verbatim>\<open>ACDqueue.h\<close>): \<^verbatim>\<open>priorityqueue\<close> is a \<^verbatim>\<open>std::priority_queue\<close> with a
  semaphore that counts its elements. The \<^verbatim>\<open>std::priority_queue\<close> is the binary heap of
  \<^verbatim>\<open>push_heap\<close> and \<^verbatim>\<open>pop_heap\<close> over a \<^verbatim>\<open>std::vector\<close>, the vector a list; it is modelled down to the
  array because the order \<open><\<close> on \<open>ivrsession\<close> (\<^verbatim>\<open>IVRmanager.h\<close>) is no strict order, so the contract of
  the library does not say what the queue does.

  The locale \<open>heap_order\<close> states what is needed of a comparison, \<open>priority_queue\<close> what a queue
  promises; the second is an interpretation of the first on sessions of one customer level.
\<close>

section \<open>The binary heap\<close>

abbreviation parent :: "nat \<Rightarrow> nat" where
  "parent i \<equiv> (i - 1) div 2"

text \<open>\<open>v\<close> moves up from the hole \<open>h\<close> as long as its parent compares less.\<close>

function push_up :: "('a \<Rightarrow> 'a \<Rightarrow> bool) \<Rightarrow> 'a list \<Rightarrow> nat \<Rightarrow> 'a \<Rightarrow> 'a list" where
  "push_up lt xs h v =
     (if 0 < h \<and> lt (xs ! parent h) v then push_up lt (xs[h := xs ! parent h]) (parent h) v
      else xs[h := v])"
  by pat_completeness auto
termination
  by (relation "measure (\<lambda>(lt, xs, h, v). h)") auto

declare push_up.simps [simp del]

text \<open>The hole moves down to a leaf, the greater child moving up; the result is the hole.\<close>

function sink_hole :: "('a \<Rightarrow> 'a \<Rightarrow> bool) \<Rightarrow> 'a list \<Rightarrow> nat \<Rightarrow> 'a list \<times> nat" where
  "sink_hole lt xs h =
     (if 2 * h + 2 < length xs
      then let c = (if lt (xs ! (2 * h + 2)) (xs ! (2 * h + 1)) then 2 * h + 1 else 2 * h + 2)
           in sink_hole lt (xs[h := xs ! c]) c
      else if 2 * h + 2 = length xs then (xs[h := xs ! (2 * h + 1)], 2 * h + 1)
      else (xs, h))"
  by pat_completeness auto
termination
  by (relation "measure (\<lambda>(lt, xs, h). length xs - h)") (auto split: if_splits)

declare sink_hole.simps [simp del]

definition heap_push :: "('a \<Rightarrow> 'a \<Rightarrow> bool) \<Rightarrow> 'a \<Rightarrow> 'a list \<Rightarrow> 'a list" where
  "heap_push lt v xs = push_up lt (xs @ [v]) (length xs) v"

definition heap_pop :: "('a \<Rightarrow> 'a \<Rightarrow> bool) \<Rightarrow> 'a list \<Rightarrow> 'a list" where
  "heap_pop lt xs =
     (if length xs \<le> 1 then butlast xs
      else case sink_hole lt (butlast xs) 0 of (ys, h) \<Rightarrow> push_up lt ys h (last xs))"

section \<open>What a comparison must do\<close>

text \<open>
  No two neighbours on a path of the heap are in the wrong order of \<open>key\<close>; \<open>heap_except_up\<close> leaves
  out the edge above the hole, \<open>heap_except_down\<close> every edge at the hole.
\<close>

definition heap_ordered :: "('a \<Rightarrow> 'k :: linorder) \<Rightarrow> 'a list \<Rightarrow> bool" where
  "heap_ordered key xs \<longleftrightarrow> (\<forall>i. 0 < i \<and> i < length xs \<longrightarrow> key (xs ! parent i) \<le> key (xs ! i))"

definition heap_except_up :: "('a \<Rightarrow> 'k :: linorder) \<Rightarrow> 'a list \<Rightarrow> nat \<Rightarrow> bool" where
  "heap_except_up key xs h \<longleftrightarrow>
     (\<forall>i. 0 < i \<and> i < length xs \<longrightarrow>
        (i \<noteq> h \<longrightarrow> key (xs ! parent i) \<le> key (xs ! i)) \<and>
        (parent i = h \<and> 0 < h \<longrightarrow> key (xs ! parent h) \<le> key (xs ! i)))"

definition heap_except_down :: "('a \<Rightarrow> 'k :: linorder) \<Rightarrow> 'a list \<Rightarrow> nat \<Rightarrow> bool" where
  "heap_except_down key xs h \<longleftrightarrow>
     (\<forall>i. 0 < i \<and> i < length xs \<longrightarrow>
        (i \<noteq> h \<and> parent i \<noteq> h \<longrightarrow> key (xs ! parent i) \<le> key (xs ! i)) \<and>
        (parent i = h \<and> 0 < h \<longrightarrow> key (xs ! parent h) \<le> key (xs ! i)))"

lemma heap_ordered_root:
  "heap_ordered key xs \<Longrightarrow> i < length xs \<Longrightarrow> key (xs ! 0) \<le> key (xs ! i)"
proof (induction i rule: less_induct)
  case (less i)
  show ?case
  proof (cases "i = 0")
    case False
    then have "key (xs ! 0) \<le> key (xs ! parent i)" using less.prems by (intro less.IH) auto
    also have "\<dots> \<le> key (xs ! i)" using less.prems False by (simp add: heap_ordered_def)
    finally show ?thesis .
  qed simp
qed

lemma mset_hole_moves:
  assumes "h < length xs" "c < length xs" "h \<noteq> c"
  shows "mset ((xs[h := xs ! c])[c := v]) = mset (xs[h := v])"
  using mset_swap [of c "xs[h := v]" h] assms by (simp add: list_update_swap)

lemma push_up_mset: "h < length xs \<Longrightarrow> mset (push_up lt xs h v) = mset (xs[h := v])"
proof (induction lt xs h v rule: push_up.induct)
  case (1 lt xs h v)
  then show ?case
    using mset_hole_moves [of h xs "parent h" v] by (subst push_up.simps) auto
qed

lemma push_up_length [simp]: "length (push_up lt xs h v) = length xs"
  by (induction lt xs h v rule: push_up.induct) (subst push_up.simps, auto)

lemma sink_hole_mset:
  "sink_hole lt xs h = (ys, k) \<Longrightarrow> h < length xs \<Longrightarrow>
   k < length xs \<and> length ys = length xs \<and> mset (ys[k := v]) = mset (xs[h := v])"
proof (induction lt xs h arbitrary: ys k rule: sink_hole.induct)
  case (1 lt xs h)
  let ?c = "if lt (xs ! (2 * h + 2)) (xs ! (2 * h + 1)) then 2 * h + 1 else 2 * h + 2"
  consider "2 * h + 2 < length xs" | "2 * h + 2 = length xs" | "length xs < 2 * h + 2" by linarith
  then show ?case
  proof cases
    case 1
    then have "?c < length xs" "h \<noteq> ?c" by auto
    moreover have "sink_hole lt (xs[h := xs ! ?c]) ?c = (ys, k)"
      using "1.prems"(1) 1 by (simp add: sink_hole.simps [of lt xs h] Let_def)
    ultimately show ?thesis
      using "1.IH" [OF 1 refl] "1.prems"(2) mset_hole_moves [of h xs ?c v] by simp
  next
    case 2
    then show ?thesis
      using "1.prems" mset_hole_moves [of h xs "2 * h + 1" v] by (auto simp: sink_hole.simps [of lt xs h])
  next
    case 3
    then show ?thesis using "1.prems" by (simp add: sink_hole.simps [of lt xs h])
  qed
qed

locale heap_order =
  fixes lt :: "'a \<Rightarrow> 'a \<Rightarrow> bool" and key :: "'a \<Rightarrow> 'k :: linorder" and valid :: "'a set"
  assumes lt_key: "a \<in> valid \<Longrightarrow> b \<in> valid \<Longrightarrow> lt a b \<Longrightarrow> key b \<le> key a"
    and not_lt_key: "a \<in> valid \<Longrightarrow> b \<in> valid \<Longrightarrow> \<not> lt a b \<Longrightarrow> key a \<le> key b"
begin

lemma push_up_ordered:
  assumes "heap_except_up key xs h" "\<forall>i. 0 < i \<and> i < length xs \<and> parent i = h \<longrightarrow> key v \<le> key (xs ! i)"
    and "h < length xs" "set xs \<subseteq> valid" "v \<in> valid"
  shows "heap_ordered key (push_up lt xs h v)"
  using assms
proof (induction h arbitrary: xs rule: less_induct)
  case (less h)
  note up = less.prems(1) [unfolded heap_except_up_def, rule_format]
  show ?case
  proof (cases "0 < h \<and> lt (xs ! parent h) v")
    case True
    let ?p = "parent h" and ?ys = "xs[h := xs ! parent h]"
    have p: "?p < h" "?p < length xs" using True less.prems(3) by auto
    have v: "key v \<le> key (xs ! ?p)" using True less.prems p by (intro lt_key) (auto intro: nth_mem)
    have "heap_ordered key (push_up lt ?ys ?p v)"
    proof (rule less.IH [OF p(1)])
      show "heap_except_up key ?ys ?p"
        unfolding heap_except_up_def
      proof (intro allI impI conjI, goal_cases)
        case (1 i)
        then show ?case using up [of i] p less.prems(3) by (cases "i = h") (auto simp: nth_list_update)
      next
        case (2 i)
        then have "key (xs ! parent ?p) \<le> key (xs ! ?p)" using up [of ?p] p by auto
        moreover have "i \<noteq> h \<longrightarrow> key (xs ! ?p) \<le> key (xs ! i)" using up [of i] 2 by auto
        moreover have "parent ?p \<noteq> h" "i < length xs" using p 2 by auto
        ultimately show ?case using p less.prems(3) by (cases "i = h") (auto simp: nth_list_update)
      qed
      show "\<forall>i. 0 < i \<and> i < length ?ys \<and> parent i = ?p \<longrightarrow> key v \<le> key (?ys ! i)"
        using up v less.prems(3) by (auto simp: nth_list_update) (metis order_trans)
      show "?p < length ?ys" using p by simp
      have "xs ! ?p \<in> valid" using less.prems(4) p by (auto intro: nth_mem)
      then show "set ?ys \<subseteq> valid" using less.prems(4) set_update_subset_insert [of xs h "xs ! ?p"] by auto
      show "v \<in> valid" by (rule less.prems(5))
    qed
    then show ?thesis using True by (subst push_up.simps) simp
  next
    case False
    have "h = 0 \<or> key (xs ! parent h) \<le> key v"
      using False less.prems by (auto intro!: not_lt_key intro: nth_mem)
    then have "heap_ordered key (xs[h := v])"
      using up less.prems(2,3) by (auto simp: heap_ordered_def nth_list_update)
    then show ?thesis using False by (subst push_up.simps) auto
  qed
qed

lemma sink_hole_ordered:
  assumes "sink_hole lt xs h = (ys, k)" "heap_except_down key xs h" "h < length xs" "set xs \<subseteq> valid"
  shows "heap_except_down key ys k \<and> length ys \<le> 2 * k + 1 \<and> set ys \<subseteq> valid"
  using assms
proof (induction "length xs - h" arbitrary: xs h rule: less_induct)
  case less
  note down = less.prems(2) [unfolded heap_except_down_def, rule_format]
  have moved: "heap_except_down key (xs[h := xs ! c]) c \<and> set (xs[h := xs ! c]) \<subseteq> valid"
    if c: "c < length xs" "0 < c" "parent c = h"
      and low: "\<And>i. 0 < i \<Longrightarrow> i < length xs \<Longrightarrow> parent i = h \<Longrightarrow> key (xs ! c) \<le> key (xs ! i)" for c
  proof
    have ne: "c \<noteq> h" using c(2,3) by auto
    show "heap_except_down key (xs[h := xs ! c]) c"
      unfolding heap_except_down_def
    proof (intro allI impI conjI, goal_cases)
      case (1 i)
      then have i: "0 < i" "i < length xs" "i \<noteq> c" "parent i \<noteq> c" by auto
      then have up: "parent i \<noteq> i" by linarith
      consider "i = h" | "i \<noteq> h" "parent i = h" | "i \<noteq> h" "parent i \<noteq> h" by blast
      then show ?case
      proof cases
        assume ih: "i = h"
        have "key (xs ! parent h) \<le> key (xs ! c)" using down [of c] c i(1) ih by simp
        then show ?thesis using up ih less.prems(3) by (simp add: nth_list_update)
      next
        assume ih: "i \<noteq> h" "parent i = h"
        then show ?thesis using low [OF i(1,2) ih(2)] less.prems(3) by simp
      next
        assume ih: "i \<noteq> h" "parent i \<noteq> h"
        then show ?thesis using down [of i] i by simp
      qed
    next
      case (2 i)
      have "parent i \<noteq> h" "i \<noteq> h" using 2 ne c by auto
      then show ?case using down [of i] 2 c less.prems(3) ne by (auto simp: nth_list_update)
    qed
    have "xs ! c \<in> valid" using less.prems(4) c(1) by (auto intro: nth_mem)
    then show "set (xs[h := xs ! c]) \<subseteq> valid"
      using less.prems(4) set_update_subset_insert [of xs h "xs ! c"] by auto
  qed
  have kids: "i = 2 * h + 1 \<or> i = 2 * h + 2" if "0 < i" "parent i = h" for i using that by auto
  let ?c = "if lt (xs ! (2 * h + 2)) (xs ! (2 * h + 1)) then 2 * h + 1 else 2 * h + 2"
  consider (two) "2 * h + 2 < length xs" | (one) "2 * h + 2 = length xs" | (leaf) "length xs < 2 * h + 2" by linarith
  then show ?case
  proof cases
    case two
    have v: "xs ! (2 * h + 1) \<in> valid" "xs ! (2 * h + 2) \<in> valid" using two less.prems(4) by (auto intro: nth_mem)
    have c: "?c < length xs" "0 < ?c" "parent ?c = h" "h < ?c" using two by auto
    have "key (xs ! ?c) \<le> key (xs ! i)" if "0 < i" "i < length xs" "parent i = h" for i
      using kids [OF that(1,3)] lt_key [OF v(2,1)] not_lt_key [OF v(2,1)] by auto
    note m = moved [OF c(1,2,3) this]
    have "sink_hole lt (xs[h := xs ! ?c]) ?c = (ys, k)"
      using less.prems(1) two by (simp add: sink_hole.simps [of lt xs h] Let_def)
    then show ?thesis using less.hyps [of "xs[h := xs ! ?c]" ?c] m c by auto
  next
    case one
    have r: "ys = xs[h := xs ! (2 * h + 1)]" "k = 2 * h + 1"
      using less.prems(1) one by (auto simp: sink_hole.simps [of lt xs h])
    have "key (xs ! (2 * h + 1)) \<le> key (xs ! i)" if "0 < i" "i < length xs" "parent i = h" for i
      using kids [OF that(1,3)] that(2) one by auto
    then have "heap_except_down key (xs[h := xs ! (2 * h + 1)]) (2 * h + 1) \<and> set (xs[h := xs ! (2 * h + 1)]) \<subseteq> valid"
      using moved [of "2 * h + 1"] one by auto
    then show ?thesis unfolding r using one by simp
  next
    case leaf
    then show ?thesis using less.prems by (auto simp: sink_hole.simps [of lt xs h])
  qed
qed

lemma heap_push_ordered:
  assumes "heap_ordered key xs" "set xs \<subseteq> valid" "v \<in> valid"
  shows "heap_ordered key (heap_push lt v xs)"
  unfolding heap_push_def
proof (rule push_up_ordered)
  have *: "(xs @ [v]) ! i = xs ! i" if "i < length xs" for i using that by (simp add: nth_append)
  show "heap_except_up key (xs @ [v]) (length xs)"
    using assms(1) by (auto simp: heap_except_up_def heap_ordered_def *)
qed (use assms in auto)

lemma heap_pop_ordered:
  assumes "heap_ordered key xs" "set xs \<subseteq> valid"
  shows "heap_ordered key (heap_pop lt xs)"
proof (cases "length xs \<le> 1")
  case True
  then show ?thesis by (auto simp: heap_pop_def heap_ordered_def)
next
  case False
  obtain ys k where s: "sink_hole lt (butlast xs) 0 = (ys, k)" by fastforce
  have "heap_except_down key (butlast xs) 0"
    using assms(1) by (auto simp: heap_except_down_def heap_ordered_def nth_butlast)
  moreover have "set (butlast xs) \<subseteq> valid" using assms(2) by (auto dest: in_set_butlastD)
  ultimately have d: "heap_except_down key ys k \<and> length ys \<le> 2 * k + 1 \<and> set ys \<subseteq> valid"
    using sink_hole_ordered [OF s] False by auto
  have leaf: "parent i \<noteq> k" if "0 < i" "i < length ys" for i using that d by auto
  have "k < length ys" using sink_hole_mset [OF s] False by auto
  moreover have "heap_except_up key ys k" using d leaf by (auto simp: heap_except_up_def heap_except_down_def)
  moreover have "last xs \<in> valid" using assms(2) False last_in_set [of xs] by fastforce
  ultimately have "heap_ordered key (push_up lt ys k (last xs))" using d leaf by (intro push_up_ordered) auto
  then show ?thesis using False s by (simp add: heap_pop_def)
qed

end

lemma heap_push_mset: "mset (heap_push lt v xs) = add_mset v (mset xs)"
  by (simp add: heap_push_def push_up_mset)

lemma heap_pop_mset:
  assumes "xs \<noteq> []"
  shows "mset (heap_pop lt xs) = mset xs - {#hd xs#}"
proof (cases "length xs \<le> 1")
  case True
  then show ?thesis using assms by (cases xs) (auto simp: heap_pop_def)
next
  case False
  obtain ys k where s: "sink_hole lt (butlast xs) 0 = (ys, k)" by fastforce
  then have m: "k < length ys \<and> mset (ys[k := last xs]) = mset ((butlast xs)[0 := last xs])"
    using sink_hole_mset [OF s, of "last xs"] False by auto
  then have "mset (heap_pop lt xs) = mset ((butlast xs)[0 := last xs])" using False s by (simp add: heap_pop_def push_up_mset)
  moreover obtain a zs b where "xs = a # zs @ [b]"
    using False by (cases xs; cases "tl xs" rule: rev_cases) auto
  ultimately show ?thesis by simp
qed

lemma push_up_to_root:
  assumes "\<forall>x \<in> set xs. lt x v" "h < length xs"
  shows "push_up lt xs h v ! 0 = v"
  using assms
proof (induction lt xs h v rule: push_up.induct)
  case (1 lt xs h v)
  show ?case
  proof (cases "h = 0")
    case True
    then show ?thesis using "1.prems" by (subst push_up.simps) simp
  next
    case False
    then have p: "parent h < length xs" "lt (xs ! parent h) v" using "1.prems" by (auto simp: nth_mem)
    then have "\<forall>x \<in> set (xs[h := xs ! parent h]). lt x v"
      using "1.prems" set_update_subset_insert [of xs h "xs ! parent h"] by auto
    then have "push_up lt (xs[h := xs ! parent h]) (parent h) v ! 0 = v"
      using "1.IH" False p by auto
    then show ?thesis using False p by (subst push_up.simps) simp
  qed
qed

section \<open>The contract of a queue\<close>

fun drain :: "('q \<Rightarrow> ('a \<times> 'q) option) \<Rightarrow> nat \<Rightarrow> 'q \<Rightarrow> 'a list" where
  "drain get 0 q = []"
| "drain get (Suc n) q = (case get q of None \<Rightarrow> [] | Some (x, q') \<Rightarrow> x # drain get n q')"

locale priority_queue =
  fixes put :: "'a \<Rightarrow> 'q \<Rightarrow> 'q" and get :: "'q \<Rightarrow> ('a \<times> 'q) option"
    and content :: "'q \<Rightarrow> 'a multiset" and ok :: "'q \<Rightarrow> bool" and valid :: "'a set"
    and key :: "'a \<Rightarrow> 'k :: linorder"
  assumes put_ok: "ok q \<Longrightarrow> v \<in> valid \<Longrightarrow> ok (put v q)"
    and put_content: "content (put v q) = add_mset v (content q)"
    and get_none: "get q = None \<longleftrightarrow> content q = {#}"
    and get_ok: "ok q \<Longrightarrow> get q = Some (x, q') \<Longrightarrow> ok q'"
    and get_content: "get q = Some (x, q') \<Longrightarrow> content q = add_mset x (content q')"
    and get_least: "ok q \<Longrightarrow> get q = Some (x, q') \<Longrightarrow> y \<in># content q' \<Longrightarrow> key x \<le> key y"
begin

lemma drain_content: "mset (drain get (size (content q)) q) = content q"
proof (induction "size (content q)" arbitrary: q)
  case 0
  then show ?case by simp
next
  case (Suc n)
  then obtain x q' where g: "get q = Some (x, q')" using get_none [of q] by (cases "get q") auto
  then have "n = size (content q')" using Suc.hyps(2) get_content [OF g] by simp
  then show ?case using Suc.hyps(1) [of q'] Suc.hyps(2) [symmetric] get_content [OF g] g by simp
qed

lemma drain_from: "set (drain get n q) \<subseteq> set_mset (content q)"
proof (induction n arbitrary: q)
  case (Suc n)
  show ?case
  proof (cases "get q")
    case (Some p)
    then obtain x q' where g: "get q = Some (x, q')" by (cases p) auto
    then show ?thesis using Suc.IH [of q'] get_content [OF g] by auto
  qed simp
qed simp

lemma drain_sorted: "ok q \<Longrightarrow> sorted (map key (drain get n q))"
proof (induction n arbitrary: q)
  case (Suc n)
  show ?case
  proof (cases "get q")
    case (Some p)
    then obtain x q' where g: "get q = Some (x, q')" by (cases p) auto
    then show ?thesis
      using Suc.IH [of q'] Suc.prems get_ok [OF Suc.prems g] get_least [OF Suc.prems g] drain_from [of n q'] by auto
  qed simp
qed simp

end

section \<open>Sessions\<close>

record ivrsession =
  m_companyid :: int
  m_currentnodeid :: int
  m_dmtf :: int
  m_uuid :: string
  m_customtype :: int
  m_startTimestamp :: int
  m_handle :: "nat option"
  m_newhandle :: "nat option"
  m_sessionState :: int

text \<open>
  The constructor, with \<open>now\<close> the time; it leaves \<open>m_companyid\<close>, \<open>m_currentnodeid\<close>, \<open>m_dmtf\<close> and
  \<open>m_handle\<close> as they are in memory, which is \<open>raw\<close>. A handle is the number of its connection.
\<close>

definition new_session :: "ivrsession \<Rightarrow> int \<Rightarrow> ivrsession" where
  "new_session raw now =
     raw\<lparr>m_uuid := [], m_customtype := 0, m_startTimestamp := now, m_newhandle := None, m_sessionState := 0\<rparr>"

text \<open>\<open>operator<\<close>\<close>

definition session_less :: "ivrsession \<Rightarrow> ivrsession \<Rightarrow> bool" where
  "session_less a b =
     (if m_customtype a < m_customtype b then False
      else if m_startTimestamp a < m_startTimestamp b then False else True)"

definition at_level :: "int \<Rightarrow> ivrsession set" where
  "at_level c = {s. m_customtype s = c}"

lemma in_at_level [simp]: "s \<in> at_level c \<longleftrightarrow> m_customtype s = c"
  by (simp add: at_level_def)

interpretation session_order: heap_order session_less m_startTimestamp "at_level c" for c
  by unfold_locales (auto simp: session_less_def split: if_splits)

definition heap_get :: "('a \<Rightarrow> 'a \<Rightarrow> bool) \<Rightarrow> 'a list \<Rightarrow> ('a \<times> 'a list) option" where
  "heap_get lt xs = (if xs = [] then None else Some (hd xs, heap_pop lt xs))"

definition level_heap :: "int \<Rightarrow> ivrsession list \<Rightarrow> bool" where
  "level_heap c xs \<longleftrightarrow> heap_ordered m_startTimestamp xs \<and> set xs \<subseteq> at_level c"

interpretation session_queue:
  priority_queue "heap_push session_less" "heap_get session_less" mset "level_heap c" "at_level c" m_startTimestamp for c
proof (unfold_locales, goal_cases)
  case (1 q v)
  moreover have "set (heap_push session_less v q) = insert v (set q)"
    using heap_push_mset [of session_less v q] by (metis set_mset_add_mset_insert set_mset_mset)
  ultimately show ?case using session_order.heap_push_ordered [of q c v] by (simp add: level_heap_def)
next
  case (2 v q)
  show ?case by (rule heap_push_mset)
next
  case (3 q)
  show ?case by (simp add: heap_get_def)
next
  case (4 q x q')
  have "set_mset (mset q') \<subseteq> set_mset (mset q)"
    using 4(2) heap_pop_mset [of q session_less] by (auto simp: heap_get_def simp flip: set_mset_mset split: if_splits dest: in_diffD)
  then show ?case using 4 session_order.heap_pop_ordered [of q c] by (auto simp: level_heap_def heap_get_def split: if_splits)
next
  case (5 q x q')
  then show ?case by (cases q) (auto simp: heap_get_def heap_pop_mset)
next
  case (6 q x q' y)
  then have "y \<in> set q" "q \<noteq> []" "x = q ! 0"
    using heap_pop_mset [of q session_less]
    by (auto simp: heap_get_def hd_conv_nth simp flip: set_mset_mset split: if_splits dest: in_diffD)
  then show ?case using 6(1) heap_ordered_root [of m_startTimestamp q] by (auto simp: level_heap_def in_set_conv_nth)
qed

section \<open>The queue and its semaphore\<close>

text \<open>
  \<^verbatim>\<open>xSemaphore\<close> comes as a binary; what is used of it are its operations, \<open>counting\<close> says what its
  documentation promises: it counts the signals that no wait has taken, and a wait without one does
  not return.
\<close>

record 's sema_ops =
  sem_signal :: "'s \<Rightarrow> 's"
  sem_wait :: "'s \<Rightarrow> 's option"

definition counting :: "'s sema_ops \<Rightarrow> ('s \<Rightarrow> nat) \<Rightarrow> bool" where
  "counting S pending \<longleftrightarrow>
     (\<forall>s. pending (sem_signal S s) = pending s + 1 \<and>
          (case sem_wait S s of None \<Rightarrow> pending s = 0 | Some t \<Rightarrow> pending s = pending t + 1))"

lemma counting_wait:
  assumes "counting S pending" "0 < pending s"
  shows "\<exists>t. sem_wait S s = Some t \<and> pending s = pending t + 1"
  using assms(1) [unfolded counting_def, rule_format, of s] assms(2) by (cases "sem_wait S s") auto

lemma counting_signal: "counting S pending \<Longrightarrow> pending (sem_signal S s) = pending s + 1"
  by (simp add: counting_def)

record 's acd_queue =
  m_psem :: 's
  m_queue :: "ivrsession list"

text \<open>\<open>priorityqueue::put\<close>; \<open>alloc\<close> tells whether the vector has memory for another element.\<close>

definition pq_put :: "'s sema_ops \<Rightarrow> bool \<Rightarrow> ivrsession \<Rightarrow> 's acd_queue \<Rightarrow> int \<times> 's acd_queue" where
  "pq_put S alloc elem q =
     (if \<not> alloc then (-1, q)
      else (0, q\<lparr>m_queue := heap_push session_less elem (m_queue q), m_psem := sem_signal S (m_psem q)\<rparr>))"

text \<open>
  \<open>priorityqueue::get\<close>: \<open>None\<close> for a wait that does not return, or that returns -1 when its time is
  over; the top of an empty queue is no object.
\<close>

definition pq_get :: "'s sema_ops \<Rightarrow> 's acd_queue \<Rightarrow> (ivrsession \<times> 's acd_queue) option c_result" where
  "pq_get S q =
     (case sem_wait S (m_psem q) of
        None \<Rightarrow> Inr None
      | Some s \<Rightarrow>
          (case heap_get session_less (m_queue q) of
             None \<Rightarrow> Inl OutOfBounds
           | Some (elem, xs) \<Rightarrow> Inr (Some (elem, q\<lparr>m_psem := s, m_queue := xs\<rparr>))))"

definition pq_size :: "'s acd_queue \<Rightarrow> nat" where
  "pq_size q = length (m_queue q)"

text \<open>\<open>priorityqueue::clear\<close> pops every element, and leaves the semaphore as it is.\<close>

function pop_all :: "ivrsession list \<Rightarrow> ivrsession list" where
  "pop_all xs = (case heap_get session_less xs of None \<Rightarrow> xs | Some (x, ys) \<Rightarrow> pop_all ys)"
  by pat_completeness auto
termination pop_all
proof (relation "measure length", goal_cases)
  case (2 xs p x ys)
  then have "mset xs = add_mset x (mset ys)" by (intro session_queue.get_content) simp
  then have "length xs = length ys + 1" by (metis size_add_mset size_mset add.commute plus_1_eq_Suc)
  then show ?case by simp
qed simp

declare pop_all.simps [simp del]

definition pq_clear :: "'s acd_queue \<Rightarrow> 's acd_queue" where
  "pq_clear q = q\<lparr>m_queue := pop_all (m_queue q)\<rparr>"

text \<open>\<open>ACDqueue::in_queue\<close>\<close>

definition in_queue :: "'s sema_ops \<Rightarrow> bool \<Rightarrow> ivrsession \<Rightarrow> 's acd_queue \<Rightarrow> 's acd_queue" where
  "in_queue S alloc s q = snd (pq_put S alloc s q)"

datatype acd_op = Put ivrsession | Get

text \<open>A sequence of calls, with the sessions served so far; a \<open>Get\<close> that has to wait changes nothing.\<close>

fun acd_run :: "'s sema_ops \<Rightarrow> acd_op list \<Rightarrow> 's acd_queue \<Rightarrow> ivrsession list \<Rightarrow> ('s acd_queue \<times> ivrsession list) c_result" where
  "acd_run S [] q served = Inr (q, served)"
| "acd_run S (Put s # ops) q served = acd_run S ops (in_queue S True s q) served"
| "acd_run S (Get # ops) q served =
     (case pq_get S q of
        Inl e \<Rightarrow> Inl e
      | Inr None \<Rightarrow> acd_run S ops q served
      | Inr (Some (s, q')) \<Rightarrow> acd_run S ops q' (served @ [s]))"

fun puts :: "acd_op list \<Rightarrow> ivrsession list" where
  "puts [] = []"
| "puts (Put s # ops) = s # puts ops"
| "puts (Get # ops) = puts ops"

definition acd_wf :: "('s \<Rightarrow> nat) \<Rightarrow> int \<Rightarrow> 's acd_queue \<Rightarrow> bool" where
  "acd_wf pending c q \<longleftrightarrow> pending (m_psem q) = length (m_queue q) \<and> level_heap c (m_queue q)"

lemma in_queue_wf [wf_intros]:
  assumes "counting S pending" "acd_wf pending c q" "s \<in> at_level c"
  shows "acd_wf pending c (in_queue S True s q)"
  using assms session_queue.put_ok [of c "m_queue q" s]
  by (simp add: acd_wf_def in_queue_def pq_put_def counting_def heap_push_def)

lemma pq_get_wf:
  assumes "counting S pending" "acd_wf pending c q"
  shows "case pq_get S q of
      Inl e \<Rightarrow> False
    | Inr None \<Rightarrow> m_queue q = []
    | Inr (Some (s, q')) \<Rightarrow> acd_wf pending c q' \<and> mset (m_queue q) = add_mset s (mset (m_queue q')) \<and>
        (\<forall>t \<in> set (m_queue q). m_startTimestamp s \<le> m_startTimestamp t)"
proof (cases "sem_wait S (m_psem q)")
  case None
  then have "pending (m_psem q) = 0" using assms(1) [unfolded counting_def, rule_format, of "m_psem q"] by simp
  then show ?thesis using assms(2) None by (simp add: pq_get_def acd_wf_def)
next
  case (Some z)
  then have p: "pending (m_psem q) = pending z + 1"
    using assms(1) [unfolded counting_def, rule_format, of "m_psem q"] by simp
  have "m_queue q \<noteq> []" using p assms(2) by (auto simp: acd_wf_def)
  then obtain s xs where g: "heap_get session_less (m_queue q) = Some (s, xs)" by (simp add: heap_get_def)
  have ok: "level_heap c (m_queue q)" using assms(2) by (simp add: acd_wf_def)
  note c = session_queue.get_content [OF g]
  then have "length (m_queue q) = length xs + 1" by (metis size_add_mset size_mset add.commute plus_1_eq_Suc)
  then have "acd_wf pending c (q\<lparr>m_psem := z, m_queue := xs\<rparr>)"
    using p session_queue.get_ok [OF ok g] assms(2) by (simp add: acd_wf_def)
  moreover have "m_startTimestamp s \<le> m_startTimestamp t" if "t \<in> set (m_queue q)" for t
    using that session_queue.get_least [OF ok g, of t] c by (auto simp flip: set_mset_mset)
  ultimately show ?thesis using Some g c by (simp add: pq_get_def)
qed

lemma acd_run_wf:
  assumes "counting S pending" "acd_wf pending c q" "set (puts ops) \<subseteq> at_level c"
  shows "\<exists>q' out. acd_run S ops q served = Inr (q', served @ out) \<and> acd_wf pending c q' \<and>
    mset out + mset (m_queue q') = mset (puts ops) + mset (m_queue q)"
  using assms(2,3)
proof (induction ops arbitrary: q served)
  case (Cons a ops)
  show ?case
  proof (cases a)
    case (Put s)
    then show ?thesis
      using Cons.IH [of "in_queue S True s q" served] Cons.prems in_queue_wf [OF assms(1) Cons.prems(1), of s]
      by (auto simp: in_queue_def pq_put_def heap_push_mset)
  next
    case Get
    note g = pq_get_wf [OF assms(1) Cons.prems(1)]
    show ?thesis
    proof (cases "pq_get S q")
      case (Inr r)
      show ?thesis
      proof (cases r)
        case None
        then show ?thesis using Cons Get Inr by auto
      next
        case (Some p)
        then obtain s q1 where p: "pq_get S q = Inr (Some (s, q1))" using Inr by (cases p) auto
        then show ?thesis using Cons.IH [of q1 "served @ [s]"] Cons.prems Get g by fastforce
      qed
    qed (use g in simp)
  qed
qed simp

text \<open>
  C3. The waiting callers of one customer level: after any sequence of arrivals and requests, every
  caller that arrived is either served or waiting, none is lost and none is doubled; the queue never
  reads an empty vector; a request waits exactly when nobody is waiting, and otherwise returns a
  caller whose call started no later than any other waiting call.
\<close>

theorem acd_serves_earliest:
  assumes "counting S pending" "pending s0 = 0" "set (puts ops) \<subseteq> at_level c"
  shows "\<exists>q served. acd_run S ops \<lparr>m_psem = s0, m_queue = []\<rparr> [] = Inr (q, served) \<and>
    mset served + mset (m_queue q) = mset (puts ops) \<and>
    (case pq_get S q of
       Inl e \<Rightarrow> False
     | Inr None \<Rightarrow> m_queue q = []
     | Inr (Some (s, q')) \<Rightarrow> s \<in> set (m_queue q) \<and> (\<forall>t \<in> set (m_queue q). m_startTimestamp s \<le> m_startTimestamp t))"
proof -
  have "acd_wf pending c \<lparr>m_psem = s0, m_queue = []\<rparr>"
    using assms(2) by (simp add: acd_wf_def level_heap_def heap_ordered_def)
  then obtain q out where r: "acd_run S ops \<lparr>m_psem = s0, m_queue = []\<rparr> [] = Inr (q, [] @ out)" "acd_wf pending c q"
      "mset out + mset (m_queue q) = mset (puts ops)"
    using acd_run_wf [OF assms(1) _ assms(3), of _ "[]"] by fastforce
  moreover have "s \<in> set (m_queue q)" if "mset (m_queue q) = add_mset s (mset (m_queue q'))" for s and q' :: "'a acd_queue"
    using that by (metis set_mset_mset union_single_eq_member add_mset_add_single union_commute)
  ultimately show ?thesis using pq_get_wf [OF assms(1) r(2)] by (auto split: sum.splits option.splits)
qed

definition nat_sema :: "nat sema_ops" where
  "nat_sema = \<lparr>sem_signal = Suc, sem_wait = (\<lambda>n. if n = 0 then None else Some (n - 1))\<rparr>"

lemma counting_nat_sema: "counting nat_sema id"
  by (simp add: counting_def nat_sema_def)

definition caller :: "string \<Rightarrow> int \<Rightarrow> ivrsession" where
  "caller uuid start = \<lparr>m_companyid = 3, m_currentnodeid = 1, m_dmtf = 0, m_uuid = uuid, m_customtype = 0,
     m_startTimestamp = start, m_handle = None, m_newhandle = None, m_sessionState = 0\<rparr>"

theorem acd_serves_earliest_witness:
  "\<exists>q served. acd_run nat_sema [Put (caller ''a'' 20), Put (caller ''b'' 10), Get] \<lparr>m_psem = 0, m_queue = []\<rparr> [] = Inr (q, served) \<and>
    mset served + mset (m_queue q) = {#caller ''a'' 20, caller ''b'' 10#}"
  using acd_serves_earliest [OF counting_nat_sema, of 0 "[Put (caller ''a'' 20), Put (caller ''b'' 10), Get]" 0]
  by (auto simp: caller_def)

text \<open>
  A caller is served before all callers whose calls started in the same second: when nobody
  waiting started earlier, the next request returns the caller that was put last. Callers of one
  second are thus served in the reverse of the order they arrived in.
\<close>

theorem acd_same_second_reversed:
  assumes "counting S pending" "set (m_queue q) \<subseteq> at_level c" "s \<in> at_level c"
    "\<forall>t \<in> set (m_queue q). m_startTimestamp s \<le> m_startTimestamp t"
  shows "\<exists>q'. pq_get S (in_queue S True s q) = Inr (Some (s, q'))"
proof -
  let ?xs = "heap_push session_less s (m_queue q)"
  have "\<forall>t \<in> set (m_queue q @ [s]). session_less t s" using assms(2-4) by (auto simp: session_less_def)
  then have "?xs ! 0 = s" unfolding heap_push_def by (rule push_up_to_root) simp
  moreover have "?xs \<noteq> []" by (simp add: heap_push_def flip: length_greater_0_conv)
  ultimately have "heap_get session_less ?xs = Some (s, heap_pop session_less ?xs)"
    by (simp add: heap_get_def hd_conv_nth)
  moreover have "sem_wait S (sem_signal S (m_psem q)) \<noteq> None"
    using counting_wait [OF assms(1), of "sem_signal S (m_psem q)"] counting_signal [OF assms(1)] by auto
  ultimately show ?thesis by (auto simp: pq_get_def in_queue_def pq_put_def)
qed

theorem acd_same_second_reversed_witness:
  "\<exists>q'. pq_get nat_sema (in_queue nat_sema True (caller ''late'' 10)
    \<lparr>m_psem = 1, m_queue = [caller ''early'' 10]\<rparr>) = Inr (Some (caller ''late'' 10, q'))"
  using acd_same_second_reversed [OF counting_nat_sema, of "\<lparr>m_psem = 1, m_queue = [caller ''early'' 10]\<rparr>" 0 "caller ''late'' 10"]
  by (simp add: caller_def)

text \<open>After \<open>clear\<close> a request reads the top of an empty queue, when the queue was not empty.\<close>

lemma pq_clear_empty: "m_queue (pq_clear q) = []"
proof -
  have "pop_all xs = []" for xs
  proof (induction xs rule: pop_all.induct)
    case (1 xs)
    then show ?case by (cases "xs = []") (simp_all add: pop_all.simps [of xs] pop_all.simps [of "[]"] heap_get_def)
  qed
  then show ?thesis by (simp add: pq_clear_def)
qed

lemma pq_get_after_clear:
  assumes "counting S pending" "acd_wf pending c q" "m_queue q \<noteq> []"
  shows "pq_get S (pq_clear q) = Inl OutOfBounds"
proof -
  have "0 < pending (m_psem q)" using assms(2,3) by (simp add: acd_wf_def)
  then obtain z where "sem_wait S (m_psem q) = Some z" using counting_wait [OF assms(1)] by blast
  moreover have "m_psem (pq_clear q) = m_psem q" by (simp add: pq_clear_def)
  ultimately show ?thesis using pq_clear_empty [of q] by (simp add: pq_get_def heap_get_def)
qed

end
