(* ===== verification/DnManager.thy ===== *)
theory DnManager
  imports StdMap AcdQueue
begin

text \<open>
  The agents (\<^verbatim>\<open>DNManager.cpp\<close>): the table \<open>m_DNmap\<close> of the signed-in agents by their number (DN), the
  routing table, the calls a client makes on them (sign in, sign out, set and get the status), their
  copy in the sqlite file, and the choice of the agent for a waiting caller.

  Code that is not in the repository is a parameter, gathered in \<open>dn_env\<close>: sqlite, jsoncpp, the
  semaphores, the clock, and the memory a default-constructed \<open>DNuser\<close> is found in. Numbers of
  seconds and of calls are unbounded here.
\<close>

section \<open>The data\<close>

record dn_user =
  m_commpanyid :: int
  m_DN :: string
  m_agentid :: string
  m_reason :: string
  m_agentstatus :: int
  m_agentPwd :: string
  m_autoAnswer :: bool
  m_fcSignin :: bool
  m_skills :: string
  m_peerIP :: string
  m_department_id :: int
  m_department_name :: string
  m_user_name :: string
  m_calltimes :: int
  m_callminiutes :: int
  m_idelminiutes :: int

text \<open>\<open>DN_agentStatus\<close> and \<open>ReturnStatus\<close>\<close>

definition DN_NoLogin :: int where "DN_NoLogin = 0"
definition DN_Waiting_ready :: int where "DN_Waiting_ready = 1"
definition DN_Ringing :: int where "DN_Ringing = 2"
definition DN_Talking :: int where "DN_Talking = 4"

definition DN_INVALIDDN :: int where "DN_INVALIDDN = 1000"
definition DN_OPERATOR_SUCCESSED :: int where "DN_OPERATOR_SUCCESSED = 1001"
definition DN_HAS_SIGNINED :: int where "DN_HAS_SIGNINED = 1003"

lemmas dn_codes = DN_NoLogin_def DN_Waiting_ready_def DN_Ringing_def DN_Talking_def DN_INVALIDDN_def
  DN_OPERATOR_SUCCESSED_def DN_HAS_SIGNINED_def

record route =
  rt_group :: string
  rt_agent :: string
  rt_group_id :: string
  rt_gataname :: string
  rt_prefix :: string

record agent_t =
  ag_exten :: string
  ag_uuid :: string
  ag_state :: int

datatype json_value = JInt int | JStr string | JBool bool

datatype fs_call =
    Execute "nat option" string string string  \<comment> \<open>\<open>esl_execute\<close>: handle, application, argument, uuid\<close>
  | Disconnect nat                             \<comment> \<open>\<open>esl_disconnect\<close> and \<open>delete\<close> of a handle\<close>

type_synonym dn_map = "(string, dn_user) std_map"

record ('s, 'd) dn_manager =
  m_DNmap :: dn_map
  m_agentloginInfo :: "(string, string) std_map"
  m_agentRoute :: "(string, agent_t list) std_map"
  m_gRoute :: "route list"
  m_acdqueue :: "'s acd_queue"
  m_readyDNsema :: 's
  m_calloutsema :: 's
  m_DNChooseRule :: int
  m_compyidDNrulemap :: "(int, int) std_map"
  m_pdb :: 'd
  fs_calls :: "fs_call list"

record ('s, 'd) dn_env =
  e_sema :: "'s sema_ops"
  e_exec :: "string \<Rightarrow> 'd \<Rightarrow> bool \<times> 'd"
  e_styled :: "(string \<times> json_value) list \<Rightarrow> string"
  e_parse :: "string \<Rightarrow> (string \<Rightarrow> json_value option) option"
  e_as_int :: "json_value option \<Rightarrow> int c_result"
  e_as_string :: "json_value option \<Rightarrow> string c_result"
  e_as_bool :: "json_value option \<Rightarrow> bool c_result"
  e_now :: int
  e_raw :: dn_user

section \<open>One agent\<close>

text \<open>The two constructors. The first leaves every number as it is in memory.\<close>

definition default_user :: "('s, 'd) dn_env \<Rightarrow> dn_user" where
  "default_user E = (e_raw E)\<lparr>m_DN := [], m_agentid := [], m_reason := [], m_agentPwd := [], m_skills := [],
     m_peerIP := [], m_department_name := [], m_user_name := []\<rparr>"

definition new_user ::
  "('s, 'd) dn_env \<Rightarrow> string \<Rightarrow> string \<Rightarrow> string \<Rightarrow> int \<Rightarrow> bool \<Rightarrow> bool \<Rightarrow> string \<Rightarrow> string \<Rightarrow> int \<Rightarrow> string \<Rightarrow> string \<Rightarrow> dn_user" where
  "new_user E agentId agentDn agentPwd statusChangetype autoAnswer fcSignin skills peerIP department_id department_name user_name =
     (default_user E)\<lparr>m_DN := agentDn, m_agentid := agentId, m_agentstatus := statusChangetype, m_agentPwd := agentPwd,
       m_autoAnswer := autoAnswer, m_fcSignin := fcSignin, m_skills := skills, m_peerIP := peerIP,
       m_department_id := department_id, m_department_name := department_name, m_user_name := user_name,
       m_calltimes := 0, m_callminiutes := 0, m_idelminiutes := e_now E\<rparr>"

definition Getidelminiute :: "int \<Rightarrow> dn_user \<Rightarrow> int" where
  "Getidelminiute now u = now - m_idelminiutes u - m_callminiutes u"

text \<open>\<open>serialize\<close>\<close>

definition user_fields :: "dn_user \<Rightarrow> (string \<times> json_value) list" where
  "user_fields u =
     [(''commpanyid'', JInt (m_commpanyid u)), (''DN'', JStr (m_DN u)), (''agentid'', JStr (m_agentid u)),
      (''reason'', JStr (m_reason u)), (''agentstatus'', JInt (m_agentstatus u)), (''agentPwd'', JStr (m_agentPwd u)),
      (''autoAnswer'', JBool (m_autoAnswer u)), (''fcSignin'', JBool (m_fcSignin u)), (''skills'', JStr (m_skills u)),
      (''peerIP'', JStr (m_peerIP u))]"

definition user_serialize :: "('s, 'd) dn_env \<Rightarrow> dn_user \<Rightarrow> string" where
  "user_serialize E u = e_styled E (user_fields u)"

text \<open>
  \<open>Unserialize\<close>; \<open>asInt\<close>, \<open>asString\<close> and \<open>asBool\<close> of jsoncpp are asked for a member, \<open>None\<close> when it is
  missing, and may throw.
\<close>

definition user_unserialize :: "('s, 'd) dn_env \<Rightarrow> string \<Rightarrow> dn_user \<Rightarrow> dn_user c_result" where
  "user_unserialize E str u =
     (case e_parse E str of
        None \<Rightarrow> Inr u
      | Some root \<Rightarrow>
          res_bind (e_as_int E (root ''commpanyid'')) (\<lambda>company.
          res_bind (e_as_string E (root ''DN'')) (\<lambda>dn.
          res_bind (e_as_string E (root ''agentid'')) (\<lambda>agentid.
          res_bind (e_as_string E (root ''reason'')) (\<lambda>reason.
          res_bind (e_as_int E (root ''agentstatus'')) (\<lambda>status.
          res_bind (e_as_string E (root ''agentPwd'')) (\<lambda>pwd.
          res_bind (e_as_bool E (root ''autoAnswer'')) (\<lambda>answer.
          res_bind (e_as_bool E (root ''fcSignin'')) (\<lambda>fc.
          res_bind (e_as_string E (root ''skills'')) (\<lambda>skills.
          res_bind (e_as_string E (root ''peerIP'')) (\<lambda>ip.
            Inr (u\<lparr>m_commpanyid := company, m_DN := dn, m_agentid := agentid, m_reason := reason,
              m_agentstatus := status, m_agentPwd := pwd, m_autoAnswer := answer, m_fcSignin := fc,
              m_skills := skills, m_peerIP := ip\<rparr>))))))))))))"

section \<open>The sqlite file\<close>

abbreviation QUOTE :: string where "QUOTE \<equiv> [CHR 0x27]"

text \<open>A statement is printed into an array of 1024 characters and executed.\<close>

definition run_sql :: "('s, 'd) dn_env \<Rightarrow> string \<Rightarrow> ('s, 'd) dn_manager \<Rightarrow> (bool \<times> ('s, 'd) dn_manager) c_result" where
  "run_sql E sql mgr =
     (if length sql < 1024
      then (case e_exec E sql (m_pdb mgr) of (ok, db) \<Rightarrow> Inr (ok, mgr\<lparr>m_pdb := db\<rparr>))
      else Inl OutOfBounds)"

definition InsertTable :: "('s, 'd) dn_env \<Rightarrow> dn_user \<Rightarrow> ('s, 'd) dn_manager \<Rightarrow> (bool \<times> ('s, 'd) dn_manager) c_result" where
  "InsertTable E u = run_sql E (''Insert into  dnuser (strdn  ,strserize ) values'' @
     ''('' @ QUOTE @ m_DN u @ QUOTE @ '','' @ QUOTE @ user_serialize E u @ QUOTE @ '') '')"

definition DeleteTable :: "('s, 'd) dn_env \<Rightarrow> dn_user \<Rightarrow> ('s, 'd) dn_manager \<Rightarrow> (bool \<times> ('s, 'd) dn_manager) c_result" where
  "DeleteTable E u = run_sql E (''delete from  dnuser where strdn = '' @ QUOTE @ m_DN u @ QUOTE)"

definition Changestate :: "('s, 'd) dn_env \<Rightarrow> dn_user \<Rightarrow> ('s, 'd) dn_manager \<Rightarrow> (bool \<times> ('s, 'd) dn_manager) c_result" where
  "Changestate E u mgr = res_bind (DeleteTable E u mgr) (\<lambda>(_, mgr1). InsertTable E u mgr1)"

text \<open>
  \<open>LoadDNSet\<close>; \<open>rows\<close> is the table \<open>dnuser\<close>, \<open>None\<close> when it cannot be read (then it is created).
\<close>

definition SetDNsemaSignal :: "('s, 'd) dn_env \<Rightarrow> ('s, 'd) dn_manager \<Rightarrow> ('s, 'd) dn_manager" where
  "SetDNsemaSignal E mgr = mgr\<lparr>m_readyDNsema := sem_signal (e_sema E) (m_readyDNsema mgr)\<rparr>"

fun load_rows :: "('s, 'd) dn_env \<Rightarrow> (string \<times> string) list \<Rightarrow> ('s, 'd) dn_manager \<Rightarrow> ('s, 'd) dn_manager c_result" where
  "load_rows E [] mgr = Inr mgr"
| "load_rows E ((strdn, strserize) # rows) mgr =
     (if strserize = [] then load_rows E rows mgr
      else res_bind (user_unserialize E strserize (default_user E)) (\<lambda>u.
        let mgr1 = SetDNsemaSignal E mgr
        in load_rows E rows (mgr1\<lparr>m_DNmap := map_put strdn (u\<lparr>m_agentstatus := DN_Waiting_ready\<rparr>) (m_DNmap mgr1)\<rparr>)))"

definition LoadDNSet ::
  "('s, 'd) dn_env \<Rightarrow> bool \<Rightarrow> (string \<times> string) list option \<Rightarrow> ('s, 'd) dn_manager \<Rightarrow> ('s, 'd) dn_manager c_result" where
  "LoadDNSet E opened rows mgr =
     (if \<not> opened then Inr mgr
      else case rows of
             Some rs \<Rightarrow> load_rows E rs mgr
           | None \<Rightarrow> Inr (mgr\<lparr>m_pdb := snd (e_exec E ''create table dnuser(strdn varchar(255) ,strserize varchar(255))'' (m_pdb mgr))\<rparr>))"

section \<open>Routes\<close>

definition checkvaildDN :: "string \<Rightarrow> ('s, 'd) dn_manager \<Rightarrow> bool" where
  "checkvaildDN dnid mgr \<longleftrightarrow> list_ex (\<lambda>r. rt_agent r = dnid) (m_gRoute mgr)"

definition checkPasswd :: "string \<Rightarrow> string \<Rightarrow> ('s, 'd) dn_manager \<Rightarrow> bool" where
  "checkPasswd dnid pwd mgr \<longleftrightarrow>
     (case map_find (m_agentloginInfo mgr) dnid of None \<Rightarrow> False | Some p \<Rightarrow> p = pwd)"

text \<open>The first route that fits, and one of its columns.\<close>

definition route_column :: "(route \<Rightarrow> bool) \<Rightarrow> (route \<Rightarrow> string) \<Rightarrow> route list \<Rightarrow> string" where
  "route_column P col rs = (case find P rs of None \<Rightarrow> [] | Some r \<Rightarrow> col r)"

definition getGroupId :: "string \<Rightarrow> route list \<Rightarrow> string" where
  "getGroupId agent vRoute = route_column (\<lambda>r. rt_agent r = agent) rt_group_id vRoute"

definition getGroupNumber :: "string \<Rightarrow> route list \<Rightarrow> string" where
  "getGroupNumber agent vRoute = route_column (\<lambda>r. rt_agent r = agent) rt_group vRoute"

definition GetcompanyidbyDN :: "string \<Rightarrow> ('s, 'd) dn_manager \<Rightarrow> string" where
  "GetcompanyidbyDN strDN mgr = route_column (\<lambda>r. rt_agent r = strDN) rt_group_id (m_gRoute mgr)"

definition GetCompanyIdFromgate :: "string \<Rightarrow> ('s, 'd) dn_manager \<Rightarrow> string" where
  "GetCompanyIdFromgate gatenum mgr = route_column (\<lambda>r. rt_group r = gatenum) rt_group_id (m_gRoute mgr)"

definition GetskillIDfromcaller :: "string \<Rightarrow> ('s, 'd) dn_manager \<Rightarrow> string" where
  "GetskillIDfromcaller callernum mgr = (case map_find (m_DNmap mgr) callernum of None \<Rightarrow> [] | Some u \<Rightarrow> m_skills u)"

definition GetDNbyagentid :: "string \<Rightarrow> ('s, 'd) dn_manager \<Rightarrow> string" where
  "GetDNbyagentid strid mgr =
     (case find (\<lambda>(k, u). m_agentid u = strid) (m_DNmap mgr) of None \<Rightarrow> [] | Some (k, u) \<Rightarrow> m_DN u)"

text \<open>
  \<open>find_available_agent\<close>: for a number without agents the iterator is the end of the map, for one with
  an empty list \<open>at(0)\<close> throws; otherwise the first agent is returned, whatever its state.
\<close>

definition find_available_agent :: "string \<Rightarrow> ('s, 'd) dn_manager \<Rightarrow> agent_t c_result" where
  "find_available_agent callInNumber mgr =
     (case map_find (m_agentRoute mgr) callInNumber of
        None \<Rightarrow> Inl OutOfBounds
      | Some [] \<Rightarrow> Inl AssertFailed
      | Some (a # as) \<Rightarrow> Inr a)"

section \<open>Signing in and out, and the status\<close>

text \<open>\<open>m_DNmap[strdn]\<close>\<close>

definition user_at :: "('s, 'd) dn_env \<Rightarrow> string \<Rightarrow> ('s, 'd) dn_manager \<Rightarrow> dn_user" where
  "user_at E strdn mgr = (case map_find (m_DNmap mgr) strdn of None \<Rightarrow> default_user E | Some u \<Rightarrow> u)"

definition put_user :: "string \<Rightarrow> dn_user \<Rightarrow> ('s, 'd) dn_manager \<Rightarrow> ('s, 'd) dn_manager" where
  "put_user strdn u mgr = mgr\<lparr>m_DNmap := map_put strdn u (m_DNmap mgr)\<rparr>"

text \<open>\<open>m_DNmap[strdn].SetagnetStatus(st)\<close>, which signals when the agent is ready.\<close>

definition SetagnetStatus :: "('s, 'd) dn_env \<Rightarrow> string \<Rightarrow> int \<Rightarrow> ('s, 'd) dn_manager \<Rightarrow> ('s, 'd) dn_manager" where
  "SetagnetStatus E strdn st mgr =
     (let mgr1 = put_user strdn ((user_at E strdn mgr)\<lparr>m_agentstatus := st\<rparr>) mgr
      in if st = DN_Waiting_ready then SetDNsemaSignal E mgr1 else mgr1)"

definition Signin ::
  "('s, 'd) dn_env \<Rightarrow> string \<Rightarrow> string \<Rightarrow> string \<Rightarrow> int \<Rightarrow> bool \<Rightarrow> bool \<Rightarrow> string \<Rightarrow> int \<Rightarrow> string \<Rightarrow> string \<Rightarrow> string \<Rightarrow>
   ('s, 'd) dn_manager \<Rightarrow> (int \<times> ('s, 'd) dn_manager) c_result" where
  "Signin E agentId agentDn agentPwd statusChangetype autoAnswer fcSignin skills department_id department_name
     user_name peerIP mgr =
     (if checkvaildDN agentDn mgr
      then case map_find (m_DNmap mgr) agentDn of
             None \<Rightarrow>
               let user = (new_user E agentId agentDn agentPwd statusChangetype autoAnswer fcSignin skills peerIP
                             department_id department_name user_name)
                             \<lparr>m_commpanyid := c_atoi (GetcompanyidbyDN agentDn mgr)\<rparr>;
                   mgr1 = (if statusChangetype = DN_Waiting_ready then SetDNsemaSignal E mgr else mgr);
                   mgr2 = mgr1\<lparr>m_DNmap := map_insert agentDn user (m_DNmap mgr1)\<rparr>
               in res_bind (InsertTable E user mgr2) (\<lambda>(_, mgr3). Inr (DN_OPERATOR_SUCCESSED, mgr3))
           | Some u \<Rightarrow> Inr (DN_HAS_SIGNINED, put_user agentDn (u\<lparr>m_agentstatus := DN_Waiting_ready\<rparr>) mgr)
      else Inr (DN_INVALIDDN, mgr))"

definition Signout :: "('s, 'd) dn_env \<Rightarrow> string \<Rightarrow> ('s, 'd) dn_manager \<Rightarrow> (int \<times> ('s, 'd) dn_manager) c_result" where
  "Signout E agentId mgr =
     (let strDN = GetDNbyagentid agentId mgr
      in if strDN \<noteq> []
         then res_bind (DeleteTable E (user_at E strDN mgr) mgr) (\<lambda>(_, mgr1).
                Inr (DN_OPERATOR_SUCCESSED, mgr1\<lparr>m_DNmap := map_erase strDN (m_DNmap mgr1)\<rparr>))
         else Inr (DN_INVALIDDN, mgr))"

definition SetDNstatus :: "('s, 'd) dn_env \<Rightarrow> string \<Rightarrow> int \<Rightarrow> ('s, 'd) dn_manager \<Rightarrow> (int \<times> ('s, 'd) dn_manager) c_result" where
  "SetDNstatus E agentId agentStatus mgr =
     (let strdn = GetDNbyagentid agentId mgr
      in if strdn \<noteq> []
         then let mgr1 = SetagnetStatus E strdn agentStatus mgr
              in res_bind (Changestate E (user_at E strdn mgr1) mgr1) (\<lambda>(_, mgr2). Inr (DN_OPERATOR_SUCCESSED, mgr2))
         else Inr (DN_INVALIDDN, mgr))"

text \<open>\<open>GetDNstatus\<close>: the code and the status, \<open>None\<close> when it is not written.\<close>

definition GetDNstatus :: "('s, 'd) dn_env \<Rightarrow> string \<Rightarrow> ('s, 'd) dn_manager \<Rightarrow> int \<times> int option \<times> ('s, 'd) dn_manager" where
  "GetDNstatus E agentId mgr =
     (let strdn = GetDNbyagentid agentId mgr
      in if strdn \<noteq> []
         then (DN_OPERATOR_SUCCESSED, Some (m_agentstatus (user_at E strdn mgr)), put_user strdn (user_at E strdn mgr) mgr)
         else (DN_INVALIDDN, None, mgr))"

text \<open>\<open>ResetDNinfo\<close> ends without a return value, \<open>None\<close>, when the number is signed in.\<close>

definition ResetDNinfo :: "string \<Rightarrow> int \<Rightarrow> string \<Rightarrow> string \<Rightarrow> ('s, 'd) dn_manager \<Rightarrow> int option \<times> ('s, 'd) dn_manager" where
  "ResetDNinfo agentid department_id department_name user_name mgr =
     (case map_find (m_DNmap mgr) agentid of
        None \<Rightarrow> (Some (-1), mgr)
      | Some u \<Rightarrow> (None, put_user agentid (u\<lparr>m_department_id := department_id, m_department_name := department_name,
                     m_user_name := user_name, m_agentstatus := DN_Waiting_ready\<rparr>) mgr))"

definition GetWaitingDN :: "int \<Rightarrow> ('s, 'd) dn_manager \<Rightarrow> nat" where
  "GetWaitingDN companyid mgr =
     length (filter (\<lambda>(k, u). m_commpanyid u = companyid \<and> m_agentstatus u = DN_Waiting_ready) (m_DNmap mgr))"

definition Setcalloutsemafree :: "('s, 'd) dn_env \<Rightarrow> ('s, 'd) dn_manager \<Rightarrow> ('s, 'd) dn_manager" where
  "Setcalloutsemafree E mgr = mgr\<lparr>m_calloutsema := sem_signal (e_sema E) (m_calloutsema mgr)\<rparr>"

text \<open>\<open>None\<close> while the wait does not return.\<close>

definition Waitcalloutsema :: "('s, 'd) dn_env \<Rightarrow> ('s, 'd) dn_manager \<Rightarrow> ('s, 'd) dn_manager option" where
  "Waitcalloutsema E mgr =
     map_option (\<lambda>s. mgr\<lparr>m_calloutsema := s\<rparr>) (sem_wait (e_sema E) (m_calloutsema mgr))"

definition GetUserInfolist ::
  "string \<Rightarrow> string \<Rightarrow> string \<Rightarrow> ('s, 'd) dn_manager \<Rightarrow> int \<times> dn_user list" where
  "GetUserInfolist agentid department_id status mgr =
     (if map_find (m_DNmap mgr) agentid = None then (DN_INVALIDDN, [])
      else (DN_OPERATOR_SUCCESSED,
        filter (\<lambda>u. (department_id = [] \<or> m_department_id u = c_atoi department_id) \<and>
                    (status = ''0'' \<or> m_agentstatus u = c_atoi status)) (map snd (m_DNmap mgr))))"

text \<open>
  \<open>reloaddb\<close>: the new routes are those of the database (a table the query leaves out stays as it is
  cleared); the rules are inserted into the map that is there, where a company keeps the rule it has. The menus are reloaded as well (\<open>ivr_Reload\<close>).
\<close>

definition reloaddb ::
  "(string, agent_t list) std_map \<Rightarrow> route list \<Rightarrow> (string, string) std_map \<Rightarrow> (int \<times> int) list \<Rightarrow>
   ('s, 'd) dn_manager \<Rightarrow> ('s, 'd) dn_manager" where
  "reloaddb agents routes logins rules mgr =
     mgr\<lparr>m_agentRoute := agents, m_gRoute := routes, m_agentloginInfo := logins,
       m_compyidDNrulemap := fold (\<lambda>(c, r). map_insert c r) rules (m_compyidDNrulemap mgr)\<rparr>"

section \<open>The agent for a caller\<close>

text \<open>
  \<open>DN_choose_rule\<close>. A round is what one pass over \<open>m_DNmap\<close> finds: the time and the map; when it finds
  nobody the function waits for the semaphore and the next round is another time and map. \<open>None\<close> means
  that the rounds given are over and the function still waits.
\<close>

definition DNRULE_ring_all :: int where "DNRULE_ring_all = 0"
definition DNRULE_long_idel_agent :: int where "DNRULE_long_idel_agent = 1"
definition DNRULE_select :: int where "DNRULE_select = 2"
definition DNRULE_top_down :: int where "DNRULE_top_down = 3"
definition DNRULE_agent_with_least_talk_time :: int where "DNRULE_agent_with_least_talk_time = 4"
definition DNRULE_agent_with_fewest_calls :: int where "DNRULE_agent_with_fewest_calls = 5"
definition DNRULE_sequentially_by_agent_order :: int where "DNRULE_sequentially_by_agent_order = 6"

lemmas dn_rules = DNRULE_ring_all_def DNRULE_long_idel_agent_def DNRULE_select_def DNRULE_top_down_def
  DNRULE_agent_with_least_talk_time_def DNRULE_agent_with_fewest_calls_def DNRULE_sequentially_by_agent_order_def

definition ready_for :: "int \<Rightarrow> dn_user \<Rightarrow> bool" where
  "ready_for companyid u \<longleftrightarrow> companyid = m_commpanyid u \<and> m_agentstatus u = DN_Waiting_ready"

text \<open>\<open>GetAgent_robin\<close>: the first ready agent.\<close>

fun GetAgent_robin :: "int \<Rightarrow> (int \<times> dn_map) list \<Rightarrow> string option" where
  "GetAgent_robin companyid [] = None"
| "GetAgent_robin companyid ((now, m) # rounds) =
     (case find (\<lambda>(k, u). ready_for companyid u) m of
        Some (k, u) \<Rightarrow> Some k
      | None \<Rightarrow> GetAgent_robin companyid rounds)"

text \<open>
  The other rules go through the whole map with the best value so far and its number: a ready agent is
  taken when \<open>better\<close> says so, and then \<open>val\<close> of it is kept.
\<close>

fun scan_agents ::
  "int \<Rightarrow> (int \<Rightarrow> dn_user \<Rightarrow> bool) \<Rightarrow> (dn_user \<Rightarrow> int) \<Rightarrow> dn_map \<Rightarrow> bool \<times> int \<times> string \<Rightarrow> bool \<times> int \<times> string" where
  "scan_agents companyid better val [] acc = acc"
| "scan_agents companyid better val ((k, u) # m) (isFind, best, dn) =
     scan_agents companyid better val m
       (if ready_for companyid u then if better best u then (True, val u, k) else (True, best, dn)
        else (isFind, best, dn))"

text \<open>\<open>GetAgent_idel_agent\<close>\<close>

fun idel_rounds :: "int \<Rightarrow> (int \<times> dn_map) list \<Rightarrow> bool \<times> int \<times> string \<Rightarrow> string option" where
  "idel_rounds companyid [] acc = None"
| "idel_rounds companyid ((now, m) # rounds) acc =
     (case scan_agents companyid (\<lambda>best u. best < Getidelminiute now u) (Getidelminiute now) m acc of
        (isFind, best, dn) \<Rightarrow> if isFind then Some dn else idel_rounds companyid rounds (isFind, best, dn))"

definition GetAgent_idel_agent :: "int \<Rightarrow> (int \<times> dn_map) list \<Rightarrow> string option" where
  "GetAgent_idel_agent companyid rounds = idel_rounds companyid rounds (False, 0, [])"

text \<open>\<open>GetAgent_least_talk_time\<close> and \<open>GetAgent_fewest_calls\<close>; both keep \<open>m_idelminiutes\<close> as the value.\<close>

fun least_talk_rounds :: "int \<Rightarrow> (int \<times> dn_map) list \<Rightarrow> bool \<times> int \<times> string \<Rightarrow> string option" where
  "least_talk_rounds companyid [] acc = None"
| "least_talk_rounds companyid ((now, m) # rounds) acc =
     (case scan_agents companyid (\<lambda>best u. m_callminiutes u < best) m_idelminiutes m acc of
        (isFind, best, dn) \<Rightarrow> if isFind then Some dn else least_talk_rounds companyid rounds (isFind, best, dn))"

definition GetAgent_least_talk_time :: "int \<Rightarrow> (int \<times> dn_map) list \<Rightarrow> string option" where
  "GetAgent_least_talk_time companyid rounds = least_talk_rounds companyid rounds (False, 999999, [])"

fun fewest_calls_rounds :: "int \<Rightarrow> (int \<times> dn_map) list \<Rightarrow> bool \<times> int \<times> string \<Rightarrow> string option" where
  "fewest_calls_rounds companyid [] acc = None"
| "fewest_calls_rounds companyid ((now, m) # rounds) acc =
     (case scan_agents companyid (\<lambda>best u. m_calltimes u < best) m_idelminiutes m acc of
        (isFind, best, dn) \<Rightarrow> if isFind then Some dn else fewest_calls_rounds companyid rounds (isFind, best, dn))"

definition GetAgent_fewest_calls :: "int \<Rightarrow> (int \<times> dn_map) list \<Rightarrow> string option" where
  "GetAgent_fewest_calls companyid rounds = fewest_calls_rounds companyid rounds (False, 999999, [])"

text \<open>
  \<open>GetavailableAgent\<close>. The rule of a company is written to the rule of all companies, which a company
  without a rule of its own then uses.
\<close>

definition choose_rule :: "int \<Rightarrow> ('s, 'd) dn_manager \<Rightarrow> ('s, 'd) dn_manager" where
  "choose_rule companyid mgr =
     (case map_find (m_compyidDNrulemap mgr) companyid of None \<Rightarrow> mgr | Some r \<Rightarrow> mgr\<lparr>m_DNChooseRule := r\<rparr>)"

definition agent_by_rule :: "int \<Rightarrow> int \<Rightarrow> (int \<times> dn_map) list \<Rightarrow> string option" where
  "agent_by_rule r companyid rounds =
     (if r = DNRULE_ring_all then GetAgent_robin companyid rounds
      else if r = DNRULE_long_idel_agent then GetAgent_idel_agent companyid rounds
      else if r = DNRULE_select then GetAgent_robin companyid rounds
      else if r = DNRULE_top_down then GetAgent_robin companyid rounds
      else if r = DNRULE_agent_with_least_talk_time then GetAgent_least_talk_time companyid rounds
      else if r = DNRULE_agent_with_fewest_calls then GetAgent_fewest_calls companyid rounds
      else if r = DNRULE_sequentially_by_agent_order then GetAgent_robin companyid rounds
      else Some [])"

definition GetavailableAgent :: "int \<Rightarrow> (int \<times> dn_map) list \<Rightarrow> ('s, 'd) dn_manager \<Rightarrow> string option \<times> ('s, 'd) dn_manager" where
  "GetavailableAgent companyid rounds mgr =
     (let mgr1 = choose_rule companyid mgr in (agent_by_rule (m_DNChooseRule mgr1) companyid rounds, mgr1))"

text \<open>
  \<open>inline_TransformAgent\<close>: the agent rings, and the caller is bridged to it. The destination
  \<open>user/...\<close> is printed into an array of 16 characters.
\<close>

definition call_fs :: "fs_call \<Rightarrow> ('s, 'd) dn_manager \<Rightarrow> ('s, 'd) dn_manager" where
  "call_fs c mgr = mgr\<lparr>fs_calls := fs_calls mgr @ [c]\<rparr>"

definition inline_TransformAgent ::
  "('s, 'd) dn_env \<Rightarrow> string \<Rightarrow> ivrsession \<Rightarrow> ('s, 'd) dn_manager \<Rightarrow> ('s, 'd) dn_manager c_result" where
  "inline_TransformAgent E strdn session mgr =
     (let mgr1 = SetagnetStatus E strdn DN_Ringing mgr
      in res_bind (Changestate E (user_at E strdn mgr1) mgr1) (\<lambda>(_, mgr2).
         if length (''user/'' @ strdn) < 16
         then let mgr3 = call_fs (Execute (m_handle session) ''bridge'' (''user/'' @ strdn) (m_uuid session))
                           (call_fs (Execute (m_handle session) ''break'' [] (m_uuid session)) mgr2)
              in Inr (case m_newhandle session of None \<Rightarrow> mgr3 | Some h \<Rightarrow> call_fs (Disconnect h) mgr3)
         else Inl OutOfBounds))"

text \<open>\<open>PlayBack\<close> and \<open>TransformAgent\<close>\<close>

definition PlayBack :: "nat option \<Rightarrow> string \<Rightarrow> string \<Rightarrow> ('s, 'd) dn_manager \<Rightarrow> ('s, 'd) dn_manager" where
  "PlayBack handle recorefile uuid mgr =
     call_fs (Execute handle ''playback'' recorefile uuid) (call_fs (Execute handle ''break'' [] uuid) mgr)"

definition TransformAgent ::
  "('s, 'd) dn_env \<Rightarrow> nat option \<Rightarrow> string \<Rightarrow> ivrsession \<Rightarrow> ('s, 'd) dn_manager \<Rightarrow> ('s, 'd) dn_manager" where
  "TransformAgent E handle uuid session mgr =
     mgr\<lparr>m_acdqueue := in_queue (e_sema E) True (session\<lparr>m_handle := handle, m_uuid := uuid\<rparr>) (m_acdqueue mgr)\<rparr>"

text \<open>
  A turn of \<open>ACDqueue::run\<close> in two steps. \<open>acd_take\<close> takes the next caller and reads the rule (\<open>None\<close>
  while nobody waits); \<open>acd_serve\<close> is a round of the choice in the state that is found then (\<open>None\<close>
  when no agent is ready: the semaphore is waited for, and another round follows), and the call of the
  agent when there is one.
\<close>

definition acd_take ::
  "('s, 'd) dn_env \<Rightarrow> ('s, 'd) dn_manager \<Rightarrow> (ivrsession \<times> int \<times> ('s, 'd) dn_manager) option c_result" where
  "acd_take E mgr =
     res_bind (pq_get (e_sema E) (m_acdqueue mgr)) (\<lambda>r.
       case r of
         None \<Rightarrow> Inr None
       | Some (session, q) \<Rightarrow>
           let mgr1 = choose_rule (m_companyid session) (mgr\<lparr>m_acdqueue := q\<rparr>)
           in Inr (Some (session, m_DNChooseRule mgr1, mgr1)))"

definition acd_serve ::
  "('s, 'd) dn_env \<Rightarrow> ivrsession \<Rightarrow> int \<Rightarrow> ('s, 'd) dn_manager \<Rightarrow> (string \<times> ('s, 'd) dn_manager) option c_result" where
  "acd_serve E session r mgr =
     (case agent_by_rule r (m_companyid session) [(e_now E, m_DNmap mgr)] of
        None \<Rightarrow> Inr None
      | Some dn \<Rightarrow> res_bind (inline_TransformAgent E dn session mgr) (\<lambda>mgr1. Inr (Some (dn, mgr1))))"

section \<open>What the choices return\<close>

definition ready_in :: "int \<Rightarrow> dn_map \<Rightarrow> string \<Rightarrow> dn_user \<Rightarrow> bool" where
  "ready_in companyid m k u \<longleftrightarrow> map_find m k = Some u \<and> ready_for companyid u"

lemma ready_in_set: "map_ok m \<Longrightarrow> ready_in c m k u \<longleftrightarrow> (k, u) \<in> set m \<and> ready_for c u"
  by (simp add: ready_in_def map_find_set)

lemma find_least_key:
  assumes "map_ok m" "find (\<lambda>(k, u). P u) m = Some (k, u)"
  shows "(k, u) \<in> set m \<and> P u \<and> (\<forall>(l, w) \<in> set m. P w \<longrightarrow> k \<le> l)"
  using assms by (induction m) (fastforce simp: map_ok_Cons split: if_splits)+

lemma robin_least:
  assumes "\<forall>(now, m) \<in> set rounds. map_ok m"
  shows "(GetAgent_robin c rounds = None \<longleftrightarrow> (\<forall>(now, m) \<in> set rounds. \<nexists>k u. ready_in c m k u)) \<and>
    (\<forall>dn. GetAgent_robin c rounds = Some dn \<longrightarrow>
       (\<exists>now m u. (now, m) \<in> set rounds \<and> ready_in c m dn u \<and> (\<forall>k w. ready_in c m k w \<longrightarrow> dn \<le> k)))"
  using assms
proof (induction c rounds rule: GetAgent_robin.induct)
  case (2 c now m rounds)
  have ok: "map_ok m" using "2.prems" by simp
  show ?case
  proof (cases "find (\<lambda>(k, u). ready_for c u) m")
    case None
    then have "\<nexists>k u. ready_in c m k u" using ok by (auto simp: ready_in_set find_None_iff)
    then show ?thesis using "2.IH" [OF None] "2.prems" None by (simp, blast)
  next
    case (Some p)
    obtain k u where p: "p = (k, u)" by (cases p)
    note l = find_least_key [OF ok Some [unfolded p]]
    then have r: "ready_in c m k u" "\<forall>j w. ready_in c m j w \<longrightarrow> k \<le> j" using ok by (auto simp: ready_in_set)
    have g: "GetAgent_robin c ((now, m) # rounds) = Some k" using Some p by simp
    show ?thesis
    proof (intro conjI allI impI)
      show "GetAgent_robin c ((now, m) # rounds) = None \<longleftrightarrow> (\<forall>(now, m) \<in> set ((now, m) # rounds). \<nexists>k u. ready_in c m k u)"
        using r(1) g by auto
    next
      fix dn
      assume "GetAgent_robin c ((now, m) # rounds) = Some dn"
      then have "dn = k" using g by simp
      then show "\<exists>now' m' u. (now', m') \<in> set ((now, m) # rounds) \<and> ready_in c m' dn u \<and> (\<forall>k w. ready_in c m' k w \<longrightarrow> dn \<le> k)"
        using r by (intro exI [of _ now] exI [of _ m] exI [of _ u]) simp
    qed
  qed
qed simp

lemma scan_found: "fst (scan_agents c better val m acc) \<longleftrightarrow> fst acc \<or> (\<exists>(k, u) \<in> set m. ready_for c u)"
  by (induction c better val m acc rule: scan_agents.induct) auto

lemma scan_none: "\<forall>(k, u) \<in> set m. \<not> ready_for c u \<Longrightarrow> scan_agents c better val m acc = acc"
  by (induction c better val m acc rule: scan_agents.induct) auto

lemma scan_longest:
  assumes "scan_agents c (\<lambda>best u. best < f u) f m (f0, b0, d0) = (r, b, d)"
  shows "(\<forall>(k, u) \<in> set m. ready_for c u \<longrightarrow> f u \<le> b) \<and> b0 \<le> b \<and>
    (b = b0 \<and> d = d0 \<or> (\<exists>u. (d, u) \<in> set m \<and> ready_for c u \<and> f u = b \<and> b0 < b))"
  using assms
proof (induction m arbitrary: f0 b0 d0)
  case (Cons p m)
  obtain k u where p: "p = (k, u)" by (cases p)
  show ?case
  proof (cases "ready_for c u \<and> b0 < f u")
    case True
    then show ?thesis using Cons.IH [of True "f u" k] Cons.prems p by fastforce
  next
    case False
    then show ?thesis using Cons.IH [of "f0 \<or> ready_for c u" b0 d0] Cons.prems p by (cases "ready_for c u") fastforce+
  qed
qed simp

lemma scan_always_better:
  assumes "\<forall>(k, u) \<in> set m. ready_for c u \<longrightarrow> better b0 u \<and> (\<forall>(l, w) \<in> set m. ready_for c w \<longrightarrow> better (val w) u)"
  shows "snd (snd (scan_agents c better val m (f0, b0, d0))) = last (d0 # map fst (filter (\<lambda>(k, u). ready_for c u) m))"
proof -
  have "\<forall>(k, u) \<in> set m. ready_for c u \<longrightarrow> (\<forall>x \<in> insert b0 V. better x u) \<Longrightarrow>
      val ` snd ` {p \<in> set m. ready_for c (snd p)} \<subseteq> V \<Longrightarrow>
      snd (snd (scan_agents c better val m (f0, b0, d0))) = last (d0 # map fst (filter (\<lambda>(k, u). ready_for c u) m))" for V
  proof (induction m arbitrary: f0 b0 d0)
    case (Cons p m)
    obtain k u where p: "p = (k, u)" by (cases p)
    have rest: "\<forall>(k, u) \<in> set m. ready_for c u \<longrightarrow> (\<forall>x \<in> insert b V. better x u)" if "b \<in> insert b0 V" for b
      using Cons.prems(1) that by auto
    have vals: "val ` snd ` {p \<in> set m. ready_for c (snd p)} \<subseteq> V" using Cons.prems(2) by auto
    show ?case
    proof (cases "ready_for c u")
      case True
      then have "val u \<in> V" "better b0 u" using Cons.prems p by (auto simp: image_subset_iff)
      then show ?thesis using Cons.IH [OF rest vals, of "val u" True k] p True by simp
    next
      case False
      then show ?thesis using Cons.IH [OF rest vals, of b0 f0 d0] p by simp
    qed
  qed simp
  from this [of "val ` snd ` {p \<in> set m. ready_for c (snd p)}"] show ?thesis using assms by fastforce
qed

lemma scan_picks:
  "scan_agents c better val m (f0, b0, d0) = (r, b, d) \<Longrightarrow> d = d0 \<or> (\<exists>u. (d, u) \<in> set m \<and> ready_for c u)"
proof (induction m arbitrary: f0 b0 d0)
  case (Cons p m)
  obtain k u where p: "p = (k, u)" by (cases p)
  obtain f1 b1 d1 where s: "(if ready_for c u then if better b0 u then (True, val u, k) else (True, b0, d0) else (f0, b0, d0)) = (f1, b1, d1)"
    by (metis prod_cases3)
  then have "d1 = d0 \<or> d1 = k \<and> ready_for c u" by (auto split: if_splits)
  then show ?case using Cons.IH [of f1 b1 d1] Cons.prems p s by auto
qed simp

text \<open>
  What the rounds of one of the rules that scan the map return: \<open>pass now m acc\<close> is the scan of a round.
\<close>

fun scan_rounds :: "(int \<Rightarrow> dn_map \<Rightarrow> bool \<times> int \<times> string \<Rightarrow> bool \<times> int \<times> string) \<Rightarrow> (int \<times> dn_map) list \<Rightarrow> bool \<times> int \<times> string \<Rightarrow> string option" where
  "scan_rounds pass [] acc = None"
| "scan_rounds pass ((now, m) # rounds) acc =
     (case pass now m acc of (isFind, best, dn) \<Rightarrow> if isFind then Some dn else scan_rounds pass rounds (isFind, best, dn))"

lemma rounds_scan:
  "idel_rounds c rounds acc =
     scan_rounds (\<lambda>now. scan_agents c (\<lambda>best u. best < Getidelminiute now u) (Getidelminiute now)) rounds acc"
  "least_talk_rounds c rounds acc = scan_rounds (\<lambda>now. scan_agents c (\<lambda>best u. m_callminiutes u < best) m_idelminiutes) rounds acc"
  "fewest_calls_rounds c rounds acc = scan_rounds (\<lambda>now. scan_agents c (\<lambda>best u. m_calltimes u < best) m_idelminiutes) rounds acc"
  by (induction rounds arbitrary: acc) (auto split: prod.splits)

lemmas scanning_rules = GetAgent_idel_agent_def GetAgent_least_talk_time_def GetAgent_fewest_calls_def rounds_scan

text \<open>The first round with a ready agent gives the answer, from the start values.\<close>

definition nobody_ready :: "int \<Rightarrow> dn_map \<Rightarrow> bool" where
  "nobody_ready c m \<longleftrightarrow> (\<forall>(k, u) \<in> set m. \<not> ready_for c u)"

lemma nobody_ready_in: "map_ok m \<Longrightarrow> nobody_ready c m \<longleftrightarrow> (\<nexists>k u. ready_in c m k u)"
  by (auto simp: nobody_ready_def ready_in_set)

lemma scan_rounds_answer:
  assumes "\<And>now. pass now = scan_agents c (better now) (val now)"
  shows "(scan_rounds pass rounds (False, b0, d0) = None \<longleftrightarrow> (\<forall>(now, m) \<in> set rounds. nobody_ready c m)) \<and>
    (\<forall>dn. scan_rounds pass rounds (False, b0, d0) = Some dn \<longrightarrow>
       (\<exists>now m b. (now, m) \<in> set rounds \<and> \<not> nobody_ready c m \<and> pass now m (False, b0, d0) = (True, b, dn)))"
proof (induction rounds)
  case (Cons r rounds)
  obtain now m where r: "r = (now, m)" by (cases r)
  show ?case
  proof (cases "nobody_ready c m")
    case True
    then have "pass now m (False, b0, d0) = (False, b0, d0)"
      using scan_none [of m c] assms by (simp add: nobody_ready_def)
    then have "scan_rounds pass (r # rounds) (False, b0, d0) = scan_rounds pass rounds (False, b0, d0)" using r by simp
    then show ?thesis using Cons.IH True r by (simp, blast)
  next
    case False
    obtain f b d where p: "pass now m (False, b0, d0) = (f, b, d)" by (metis prod_cases3)
    then have f using False scan_found [of c "better now" "val now" m "(False, b0, d0)"] assms by (auto simp: nobody_ready_def)
    then have g: "scan_rounds pass (r # rounds) (False, b0, d0) = Some d" using r p by simp
    show ?thesis unfolding g using False r p \<open>f\<close> by auto
  qed
qed simp


definition agent :: "string \<Rightarrow> int \<Rightarrow> int \<Rightarrow> int \<Rightarrow> int \<Rightarrow> dn_user" where
  "agent dn status calls talk since =
     \<lparr>m_commpanyid = 3, m_DN = dn, m_agentid = ''id'' @ dn, m_reason = [], m_agentstatus = status, m_agentPwd = [],
      m_autoAnswer = False, m_fcSignin = False, m_skills = [], m_peerIP = [], m_department_id = 1,
      m_department_name = [], m_user_name = [], m_calltimes = calls, m_callminiutes = talk, m_idelminiutes = since\<rparr>"

lemma agent_fields [simp]:
  "m_callminiutes (agent dn status calls talk since) = talk" "m_calltimes (agent dn status calls talk since) = calls"
  "m_idelminiutes (agent dn status calls talk since) = since" "m_DN (agent dn status calls talk since) = dn"
  "m_agentid (agent dn status calls talk since) = ''id'' @ dn" "m_agentstatus (agent dn status calls talk since) = status"
  "Getidelminiute now (agent dn status calls talk since) = now - since - talk"
  "ready_for c (agent dn status calls talk since) \<longleftrightarrow> c = 3 \<and> status = 1"
  by (auto simp: agent_def Getidelminiute_def ready_for_def DN_Waiting_ready_def)

lemma ready_in_Cons: "ready_in c ((l, v) # m) k u \<longleftrightarrow>
    k = l \<and> u = v \<and> ready_for c v \<or> k \<noteq> l \<and> ready_in c m k u"
  by (auto simp: ready_in_def map_find_Cons)

lemma ready_in_Nil: "\<not> ready_in c [] k u"
  by (simp add: ready_in_def)

lemmas agent_eval = map_ok_def less_char_def of_char_def ready_in_Cons ready_in_Nil map_find_Cons


text \<open>
  The rule \<open>select\<close> (as \<open>ring_all\<close>, \<open>top_down\<close> and \<open>agent_order\<close>) returns the smallest number among
  the ready agents of the company. The rule \<open>long_idel_agent\<close> returns an agent that is idle for the
  longest time; but the empty number when no ready agent has been idle for more than 0 seconds.
\<close>

theorem robin_and_idle_choice:
  assumes "\<forall>(now, m) \<in> set rounds. map_ok m"
  shows "(\<forall>dn. agent_by_rule DNRULE_select c rounds = Some dn \<longrightarrow>
      (\<exists>(now, m) \<in> set rounds. \<exists>u. ready_in c m dn u \<and> (\<forall>k w. ready_in c m k w \<longrightarrow> dn \<le> k))) \<and>
    (\<forall>dn. agent_by_rule DNRULE_long_idel_agent c rounds = Some dn \<longrightarrow>
      (\<exists>(now, m) \<in> set rounds. (\<exists>k u. ready_in c m k u) \<and>
        (if \<exists>k w. ready_in c m k w \<and> 0 < Getidelminiute now w
         then \<exists>u. ready_in c m dn u \<and> (\<forall>k w. ready_in c m k w \<longrightarrow> Getidelminiute now w \<le> Getidelminiute now u)
         else dn = [])))"
proof (intro conjI allI impI)
  fix dn
  assume "agent_by_rule DNRULE_select c rounds = Some dn"
  then show "\<exists>(now, m) \<in> set rounds. \<exists>u. ready_in c m dn u \<and> (\<forall>k w. ready_in c m k w \<longrightarrow> dn \<le> k)"
    using robin_least [OF assms, of c] by (fastforce simp: agent_by_rule_def dn_rules)
next
  fix dn
  let ?better = "\<lambda>now best u. best < Getidelminiute now u"
  assume "agent_by_rule DNRULE_long_idel_agent c rounds = Some dn"
  then have "scan_rounds (\<lambda>now. scan_agents c (?better now) (Getidelminiute now)) rounds (False, 0, []) = Some dn"
    by (simp add: agent_by_rule_def dn_rules scanning_rules)
  then obtain now m b where m: "(now, m) \<in> set rounds" "\<not> nobody_ready c m"
      "scan_agents c (?better now) (Getidelminiute now) m (False, 0, []) = (True, b, dn)"
    using scan_rounds_answer [of "\<lambda>now. scan_agents c (?better now) (Getidelminiute now)" c ?better Getidelminiute rounds 0 "[]", OF refl]
    by blast
  have ok: "map_ok m" using assms m(1) by auto
  have l: "\<forall>k w. ready_in c m k w \<longrightarrow> Getidelminiute now w \<le> b"
      "b = 0 \<and> dn = [] \<or> (\<exists>u. ready_in c m dn u \<and> Getidelminiute now u = b \<and> 0 < b)"
    using scan_longest [OF m(3)] ok by (auto simp: ready_in_set)
  have "if \<exists>k w. ready_in c m k w \<and> 0 < Getidelminiute now w
      then \<exists>u. ready_in c m dn u \<and> (\<forall>k w. ready_in c m k w \<longrightarrow> Getidelminiute now w \<le> Getidelminiute now u)
      else dn = []"
    using l by (auto dest: leD)
  then show "\<exists>(now, m) \<in> set rounds. (\<exists>k u. ready_in c m k u) \<and>
        (if \<exists>k w. ready_in c m k w \<and> 0 < Getidelminiute now w
         then \<exists>u. ready_in c m dn u \<and> (\<forall>k w. ready_in c m k w \<longrightarrow> Getidelminiute now w \<le> Getidelminiute now u)
         else dn = [])"
    using m(1,2) nobody_ready_in [OF ok, of c] by blast
qed

text \<open>An agent who signed in this very second.\<close>

theorem robin_and_idle_choice_witness:
  "\<exists>dn. agent_by_rule 1 3 [(5, [(''1001'', agent ''1001'' 1 0 0 5)])] = Some dn \<and> dn = []"
proof -
  have "agent_by_rule DNRULE_long_idel_agent 3 [(5, [(''1001'', agent ''1001'' 1 0 0 5)])] = Some dn \<Longrightarrow> dn = []" for dn
    using robin_and_idle_choice [of "[(5, [(''1001'', agent ''1001'' 1 0 0 5)])]" 3]
    by (auto simp: agent_eval split: if_splits)
  moreover have "agent_by_rule DNRULE_long_idel_agent 3 [(5, [(''1001'', agent ''1001'' 1 0 0 5)])] \<noteq> None"
    by (simp add: agent_by_rule_def dn_rules GetAgent_idel_agent_def agent_eval)
  ultimately show ?thesis by (auto simp: dn_rules)
qed

text \<open>
  The rules \<open>agent_with_least_talk_time\<close> and \<open>agent_with_fewest_calls\<close> do not compare the agents
  with each other, because what is kept of the best agent is the time it signed in: as long as talk
  times (numbers of calls) are below the sign-in times and below 999999, the first round with ready
  agents returns the ready agent with the greatest number, whatever it has talked.
\<close>

theorem least_talk_is_last:
  assumes "map_ok m" "ready_in c m k0 u0"
    "\<forall>k u. ready_in c m k u \<longrightarrow> m_callminiutes u < 999999 \<and> m_calltimes u < 999999"
    "\<forall>k u l w. ready_in c m k u \<and> ready_in c m l w \<longrightarrow> m_callminiutes u < m_idelminiutes w \<and> m_calltimes u < m_idelminiutes w"
  shows "\<exists>dn u. agent_by_rule DNRULE_agent_with_least_talk_time c ((now, m) # rounds) = Some dn \<and>
    agent_by_rule DNRULE_agent_with_fewest_calls c ((now, m) # rounds) = Some dn \<and>
    ready_in c m dn u \<and> (\<forall>k w. ready_in c m k w \<longrightarrow> k \<le> dn)"
proof -
  let ?ready = "filter (\<lambda>(k, u). ready_for c u) m"
  let ?dn = "last ([] # map fst ?ready)"
  have in_m: "ready_in c m k u \<longleftrightarrow> (k, u) \<in> set ?ready" for k u using assms(1) by (auto simp: ready_in_set)
  have low: "\<forall>(k, u) \<in> set m. ready_for c u \<longrightarrow> m_callminiutes u < 999999 \<and> (\<forall>(l, w) \<in> set m. ready_for c w \<longrightarrow> m_callminiutes u < m_idelminiutes w)"
      "\<forall>(k, u) \<in> set m. ready_for c u \<longrightarrow> m_calltimes u < 999999 \<and> (\<forall>(l, w) \<in> set m. ready_for c w \<longrightarrow> m_calltimes u < m_idelminiutes w)"
    using assms(3,4) assms(1) by (auto simp: ready_in_set)
  have answer: "scan_rounds (\<lambda>now. scan_agents c (\<lambda>best u. f u < best) m_idelminiutes) ((now, m) # rounds) (False, 999999, []) = Some ?dn"
    if "\<forall>(k, u) \<in> set m. ready_for c u \<longrightarrow> f u < 999999 \<and> (\<forall>(l, w) \<in> set m. ready_for c w \<longrightarrow> f u < m_idelminiutes w)" for f :: "dn_user \<Rightarrow> int"
  proof -
    have "snd (snd (scan_agents c (\<lambda>best u. f u < best) m_idelminiutes m (False, 999999, []))) = ?dn"
      using that by (intro scan_always_better) auto
    moreover have "fst (scan_agents c (\<lambda>best u. f u < best) m_idelminiutes m (False, 999999, []))"
      using in_m [of k0 u0] assms(2) by (auto simp: scan_found)
    ultimately show ?thesis by (auto split: prod.splits)
  qed
  have ne: "?ready \<noteq> []" using in_m [of k0 u0, THEN iffD1, OF assms(2)] by (metis empty_iff empty_set)
  then obtain u where u: "last ?ready = (?dn, u)" by (cases "last ?ready") (simp add: last_map)
  have s: "sorted_wrt (\<lambda>a b. fst a < fst b) ?ready"
    using assms(1) by (intro sorted_wrt_filter) (simp add: map_ok_def sorted_wrt_map)
  have "fst p \<le> fst (last ?ready)" if "p \<in> set ?ready" for p
    using s ne that by (cases ?ready rule: rev_cases) (auto simp: sorted_wrt_append)
  then have "\<forall>k w. ready_in c m k w \<longrightarrow> k \<le> ?dn" using in_m u by fastforce
  moreover have "ready_in c m ?dn u" using in_m ne u last_in_set [of ?ready] by metis
  moreover have "agent_by_rule DNRULE_agent_with_least_talk_time c ((now, m) # rounds) = Some ?dn"
    using answer [of m_callminiutes, OF low(1)] by (simp add: agent_by_rule_def dn_rules scanning_rules)
  moreover have "agent_by_rule DNRULE_agent_with_fewest_calls c ((now, m) # rounds) = Some ?dn"
    using answer [of m_calltimes, OF low(2)] by (simp add: agent_by_rule_def dn_rules scanning_rules)
  ultimately show ?thesis by blast
qed

theorem least_talk_is_last_witness:
  "\<exists>dn. agent_by_rule 4 3 [(1700000300, [(''1001'', agent ''1001'' 1 1 20 1700000000), (''1002'', agent ''1002'' 1 9 900 1700000000)])] = Some dn \<and> dn \<ge> ''1002''"
proof -
  let ?m = "[(''1001'', agent ''1001'' 1 1 20 1700000000), (''1002'', agent ''1002'' 1 9 900 1700000000)]"
  have "\<exists>dn u. agent_by_rule DNRULE_agent_with_least_talk_time 3 ((1700000300, ?m) # []) = Some dn \<and>
      agent_by_rule DNRULE_agent_with_fewest_calls 3 ((1700000300, ?m) # []) = Some dn \<and>
      ready_in 3 ?m dn u \<and> (\<forall>k w. ready_in 3 ?m k w \<longrightarrow> k \<le> dn)"
    by (rule least_talk_is_last [of ?m 3 "''1002''" "agent ''1002'' 1 9 900 1700000000"]) (auto simp: agent_eval)
  then show ?thesis by (auto simp: agent_eval dn_rules)
qed

end
