(* ===== verification/DnSession.thy ===== *)
theory DnSession
  imports DnManager
begin

text \<open>
  What the calls on the agents keep and promise: the invariant of the agent table, a session of an
  agent from signing in to signing out, and the copy of the table in the sqlite file.
\<close>

section \<open>The invariant of the table\<close>

text \<open>The nodes are in order, and an agent stands under its own number.\<close>

definition dn_map_ok :: "dn_map \<Rightarrow> bool" where
  "dn_map_ok m \<longleftrightarrow> map_ok m \<and> (\<forall>k u. map_find m k = Some u \<longrightarrow> m_DN u = k)"

abbreviation dn_inv :: "('s, 'd) dn_manager \<Rightarrow> bool" where
  "dn_inv mgr \<equiv> dn_map_ok (m_DNmap mgr)"

lemma dn_map_put [wf_intros]: "dn_map_ok m \<Longrightarrow> m_DN u = k \<Longrightarrow> dn_map_ok (map_put k u m)"
  by (auto simp: dn_map_ok_def map_laws)

lemma dn_map_erase [wf_intros]: "dn_map_ok m \<Longrightarrow> dn_map_ok (map_erase k m)"
  by (auto simp: dn_map_ok_def map_laws split: if_splits)

lemma user_at_number: "dn_inv mgr \<Longrightarrow> map_find (m_DNmap mgr) k \<noteq> None \<or> k = [] \<Longrightarrow> m_DN (user_at E k mgr) = k"
  by (auto simp: user_at_def dn_map_ok_def default_user_def split: option.splits)

text \<open>What a call of sqlite leaves alone.\<close>

lemma run_sql_frame: "run_sql E sql mgr = Inr (r, mgr') \<Longrightarrow> mgr' = mgr\<lparr>m_pdb := m_pdb mgr'\<rparr>"
  by (auto simp: run_sql_def split: if_splits prod.splits)

lemma sql_frames:
  "InsertTable E u mgr = Inr (r, mgr') \<Longrightarrow> mgr' = mgr\<lparr>m_pdb := m_pdb mgr'\<rparr>"
  "DeleteTable E u mgr = Inr (r, mgr') \<Longrightarrow> mgr' = mgr\<lparr>m_pdb := m_pdb mgr'\<rparr>"
  by (auto simp: InsertTable_def DeleteTable_def dest: run_sql_frame)

lemma Changestate_frame: "Changestate E u mgr = Inr (r, mgr') \<Longrightarrow> mgr' = mgr\<lparr>m_pdb := m_pdb mgr'\<rparr>"
proof -
  assume "Changestate E u mgr = Inr (r, mgr')"
  then obtain b mgr1 where c: "DeleteTable E u mgr = Inr (b, mgr1)" "InsertTable E u mgr1 = Inr (r, mgr')"
    by (auto simp: Changestate_def res_bind_Inr_iff)
  show ?thesis by (subst sql_frames(1) [OF c(2)], subst sql_frames(2) [OF c(1)]) simp
qed

lemma sql_keeps_map:
  "InsertTable E u mgr = Inr (r, mgr') \<Longrightarrow> m_DNmap mgr' = m_DNmap mgr \<and> m_gRoute mgr' = m_gRoute mgr \<and> m_readyDNsema mgr' = m_readyDNsema mgr"
  "DeleteTable E u mgr = Inr (r, mgr') \<Longrightarrow> m_DNmap mgr' = m_DNmap mgr \<and> m_gRoute mgr' = m_gRoute mgr \<and> m_readyDNsema mgr' = m_readyDNsema mgr"
  "Changestate E u mgr = Inr (r, mgr') \<Longrightarrow> m_DNmap mgr' = m_DNmap mgr \<and> m_gRoute mgr' = m_gRoute mgr \<and> m_readyDNsema mgr' = m_readyDNsema mgr"
  by (drule sql_frames Changestate_frame, erule ssubst, simp)+

lemma signal_keeps [simp]:
  "m_DNmap (SetDNsemaSignal E mgr) = m_DNmap mgr" "m_gRoute (SetDNsemaSignal E mgr) = m_gRoute mgr"
  by (simp_all add: SetDNsemaSignal_def)

lemma SetagnetStatus_map:
  "m_DNmap (SetagnetStatus E dn st mgr) = map_put dn ((user_at E dn mgr)\<lparr>m_agentstatus := st\<rparr>) (m_DNmap mgr)"
  by (simp add: SetagnetStatus_def put_user_def Let_def)

lemma GetDNbyagentid_found:
  assumes "dn_inv mgr" "GetDNbyagentid i mgr \<noteq> []"
  shows "\<exists>u. map_find (m_DNmap mgr) (GetDNbyagentid i mgr) = Some u \<and> m_agentid u = i"
proof -
  obtain k u where f: "find (\<lambda>(k, u). m_agentid u = i) (m_DNmap mgr) = Some (k, u)"
    using assms(2) by (auto simp: GetDNbyagentid_def split: option.splits)
  then have "(k, u) \<in> set (m_DNmap mgr)" "m_agentid u = i" using find_SomeD by fastforce+
  moreover have ok: "map_ok (m_DNmap mgr)" using assms(1) by (simp add: dn_map_ok_def)
  ultimately have "map_find (m_DNmap mgr) k = Some u" by (simp add: map_find_set)
  then show ?thesis using f assms(1) \<open>m_agentid u = i\<close> by (auto simp: GetDNbyagentid_def dn_map_ok_def)
qed

section \<open>Every call keeps the invariant\<close>

lemma Signin_inv:
  assumes "dn_inv mgr"
    "Signin E agentId dn pwd st autoAnswer fcSignin skills department_id department_name user_name peerIP mgr = Inr (r, mgr')"
  shows "dn_inv mgr'"
proof (cases "checkvaildDN dn mgr \<and> map_find (m_DNmap mgr) dn = None")
  case True
  then show ?thesis
    using assms by (auto simp: Signin_def Let_def res_bind_Inr_iff map_insert_def new_user_def
        dest!: sql_keeps_map intro!: wf_intros)
next
  case False
  then show ?thesis
    using assms by (auto simp: Signin_def put_user_def intro!: wf_intros split: if_splits option.splits)
      (auto simp: dn_map_ok_def)
qed

lemma Signout_inv: "dn_inv mgr \<Longrightarrow> Signout E i mgr = Inr (r, mgr') \<Longrightarrow> dn_inv mgr'"
  by (auto simp: Signout_def Let_def res_bind_Inr_iff dest!: sql_keeps_map intro!: wf_intros split: if_splits)

lemma SetagnetStatus_inv:
  "dn_inv mgr \<Longrightarrow> map_find (m_DNmap mgr) dn \<noteq> None \<or> dn = [] \<Longrightarrow> dn_inv (SetagnetStatus E dn st mgr)"
  by (simp add: SetagnetStatus_map dn_map_put user_at_number)

lemma SetDNstatus_inv: "dn_inv mgr \<Longrightarrow> SetDNstatus E i st mgr = Inr (r, mgr') \<Longrightarrow> dn_inv mgr'"
  using GetDNbyagentid_found [of mgr i] SetagnetStatus_inv [of mgr "GetDNbyagentid i mgr" E st]
  by (auto simp: SetDNstatus_def Let_def res_bind_Inr_iff dest!: sql_keeps_map split: if_splits)

lemma ResetDNinfo_inv: "dn_inv mgr \<Longrightarrow> ResetDNinfo dn i n m mgr = (r, mgr') \<Longrightarrow> dn_inv mgr'"
  by (auto simp: ResetDNinfo_def put_user_def intro!: wf_intros split: option.splits) (auto simp: dn_map_ok_def)

lemma inline_TransformAgent_inv:
  assumes "dn_inv mgr" "map_find (m_DNmap mgr) dn \<noteq> None \<or> dn = []" "inline_TransformAgent E dn session mgr = Inr mgr'"
  shows "dn_inv mgr'"
  using assms SetagnetStatus_inv [OF assms(1,2), of E DN_Ringing]
  by (auto simp: inline_TransformAgent_def Let_def res_bind_Inr_iff call_fs_def dest!: sql_keeps_map split: if_splits option.splits)

lemma choose_rule_keeps [simp]: "m_DNmap (choose_rule c mgr) = m_DNmap mgr"
  by (simp add: choose_rule_def split: option.split)

text \<open>One of the known rules picks a number of the table or the empty one, an unknown rule the empty one.\<close>

lemma agent_by_rule_present:
  assumes "map_ok m" "agent_by_rule r c [(now, m)] = Some dn"
  shows "map_find m dn \<noteq> None \<or> dn = []"
proof (cases "0 \<le> r \<and> r \<le> 6")
  case True
  have scan: "dn = [] \<or> (\<exists>u. (dn, u) \<in> set m)"
    if "scan_rounds (\<lambda>now. scan_agents c (better now) (val now)) [(now, m)] (False, b0, []) = Some dn"
    for better :: "int \<Rightarrow> int \<Rightarrow> dn_user \<Rightarrow> bool" and val b0
    using that scan_picks [of c "better now" "val now" m False b0 "[]"] by (fastforce split: prod.splits if_splits)
  have robin: "\<exists>u. (dn, u) \<in> set m" if "GetAgent_robin c [(now, m)] = Some dn"
    using that by (auto split: option.splits dest: find_SomeD)
  have "r \<in> {0, 1, 2, 3, 4, 5, 6}" using True by auto
  then have "dn = [] \<or> (\<exists>u. (dn, u) \<in> set m)"
    using assms(2) robin scan by (elim insertE emptyE) (simp_all only: agent_by_rule_def dn_rules scanning_rules, simp_all)
  then show ?thesis using map_find_set [OF assms(1), of dn] by auto
next
  case False
  then show ?thesis using assms(2) by (auto simp: agent_by_rule_def dn_rules split: if_splits)
qed

lemma acd_take_inv: "dn_inv mgr \<Longrightarrow> acd_take E mgr = Inr (Some (s, r, mgr')) \<Longrightarrow> dn_inv mgr'"
  by (auto simp: acd_take_def res_bind_Inr_iff Let_def split: option.splits)

lemma acd_serve_inv:
  assumes "dn_inv mgr" "acd_serve E s r mgr = Inr (Some (dn, mgr'))"
  shows "dn_inv mgr'"
proof -
  have a: "agent_by_rule r (m_companyid s) [(e_now E, m_DNmap mgr)] = Some dn" "inline_TransformAgent E dn s mgr = Inr mgr'"
    using assms(2) by (auto simp: acd_serve_def res_bind_Inr_iff split: option.splits)
  then have "map_find (m_DNmap mgr) dn \<noteq> None \<or> dn = []"
    using assms(1) by (intro agent_by_rule_present) (simp add: dn_map_ok_def)
  then show ?thesis using inline_TransformAgent_inv assms(1) a(2) by blast
qed

section \<open>A session of an agent\<close>

lemma GetDNbyagentid_unique:
  assumes "dn_inv mgr" "map_find (m_DNmap mgr) dn = Some u" "m_agentid u = i"
    "\<And>k v. map_find (m_DNmap mgr) k = Some v \<Longrightarrow> m_agentid v = i \<Longrightarrow> k = dn"
  shows "GetDNbyagentid i mgr = dn"
proof (cases "find (\<lambda>(k, u). m_agentid u = i) (m_DNmap mgr)")
  case None
  then show ?thesis using assms(1,2,3) by (auto simp: find_None_iff dn_map_ok_def map_find_set)
next
  case (Some p)
  obtain k v where p: "p = (k, v)" by (cases p)
  then have "(k, v) \<in> set (m_DNmap mgr)" "m_agentid v = i" using find_SomeD [OF Some] by auto
  then have "map_find (m_DNmap mgr) k = Some v" using assms(1) by (simp add: dn_map_ok_def map_find_set)
  then have "k = dn" "m_DN v = k" using assms(1,4) \<open>m_agentid v = i\<close> by (auto simp: dn_map_ok_def)
  then show ?thesis using Some p by (simp add: GetDNbyagentid_def)
qed


definition demo_env :: "(nat, string list) dn_env" where
  "demo_env = \<lparr>e_sema = nat_sema, e_exec = (\<lambda>sql db. (True, db @ [sql])), e_styled = (\<lambda>fs. ''{}''),
     e_parse = (\<lambda>s. None), e_as_int = (\<lambda>v. Inr 0), e_as_string = (\<lambda>v. Inr []), e_as_bool = (\<lambda>v. Inr False),
     e_now = 100, e_raw = agent [] 0 0 0 0\<rparr>"

definition demo_manager :: "(string \<times> dn_user) list \<Rightarrow> (nat, string list) dn_manager" where
  "demo_manager m = \<lparr>m_DNmap = m, m_agentloginInfo = [], m_agentRoute = [],
     m_gRoute = [\<lparr>rt_group = ''8800'', rt_agent = ''1001'', rt_group_id = ''3'', rt_gataname = ''gw'', rt_prefix = ''83''\<rparr>],
     m_acdqueue = \<lparr>m_psem = 0, m_queue = []\<rparr>, m_readyDNsema = 0, m_calloutsema = 0, m_DNChooseRule = DNRULE_select,
     m_compyidDNrulemap = [], m_pdb = [], fs_calls = []\<rparr>"

lemma demo_manager_fields [simp]:
  "m_DNmap (demo_manager m) = m" "m_pdb (demo_manager m) = []" "m_readyDNsema (demo_manager m) = 0"
  "checkvaildDN dn (demo_manager m) \<longleftrightarrow> dn = ''1001''"
  by (auto simp: demo_manager_def checkvaildDN_def)

lemma demo_signin:
  "\<exists>mgr1. Signin demo_env ''id'' ''1001'' ''pw'' 1 True False [] 1 [] [] [] (demo_manager []) = Inr (DN_OPERATOR_SUCCESSED, mgr1)"
  by (simp add: Signin_def InsertTable_def run_sql_def demo_env_def user_serialize_def new_user_def
      SetDNsemaSignal_def map_insert_def Let_def)


section \<open>The status of an agent\<close>

lemma SetDNstatus_exact:
  assumes "dn_inv mgr" "GetDNbyagentid agentId mgr \<noteq> []" "SetDNstatus E agentId st mgr = Inr (r, mgr1)"
  shows "\<exists>u. map_find (m_DNmap mgr) (GetDNbyagentid agentId mgr) = Some u \<and> m_agentid u = agentId \<and>
    r = DN_OPERATOR_SUCCESSED \<and>
    map_find (m_DNmap mgr1) = (map_find (m_DNmap mgr))(GetDNbyagentid agentId mgr := Some (u\<lparr>m_agentstatus := st\<rparr>)) \<and>
    m_readyDNsema mgr1 = (if st = DN_Waiting_ready then sem_signal (e_sema E) (m_readyDNsema mgr) else m_readyDNsema mgr)"
proof -
  let ?dn = "GetDNbyagentid agentId mgr"
  obtain u where u: "map_find (m_DNmap mgr) ?dn = Some u" "m_agentid u = agentId"
    using GetDNbyagentid_found [OF assms(1,2)] by blast
  obtain b where c: "Changestate E (user_at E ?dn (SetagnetStatus E ?dn st mgr)) (SetagnetStatus E ?dn st mgr) = Inr (b, mgr1)"
      "r = DN_OPERATOR_SUCCESSED"
    using assms(2,3) by (auto simp: SetDNstatus_def Let_def res_bind_Inr_iff)
  have "m_DNmap mgr1 = map_put ?dn (u\<lparr>m_agentstatus := st\<rparr>) (m_DNmap mgr)"
    using sql_keeps_map(3) [OF c(1)] u(1) by (simp add: SetagnetStatus_map user_at_def)
  moreover have "m_readyDNsema mgr1 = (if st = DN_Waiting_ready then sem_signal (e_sema E) (m_readyDNsema mgr) else m_readyDNsema mgr)"
    using sql_keeps_map(3) [OF c(1)] by (simp add: SetagnetStatus_def put_user_def SetDNsemaSignal_def Let_def)
  ultimately show ?thesis using u c(2) by (simp add: map_find_put)
qed

text \<open>
  Setting the status of an agent changes the status of the one agent the id is found for, nothing
  else of it and no other agent; it is the status that is given afterwards, and becoming ready signals
  the callers that wait for an agent.
\<close>

theorem set_status_exact:
  assumes "dn_inv mgr" "GetDNbyagentid agentId mgr \<noteq> []" "SetDNstatus E agentId st mgr = Inr (r, mgr1)"
  shows "\<exists>u. map_find (m_DNmap mgr) (GetDNbyagentid agentId mgr) = Some u \<and> m_agentid u = agentId \<and>
    r = DN_OPERATOR_SUCCESSED \<and>
    map_find (m_DNmap mgr1) = (map_find (m_DNmap mgr))(GetDNbyagentid agentId mgr := Some (u\<lparr>m_agentstatus := st\<rparr>)) \<and>
    m_readyDNsema mgr1 = (if st = DN_Waiting_ready then sem_signal (e_sema E) (m_readyDNsema mgr) else m_readyDNsema mgr)"
  using SetDNstatus_exact [OF assms] .

abbreviation demo_agents :: "(string \<times> dn_user) list" where
  "demo_agents \<equiv> [(''1001'', agent ''1001'' 4 0 0 0), (''1002'', agent ''1002'' 1 0 0 0)]"

lemma demo_agents_ok: "dn_map_ok demo_agents"
  by (auto simp: dn_map_ok_def agent_eval split: if_splits)

lemma demo_set_status:
  "\<exists>mgr1. SetDNstatus demo_env ''id1001'' 1 (demo_manager demo_agents) = Inr (DN_OPERATOR_SUCCESSED, mgr1)"
  by (simp add: SetDNstatus_def Changestate_def DeleteTable_def InsertTable_def run_sql_def demo_env_def
      user_serialize_def GetDNbyagentid_def SetagnetStatus_def put_user_def user_at_def SetDNsemaSignal_def
      map_find_Cons Let_def dn_codes)

theorem set_status_exact_witness:
  "\<exists>mgr1. SetDNstatus demo_env ''id1001'' 1 (demo_manager demo_agents) = Inr (DN_OPERATOR_SUCCESSED, mgr1) \<and> m_readyDNsema mgr1 = 1"
proof -
  obtain mgr1 where m: "SetDNstatus demo_env ''id1001'' 1 (demo_manager demo_agents) = Inr (DN_OPERATOR_SUCCESSED, mgr1)"
    using demo_set_status by blast
  have i: "dn_inv (demo_manager demo_agents)" using demo_agents_ok by simp
  have n: "GetDNbyagentid ''id1001'' (demo_manager demo_agents) \<noteq> []" by (simp add: GetDNbyagentid_def)
  show ?thesis using set_status_exact [OF i n m] m by (auto simp: dn_codes demo_env_def nat_sema_def)
qed

text \<open>
  An agent who signs in again, or whose data are reset, becomes ready without a signal: the
  semaphore a waiting caller waits for is left as it is.
\<close>

theorem ready_without_signal:
  assumes "checkvaildDN dn mgr" "map_find (m_DNmap mgr) dn = Some u"
  shows "\<exists>mgr1 mgr2. Signin E agentId dn pwd st autoAnswer fcSignin skills department_id department_name user_name peerIP mgr =
      Inr (DN_HAS_SIGNINED, mgr1) \<and>
    ResetDNinfo dn department_id department_name user_name mgr = (None, mgr2) \<and>
    (\<forall>m \<in> {mgr1, mgr2}. m_readyDNsema m = m_readyDNsema mgr \<and> ready_in (m_commpanyid u) (m_DNmap m) dn (user_at E dn m))"
  using assms
  by (auto simp: Signin_def ResetDNinfo_def put_user_def user_at_def map_find_put ready_in_def ready_for_def)

theorem ready_without_signal_witness:
  "\<exists>mgr1. Signin demo_env ''id1001'' ''1001'' [] 4 True True [] 1 [] [] [] (demo_manager demo_agents) = Inr (DN_HAS_SIGNINED, mgr1) \<and>
     m_readyDNsema mgr1 = 0"
  using ready_without_signal [of "''1001''" "demo_manager demo_agents" "agent ''1001'' 4 0 0 0" demo_env "''id1001''" "[]" 4 True True "[]" 1 "[]" "[]" "[]"]
  by (auto simp: map_find_Cons)

section \<open>The copy in the file\<close>

text \<open>What jsoncpp does with the text of an agent: it is parsed to the members it was printed from.\<close>

definition json_keeps :: "('s, 'd) dn_env \<Rightarrow> dn_user \<Rightarrow> bool" where
  "json_keeps E u \<longleftrightarrow>
     e_parse E (user_serialize E u) = Some (map_of (user_fields u)) \<and>
     (\<forall>i. e_as_int E (Some (JInt i)) = Inr i) \<and> (\<forall>s. e_as_string E (Some (JStr s)) = Inr s) \<and>
     (\<forall>b. e_as_bool E (Some (JBool b)) = Inr b)"

lemma unserialize_serialize:
  "json_keeps E u \<Longrightarrow> user_unserialize E (user_serialize E u) v =
     Inr (v\<lparr>m_commpanyid := m_commpanyid u, m_DN := m_DN u, m_agentid := m_agentid u, m_reason := m_reason u,
       m_agentstatus := m_agentstatus u, m_agentPwd := m_agentPwd u, m_autoAnswer := m_autoAnswer u,
       m_fcSignin := m_fcSignin u, m_skills := m_skills u, m_peerIP := m_peerIP u\<rparr>)"
  by (simp add: user_unserialize_def json_keeps_def user_fields_def)

text \<open>
  An agent read back from the sqlite file after a restart has the company, number, id, password
  and skills it was saved with and is ready, but its department and names are empty, and its number
  of calls, its talk time and the time it signed in are whatever the memory held.
\<close>

theorem restart_restores:
  assumes "json_keeps E u" "user_serialize E u \<noteq> []" "map_find (m_DNmap mgr) dn = None"
  shows "\<exists>mgr1 v. LoadDNSet E True (Some [(dn, user_serialize E u)]) mgr = Inr mgr1 \<and>
    map_find (m_DNmap mgr1) = (map_find (m_DNmap mgr))(dn := Some v) \<and>
    m_commpanyid v = m_commpanyid u \<and> m_DN v = m_DN u \<and> m_agentid v = m_agentid u \<and> m_agentPwd v = m_agentPwd u \<and>
    m_skills v = m_skills u \<and> m_agentstatus v = DN_Waiting_ready \<and>
    m_department_name v = [] \<and> m_user_name v = [] \<and> m_department_id v = m_department_id (e_raw E) \<and>
    m_calltimes v = m_calltimes (e_raw E) \<and> m_callminiutes v = m_callminiutes (e_raw E) \<and>
    m_idelminiutes v = m_idelminiutes (e_raw E)"
  using assms
  by (simp add: LoadDNSet_def unserialize_serialize map_find_put default_user_def Let_def)
    (intro exI conjI, rule refl, simp_all)

definition saved_env :: "dn_user \<Rightarrow> (nat, string list) dn_env" where
  "saved_env u = demo_env\<lparr>e_parse := (\<lambda>s. Some (map_of (user_fields u))),
     e_as_int := (\<lambda>v. case v of Some (JInt i) \<Rightarrow> Inr i | _ \<Rightarrow> Inl AssertFailed),
     e_as_string := (\<lambda>v. case v of Some (JStr s) \<Rightarrow> Inr s | _ \<Rightarrow> Inl AssertFailed),
     e_as_bool := (\<lambda>v. case v of Some (JBool b) \<Rightarrow> Inr b | _ \<Rightarrow> Inl AssertFailed)\<rparr>"

theorem restart_restores_witness:
  "\<exists>mgr1. LoadDNSet (saved_env (agent ''1001'' 4 7 600 5)) True (Some [(''1001'', user_serialize (saved_env (agent ''1001'' 4 7 600 5)) (agent ''1001'' 4 7 600 5))])
      (demo_manager []) = Inr mgr1 \<and> (\<exists>v. map_find (m_DNmap mgr1) ''1001'' = Some v \<and> m_calltimes v = 0)"
  using restart_restores [of "saved_env (agent ''1001'' 4 7 600 5)" "agent ''1001'' 4 7 600 5" "demo_manager []" "''1001''"]
  by (auto simp: json_keeps_def saved_env_def demo_env_def user_serialize_def agent_def)

text \<open>A rule that changes in the database is not changed by reloading.\<close>

lemma reload_keeps_rule:
  assumes "map_ok (m_compyidDNrulemap mgr)" "map_find (m_compyidDNrulemap mgr) c = Some r"
  shows "map_find (m_compyidDNrulemap (reloaddb agents routes logins rules mgr)) c = Some r"
proof -
  have keep: "map_find (map_insert a b m) c = Some r" if "map_find m c = Some r" for a b m
    using that by (auto simp: map_insert_def map_find_put)
  have "map_find m c = Some r \<Longrightarrow> map_find (fold (\<lambda>(c, r). map_insert c r) rules m) c = Some r" for m
    by (induction rules arbitrary: m) (auto intro: keep)
  then show ?thesis using assms(2) by (simp add: reloaddb_def)
qed

end
