(* ===== verification/CallEvents.thy ===== *)
theory CallEvents
  imports EslEvent IvrFlow DnSession
begin

text \<open>
  The call events (\<^verbatim>\<open>ManagerDN::process_event\<close> and \<^verbatim>\<open>ManagerDN::nwaycc_callback\<close> of \<^verbatim>\<open>DNManager.cpp\<close>): the records
  of the outgoing calls, the menu a caller is in, and the agents' status as their calls begin and end.
  The headers of an event are read with the functions of \<open>EslEvent\<close>; what is sent to FreeSWITCH is
  appended to \<open>fs_calls\<close>, what is written to the database to \<open>cc_inserted\<close>. A \<^verbatim>\<open>std::string\<close> made of a
  null pointer is the fault \<open>NullPointer\<close>.
\<close>

section \<open>The data\<close>

record callout_info =
  N_user_id :: int
  N_enterprose_id :: int
  N_company_id :: int
  N_department_id :: int
  N_user_number :: string
  N_customer_number :: string
  N_call_id :: string
  N_call_record :: string
  N_number_attribution :: string
  N_gateway_url :: string
  N_call_start_time :: string
  N_call_end_time :: string
  N_call_duration :: int
  N_callstate :: string
  N_extension_number :: string
  N_call_prefix :: string
  N_record_file :: string
  N_call_type :: string
  N_skill_id :: string
  N_delete_status :: int
  N_create_at :: string
  N_update_at :: string
  N_create_persion :: string
  ci_record_file :: string
  ci_callout_end_time :: int

text \<open>The constructor; the fields without \<open>N_\<close> that the code never reads are left out, \<open>end_time\<close> is what the memory holds.\<close>

definition new_callinfo :: "int \<Rightarrow> callout_info" where
  "new_callinfo end_time =
     \<lparr>N_user_id = 0, N_enterprose_id = 0, N_company_id = 0, N_department_id = 0, N_user_number = [],
      N_customer_number = [], N_call_id = [], N_call_record = [], N_number_attribution = [], N_gateway_url = [],
      N_call_start_time = [], N_call_end_time = [], N_call_duration = 0, N_callstate = ''2'',
      N_extension_number = [], N_call_prefix = [], N_record_file = [], N_call_type = [], N_skill_id = [],
      N_delete_status = 0, N_create_at = [], N_update_at = [], N_create_persion = [],
      ci_record_file = [], ci_callout_end_time = end_time\<rparr>"

record ('s, 'd) call_center =
  cc_dn :: "('s, 'd) dn_manager"
  cc_ivr :: ivr_manager
  cc_ivrmap :: "(string, ivrsession) std_map"
  cc_callInfoMap :: "(string, callout_info) std_map"
  cc_inserted :: "callout_info list"

text \<open>
  The environment of one event: that of the agents, the clock as \<^verbatim>\<open>xTimeUtil::format_time\<close> and
  \<^verbatim>\<open>getcurrenttime\<close> print it, and the memory a new session and the end time of a new record are found in.
\<close>

record ('s, 'd) cc_env =
  ce_dn :: "('s, 'd) dn_env"
  ce_time :: string
  ce_file_time :: string
  ce_session :: ivrsession
  ce_end_time :: int

definition ESL_EVENT_CHANNEL_DESTROY :: nat where "ESL_EVENT_CHANNEL_DESTROY = 3"
definition ESL_EVENT_CHANNEL_ANSWER :: nat where "ESL_EVENT_CHANNEL_ANSWER = 6"
definition ESL_EVENT_CHANNEL_HANGUP :: nat where "ESL_EVENT_CHANNEL_HANGUP = 7"
definition ESL_EVENT_CHANNEL_HANGUP_COMPLETE :: nat where "ESL_EVENT_CHANNEL_HANGUP_COMPLETE = 8"
definition ESL_EVENT_CHANNEL_ORIGINATE :: nat where "ESL_EVENT_CHANNEL_ORIGINATE = 21"
definition ESL_EVENT_DTMF :: nat where "ESL_EVENT_DTMF = 36"
definition ESL_EVENT_PLAYBACK_STOP :: nat where "ESL_EVENT_PLAYBACK_STOP = 77"

lemmas call_event_ids = ESL_EVENT_CHANNEL_DESTROY_def ESL_EVENT_CHANNEL_ANSWER_def ESL_EVENT_CHANNEL_HANGUP_def
  ESL_EVENT_CHANNEL_HANGUP_COMPLETE_def ESL_EVENT_CHANNEL_ORIGINATE_def ESL_EVENT_DTMF_def ESL_EVENT_PLAYBACK_STOP_def

lemma call_event_names:
  "event_names ! ESL_EVENT_CHANNEL_DESTROY = ''CHANNEL_DESTROY''"
  "event_names ! ESL_EVENT_CHANNEL_ANSWER = ''CHANNEL_ANSWER''"
  "event_names ! ESL_EVENT_CHANNEL_HANGUP = ''CHANNEL_HANGUP''"
  "event_names ! ESL_EVENT_CHANNEL_HANGUP_COMPLETE = ''CHANNEL_HANGUP_COMPLETE''"
  "event_names ! ESL_EVENT_CHANNEL_ORIGINATE = ''CHANNEL_ORIGINATE''"
  "event_names ! ESL_EVENT_DTMF = ''DTMF''"
  "event_names ! ESL_EVENT_PLAYBACK_STOP = ''PLAYBACK_STOP''"
  by (simp_all add: call_event_ids event_names_def)

text \<open>\<open>esl_event_get_header(event, name) ? ... : ""\<close>, and the same without the test.\<close>

definition header_or_empty :: "esl_event \<Rightarrow> string \<Rightarrow> string" where
  "header_or_empty event name = (case esl_event_get_header event name of None \<Rightarrow> [] | Some v \<Rightarrow> v)"

definition header_of :: "esl_event \<Rightarrow> string \<Rightarrow> string c_result" where
  "header_of event name = (case esl_event_get_header event name of None \<Rightarrow> Inl NullPointer | Some v \<Rightarrow> Inr v)"

abbreviation unique_id :: "esl_event \<Rightarrow> string" where
  "unique_id event \<equiv> header_or_empty event ''Caller-Unique-ID''"

abbreviation caller_number :: "esl_event \<Rightarrow> string" where
  "caller_number event \<equiv> header_or_empty event ''Caller-Caller-ID-Number''"

abbreviation called_number :: "esl_event \<Rightarrow> string" where
  "called_number event \<equiv> header_or_empty event ''Caller-Destination-Number''"

section \<open>Menus\<close>

text \<open>\<open>*pnode\<close>\<close>

definition node_at :: "ivr_manager \<Rightarrow> node_ptr \<Rightarrow> t_ivrnode c_result" where
  "node_at ivr p =
     (case map_find (m_IVRnodetable ivr) (fst p) of
        None \<Rightarrow> Inl OutOfBounds
      | Some t \<Rightarrow> (case map_find t (snd p) of None \<Rightarrow> Inl OutOfBounds | Some n \<Rightarrow> Inr n))"

text \<open>
  The end of a menu step: the node is played to the caller, or the caller is put in the queue of the
  agents.
\<close>

definition menu_action ::
  "('s, 'd) cc_env \<Rightarrow> nat option \<Rightarrow> t_ivrnode \<Rightarrow> string \<Rightarrow> ivrsession \<Rightarrow> ('s, 'd) call_center \<Rightarrow> ('s, 'd) call_center" where
  "menu_action E handle node uuid session cc =
     (if recordfile node = IVR_AGNET_MSG
      then cc\<lparr>cc_dn := TransformAgent (ce_dn E) handle uuid session (cc_dn cc)\<rparr>
      else cc\<lparr>cc_dn := PlayBack handle (recordfile node) (m_uuid session) (cc_dn cc)\<rparr>)"

definition on_dtmf ::
  "('s, 'd) cc_env \<Rightarrow> nat option \<Rightarrow> esl_event \<Rightarrow> ('s, 'd) call_center \<Rightarrow> ('s, 'd) call_center c_result" where
  "on_dtmf E handle event cc =
     res_bind (header_of event ''Caller-Destination-Number'') (\<lambda>destination_number.
     let uuid = unique_id event; dtmf = header_or_empty event ''DTMF-Digit''
     in case map_find (cc_ivrmap cc) uuid of
          None \<Rightarrow> Inr cc
        | Some psession \<Rightarrow>
            res_bind (Getnodeinfo (m_companyid psession) (m_currentnodeid psession) dtmf (cc_ivr cc)) (\<lambda>(pnode, ivr).
            let cc1 = cc\<lparr>cc_ivr := ivr\<rparr>
            in case pnode of
                 None \<Rightarrow> Inr cc1
               | Some p \<Rightarrow>
                   res_bind (node_at ivr p) (\<lambda>node.
                   let psession1 = psession\<lparr>m_currentnodeid := node_id node\<rparr>
                   in Inr (menu_action E handle node uuid psession1
                             (cc1\<lparr>cc_ivrmap := map_put uuid psession1 (cc_ivrmap cc1)\<rparr>)))))"

section \<open>Outgoing calls\<close>

text \<open>
  A new call of an agent: its record, and the bridge to the gateway. The route is taken from the
  vector of the routes at the index of the company number; the argument of the bridge is printed into
  an array of 128 characters. \<open>N_callstate= 1\<close> assigns a character, the one of code 1.
\<close>

definition callout_record :: "('s, 'd) cc_env \<Rightarrow> esl_event \<Rightarrow> string \<Rightarrow> ('s, 'd) call_center \<Rightarrow> callout_info" where
  "callout_record E event destination_number cc =
     (let caller_id = caller_number event; uuid = unique_id event;
          skill = GetskillIDfromcaller caller_id (cc_dn cc);
          company = c_atoi (getGroupId caller_id (m_gRoute (cc_dn cc)))
      in (new_callinfo (ce_end_time E))\<lparr>N_skill_id := skill, N_call_type := (if skill = [] then ''1'' else ''2''),
            N_call_start_time := ce_time E, N_user_number := caller_id, N_customer_number := destination_number,
            N_call_id := header_or_empty event ''variable_sip_call_id'', N_callstate := [CHR 0x01],
            N_company_id := company, N_call_prefix := (if company = 3 then ''89'' else ''83''),
            N_extension_number := getGroupNumber caller_id (m_gRoute (cc_dn cc)),
            ci_record_file := uuid @ ce_file_time E @ ''.mp4'', N_record_file := uuid @ ce_file_time E @ ''.mp4''\<rparr>)"

definition on_originate ::
  "('s, 'd) cc_env \<Rightarrow> nat option \<Rightarrow> esl_event \<Rightarrow> ('s, 'd) call_center \<Rightarrow> ('s, 'd) call_center c_result" where
  "on_originate E handle event cc =
     res_bind (header_of event ''Caller-Destination-Number'') (\<lambda>destination_number.
     let uuid = unique_id event; routes = m_gRoute (cc_dn cc)
     in if map_find (m_DNmap (cc_dn cc)) (caller_number event) = None then Inr cc
        else let callinfo = callout_record E event destination_number cc;
                 cc1 = cc\<lparr>cc_callInfoMap := map_put uuid callinfo (cc_callInfoMap cc)\<rparr>;
                 c = N_company_id callinfo
             in if c < 0 \<or> int (length routes) \<le> c then Inl OutOfBounds
                else let r = routes ! nat c;
                         charcmd = ''sofia/gateway/'' @ rt_gataname r @ ''/'' @ rt_prefix r @ destination_number
                     in if length charcmd < 128
                        then Inr (cc1\<lparr>cc_dn := call_fs (Execute handle ''bridge'' charcmd uuid) (cc_dn cc1)\<rparr>)
                        else Inl OutOfBounds)"

text \<open>\<open>iter->second.f = ...\<close> on the record of a call, when there is one.\<close>

definition on_record :: "string \<Rightarrow> (callout_info \<Rightarrow> callout_info) \<Rightarrow> ('s, 'd) call_center \<Rightarrow> ('s, 'd) call_center" where
  "on_record uuid f cc =
     (case map_find (cc_callInfoMap cc) uuid of
        None \<Rightarrow> cc
      | Some info \<Rightarrow> cc\<lparr>cc_callInfoMap := map_put uuid (f info) (cc_callInfoMap cc)\<rparr>)"

definition end_call :: "('s, 'd) cc_env \<Rightarrow> callout_info \<Rightarrow> callout_info" where
  "end_call E info = info\<lparr>ci_callout_end_time := e_now (ce_dn E), N_call_end_time := ce_time E\<rparr>"

definition on_hangup :: "('s, 'd) cc_env \<Rightarrow> esl_event \<Rightarrow> ('s, 'd) call_center \<Rightarrow> ('s, 'd) call_center" where
  "on_hangup E event cc = on_record (unique_id event) (end_call E) cc"

definition on_hangup_complete :: "esl_event \<Rightarrow> ('s, 'd) call_center \<Rightarrow> ('s, 'd) call_center" where
  "on_hangup_complete event cc =
     on_record (unique_id event) (\<lambda>info. info\<lparr>N_call_duration := c_atoi (header_or_empty event ''variable_billsec'')\<rparr>) cc"

text \<open>
  The end of a channel: the record goes to the database, and the agent that was called is ready again.
  \<open>SetagnetStatus\<close> signals, and the code signals once more.
\<close>

definition agent_free :: "('s, 'd) cc_env \<Rightarrow> esl_event \<Rightarrow> ('s, 'd) dn_manager \<Rightarrow> ('s, 'd) dn_manager" where
  "agent_free E event mgr =
     (let dn = called_number event
      in if map_find (m_DNmap mgr) dn = None then mgr
         else let mgr1 = Setcalloutsemafree (ce_dn E) (SetDNsemaSignal (ce_dn E) (SetagnetStatus (ce_dn E) dn DN_Waiting_ready mgr));
                  u = user_at (ce_dn E) dn mgr1
              in put_user dn (u\<lparr>m_callminiutes := m_callminiutes u + c_atoi (header_or_empty event ''variable_duration''),
                                m_calltimes := m_calltimes u + 1\<rparr>) mgr1)"

definition on_destroy :: "('s, 'd) cc_env \<Rightarrow> esl_event \<Rightarrow> ('s, 'd) call_center \<Rightarrow> ('s, 'd) call_center" where
  "on_destroy E event cc =
     (let cc1 = (case map_find (cc_callInfoMap cc) (unique_id event) of
                   None \<Rightarrow> cc
                 | Some info \<Rightarrow> cc\<lparr>cc_callInfoMap := map_erase (unique_id event) (cc_callInfoMap cc),
                     cc_inserted := cc_inserted cc @ [(end_call E info)\<lparr>N_create_at := ce_time E\<rparr>]\<rparr>)
      in cc1\<lparr>cc_dn := agent_free E event (cc_dn cc1)\<rparr>)"

text \<open>
  An answered call. A call of a task enters the menu of its company at node 1; the number of the node
  is then written to the session of the caller's number, which \<open>m_ivrmap[caller_id]\<close> makes when there
  is none.
\<close>

definition task_answered ::
  "('s, 'd) cc_env \<Rightarrow> nat option \<Rightarrow> esl_event \<Rightarrow> ('s, 'd) call_center \<Rightarrow> ('s, 'd) call_center c_result" where
  "task_answered E handle event cc =
     (let uuid = unique_id event; caller_id = caller_number event;
          fresh = new_session (ce_session E) (e_now (ce_dn E));
          session = fresh\<lparr>m_uuid := uuid, m_companyid := c_atoi (header_or_empty event ''Variable_company_id''),
                          m_currentnodeid := 1\<rparr>;
          cc1 = cc\<lparr>cc_ivrmap := map_put uuid session (cc_ivrmap cc)\<rparr>
      in res_bind (Getnodeinfo (m_companyid session) 1 IVR_ANS_DFTM (cc_ivr cc1)) (\<lambda>(pnode, ivr).
         let cc2 = cc1\<lparr>cc_ivr := ivr\<rparr>
         in case pnode of
              None \<Rightarrow> Inr cc2
            | Some p \<Rightarrow>
                res_bind (node_at ivr p) (\<lambda>node.
                Inr (menu_action E handle node uuid session
                  (cc2\<lparr>cc_ivrmap := map_modify caller_id fresh (\<lambda>s. s\<lparr>m_currentnodeid := node_id node\<rparr>) (cc_ivrmap cc2)\<rparr>)))))"

definition on_answer ::
  "('s, 'd) cc_env \<Rightarrow> nat option \<Rightarrow> esl_event \<Rightarrow> ('s, 'd) call_center \<Rightarrow> ('s, 'd) call_center c_result" where
  "on_answer E handle event cc =
     res_bind (if header_or_empty event ''Variable_taskID'' \<noteq> [] then task_answered E handle event cc else Inr cc) (\<lambda>cc1.
     let cc2 = on_record (unique_id event) (\<lambda>info. info\<lparr>N_callstate := ''1''\<rparr>) cc1
     in Inr (if map_find (m_DNmap (cc_dn cc2)) (called_number event) = None then cc2
             else cc2\<lparr>cc_dn := SetagnetStatus (ce_dn E) (called_number event) DN_Talking (cc_dn cc2)\<rparr>))"

text \<open>\<open>process_event\<close>; the events that are only logged change nothing.\<close>

definition process_event ::
  "('s, 'd) cc_env \<Rightarrow> nat option \<Rightarrow> esl_event \<Rightarrow> ('s, 'd) call_center \<Rightarrow> ('s, 'd) call_center c_result" where
  "process_event E handle event cc =
     (if ev_id event = ESL_EVENT_DTMF then on_dtmf E handle event cc
      else if ev_id event = ESL_EVENT_CHANNEL_ORIGINATE then on_originate E handle event cc
      else if ev_id event = ESL_EVENT_CHANNEL_HANGUP then Inr (on_hangup E event cc)
      else if ev_id event = ESL_EVENT_CHANNEL_HANGUP_COMPLETE then Inr (on_hangup_complete event cc)
      else if ev_id event = ESL_EVENT_CHANNEL_DESTROY then Inr (on_destroy E event cc)
      else if ev_id event = ESL_EVENT_CHANNEL_ANSWER then on_answer E handle event cc
      else if ev_id event = ESL_EVENT_PLAYBACK_STOP then res_bind (header_of event ''Caller-Destination-Number'') (\<lambda>d. Inr cc)
      else Inr cc)"

section \<open>Incoming calls\<close>

text \<open>
  \<open>nwaycc_callback\<close>, once the connection \<open>h\<close> of the call is attached, with the event \<open>info\<close> that
  describes it: the call of a known number is answered and enters the menu of its company at node 1.
  The handle is disconnected and deleted on every path but the one to the agents; a session in
  \<open>m_ivrmap\<close> keeps it. When attaching fails the handle is given back at once.
\<close>

definition nwaycc_callback ::
  "('s, 'd) cc_env \<Rightarrow> bool \<Rightarrow> nat \<Rightarrow> esl_event \<Rightarrow> ('s, 'd) call_center \<Rightarrow> ('s, 'd) call_center c_result" where
  "nwaycc_callback E attached h info cc =
     (let release = (\<lambda>c. c\<lparr>cc_dn := call_fs (Disconnect h) (cc_dn c)\<rparr>);
          companyid = GetCompanyIdFromgate (called_number info) (cc_dn cc)
      in if \<not> attached then Inr (release cc)
         else if companyid = [] then Inr (release cc)
         else let cc1 = cc\<lparr>cc_dn := call_fs (Execute (Some h) ''park'' [] []) (call_fs (Execute (Some h) ''answer'' [] []) (cc_dn cc))\<rparr>
              in res_bind (header_of info ''caller-unique-id'') (\<lambda>callid.
                 let session = (new_session (ce_session E) (e_now (ce_dn E)))\<lparr>m_uuid := callid,
                                 m_companyid := c_atoi companyid, m_currentnodeid := 1, m_newhandle := Some h\<rparr>;
                     cc2 = cc1\<lparr>cc_ivrmap := map_put callid session (cc_ivrmap cc1)\<rparr>
                 in res_bind (Getnodeinfo (m_companyid session) 1 IVR_ANS_DFTM (cc_ivr cc2)) (\<lambda>(pnode, ivr).
                    let cc3 = cc2\<lparr>cc_ivr := ivr\<rparr>
                    in case pnode of
                         None \<Rightarrow> Inr (release cc3)
                       | Some p \<Rightarrow>
                           res_bind (node_at ivr p) (\<lambda>node.
                           let cc4 = cc3\<lparr>cc_ivrmap := map_put callid (session\<lparr>m_currentnodeid := node_id node\<rparr>) (cc_ivrmap cc3)\<rparr>
                           in Inr (if recordfile node = IVR_AGNET_MSG
                                   then cc4\<lparr>cc_dn := TransformAgent (ce_dn E) (Some h) callid session (cc_dn cc4)\<rparr>
                                   else release (cc4\<lparr>cc_dn := PlayBack (Some h) (recordfile node) callid (cc_dn cc4)\<rparr>))))))"

section \<open>The record of a call\<close>

text \<open>What an event of a call does to its record.\<close>

definition record_step :: "('s, 'd) cc_env \<Rightarrow> esl_event \<Rightarrow> callout_info \<Rightarrow> callout_info" where
  "record_step E event info =
     (if ev_id event = ESL_EVENT_CHANNEL_HANGUP then end_call E info
      else if ev_id event = ESL_EVENT_CHANNEL_HANGUP_COMPLETE
      then info\<lparr>N_call_duration := c_atoi (header_or_empty event ''variable_billsec'')\<rparr>
      else if ev_id event = ESL_EVENT_CHANNEL_ANSWER then info\<lparr>N_callstate := ''1''\<rparr> else info)"

fun call_step :: "string \<Rightarrow> ('s, 'd) cc_env \<times> esl_event \<Rightarrow> callout_info \<Rightarrow> callout_info" where
  "call_step u (E, e) info = (if unique_id e = u then record_step E e info else info)"

lemma call_step_map:
  "map_option (call_step u (E, e)) x = (if unique_id e = u then map_option (record_step E e) x else x)"
  by (cases x) auto

lemma record_step_cases:
  "ev_id e = ESL_EVENT_CHANNEL_HANGUP \<Longrightarrow> record_step E e = end_call E"
  "ev_id e = ESL_EVENT_CHANNEL_HANGUP_COMPLETE \<Longrightarrow>
     record_step E e = (\<lambda>info. info\<lparr>N_call_duration := c_atoi (header_or_empty e ''variable_billsec'')\<rparr>)"
  "ev_id e = ESL_EVENT_CHANNEL_ANSWER \<Longrightarrow> record_step E e = (\<lambda>info. info\<lparr>N_callstate := ''1''\<rparr>)"
  by (auto simp: record_step_def fun_eq_iff call_event_ids)

lemma on_record_find:
  "map_find (cc_callInfoMap (on_record uuid f cc)) u =
     (if u = uuid then map_option f (map_find (cc_callInfoMap cc) u) else map_find (cc_callInfoMap cc) u)"
  by (simp add: on_record_def map_find_put split: option.split)

lemma on_record_keeps [simp]:
  "cc_inserted (on_record uuid f cc) = cc_inserted cc" "cc_dn (on_record uuid f cc) = cc_dn cc"
  by (simp_all add: on_record_def split: option.split)

lemma on_record_ok: "map_ok (cc_callInfoMap cc) \<Longrightarrow> map_ok (cc_callInfoMap (on_record uuid f cc))"
  by (simp add: on_record_def map_ok_put split: option.split)

lemma menu_action_keeps [simp]:
  "cc_callInfoMap (menu_action E handle node uuid s cc) = cc_callInfoMap cc"
  "cc_inserted (menu_action E handle node uuid s cc) = cc_inserted cc"
  by (simp_all add: menu_action_def)

lemma on_dtmf_keeps:
  "on_dtmf E handle event cc = Inr cc' \<Longrightarrow> cc_callInfoMap cc' = cc_callInfoMap cc \<and> cc_inserted cc' = cc_inserted cc"
  by (auto simp: on_dtmf_def res_bind_Inr_iff Let_def split: option.splits prod.splits)

lemma task_answered_keeps:
  "task_answered E handle event cc = Inr cc' \<Longrightarrow> cc_callInfoMap cc' = cc_callInfoMap cc \<and> cc_inserted cc' = cc_inserted cc"
  by (auto simp: task_answered_def res_bind_Inr_iff Let_def split: option.splits prod.splits)

lemma on_answer_record:
  assumes "on_answer E handle event cc = Inr cc'"
  shows "map_find (cc_callInfoMap cc') u = (if u = unique_id event
      then map_option (\<lambda>info. info\<lparr>N_callstate := ''1''\<rparr>) (map_find (cc_callInfoMap cc) u) else map_find (cc_callInfoMap cc) u)"
    and "cc_inserted cc' = cc_inserted cc" "map_ok (cc_callInfoMap cc) \<Longrightarrow> map_ok (cc_callInfoMap cc')"
proof -
  obtain cc1 where c: "(if header_or_empty event ''Variable_taskID'' \<noteq> [] then task_answered E handle event cc else Inr cc) = Inr cc1"
      "cc' = (let cc2 = on_record (unique_id event) (\<lambda>info. info\<lparr>N_callstate := ''1''\<rparr>) cc1
        in if map_find (m_DNmap (cc_dn cc2)) (called_number event) = None then cc2
           else cc2\<lparr>cc_dn := SetagnetStatus (ce_dn E) (called_number event) DN_Talking (cc_dn cc2)\<rparr>)"
    using assms unfolding on_answer_def res_bind_Inr_iff Let_def sum.inject by metis
  have 1: "cc_callInfoMap cc1 = cc_callInfoMap cc" "cc_inserted cc1 = cc_inserted cc"
    using c(1) by (auto split: if_splits dest: task_answered_keeps)
  have 2: "cc_callInfoMap cc' = cc_callInfoMap (on_record (unique_id event) (\<lambda>info. info\<lparr>N_callstate := ''1''\<rparr>) cc1)"
      "cc_inserted cc' = cc_inserted cc1"
    unfolding c(2) by (simp_all add: Let_def)
  show "map_find (cc_callInfoMap cc') u = (if u = unique_id event
      then map_option (\<lambda>info. info\<lparr>N_callstate := ''1''\<rparr>) (map_find (cc_callInfoMap cc) u) else map_find (cc_callInfoMap cc) u)"
    using 1 2 by (simp add: on_record_find)
  show "cc_inserted cc' = cc_inserted cc" using 1 2 by simp
  show "map_ok (cc_callInfoMap cc')" if "map_ok (cc_callInfoMap cc)" using 1 2 that on_record_ok [of cc1] by simp
qed

lemma on_originate_other:
  "on_originate E handle event cc = Inr cc' \<Longrightarrow> cc_inserted cc' = cc_inserted cc \<and>
     (map_ok (cc_callInfoMap cc) \<longrightarrow> map_ok (cc_callInfoMap cc')) \<and>
     (u \<noteq> unique_id event \<longrightarrow> map_find (cc_callInfoMap cc') u = map_find (cc_callInfoMap cc) u)"
  by (auto simp: on_originate_def res_bind_Inr_iff Let_def map_find_put map_ok_put split: if_splits)

lemma on_destroy_other:
  "map_ok (cc_callInfoMap cc) \<Longrightarrow> map_ok (cc_callInfoMap (on_destroy E event cc)) \<and>
     (u \<noteq> unique_id event \<longrightarrow> map_find (cc_callInfoMap (on_destroy E event cc)) u = map_find (cc_callInfoMap cc) u)"
  by (auto simp: on_destroy_def Let_def map_find_erase map_ok_erase split: option.split)

lemma process_event_record:
  assumes "process_event E handle event cc = Inr cc'" "map_ok (cc_callInfoMap cc)"
    "unique_id event = u \<Longrightarrow> ev_id event \<noteq> ESL_EVENT_CHANNEL_ORIGINATE \<and> ev_id event \<noteq> ESL_EVENT_CHANNEL_DESTROY"
  shows "map_ok (cc_callInfoMap cc') \<and> map_find (cc_callInfoMap cc') u =
    (if unique_id event = u then map_option (record_step E event) (map_find (cc_callInfoMap cc) u) else map_find (cc_callInfoMap cc) u)"
proof -
  let ?same = "map_ok (cc_callInfoMap cc') \<and> map_find (cc_callInfoMap cc') u = map_find (cc_callInfoMap cc) u"
  have idle: "?thesis" if "cc_callInfoMap cc' = cc_callInfoMap cc"
      "\<forall>i \<in> {ESL_EVENT_CHANNEL_HANGUP, ESL_EVENT_CHANNEL_HANGUP_COMPLETE, ESL_EVENT_CHANNEL_ANSWER}. ev_id event \<noteq> i"
  proof -
    have "record_step E event = id" using that(2) by (auto simp: record_step_def fun_eq_iff)
    then show ?thesis using that(1) assms(2) by (simp add: option.map_id)
  qed
  consider (dtmf) "ev_id event = ESL_EVENT_DTMF" | (originate) "ev_id event = ESL_EVENT_CHANNEL_ORIGINATE"
    | (hangup) "ev_id event = ESL_EVENT_CHANNEL_HANGUP" | (complete) "ev_id event = ESL_EVENT_CHANNEL_HANGUP_COMPLETE"
    | (destroy) "ev_id event = ESL_EVENT_CHANNEL_DESTROY" | (answer) "ev_id event = ESL_EVENT_CHANNEL_ANSWER"
    | (other) "\<forall>i \<in> {ESL_EVENT_DTMF, ESL_EVENT_CHANNEL_ORIGINATE, ESL_EVENT_CHANNEL_HANGUP,
        ESL_EVENT_CHANNEL_HANGUP_COMPLETE, ESL_EVENT_CHANNEL_DESTROY, ESL_EVENT_CHANNEL_ANSWER}. ev_id event \<noteq> i" by blast
  then show ?thesis
  proof cases
    case dtmf
    then show ?thesis using assms(1) by (intro idle) (auto simp: process_event_def call_event_ids dest: on_dtmf_keeps)
  next
    case originate
    then show ?thesis using assms on_originate_other [of E handle event cc cc' u] by (auto simp: process_event_def call_event_ids)
  next
    case hangup
    then have "cc' = on_hangup E event cc" using assms(1) by (simp add: process_event_def call_event_ids)
    then show ?thesis using assms(2) hangup by (simp add: on_hangup_def on_record_find on_record_ok record_step_cases)
  next
    case complete
    then have "cc' = on_hangup_complete event cc" using assms(1) by (simp add: process_event_def call_event_ids)
    then show ?thesis using assms(2) complete by (simp add: on_hangup_complete_def on_record_find on_record_ok record_step_cases)
  next
    case destroy
    then show ?thesis using assms on_destroy_other [of cc E event u] by (auto simp: process_event_def call_event_ids)
  next
    case answer
    then have a: "on_answer E handle event cc = Inr cc'" using assms(1) by (simp add: process_event_def call_event_ids)
    show ?thesis using on_answer_record(1) [OF a, of u] on_answer_record(3) [OF a assms(2)] answer
      by (simp add: record_step_cases)
  next
    case other
    then show ?thesis using assms(1) by (intro idle) (auto simp: process_event_def res_bind_Inr_iff split: if_splits)
  qed
qed

fun process_events ::
  "nat option \<Rightarrow> (('s, 'd) cc_env \<times> esl_event) list \<Rightarrow> ('s, 'd) call_center \<Rightarrow> ('s, 'd) call_center c_result" where
  "process_events handle [] cc = Inr cc"
| "process_events handle ((E, event) # es) cc = res_bind (process_event E handle event cc) (process_events handle es)"

lemma process_events_record:
  assumes "process_events handle es cc = Inr cc'" "map_ok (cc_callInfoMap cc)"
    "\<forall>(E, e) \<in> set es. unique_id e = u \<longrightarrow> ev_id e \<noteq> ESL_EVENT_CHANNEL_ORIGINATE \<and> ev_id e \<noteq> ESL_EVENT_CHANNEL_DESTROY"
  shows "map_ok (cc_callInfoMap cc') \<and> map_find (cc_callInfoMap cc') u =
    map_option (fold (call_step u) es) (map_find (cc_callInfoMap cc) u)"
  using assms
proof (induction handle es cc rule: process_events.induct)
  case (2 handle E e es cc)
  then obtain cc1 where p: "process_event E handle e cc = Inr cc1" "process_events handle es cc1 = Inr cc'"
    by (auto simp: res_bind_Inr_iff)
  note r = process_event_record [OF p(1) "2.prems"(2), of u]
  have "map_ok (cc_callInfoMap cc1)" using r "2.prems"(3) by auto
  then show ?case using "2.IH" [OF p(2)] "2.prems"(3) r call_step_map [of u E e "map_find (cc_callInfoMap cc) u"]
    by (auto simp: option.map_comp o_def)
qed (simp add: option.map_id)


lemma call_step_fields:
  "N_user_number (call_step u (E, e) info) = N_user_number info"
  "N_customer_number (call_step u (E, e) info) = N_customer_number info"
  "N_company_id (call_step u (E, e) info) = N_company_id info"
  "N_call_duration (call_step u (E, e) info) =
     (if unique_id e = u \<and> ev_id e = ESL_EVENT_CHANNEL_HANGUP_COMPLETE
      then c_atoi (header_or_empty e ''variable_billsec'') else N_call_duration info)"
  "N_callstate (call_step u (E, e) info) =
     (if unique_id e = u \<and> ev_id e = ESL_EVENT_CHANNEL_ANSWER then ''1'' else N_callstate info)"
  by (simp_all add: record_step_def end_call_def call_event_ids)

lemma fold_record_fields:
  "N_user_number (fold (call_step u) es info) = N_user_number info"
  "N_customer_number (fold (call_step u) es info) = N_customer_number info"
  "N_company_id (fold (call_step u) es info) = N_company_id info"
  "N_call_duration (fold (call_step u) es info) =
     (case find (\<lambda>(E, e). unique_id e = u \<and> ev_id e = ESL_EVENT_CHANNEL_HANGUP_COMPLETE) (rev es) of
        None \<Rightarrow> N_call_duration info | Some (E, e) \<Rightarrow> c_atoi (header_or_empty e ''variable_billsec''))"
  "N_callstate (fold (call_step u) es info) =
     (if \<exists>(E, e) \<in> set es. unique_id e = u \<and> ev_id e = ESL_EVENT_CHANNEL_ANSWER then ''1'' else N_callstate info)"
proof (induction es rule: rev_induct)
  case (snoc p es)
  obtain E e where p: "p = (E, e)" by (cases p)
  {
    case 1
    show ?case using snoc(1) by (simp add: p call_step_fields del: call_step.simps)
  next
    case 2
    show ?case using snoc(2) by (simp add: p call_step_fields del: call_step.simps)
  next
    case 3
    show ?case using snoc(3) by (simp add: p call_step_fields del: call_step.simps)
  next
    case 4
    show ?case using snoc(4) by (simp add: p call_step_fields del: call_step.simps)
  next
    case 5
    show ?case using snoc(5) by (auto simp: p call_step_fields simp del: call_step.simps)
  }
qed simp_all


definition demo_event :: "nat \<Rightarrow> (string \<times> string) list \<Rightarrow> esl_event" where
  "demo_event i hs = empty_event\<lparr>ev_id := i,
     ev_headers := map (\<lambda>(n, v). \<lparr>hdr_name = n, hdr_value = Some v, hdr_array = [], hdr_hash = 0\<rparr>) hs\<rparr>"

lemma demo_event_id [simp]: "ev_id (demo_event i hs) = i"
  by (simp add: demo_event_def)

lemma demo_header:
  assumes "n \<noteq> ''_body''"
  shows "esl_event_get_header (demo_event i hs) n = map_option snd (find (\<lambda>(m, v). strcaseeq m n) hs)"
proof -
  let ?hs = "ev_headers (demo_event i hs)" and ?P = "hash_match (name_hash n) n"
  have "find ?P ?hs = map_option (\<lambda>(n, v). \<lparr>hdr_name = n, hdr_value = Some v, hdr_array = [], hdr_hash = 0\<rparr>) (find (\<lambda>(m, v). strcaseeq m n) hs)"
    unfolding demo_event_def by (induction hs) (auto simp: hash_match_def)
  then have "map_option ((!) ?hs) (find_header ?P 0 ?hs) = map_option (\<lambda>(n, v). \<lparr>hdr_name = n, hdr_value = Some v, hdr_array = [], hdr_hash = 0\<rparr>) (find (\<lambda>(m, v). strcaseeq m n) hs)"
    by (simp add: find_header_find)
  then show ?thesis
    using assms by (auto simp: esl_event_get_header_def esl_event_get_header_idx_def esl_event_get_header_ptr_def
        Let_def map_option_case split: option.splits prod.splits)
qed

lemma demo_header_names:
  "strcaseeq ''Caller-Unique-ID'' ''caller-unique-id''"
  "\<not> strcaseeq ''Caller-Unique-ID'' ''Caller-Caller-ID-Number''" "\<not> strcaseeq ''Caller-Unique-ID'' ''Caller-Destination-Number''"
  "\<not> strcaseeq ''Caller-Unique-ID'' ''variable_billsec''" "\<not> strcaseeq ''Caller-Unique-ID'' ''DTMF-Digit''"
  "\<not> strcaseeq ''Caller-Unique-ID'' ''variable_sip_call_id''" "\<not> strcaseeq ''Caller-Unique-ID'' ''variable_duration''"
  "\<not> strcaseeq ''Caller-Caller-ID-Number'' ''Caller-Destination-Number''" "\<not> strcaseeq ''Caller-Destination-Number'' ''DTMF-Digit''"
  "\<not> strcaseeq ''Caller-Caller-ID-Number'' ''variable_sip_call_id''" "\<not> strcaseeq ''Caller-Destination-Number'' ''variable_sip_call_id''"
  "\<not> strcaseeq ''variable_billsec'' ''Caller-Destination-Number''" "\<not> strcaseeq ''Caller-Destination-Number'' ''caller-unique-id''"
  by (simp_all add: strcaseeq_def c_tolower_def char_eval)

lemmas demo_headers = header_or_empty_def header_of_def demo_header demo_header_names

definition demo_cc_env :: "(nat, string list) cc_env" where
  "demo_cc_env = \<lparr>ce_dn = demo_env, ce_time = ''2019-05-07'', ce_file_time = ''now'', ce_session = caller [] 0, ce_end_time = 0\<rparr>"

definition demo_center :: "(nat, string list) call_center" where
  "demo_center = \<lparr>cc_dn = (demo_manager demo_agents)\<lparr>m_gRoute :=
       [\<lparr>rt_group = ''8800'', rt_agent = ''1001'', rt_group_id = ''0'', rt_gataname = ''gw'', rt_prefix = ''9''\<rparr>]\<rparr>,
     cc_ivr = menu_manager, cc_ivrmap = [], cc_callInfoMap = [], cc_inserted = []\<rparr>"

abbreviation "demo_originate \<equiv> demo_event ESL_EVENT_CHANNEL_ORIGINATE
  [(''Caller-Unique-ID'', ''u1''), (''Caller-Caller-ID-Number'', ''1001''), (''Caller-Destination-Number'', ''555'')]"
abbreviation "demo_complete \<equiv> demo_event ESL_EVENT_CHANNEL_HANGUP_COMPLETE [(''Caller-Unique-ID'', ''u1''), (''variable_billsec'', ''42'')]"
abbreviation "demo_destroy \<equiv> demo_event ESL_EVENT_CHANNEL_DESTROY [(''Caller-Unique-ID'', ''u1'')]"

lemma atoi_42: "c_atoi ''42'' = 42"
  by (simp add: c_atoi_def c_strtol10_def c_isspace_def c_isdigit_def digit_val_def byte_of_def Let_def)

lemma atoi_0: "c_atoi ''0'' = 0"
  by (simp add: c_atoi_def c_strtol10_def c_isspace_def c_isdigit_def digit_val_def byte_of_def Let_def)

lemma demo_call:
  "\<exists>cc1. process_event demo_cc_env (Some 7) demo_originate demo_center = Inr cc1"
  by (simp add: process_event_def call_event_ids on_originate_def demo_headers demo_center_def demo_manager_def
      map_find_Cons callout_record_def getGroupId_def route_column_def atoi_0 Let_def)


text \<open>The route of a call is looked for at the index of the company.\<close>

lemma originate_route_index:
  assumes "header_of event ''Caller-Destination-Number'' = Inr d" "map_find (m_DNmap (cc_dn cc)) (caller_number event) \<noteq> None"
    "int (length (m_gRoute (cc_dn cc))) \<le> c_atoi (getGroupId (caller_number event) (m_gRoute (cc_dn cc)))"
  shows "on_originate E handle event cc = Inl OutOfBounds"
  using assms by (auto simp: on_originate_def callout_record_def Let_def)

end
