(* ===== verification/CallCenter.thy ===== *)
theory CallCenter
  imports CallEvents
begin

text \<open>
  The call centre as a whole: the thread that reads the events, the callback of the incoming calls, the
  clients of the agents and the thread of the queue, whose steps follow each other in any order. The
  invariant of the reachable states, and a run in which a handle is released twice.
\<close>

section \<open>The steps\<close>

text \<open>
  \<open>acd_caller\<close> is the caller the thread of the queue has taken, with the rule it read, until an agent
  is found.
\<close>

record ('s, 'd) center_state =
  center :: "('s, 'd) call_center"
  acd_caller :: "(ivrsession \<times> int) option"

definition set_dn :: "('s, 'd) center_state \<Rightarrow> ('s, 'd) dn_manager \<Rightarrow> ('s, 'd) center_state" where
  "set_dn s mgr = s\<lparr>center := (center s)\<lparr>cc_dn := mgr\<rparr>\<rparr>"

text \<open>The environment of a step is any one whose semaphores are \<open>S\<close>.\<close>

inductive center_step :: "'s sema_ops \<Rightarrow> ('s, 'd) center_state \<Rightarrow> ('s, 'd) center_state \<Rightarrow> bool" for S where
  step_event: "e_sema (ce_dn E) = S \<Longrightarrow> process_event E handle event (center s) = Inr cc \<Longrightarrow> center_step S s (s\<lparr>center := cc\<rparr>)"
| step_incoming: "e_sema (ce_dn E) = S \<Longrightarrow> nwaycc_callback E attached h info (center s) = Inr cc \<Longrightarrow> center_step S s (s\<lparr>center := cc\<rparr>)"
| step_signin: "e_sema E = S \<Longrightarrow> Signin E agentId dn pwd st autoAnswer fcSignin skills department_id department_name user_name peerIP
      (cc_dn (center s)) = Inr (r, mgr) \<Longrightarrow> center_step S s (set_dn s mgr)"
| step_signout: "e_sema E = S \<Longrightarrow> Signout E agentId (cc_dn (center s)) = Inr (r, mgr) \<Longrightarrow> center_step S s (set_dn s mgr)"
| step_status: "e_sema E = S \<Longrightarrow> SetDNstatus E agentId st (cc_dn (center s)) = Inr (r, mgr) \<Longrightarrow> center_step S s (set_dn s mgr)"
| step_reset: "ResetDNinfo dn department_id department_name user_name (cc_dn (center s)) = (c, mgr) \<Longrightarrow> center_step S s (set_dn s mgr)"
| step_reload: "ivr_Reload stray parse nodetable (cc_ivr (center s)) = Inr ivr \<Longrightarrow>
      center_step S s (s\<lparr>center := (center s)\<lparr>cc_dn := reloaddb agents routes logins rules (cc_dn (center s)), cc_ivr := ivr\<rparr>\<rparr>)"
| step_take: "e_sema E = S \<Longrightarrow> acd_caller s = None \<Longrightarrow> acd_take E (cc_dn (center s)) = Inr (Some (session, r, mgr)) \<Longrightarrow>
      center_step S s (set_dn (s\<lparr>acd_caller := Some (session, r)\<rparr>) mgr)"
| step_serve: "e_sema E = S \<Longrightarrow> acd_caller s = Some (session, r) \<Longrightarrow> acd_serve E session r (cc_dn (center s)) = Inr (Some (dn, mgr)) \<Longrightarrow>
      center_step S s (set_dn (s\<lparr>acd_caller := None\<rparr>) mgr)"

inductive center_reachable :: "'s sema_ops \<Rightarrow> ('s, 'd) center_state \<Rightarrow> ('s, 'd) center_state \<Rightarrow> bool" for S s0 where
  center_start: "center_reachable S s0 s0"
| center_next: "center_reachable S s0 s \<Longrightarrow> center_step S s t \<Longrightarrow> center_reachable S s0 t"

inductive_cases center_stepE: "center_step S s t"

section \<open>The invariant\<close>

definition manager_ok :: "('s \<Rightarrow> nat) \<Rightarrow> ('s, 'd) dn_manager \<Rightarrow> bool" where
  "manager_ok pending mgr \<longleftrightarrow> dn_map_ok (m_DNmap mgr) \<and> acd_wf pending 0 (m_acdqueue mgr)"

definition sessions_ok :: "(string, ivrsession) std_map \<Rightarrow> bool" where
  "sessions_ok m \<longleftrightarrow> map_ok m \<and> (\<forall>u s. map_find m u = Some s \<longrightarrow> m_customtype s = 0)"

definition center_inv :: "('s \<Rightarrow> nat) \<Rightarrow> ('s, 'd) call_center \<Rightarrow> bool" where
  "center_inv pending cc \<longleftrightarrow> manager_ok pending (cc_dn cc) \<and> sessions_ok (cc_ivrmap cc)"

lemma new_session_level [simp]: "m_customtype (new_session raw now) = 0"
  by (simp add: new_session_def)

lemma sessions_put [wf_intros]: "sessions_ok m \<Longrightarrow> m_customtype s = 0 \<Longrightarrow> sessions_ok (map_put u s m)"
  by (auto simp: sessions_ok_def map_laws)

lemma sessions_modify [wf_intros]:
  "sessions_ok m \<Longrightarrow> sessions_ok (map_modify u (new_session raw now) (\<lambda>s. s\<lparr>m_currentnodeid := n\<rparr>) m)"
  unfolding map_modify_def by (rule sessions_put) (auto simp: sessions_ok_def split: option.split)

lemma manager_call_fs [simp]: "manager_ok pending (call_fs c mgr) = manager_ok pending mgr"
  by (simp add: manager_ok_def call_fs_def)

lemma manager_play [simp]: "manager_ok pending (PlayBack h f u mgr) = manager_ok pending mgr"
  by (simp add: PlayBack_def)

lemma manager_transform [wf_intros]:
  assumes "counting (e_sema E) pending" "manager_ok pending mgr" "m_customtype s = 0"
  shows "manager_ok pending (TransformAgent E h u s mgr)"
  using assms in_queue_wf [OF assms(1), of 0 "m_acdqueue mgr" "s\<lparr>m_handle := h, m_uuid := u\<rparr>"]
  by (simp add: manager_ok_def TransformAgent_def)

lemma status_queue [simp]:
  "m_acdqueue (SetagnetStatus E dn st mgr) = m_acdqueue mgr" "m_acdqueue (put_user dn u mgr) = m_acdqueue mgr"
  "m_acdqueue (SetDNsemaSignal E mgr) = m_acdqueue mgr" "m_acdqueue (Setcalloutsemafree E mgr) = m_acdqueue mgr"
  by (simp_all add: SetagnetStatus_def put_user_def SetDNsemaSignal_def Setcalloutsemafree_def Let_def)

lemma manager_status [wf_intros]:
  "manager_ok pending mgr \<Longrightarrow> map_find (m_DNmap mgr) dn \<noteq> None \<Longrightarrow> manager_ok pending (SetagnetStatus E dn st mgr)"
  using SetagnetStatus_inv [of mgr dn E st] by (simp add: manager_ok_def)

lemma manager_free [wf_intros]: "manager_ok pending mgr \<Longrightarrow> manager_ok pending (agent_free E event mgr)"
proof -
  assume ok: "manager_ok pending mgr"
  let ?dn = "called_number event" and ?m = "SetagnetStatus (ce_dn E) (called_number event) DN_Waiting_ready mgr"
  let ?m1 = "Setcalloutsemafree (ce_dn E) (SetDNsemaSignal (ce_dn E) ?m)"
  show "manager_ok pending (agent_free E event mgr)"
  proof (cases "map_find (m_DNmap mgr) ?dn = None")
    case True
    then show ?thesis using ok by (simp add: agent_free_def Let_def)
  next
    case False
    have m: "m_DNmap ?m1 = m_DNmap ?m" by (simp add: Setcalloutsemafree_def)
    have inv: "dn_inv ?m1" unfolding m using ok False by (intro SetagnetStatus_inv) (simp_all add: manager_ok_def)
    have "map_find (m_DNmap ?m1) ?dn \<noteq> None" unfolding m by (simp add: SetagnetStatus_map map_find_put)
    then have "m_DN (user_at (ce_dn E) ?dn ?m1) = ?dn" using inv by (intro user_at_number) auto
    then have "dn_inv (agent_free E event mgr)"
      using False inv by (auto simp: agent_free_def Let_def put_user_def dn_map_put)
    moreover have "m_acdqueue (agent_free E event mgr) = m_acdqueue mgr" using False by (simp add: agent_free_def Let_def)
    ultimately show ?thesis using ok by (simp add: manager_ok_def)
  qed
qed

lemma sql_keeps_queue:
  "InsertTable E u mgr = Inr (r, mgr') \<Longrightarrow> m_acdqueue mgr' = m_acdqueue mgr"
  "DeleteTable E u mgr = Inr (r, mgr') \<Longrightarrow> m_acdqueue mgr' = m_acdqueue mgr"
  "Changestate E u mgr = Inr (r, mgr') \<Longrightarrow> m_acdqueue mgr' = m_acdqueue mgr"
  by (drule sql_frames Changestate_frame, erule ssubst, simp)+

section \<open>Every step keeps it\<close>

lemma menu_action_inv [wf_intros]:
  "counting (e_sema (ce_dn E)) pending \<Longrightarrow> center_inv pending cc \<Longrightarrow> m_customtype s = 0 \<Longrightarrow>
   center_inv pending (menu_action E h node u s cc)"
  by (auto simp: menu_action_def center_inv_def intro: wf_intros)

lemma record_inv [simp]: "center_inv pending (on_record u f cc) = center_inv pending cc"
  by (simp add: on_record_def center_inv_def split: option.split)

lemma on_dtmf_inv:
  assumes "counting (e_sema (ce_dn E)) pending" "center_inv pending cc" "on_dtmf E h event cc = Inr cc'"
  shows "center_inv pending cc'"
proof (cases "map_find (cc_ivrmap cc) (unique_id event)")
  case None
  then show ?thesis using assms(2,3) by (auto simp: on_dtmf_def res_bind_Inr_iff Let_def)
next
  case (Some s)
  then have "m_customtype s = 0" using assms(2) by (auto simp: center_inv_def sessions_ok_def)
  then show ?thesis
    using assms Some by (auto simp: on_dtmf_def res_bind_Inr_iff Let_def split: option.splits prod.splits
        intro!: menu_action_inv) (auto simp: center_inv_def intro: wf_intros)
qed

lemma on_originate_inv: "center_inv pending cc \<Longrightarrow> on_originate E h event cc = Inr cc' \<Longrightarrow> center_inv pending cc'"
  by (auto simp: on_originate_def res_bind_Inr_iff Let_def center_inv_def split: if_splits)

lemma task_answered_inv:
  assumes "counting (e_sema (ce_dn E)) pending" "center_inv pending cc" "task_answered E h event cc = Inr cc'"
  shows "center_inv pending cc'"
  using assms by (auto simp: task_answered_def res_bind_Inr_iff Let_def split: option.splits prod.splits
      intro!: menu_action_inv) (auto simp: center_inv_def intro!: wf_intros)

lemma on_answer_inv:
  assumes "counting (e_sema (ce_dn E)) pending" "center_inv pending cc" "on_answer E h event cc = Inr cc'"
  shows "center_inv pending cc'"
proof -
  obtain cc1 where c: "(if header_or_empty event ''Variable_taskID'' \<noteq> [] then task_answered E h event cc else Inr cc) = Inr cc1"
      "cc' = (let cc2 = on_record (unique_id event) (\<lambda>info. info\<lparr>N_callstate := ''1''\<rparr>) cc1
        in if map_find (m_DNmap (cc_dn cc2)) (called_number event) = None then cc2
           else cc2\<lparr>cc_dn := SetagnetStatus (ce_dn E) (called_number event) DN_Talking (cc_dn cc2)\<rparr>)"
    using assms(3) unfolding on_answer_def res_bind_Inr_iff Let_def sum.inject by metis
  have ok: "center_inv pending cc1" using c(1) task_answered_inv [OF assms(1,2)] assms(2) by (auto split: if_splits)
  then have "center_inv pending (on_record (unique_id event) (\<lambda>info. info\<lparr>N_callstate := ''1''\<rparr>) cc1)" by simp
  moreover have "manager_ok pending (cc_dn cc1)" using ok by (simp add: center_inv_def)
  ultimately show ?thesis unfolding c(2) Let_def by (auto simp: center_inv_def intro: wf_intros)
qed

lemma on_destroy_inv: "center_inv pending cc \<Longrightarrow> center_inv pending (on_destroy E event cc)"
  by (auto simp: on_destroy_def Let_def center_inv_def intro: wf_intros split: option.split)

lemma process_event_inv:
  assumes "counting (e_sema (ce_dn E)) pending" "center_inv pending cc" "process_event E h event cc = Inr cc'"
  shows "center_inv pending cc'"
  using assms on_dtmf_inv [OF assms(1,2)] on_originate_inv [OF assms(2)] on_answer_inv [OF assms(1,2)] on_destroy_inv [OF assms(2)]
  by (auto simp: process_event_def on_hangup_def on_hangup_complete_def res_bind_Inr_iff split: if_splits)

lemma nwaycc_callback_inv:
  assumes "counting (e_sema (ce_dn E)) pending" "center_inv pending cc" "nwaycc_callback E attached h info cc = Inr cc'"
  shows "center_inv pending cc'"
  using assms
  by (auto simp: nwaycc_callback_def res_bind_Inr_iff Let_def center_inv_def split: if_splits option.splits prod.splits
      intro!: wf_intros)

lemma signin_queue:
  "Signin E agentId dn pwd st autoAnswer fcSignin skills department_id department_name user_name peerIP mgr = Inr (r, mgr') \<Longrightarrow>
   m_acdqueue mgr' = m_acdqueue mgr"
  by (auto simp: Signin_def Let_def res_bind_Inr_iff dest!: sql_keeps_queue split: if_splits option.splits)

lemma signout_queue: "Signout E i mgr = Inr (r, mgr') \<Longrightarrow> m_acdqueue mgr' = m_acdqueue mgr"
  by (auto simp: Signout_def Let_def res_bind_Inr_iff dest!: sql_keeps_queue split: if_splits)

lemma set_status_queue: "SetDNstatus E i st mgr = Inr (r, mgr') \<Longrightarrow> m_acdqueue mgr' = m_acdqueue mgr"
  by (auto simp: SetDNstatus_def Let_def res_bind_Inr_iff dest!: sql_keeps_queue split: if_splits)

lemma reset_queue: "ResetDNinfo dn i n m mgr = (c, mgr') \<Longrightarrow> m_acdqueue mgr' = m_acdqueue mgr"
  by (auto simp: ResetDNinfo_def split: option.splits)

lemma serve_queue: "acd_serve E s r mgr = Inr (Some (dn, mgr')) \<Longrightarrow> m_acdqueue mgr' = m_acdqueue mgr"
  by (auto simp: acd_serve_def inline_TransformAgent_def Let_def res_bind_Inr_iff call_fs_def
      dest!: sql_keeps_queue split: if_splits option.splits)

lemma take_manager_ok:
  assumes "counting (e_sema E) pending" "manager_ok pending mgr" "acd_take E mgr = Inr (Some (s, r, mgr'))"
  shows "manager_ok pending mgr'"
proof -
  obtain q where q: "pq_get (e_sema E) (m_acdqueue mgr) = Inr (Some (s, q))"
      "mgr' = choose_rule (m_companyid s) (mgr\<lparr>m_acdqueue := q\<rparr>)"
    using assms(3) by (auto simp: acd_take_def res_bind_Inr_iff Let_def split: option.splits)
  have "acd_wf pending 0 q" using pq_get_wf [OF assms(1), of 0 "m_acdqueue mgr"] assms(2) q(1) by (simp add: manager_ok_def)
  moreover have "m_acdqueue mgr' = q" unfolding q(2) by (simp add: choose_rule_def split: option.split)
  ultimately show ?thesis using assms(2) q(2) by (simp add: manager_ok_def)
qed

lemma center_step_inv:
  assumes "counting S pending"
  shows "center_step S s t \<Longrightarrow> center_inv pending (center s) \<Longrightarrow> center_inv pending (center t)"
proof (induction rule: center_step.induct)
  case (step_event E handle event s cc)
  then show ?case using process_event_inv [of E pending "center s"] assms by simp
next
  case (step_incoming E attached h info s cc)
  then show ?case using nwaycc_callback_inv [of E pending "center s"] assms by simp
next
  case step_signin
  then show ?case by (simp add: set_dn_def center_inv_def manager_ok_def) (metis Signin_inv signin_queue)
next
  case step_signout
  then show ?case by (simp add: set_dn_def center_inv_def manager_ok_def) (metis Signout_inv signout_queue)
next
  case step_status
  then show ?case by (simp add: set_dn_def center_inv_def manager_ok_def) (metis SetDNstatus_inv set_status_queue)
next
  case step_reset
  then show ?case by (simp add: set_dn_def center_inv_def manager_ok_def) (metis ResetDNinfo_inv reset_queue)
next
  case step_reload
  then show ?case by (simp add: center_inv_def manager_ok_def reloaddb_def)
next
  case (step_take E s session r mgr)
  then have "manager_ok pending mgr" using assms unfolding center_inv_def by (metis take_manager_ok)
  then show ?case using step_take.prems by (simp add: set_dn_def center_inv_def)
next
  case step_serve
  then show ?case by (simp add: set_dn_def center_inv_def manager_ok_def) (metis acd_serve_inv serve_queue)
qed

lemma center_reachable_inv:
  "center_reachable S s0 s \<Longrightarrow> counting S pending \<Longrightarrow> center_inv pending (center s0) \<Longrightarrow> center_inv pending (center s)"
  by (induction rule: center_reachable.induct) (auto intro: center_step_inv)


definition demo_state :: "(nat, string list) center_state" where
  "demo_state = \<lparr>center = demo_center, acd_caller = None\<rparr>"

lemma demo_state_inv: "center_inv id (center demo_state)"
  using demo_agents_ok
  by (simp add: demo_state_def demo_center_def demo_manager_def center_inv_def manager_ok_def sessions_ok_def
      acd_wf_def level_heap_def heap_ordered_def)


section \<open>A handle is released twice\<close>

definition releases :: "nat \<Rightarrow> ('s, 'd) dn_manager \<Rightarrow> nat" where
  "releases h mgr = length (filter (\<lambda>c. c = Disconnect h) (fs_calls mgr))"

lemma releases_call_fs [simp]: "releases h (call_fs c mgr) = releases h mgr + (if c = Disconnect h then 1 else 0)"
  by (simp add: releases_def call_fs_def)

lemma releases_play [simp]: "releases h (PlayBack g f u mgr) = releases h mgr"
  by (simp add: PlayBack_def)

text \<open>Every agent choice and transfer of a session with a handle releases the handle.\<close>

lemma sql_keeps_calls: "Changestate E u mgr = Inr (r, mgr') \<Longrightarrow> fs_calls mgr' = fs_calls mgr"
  by (drule Changestate_frame, erule ssubst, simp)

lemma serve_releases:
  assumes "acd_serve E s r mgr = Inr (Some (dn, mgr'))" "m_newhandle s = Some h"
  shows "releases h mgr' = releases h mgr + 1"
proof -
  have "fs_calls (SetagnetStatus E dn DN_Ringing mgr) = fs_calls mgr"
    by (simp add: SetagnetStatus_def put_user_def SetDNsemaSignal_def Let_def)
  then show ?thesis
    using assms by (auto simp: acd_serve_def inline_TransformAgent_def Let_def res_bind_Inr_iff releases_def call_fs_def
        dest!: sql_keeps_calls split: if_splits option.splits)
qed

lemma take_only_caller:
  assumes "counting (e_sema E) pending" "acd_wf pending 0 q" "m_queue q = []" "m_acdqueue mgr = in_queue (e_sema E) True s q"
  shows "\<exists>r mgr'. acd_take E mgr = Inr (Some (s, r, mgr')) \<and> fs_calls mgr' = fs_calls mgr"
proof -
  have "0 < pending (m_psem (m_acdqueue mgr))"
    using counting_signal [OF assms(1), of "m_psem q"] assms(4) by (simp add: in_queue_def pq_put_def)
  then have w: "\<exists>z. sem_wait (e_sema E) (m_psem (m_acdqueue mgr)) = Some z"
    using counting_wait [OF assms(1)] by blast
  have "m_queue (m_acdqueue mgr) = [s]"
    using assms(3,4) heap_push_mset [of session_less s "[]"] by (simp add: in_queue_def pq_put_def)
  then obtain q' where "pq_get (e_sema E) (m_acdqueue mgr) = Inr (Some (s, q'))"
    using w by (auto simp: pq_get_def heap_get_def)
  then show ?thesis by (simp add: acd_take_def Let_def choose_rule_def split: option.split)
qed

text \<open>
  C11. An incoming call that is played a menu and then presses a key that leads to the agents, while nobody
  else waits: its handle \<open>h\<close> is disconnected and deleted by the callback after the menu is played, stays
  in the session, and is disconnected and deleted a second time when an agent is found.
\<close>

theorem handle_released_twice:
  assumes "counting (e_sema (ce_dn E)) pending" "acd_wf pending 0 (m_acdqueue (cc_dn cc))" "m_queue (m_acdqueue (cc_dn cc)) = []"
    \<comment> \<open>the call of a company whose first node is played\<close>
    "GetCompanyIdFromgate (called_number info) (cc_dn cc) = company" "company \<noteq> []"
    "header_of info ''caller-unique-id'' = Inr callid"
    "Getnodeinfo (c_atoi company) 1 IVR_ANS_DFTM (cc_ivr cc) = Inr (Some p, cc_ivr cc)"
    "node_at (cc_ivr cc) p = Inr node" "recordfile node \<noteq> IVR_AGNET_MSG"
    \<comment> \<open>a key that leads to the agents\<close>
    "ev_id key = ESL_EVENT_DTMF" "unique_id key = callid" "header_of key ''Caller-Destination-Number'' = Inr d"
    "Getnodeinfo (c_atoi company) (node_id node) (header_or_empty key ''DTMF-Digit'') (cc_ivr cc) = Inr (Some q, cc_ivr cc)"
    "node_at (cc_ivr cc) q = Inr agents" "recordfile agents = IVR_AGNET_MSG"
  shows "\<exists>cc1 cc2. nwaycc_callback E True h info cc = Inr cc1 \<and> process_event E g key cc1 = Inr cc2 \<and>
    releases h (cc_dn cc1) = releases h (cc_dn cc) + 1 \<and>
    (\<exists>s r mgr. acd_take (ce_dn E) (cc_dn cc2) = Inr (Some (s, r, mgr)) \<and>
       (\<forall>dn mgr'. acd_serve (ce_dn E) s r mgr = Inr (Some (dn, mgr')) \<longrightarrow> releases h mgr' = releases h (cc_dn cc) + 2))"
proof -
  define session where "session = (new_session (ce_session E) (e_now (ce_dn E)))
    \<lparr>m_uuid := callid, m_companyid := c_atoi company, m_currentnodeid := node_id node, m_newhandle := Some h\<rparr>"
  obtain cc1 where 1: "nwaycc_callback E True h info cc = Inr cc1" "cc_ivr cc1 = cc_ivr cc"
      "map_find (cc_ivrmap cc1) callid = Some session"
      "m_acdqueue (cc_dn cc1) = m_acdqueue (cc_dn cc)" "releases h (cc_dn cc1) = releases h (cc_dn cc) + 1"
    using assms(4-9) by (simp add: nwaycc_callback_def Let_def map_find_put session_def new_session_def)
      (simp add: PlayBack_def call_fs_def)
  define session1 where "session1 = session\<lparr>m_currentnodeid := node_id agents\<rparr>"
  have s: "m_customtype session1 = 0" "m_newhandle session1 = Some h"
    by (simp_all add: session1_def session_def new_session_def)
  have f: "m_companyid session = c_atoi company" "m_currentnodeid session = node_id node" by (simp_all add: session_def)
  obtain cc2 where 2: "process_event E g key cc1 = Inr cc2" "cc_dn cc2 = TransformAgent (ce_dn E) g callid session1 (cc_dn cc1)"
    using assms(10-15) 1(2,3) f
    by (simp add: process_event_def on_dtmf_def menu_action_def session1_def Let_def)
  have q: "m_acdqueue (cc_dn cc2) = in_queue (e_sema (ce_dn E)) True (session1\<lparr>m_handle := g, m_uuid := callid\<rparr>) (m_acdqueue (cc_dn cc))"
    "fs_calls (cc_dn cc2) = fs_calls (cc_dn cc1)"
    using 1(4) by (simp_all add: 2(2) TransformAgent_def)
  obtain r mgr where t: "acd_take (ce_dn E) (cc_dn cc2) = Inr (Some (session1\<lparr>m_handle := g, m_uuid := callid\<rparr>, r, mgr))"
      "fs_calls mgr = fs_calls (cc_dn cc2)"
    using take_only_caller [OF assms(1-3) q(1)] by blast
  have "releases h mgr' = releases h (cc_dn cc) + 2"
    if "acd_serve (ce_dn E) (session1\<lparr>m_handle := g, m_uuid := callid\<rparr>) r mgr = Inr (Some (dn, mgr'))" for dn mgr'
    using serve_releases [OF that, of h] s(2) 1(5) q(2) t(2) by (simp add: releases_def)
  then show ?thesis using 1(1,5) 2(1) t(1) by blast
qed

definition demo_line :: "(nat, string list) call_center" where
  "demo_line = demo_center\<lparr>cc_dn := demo_manager demo_agents\<rparr>"

abbreviation "demo_info \<equiv> demo_event ESL_EVENT_CHANNEL_ANSWER
  [(''Caller-Unique-ID'', ''u1''), (''Caller-Destination-Number'', ''8800'')]"
abbreviation "demo_key \<equiv> demo_event ESL_EVENT_DTMF
  [(''Caller-Unique-ID'', ''u1''), (''Caller-Destination-Number'', ''8800''), (''DTMF-Digit'', ''0'')]"

lemma atoi_3: "c_atoi ''3'' = 3"
  by (simp add: c_atoi_def c_strtol10_def c_isspace_def c_isdigit_def digit_val_def byte_of_def Let_def)

lemma demo_keys: "flow_key 3 1 = Inr ''3_1''"
  by (simp add: flow_key_def dec_int_def dec_digits.simps char_eval bit_Suc)

lemma demo_menu:
  "Getnodeinfo 3 1 IVR_ANS_DFTM menu_manager = Inr (Some (3, 1), menu_manager)"
  "Getnodeinfo 3 1 ''0'' menu_manager = Inr (Some (3, 9999), menu_manager)"
  by (simp_all add: Getnodeinfo_def demo_keys map_find_Cons IVR_ANS_DFTM_def Let_def)

lemma demo_nodes:
  "node_at menu_manager (3, 1) = Inr (menu_row 1 ''menu'' ''hello.wav'')"
  "node_at menu_manager (3, 9999) = Inr (agent_node 3)"
  by (simp_all add: node_at_def map_find_Cons)

lemma demo_node_fields:
  "recordfile (menu_row k w f) = f" "node_id (menu_row k w f) = k" "recordfile (agent_node c) = IVR_AGNET_MSG"
  by (simp_all add: menu_row_def agent_node_def)

lemma demo_line_fields:
  "cc_ivr demo_line = menu_manager" "cc_dn demo_line = demo_manager demo_agents"
  "m_acdqueue (demo_manager m) = \<lparr>m_psem = 0, m_queue = []\<rparr>" "fs_calls (demo_manager m) = []"
  "GetCompanyIdFromgate ''8800'' (demo_manager m) = ''3''"
  by (simp_all add: demo_line_def demo_center_def demo_manager_def GetCompanyIdFromgate_def route_column_def)

theorem handle_released_twice_witness:
  "\<exists>cc1 cc2. nwaycc_callback demo_cc_env True 9 demo_info demo_line = Inr cc1 \<and> process_event demo_cc_env (Some 7) demo_key cc1 = Inr cc2 \<and>
    releases 9 (cc_dn cc1) = 1 \<and>
    (\<exists>s r mgr. acd_take demo_env (cc_dn cc2) = Inr (Some (s, r, mgr)) \<and>
       (\<forall>dn mgr'. acd_serve demo_env s r mgr = Inr (Some (dn, mgr')) \<longrightarrow> releases 9 mgr' = 2))"
proof -
  have e: "ce_dn demo_cc_env = demo_env" "e_sema demo_env = nat_sema" by (simp_all add: demo_cc_env_def demo_env_def)
  have r: "releases 9 (cc_dn demo_line) = 0" by (simp add: releases_def demo_line_fields)
  have "\<exists>cc1 cc2. nwaycc_callback demo_cc_env True 9 demo_info demo_line = Inr cc1 \<and> process_event demo_cc_env (Some 7) demo_key cc1 = Inr cc2 \<and>
      releases 9 (cc_dn cc1) = releases 9 (cc_dn demo_line) + 1 \<and>
      (\<exists>s r mgr. acd_take (ce_dn demo_cc_env) (cc_dn cc2) = Inr (Some (s, r, mgr)) \<and>
         (\<forall>dn mgr'. acd_serve (ce_dn demo_cc_env) s r mgr = Inr (Some (dn, mgr')) \<longrightarrow> releases 9 mgr' = releases 9 (cc_dn demo_line) + 2))"
    by (rule handle_released_twice [of demo_cc_env id demo_line demo_info "''3''" "''u1''" "(3, 1)" "menu_row 1 ''menu'' ''hello.wav''"
          demo_key "''8800''" "(3, 9999)" "agent_node 3"])
       (simp_all add: e counting_nat_sema demo_line_fields acd_wf_def level_heap_def heap_ordered_def demo_headers atoi_3
          demo_menu demo_nodes demo_node_fields, simp_all add: IVR_AGNET_MSG_def)
  then show ?thesis by (simp add: e r numeral_2_eq_2)
qed

text \<open>In such a state an agent is found.\<close>

lemma demo_serve:
  "m_DNmap mgr = demo_agents \<Longrightarrow> m_companyid s = 3 \<Longrightarrow> \<exists>mgr'. acd_serve demo_env s DNRULE_select mgr = Inr (Some (''1002'', mgr'))"
  by (simp add: acd_serve_def agent_by_rule_def dn_rules inline_TransformAgent_def Changestate_def DeleteTable_def
      InsertTable_def run_sql_def demo_env_def user_serialize_def SetagnetStatus_def put_user_def user_at_def
      SetDNsemaSignal_def map_find_Cons dn_codes Let_def)

end
