(* ===== verification/ServerThreads.thy ===== *)
theory ServerThreads
  imports CallCenter EslHandle
begin

text \<open>
  The threads of the server (\<^verbatim>\<open>DNManager.cpp\<close>): the one that reads the events of FreeSWITCH and handles them
  (\<open>Inbound_Init\<close>), the heartbeat and the one of the outgoing calls. Here the event socket of \<open>EslHandle\<close> meets the
  call centre of \<open>CallEvents\<close>: what arrives on the socket is received, handled, and what the handling sends goes
  out on the same handle, whose replies are waited for. A thread that waits for its peer is \<open>None\<close>.
\<close>

section \<open>The loop over the events\<close>

text \<open>The commands that are sent over the handle with the number \<open>hid\<close>; \<open>break\<close> has no argument.\<close>

definition issued :: "nat \<Rightarrow> ('s, 'd) call_center \<Rightarrow> ('s, 'd) call_center \<Rightarrow> fs_call list" where
  "issued hid cc cc' =
     filter (\<lambda>c. case c of Execute handle _ _ _ \<Rightarrow> handle = Some hid | Disconnect d \<Rightarrow> d = hid)
       (drop (length (fs_calls (cc_dn cc))) (fs_calls (cc_dn cc')))"

fun send_calls :: "allocator \<Rightarrow> 'f double_ops \<Rightarrow> fs_call list \<Rightarrow> esl_handle \<Rightarrow> net \<Rightarrow> (esl_handle \<times> net) io" where
  "send_calls A F [] h net = io_return (h, net)"
| "send_calls A F (Execute _ app arg uuid # cs) h net =
     io_bind (esl_execute A F h (Some app) (if app = ''break'' then None else Some arg) (Some uuid) net) (\<lambda>(st, h1, net1).
       send_calls A F cs h1 net1)"
| "send_calls A F (Disconnect _ # cs) h net =
     (case esl_disconnect h net of (st, h1, net1) \<Rightarrow> send_calls A F cs h1 net1)"

text \<open>
  The loop of \<open>Inbound_Init\<close>. An event that a command found while it waited is taken from the queue first. \<open>env k\<close>
  is the environment (clock, memory) in which the event number \<open>k\<close> is handled.
\<close>

partial_function (option) inbound_loop ::
  "allocator \<Rightarrow> 'f double_ops \<Rightarrow> (nat \<Rightarrow> ('s, 'd) cc_env) \<Rightarrow> nat \<Rightarrow> nat \<Rightarrow> esl_handle \<Rightarrow> ('s, 'd) call_center \<Rightarrow> net \<Rightarrow>
   (esl_handle \<times> ('s, 'd) call_center \<times> net) io" where
  "inbound_loop A F env hid k h cc net =
     io_bind (esl_recv_event A F h True False net) (\<lambda>(st, ev, h1, net1).
       if st \<noteq> ESL_SUCCESS then io_return (h1, cc, net1)
       else case h_last_ievent h1 of
              None \<Rightarrow> inbound_loop A F env hid k h1 cc net1
            | Some e \<Rightarrow>
                io_bind (Some (process_event (env k) (Some hid) e cc)) (\<lambda>cc1.
                io_bind (send_calls A F (issued hid cc cc1) h1 net1) (\<lambda>(h2, net2).
                inbound_loop A F env hid (Suc k) h2 cc1 net2)))"

section \<open>The threads\<close>

text \<open>A thread that cannot connect ends the whole program.\<close>

datatype 'a thread_end = ExitOne | ThreadEnds 'a

definition inbound_event_list :: string where
  "inbound_event_list = ''DETECTED_SPEECH RECORD_START RECORD_STOP PLAYBACK_START PLAYBACK_STOP CHANNEL_OUTGOING CHANNEL_PARK CHANNEL_EXECUTE_COMPLETE CHANNEL_ORIGINATE TALK NOTALK PHONE_FEATURE CHANNEL_HANGUP_COMPLETE CHANNEL_CREATE CHANNEL_BRIDGE DTMF CHANNEL_DESTROY CHANNEL_HANGUP CHANNEL_BRIDGE CHANNEL_ANSWER CUSTOM sofia::register sofia::unregister asr''"

definition Inbound_Init ::
  "allocator \<Rightarrow> 'f double_ops \<Rightarrow> bool \<Rightarrow> connect_env \<Rightarrow> (nat \<Rightarrow> ('s, 'd) cc_env) \<Rightarrow> nat \<Rightarrow> string \<Rightarrow>
   ('s, 'd) call_center \<Rightarrow> net \<Rightarrow> (esl_handle \<times> ('s, 'd) call_center \<times> net) thread_end io" where
  "Inbound_Init A F mutex_ok C env hid m_fspwd cc net =
     io_bind (esl_connect_timeout A F mutex_ok C zero_handle None m_fspwd 0 net) (\<lambda>(status, h, net1).
       if status \<noteq> ESL_SUCCESS then io_return ExitOne
       else io_bind (esl_events A F h ESL_EVENT_TYPE_PLAIN inbound_event_list net1) (\<lambda>(st, h1, net2).
            io_bind (inbound_loop A F env hid 0 (h1\<lparr>h_event_lock := True\<rparr>) cc net2) (\<lambda>(h2, cc2, net3).
            case esl_disconnect h2 net3 of (st', h3, net4) \<Rightarrow> io_return (ThreadEnds (h3, cc2, net4)))))"

text \<open>
  One turn of the heartbeat. Without an answer the branch that reports it reads the answer all the same; \<open>Some None\<close>
  is a null pointer that is printed.
\<close>

definition heartbeat_turn ::
  "allocator \<Rightarrow> 'f double_ops \<Rightarrow> esl_handle \<Rightarrow> net \<Rightarrow> (string option \<times> esl_handle \<times> net) io" where
  "heartbeat_turn A F h net =
     io_bind (esl_send_recv A F h (''api create_uuid'' @ [LF, LF]) net) (\<lambda>(st, h1, net1).
       case h_last_sr_event h1 of
         None \<Rightarrow> Some (Inl NullPointer)
       | Some e \<Rightarrow> io_return (ev_body e, h1, net1))"

text \<open>The first \<open>n\<close> turns of \<open>Heatbeat_Process\<close>, with what each one prints.\<close>

fun heartbeat_turns ::
  "allocator \<Rightarrow> 'f double_ops \<Rightarrow> nat \<Rightarrow> esl_handle \<Rightarrow> net \<Rightarrow> (string option list \<times> esl_handle \<times> net) io" where
  "heartbeat_turns A F 0 h net = io_return ([], h, net)"
| "heartbeat_turns A F (Suc n) h net =
     io_bind (heartbeat_turn A F h net) (\<lambda>(x, h1, net1).
     io_bind (heartbeat_turns A F n h1 net1) (\<lambda>(xs, h2, net2). io_return (x # xs, h2, net2)))"

definition Heatbeat_Process ::
  "allocator \<Rightarrow> 'f double_ops \<Rightarrow> bool \<Rightarrow> connect_env \<Rightarrow> nat \<Rightarrow> string \<Rightarrow> net \<Rightarrow> (string option list \<times> esl_handle \<times> net) thread_end io" where
  "Heatbeat_Process A F mutex_ok C n m_fspwd net =
     io_bind (esl_connect_timeout A F mutex_ok C zero_handle None m_fspwd 0 net) (\<lambda>(status, h, net1).
       if status \<noteq> ESL_SUCCESS then io_return ExitOne
       else io_map ThreadEnds (heartbeat_turns A F n h net1))"

definition CallOut_Task_Process ::
  "allocator \<Rightarrow> 'f double_ops \<Rightarrow> bool \<Rightarrow> connect_env \<Rightarrow> net \<Rightarrow> (esl_handle \<times> net) thread_end io" where
  "CallOut_Task_Process A F mutex_ok C net =
     io_bind (esl_connect_timeout A F mutex_ok C zero_handle None ''tx@infosun'' 0 net) (\<lambda>(status, h, net1).
       if status \<noteq> ESL_SUCCESS then io_return ExitOne
       else case esl_disconnect h net1 of (st, h1, net2) \<Rightarrow> io_return (ThreadEnds (h1, net2)))"

section \<open>A message with a body\<close>

text \<open>The messages of FreeSWITCH that carry an event, and its answers to \<open>api\<close> commands.\<close>

definition typed_message :: "string \<Rightarrow> string \<Rightarrow> esl_event" where
  "typed_message ct t = empty_event\<lparr>ev_headers := [named_header ''Content-Type'' ct []], ev_body := Some t\<rparr>"

definition typed_text :: "string \<Rightarrow> string \<Rightarrow> string" where
  "typed_text ct t = ''Content-Type: '' @ ct @ [LF] @ ''Content-Length: '' @ dec_digits (length t) @ [LF, LF] @ t"

definition socket_typed :: "string \<Rightarrow> string \<Rightarrow> esl_event" where
  "socket_typed ct t = socket_event\<lparr>ev_headers := ev_headers socket_event @ wire_lines (typed_message ct t), ev_body := Some t\<rparr>"

abbreviation message_text :: "string \<Rightarrow> string" where "message_text \<equiv> typed_text ''text/event-plain''"
abbreviation socket_message :: "string \<Rightarrow> esl_event" where "socket_message \<equiv> socket_typed ''text/event-plain''"
abbreviation reply_text :: "string \<Rightarrow> string" where "reply_text \<equiv> typed_text ''api/response''"

definition sound_text :: "string \<Rightarrow> bool" where
  "sound_text t \<longleftrightarrow> t \<noteq> [] \<and> cstring t \<and> length t \<le> 65000"

definition known_type :: "string \<Rightarrow> bool" where
  "known_type ct \<longleftrightarrow> ct = ''text/event-plain'' \<or> ct = ''api/response''"

lemma known_types [simp]: "known_type ''text/event-plain''" "known_type ''api/response''"
  by (simp_all add: known_type_def)

lemma typed_message_wire:
  assumes "known_type ct" "sound_text t"
  shows "wire_event (ev_headers socket_event) (typed_message ct t)"
    "esl_event_serialize (typed_message ct t) True = Inr (typed_text ct t)"
    "length (typed_text ct t) \<le> SOCKET_ROOM"
proof -
  note t = assms(2) [unfolded sound_text_def]
  show w: "wire_event (ev_headers socket_event) (typed_message ct t)"
    using assms(1) t unfolding known_type_def
    by (elim disjE) (simp_all add: typed_message_def socket_event_eq wire_event_def wire_header_def wire_lines_def header_plain_def
        plain_name_def plain_value_def sublist_Cons_right wire_name_def ser_plain_def ser_new_len_def
        header_named_def strcaseeq_def c_tolower_def empty_event_def char_eval)
  have "length t < 100000" using t by simp
  then have l: "ser_line True (named_header ''Content-Length'' (dec_digits (length t)) []) =
      ''Content-Length: '' @ dec_digits (length t) @ [LF]" by (rule wire_length_header)
  have c: "ser_line True (named_header ''Content-Type'' ct []) = ''Content-Type: '' @ ct @ [LF]"
    using assms(1) unfolding known_type_def
    by (elim disjE) (simp_all add: ser_line_def ser_value_def url_enc_char_def url_is_unsafe_def urlunsafe_def schar_def char_eval)
  show "esl_event_serialize (typed_message ct t) True = Inr (typed_text ct t)"
    using serialize_wire [OF w] l c by (simp add: typed_message_def wire_lines_def typed_text_def)
  have "length (dec_digits (length t)) \<le> 5" "length ct \<le> 20"
    using t assms(1) by (auto simp: known_type_def intro!: dec_digits_length_less)
  then show "length (typed_text ct t) \<le> SOCKET_ROOM" using t by (simp add: typed_text_def SOCKET_ROOM_def)
qed

lemma socket_typed_headers:
  assumes "known_type ct" "sound_text t"
  shows "esl_event_get_header (socket_typed ct t) ''content-type'' = Some ct"
    "esl_event_get_header (socket_typed ct t) ''reply-text'' = None" "ev_body (socket_typed ct t) = Some t"
proof -
  have wf: "event_wf (socket_typed ct t)"
    using wire_headers_all [OF wire_lines_headers(1) [OF typed_message_wire(1) [OF assms]]]
    by (auto simp: socket_typed_def socket_event_eq event_wf_def empty_event_def wire_header_def header_plain_def)
  have "header_lookup (socket_typed ct t) ''content-type'' = Some ct" "header_lookup (socket_typed ct t) ''reply-text'' = None"
    by (simp_all add: socket_typed_def socket_event_eq typed_message_def wire_lines_def header_lookup_def header_named_def
        strcaseeq_def c_tolower_def char_eval)
  then show "esl_event_get_header (socket_typed ct t) ''content-type'' = Some ct"
    "esl_event_get_header (socket_typed ct t) ''reply-text'' = None"
    using wf by (simp_all add: get_header_lookup)
qed (simp add: socket_typed_def)

text \<open>What \<open>esl_recv_event\<close> does with an event: the one in the body is the newest event.\<close>

lemma recv_process_message:
  assumes "sound_text t"
  shows "recv_process F (socket_message t) h = Inr (True, h\<lparr>h_last_ievent := Some (inner_event t)\<rparr>)"
  using socket_typed_headers [OF known_types(1) assms]
  by (simp add: recv_process_def esl_safe_strcaseeq_def strcaseeq_def c_tolower_def char_eval)

section \<open>One round\<close>

text \<open>A handle with messages in its queue and characters in its buffer.\<close>

definition ready :: "nat \<Rightarrow> string list \<Rightarrow> char list \<Rightarrow> esl_handle \<Rightarrow> bool" where
  "ready n qs content h \<longleftrightarrow>
     h_usable h \<and> h_mutex h = Some n \<and> h_race_event h = map socket_message qs \<and>
     (\<exists>b. h_packet_buf h = Some b \<and> buf_wf b \<and> buf_sentinel b \<and> buf_content b = content)"

lemma recv_finish_message:
  assumes "sound_text t" "h_mutex h = Some (Suc n)"
  shows "recv_finish F False (socket_message t) h net =
    io_return (ESL_SUCCESS, None, h\<lparr>h_last_event := Some (socket_message t), h_last_ievent := Some (inner_event t), h_mutex := Some n\<rparr>, net)"
  using assms recv_process_message [of t F]
  by (simp add: recv_finish_def h_unlock_def esl_mutex_unlock_def)

lemma ready_lock:
  assumes "ready n qs c h"
  shows "h_lock h = io_return (h\<lparr>h_mutex := Some (Suc n)\<rparr>)" "h_usable h" "h_usable (h\<lparr>h_mutex := Some (Suc n)\<rparr>)"
  using assms by (simp_all add: ready_def h_lock_def esl_mutex_lock_def h_usable_def)

lemma recv_queued_message:
  assumes "ready n (t # qs) c h" "sound_text t"
  shows "\<exists>h'. esl_recv_event A F h True False net = io_return (ESL_SUCCESS, None, h', net) \<and>
    h_last_ievent h' = Some (inner_event t) \<and> ready n qs c h'"
proof -
  have "h_race_event h = socket_message t # map socket_message qs" using assms(1) by (simp add: ready_def)
  then have "esl_recv_event A F h True False net =
      io_return (ESL_SUCCESS, None, h\<lparr>h_last_ievent := Some (inner_event t), h_race_event := map socket_message qs,
        h_last_event := Some (socket_message t), h_mutex := Some n\<rparr>, net)"
    using ready_lock [OF assms(1)]
      recv_finish_message [OF assms(2), of "h\<lparr>h_mutex := Some (Suc n), h_last_ievent := None, h_race_event := map socket_message qs\<rparr>" n F net]
    by (simp add: esl_recv_event_def)
  then show ?thesis using assms(1) by (simp add: ready_def h_usable_def)
qed

lemma recv_buffered_message:
  assumes "ready n [] (message_text t @ rest) h" "sound_text t" "cstring rest"
    and "\<And>m. m \<le> Suc SOCKET_ROOM \<Longrightarrow> malloc_ok A m"
  shows "\<exists>h'. esl_recv_event A F h True False net = io_return (ESL_SUCCESS, None, h', net) \<and>
    h_last_ievent h' = Some (inner_event t) \<and> ready n [] rest h'"
proof -
  let ?h1 = "h\<lparr>h_mutex := Some (Suc n), h_last_ievent := None\<rparr>"
  obtain b where b: "h_packet_buf ?h1 = Some b" "buf_wf b" "buf_sentinel b" "buf_content b = message_text t @ rest"
    using assms(1) by (auto simp: ready_def)
  note w = typed_message_wire [OF known_types(1) assms(2)]
  have "cstring (dec_digits (length t))" by simp
  then have nul: "NUL \<notin> set (buf_content b)" using b(4) assms(2,3) by (simp add: typed_text_def sound_text_def cstring_def)
  have u: "h_usable ?h1" using assms(1) by (simp add: ready_def h_usable_def)
  have "m \<le> Suc (length (message_text t)) \<Longrightarrow> malloc_ok A m" for m using w(3) by (intro assms(4)) simp
  moreover have "socket_event\<lparr>ev_headers := ev_headers socket_event @ wire_lines (typed_message ''text/event-plain'' t),
      ev_body := ev_body (typed_message ''text/event-plain'' t)\<rparr> = socket_message t" by (simp add: socket_typed_def typed_message_def)
  moreover note recv_message_wire [OF u b(1-3) nul w(1,2) b(4) w(3), of A net]
  ultimately
  obtain e b1 b2 where m: "recv_wait A ?h1 net = io_return (Some e, ?h1\<lparr>h_packet_buf := Some b1\<rparr>, net)"
      "recv_body A e (?h1\<lparr>h_packet_buf := Some b1\<rparr>) net = io_return (Some (socket_message t), ?h1\<lparr>h_packet_buf := Some b2\<rparr>, net)"
      "buf_wf b2" "buf_sentinel b2" "buf_content b2 = rest"
    by metis
  have "h_race_event h = []" using assms(1) by (simp add: ready_def)
  then have "esl_recv_event A F h True False net =
      io_return (ESL_SUCCESS, None, h\<lparr>h_last_ievent := Some (inner_event t), h_packet_buf := Some b2,
        h_last_event := Some (socket_message t), h_mutex := Some n\<rparr>, net)"
    using ready_lock [OF assms(1)] m(1,2)
      recv_finish_message [OF assms(2), of "h\<lparr>h_mutex := Some (Suc n), h_last_ievent := None, h_packet_buf := Some b2\<rparr>" n F net]
    by (simp add: esl_recv_event_def)
  then show ?thesis using assms(1) m(3-5) by (simp add: ready_def h_usable_def)
qed

text \<open>The peer has closed the connection.\<close>

definition peer_closed :: "net \<Rightarrow> net \<Rightarrow> bool" where
  "peer_closed net net' \<longleftrightarrow>
     (\<exists>w ps rs. net_polls net = PollReady True w False # ps \<and> net_recvs net = RecvBytes [] # rs \<and>
       net' = net\<lparr>net_polls := ps, net_recvs := rs\<rparr>)"

lemma recv_closed:
  assumes "ready n qs [] h" "peer_closed net net'" "q \<longrightarrow> qs = []"
  shows "\<exists>h'. esl_recv_event A F h q save net = io_return (ESL_FAIL, None, h', net') \<and>
    \<not> h_connected h' \<and> h_race_event h' = map socket_message qs \<and> h_mutex h' = Some n \<and> h_last_sr_event h' = h_last_sr_event h"
proof -
  let ?h1 = "h\<lparr>h_mutex := Some (Suc n), h_last_ievent := None\<rparr>"
  obtain b where b: "h_packet_buf ?h1 = Some b" "buf_wf b" "buf_sentinel b" "buf_content b = []"
    using assms(1) by (auto simp: ready_def)
  obtain b1 where b1: "esl_buffer_read_packet b SOCKET_ROOM = Inr ([], b1)"
    using read_packet_found [OF b(2,3), of SOCKET_ROOM] b(4) by auto
  have u: "h_connected ?h1" "h_sock ?h1 \<noteq> ESL_SOCK_INVALID" using assms(1) by (simp_all add: ready_def h_usable_def)
  have "handle_recv (?h1\<lparr>h_packet_buf := Some b1\<rparr>) SOCKET_ROOM net = io_return (None, net')"
    using u assms(2) by (auto simp: peer_closed_def handle_recv_def esl_wait_sock_def poll_bits_def bit_0 bit_Suc)
  then have "recv_wait A ?h1 net = io_return (None, ?h1\<lparr>h_packet_buf := Some b1\<rparr>, net')"
    using u b(1) b1 by (subst recv_wait.simps) simp
  moreover have "h_race_event h = map socket_message qs" using assms(1) by (simp add: ready_def)
  ultimately show ?thesis using ready_lock [OF assms(1)] assms(3)
    by (cases q) (simp_all add: esl_recv_event_def recv_fail_def h_unlock_def esl_mutex_unlock_def)
qed

section \<open>The whole stream\<close>

text \<open>Handling an event only adds to what is sent.\<close>

definition adds_calls :: "('s, 'd) call_center \<Rightarrow> ('s, 'd) call_center \<Rightarrow> bool" where
  "adds_calls cc cc' \<longleftrightarrow> (\<exists>cs. fs_calls (cc_dn cc') = fs_calls (cc_dn cc) @ cs)"

lemma adds_calls_trans: "adds_calls a b \<Longrightarrow> adds_calls b c \<Longrightarrow> adds_calls a c"
  by (auto simp: adds_calls_def)

lemma adds_calls_both:
  assumes "adds_calls a b" "adds_calls b c" "fs_calls (cc_dn c) = fs_calls (cc_dn a)"
  shows "fs_calls (cc_dn b) = fs_calls (cc_dn a) \<and> fs_calls (cc_dn c) = fs_calls (cc_dn b)"
proof -
  obtain xs ys where "fs_calls (cc_dn b) = fs_calls (cc_dn a) @ xs" "fs_calls (cc_dn c) = fs_calls (cc_dn b) @ ys"
    using assms(1,2) by (auto simp: adds_calls_def)
  then show ?thesis using assms(3) by simp
qed

lemma same_calls [simp]:
  "fs_calls (SetagnetStatus E k st mgr) = fs_calls mgr" "fs_calls (SetDNsemaSignal E mgr) = fs_calls mgr"
  "fs_calls (Setcalloutsemafree E mgr) = fs_calls mgr" "fs_calls (put_user k u mgr) = fs_calls mgr"
  "fs_calls (TransformAgent E handle uuid session mgr) = fs_calls mgr"
  "cc_dn (on_record uuid f cc) = cc_dn cc"
  by (auto simp: SetagnetStatus_def SetDNsemaSignal_def Setcalloutsemafree_def put_user_def TransformAgent_def on_record_def
      Let_def split: option.split)

lemma menu_action_calls [simp]:
  "fs_calls (cc_dn (menu_action E handle node uuid session cc)) = fs_calls (cc_dn cc) @
     (if recordfile node = IVR_AGNET_MSG then []
      else [Execute handle ''break'' [] (m_uuid session), Execute handle ''playback'' (recordfile node) (m_uuid session)])"
  by (simp add: menu_action_def PlayBack_def call_fs_def)

lemma process_event_calls: "process_event E handle e cc = Inr cc' \<Longrightarrow> adds_calls cc cc'"
proof -
  assume r: "process_event E handle e cc = Inr cc'"
  have dtmf: "on_dtmf E handle e cc = Inr cc' \<Longrightarrow> adds_calls cc cc'"
    by (auto simp: on_dtmf_def res_bind_Inr_iff Let_def adds_calls_def split: option.splits prod.splits)
  have orig: "on_originate E handle e cc = Inr cc' \<Longrightarrow> adds_calls cc cc'"
    by (auto simp: on_originate_def res_bind_Inr_iff Let_def adds_calls_def call_fs_def split: if_splits)
  have task: "task_answered E handle e cc = Inr c1 \<Longrightarrow> adds_calls cc c1" for c1
    by (auto simp: task_answered_def res_bind_Inr_iff Let_def adds_calls_def split: option.splits prod.splits)
  have answer: "on_answer E handle e cc = Inr cc' \<Longrightarrow> adds_calls cc cc'"
    using task by (auto simp: on_answer_def res_bind_Inr_iff Let_def adds_calls_def split: if_splits)
  show ?thesis using r dtmf orig answer
    by (auto simp: process_event_def on_hangup_def on_hangup_complete_def on_destroy_def agent_free_def Let_def adds_calls_def
        res_bind_Inr_iff split: if_splits option.splits)
qed

lemma process_events_calls: "process_events handle es cc = Inr cc' \<Longrightarrow> adds_calls cc cc'"
proof (induction handle es cc rule: process_events.induct)
  case (1 handle cc)
  then show ?case by (simp add: adds_calls_def)
next
  case (2 handle E e es cc)
  then show ?case by (auto simp: res_bind_Inr_iff intro: adds_calls_trans process_event_calls)
qed

fun with_env :: "(nat \<Rightarrow> 'e) \<Rightarrow> nat \<Rightarrow> 'v list \<Rightarrow> ('e \<times> 'v) list" where
  "with_env env k [] = []"
| "with_env env k (x # xs) = (env k, x) # with_env env (Suc k) xs"

lemma inbound_round:
  assumes "esl_recv_event A F h True False net = io_return (ESL_SUCCESS, None, h', net)" "h_last_ievent h' = Some e"
    and "process_event (env k) (Some hid) e cc = Inr cc1" "fs_calls (cc_dn cc1) = fs_calls (cc_dn cc)"
  shows "inbound_loop A F env hid k h cc net = inbound_loop A F env hid (Suc k) h' cc1 net"
  using assms by (subst inbound_loop.simps) (simp add: issued_def)

lemma inbound_stream:
  assumes "ready n qs (concat (map message_text ts)) h" "\<forall>t \<in> set (qs @ ts). sound_text t"
    and "\<And>m. m \<le> Suc SOCKET_ROOM \<Longrightarrow> malloc_ok A m" "peer_closed net net'"
    and "process_events (Some hid) (with_env env k (map inner_event (qs @ ts))) cc = Inr cc'"
    and "fs_calls (cc_dn cc') = fs_calls (cc_dn cc)"
  shows "\<exists>h'. inbound_loop A F env hid k h cc net = io_return (h', cc', net') \<and> \<not> h_connected h' \<and> h_race_event h' = []"
  using assms
proof (induction "qs @ ts" arbitrary: qs ts k h cc)
  case Nil
  then obtain h' where "esl_recv_event A F h True False net = io_return (ESL_FAIL, None, h', net')" "\<not> h_connected h'"
      "h_race_event h' = []"
    using recv_closed [of n qs h net net' True A F False] by auto
  then show ?case using Nil by (subst inbound_loop.simps) simp
next
  case (Cons t us)
  let ?rest = "with_env env (Suc k) (map inner_event us)"
  have us: "qs @ ts = t # us" using Cons.hyps(2) by simp
  note rd = Cons.prems(1)
  obtain cc1 where cc1: "process_event (env k) (Some hid) (inner_event t) cc = Inr cc1" "process_events (Some hid) ?rest cc1 = Inr cc'"
    using Cons.prems(5) us by (auto simp: res_bind_Inr_iff)
  have calls: "fs_calls (cc_dn cc1) = fs_calls (cc_dn cc)" "fs_calls (cc_dn cc') = fs_calls (cc_dn cc1)"
    using adds_calls_both [OF process_event_calls [OF cc1(1)] process_events_calls [OF cc1(2)] Cons.prems(6)] by auto
  have sound: "sound_text t" "\<forall>u \<in> set us. sound_text u" using Cons.prems(2) us by auto
  have "\<exists>h1 qs1 ts1. esl_recv_event A F h True False net = io_return (ESL_SUCCESS, None, h1, net) \<and>
      h_last_ievent h1 = Some (inner_event t) \<and> ready n qs1 (concat (map message_text ts1)) h1 \<and> us = qs1 @ ts1"
  proof (cases qs)
    case Nil
    then have ts: "ts = t # us" using us by simp
    have "cstring (concat (map message_text us))"
    proof -
      have "cstring (dec_digits (length u))" for u :: string by simp
      then show ?thesis using sound(2) by (auto simp: typed_text_def sound_text_def cstring_def)
    qed
    moreover have "ready n [] (message_text t @ concat (map message_text us)) h" using rd Nil ts by simp
    ultimately obtain h1 where "esl_recv_event A F h True False net = io_return (ESL_SUCCESS, None, h1, net)"
        "h_last_ievent h1 = Some (inner_event t)" "ready n [] (concat (map message_text us)) h1"
      using recv_buffered_message [OF _ sound(1) _ Cons.prems(3)] by blast
    then show ?thesis by (intro exI [of _ h1] exI [of _ "[]"] exI [of _ us]) simp
  next
    case (Cons q qs1)
    then have "q = t" "us = qs1 @ ts" using us by auto
    moreover have "ready n (t # qs1) (concat (map message_text ts)) h" using rd Cons calculation by simp
    ultimately obtain h1 where "esl_recv_event A F h True False net = io_return (ESL_SUCCESS, None, h1, net)"
        "h_last_ievent h1 = Some (inner_event t)" "ready n qs1 (concat (map message_text ts)) h1" "us = qs1 @ ts"
      using recv_queued_message [OF _ sound(1)] by blast
    then show ?thesis by (intro exI [of _ h1] exI [of _ qs1] exI [of _ ts]) simp
  qed
  then obtain h1 qs1 ts1 where h1: "esl_recv_event A F h True False net = io_return (ESL_SUCCESS, None, h1, net)"
      "h_last_ievent h1 = Some (inner_event t)" "ready n qs1 (concat (map message_text ts1)) h1" "us = qs1 @ ts1" by blast
  have "\<exists>h'. inbound_loop A F env hid (Suc k) h1 cc1 net = io_return (h', cc', net') \<and> \<not> h_connected h' \<and> h_race_event h' = []"
    using Cons.hyps(1) [OF h1(4,3) _ Cons.prems(3,4)] sound(2) cc1(2) calls(2) h1(4) by simp
  then show ?case using inbound_round [where env = env and k = k and hid = hid, OF h1(1,2) cc1(1) calls(1)] by simp
qed


section \<open>The heartbeat\<close>

lemma recv_reply:
  assumes "ready n qs (reply_text t @ rest) h" "sound_text t" "cstring rest"
    and "\<And>m. m \<le> Suc SOCKET_ROOM \<Longrightarrow> malloc_ok A m"
  shows "\<exists>h'. esl_recv_event A F h False True net = io_return (ESL_SUCCESS, Some (socket_typed ''api/response'' t), h', net) \<and>
    ready n qs rest h'"
proof -
  let ?h1 = "h\<lparr>h_mutex := Some (Suc n), h_last_ievent := None\<rparr>"
  obtain b where b: "h_packet_buf ?h1 = Some b" "buf_wf b" "buf_sentinel b" "buf_content b = reply_text t @ rest"
    using assms(1) by (auto simp: ready_def)
  note w = typed_message_wire [OF known_types(2) assms(2)]
  have "cstring (dec_digits (length t))" by simp
  then have nul: "NUL \<notin> set (buf_content b)" using b(4) assms(2,3) by (simp add: typed_text_def sound_text_def cstring_def)
  have u: "h_usable ?h1" using assms(1) by (simp add: ready_def h_usable_def)
  have "m \<le> Suc (length (reply_text t)) \<Longrightarrow> malloc_ok A m" for m using w(3) by (intro assms(4)) simp
  moreover have "socket_event\<lparr>ev_headers := ev_headers socket_event @ wire_lines (typed_message ''api/response'' t),
      ev_body := ev_body (typed_message ''api/response'' t)\<rparr> = socket_typed ''api/response'' t"
    by (simp add: socket_typed_def typed_message_def)
  moreover note recv_message_wire [OF u b(1-3) nul w(1,2) b(4) w(3), of A net]
  ultimately obtain e b1 b2 where m: "recv_wait A ?h1 net = io_return (Some e, ?h1\<lparr>h_packet_buf := Some b1\<rparr>, net)"
      "recv_body A e (?h1\<lparr>h_packet_buf := Some b1\<rparr>) net =
        io_return (Some (socket_typed ''api/response'' t), ?h1\<lparr>h_packet_buf := Some b2\<rparr>, net)"
      "buf_wf b2" "buf_sentinel b2" "buf_content b2 = rest" by metis
  have "esl_recv_event A F h False True net = io_return (ESL_SUCCESS, Some (socket_typed ''api/response'' t),
      h\<lparr>h_last_ievent := None, h_packet_buf := Some b2, h_mutex := Some n\<rparr>, net)"
    using ready_lock [OF assms(1)] m(1,2)
    by (simp add: esl_recv_event_def recv_finish_def h_unlock_def esl_mutex_unlock_def)
  then show ?thesis using assms(1) m(3-5) by (simp add: ready_def h_usable_def)
qed

lemma ready_changes [simp]:
  "ready n qs c (h\<lparr>h_last_sr_event := e\<rparr>) = ready n qs c h" "ready n qs c (h\<lparr>h_last_sr_reply := r\<rparr>) = ready n qs c h"
  "ready n qs c (sr_reset h) = ready n qs c h"
  by (simp_all add: ready_def h_usable_def sr_reset_def)

text \<open>A command with its two line ends, up to the loop that waits for the answer.\<close>

lemma send_recv_waits:
  assumes "ready n qs c h" "net_sends net = []" "cmd_ends cmd = Inr True"
  shows "esl_send_recv A F h cmd net =
    send_recv_loop A F 0 (sr_reset (h\<lparr>h_mutex := Some (Suc n)\<rparr>)) (net\<lparr>net_out := net_out net @ [cmd]\<rparr>)"
proof -
  have u: "h_usable (sr_reset (h\<lparr>h_mutex := Some (Suc n)\<rparr>))" using assms(1) by (simp add: ready_def h_usable_def sr_reset_def)
  then have "esl_send (sr_reset (h\<lparr>h_mutex := Some (Suc n)\<rparr>)) cmd net =
      io_return (ESL_SUCCESS, sr_reset (h\<lparr>h_mutex := Some (Suc n)\<rparr>), net\<lparr>net_out := net_out net @ [cmd]\<rparr>)"
    using net_send_open [OF assms(2)] assms(3) by (simp add: esl_send_def)
  then show ?thesis using ready_lock [OF assms(1)] by (simp add: esl_send_recv_def esl_send_recv_timed_def)
qed

lemma locked_ready: "ready n qs c h \<Longrightarrow> ready (Suc n) qs c (sr_reset (sr_reset (h\<lparr>h_mutex := Some (Suc n)\<rparr>)))"
  by (simp add: ready_def h_usable_def sr_reset_def)

abbreviation heartbeat_command :: string where "heartbeat_command \<equiv> ''api create_uuid'' @ [LF, LF]"

lemma heartbeat_answered:
  assumes "ready n qs (reply_text t @ rest) h" "sound_text t" "cstring rest" "net_sends net = []"
    and "\<And>m. m \<le> Suc SOCKET_ROOM \<Longrightarrow> malloc_ok A m"
  shows "\<exists>h'. heartbeat_turn A F h net = io_return (Some t, h', net\<lparr>net_out := net_out net @ [heartbeat_command]\<rparr>) \<and> ready n qs rest h'"
proof -
  let ?e = "socket_typed ''api/response'' t" and ?net = "net\<lparr>net_out := net_out net @ [heartbeat_command]\<rparr>"
  obtain g where g: "esl_recv_event A F (sr_reset (sr_reset (h\<lparr>h_mutex := Some (Suc n)\<rparr>))) False True ?net =
      io_return (ESL_SUCCESS, Some ?e, g, ?net)" "ready (Suc n) qs rest g"
    using recv_reply [OF locked_ready [OF assms(1)] assms(2,3,5)] by blast
  note hs = socket_typed_headers [OF known_types(2) assms(2)]
  have "\<not> race_for ?e" "sr_keep_reply ?e (g\<lparr>h_last_sr_event := Some ?e\<rparr>) = g\<lparr>h_last_sr_event := Some ?e\<rparr>"
    using hs by (simp_all add: race_for_def sr_keep_reply_def strcaseeq_def)
  then have "send_recv_loop A F 0 (sr_reset (h\<lparr>h_mutex := Some (Suc n)\<rparr>)) ?net =
      io_return (ESL_SUCCESS, g\<lparr>h_last_sr_event := Some ?e, h_mutex := Some n\<rparr>, ?net)"
    using g by (subst send_recv_loop.simps)
      (simp add: esl_recv_event_timed_def h_unlock_def esl_mutex_unlock_def ready_def)
  moreover have "ready n qs rest (g\<lparr>h_last_sr_event := Some ?e, h_mutex := Some n\<rparr>)" using g(2) by (simp add: ready_def h_usable_def)
  ultimately show ?thesis using send_recv_waits [OF assms(1,4), of heartbeat_command A F] hs(3)
    by (simp add: heartbeat_turn_def cmd_ends_def)
qed

lemma heartbeat_lost:
  assumes "ready n qs [] h" "net_sends net = []" "peer_closed net net'"
  shows "heartbeat_turn A F h net = Some (Inl NullPointer)"
proof -
  let ?net = "net\<lparr>net_out := net_out net @ [heartbeat_command]\<rparr>"
  have "peer_closed ?net (net'\<lparr>net_out := net_out net @ [heartbeat_command]\<rparr>)" using assms(3) by (auto simp: peer_closed_def)
  from recv_closed [OF locked_ready [OF assms(1)] this, of False A F True] obtain g where
    g: "esl_recv_event A F (sr_reset (sr_reset (h\<lparr>h_mutex := Some (Suc n)\<rparr>))) False True ?net =
        io_return (ESL_FAIL, None, g, net'\<lparr>net_out := net_out net @ [heartbeat_command]\<rparr>)"
      "h_mutex g = Some (Suc n)" "h_last_sr_event g = None"
    by (auto simp: sr_reset_def)
  then have "send_recv_loop A F 0 (sr_reset (h\<lparr>h_mutex := Some (Suc n)\<rparr>)) ?net =
      io_return (ESL_FAIL, g\<lparr>h_mutex := Some n\<rparr>, net'\<lparr>net_out := net_out net @ [heartbeat_command]\<rparr>)"
    by (subst send_recv_loop.simps) (simp add: esl_recv_event_timed_def h_unlock_def esl_mutex_unlock_def)
  then show ?thesis using send_recv_waits [OF assms(1,2), of heartbeat_command A F] g(3)
    by (simp add: heartbeat_turn_def cmd_ends_def)
qed

lemma heartbeat_run:
  assumes "ready n qs (concat (map reply_text ts)) h" "\<forall>t \<in> set ts. sound_text t" "net_sends net = []"
    and "\<And>m. m \<le> Suc SOCKET_ROOM \<Longrightarrow> malloc_ok A m"
  shows "\<exists>h'. heartbeat_turns A F (length ts) h net =
      io_return (map Some ts, h', net\<lparr>net_out := net_out net @ replicate (length ts) heartbeat_command\<rparr>) \<and> ready n qs [] h' \<and>
    (peer_closed net net' \<longrightarrow> heartbeat_turns A F (Suc (length ts)) h net = Some (Inl NullPointer))"
  using assms
proof (induction ts arbitrary: h net net')
  case Nil
  then show ?case using heartbeat_lost [of n qs h net net' A F] by simp
next
  case (Cons t ts)
  have "cstring (dec_digits (length u))" for u :: string by simp
  then have c: "cstring (concat (map reply_text ts))" using Cons.prems(2) by (auto simp: typed_text_def sound_text_def cstring_def)
  have "ready n qs (reply_text t @ concat (map reply_text ts)) h" "sound_text t" using Cons.prems(1,2) by simp_all
  from heartbeat_answered [OF this c Cons.prems(3,4)] obtain h1 where
    h1: "heartbeat_turn A F h net = io_return (Some t, h1, net\<lparr>net_out := net_out net @ [heartbeat_command]\<rparr>)"
      "ready n qs (concat (map reply_text ts)) h1" by blast
  have p: "peer_closed net net' \<Longrightarrow>
      peer_closed (net\<lparr>net_out := net_out net @ [heartbeat_command]\<rparr>) (net'\<lparr>net_out := net_out net @ [heartbeat_command]\<rparr>)"
    by (auto simp: peer_closed_def)
  show ?case
    using Cons.IH [OF h1(2) _ _ Cons.prems(4), of "net\<lparr>net_out := net_out net @ [heartbeat_command]\<rparr>"
        "net'\<lparr>net_out := net_out net @ [heartbeat_command]\<rparr>"] Cons.prems(2,3) h1(1) p
    by (auto simp: replicate_append_same)
qed

section \<open>Properties\<close>

text \<open>An event as it is sent, and as it is received.\<close>

definition sent_as :: "esl_event \<Rightarrow> string \<Rightarrow> bool" where
  "sent_as ev t \<longleftrightarrow> wire_event [] ev \<and> inner_wire [] (wire_lines ev) \<and> esl_event_serialize ev True = Inr t \<and>
     cstring t \<and> length t \<le> 65000"

definition received :: "esl_event \<Rightarrow> esl_event" where
  "received ev = empty_event\<lparr>ev_headers := wire_lines ev, ev_id := foldl json_id 0 (wire_lines ev), ev_body := ev_body ev\<rparr>"

lemma sent_as_sound: "sent_as ev t \<Longrightarrow> sound_text t \<and> inner_event t = received ev"
  using serialize_wire [of "[]" ev] inner_event_wire [of ev t] by (auto simp: sent_as_def sound_text_def received_def)

lemma sent_all: "list_all2 sent_as evs ts \<Longrightarrow> (\<forall>t \<in> set ts. sound_text t) \<and> map inner_event ts = map received evs"
  by (induction rule: list_all2_induct) (auto dest: sent_as_sound)


text \<open>One event: a call of 42 seconds has ended.\<close>

definition ended_call :: esl_event where
  "ended_call = empty_event\<lparr>ev_headers := [named_header ''Event-Name'' ''CHANNEL_HANGUP_COMPLETE'' [],
     named_header ''Caller-Unique-ID'' ''u1'' [], named_header ''variable_billsec'' ''42'' []]\<rparr>"

definition ended_text :: string where
  "ended_text = ''Event-Name: CHANNEL_HANGUP_COMPLETE'' @ [LF] @ ''Caller-Unique-ID: u1'' @ [LF] @ ''variable_billsec: 42'' @ [LF, LF]"

lemma ended_sent: "sent_as ended_call ended_text"
proof -
  have w: "wire_event [] ended_call" "inner_wire [] (wire_lines ended_call)"
    by (simp_all add: ended_call_def wire_event_def wire_header_def wire_lines_def header_plain_def
        plain_name_def plain_value_def sublist_Cons_right wire_name_def ser_plain_def ser_new_len_def
        header_named_def strcaseeq_def c_tolower_def empty_event_def char_eval)
  moreover have "esl_event_serialize ended_call True = Inr ended_text"
    using serialize_wire [OF w(1)]
    by (simp add: ended_call_def ended_text_def wire_lines_def ser_line_def ser_value_def url_enc_char_def url_is_unsafe_def
        urlunsafe_def schar_def empty_event_def char_eval)
  moreover have "cstring ended_text" "length ended_text \<le> 65000" by (simp_all add: ended_text_def)
  ultimately show ?thesis by (simp add: sent_as_def)
qed

lemma ended_id: "esl_name_event ''CHANNEL_HANGUP_COMPLETE'' = Some ESL_EVENT_CHANNEL_HANGUP_COMPLETE"
  by (simp add: esl_name_event_def event_names_def ESL_EVENT_ALL_def call_event_ids strcaseeq_def c_tolower_def char_eval)

lemma ended_received:
  "ev_id (received ended_call) = ESL_EVENT_CHANNEL_HANGUP_COMPLETE"
  "unique_id (received ended_call) = ''u1''" "header_or_empty (received ended_call) ''variable_billsec'' = ''42''"
proof -
  have l: "wire_lines ended_call = ev_headers ended_call" by (simp add: ended_call_def wire_lines_def empty_event_def)
  show "ev_id (received ended_call) = ESL_EVENT_CHANNEL_HANGUP_COMPLETE"
    unfolding received_def l
    by (simp add: ended_call_def json_id_def ended_id strcaseeq_def c_tolower_def char_eval)
  have wf: "event_wf (received ended_call)"
    unfolding received_def l by (simp add: ended_call_def event_wf_def empty_event_def)
  have "header_lookup (received ended_call) ''Caller-Unique-ID'' = Some ''u1''"
    "header_lookup (received ended_call) ''variable_billsec'' = Some ''42''"
    unfolding received_def l
    by (simp_all add: ended_call_def header_lookup_def header_named_def strcaseeq_def c_tolower_def char_eval)
  then show "unique_id (received ended_call) = ''u1''" "header_or_empty (received ended_call) ''variable_billsec'' = ''42''"
    using wf by (simp_all add: header_or_empty_def get_header_lookup)
qed

definition ended_center :: "(nat, string list) call_center" where
  "ended_center = demo_center\<lparr>cc_callInfoMap := [(''u1'', new_callinfo 0)]\<rparr>"

definition closed_net :: net where
  "closed_net = wit_net\<lparr>net_polls := [PollReady True False False], net_recvs := [RecvBytes []]\<rparr>"

definition large_alloc :: allocator where
  "large_alloc = \<lparr>can_alloc = (\<lambda>n. n < 100000), raw_byte = (\<lambda>n. NUL)\<rparr>"

lemma large_alloc_ok: "m \<le> Suc SOCKET_ROOM \<Longrightarrow> malloc_ok large_alloc m"
  by (simp add: large_alloc_def malloc_ok_def SOCKET_ROOM_def)

lemma closed_net_closed: "peer_closed closed_net wit_net"
  unfolding peer_closed_def by (rule exI [of _ False]) (simp add: closed_net_def wit_net_def)

lemma wit_ready:
  assumes "known_type ct" "sound_text t"
  shows "ready 0 [] (typed_text ct t) (wit_handle (typed_text ct t))"
proof -
  have "cstring (dec_digits (length t))" by simp
  then have "cstring (typed_text ct t)" using assms by (auto simp: known_type_def sound_text_def typed_text_def)
  moreover have "length (typed_text ct t) < 2 ^ 62" using typed_message_wire(3) [OF assms] by (simp add: SOCKET_ROOM_def)
  ultimately show ?thesis using wit_handle_ok [of "typed_text ct t"] by (auto simp: ready_def wit_handle_def zero_handle_def)
qed




end
