(* ===== verification/DbOperator.thy ===== *)
theory DbOperator
  imports CallCenter
begin

text \<open>
  The database access (\<^verbatim>\<open>common/DBOperator.cpp\<close>): the queries, and what is made of their rows. The MySQL
  connector is a parameter, the function \<open>db\<close> from the text of a statement to its answer: no connection
  (the null pointer is then used), no statement object, a statement that throws, or rows that end
  regularly or with an exception. A column is read as text or as a number, \<open>None\<close> when reading throws.
  The statement \<open>use master_outdial\<close> in front of every query is not part of the model.

  The functions end with \<open>delete result\<close>, also when \<open>result\<close> was never assigned: that is \<open>OutOfBounds\<close>.
  They return \<open>nSuccess\<close>, 0 or -1, as a \<open>bool\<close>: \<open>False\<close> for success.
\<close>

section \<open>The connector\<close>

record db_row =
  get_string :: "string \<Rightarrow> string option"
  get_int :: "string \<Rightarrow> int option"

datatype db_answer = NoConnection | NoStatement | QueryThrows | Rows "db_row list" bool

type_synonym db = "string \<Rightarrow> db_answer"

text \<open>\<open>while (result->next())\<close>; the second component tells whether no exception was thrown.\<close>

fun rows_loop :: "(db_row \<Rightarrow> 'a \<Rightarrow> 'a \<times> bool) \<Rightarrow> db_row list \<Rightarrow> 'a \<Rightarrow> 'a \<times> bool" where
  "rows_loop f [] a = (a, True)"
| "rows_loop f (r # rs) a = (case f r a of (a', ok) \<Rightarrow> if ok then rows_loop f rs a' else (a', False))"

definition run_query :: "db \<Rightarrow> string \<Rightarrow> (db_row \<Rightarrow> 'a \<Rightarrow> 'a \<times> bool) \<Rightarrow> 'a \<Rightarrow> ('a \<times> bool) c_result" where
  "run_query db query f a =
     (case db query of
        NoConnection \<Rightarrow> Inl NullPointer
      | NoStatement \<Rightarrow> Inl OutOfBounds
      | QueryThrows \<Rightarrow> Inl OutOfBounds
      | Rows rs ended \<Rightarrow> (case rows_loop f rs a of (a', ok) \<Rightarrow> Inr (a', ok \<and> ended)))"

text \<open>A row whose columns are read into local variables before anything is changed.\<close>

definition push_row :: "(db_row \<Rightarrow> 'b option) \<Rightarrow> ('b \<Rightarrow> 'a \<Rightarrow> 'a) \<Rightarrow> db_row \<Rightarrow> 'a \<Rightarrow> 'a \<times> bool" where
  "push_row read add r a = (case read r of None \<Rightarrow> (a, False) | Some b \<Rightarrow> (add b a, True))"

text \<open>A row whose columns are assigned one after the other: those in front of the failing one stay.\<close>

fun set_fields :: "(db_row \<Rightarrow> ('a \<Rightarrow> 'a) option) list \<Rightarrow> db_row \<Rightarrow> 'a \<Rightarrow> 'a \<times> bool" where
  "set_fields [] r a = (a, True)"
| "set_fields (g # gs) r a = (case g r of None \<Rightarrow> (a, False) | Some h \<Rightarrow> set_fields gs r (h a))"

definition text_field :: "string \<Rightarrow> (string \<Rightarrow> 'a \<Rightarrow> 'a) \<Rightarrow> db_row \<Rightarrow> ('a \<Rightarrow> 'a) option" where
  "text_field c f r = map_option f (get_string r c)"

definition int_field :: "string \<Rightarrow> (int \<Rightarrow> 'a \<Rightarrow> 'a) \<Rightarrow> db_row \<Rightarrow> ('a \<Rightarrow> 'a) option" where
  "int_field c f r = map_option f (get_int r c)"

section \<open>The tables of the server\<close>

definition read_login :: "db_row \<Rightarrow> (string \<times> string) option" where
  "read_login r =
     (case get_string r ''agentid'' of None \<Rightarrow> None
      | Some agentid \<Rightarrow> map_option (\<lambda>passwd. (agentid, passwd)) (get_string r ''passwd''))"

definition Getagentandpwd :: "db \<Rightarrow> (string, string) std_map \<Rightarrow> ((string, string) std_map \<times> bool) c_result" where
  "Getagentandpwd db agents =
     res_bind (run_query db ''select * from agenttbl'' (push_row read_login (\<lambda>(a, p). map_insert a p)) agents)
       (\<lambda>(m, ok). Inr (m, \<not> ok))"

definition read_rule :: "db_row \<Rightarrow> (int \<times> int) option" where
  "read_rule r =
     (case get_int r ''company_id'' of None \<Rightarrow> None
      | Some company \<Rightarrow> map_option (\<lambda>ivr_rule. (company, ivr_rule)) (get_int r ''ivr_rule''))"

definition GetDNchooserule :: "db \<Rightarrow> (int, int) std_map \<Rightarrow> ((int, int) std_map \<times> bool) c_result" where
  "GetDNchooserule db DNrule =
     res_bind (run_query db ''select * from acd_rule'' (push_row read_rule (\<lambda>(c, r). map_insert c r)) DNrule)
       (\<lambda>(m, ok). Inr (m, \<not> ok))"

definition new_node :: t_ivrnode where
  "new_node = \<lparr>enterprise_id = 0, company_id = 0, node_id = 0, descript = [], user_word = [], recordfile = []\<rparr>"

definition read_node :: "db_row \<Rightarrow> t_ivrnode option" where
  "read_node r =
     (case set_fields [int_field ''enterprise_id'' (\<lambda>v n. n\<lparr>enterprise_id := v\<rparr>),
                       int_field ''company_id'' (\<lambda>v n. n\<lparr>company_id := v\<rparr>),
                       int_field ''node_id'' (\<lambda>v n. n\<lparr>node_id := v\<rparr>),
                       text_field ''descript'' (\<lambda>v n. n\<lparr>descript := v\<rparr>),
                       text_field ''user_word'' (\<lambda>v n. n\<lparr>user_word := v\<rparr>),
                       text_field ''recordfile'' (\<lambda>v n. n\<lparr>recordfile := v\<rparr>)] r new_node of
        (n, ok) \<Rightarrow> if ok then Some n else None)"

definition GetivrTable :: "db \<Rightarrow> t_ivrnode list \<Rightarrow> (t_ivrnode list \<times> bool) c_result" where
  "GetivrTable db nodetable =
     res_bind (run_query db ''select * from ivr_node_flow_tbl'' (push_row read_node (\<lambda>n ns. ns @ [n])) nodetable)
       (\<lambda>(ns, ok). Inr (ns, \<not> ok))"

text \<open>
  \<open>SelectRouteAgent\<close>: the routes in the order of the table, and for every number the agents of all its
  routes. \<open>set_string\<close> copies at most 19 characters of the agent's number into an array of 20 that is
  not initialised; \<open>raw\<close> is the agent found in memory, \<open>tail\<close> what follows the copied characters.
\<close>

definition read_route :: "db_row \<Rightarrow> route option" where
  "read_route r =
     (case set_fields [text_field ''group_number'' (\<lambda>v t. t\<lparr>rt_group := v\<rparr>),
                       text_field ''agent_number'' (\<lambda>v t. t\<lparr>rt_agent := v\<rparr>),
                       text_field ''group_id'' (\<lambda>v t. t\<lparr>rt_group_id := v\<rparr>),
                       text_field ''route_name'' (\<lambda>v t. t\<lparr>rt_gataname := v\<rparr>),
                       text_field ''prefix'' (\<lambda>v t. t\<lparr>rt_prefix := v\<rparr>)] r
             \<lparr>rt_group = [], rt_agent = [], rt_group_id = [], rt_gataname = [], rt_prefix = []\<rparr> of
        (t, ok) \<Rightarrow> if ok then Some t else None)"

definition set_exten :: "string \<Rightarrow> string \<Rightarrow> string" where
  "set_exten tail dn = (if length dn < 19 then dn else take 19 dn @ tail)"

definition route_agent :: "agent_t \<Rightarrow> string \<Rightarrow> route \<Rightarrow> agent_t" where
  "route_agent raw tail r = raw\<lparr>ag_exten := set_exten tail (rt_agent r), ag_state := 0\<rparr>"

definition group_agents :: "agent_t \<Rightarrow> string \<Rightarrow> route list \<Rightarrow> string \<Rightarrow> (string, agent_t list) std_map \<Rightarrow> (string, agent_t list) std_map" where
  "group_agents raw tail vRoute g agents =
     (let vAg = map (route_agent raw tail) (filter (\<lambda>r. rt_group r = g) vRoute)
      in if vAg = [] then agents else map_insert g vAg agents)"

definition SelectRouteAgent ::
  "agent_t \<Rightarrow> string \<Rightarrow> db \<Rightarrow> (string, agent_t list) std_map \<Rightarrow> route list \<Rightarrow>
   (((string, agent_t list) std_map \<times> route list) \<times> bool) c_result" where
  "SelectRouteAgent raw tail db agents vRoute =
     res_bind (run_query db ''select * from call_in_route_tbl''
                (push_row read_route (\<lambda>r (groups, rs). (map_put (rt_group r) () groups, rs @ [r]))) ([], vRoute))
       (\<lambda>((groups, rs), ok).
          Inr ((if ok then fold (group_agents raw tail rs) (map fst groups) agents else agents, rs), \<not> ok))"

section \<open>Agents, permissions and tasks\<close>

record java_user =
  ju_user_name :: string
  ju_nick_name :: string
  ju_password :: string
  ju_department_id :: int
  ju_company_id :: int
  ju_enterprise_id :: int
  ju_skill_id :: string
  ju_mobile :: string
  ju_ext_number :: string
  ju_delete_status :: int
  ju_email :: string
  ju_login_ip :: string

definition new_java_user :: java_user where
  "new_java_user = \<lparr>ju_user_name = [], ju_nick_name = [], ju_password = [], ju_department_id = 0, ju_company_id = 0,
     ju_enterprise_id = 0, ju_skill_id = [], ju_mobile = [], ju_ext_number = [], ju_delete_status = 0, ju_email = [],
     ju_login_ip = []\<rparr>"

text \<open>The number of the agent goes into the statement as it is; the last row counts.\<close>

definition java_user_fields :: "(db_row \<Rightarrow> (java_user \<Rightarrow> java_user) option) list" where
  "java_user_fields =
     [int_field ''enterprise_id'' (\<lambda>v u. u\<lparr>ju_enterprise_id := v\<rparr>), int_field ''company_id'' (\<lambda>v u. u\<lparr>ju_company_id := v\<rparr>),
      text_field ''email'' (\<lambda>v u. u\<lparr>ju_email := v\<rparr>), int_field ''department_id'' (\<lambda>v u. u\<lparr>ju_department_id := v\<rparr>),
      text_field ''login_ip'' (\<lambda>v u. u\<lparr>ju_login_ip := v\<rparr>), text_field ''mobile'' (\<lambda>v u. u\<lparr>ju_mobile := v\<rparr>),
      text_field ''nick_name'' (\<lambda>v u. u\<lparr>ju_nick_name := v\<rparr>), text_field ''password'' (\<lambda>v u. u\<lparr>ju_password := v\<rparr>),
      text_field ''skill_id'' (\<lambda>v u. u\<lparr>ju_skill_id := v\<rparr>), text_field ''ext_number'' (\<lambda>v u. u\<lparr>ju_ext_number := v\<rparr>),
      int_field ''delete_status'' (\<lambda>v u. u\<lparr>ju_delete_status := v\<rparr>), text_field ''user_name'' (\<lambda>v u. u\<lparr>ju_user_name := v\<rparr>)]"

definition java_user_row :: "db_row \<Rightarrow> java_user \<times> bool \<Rightarrow> (java_user \<times> bool) \<times> bool" where
  "java_user_row r a = (case set_fields java_user_fields r (fst a) of (u, ok) \<Rightarrow> ((u, snd a \<or> ok), ok))"

definition GetJavaUserInfo :: "db \<Rightarrow> string \<Rightarrow> java_user \<Rightarrow> (java_user \<times> bool) c_result" where
  "GetJavaUserInfo db userid userinfo =
     res_bind (run_query db (''select * from t_user_tbl where ext_number = '' @ QUOTE @ userid @ QUOTE @ '' '')
                java_user_row (userinfo, False)) (\<lambda>(u, ok). Inr u)"

text \<open>\<open>Getpermission\<close>: whether a row was found, and the permission, which no row changes.\<close>

definition Getpermission :: "db \<Rightarrow> string \<Rightarrow> (bool \<times> bool) c_result" where
  "Getpermission db agentid =
     res_bind (run_query db (''select delete_status from t_user_role where user_id='' @ QUOTE @ agentid @ QUOTE @ '' '')
                (\<lambda>r iret. (True, True)) False) (\<lambda>(iret, ok). Inr (iret, True))"

record out_call =
  oc_phone :: string
  oc_name :: string
  oc_task_id :: string
  oc_company_id :: int
  oc_sex :: string

definition read_out_call :: "db_row \<Rightarrow> out_call option" where
  "read_out_call r =
     (case set_fields [text_field ''task_id'' (\<lambda>v c. c\<lparr>oc_task_id := v\<rparr>), text_field ''sex'' (\<lambda>v c. c\<lparr>oc_sex := v\<rparr>),
                       text_field ''name'' (\<lambda>v c. c\<lparr>oc_name := v\<rparr>), text_field ''phone'' (\<lambda>v c. c\<lparr>oc_phone := v\<rparr>),
                       int_field ''company_id'' (\<lambda>v c. c\<lparr>oc_company_id := v\<rparr>)] r
             \<lparr>oc_phone = [], oc_name = [], oc_task_id = [], oc_company_id = 0, oc_sex = []\<rparr> of
        (c, ok) \<Rightarrow> if ok then Some c else None)"

definition GetOutcalllist :: "db \<Rightarrow> out_call list \<Rightarrow> (out_call list \<times> bool) c_result" where
  "GetOutcalllist db phonelist =
     res_bind (run_query db ''select * from outdial_task_tbl ''
                (push_row read_out_call (\<lambda>c (cs, iret). (cs @ [c], True))) (phonelist, False)) (\<lambda>(r, ok). Inr r)"

section \<open>The record of a call\<close>

definition insert_columns :: string where
  "insert_columns = ''insert into t_call_info_tbl (user_id,enterprise_id,company_id,department_id,user_number, '' @
     replicate 5 (CHR 0x09) @ ''   customer_number,call_id,call_record,number_attribution,gateway_url,call_start_time,call_end_time '' @
     replicate 5 (CHR 0x09) @ ''   ,call_duration,call_state,extension_number,record_file,call_type,skill_id,create_at) values ''"

definition quoted :: "string \<Rightarrow> string" where
  "quoted s = QUOTE @ s @ QUOTE"

fun join_commas :: "string list \<Rightarrow> string" where
  "join_commas [] = []"
| "join_commas [s] = s"
| "join_commas (s # ss) = s @ '','' @ join_commas ss"

definition insert_call_sql :: "callout_info \<Rightarrow> string" where
  "insert_call_sql i = snprintf_text 4096 (insert_columns @ ''('' @ join_commas
     ([dec_int (N_user_id i), dec_int (N_enterprose_id i), dec_int (N_company_id i), dec_int (N_department_id i)] @
      map quoted [N_user_number i, N_customer_number i, N_call_id i, N_call_record i, N_number_attribution i,
        N_gateway_url i, N_call_start_time i, N_call_end_time i] @ [dec_int (N_call_duration i)] @
      map quoted [N_callstate i, N_extension_number i, N_record_file i, N_call_type i, N_skill_id i, N_create_at i]) @ '')'')"

definition insertCallInfoSql :: "db \<Rightarrow> callout_info \<Rightarrow> bool c_result" where
  "insertCallInfoSql db callInfo =
     (case db (insert_call_sql callInfo) of
        NoConnection \<Rightarrow> Inl NullPointer
      | NoStatement \<Rightarrow> Inl OutOfBounds
      | QueryThrows \<Rightarrow> Inr True
      | Rows rs ended \<Rightarrow> Inr False)"

section \<open>Reloading the configuration\<close>

text \<open>
  \<open>ManagerDN::reloaddb\<close> with the queries it makes; \<open>stray\<close> and \<open>parse\<close> are those of the menus.
\<close>

definition reload_from_db ::
  "agent_t \<Rightarrow> string \<Rightarrow> db \<Rightarrow> int option \<Rightarrow> (string \<Rightarrow> (int \<times> string) option list option) \<Rightarrow>
   ('s, 'd) call_center \<Rightarrow> ('s, 'd) call_center c_result" where
  "reload_from_db raw tail db stray parse cc =
     res_bind (SelectRouteAgent raw tail db [] []) (\<lambda>((agents, routes), _).
     res_bind (Getagentandpwd db []) (\<lambda>(logins, _).
     res_bind (GetDNchooserule db (m_compyidDNrulemap (cc_dn cc))) (\<lambda>(rules, _).
     res_bind (GetivrTable db []) (\<lambda>(nodetable, _).
     res_bind (ivr_Reload stray parse nodetable (cc_ivr cc)) (\<lambda>ivr.
       Inr (cc\<lparr>cc_dn := (cc_dn cc)\<lparr>m_agentRoute := agents, m_gRoute := routes, m_agentloginInfo := logins,
              m_compyidDNrulemap := rules\<rparr>, cc_ivr := ivr\<rparr>))))))"

section \<open>What the rows become\<close>

lemma rows_loop_push:
  "map read rows = map Some bs \<Longrightarrow> rows_loop (push_row read add) rows a = (fold add bs a, True)"
proof (induction rows arbitrary: bs a)
  case (Cons r rows)
  then obtain b bs' where "bs = b # bs'" "read r = Some b" "map read rows = map Some bs'" by (cases bs) auto
  then show ?case using Cons.IH by (simp add: push_row_def)
qed simp

text \<open>Whatever the rows, those read are a list the additions of which are made in order.\<close>

lemma rows_loop_prefix: "\<exists>bs ok. rows_loop (push_row read add) rows a = (fold add bs a, ok)"
proof (induction rows arbitrary: a)
  case Nil
  show ?case by (intro exI [of _ "[]"] exI [of _ True]) simp
next
  case (Cons r rows)
  show ?case
  proof (cases "read r")
    case None
    then show ?thesis by (intro exI [of _ "[]"] exI [of _ False]) (simp add: push_row_def)
  next
    case (Some b)
    obtain bs ok where "rows_loop (push_row read add) rows (add b a) = (fold add bs (add b a), ok)" using Cons.IH by blast
    moreover have "push_row read add r a = (add b a, True)" using Some by (simp add: push_row_def)
    ultimately show ?thesis by (intro exI [of _ "b # bs"] exI [of _ ok]) simp
  qed
qed

lemma rules_inserted:
  assumes "GetDNchooserule db m = Inr (m', r)"
  shows "\<exists>rules. m' = fold (\<lambda>(c, r). map_insert c r) rules m"
proof (cases "db ''select * from acd_rule''")
  case (Rows rows ended)
  obtain bs ok where "rows_loop (push_row read_rule (\<lambda>(c, r). map_insert c r)) rows m = (fold (\<lambda>(c, r). map_insert c r) bs m, ok)"
    using rows_loop_prefix [of read_rule "\<lambda>(c, r). map_insert c r" rows m] by blast
  then show ?thesis using assms Rows by (auto simp: GetDNchooserule_def run_query_def)
qed (use assms in \<open>simp_all add: GetDNchooserule_def run_query_def\<close>)

text \<open>A reload is the step \<open>reloaddb\<close> with the rows that were read.\<close>

lemma reload_is_step:
  assumes "reload_from_db raw tail db stray parse cc = Inr cc'"
  shows "\<exists>agents routes logins rules nodetable ivr. ivr_Reload stray parse nodetable (cc_ivr cc) = Inr ivr \<and>
    cc' = cc\<lparr>cc_dn := reloaddb agents routes logins rules (cc_dn cc), cc_ivr := ivr\<rparr>"
  using assms by (fastforce simp: reload_from_db_def res_bind_Inr_iff reloaddb_def dest: rules_inserted)

lemma group_fold:
  "fold (\<lambda>r (groups, rs). (map_put (rt_group r) () groups, rs @ [r])) routes (gs, rs0) =
     (fold (\<lambda>r. map_put (rt_group r) ()) routes gs, rs0 @ routes)"
  by (induction routes arbitrary: gs rs0) auto

lemma group_keys:
  "map_ok gs \<Longrightarrow> map_ok (fold (\<lambda>r. map_put (rt_group r) ()) routes gs) \<and>
     fst ` set (fold (\<lambda>r. map_put (rt_group r) ()) routes gs) = fst ` set gs \<union> rt_group ` set routes"
  by (induction routes arbitrary: gs) (auto simp: map_ok_put map_put_keys)

lemma group_agents_fold:
  assumes "distinct ks" "\<And>k. k \<in> set ks \<Longrightarrow> map_find m k = None" "map_ok m"
  shows "map_ok (fold (group_agents raw tail rs) ks m) \<and>
    map_find (fold (group_agents raw tail rs) ks m) g =
      (let vAg = map (route_agent raw tail) (filter (\<lambda>r. rt_group r = g) rs)
       in if g \<in> set ks \<and> vAg \<noteq> [] then Some vAg else map_find m g)"
  using assms
proof (induction ks arbitrary: m)
  case (Cons k ks)
  let ?m = "group_agents raw tail rs k m"
  have ok: "map_ok ?m" using Cons.prems(3) by (simp add: group_agents_def map_ok_insert Let_def)
  have find: "map_find ?m = (if filter (\<lambda>r. rt_group r = k) rs = [] then map_find m
      else (map_find m)(k := Some (map (route_agent raw tail) (filter (\<lambda>r. rt_group r = k) rs))))"
    using Cons.prems(2) [of k] by (simp add: group_agents_def map_insert_def map_find_put Let_def)
  have "\<And>l. l \<in> set ks \<Longrightarrow> map_find ?m l = None"
    using Cons.prems(1,2) unfolding find by auto
  then show ?case using Cons.IH [of ?m] Cons.prems(1) Cons.prems(2) [of g] ok find by (auto simp: Let_def)
qed simp

text \<open>
  The routes that are loaded from the table: they stand in the order of its rows, and a call to a
  number finds the agent of the first row with that number (its number cut to 19 characters and what the
  memory holds when it is longer); for a number without rows the search reads past the end of the map.
\<close>

theorem gate_agents_loaded:
  assumes "db ''select * from call_in_route_tbl'' = Rows rows True" "map read_route rows = map Some routes"
    "reload_from_db raw tail db stray parse cc = Inr cc'"
  shows "m_gRoute (cc_dn cc') = routes \<and>
    find_available_agent gate (cc_dn cc') =
      (case find (\<lambda>r. rt_group r = gate) routes of
         None \<Rightarrow> Inl OutOfBounds
       | Some r \<Rightarrow> Inr (raw\<lparr>ag_exten := set_exten tail (rt_agent r), ag_state := 0\<rparr>))"
proof -
  let ?gs = "fold (\<lambda>r. map_put (rt_group r) ()) routes []"
  let ?agents = "fold (group_agents raw tail routes) (map fst ?gs) []"
  have s: "SelectRouteAgent raw tail db [] [] = Inr ((?agents, routes), False)"
    using assms(1) by (simp add: SelectRouteAgent_def run_query_def rows_loop_push [OF assms(2)] group_fold)
  have k: "map_ok ?gs" "set (map fst ?gs) = rt_group ` set routes" using group_keys [of "[]" routes] by auto
  have f: "map_find ?agents gate = (let vAg = map (route_agent raw tail) (filter (\<lambda>r. rt_group r = gate) routes)
      in if gate \<in> set (map fst ?gs) \<and> vAg \<noteq> [] then Some vAg else None)"
    using group_agents_fold [of "map fst ?gs" "[]" raw tail routes gate] map_ok_distinct [OF k(1)] by simp
  have h: "find (\<lambda>r. rt_group r = gate) routes = (case filter (\<lambda>r. rt_group r = gate) routes of [] \<Rightarrow> None | r # rs \<Rightarrow> Some r)"
    by (induction routes) auto
  have m: "m_agentRoute (cc_dn cc') = ?agents" "m_gRoute (cc_dn cc') = routes"
    using assms(3) s by (auto simp: reload_from_db_def res_bind_Inr_iff)
  show ?thesis
  proof (cases "filter (\<lambda>r. rt_group r = gate) routes")
    case Nil
    then have "map_find ?agents gate = None" using f by simp
    then show ?thesis unfolding find_available_agent_def m h Nil by simp
  next
    case (Cons r rs)
    have "r \<in> set (filter (\<lambda>r. rt_group r = gate) routes)" unfolding Cons by simp
    then have "gate \<in> set (map fst ?gs)" unfolding k(2) by auto
    then have "map_find ?agents gate = Some (map (route_agent raw tail) (r # rs))" unfolding f Cons by simp
    then show ?thesis unfolding find_available_agent_def m h Cons by (simp add: route_agent_def)
  qed
qed

definition demo_row :: "(string \<times> string) list \<Rightarrow> (string \<times> int) list \<Rightarrow> db_row" where
  "demo_row ts is = \<lparr>get_string = map_of ts, get_int = map_of is\<rparr>"

definition demo_db :: db where
  "demo_db sql =
     (if sql = ''select * from call_in_route_tbl''
      then Rows [demo_row [(''group_number'', ''8800''), (''agent_number'', ''1001''), (''group_id'', ''3''), (''route_name'', ''gw''), (''prefix'', ''83'')] []] True
      else if sql = ''select * from t_user_tbl where ext_number = '' @ QUOTE @ ''1001'' @ QUOTE @ '' ''
      then Rows [demo_row [(''email'', []), (''login_ip'', []), (''mobile'', ''139''), (''nick_name'', ''A''), (''password'', ''right''),
                           (''skill_id'', ''s''), (''ext_number'', ''1001''), (''user_name'', ''Agent'')]
                          [(''enterprise_id'', 1), (''company_id'', 3), (''department_id'', 2), (''delete_status'', 0)]] True
      else Rows [] True)"

lemma demo_reload:
  "\<exists>cc'. reload_from_db \<lparr>ag_exten = [], ag_uuid = [], ag_state = 0\<rparr> [] demo_db None menu_parse demo_center = Inr cc'"
  by (simp add: reload_from_db_def SelectRouteAgent_def Getagentandpwd_def GetDNchooserule_def GetivrTable_def run_query_def
      demo_db_def demo_row_def push_row_def read_route_def text_field_def ivr_Reload_def Initivrflow_def node_tables.simps)

theorem gate_agents_loaded_witness:
  "\<exists>cc' a. reload_from_db \<lparr>ag_exten = [], ag_uuid = [], ag_state = 0\<rparr> [] demo_db None menu_parse demo_center = Inr cc' \<and>
     find_available_agent ''8800'' (cc_dn cc') = Inr a \<and> ag_exten a = ''1001''"
proof -
  obtain cc' where c: "reload_from_db \<lparr>ag_exten = [], ag_uuid = [], ag_state = 0\<rparr> [] demo_db None menu_parse demo_center = Inr cc'"
    using demo_reload by blast
  show ?thesis
    using gate_agents_loaded [OF _ _ c,
        of "[demo_row [(''group_number'', ''8800''), (''agent_number'', ''1001''), (''group_id'', ''3''), (''route_name'', ''gw''), (''prefix'', ''83'')] []]"
           "[\<lparr>rt_group = ''8800'', rt_agent = ''1001'', rt_group_id = ''3'', rt_gataname = ''gw'', rt_prefix = ''83''\<rparr>]" "''8800''"] c
    by (simp add: demo_db_def demo_row_def read_route_def text_field_def set_exten_def)
qed

end
