(* ===== verification/ConfigStore.thy ===== *)
theory ConfigStore
  imports Main
begin

text \<open>
  The contract of a configuration file: values under the name of a section and a key. Two components
  provide it, \<^verbatim>\<open>base/inifile\<close> (names and keys are compared exactly) and \<^verbatim>\<open>database/config/inirw\<close>
  (without regard to case).
\<close>

locale config_store =
  fixes get :: "'s \<Rightarrow> string \<Rightarrow> string \<Rightarrow> string option"
    and put :: "string \<Rightarrow> string \<Rightarrow> string \<Rightarrow> 's \<Rightarrow> 's"
    and ok :: "'s \<Rightarrow> bool"
    and valid :: "string \<Rightarrow> string \<Rightarrow> string \<Rightarrow> bool"
    and readable :: "string \<Rightarrow> string \<Rightarrow> bool"
    and same :: "string \<Rightarrow> string \<Rightarrow> bool"
  assumes get_put: "ok s \<Longrightarrow> valid n k v \<Longrightarrow> readable n' k' \<Longrightarrow>
      get (put n k v s) n' k' = (if same n n' \<and> same k k' then Some v else get s n' k')"
    and ok_put: "ok s \<Longrightarrow> valid n k v \<Longrightarrow> ok (put n k v s)"
begin

definition put_all :: "(string \<times> string \<times> string) list \<Rightarrow> 's \<Rightarrow> 's" where
  "put_all ws s = fold (\<lambda>(n, k, v). put n k v) ws s"

definition last_put :: "(string \<times> string \<times> string) list \<Rightarrow> string \<Rightarrow> string \<Rightarrow> (string \<times> string \<times> string) option" where
  "last_put ws n k = find (\<lambda>(n', k', v). same n' n \<and> same k' k) (rev ws)"

lemma ok_put_all: "ok s \<Longrightarrow> \<forall>(n, k, v) \<in> set ws. valid n k v \<Longrightarrow> ok (put_all ws s)"
  by (induction ws arbitrary: s) (auto simp: put_all_def ok_put)

text \<open>What is read is what was written last, or what was there.\<close>

lemma get_put_all:
  assumes "ok s" "\<forall>(n, k, v) \<in> set ws. valid n k v" "readable n k"
  shows "get (put_all ws s) n k = (case last_put ws n k of Some (_, _, v) \<Rightarrow> Some v | None \<Rightarrow> get s n k)"
  using assms
proof (induction ws arbitrary: s rule: rev_induct)
  case (snoc w ws)
  obtain n' k' v where w: "w = (n', k', v)" by (cases w)
  have "ok (put_all ws s)" using ok_put_all [of s ws] snoc.prems by simp
  moreover have "put_all (ws @ [w]) s = put n' k' v (put_all ws s)" by (simp add: put_all_def w)
  ultimately show ?case using snoc by (auto simp: get_put last_put_def w)
qed (simp add: put_all_def last_put_def)

end

end
