(* ===== verification/IniFile.thy ===== *)
theory IniFile
  imports StdMap ConfigStore
begin

text \<open>
  The ini files of the server (\<^verbatim>\<open>base/inifile/inifile.cpp\<close>) and what it reads from them
  (\<^verbatim>\<open>ManagerDN::loadConfigini\<close>). A file is its text, which holds no NUL. \<open>getline\<close> puts a line together
  from pieces of 2047 characters; the model takes the line at once. A section pointer is the name the
  section has in the map, \<open>None\<close> for the null pointer.
\<close>

section \<open>The data\<close>

record ini_item =
  it_key :: string
  it_value :: string
  it_comment :: string

record ini_section =
  is_name :: string
  is_comment :: string
  is_items :: "ini_item list"

record ini_file =
  ini_sections :: "(string, ini_section) std_map"
  ini_fname :: string
  ini_flags :: "string list"

abbreviation NL :: char where "NL \<equiv> CHR 0x0A"
abbreviation CR :: char where "CR \<equiv> CHR 0x0D"

definition RET_OK :: int where "RET_OK = 0"
definition RET_ERR :: int where "RET_ERR = -1"

definition new_ini :: ini_file where
  "new_ini = \<lparr>ini_sections = [], ini_fname = [], ini_flags = [''#'', '';'']\<rparr>"

definition new_section :: "string \<Rightarrow> string \<Rightarrow> ini_section" where
  "new_section name comment = \<lparr>is_name = name, is_comment = comment, is_items = []\<rparr>"

section \<open>Reading a file\<close>

definition trimleft :: "char \<Rightarrow> string \<Rightarrow> string" where
  "trimleft c str = dropWhile (\<lambda>x. x = c) str"

definition trimright :: "char \<Rightarrow> string \<Rightarrow> string" where
  "trimright c str = rev (dropWhile (\<lambda>x. x = c) (rev str))"

definition trim :: "string \<Rightarrow> string" where
  "trim str = rev (dropWhile c_isspace (rev (dropWhile c_isspace str)))"

definition isComment :: "string list \<Rightarrow> string \<Rightarrow> bool" where
  "isComment flags str = list_ex (\<lambda>f. prefix f str) flags"

text \<open>\<open>parse\<close>: the key and the value around the first \<open>c\<close>.\<close>

definition ini_parse :: "string \<Rightarrow> char \<Rightarrow> (string \<times> string) option" where
  "ini_parse content c =
     (case strchr content c of None \<Rightarrow> None | Some r \<Rightarrow> Some (trim (before_chr content c), trim (tl r)))"

definition ini_getline :: "string \<Rightarrow> string \<times> string" where
  "ini_getline s =
     (let l = takeWhile (\<lambda>c. c \<noteq> NL) s in case drop (length l) s of [] \<Rightarrow> (l, []) | c # r \<Rightarrow> (l @ [c], r))"

text \<open>\<open>line.substr(0, line.find(flag))\<close>, and that for every flag\<close>

definition cut_flag :: "string \<Rightarrow> string \<Rightarrow> string" where
  "cut_flag f line = (case strstr line f of None \<Rightarrow> line | Some r \<Rightarrow> take (length line - length r) line)"

definition cut_flags :: "string list \<Rightarrow> string \<Rightarrow> string" where
  "cut_flags flags line = fold cut_flag flags line"

record load_state =
  ls_sections :: "(string, ini_section) std_map"
  ls_section :: "string option"
  ls_comment :: string

text \<open>One line: the loop goes on, or \<open>load\<close> gives up with what it has.\<close>

datatype load_step = Go load_state | GiveUp load_state

definition add_item :: "string \<Rightarrow> ini_item \<Rightarrow> (string, ini_section) std_map \<Rightarrow> (string, ini_section) std_map" where
  "add_item s item m = map_modify s (new_section [] []) (\<lambda>sect. sect\<lparr>is_items := is_items sect @ [item]\<rparr>) m"

definition load_line :: "string list \<Rightarrow> string \<Rightarrow> load_state \<Rightarrow> load_step c_result" where
  "load_line flags raw st =
     (let line0 = trim (trimright CR (trimright NL raw));
          line1 = (if isComment flags line0 then line0 else cut_flags flags line0);
          comment = ls_comment st @ drop (length line1) line0;
          line = trim line1
      in if line = [] then Inr (Go (st\<lparr>ls_comment := comment\<rparr>))
         else if hd line = CHR ''['' then
           (let st1 = st\<lparr>ls_section := None, ls_comment := comment\<rparr>;
                s = before_chr (tl line) CHR '']''
            in if CHR '']'' \<notin> set line then Inr (GiveUp st1)
               else if s = [] then Inr (Go st1)
               else if map_find (ls_sections st) s \<noteq> None then Inr (GiveUp st1)
               else Inr (Go (st\<lparr>ls_sections := map_put s (new_section s comment) (ls_sections st), ls_section := Some s,
                              ls_comment := []\<rparr>)))
         else if isComment flags line then
           Inr (Go (st\<lparr>ls_comment := (if comment = [] then line else comment @ NL # line)\<rparr>))
         else case ini_parse line CHR ''='' of
                None \<Rightarrow> Inr (Go (st\<lparr>ls_comment := []\<rparr>))
              | Some (k, v) \<Rightarrow>
                  (case ls_section st of
                     None \<Rightarrow> Inl NullPointer
                   | Some s \<Rightarrow>
                       Inr (Go (st\<lparr>ls_sections := add_item s \<lparr>it_key = k, it_value = v, it_comment = comment\<rparr> (ls_sections st),
                                  ls_comment := []\<rparr>))))"

lemma ini_getline_shorter: "s \<noteq> [] \<Longrightarrow> length (snd (ini_getline s)) < length s"
  by (auto simp: ini_getline_def Let_def split: list.split dest: arg_cong [of "drop _ _" _ length])

function load_lines :: "string list \<Rightarrow> string \<Rightarrow> load_state \<Rightarrow> (int \<times> (string, ini_section) std_map) c_result" where
  "load_lines flags s st =
     (if s = [] then Inr (RET_OK, ls_sections st)
      else res_bind (load_line flags (fst (ini_getline s)) st) (\<lambda>r.
        case r of
          GiveUp st1 \<Rightarrow> Inr (RET_ERR, ls_sections st1)
        | Go st1 \<Rightarrow> load_lines flags (snd (ini_getline s)) st1))"
  by pat_completeness auto
termination
  by (relation "measure (\<lambda>(flags, s, st). length s)") (auto simp: ini_getline_shorter)

declare load_lines.simps [simp del]

text \<open>\<open>release\<close> and \<open>load\<close>; \<open>content\<close> is the text of the file, \<open>None\<close> when it cannot be opened.\<close>

definition ini_release :: "ini_file \<Rightarrow> ini_file" where
  "ini_release f = f\<lparr>ini_fname := [], ini_sections := []\<rparr>"

definition ini_load :: "string \<Rightarrow> string option \<Rightarrow> ini_file \<Rightarrow> (int \<times> ini_file) c_result" where
  "ini_load filename content f =
     (let f1 = (ini_release f)\<lparr>ini_fname := filename\<rparr>
      in case content of
           None \<Rightarrow> Inr (RET_ERR, f1)
         | Some s \<Rightarrow>
             res_bind (load_lines (ini_flags f1) s
                 \<lparr>ls_sections = map_put [] (new_section [] []) [], ls_section = Some [], ls_comment = []\<rparr>) (\<lambda>(r, m).
             Inr (r, f1\<lparr>ini_sections := m\<rparr>)))"

section \<open>Writing a file\<close>

definition item_text :: "ini_item \<Rightarrow> string" where
  "item_text i = (if it_comment i = [] then [] else it_comment i @ [NL]) @ it_key i @ ''='' @ it_value i @ [NL]"

definition section_text :: "string \<times> ini_section \<Rightarrow> string" where
  "section_text p = (case p of (name, s) \<Rightarrow>
     (if is_comment s = [] then [] else is_comment s @ [NL]) @
     (if name = [] then [] else CHR ''['' # name @ '']'' @ [NL]) @ concat (map item_text (is_items s)))"

definition saveas :: "ini_file \<Rightarrow> string" where
  "saveas f = concat (map section_text (ini_sections f))"

section \<open>Values\<close>

definition getSection :: "string \<Rightarrow> ini_file \<Rightarrow> ini_section option" where
  "getSection name f = map_find (ini_sections f) name"

definition find_item :: "string \<Rightarrow> ini_section \<Rightarrow> ini_item option" where
  "find_item key s = find (\<lambda>i. it_key i = key) (is_items s)"

text \<open>\<open>getValue\<close>: the return value, the value and the comment; both are as they were, empty, when there is none.\<close>

definition getValue :: "string \<Rightarrow> string \<Rightarrow> ini_file \<Rightarrow> int \<times> string \<times> string" where
  "getValue name key f =
     (case getSection name f of
        None \<Rightarrow> (RET_ERR, [], [])
      | Some s \<Rightarrow> (case find_item key s of None \<Rightarrow> (RET_ERR, [], []) | Some i \<Rightarrow> (RET_OK, it_value i, it_comment i)))"

definition getStringValue :: "string \<Rightarrow> string \<Rightarrow> ini_file \<Rightarrow> string \<times> int" where
  "getStringValue name key f = (case getValue name key f of (ret, v, c) \<Rightarrow> (v, ret))"

definition getIntValue :: "string \<Rightarrow> string \<Rightarrow> ini_file \<Rightarrow> int \<times> int" where
  "getIntValue name key f = (case getValue name key f of (ret, v, c) \<Rightarrow> (c_atoi v, ret))"

definition getValues :: "string \<Rightarrow> string \<Rightarrow> ini_file \<Rightarrow> int \<times> string list \<times> string list" where
  "getValues name key f =
     (let is = (case getSection name f of None \<Rightarrow> [] | Some s \<Rightarrow> filter (\<lambda>i. it_key i = key) (is_items s))
      in (if is \<noteq> [] then RET_OK else RET_ERR, map it_value is, map it_comment is))"

definition hasSection :: "string \<Rightarrow> ini_file \<Rightarrow> bool" where
  "hasSection name f \<longleftrightarrow> getSection name f \<noteq> None"

definition hasKey :: "string \<Rightarrow> string \<Rightarrow> ini_file \<Rightarrow> bool" where
  "hasKey name key f = (case getSection name f of None \<Rightarrow> False | Some s \<Rightarrow> list_ex (\<lambda>i. it_key i = key) (is_items s))"

definition getSectionComment :: "string \<Rightarrow> ini_file \<Rightarrow> int \<times> string" where
  "getSectionComment name f = (case getSection name f of None \<Rightarrow> (RET_ERR, []) | Some s \<Rightarrow> (RET_OK, is_comment s))"

definition setSectionComment :: "string \<Rightarrow> string \<Rightarrow> ini_file \<Rightarrow> int \<times> ini_file" where
  "setSectionComment name comment f =
     (case getSection name f of
        None \<Rightarrow> (RET_ERR, f)
      | Some s \<Rightarrow> (RET_OK, f\<lparr>ini_sections := map_put name (s\<lparr>is_comment := comment\<rparr>) (ini_sections f)\<rparr>))"

text \<open>The first item of a key is changed, or a new one is put behind the others.\<close>

fun set_item :: "string \<Rightarrow> string \<Rightarrow> string \<Rightarrow> ini_item list \<Rightarrow> ini_item list" where
  "set_item key v comt [] = [\<lparr>it_key = key, it_value = v, it_comment = comt\<rparr>]"
| "set_item key v comt (i # is) =
     (if it_key i = key then i\<lparr>it_value := v, it_comment := comt\<rparr> # is else i # set_item key v comt is)"

definition setValue :: "string \<Rightarrow> string \<Rightarrow> string \<Rightarrow> string \<Rightarrow> ini_file \<Rightarrow> (int \<times> ini_file) c_result" where
  "setValue name key v comment f =
     (if comment \<noteq> [] \<and> ini_flags f = [] then Inl OutOfBounds
      else let comt = (if comment = [] then [] else hd (ini_flags f) @ comment);
               s = (case getSection name f of None \<Rightarrow> new_section name [] | Some s \<Rightarrow> s)
           in Inr (RET_OK, f\<lparr>ini_sections := map_put name (s\<lparr>is_items := set_item key v comt (is_items s)\<rparr>) (ini_sections f)\<rparr>))"

definition deleteSection :: "string \<Rightarrow> ini_file \<Rightarrow> ini_file" where
  "deleteSection name f = (if getSection name f = None then f else f\<lparr>ini_sections := map_erase name (ini_sections f)\<rparr>)"

fun delete_item :: "string \<Rightarrow> ini_item list \<Rightarrow> ini_item list" where
  "delete_item key [] = []"
| "delete_item key (i # is) = (if it_key i = key then is else i # delete_item key is)"

definition deleteKey :: "string \<Rightarrow> string \<Rightarrow> ini_file \<Rightarrow> ini_file" where
  "deleteKey name key f =
     (case getSection name f of
        None \<Rightarrow> f
      | Some s \<Rightarrow> f\<lparr>ini_sections := map_put name (s\<lparr>is_items := delete_item key (is_items s)\<rparr>) (ini_sections f)\<rparr>)"

definition getCommentFlags :: "ini_file \<Rightarrow> string list" where
  "getCommentFlags f = ini_flags f"

definition setCommentFlags :: "string list \<Rightarrow> ini_file \<Rightarrow> ini_file" where
  "setCommentFlags flags f = f\<lparr>ini_flags := flags\<rparr>"

section \<open>The configuration of the server\<close>

record server_config =
  m_fsip :: string
  m_fsport :: int
  m_fspwd :: string
  m_FSXMLPATH :: string
  m_prefix :: string
  m_ServerIP :: string
  m_wsbussinessPort :: int
  m_tcpbussinessPort :: int

text \<open>A value and the default that replaces it when it is missing.\<close>

definition text_or :: "string \<Rightarrow> string \<Rightarrow> string \<Rightarrow> ini_file \<Rightarrow> string" where
  "text_or name key d f = (case getStringValue name key f of (v, ret) \<Rightarrow> if ret \<noteq> 0 then d else v)"

definition int_or :: "string \<Rightarrow> string \<Rightarrow> int \<Rightarrow> ini_file \<Rightarrow> int" where
  "int_or name key d f = (case getIntValue name key f of (v, ret) \<Rightarrow> if ret \<noteq> 0 then d else v)"

text \<open>A missing \<open>serverip\<close> replaces the prefix and leaves the address empty. Without the file nothing is set.\<close>

definition loadConfigini :: "string option \<Rightarrow> server_config \<Rightarrow> server_config c_result" where
  "loadConfigini content cfg =
     res_bind (ini_load ''Service.ini'' content new_ini) (\<lambda>(r, f).
     if r \<noteq> 0 then Inr cfg
     else let serverip = getStringValue ''TXBETA'' ''serverip'' f
          in Inr (cfg\<lparr>m_fsip := text_or ''FREESWITCH'' ''IP'' ''0.0.0.0'' f, m_fsport := int_or ''FREESWITCH'' ''PORT'' 8021 f,
              m_fspwd := text_or ''FREESWITCH'' ''PSSWD'' ''tx@infosun'' f,
              m_FSXMLPATH := text_or ''FREESWITCH'' ''XMLPATH'' ''/usr/local/freeswitch/conf/sip_profiles/external/'' f,
              m_prefix := (if snd serverip \<noteq> 0 then ''88'' else text_or ''TXBETA'' ''prefix'' ''88'' f),
              m_ServerIP := fst serverip,
              m_wsbussinessPort := int_or ''TXBETA'' ''wsport'' 10081 f,
              m_tcpbussinessPort := int_or ''TXBETA'' ''outcalltcpport'' 10090 f\<rparr>))"

section \<open>Files that can be read back\<close>

definition trimmed :: "string \<Rightarrow> bool" where
  "trimmed s \<longleftrightarrow> s = [] \<or> \<not> c_isspace (hd s) \<and> \<not> c_isspace (last s)"

text \<open>Text without line end and without the characters that begin a comment.\<close>

definition plain :: "string \<Rightarrow> bool" where
  "plain s \<longleftrightarrow> NL \<notin> set s \<and> CHR ''#'' \<notin> set s \<and> CHR '';'' \<notin> set s"

definition comment_line :: "string \<Rightarrow> bool" where
  "comment_line l \<longleftrightarrow> l \<noteq> [] \<and> (hd l = CHR ''#'' \<or> hd l = CHR '';'') \<and> \<not> c_isspace (last l)"

fun lines_of :: "string \<Rightarrow> string list" where
  "lines_of [] = [[]]"
| "lines_of (c # s) = (if c = NL then [] # lines_of s else (c # hd (lines_of s)) # tl (lines_of s))"

definition comment_ok :: "string \<Rightarrow> bool" where
  "comment_ok c \<longleftrightarrow> c = [] \<or> list_all comment_line (lines_of c)"

definition item_ok :: "ini_item \<Rightarrow> bool" where
  "item_ok i \<longleftrightarrow> plain (it_key i) \<and> trimmed (it_key i) \<and> CHR ''='' \<notin> set (it_key i) \<and> \<not> prefix ''['' (it_key i) \<and>
     plain (it_value i) \<and> trimmed (it_value i) \<and> comment_ok (it_comment i)"

definition section_ok :: "string \<times> ini_section \<Rightarrow> bool" where
  "section_ok p = (case p of (name, s) \<Rightarrow>
     is_name s = name \<and> plain name \<and> CHR '']'' \<notin> set name \<and> comment_ok (is_comment s) \<and> list_all item_ok (is_items s))"

text \<open>The section without name is there, without comment; the flags are those of a new file.\<close>

definition ini_ok :: "ini_file \<Rightarrow> bool" where
  "ini_ok f \<longleftrightarrow> ini_flags f = [''#'', '';''] \<and> map_ok (ini_sections f) \<and> list_all section_ok (ini_sections f) \<and>
     (case map_find (ini_sections f) [] of None \<Rightarrow> False | Some s \<Rightarrow> is_comment s = [])"

section \<open>Lines\<close>

lemma dropWhile_hd: "s = [] \<or> \<not> P (hd s) \<Longrightarrow> dropWhile P s = s"
  by (cases s) auto

lemma trim_trimmed: "trimmed s \<Longrightarrow> trim s = s"
  by (cases "s = []") (simp_all add: trim_def trimmed_def dropWhile_hd hd_rev)

lemma getline_line: "NL \<notin> set l \<Longrightarrow> ini_getline (l @ NL # r) = (l @ [NL], r)"
proof -
  assume "NL \<notin> set l"
  then have "takeWhile (\<lambda>c. c \<noteq> NL) (l @ NL # r) = l" by (induction l) auto
  then show ?thesis by (simp add: ini_getline_def)
qed

lemma line_end: "trimmed l \<Longrightarrow> NL \<notin> set l \<Longrightarrow> trim (trimright CR (trimright NL (l @ [NL]))) = l"
proof -
  assume l: "trimmed l" "NL \<notin> set l"
  have "dropWhile (\<lambda>x. x = NL) (rev l) = rev l"
    using l(2) by (intro dropWhile_hd) (cases l rule: rev_cases, auto)
  then have "trimright NL (l @ [NL]) = l" by (simp add: trimright_def)
  moreover have "trimright CR l = l"
  proof (cases "l = []")
    case False
    then have "hd (rev l) \<noteq> CR" using l(1) by (auto simp: trimmed_def hd_rev c_isspace_def byte_of_def)
    then show ?thesis by (simp add: trimright_def dropWhile_hd)
  qed (simp add: trimright_def)
  ultimately show ?thesis by (simp add: trim_trimmed l(1))
qed

lemma strstr_char: "c \<notin> set l \<Longrightarrow> strstr l [c] = None"
  by (induction l) auto

lemma cut_plain: "plain l \<Longrightarrow> cut_flags [''#'', '';''] l = l"
  by (simp add: cut_flags_def cut_flag_def plain_def strstr_char)

lemma is_comment_char: "isComment [''#'', '';''] l \<longleftrightarrow> l \<noteq> [] \<and> (hd l = CHR ''#'' \<or> hd l = CHR '';'')"
  by (cases l) (auto simp: isComment_def)

lemma lines_step:
  assumes "NL \<notin> set l" "load_line flags (l @ [NL]) st = Inr (Go st1)"
  shows "load_lines flags (l @ NL # r) st = load_lines flags r st1"
  by (subst load_lines.simps) (simp add: getline_line assms)

lemma comment_step:
  assumes "comment_line l" "NL \<notin> set l"
  shows "load_lines [''#'', '';''] (l @ NL # r) st =
    load_lines [''#'', '';''] r (st\<lparr>ls_comment := (if ls_comment st = [] then l else ls_comment st @ NL # l)\<rparr>)"
proof (rule lines_step [OF assms(2)])
  have t: "trimmed l" "l \<noteq> []" "hd l \<noteq> CHR ''[''"
    using assms(1) by (auto simp: comment_line_def trimmed_def c_isspace_def byte_of_def)
  have c: "isComment [''#'', '';''] l" using assms(1) by (simp add: is_comment_char comment_line_def)
  show "load_line [''#'', '';''] (l @ [NL]) st =
      Inr (Go (st\<lparr>ls_comment := (if ls_comment st = [] then l else ls_comment st @ NL # l)\<rparr>))"
    by (simp add: load_line_def line_end t assms(2) trim_trimmed c)
qed

fun join_lines :: "string list \<Rightarrow> string" where
  "join_lines [] = []"
| "join_lines [l] = l"
| "join_lines (l # ls) = l @ NL # join_lines ls"

lemma join_lines_of: "join_lines (lines_of c) = c \<and> lines_of c \<noteq> [] \<and> (\<forall>l \<in> set (lines_of c). NL \<notin> set l)"
proof (induction c)
  case (Cons x c)
  then show ?case by (cases "lines_of c"; cases "tl (lines_of c)") auto
qed simp

lemma comments_step:
  assumes "ls \<noteq> []" "\<forall>l \<in> set ls. comment_line l \<and> NL \<notin> set l"
  shows "load_lines [''#'', '';''] (join_lines ls @ NL # r) st =
    load_lines [''#'', '';''] r (st\<lparr>ls_comment := (if ls_comment st = [] then join_lines ls else ls_comment st @ NL # join_lines ls)\<rparr>)"
  using assms
proof (induction ls arbitrary: st rule: join_lines.induct)
  case (3 l m ls)
  then have "l \<noteq> []" by (auto simp: comment_line_def)
  then show ?case using comment_step [of l "join_lines (m # ls) @ NL # r" st] "3.IH" "3.prems" by auto
qed (simp_all add: comment_step)

lemma comment_text_step:
  assumes "comment_ok c" "ls_comment st = []"
  shows "load_lines [''#'', '';''] ((if c = [] then [] else c @ [NL]) @ r) st = load_lines [''#'', '';''] r (st\<lparr>ls_comment := c\<rparr>)"
proof (cases "c = []")
  case False
  then show ?thesis
    using comments_step [of "lines_of c" r st] join_lines_of [of c] assms by (auto simp: comment_ok_def list_all_iff)
next
  case True
  have "st\<lparr>ls_comment := []\<rparr> = st" using assms(2) by simp
  then show ?thesis using True by simp
qed

lemma trimmed_item:
  assumes "trimmed k" "trimmed v"
  shows "trimmed (k @ CHR ''='' # v)"
  using assms by (cases k) (auto simp: trimmed_def c_isspace_def byte_of_def split: if_splits)

lemma item_line:
  assumes "item_ok i" "ls_comment st = it_comment i" "ls_section st = Some s"
  shows "load_line [''#'', '';''] ((it_key i @ CHR ''='' # it_value i) @ [NL]) st =
    Inr (Go (st\<lparr>ls_sections := add_item s i (ls_sections st), ls_comment := []\<rparr>))"
proof -
  define l where "l = it_key i @ CHR ''='' # it_value i"
  have ok: "plain (it_key i)" "trimmed (it_key i)" "CHR ''='' \<notin> set (it_key i)" "\<not> prefix ''['' (it_key i)"
      "plain (it_value i)" "trimmed (it_value i)" using assms(1) by (auto simp: item_ok_def)
  have l: "trimmed l" "plain l" "l \<noteq> []" using ok trimmed_item by (auto simp: plain_def l_def)
  then have n: "NL \<notin> set l" by (simp add: plain_def)
  have c: "\<not> isComment [''#'', '';''] l" using ok(1) by (cases "it_key i") (auto simp: is_comment_char plain_def l_def)
  have h: "hd l \<noteq> CHR ''[''" using ok(4) by (cases "it_key i") (auto simp: l_def)
  have p: "ini_parse l CHR ''='' = Some (it_key i, it_value i)"
    using ok(2,3,6) by (simp add: ini_parse_def strchr_append before_chr_append trim_trimmed l_def)
  have i: "\<lparr>it_key = it_key i, it_value = it_value i, it_comment = it_comment i\<rparr> = i" by (cases i) simp
  show ?thesis
    unfolding l_def [symmetric]
    by (simp add: load_line_def line_end [OF l(1) n] trim_trimmed [OF l(1)] cut_plain [OF l(2)] assms(2,3) l(3) c h p i)
qed

lemma section_line:
  assumes "plain n" "CHR '']'' \<notin> set n" "n \<noteq> []" "map_find (ls_sections st) n = None"
  shows "load_line [''#'', '';''] ((CHR ''['' # n @ '']'') @ [NL]) st =
    Inr (Go (st\<lparr>ls_sections := map_put n (new_section n (ls_comment st)) (ls_sections st), ls_section := Some n, ls_comment := []\<rparr>))"
proof -
  define l where "l = CHR ''['' # n @ '']''"
  have l: "trimmed l" "plain l" "l \<noteq> []" using assms(1) by (auto simp: trimmed_def plain_def c_isspace_def byte_of_def l_def)
  then have n: "NL \<notin> set l" by (simp add: plain_def)
  have c: "hd l = CHR ''[''" "before_chr (tl l) CHR '']'' = n" "CHR '']'' \<in> set l"
    using assms(2) by (simp_all add: before_chr_append l_def)
  have i: "\<not> isComment [''#'', '';''] l" by (simp add: is_comment_char l_def)
  show ?thesis
    unfolding l_def [symmetric]
    by (simp add: load_line_def line_end [OF l(1) n] trim_trimmed [OF l(1)] cut_plain [OF l(2)] c i l(3) assms(3,4))
qed

lemma item_step:
  assumes "item_ok i" "ls_comment st = []" "ls_section st = Some s"
  shows "load_lines [''#'', '';''] (item_text i @ r) st =
    load_lines [''#'', '';''] r (st\<lparr>ls_sections := add_item s i (ls_sections st)\<rparr>)"
proof -
  define l where "l = it_key i @ CHR ''='' # it_value i"
  have n: "NL \<notin> set l" "comment_ok (it_comment i)" using assms(1) by (auto simp: item_ok_def plain_def l_def)
  let ?st = "st\<lparr>ls_comment := it_comment i\<rparr>"
  have t: "item_text i @ r = (if it_comment i = [] then [] else it_comment i @ [NL]) @ (l @ NL # r)"
    by (simp add: item_text_def l_def)
  have "load_line [''#'', '';''] (l @ [NL]) ?st = Inr (Go (?st\<lparr>ls_sections := add_item s i (ls_sections ?st), ls_comment := []\<rparr>))"
    unfolding l_def by (rule item_line) (use assms in auto)
  note lines_step [OF n(1) this, of r]
  moreover have "?st\<lparr>ls_sections := add_item s i (ls_sections ?st), ls_comment := []\<rparr> = st\<lparr>ls_sections := add_item s i (ls_sections st)\<rparr>"
    using assms(2) by simp
  ultimately show ?thesis
    unfolding t comment_text_step [OF n(2) assms(2)] by simp
qed

lemma items_step:
  assumes "list_all item_ok is" "map_ok m" "map_find m n = Some sect"
  shows "load_lines [''#'', '';''] (concat (map item_text is) @ r) \<lparr>ls_sections = m, ls_section = Some n, ls_comment = []\<rparr> =
    load_lines [''#'', '';''] r \<lparr>ls_sections = map_put n (sect\<lparr>is_items := is_items sect @ is\<rparr>) m, ls_section = Some n, ls_comment = []\<rparr>"
  using assms
proof (induction "is" arbitrary: m sect)
  case Nil
  then show ?case by (simp add: std.put_same)
next
  case (Cons i "is")
  let ?sect = "sect\<lparr>is_items := is_items sect @ [i]\<rparr>"
  have "add_item n i m = map_put n ?sect m" using Cons.prems by (simp add: add_item_def map_modify_def)
  moreover have "map_ok (map_put n ?sect m)" using Cons.prems by (simp add: map_ok_put)
  moreover have "map_find (map_put n ?sect m) n = Some ?sect" by (simp add: map_find_put)
  ultimately show ?case
    using Cons.IH [of "map_put n ?sect m" ?sect] Cons.prems item_step [of i "\<lparr>ls_sections = m, ls_section = Some n, ls_comment = []\<rparr>" n]
    by (simp add: std.put_twice)
qed

lemma section_step:
  assumes "section_ok (n, s)" "n \<noteq> []" "map_ok m" "map_find m n = None"
  shows "load_lines [''#'', '';''] (section_text (n, s) @ r) \<lparr>ls_sections = m, ls_section = x, ls_comment = []\<rparr> =
    load_lines [''#'', '';''] r \<lparr>ls_sections = map_put n s m, ls_section = Some n, ls_comment = []\<rparr>"
proof -
  define l where "l = CHR ''['' # n @ '']''"
  define its where "its = concat (map item_text (is_items s))"
  let ?st = "\<lparr>ls_sections = m, ls_section = x, ls_comment = is_comment s\<rparr>"
  have s: "comment_ok (is_comment s)" "plain n" "CHR '']'' \<notin> set n" "list_all item_ok (is_items s)" "is_name s = n"
    using assms(1) by (auto simp: section_ok_def)
  then have n: "NL \<notin> set l" by (simp add: plain_def l_def)
  have t: "section_text (n, s) @ r = (if is_comment s = [] then [] else is_comment s @ [NL]) @ (l @ NL # its @ r)"
    using assms(2) by (simp add: section_text_def l_def its_def)
  have "load_line [''#'', '';''] (l @ [NL]) ?st =
      Inr (Go (?st\<lparr>ls_sections := map_put n (new_section n (is_comment s)) m, ls_section := Some n, ls_comment := []\<rparr>))"
    using section_line [OF s(2,3) assms(2), of ?st] assms(4) unfolding l_def by simp
  note lines_step [OF n this, of "its @ r"]
  moreover have e: "\<lparr>is_name = n, is_comment = is_comment s, is_items = is_items s\<rparr> = s" using s(5) by (cases s) simp
  moreover have "load_lines [''#'', '';''] (its @ r)
      \<lparr>ls_sections = map_put n (new_section n (is_comment s)) m, ls_section = Some n, ls_comment = []\<rparr> =
    load_lines [''#'', '';''] r \<lparr>ls_sections = map_put n s m, ls_section = Some n, ls_comment = []\<rparr>"
    unfolding its_def
    by (subst items_step [where sect = "new_section n (is_comment s)"])
      (use s(4,5) assms(3) in \<open>simp_all add: map_ok_put map_find_put std.put_twice new_section_def e\<close>)
  ultimately show ?thesis
    unfolding t by (subst comment_text_step [OF s(1)]) simp_all
qed

lemma map_put_last: "\<forall>x \<in> fst ` set m. x < k \<Longrightarrow> map_put k v m = m @ [(k, v)]"
  by (induction k v m rule: map_put.induct) auto

lemma sections_step:
  assumes "list_all section_ok ss" "map_ok (m @ ss)" "[] \<notin> fst ` set ss"
  shows "load_lines [''#'', '';''] (concat (map section_text ss)) \<lparr>ls_sections = m, ls_section = x, ls_comment = []\<rparr> = Inr (RET_OK, m @ ss)"
  using assms
proof (induction ss arbitrary: m x)
  case Nil
  then show ?case by (simp add: load_lines.simps)
next
  case (Cons p ss)
  obtain n s where p: "p = (n, s)" by (cases p)
  have less: "\<forall>x \<in> fst ` set m. x < n" using Cons.prems(2) by (auto simp: p map_ok_def sorted_wrt_append)
  then have "map_find m n = None" by (auto simp: map_find_None)
  moreover have "map_ok m" using Cons.prems(2) by (auto simp: map_ok_def sorted_wrt_append)
  ultimately show ?case
    using Cons.prems Cons.IH [of "m @ [p]" "Some n"] section_step [of n s m "concat (map section_text ss)" x]
    by (auto simp: p map_put_last [OF less])
qed

lemma first_section: "map_ok m \<Longrightarrow> map_find m ([] :: string) = Some s \<Longrightarrow> \<exists>ss. m = ([], s) # ss"
  by (cases m) (force simp: map_find_Cons map_ok_Cons map_find_set split: if_splits)+

text \<open>What is saved is what is read back.\<close>

lemma ini_saved:
  assumes "ini_ok f" "ini_flags g = [''#'', '';'']"
  shows "ini_load name (Some (saveas f)) g = Inr (RET_OK, f\<lparr>ini_fname := name\<rparr>)"
proof -
  from assms(1) obtain s ss where f: "ini_sections f = ([], s) # ss"
    using first_section [of "ini_sections f"] by (auto simp: ini_ok_def split: option.splits)
  have s: "is_comment s = []" "is_name s = []" "list_all item_ok (is_items s)" "list_all section_ok ss" "map_ok (([], s) # ss)"
    "[] \<notin> fst ` set ss" "ini_flags f = ini_flags g"
    using assms by (auto simp: ini_ok_def f section_ok_def map_ok_Cons map_find_Cons)
  have e: "\<lparr>is_name = [], is_comment = [], is_items = is_items s\<rparr> = s" using s(1,2) by (cases s) simp
  have "load_lines [''#'', '';''] (saveas f)
      \<lparr>ls_sections = [([], new_section [] [])], ls_section = Some [], ls_comment = []\<rparr> = Inr (RET_OK, ini_sections f)"
    using items_step [OF s(3), of "[([], new_section [] [])]" "[]" "new_section [] []"]
      sections_step [OF s(4), of "[([], s)]" "Some []"] s
    by (simp add: saveas_def f section_text_def map_find_Cons map_ok_Cons new_section_def e)
  then show ?thesis
    using s(7) assms(2) by (simp add: ini_load_def ini_release_def Let_def)
qed

section \<open>What is read can be saved\<close>

lemma set_dropWhileD: "x \<in> set (dropWhile P s) \<Longrightarrow> x \<in> set s"
  by (induction s) (auto split: if_splits)

lemma set_trim: "set (trim s) \<subseteq> set s"
  by (auto simp: trim_def dest!: set_dropWhileD)

lemma set_trimright: "set (trimright c s) \<subseteq> set s"
  by (auto simp: trimright_def dest!: set_dropWhileD)

lemma rdrop_hd: "t \<noteq> [] \<Longrightarrow> \<not> P (hd t) \<Longrightarrow> rev (dropWhile P (rev t)) \<noteq> [] \<and> hd (rev (dropWhile P (rev t))) = hd t"
  by (cases t) (auto simp: dropWhile_append)

lemma trimmed_trim: "trimmed (trim s)"
proof (cases "dropWhile c_isspace s = []")
  case True
  then show ?thesis unfolding trim_def trimmed_def by (simp del: dropWhile_eq_Nil_conv)
next
  case False
  let ?t = "dropWhile c_isspace s"
  have "\<not> c_isspace (hd ?t)" using False by (rule hd_dropWhile)
  moreover from this have "dropWhile c_isspace (rev ?t) \<noteq> []" using rdrop_hd [OF False] by simp
  then have "\<not> c_isspace (hd (dropWhile c_isspace (rev ?t)))" by (rule hd_dropWhile)
  ultimately show ?thesis
    using rdrop_hd [OF False, of c_isspace] by (simp add: trimmed_def trim_def last_rev)
qed

lemma trim_hd: "s \<noteq> [] \<Longrightarrow> \<not> c_isspace (hd s) \<Longrightarrow> trim s \<noteq> [] \<and> hd (trim s) = hd s"
  using rdrop_hd [of s c_isspace] by (simp add: trim_def dropWhile_hd)

text \<open>A line before the first flag, and the comment after it.\<close>

abbreviation no_flag :: "char \<Rightarrow> bool" where
  "no_flag c \<equiv> c \<noteq> CHR ''#'' \<and> c \<noteq> CHR '';''"

lemma strstr_single: "strstr l [c] = (if c \<in> set l then Some (dropWhile (\<lambda>x. x \<noteq> c) l) else None)"
  by (induction l) auto

lemma cut_flag_single: "cut_flag [c] l = takeWhile (\<lambda>x. x \<noteq> c) l"
proof (cases "c \<in> set l")
  case True
  have "length l = length (takeWhile (\<lambda>x. x \<noteq> c) l) + length (dropWhile (\<lambda>x. x \<noteq> c) l)"
    by (metis length_append takeWhile_dropWhile_id)
  then show ?thesis
    using True by (simp add: cut_flag_def strstr_single) (metis append_eq_conv_conj takeWhile_dropWhile_id)
next
  case False
  then have "takeWhile (\<lambda>x. x \<noteq> c) l = l" by (induction l) auto
  then show ?thesis by (simp only: cut_flag_def strstr_single False if_False option.case)
qed

lemma cut_line: "cut_flags [''#'', '';''] l = takeWhile no_flag l"
  by (simp add: cut_flags_def cut_flag_single) (induction l, auto)

lemma drop_cut: "drop (length (takeWhile P l)) l = dropWhile P l"
  by (induction l) auto

lemma map_put_section_ok:
  assumes "map_ok m" "list_all section_ok m" "section_ok (n, s)"
  shows "map_ok (map_put n s m) \<and> list_all section_ok (map_put n s m)"
proof -
  have ok: "map_ok (map_put n s m)" using assms(1) by (rule map_ok_put)
  have "section_ok p" if "p \<in> set (map_put n s m)" for p
  proof -
    obtain k t where p: "p = (k, t)" by (cases p)
    then have "map_find (map_put n s m) k = Some t" using that by (simp add: map_find_set [OF ok])
    then have "k = n \<and> t = s \<or> map_find m k = Some t" by (auto simp: map_find_put split: if_splits)
    then show ?thesis using assms by (auto simp: p map_find_set list_all_iff)
  qed
  then show ?thesis using ok by (simp add: list_all_iff)
qed

text \<open>The sections while a file is read.\<close>

definition sections_ok :: "(string, ini_section) std_map \<Rightarrow> bool" where
  "sections_ok m \<longleftrightarrow> map_ok m \<and> list_all section_ok m \<and>
     (case map_find m [] of None \<Rightarrow> False | Some s \<Rightarrow> is_comment s = [])"

definition load_ok :: "load_state \<Rightarrow> bool" where
  "load_ok st \<longleftrightarrow> sections_ok (ls_sections st) \<and> comment_ok (ls_comment st) \<and>
     (case ls_section st of None \<Rightarrow> True | Some n \<Rightarrow> map_find (ls_sections st) n \<noteq> None)"

lemma sections_find: "sections_ok m \<Longrightarrow> map_find m n = Some s \<Longrightarrow> section_ok (n, s)"
  by (simp add: sections_ok_def map_find_set list_all_iff)

lemma sections_put:
  assumes "sections_ok m" "section_ok (n, s)" "n = [] \<longrightarrow> is_comment s = []"
  shows "sections_ok (map_put n s m)"
  using assms map_put_section_ok [of m n s] by (auto simp: sections_ok_def map_find_put split: option.splits)

lemma sections_add:
  assumes "sections_ok m" "map_find m n \<noteq> None" "item_ok i"
  shows "sections_ok (add_item n i m)"
proof -
  obtain s where s: "map_find m n = Some s" using assms(2) by auto
  then have "section_ok (n, s\<lparr>is_items := is_items s @ [i]\<rparr>)"
    using sections_find [OF assms(1) s] assms(3) by (simp add: section_ok_def)
  moreover have "n = [] \<longrightarrow> is_comment s = []" using assms(1) s by (auto simp: sections_ok_def)
  ultimately show ?thesis using sections_put [OF assms(1)] by (simp add: add_item_def map_modify_def s)
qed

lemma add_item_found: "map_find (add_item n i m) k \<noteq> None \<longleftrightarrow> k = n \<or> map_find m k \<noteq> None"
  by (simp add: add_item_def map_find_modify)

lemma lines_of_append: "lines_of (a @ NL # b) = lines_of a @ lines_of b"
proof (induction a)
  case (Cons c a)
  then show ?case using join_lines_of [of a] by (cases "lines_of a") auto
qed simp

lemma lines_of_single: "NL \<notin> set l \<Longrightarrow> lines_of l = [l]"
  by (induction l) auto

lemma comment_tail:
  assumes "comment_ok c" "t \<noteq> []" "NL \<notin> set t" "\<not> no_flag (hd t)" "\<not> c_isspace (last t)"
  shows "comment_ok (c @ t)"
proof (cases "c = []")
  case False
  have last_line: "lines_of (d @ t) = butlast (lines_of d) @ [last (lines_of d) @ t]" for d
  proof (induction d)
    case (Cons x d)
    then show ?case using join_lines_of [of d] by (cases "lines_of d") auto
  qed (simp add: lines_of_single assms(3))
  have "list_all comment_line (lines_of c)" "lines_of c \<noteq> []"
    using assms(1) False join_lines_of [of c] by (auto simp: comment_ok_def)
  then have l: "list_all comment_line (butlast (lines_of c))" "comment_line (last (lines_of c))"
    by (auto simp: list_all_iff dest: in_set_butlastD)
  from l(2) have "comment_line (last (lines_of c) @ t)" using assms(2,5) by (simp add: comment_line_def)
  then show ?thesis using l(1) by (simp add: comment_ok_def last_line)
qed (use assms in \<open>auto simp: comment_ok_def lines_of_single comment_line_def\<close>)

lemma comment_add: "comment_ok c \<Longrightarrow> comment_line l \<Longrightarrow> NL \<notin> set l \<Longrightarrow> comment_ok (if c = [] then l else c @ NL # l)"
  by (auto simp: comment_ok_def lines_of_append lines_of_single)

lemma parsed_item:
  assumes "ini_parse l CHR ''='' = Some (k, v)" "plain l" "hd l \<noteq> CHR ''[''" "trimmed l" "comment_ok c"
  shows "item_ok \<lparr>it_key = k, it_value = v, it_comment = c\<rparr>"
proof -
  obtain r where r: "strchr l CHR ''='' = Some r" "k = trim (before_chr l CHR ''='')" "v = trim (tl r)"
    using assms(1) by (auto simp: ini_parse_def split: option.splits)
  have b: "before_chr l CHR ''='' = takeWhile (\<lambda>x. x \<noteq> CHR ''='') l" "r = dropWhile (\<lambda>x. x \<noteq> CHR ''='') l"
    using r(1) by (induction l) (auto simp: before_chr_def split: if_splits)
  have k: "set k \<subseteq> set l" "CHR ''='' \<notin> set k"
    using set_trim [of "before_chr l CHR ''=''"] unfolding r(2) b(1) by (auto dest: set_takeWhileD)
  have v: "set v \<subseteq> set l"
  proof -
    have "set r \<subseteq> set l" unfolding b(2) by (auto dest: set_dropWhileD)
    moreover have "set (tl r) \<subseteq> set r" by (cases r) auto
    ultimately show ?thesis using set_trim [of "tl r"] by (auto simp: r(3))
  qed
  have "\<not> prefix ''['' k"
  proof (cases "before_chr l CHR ''='' = []")
    case True
    then show ?thesis by (simp add: r(2) trim_def)
  next
    case False
    then have "hd (before_chr l CHR ''='') = hd l" "l \<noteq> []" unfolding b(1) by (cases l; auto split: if_splits)+
    moreover from this have "\<not> c_isspace (hd l)" using assms(4) by (simp add: trimmed_def)
    ultimately show ?thesis using trim_hd [OF False] assms(3) by (cases k) (auto simp: r(2))
  qed
  then show ?thesis
    using k v assms(2,5) trimmed_trim r(2,3) by (auto simp: item_ok_def plain_def)
qed

lemma flagless_plain: "NL \<notin> set l \<Longrightarrow> plain (trim (takeWhile no_flag l))"
  using set_trim [of "takeWhile no_flag l"] by (fastforce simp: plain_def dest: set_takeWhileD)

lemma load_ok_comment: "load_ok st \<Longrightarrow> comment_ok c \<Longrightarrow> load_ok (st\<lparr>ls_comment := c\<rparr>)"
  by (cases "ls_section st") (simp_all add: load_ok_def)

lemma load_line_ok:
  assumes "load_line [''#'', '';''] raw st = Inr (Go st')" "load_ok st" "NL \<notin> set (trimright NL raw)"
  shows "load_ok st'"
proof -
  define line0 where "line0 = trim (trimright CR (trimright NL raw))"
  define line1 where "line1 = (if isComment [''#'', '';''] line0 then line0 else takeWhile no_flag line0)"
  define com where "com = ls_comment st @ drop (length line1) line0"
  define l where "l = trim line1"
  have t: "trimmed line0" "NL \<notin> set line0"
    using assms(3) set_trim [of "trimright CR (trimright NL raw)"] set_trimright [of CR "trimright NL raw"]
    unfolding line0_def by (auto simp: trimmed_trim)
  have st: "sections_ok (ls_sections st)" "comment_ok (ls_comment st)"
    "\<And>n. ls_section st = Some n \<Longrightarrow> map_find (ls_sections st) n \<noteq> None"
    using assms(2) by (auto simp: load_ok_def split: option.splits)
  have com: "comment_ok com"
  proof (cases "isComment [''#'', '';''] line0 \<or> dropWhile no_flag line0 = []")
    case False
    then have d: "drop (length line1) line0 = dropWhile no_flag line0" "dropWhile no_flag line0 \<noteq> []"
      by (simp_all add: line1_def drop_cut)
    have "\<not> no_flag (hd (dropWhile no_flag line0))" using d(2) by (rule hd_dropWhile)
    moreover have "last (dropWhile no_flag line0) = last line0"
      by (metis d(2) last_append takeWhile_dropWhile_id)
    moreover have "line0 \<noteq> []" using d(2) by auto
    ultimately show ?thesis
      using comment_tail [OF st(2) d(2)] t by (auto simp: com_def d(1) trimmed_def dest: set_dropWhileD)
  next
    case True
    then have "drop (length line1) line0 = []" by (auto simp: line1_def drop_cut simp del: drop_eq_Nil dropWhile_eq_Nil_conv)
    then show ?thesis by (simp add: com_def st(2) del: drop_eq_Nil)
  qed
  have p: "if isComment [''#'', '';''] l then l = line0 else plain l"
  proof (cases "isComment [''#'', '';''] line0")
    case True
    then show ?thesis by (simp add: l_def line1_def trim_trimmed t(1))
  next
    case False
    then have "plain l" using flagless_plain [OF t(2)] by (simp add: l_def line1_def)
    then show ?thesis by (cases l) (auto simp: is_comment_char plain_def)
  qed
  have lt: "trimmed l" by (simp add: l_def trimmed_trim)
  have e: "load_line [''#'', '';''] raw st =
    (if l = [] then Inr (Go (st\<lparr>ls_comment := com\<rparr>))
     else if hd l = CHR ''['' then
       if CHR '']'' \<notin> set l then Inr (GiveUp (st\<lparr>ls_section := None, ls_comment := com\<rparr>))
       else if before_chr (tl l) CHR '']'' = [] then Inr (Go (st\<lparr>ls_section := None, ls_comment := com\<rparr>))
       else if map_find (ls_sections st) (before_chr (tl l) CHR '']'') \<noteq> None then Inr (GiveUp (st\<lparr>ls_section := None, ls_comment := com\<rparr>))
       else Inr (Go (st\<lparr>ls_sections := map_put (before_chr (tl l) CHR '']'') (new_section (before_chr (tl l) CHR '']'') com) (ls_sections st),
              ls_section := Some (before_chr (tl l) CHR '']''), ls_comment := []\<rparr>))
     else if isComment [''#'', '';''] l then Inr (Go (st\<lparr>ls_comment := (if com = [] then l else com @ NL # l)\<rparr>))
     else case ini_parse l CHR ''='' of None \<Rightarrow> Inr (Go (st\<lparr>ls_comment := []\<rparr>))
          | Some (k, v) \<Rightarrow> (case ls_section st of None \<Rightarrow> Inl NullPointer
              | Some n \<Rightarrow> Inr (Go (st\<lparr>ls_sections := add_item n \<lparr>it_key = k, it_value = v, it_comment = com\<rparr> (ls_sections st), ls_comment := []\<rparr>))))"
    by (simp only: load_line_def Let_def cut_line line0_def line1_def com_def l_def)
  consider "l = []" | "l \<noteq> []" "hd l = CHR ''[''" | "l \<noteq> []" "isComment [''#'', '';''] l" "hd l \<noteq> CHR ''[''"
    | "l \<noteq> []" "hd l \<noteq> CHR ''[''" "\<not> isComment [''#'', '';''] l" by blast
  then show ?thesis
  proof cases
    case 1
    then have "st' = st\<lparr>ls_comment := com\<rparr>" using assms(1) by (simp add: e)
    then show ?thesis using assms(2) com by (simp add: load_ok_comment)
  next
    case 2
    define n where "n = before_chr (tl l) CHR '']''"
    have "plain l" using 2 p by (auto simp: is_comment_char split: if_splits)
    then have "plain n" "CHR '']'' \<notin> set n" using list.set_sel(2) [OF 2(1)]
      by (auto simp: n_def before_chr_def plain_def dest: set_takeWhileD)
    then have "n \<noteq> [] \<Longrightarrow> sections_ok (map_put n (new_section n com) (ls_sections st))"
      using com by (intro sections_put [OF st(1)]) (simp_all add: section_ok_def new_section_def)
    then show ?thesis
      using assms(1) st com 2 unfolding e n_def [symmetric]
      by (auto simp: load_ok_def map_find_put comment_ok_def [of "[]"] split: if_splits)
  next
    case 3
    have "comment_line l" using 3 p lt by (auto simp: is_comment_char comment_line_def trimmed_def)
    then have "comment_ok (if com = [] then l else com @ NL # l)" using com p 3(2) t(2) by (intro comment_add) auto
    then show ?thesis using assms(1,2) 3 load_ok_comment by (auto simp: e)
  next
    case 4
    then have "plain l" using p by simp
    then show ?thesis
      using assms(1) st 4 parsed_item [OF _ _ 4(2) lt com] sections_add [OF st(1)] add_item_found
      by (auto simp: e load_ok_def comment_ok_def [of "[]"] split: option.splits)
  qed
qed

lemma getline_no_NL: "NL \<notin> set (trimright NL (fst (ini_getline s)))"
proof -
  define l where "l = takeWhile (\<lambda>c. c \<noteq> NL) s"
  have n: "NL \<notin> set l" by (auto simp: l_def dest: set_takeWhileD)
  have "fst (ini_getline s) = l \<or> fst (ini_getline s) = l @ [NL]"
  proof (cases "drop (length l) s")
    case (Cons c r)
    then have "dropWhile (\<lambda>c. c \<noteq> NL) s = c # r" by (simp add: l_def drop_cut)
    then have "c = NL" using hd_dropWhile [of "\<lambda>c. c \<noteq> NL" s] by simp
    then show ?thesis using Cons by (simp add: ini_getline_def Let_def flip: l_def)
  qed (simp add: ini_getline_def Let_def flip: l_def)
  moreover have "NL \<notin> set (dropWhile (\<lambda>x. x = NL) (rev l))" using n set_dropWhileD by force
  ultimately show ?thesis by (auto simp: trimright_def)
qed

lemma load_lines_ok: "load_lines [''#'', '';''] s st = Inr (RET_OK, m) \<Longrightarrow> load_ok st \<Longrightarrow> sections_ok m"
proof (induction s arbitrary: st rule: measure_induct_rule [of length])
  case (less s)
  show ?case
  proof (cases "s = []")
    case True
    then show ?thesis using less.prems by (simp add: load_lines.simps load_ok_def)
  next
    case False
    have e: "load_lines [''#'', '';''] s st = res_bind (load_line [''#'', '';''] (fst (ini_getline s)) st) (\<lambda>r.
        case r of GiveUp st1 \<Rightarrow> Inr (RET_ERR, ls_sections st1) | Go st1 \<Rightarrow> load_lines [''#'', '';''] (snd (ini_getline s)) st1)"
      using False by (subst load_lines.simps) simp
    obtain x where x: "load_line [''#'', '';''] (fst (ini_getline s)) st = Inr x"
      using trans [OF e [symmetric] less.prems(1)] by (auto simp: res_bind_Inr_iff)
    obtain st1 where "x = Go st1" using less.prems(1) unfolding e x by (cases x) (auto simp: RET_OK_def RET_ERR_def)
    then have "load_line [''#'', '';''] (fst (ini_getline s)) st = Inr (Go st1)"
      "load_lines [''#'', '';''] (snd (ini_getline s)) st1 = Inr (RET_OK, m)"
      using less.prems(1) unfolding e x by simp_all
    then show ?thesis
      using less.IH [OF ini_getline_shorter [OF False]] load_line_ok [OF _ less.prems(2) getline_no_NL] by blast
  qed
qed

text \<open>What \<open>load\<close> makes of a text can be saved.\<close>

lemma ini_loaded:
  assumes "ini_load name (Some s) g = Inr (RET_OK, f)" "ini_flags g = [''#'', '';'']"
  shows "ini_ok f \<and> ini_fname f = name"
proof -
  let ?st = "\<lparr>ls_sections = map_put [] (new_section [] []) [], ls_section = Some [], ls_comment = []\<rparr>"
  have "load_ok ?st"
    by (simp add: load_ok_def sections_ok_def section_ok_def new_section_def map_find_Cons map_ok_Cons plain_def comment_ok_def)
  moreover obtain m where "load_lines [''#'', '';''] s ?st = Inr (RET_OK, m)" "f = g\<lparr>ini_fname := name, ini_sections := m\<rparr>"
    using assms by (auto simp: ini_load_def ini_release_def Let_def res_bind_Inr_iff)
  ultimately show ?thesis using load_lines_ok assms(2) by (auto simp: ini_ok_def sections_ok_def)
qed

section \<open>Setting values\<close>

lemma find_set_item:
  "find (\<lambda>i. it_key i = k') (set_item k v c is) =
     (if k' = k then Some \<lparr>it_key = k, it_value = v, it_comment = c\<rparr> else find (\<lambda>i. it_key i = k') is)"
  by (induction "is") auto

lemma set_item_ok: "list_all item_ok is \<Longrightarrow> item_ok \<lparr>it_key = k, it_value = v, it_comment = c\<rparr> \<Longrightarrow> list_all item_ok (set_item k v c is)"
  by (induction "is") (auto simp: item_ok_def)

lemma setValue_get:
  assumes "setValue n k v c f = Inr (r, g)"
  shows "getValue n' k' g =
    (if n' = n \<and> k' = k then (RET_OK, v, if c = [] then [] else hd (ini_flags f) @ c) else getValue n' k' f)"
proof -
  define t where "t = (case getSection n f of None \<Rightarrow> new_section n [] | Some s \<Rightarrow> s)"
  define comt where "comt = (if c = [] then [] else hd (ini_flags f) @ c)"
  have g: "g = f\<lparr>ini_sections := map_put n (t\<lparr>is_items := set_item k v comt (is_items t)\<rparr>) (ini_sections f)\<rparr>"
    using assms unfolding setValue_def t_def [symmetric] comt_def [symmetric] Let_def by (simp split: if_splits)
  have t: "getValue n k' f = (case find_item k' t of None \<Rightarrow> (RET_ERR, [], []) | Some i \<Rightarrow> (RET_OK, it_value i, it_comment i))" for k'
    by (cases "getSection n f") (simp_all add: getValue_def t_def find_item_def new_section_def)
  have h: "getSection n' g = (if n' = n then Some (t\<lparr>is_items := set_item k v comt (is_items t)\<rparr>) else getSection n' f)"
    by (simp add: getSection_def g map_find_put)
  show ?thesis
  proof (cases "n' = n")
    case True
    have "getValue n k' g = (case find (\<lambda>i. it_key i = k') (set_item k v comt (is_items t)) of
        None \<Rightarrow> (RET_ERR, [], []) | Some i \<Rightarrow> (RET_OK, it_value i, it_comment i))"
      using h by (simp add: getValue_def find_item_def True)
    then show ?thesis using t [of k'] by (simp add: True find_item_def find_set_item comt_def)
  next
    case False
    then show ?thesis by (simp add: getValue_def h)
  qed
qed

lemma setValue_ok:
  assumes "setValue n k v c f = Inr (r, g)" "ini_ok f" "plain n" "CHR '']'' \<notin> set n"
    "item_ok \<lparr>it_key = k, it_value = v, it_comment = (if c = [] then [] else CHR ''#'' # c)\<rparr>"
  shows "ini_ok g"
proof -
  define s where "s = (case getSection n f of None \<Rightarrow> new_section n [] | Some s \<Rightarrow> s)"
  have ok: "sections_ok (ini_sections f)" "ini_flags f = [''#'', '';'']" using assms(2) by (simp_all add: ini_ok_def sections_ok_def)
  have "section_ok (n, s) \<and> (n = [] \<longrightarrow> is_comment s = [])"
  proof (cases "getSection n f")
    case None
    then have "s = new_section n []" by (simp add: s_def)
    then show ?thesis using assms(3,4) by (simp add: section_ok_def new_section_def comment_ok_def)
  next
    case (Some t)
    then show ?thesis using sections_find [OF ok(1), of n t] ok(1) by (auto simp: s_def getSection_def sections_ok_def)
  qed
  then have "sections_ok (map_put n (s\<lparr>is_items := set_item k v (if c = [] then [] else CHR ''#'' # c) (is_items s)\<rparr>) (ini_sections f))"
    using set_item_ok [OF _ assms(5)] by (intro sections_put [OF ok(1)]) (auto simp: section_ok_def)
  then show ?thesis
    using assms(1) ok(2) by (auto simp: setValue_def ini_ok_def sections_ok_def Let_def simp flip: s_def)
qed

text \<open>The values of a file, without comments, keep the contract of a configuration.\<close>

definition value_of :: "ini_file \<Rightarrow> string \<Rightarrow> string \<Rightarrow> string option" where
  "value_of f n k = (case getValue n k f of (r, v, c) \<Rightarrow> if r = RET_OK then Some v else None)"

definition set_value :: "string \<Rightarrow> string \<Rightarrow> string \<Rightarrow> ini_file \<Rightarrow> ini_file" where
  "set_value n k v f = (case setValue n k v [] f of Inl e \<Rightarrow> f | Inr (r, g) \<Rightarrow> g)"

definition value_fits :: "string \<Rightarrow> string \<Rightarrow> string \<Rightarrow> bool" where
  "value_fits n k v \<longleftrightarrow> plain n \<and> CHR '']'' \<notin> set n \<and> item_ok \<lparr>it_key = k, it_value = v, it_comment = []\<rparr>"

interpretation ini: config_store value_of set_value ini_ok value_fits "\<lambda>_ _. True" "(=)"
proof
  fix f :: ini_file and n k v n' k'
  assume "ini_ok f" "value_fits n k v"
  obtain g where g: "setValue n k v [] f = Inr (RET_OK, g)" by (auto simp: setValue_def Let_def)
  then have p: "set_value n k v f = g" by (simp add: set_value_def)
  show "value_of (set_value n k v f) n' k' = (if n = n' \<and> k = k' then Some v else value_of f n' k')"
    using setValue_get [OF g, of n' k'] by (auto simp: p value_of_def)
  show "ini_ok (set_value n k v f)"
    using setValue_ok [OF g \<open>ini_ok f\<close>] \<open>value_fits n k v\<close> by (simp add: p value_fits_def)
qed

section \<open>Properties\<close>

text \<open>
  C35. Load and save are inverse to each other on what was loaded: when \<open>load\<close> reads a text to its end
  (any text: with comments behind a value, blank lines, lines that are no assignment), saving the file and
  loading what was saved succeeds again and gives the same sections, items and comments.
\<close>

theorem ini_reload:
  assumes "ini_load name (Some s) new_ini = Inr (RET_OK, f)"
  shows "ini_load name (Some (saveas f)) new_ini = Inr (RET_OK, f)"
proof -
  have n: "ini_flags new_ini = [''#'', '';'']" by (simp add: new_ini_def)
  show ?thesis
    using ini_loaded [OF assms n] ini_saved [OF _ n, of f name] by simp
qed

theorem ini_reload_witness:
  "\<exists>f. ini_load ''a'' (Some (''# n'' @ [NL] @ '' [S] ;x'' @ [NL, NL] @ ''k = v w # c'' @ [CR, NL] @ ''junk'')) new_ini = Inr (RET_OK, f) \<and>
     saveas f = ''# n;x'' @ [NL] @ ''[S]'' @ [NL] @ ''# c'' @ [NL] @ ''k=v w'' @ [NL] \<and>
     ini_load ''a'' (Some (saveas f)) new_ini = Inr (RET_OK, f)"
proof -
  let ?s = "''# n'' @ [NL] @ '' [S] ;x'' @ [NL, NL] @ ''k = v w # c'' @ [CR, NL] @ ''junk''"
  let ?f = "\<lparr>ini_sections = [([], new_section [] []),
      (''S'', \<lparr>is_name = ''S'', is_comment = ''# n;x'', is_items = [\<lparr>it_key = ''k'', it_value = ''v w'', it_comment = ''# c''\<rparr>]\<rparr>)],
    ini_fname = ''a'', ini_flags = [''#'', '';'']\<rparr>"
  have l: "ini_load ''a'' (Some ?s) new_ini = Inr (RET_OK, ?f)" by code_simp
  show ?thesis using l ini_reload [OF l] by (intro exI [of _ ?f]) (simp add: saveas_def section_text_def item_text_def new_section_def)
qed

text \<open>
  A value that is set is there after the file is saved and loaded again, with its comment behind a
  \<^verbatim>\<open>#\<close>, and every other value, of the same section or another, is what it was; the section is made when the
  file has none. The name, the key and the value must fit on their line and hold no comment flag.
\<close>

theorem ini_set_saved:
  assumes "ini_load name (Some s) new_ini = Inr (RET_OK, f)"
    and "plain n" "CHR '']'' \<notin> set n"
    and "item_ok \<lparr>it_key = k, it_value = v, it_comment = (if c = [] then [] else CHR ''#'' # c)\<rparr>"
  shows "\<exists>g h. setValue n k v c f = Inr (RET_OK, g) \<and> ini_load name (Some (saveas g)) new_ini = Inr (RET_OK, h) \<and>
    getValue n k h = (RET_OK, v, if c = [] then [] else CHR ''#'' # c) \<and>
    (\<forall>n' k'. (n', k') \<noteq> (n, k) \<longrightarrow> getValue n' k' h = getValue n' k' f)"
proof -
  have n: "ini_flags new_ini = [''#'', '';'']" by (simp add: new_ini_def)
  have f: "ini_ok f" using ini_loaded [OF assms(1) n] by simp
  then have fl: "ini_flags f = [''#'', '';'']" by (simp add: ini_ok_def)
  then obtain g where g: "setValue n k v c f = Inr (RET_OK, g)" by (auto simp: setValue_def Let_def)
  let ?h = "g\<lparr>ini_fname := name\<rparr>"
  have "getValue n' k' ?h = getValue n' k' g" for n' k' by (simp add: getValue_def getSection_def)
  then show ?thesis
    using g setValue_get [OF g] fl ini_saved [OF setValue_ok [OF g f assms(2-4)] n, of name]
    by (intro exI [of _ g] exI [of _ ?h]) auto
qed

theorem ini_set_saved_witness:
  "\<exists>f g h. ini_load ''a'' (Some (''[S]'' @ [NL] @ ''k=1'')) new_ini = Inr (RET_OK, f) \<and>
     setValue ''T'' ''k'' ''2'' ''new'' f = Inr (RET_OK, g) \<and>
     ini_load ''a'' (Some (saveas g)) new_ini = Inr (RET_OK, h) \<and>
     getValue ''T'' ''k'' h = (RET_OK, ''2'', ''#new'') \<and> getValue ''S'' ''k'' h = (RET_OK, ''1'', [])"
proof -
  let ?f = "\<lparr>ini_sections = [([], new_section [] []),
      (''S'', \<lparr>is_name = ''S'', is_comment = [], is_items = [\<lparr>it_key = ''k'', it_value = ''1'', it_comment = []\<rparr>]\<rparr>)],
    ini_fname = ''a'', ini_flags = [''#'', '';'']\<rparr>"
  have l: "ini_load ''a'' (Some (''[S]'' @ [NL] @ ''k=1'')) new_ini = Inr (RET_OK, ?f)" by code_simp
  have i: "plain ''T''" "CHR '']'' \<notin> set ''T''" "item_ok \<lparr>it_key = ''k'', it_value = ''2'', it_comment = (if ''new'' = [] then [] else CHR ''#'' # ''new'')\<rparr>"
    by code_simp+
  have v: "getValue ''S'' ''k'' ?f = (RET_OK, ''1'', [])" by code_simp
  show ?thesis using ini_set_saved [OF l i] l v by fastforce
qed

section \<open>What the code does not expect\<close>

text \<open>An assignment after a section line without name is put into the null section.\<close>

lemma ini_null_section: "ini_load ''a'' (Some (''[]'' @ [NL] @ ''k=v'')) new_ini = Inl NullPointer"
  by code_simp

text \<open>A password with a \<^verbatim>\<open>#\<close> or a \<^verbatim>\<open>;\<close> in it is cut there.\<close>

lemma ini_value_cut:
  "res_bind (ini_load ''a'' (Some ''PSSWD=pass#1'') new_ini) (\<lambda>(r, f). Inr (getStringValue [] ''PSSWD'' f)) = Inr (''pass'', RET_OK)"
  by code_simp

text \<open>Without \<open>serverip\<close> the prefix of the file is lost.\<close>

lemma config_prefix_lost:
  assumes "ini_load ''Service.ini'' (Some s) new_ini = Inr (RET_OK, f)" "\<not> hasKey ''TXBETA'' ''serverip'' f"
    "loadConfigini (Some s) cfg = Inr cfg'"
  shows "m_prefix cfg' = ''88'' \<and> m_ServerIP cfg' = []"
proof -
  have "getValue ''TXBETA'' ''serverip'' f = (RET_ERR, [], [])"
    using assms(2) by (auto simp: getValue_def hasKey_def find_item_def list_ex_iff split: option.splits dest: find_SomeD)
  then have "getStringValue ''TXBETA'' ''serverip'' f = ([], RET_ERR)" by (simp add: getStringValue_def)
  then show ?thesis using assms(3) by (auto simp: loadConfigini_def assms(1) RET_OK_def RET_ERR_def Let_def)
qed

end
