(* ===== verification/DbPool.thy ===== *)
theory DbPool
  imports DbOperator IniFile
begin

text \<open>
  The pool of the database connections (\<^verbatim>\<open>database/dbPool.cpp\<close>), its start from \<^verbatim>\<open>database.conf\<close>
  (\<^verbatim>\<open>db_operator_t::initDatabase\<close>) and the way every query of \<^verbatim>\<open>common/DBOperator.cpp\<close> takes a connection
  from it and puts it back. A connection is its address. The connector is a parameter: what
  \<open>driver->connect\<close> answers to each call (\<open>None\<close> for an exception, which \<open>CreateConnection\<close> turns into the
  null pointer) and which connections \<open>isClosed\<close>. Every operation runs under the lock of the pool from its
  start to its end, so it is one step.
\<close>

section \<open>The operations\<close>

type_synonym conn = nat

record db_pool =
  p_user :: string
  p_password :: string
  p_url :: string
  p_maxSize :: int
  p_curSize :: int
  p_connList :: "conn list"

definition new_pool :: db_pool where
  "new_pool = \<lparr>p_user = [], p_password = [], p_url = [], p_maxSize = 0, p_curSize = 0, p_connList = []\<rparr>"

text \<open>\<open>connect url user password\<close> is the answer of the driver to the call.\<close>

type_synonym driver = "string \<Rightarrow> string \<Rightarrow> string \<Rightarrow> conn option"

definition CreateConnection :: "driver \<Rightarrow> db_pool \<Rightarrow> conn option" where
  "CreateConnection connect p = connect (''tcp://'' @ p_url p) (p_user p) (p_password p)"

definition add_connection :: "driver \<Rightarrow> db_pool \<Rightarrow> db_pool" where
  "add_connection connect p =
     (case CreateConnection connect p of
        Some c \<Rightarrow> p\<lparr>p_connList := p_connList p @ [c], p_curSize := p_curSize p + 1\<rparr>
      | None \<Rightarrow> p)"

text \<open>\<open>connects i\<close> is the driver at the call \<open>i\<close> of the loop.\<close>

definition InitConnection :: "int \<Rightarrow> (nat \<Rightarrow> driver) \<Rightarrow> db_pool \<Rightarrow> db_pool" where
  "InitConnection initSize connects p = fold (\<lambda>i. add_connection (connects i)) [0..<nat initSize] p"

definition half :: "int \<Rightarrow> int" where
  "half n = (if n < 0 then - ((- n) div 2) else n div 2)"

definition initPool :: "string \<Rightarrow> string \<Rightarrow> string \<Rightarrow> int \<Rightarrow> (nat \<Rightarrow> driver) \<Rightarrow> db_pool \<Rightarrow> db_pool" where
  "initPool url user password maxSize connects p =
     InitConnection (half maxSize) connects
       (p\<lparr>p_user := user, p_password := password, p_url := url, p_maxSize := maxSize, p_curSize := 0\<rparr>)"

definition GetConnection :: "(conn \<Rightarrow> bool) \<Rightarrow> driver \<Rightarrow> db_pool \<Rightarrow> conn option \<times> db_pool" where
  "GetConnection isClosed connect p =
     (case p_connList p of
        c # cs \<Rightarrow>
          (let p1 = p\<lparr>p_connList := cs\<rparr>;
               conn = (if isClosed c then CreateConnection connect p1 else Some c)
           in (conn, if conn = None then p1\<lparr>p_curSize := p_curSize p1 - 1\<rparr> else p1))
      | [] \<Rightarrow>
          if p_curSize p < p_maxSize p then
            (case CreateConnection connect p of
               Some c \<Rightarrow> (Some c, p\<lparr>p_curSize := p_curSize p + 1\<rparr>)
             | None \<Rightarrow> (None, p))
          else (None, p))"

definition ReleaseConnection :: "conn option \<Rightarrow> db_pool \<Rightarrow> db_pool" where
  "ReleaseConnection conn p = (case conn of None \<Rightarrow> p | Some c \<Rightarrow> p\<lparr>p_connList := p_connList p @ [c]\<rparr>)"

text \<open>The first component are the connections that are closed and deleted.\<close>

definition DestoryConnPool :: "db_pool \<Rightarrow> conn list \<times> db_pool" where
  "DestoryConnPool p = (p_connList p, p\<lparr>p_curSize := 0, p_connList := []\<rparr>)"

text \<open>\<open>initDatabase\<close>: a file that cannot be read or a value that is missing leaves the text empty.\<close>

definition initDatabase :: "string option \<Rightarrow> (nat \<Rightarrow> driver) \<Rightarrow> db_pool \<Rightarrow> (bool \<times> db_pool) c_result" where
  "initDatabase content connects p =
     res_bind (ini_load ''database.conf'' content new_ini) (\<lambda>(r, f).
     let get = (\<lambda>key. fst (getStringValue ''database'' key f))
     in Inr (True, initPool (get ''servername'') (get ''username'') (get ''password'') 20 connects p))"

text \<open>
  How each function of \<^verbatim>\<open>DBOperator.cpp\<close> runs its query: on the connection the pool gives it, which it
  puts back at the end. \<open>exec c\<close> is the database behind the connection \<open>c\<close>. A fault ends the program.
\<close>

definition pooled_query ::
    "(conn \<Rightarrow> bool) \<Rightarrow> driver \<Rightarrow> (conn \<Rightarrow> db) \<Rightarrow> (db \<Rightarrow> 'a c_result) \<Rightarrow> db_pool \<Rightarrow> ('a \<times> db_pool) c_result" where
  "pooled_query isClosed connect exec q p =
     (case GetConnection isClosed connect p of (conn, p1) \<Rightarrow>
        res_bind (q (case conn of None \<Rightarrow> (\<lambda>_. NoConnection) | Some c \<Rightarrow> exec c)) (\<lambda>a.
        Inr (a, ReleaseConnection conn p1)))"

section \<open>The contract of a pool\<close>

text \<open>
  What the users of a pool rely on: \<open>take\<close> gives a resource or none, \<open>give\<close> puts it behind the free ones,
  \<open>total\<close> counts the free ones and those in use and stays at most \<open>cap\<close>.
\<close>

locale resource_pool =
  fixes take_one :: "'e \<Rightarrow> 's \<Rightarrow> 'r option \<times> 's"
    and give :: "'r \<Rightarrow> 's \<Rightarrow> 's"
    and free :: "'s \<Rightarrow> 'r list"
    and total :: "'s \<Rightarrow> int"
    and cap :: "'s \<Rightarrow> int"
  assumes take_used: "take_one e s = (r, s') \<Longrightarrow>
      total s' - int (length (free s')) = total s - int (length (free s)) + (if r = None then 0 else 1)"
    and take_cap: "take_one e s = (r, s') \<Longrightarrow> cap s' = cap s \<and> (total s \<le> cap s \<longrightarrow> total s' \<le> cap s)"
    and give_free: "free (give x s) = free s @ [x]"
    and give_total: "total (give x s) = total s \<and> cap (give x s) = cap s"
begin

definition in_use :: "'s \<Rightarrow> int" where
  "in_use s = total s - int (length (free s))"

definition bracket :: "'e \<Rightarrow> 's \<Rightarrow> 's" where
  "bracket e s = (case take_one e s of (None, s') \<Rightarrow> s' | (Some r, s') \<Rightarrow> give r s')"

lemma bracket_in_use: "in_use (bracket e s) = in_use s"
proof -
  obtain r s' where t: "take_one e s = (r, s')" by (cases "take_one e s")
  show ?thesis using take_used [OF t] by (cases r) (simp_all add: bracket_def t in_use_def give_free give_total)
qed

lemma bracket_cap: "cap (bracket e s) = cap s \<and> (total s \<le> cap s \<longrightarrow> total (bracket e s) \<le> cap s)"
proof -
  obtain r s' where t: "take_one e s = (r, s')" by (cases "take_one e s")
  show ?thesis using take_cap [OF t] by (cases r) (simp_all add: bracket_def t give_total)
qed

lemma brackets_keep:
  "in_use (fold bracket es s) = in_use s \<and> cap (fold bracket es s) = cap s \<and>
   (total s \<le> cap s \<longrightarrow> total (fold bracket es s) \<le> cap s)"
proof (induction es arbitrary: s)
  case (Cons e es)
  show ?case using Cons.IH [of "bracket e s"] bracket_in_use [of e s] bracket_cap [of e s] by auto
qed simp

end

text \<open>\<open>GetConnection\<close> and \<open>ReleaseConnection\<close> keep it.\<close>

lemma GetConnection_cases:
  assumes "GetConnection isClosed connect p = (r, q)"
  obtains (Reused) c cs where "p_connList p = c # cs" "\<not> isClosed c" "r = Some c" "q = p\<lparr>p_connList := cs\<rparr>"
    | (Reconnected) c cs d where "p_connList p = c # cs" "isClosed c" "CreateConnection connect p = Some d" "r = Some d"
        "q = p\<lparr>p_connList := cs\<rparr>"
    | (Lost) c cs where "p_connList p = c # cs" "isClosed c" "CreateConnection connect p = None" "r = None"
        "q = p\<lparr>p_connList := cs, p_curSize := p_curSize p - 1\<rparr>"
    | (Opened) d where "p_connList p = []" "p_curSize p < p_maxSize p" "CreateConnection connect p = Some d" "r = Some d"
        "q = p\<lparr>p_curSize := p_curSize p + 1\<rparr>"
    | (Refused) "p_connList p = []" "r = None" "q = p" "p_curSize p < p_maxSize p \<longrightarrow> CreateConnection connect p = None"
proof -
  have c: "CreateConnection connect (p\<lparr>p_connList := cs\<rparr>) = CreateConnection connect p" for cs
    by (simp add: CreateConnection_def)
  show thesis
  proof (cases "p_connList p")
    case Nil
    then show thesis using assms Opened Refused
      by (cases "CreateConnection connect p") (auto simp: GetConnection_def split: if_splits)
  next
    case (Cons x xs)
    note g = assms [unfolded GetConnection_def Cons list.case Let_def c]
    show thesis
    proof (cases "isClosed x")
      case False
      then show thesis using g Reused [OF Cons] by simp
    next
      case True
      show thesis
      proof (cases "CreateConnection connect p")
        case None
        then show thesis using g Lost [OF Cons True None] True by simp
      next
        case (Some d)
        then show thesis using g Reconnected [OF Cons True Some] True by simp
      qed
    qed
  qed
qed

interpretation pool: resource_pool "\<lambda>(isClosed, connect). GetConnection isClosed connect"
  "\<lambda>c. ReleaseConnection (Some c)" p_connList p_curSize p_maxSize
proof
  fix e p r q
  assume a: "(case e of (isClosed, connect) \<Rightarrow> GetConnection isClosed connect) p = (r, q)"
  obtain isClosed connect where "e = (isClosed, connect)" by (cases e)
  with a have g: "GetConnection isClosed connect p = (r, q)" by simp
  show "p_curSize q - int (length (p_connList q)) = p_curSize p - int (length (p_connList p)) + (if r = None then 0 else 1)"
    using g by (cases rule: GetConnection_cases) auto
  show "p_maxSize q = p_maxSize p \<and> (p_curSize p \<le> p_maxSize p \<longrightarrow> p_curSize q \<le> p_maxSize p)"
    using g by (cases rule: GetConnection_cases) auto
qed (simp_all add: ReleaseConnection_def)

section \<open>The pool and its users\<close>

text \<open>
  The pool with the connections that are handed out, under the calls of its users. The driver never answers
  with a connection that is alive: the pool's or a user's (one that was deleted may come again).
\<close>

record pool_users =
  pu_pool :: db_pool
  pu_out :: "conn list"

inductive pool_step :: "pool_users \<Rightarrow> pool_users \<Rightarrow> bool" where
  take_connection:
    "GetConnection isClosed connect (pu_pool s) = (r, q) \<Longrightarrow>
     (\<forall>d. CreateConnection connect (pu_pool s) = Some d \<longrightarrow> d \<notin> set (tl (p_connList (pu_pool s))) \<union> set (pu_out s)) \<Longrightarrow>
     pool_step s \<lparr>pu_pool = q, pu_out = (case r of None \<Rightarrow> pu_out s | Some c \<Rightarrow> c # pu_out s)\<rparr>"
| put_back:
    "c \<in> set (pu_out s) \<Longrightarrow>
     pool_step s \<lparr>pu_pool = ReleaseConnection (Some c) (pu_pool s), pu_out = remove1 c (pu_out s)\<rparr>"
| put_back_null:
    "pool_step s (s\<lparr>pu_pool := ReleaseConnection None (pu_pool s)\<rparr>)"

text \<open>The start: the driver opens different connections.\<close>

definition opened :: "(nat \<Rightarrow> driver) \<Rightarrow> db_pool \<Rightarrow> nat \<Rightarrow> conn list" where
  "opened connects p n = concat (map (\<lambda>i. case CreateConnection (connects i) p of None \<Rightarrow> [] | Some c \<Rightarrow> [c]) [0..<n])"

inductive pool_reachable :: "int \<Rightarrow> pool_users \<Rightarrow> bool" for maxSize where
  started: "p = initPool url user password maxSize connects new_pool \<Longrightarrow>
     distinct (opened connects (new_pool\<lparr>p_user := user, p_password := password, p_url := url\<rparr>) (nat (half maxSize))) \<Longrightarrow>
     0 \<le> maxSize \<Longrightarrow> pool_reachable maxSize \<lparr>pu_pool = p, pu_out = []\<rparr>"
| stepped: "pool_reachable maxSize s \<Longrightarrow> pool_step s t \<Longrightarrow> pool_reachable maxSize t"

lemma CreateConnection_cong:
  "p_url q = p_url p \<Longrightarrow> p_user q = p_user p \<Longrightarrow> p_password q = p_password p \<Longrightarrow> CreateConnection connect q = CreateConnection connect p"
  by (simp add: CreateConnection_def)

lemma InitConnection_list:
  "fold (\<lambda>i. add_connection (connects i)) [0..<n] p =
   p\<lparr>p_connList := p_connList p @ opened connects p n, p_curSize := p_curSize p + int (length (opened connects p n))\<rparr>"
proof (induction n)
  case (Suc n)
  have c: "CreateConnection (connects n) (p\<lparr>p_connList := l, p_curSize := z\<rparr>) = CreateConnection (connects n) p" for l z
    by (rule CreateConnection_cong) simp_all
  show ?case using Suc.IH by (simp add: add_connection_def c opened_def split: option.split)
qed (simp add: opened_def)

lemma opened_length: "length (opened connects p n) \<le> n"
  by (induction n) (auto simp: opened_def split: option.split)

definition pool_inv :: "int \<Rightarrow> pool_users \<Rightarrow> bool" where
  "pool_inv maxSize s \<longleftrightarrow>
     p_maxSize (pu_pool s) = maxSize \<and> p_curSize (pu_pool s) \<le> maxSize \<and>
     p_curSize (pu_pool s) = int (length (p_connList (pu_pool s)) + length (pu_out s)) \<and>
     distinct (p_connList (pu_pool s) @ pu_out s)"

lemma pool_inv_started:
  assumes "distinct (opened connects (new_pool\<lparr>p_user := user, p_password := password, p_url := url\<rparr>) (nat (half maxSize)))" "0 \<le> maxSize"
  shows "pool_inv maxSize \<lparr>pu_pool = initPool url user password maxSize connects new_pool, pu_out = []\<rparr>"
proof -
  let ?p = "new_pool\<lparr>p_user := user, p_password := password, p_url := url, p_maxSize := maxSize, p_curSize := 0\<rparr>"
  let ?n = "nat (half maxSize)"
  have o: "opened connects ?p ?n = opened connects (new_pool\<lparr>p_user := user, p_password := password, p_url := url\<rparr>) ?n"
    by (simp add: opened_def CreateConnection_def)
  have "int (length (opened connects ?p ?n)) \<le> maxSize"
    using opened_length [of connects ?p ?n] assms(2) by (simp add: half_def)
  then show ?thesis
    using assms(1) unfolding o [symmetric]
    by (simp add: pool_inv_def initPool_def InitConnection_def InitConnection_list new_pool_def)
qed

lemma pool_inv_step: "pool_step s t \<Longrightarrow> pool_inv maxSize s \<Longrightarrow> pool_inv maxSize t"
proof (induction rule: pool_step.induct)
  case (take_connection isClosed connect s r q)
  from take_connection(1) show ?case
    using take_connection(2,3) by (cases rule: GetConnection_cases) (auto simp: pool_inv_def)
next
  case (put_back c s)
  then have "length (pu_out s) = Suc (length (remove1 c (pu_out s)))"
    using length_pos_if_in_set [of c "pu_out s"] by (simp add: length_remove1)
  then show ?case
    using put_back by (auto simp: pool_inv_def ReleaseConnection_def dest: notin_set_remove1)
next
  case (put_back_null s)
  then show ?case by (simp add: pool_inv_def ReleaseConnection_def)
qed

lemma pool_reachable_inv: "pool_reachable maxSize s \<Longrightarrow> pool_inv maxSize s"
  by (induction rule: pool_reachable.induct) (auto simp: pool_inv_started intro: pool_inv_step)

lemma pooled_query_bracket:
  assumes "pooled_query isClosed connect exec q p = Inr (a, p')"
  shows "p' = pool.bracket (isClosed, connect) p"
proof -
  obtain r p1 where g: "GetConnection isClosed connect p = (r, p1)" by (cases "GetConnection isClosed connect p")
  show ?thesis using assms
    by (cases r) (auto simp: pooled_query_def pool.bracket_def g res_bind_Inr_iff ReleaseConnection_def)
qed

section \<open>Properties\<close>

text \<open>
  C33. Whatever its users do, the pool never has more connections than \<open>maxSize\<close>, free and handed out together,
  counts them exactly in \<open>curSize\<close>, and never gives one connection to two users. It refuses a connection only
  when the driver could not open one or all of the \<open>maxSize\<close> connections are handed out.
\<close>

theorem pool_bounded:
  assumes "pool_reachable maxSize s"
  shows "int (length (p_connList (pu_pool s)) + length (pu_out s)) \<le> maxSize \<and>
    p_curSize (pu_pool s) = int (length (p_connList (pu_pool s)) + length (pu_out s)) \<and>
    distinct (p_connList (pu_pool s) @ pu_out s) \<and>
    (fst (GetConnection isClosed connect (pu_pool s)) = None \<longrightarrow>
      CreateConnection connect (pu_pool s) = None \<or> int (length (pu_out s)) = maxSize)"
proof -
  have inv: "pool_inv maxSize s" using assms by (rule pool_reachable_inv)
  obtain r q where g: "GetConnection isClosed connect (pu_pool s) = (r, q)" by (cases "GetConnection isClosed connect (pu_pool s)")
  then have "r = None \<longrightarrow> CreateConnection connect (pu_pool s) = None \<or> int (length (pu_out s)) = maxSize"
    using inv by (cases rule: GetConnection_cases) (auto simp: pool_inv_def)
  moreover have "fst (GetConnection isClosed connect (pu_pool s)) = r" by (simp add: g)
  ultimately show ?thesis using inv by (simp add: pool_inv_def)
qed

text \<open>A pool for two connections, one open, and two users; the third is refused.\<close>

theorem pool_bounded_witness:
  "\<exists>s. pool_reachable 2 s \<and> pu_out s = [8, 7] \<and> p_curSize (pu_pool s) = 2 \<and>
     fst (GetConnection (\<lambda>_. False) (\<lambda>_ _ _. Some 9) (pu_pool s)) = None \<and>
     int (length (p_connList (pu_pool s)) + length (pu_out s)) \<le> 2"
proof -
  let ?p = "initPool ''h'' ''u'' ''p'' 2 (\<lambda>i _ _ _. Some (i + 7)) new_pool"
  let ?q = "snd (GetConnection (\<lambda>_. False) (\<lambda>_ _ _. Some 8) ?p)"
  let ?r = "snd (GetConnection (\<lambda>_. False) (\<lambda>_ _ _. Some 8) ?q)"
  note evals = initPool_def InitConnection_def half_def add_connection_def CreateConnection_def new_pool_def GetConnection_def opened_def
  have "pool_reachable 2 \<lparr>pu_pool = ?p, pu_out = []\<rparr>"
    by (rule started [OF refl]) (simp_all add: evals)
  moreover have "pool_step \<lparr>pu_pool = ?p, pu_out = []\<rparr> \<lparr>pu_pool = ?q, pu_out = [7]\<rparr>"
    using take_connection [of "\<lambda>_. False" "\<lambda>_ _ _. Some 8" "\<lparr>pu_pool = ?p, pu_out = []\<rparr>" "Some 7" ?q] by (simp add: evals)
  moreover have "pool_step \<lparr>pu_pool = ?q, pu_out = [7]\<rparr> \<lparr>pu_pool = ?r, pu_out = [8, 7]\<rparr>"
    using take_connection [of "\<lambda>_. False" "\<lambda>_ _ _. Some 8" "\<lparr>pu_pool = ?q, pu_out = [7]\<rparr>" "Some 8" ?r] by (simp add: evals)
  ultimately have "pool_reachable 2 \<lparr>pu_pool = ?r, pu_out = [8, 7]\<rparr>" by (blast intro: stepped)
  note r = this pool_bounded [OF this]
  show ?thesis by (rule exI [of _ "\<lparr>pu_pool = ?r, pu_out = [8, 7]\<rparr>"]) (use r in \<open>simp add: evals\<close>)
qed

text \<open>
  However many queries the server runs one after the other, and however often the connections break in
  between: as many connections are in use behind them as in front of them, and the pool is not larger than
  it may be. A query that finds no connection is no exception: it ends the program.
\<close>

fun run_queries :: "((conn \<Rightarrow> bool) \<times> driver) list \<Rightarrow> (conn \<Rightarrow> db) \<Rightarrow> (db \<Rightarrow> 'a c_result) list \<Rightarrow> db_pool \<Rightarrow> ('a list \<times> db_pool) c_result" where
  "run_queries (e # es) exec (q # qs) p =
     res_bind (pooled_query (fst e) (snd e) exec q p) (\<lambda>(a, p1).
     res_bind (run_queries es exec qs p1) (\<lambda>(as, p2). Inr (a # as, p2)))"
| "run_queries es exec qs p = Inr ([], p)"

lemma run_queries_brackets:
  "run_queries es exec qs p = Inr (as, p') \<Longrightarrow> \<exists>es'. p' = fold pool.bracket es' p"
proof (induction es exec qs p arbitrary: as p' rule: run_queries.induct)
  case (1 e es exec q qs p)
  then obtain a p1 bs where s: "pooled_query (fst e) (snd e) exec q p = Inr (a, p1)" "run_queries es exec qs p1 = Inr (bs, p')"
    by (auto simp: res_bind_Inr_iff)
  then obtain es' where "p' = fold pool.bracket es' p1" using "1.IH" by blast
  then show ?case using pooled_query_bracket [OF s(1)] by (intro exI [of _ "e # es'"]) simp
qed (auto intro: exI [of _ "[]"])

theorem queries_return_connections:
  assumes "run_queries es exec qs p = Inr (as, p')" "p_curSize p \<le> p_maxSize p"
  shows "p_curSize p' - int (length (p_connList p')) = p_curSize p - int (length (p_connList p)) \<and>
    p_curSize p' \<le> p_maxSize p' \<and> p_maxSize p' = p_maxSize p"
proof -
  obtain es' where "p' = fold pool.bracket es' p" using run_queries_brackets [OF assms(1)] ..
  then show ?thesis using pool.brackets_keep [of es' p] assms(2) by (simp add: pool.in_use_def)
qed

text \<open>Two queries; the first finds its connection closed and gets a new one.\<close>

theorem queries_return_connections_witness:
  "\<exists>p'. run_queries [(\<lambda>c. c = 7, \<lambda>_ _ _. Some 9), (\<lambda>_. False, \<lambda>_ _ _. None)] (\<lambda>c _. Rows [] (c = 9))
       [\<lambda>db. GetDNchooserule db [], \<lambda>db. GetDNchooserule db []]
       \<lparr>p_user = [], p_password = [], p_url = [], p_maxSize = 2, p_curSize = 2, p_connList = [7, 8]\<rparr>
     = Inr ([([], False), ([], True)], p') \<and> p_connList p' = [9, 8] \<and> p_curSize p' - 2 = 2 - 2"
proof -
  let ?p = "\<lparr>p_user = [], p_password = [], p_url = [], p_maxSize = 2, p_curSize = 2, p_connList = [7, 8 :: conn]\<rparr>"
  let ?q = "\<lparr>p_user = [], p_password = [], p_url = [], p_maxSize = 2, p_curSize = 2, p_connList = [9, 8 :: conn]\<rparr>"
  have r: "run_queries [(\<lambda>c. c = 7, \<lambda>_ _ _. Some 9), (\<lambda>_. False, \<lambda>_ _ _. None)] (\<lambda>c _. Rows [] (c = 9))
       [\<lambda>db. GetDNchooserule db [], \<lambda>db. GetDNchooserule db []] ?p = Inr ([([], False), ([], True)], ?q)"
    by (simp add: pooled_query_def GetConnection_def CreateConnection_def ReleaseConnection_def GetDNchooserule_def run_query_def)
  show ?thesis using r queries_return_connections [OF r] by simp
qed

text \<open>
  A second start of the pool forgets the connections that are there: it counts only the new ones and can
  open more than \<open>maxSize\<close>.
\<close>

lemma pool_restarted:
  "p_connList (initPool url user password maxSize connects p) =
     p_connList p @ opened connects (p\<lparr>p_user := user, p_password := password, p_url := url\<rparr>) (nat (half maxSize)) \<and>
   p_curSize (initPool url user password maxSize connects p) =
     int (length (opened connects (p\<lparr>p_user := user, p_password := password, p_url := url\<rparr>) (nat (half maxSize))))"
proof -
  have "opened connects (p\<lparr>p_user := user, p_password := password, p_url := url, p_maxSize := maxSize, p_curSize := 0\<rparr>) n =
      opened connects (p\<lparr>p_user := user, p_password := password, p_url := url\<rparr>) n" for n
    by (simp add: opened_def CreateConnection_def)
  then show ?thesis by (simp add: initPool_def InitConnection_def InitConnection_list)
qed

text \<open>
  The server starts with a pool for 20 connections to the host that \<^verbatim>\<open>database.conf\<close> names, with its user
  and password, of which at most 10 are open, and the start always succeeds: also without the file, when host,
  user and password are empty.
\<close>

theorem database_started:
  assumes "initDatabase content connects new_pool = Inr (ok, p)"
  shows "ok \<and> p_maxSize p = 20 \<and> length (p_connList p) \<le> 10 \<and> p_curSize p = int (length (p_connList p)) \<and>
    (content = None \<longrightarrow> p_url p = [] \<and> p_user p = [] \<and> p_password p = []) \<and>
    (\<forall>s f. content = Some s \<longrightarrow> ini_load ''database.conf'' (Some s) new_ini = Inr (RET_OK, f) \<longrightarrow>
      p_url p = fst (getStringValue ''database'' ''servername'' f) \<and>
      p_user p = fst (getStringValue ''database'' ''username'' f) \<and>
      p_password p = fst (getStringValue ''database'' ''password'' f))"
proof -
  obtain r f where f: "ini_load ''database.conf'' content new_ini = Inr (r, f)"
    using assms by (auto simp: initDatabase_def res_bind_Inr_iff)
  let ?g = "\<lambda>key. fst (getStringValue ''database'' key f)"
  have p: "ok" "p = initPool (?g ''servername'') (?g ''username'') (?g ''password'') 20 connects new_pool"
    using assms by (auto simp: initDatabase_def f Let_def)
  have "content = None \<Longrightarrow> ini_sections f = []"
    using f by (auto simp: ini_load_def ini_release_def Let_def)
  then have "content = None \<Longrightarrow> ?g key = []" for key
    by (simp add: getStringValue_def getValue_def getSection_def)
  moreover have "p_url p = ?g ''servername''" "p_user p = ?g ''username''" "p_password p = ?g ''password''" "p_maxSize p = 20"
    by (simp_all add: p(2) initPool_def InitConnection_def InitConnection_list)
  moreover have "length (p_connList p) \<le> 10 \<and> p_curSize p = int (length (p_connList p))"
    using pool_restarted [of "?g ''servername''" "?g ''username''" "?g ''password''" 20 connects new_pool]
      opened_length [of connects _ 10] by (simp add: p(2) half_def new_pool_def)
  ultimately show ?thesis using p(1) f by auto
qed

theorem database_started_witness:
  "\<exists>p. initDatabase (Some (''[database]'' @ [NL] @ ''servername=db1'' @ [NL] @ ''username=cc'')) (\<lambda>i url _ _. if url = ''tcp://db1'' then Some i else None) new_pool
      = Inr (True, p) \<and> p_maxSize p = 20 \<and> p_url p = ''db1'' \<and> p_user p = ''cc'' \<and> p_password p = [] \<and> length (p_connList p) \<le> 10"
proof -
  let ?s = "''[database]'' @ [NL] @ ''servername=db1'' @ [NL] @ ''username=cc''"
  let ?c = "\<lambda>i url (_ :: string) (_ :: string). if url = ''tcp://db1'' then Some i else None"
  let ?f = "\<lparr>ini_sections = [([], new_section [] []),
      (''database'', \<lparr>is_name = ''database'', is_comment = [], is_items = [\<lparr>it_key = ''servername'', it_value = ''db1'', it_comment = []\<rparr>,
        \<lparr>it_key = ''username'', it_value = ''cc'', it_comment = []\<rparr>]\<rparr>)],
    ini_fname = ''database.conf'', ini_flags = [''#'', '';'']\<rparr>"
  have l: "ini_load ''database.conf'' (Some ?s) new_ini = Inr (RET_OK, ?f)" by code_simp
  then have "initDatabase (Some ?s) ?c new_pool =
      Inr (True, initPool (fst (getStringValue ''database'' ''servername'' ?f)) (fst (getStringValue ''database'' ''username'' ?f))
        (fst (getStringValue ''database'' ''password'' ?f)) 20 ?c new_pool)" (is "_ = Inr (True, ?p)")
    by (simp add: initDatabase_def Let_def)
  moreover from this have "p_url ?p = fst (getStringValue ''database'' ''servername'' ?f)" "p_user ?p = fst (getStringValue ''database'' ''username'' ?f)"
    "p_password ?p = fst (getStringValue ''database'' ''password'' ?f)" "p_maxSize ?p = 20" "length (p_connList ?p) \<le> 10"
    using database_started [of "Some ?s" ?c True ?p] l by blast+
  moreover have "getStringValue ''database'' ''servername'' ?f = (''db1'', RET_OK)" "getStringValue ''database'' ''username'' ?f = (''cc'', RET_OK)"
    "getStringValue ''database'' ''password'' ?f = ([], RET_ERR)" by code_simp+
  ultimately show ?thesis by simp
qed

end
