(* ===== verification/ServerStart.thy ===== *)
theory ServerStart
  imports ServerThreads DbPool EslListen
begin

text \<open>
  The start of the server: \<open>loaddb\<close> of \<^verbatim>\<open>DNManager.cpp\<close> reads the configuration of the call centre over the pool of
  database connections and the agents from the sqlite file, then \<open>startServer\<close> starts the threads and the servers
  (\<^verbatim>\<open>main.cpp\<close>). Here the components meet: what is read is the state in which the call centre takes its steps.
\<close>

section \<open>Reading the data\<close>

text \<open>
  The world outside: the text of \<^verbatim>\<open>database.conf\<close>, the connector (the driver when the pool is filled and for each
  query, the connections that are closed, the database behind a connection), the memory \<open>SelectRouteAgent\<close> and
  \<open>Initivrflow\<close> read, the parser of the menus, and the sqlite file.
\<close>

record ('s, 'd) start_env =
  se_conf :: "string option"
  se_fill :: "nat \<Rightarrow> driver"
  se_driver :: "nat \<Rightarrow> driver"
  se_closed :: "conn \<Rightarrow> bool"
  se_db :: "conn \<Rightarrow> db"
  se_raw :: agent_t
  se_tail :: string
  se_stray :: "int option"
  se_parse :: "string \<Rightarrow> (int \<times> string) option list option"
  se_dn :: "('s, 'd) dn_env"
  se_opened :: bool
  se_rows :: "(string \<times> string) list option"

definition pool_query :: "('s, 'd) start_env \<Rightarrow> nat \<Rightarrow> (db \<Rightarrow> 'a c_result) \<Rightarrow> db_pool \<Rightarrow> ('a \<times> db_pool) c_result" where
  "pool_query W i = pooled_query (se_closed W) (se_driver W i) (se_db W)"

text \<open>\<open>Managerivr::Init\<close> does not clear the tables, as \<open>Reload\<close> does.\<close>

definition ivr_Init :: "('s, 'd) start_env \<Rightarrow> nat \<Rightarrow> ivr_manager \<Rightarrow> db_pool \<Rightarrow> (ivr_manager \<times> db_pool) c_result" where
  "ivr_Init W i ivr p =
     res_bind (pool_query W i (\<lambda>db. GetivrTable db []) p) (\<lambda>((nodetable, _), p1).
     res_bind (Initivrflow (se_stray W) (se_parse W) nodetable ivr) (\<lambda>ivr'. Inr (ivr', p1)))"

definition loaddb :: "('s, 'd) start_env \<Rightarrow> ('s, 'd) call_center \<Rightarrow> (('s, 'd) call_center \<times> db_pool) c_result" where
  "loaddb W cc =
     res_bind (initDatabase (se_conf W) (se_fill W) new_pool) (\<lambda>(_, p0).
     res_bind (pool_query W 0 (\<lambda>db. SelectRouteAgent (se_raw W) (se_tail W) db (m_agentRoute (cc_dn cc)) (m_gRoute (cc_dn cc))) p0)
       (\<lambda>(((agents, routes), _), p1).
     res_bind (pool_query W 1 (\<lambda>db. Getagentandpwd db (m_agentloginInfo (cc_dn cc))) p1) (\<lambda>((logins, _), p2).
     res_bind (pool_query W 2 (\<lambda>db. GetDNchooserule db (m_compyidDNrulemap (cc_dn cc))) p2) (\<lambda>((rules, _), p3).
     res_bind (ivr_Init W 3 (cc_ivr cc) p3) (\<lambda>(ivr, p4).
     res_bind (LoadDNSet (se_dn W) (se_opened W) (se_rows W)
         ((cc_dn cc)\<lparr>m_agentRoute := agents, m_gRoute := routes, m_agentloginInfo := logins, m_compyidDNrulemap := rules\<rparr>))
       (\<lambda>mgr. Inr (cc\<lparr>cc_dn := mgr, cc_ivr := ivr\<rparr>, p4)))))))"

section \<open>Starting the threads\<close>

datatype start_action =
    StartInbound | StartHeartbeat | StartListener | StartQueue
  | ListenTcp string int | RunReactor | InitWs string int int | RunWs | JoinThread nat

text \<open>
  \<open>startServer\<close>, with what \<^verbatim>\<open>pthread_create\<close> answers to the three calls. The second and the third thread share one
  variable, so the heartbeat is never joined; the variables 3 and 4 that are joined at the end, when the server of
  the clients has stopped, hold no thread.
\<close>

definition startServer :: "server_config \<Rightarrow> bool \<Rightarrow> bool \<Rightarrow> bool \<Rightarrow> start_action list \<times> int" where
  "startServer cfg inbound heartbeat listener =
     (if \<not> inbound then ([], 1)
      else if \<not> heartbeat then ([StartInbound], 1)
      else if \<not> listener then ([StartInbound, StartHeartbeat], 1)
      else ([StartInbound, StartHeartbeat, StartListener, StartQueue,
             ListenTcp (m_ServerIP cfg) (m_tcpbussinessPort cfg), RunReactor,
             InitWs (m_ServerIP cfg) (m_wsbussinessPort cfg) 10, RunWs,
             JoinThread 1, JoinThread 2, JoinThread 3, JoinThread 4], 0))"

text \<open>\<open>main\<close>: the results of its three calls are dropped.\<close>

definition server_main ::
  "string option \<Rightarrow> server_config \<Rightarrow> ('s, 'd) start_env \<Rightarrow> bool \<Rightarrow> bool \<Rightarrow> bool \<Rightarrow> ('s, 'd) call_center \<Rightarrow>
   (start_action list \<times> ('s, 'd) call_center \<times> db_pool) c_result" where
  "server_main service cfg W inbound heartbeat listener cc =
     res_bind (loadConfigini service cfg) (\<lambda>cfg1.
     res_bind (loaddb W cc) (\<lambda>(cc1, p).
       Inr (fst (startServer cfg1 inbound heartbeat listener), cc1, p)))"

text \<open>
  \<open>listenthread_Process\<close> runs the server of the event socket at a fixed address.
  \<open>test_Process\<close> is a client nothing starts: it prints the body of the answer, or else the text of the reply, which
  is there in every case.
\<close>

definition listenthread_Process :: "allocator \<Rightarrow> listen_env \<Rightarrow> listen_action list \<times> listen_end" where
  "listenthread_Process A E = esl_listen_threaded A E"

definition test_Process ::
  "allocator \<Rightarrow> 'f double_ops \<Rightarrow> bool \<Rightarrow> connect_env \<Rightarrow> net \<Rightarrow> (string \<times> esl_handle \<times> net) thread_end io" where
  "test_Process A F mutex_ok C net =
     io_bind (esl_connect_timeout A F mutex_ok C zero_handle None ''tx@infosun'' 0 net) (\<lambda>(status, h, net1).
       if status \<noteq> ESL_SUCCESS then io_return ExitOne
       else io_bind (esl_send_recv A F h ''bgapi originate user/1007 &park()'' net1) (\<lambda>(st, h1, net2).
         let line = (case h_last_sr_event h1 of
                       Some e \<Rightarrow> (case ev_body e of Some b \<Rightarrow> ''['' @ b @ '']'' | None \<Rightarrow> ''['' @ c_str (h_last_sr_reply h1) @ ''] last_sr_reply'')
                     | None \<Rightarrow> ''['' @ c_str (h_last_sr_reply h1) @ ''] last_sr_reply'')
         in io_return (ThreadEnds (line, h1, net2))))"

section \<open>What is there when the threads start\<close>

text \<open>The rows of the sqlite file that the server itself has written: each agent under its number.\<close>

definition saved_row :: "('s, 'd) dn_env \<Rightarrow> string \<times> string \<Rightarrow> bool" where
  "saved_row E r \<longleftrightarrow> snd r = [] \<or> (\<exists>u. json_keeps E u \<and> snd r = user_serialize E u \<and> m_DN u = fst r)"

lemma load_rows_ok:
  "load_rows E rows mgr = Inr mgr' \<Longrightarrow> \<forall>r \<in> set rows. saved_row E r \<Longrightarrow> dn_inv mgr \<Longrightarrow> dn_inv mgr' \<and> m_acdqueue mgr' = m_acdqueue mgr"
proof (induction rows arbitrary: mgr)
  case (Cons r rows)
  obtain dn t where rt: "r = (dn, t)" by (cases r)
  show ?case
  proof (cases "t = []")
    case False
    then obtain u where u: "json_keeps E u" "t = user_serialize E u" "m_DN u = dn" using Cons.prems(2) rt by (auto simp: saved_row_def)
    let ?v = "(default_user E)\<lparr>m_commpanyid := m_commpanyid u, m_DN := m_DN u, m_agentid := m_agentid u, m_reason := m_reason u,
       m_agentstatus := m_agentstatus u, m_agentPwd := m_agentPwd u, m_autoAnswer := m_autoAnswer u,
       m_fcSignin := m_fcSignin u, m_skills := m_skills u, m_peerIP := m_peerIP u\<rparr>"
    let ?mgr = "(SetDNsemaSignal E mgr)\<lparr>m_DNmap := map_put dn (?v\<lparr>m_agentstatus := DN_Waiting_ready\<rparr>) (m_DNmap mgr)\<rparr>"
    have r: "load_rows E rows ?mgr = Inr mgr'"
      using Cons.prems(1) rt False u(2) unserialize_serialize [OF u(1), of "default_user E"] by (simp add: Let_def)
    have "dn_inv ?mgr" using Cons.prems(3) u(3) by (simp add: dn_map_put)
    moreover have "m_acdqueue ?mgr = m_acdqueue mgr" by (simp add: SetDNsemaSignal_def)
    ultimately show ?thesis using Cons.IH [OF r] Cons.prems(2) by simp
  qed (use Cons rt in simp)
qed simp

lemma LoadDNSet_ok:
  assumes "LoadDNSet E file_ok rows mgr = Inr mgr'" "\<forall>rs. rows = Some rs \<longrightarrow> (\<forall>r \<in> set rs. saved_row E r)" "dn_inv mgr"
  shows "dn_inv mgr' \<and> m_acdqueue mgr' = m_acdqueue mgr"
  using assms load_rows_ok [of E _ mgr mgr'] by (auto simp: LoadDNSet_def split: if_splits option.splits)

lemma LoadDNSet_saved: "\<forall>r \<in> set rows. saved_row E r \<Longrightarrow> \<exists>mgr'. LoadDNSet E file_ok (Some rows) mgr = Inr mgr'"
proof -
  have "\<forall>r \<in> set rows. saved_row E r \<Longrightarrow> \<exists>mgr'. load_rows E rows mgr = Inr mgr'" for rows mgr
  proof (induction rows arbitrary: mgr)
    case (Cons r rows)
    obtain dn t where rt: "r = (dn, t)" by (cases r)
    show ?case
    proof (cases "t = []")
      case False
      then obtain u where u: "json_keeps E u" "t = user_serialize E u" using Cons.prems rt by (auto simp: saved_row_def)
      show ?thesis using Cons.IH Cons.prems rt False u(2) unserialize_serialize [OF u(1), of "default_user E"] by (simp add: Let_def)
    qed (use Cons rt in simp)
  qed simp
  then show "\<forall>r \<in> set rows. saved_row E r \<Longrightarrow> ?thesis" by (auto simp: LoadDNSet_def)
qed

lemma loaddb_ok:
  assumes "loaddb W cc = Inr (cc', p)" "\<forall>rs. se_rows W = Some rs \<longrightarrow> (\<forall>r \<in> set rs. saved_row (se_dn W) r)" "dn_inv (cc_dn cc)"
  shows "dn_inv (cc_dn cc') \<and> m_acdqueue (cc_dn cc') = m_acdqueue (cc_dn cc) \<and> cc_ivrmap cc' = cc_ivrmap cc"
  using assms(1) by (auto simp: loaddb_def res_bind_Inr_iff assms(3) dest!: LoadDNSet_ok [OF _ assms(2)] split: prod.splits)

text \<open>The queries leave every connection in the pool.\<close>

lemma fresh_pool:
  assumes "initDatabase conf fill new_pool = Inr (r, p)"
  shows "pool.in_use p = 0 \<and> p_maxSize p = 20 \<and> p_curSize p \<le> 20"
proof -
  obtain url user pw where "p = initPool url user pw 20 fill new_pool"
    using assms by (auto simp: initDatabase_def res_bind_Inr_iff Let_def)
  moreover define conns where "conns = opened fill (new_pool\<lparr>p_user := user, p_password := pw, p_url := url, p_maxSize := 20, p_curSize := 0\<rparr>) 10"
  moreover have "length conns \<le> 10" unfolding conns_def by (rule opened_length)
  ultimately show ?thesis
    by (simp add: initPool_def InitConnection_def InitConnection_list half_def new_pool_def pool.in_use_def)
qed

lemma loaddb_pool:
  assumes "loaddb W cc = Inr (cc', p)"
  shows "pool.in_use p = 0 \<and> p_maxSize p = 20 \<and> p_curSize p \<le> 20"
proof -
  obtain r p0 where i: "initDatabase (se_conf W) (se_fill W) new_pool = Inr (r, p0)"
      and "p \<in> {fold pool.bracket [(se_closed W, se_driver W 0), (se_closed W, se_driver W 1), (se_closed W, se_driver W 2), (se_closed W, se_driver W 3)] p0}"
    using assms
    by (auto simp: loaddb_def ivr_Init_def pool_query_def res_bind_Inr_iff dest!: pooled_query_bracket split: prod.splits)
  then show ?thesis
    using pool.brackets_keep [of "[(se_closed W, se_driver W 0), (se_closed W, se_driver W 1), (se_closed W, se_driver W 2), (se_closed W, se_driver W 3)]" p0]
      fresh_pool [OF i] by auto
qed

section \<open>Properties\<close>


text \<open>A server with one saved agent.\<close>

abbreviation "saved_agent \<equiv> agent ''1001'' 4 7 600 5"

definition demo_start :: "(nat, string list) start_env" where
  "demo_start = \<lparr>se_conf = None, se_fill = (\<lambda>i _ _ _. Some i), se_driver = (\<lambda>i _ _ _. None), se_closed = (\<lambda>c. False),
     se_db = (\<lambda>c. demo_db), se_raw = \<lparr>ag_exten = [], ag_uuid = [], ag_state = 0\<rparr>, se_tail = [], se_stray = None,
     se_parse = menu_parse, se_dn = saved_env saved_agent, se_opened = True,
     se_rows = Some [(''1001'', user_serialize (saved_env saved_agent) saved_agent)]\<rparr>"

lemma demo_start_reads:
  "se_conf demo_start = None" "se_fill demo_start = (\<lambda>i _ _ _. Some i)" "se_raw demo_start = \<lparr>ag_exten = [], ag_uuid = [], ag_state = 0\<rparr>"
  "se_tail demo_start = []" "se_stray demo_start = None" "se_parse demo_start = menu_parse" "se_dn demo_start = saved_env saved_agent"
  "se_opened demo_start" "se_rows demo_start = Some [(''1001'', user_serialize (saved_env saved_agent) saved_agent)]"
  by (simp_all add: demo_start_def)

definition demo_before :: "(nat, string list) call_center" where
  "demo_before = demo_center\<lparr>cc_dn := (cc_dn demo_center)\<lparr>m_DNmap := [], m_compyidDNrulemap := []\<rparr>,
     cc_ivr := \<lparr>m_IVRnodetable = [], m_flowtable = []\<rparr>, cc_ivrmap := []\<rparr>"

lemma demo_saved: "json_keeps (saved_env saved_agent) saved_agent" "m_DN saved_agent = ''1001''"
  by (auto simp: json_keeps_def saved_env_def demo_env_def user_serialize_def agent_def)

lemma opened_numbers: "opened (\<lambda>i _ _ _. Some i) p n = [0..<n]"
proof -
  have "concat (map (\<lambda>i. [i]) xs) = xs" for xs :: "nat list" by (induction xs) simp_all
  then show ?thesis by (simp add: opened_def CreateConnection_def)
qed

lemma demo_init: "\<exists>p. initDatabase None (\<lambda>i _ _ _. Some i) new_pool = Inr (True, p) \<and> p_connList p \<noteq> []"
proof -
  have "p_connList (initPool url user pw 20 (\<lambda>i _ _ _. Some i) p) \<noteq> []" for url user pw p
    by (simp add: initPool_def InitConnection_def InitConnection_list half_def opened_numbers)
  then show ?thesis by (simp add: initDatabase_def Let_def ini_load_def)
qed

text \<open>A query of this server takes the first connection and puts it behind the others.\<close>

abbreviation "turned p \<equiv> p\<lparr>p_connList := tl (p_connList p) @ [hd (p_connList p)]\<rparr>"

lemma demo_query:
  assumes "p_connList p \<noteq> []"
  shows "pool_query demo_start i q p = res_bind (q demo_db) (\<lambda>a. Inr (a, turned p))"
proof -
  obtain c cs where "p_connList p = c # cs" using assms by (cases "p_connList p") auto
  then show ?thesis
    by (simp add: pool_query_def pooled_query_def GetConnection_def demo_start_def ReleaseConnection_def Let_def)
qed

lemma demo_loaded: "\<exists>cc p. loaddb demo_start demo_before = Inr (cc, p)"
proof -
  obtain p0 where p0: "initDatabase None (\<lambda>i _ _ _. Some i) new_pool = Inr (True, p0)" "p_connList p0 \<noteq> []"
    using demo_init by blast
  let ?raw = "\<lparr>ag_exten = [], ag_uuid = [], ag_state = 0\<rparr>"
  obtain a1 where q1: "SelectRouteAgent ?raw [] demo_db (m_agentRoute (cc_dn demo_before)) (m_gRoute (cc_dn demo_before)) = Inr a1"
    by (simp add: SelectRouteAgent_def run_query_def demo_db_def demo_row_def push_row_def read_route_def text_field_def)
  obtain a2 where q2: "Getagentandpwd demo_db (m_agentloginInfo (cc_dn demo_before)) = Inr a2"
    by (simp add: Getagentandpwd_def run_query_def demo_db_def demo_row_def push_row_def read_route_def text_field_def)
  obtain a3 where q3: "GetDNchooserule demo_db (m_compyidDNrulemap (cc_dn demo_before)) = Inr a3"
    by (simp add: GetDNchooserule_def run_query_def demo_db_def demo_row_def push_row_def read_route_def text_field_def)
  have q4: "GetivrTable demo_db [] = Inr ([], False)"
    by (simp add: GetivrTable_def run_query_def demo_db_def)
  have i: "Initivrflow None menu_parse [] (cc_ivr demo_before) = Inr (cc_ivr demo_before)"
    by (simp add: Initivrflow_def node_tables.simps demo_before_def)
  obtain mgr where l: "LoadDNSet (saved_env saved_agent) True
      (Some [(''1001'', user_serialize (saved_env saved_agent) saved_agent)])
      ((cc_dn demo_before)\<lparr>m_agentRoute := fst (fst a1), m_gRoute := snd (fst a1), m_agentloginInfo := fst a2, m_compyidDNrulemap := fst a3\<rparr>) = Inr mgr"
    using LoadDNSet_saved [of "[(''1001'', user_serialize (saved_env saved_agent) saved_agent)]"] demo_saved
    by (fastforce simp: saved_row_def)
  obtain agents routes o1 logins o2 rules o3 where as: "a1 = ((agents, routes), o1)" "a2 = (logins, o2)" "a3 = (rules, o3)"
    by (metis surj_pair)
  show ?thesis
    using p0 q1 q2 q3 q4 i l unfolding as
    by (simp add: loaddb_def ivr_Init_def demo_query demo_start_reads)
qed


end
