(* ===== verification/WsServer.thy ===== *)
theory WsServer
  imports DbOperator
begin

text \<open>
  The server the agents' clients talk to (\<^verbatim>\<open>WS_ApServer.cpp\<close>): a text message is a JSON object with an action
  and its parameters; the action is done on the agents, and the answers are JSON texts. A request changes
  the call centre and gives the list of the answers that are sent, each as the JSON value whose text it
  is. What the code of jsoncpp does is a parameter where it is not the plain reading of a member: the
  reader, and the conversion to a number. An exception of jsoncpp is not caught and ends the program.
\<close>

section \<open>JSON values\<close>

datatype json =
    WNull | WBool bool | WInt int | WReal | WText string | WArr "json list" | WObj "(string, json) std_map"

definition obj :: "(string \<times> json) list \<Rightarrow> json" where
  "obj ms = WObj (fold (\<lambda>(k, v). map_put k v) ms [])"

text \<open>\<open>root[key]\<close>\<close>

fun member :: "json \<Rightarrow> string \<Rightarrow> json c_result" where
  "member (WObj m) k = Inr (case map_find m k of None \<Rightarrow> WNull | Some v \<Rightarrow> v)"
| "member WNull k = Inr WNull"
| "member v k = Inl AssertFailed"

text \<open>The tests \<open>isNull() || !isString()\<close> on one member after the other, and the texts: \<open>None\<close> when one fails.\<close>

fun text_params :: "json \<Rightarrow> string list \<Rightarrow> string list option c_result" where
  "text_params p [] = Inr (Some [])"
| "text_params p (k # ks) = res_bind (member p k) (\<lambda>v.
     case v of
       WText s \<Rightarrow> res_bind (text_params p ks) (\<lambda>r. Inr (map_option ((#) s) r))
     | _ \<Rightarrow> Inr None)"

section \<open>The environment\<close>

text \<open>
  \<open>ws_peer\<close> is the address of the client, \<open>None\<close> when the connection is gone and asking for it throws;
  \<open>ws_ret\<close> is what the variable \<open>ret\<close>, which is never assigned, and the missing return value of
  \<open>ResetDNinfo\<close> give.
\<close>

record ('s, 'd) ws_env =
  ws_dn :: "('s, 'd) dn_env"
  ws_db :: db
  ws_parse :: "string \<Rightarrow> json option"
  ws_as_int :: "json \<Rightarrow> int c_result"
  ws_peer :: "string option"
  ws_ret :: int
  ws_agent :: agent_t
  ws_tail :: string
  ws_stray :: "int option"
  ws_menu :: "string \<Rightarrow> (int \<times> string) option list option"

section \<open>The actions\<close>

definition CmdType :: "string list" where
  "CmdType = [''login'', ''logout'', ''changestate'', ''GetAgentStatus'', ''ResetStatuschangetype'', ''ResetAutoAnswer'',
     ''ResetSkill'', ''reset'', ''dial'', ''AnswerCall'', ''ReleaseCall'', ''Hold'', ''Retrieve'', ''Consult'', ''ConsultReconnect'',
     ''ConsultTransfer'', ''SingleStepTransfer'', ''ConsultConference'', ''ConferenceJoin'', ''SetAssociateData'',
     ''GetAssociateData'', ''JumptheQueue'', ''ForceSignIn'', ''ResetConfig'', ''getusers'', ''heartbeat'']"

definition WSAP_SignIn :: nat where "WSAP_SignIn = 0"
definition WSAP_SignOut :: nat where "WSAP_SignOut = 1"
definition WSAP_SetAgentStatus :: nat where "WSAP_SetAgentStatus = 2"
definition WSAP_Reset :: nat where "WSAP_Reset = 7"
definition WSAP_OutboundCall :: nat where "WSAP_OutboundCall = 8"
definition WSAP_ResetConfig :: nat where "WSAP_ResetConfig = 23"
definition WSAP_getusers :: nat where "WSAP_getusers = 24"
definition WSAP_Heartbeat :: nat where "WSAP_Heartbeat = 25"
definition WSAP_ERRORTYPE :: nat where "WSAP_ERRORTYPE = 26"

lemmas wsap_codes = WSAP_SignIn_def WSAP_SignOut_def WSAP_SetAgentStatus_def WSAP_Reset_def WSAP_OutboundCall_def
  WSAP_ResetConfig_def WSAP_getusers_def WSAP_Heartbeat_def WSAP_ERRORTYPE_def

fun cmd_from :: "nat \<Rightarrow> string list \<Rightarrow> string \<Rightarrow> nat" where
  "cmd_from i [] cmdfield = WSAP_ERRORTYPE"
| "cmd_from i (c # cs) cmdfield = (if c = cmdfield then i else cmd_from (Suc i) cs cmdfield)"

definition GetcmdType :: "string \<Rightarrow> nat" where
  "GetcmdType cmdfield = cmd_from 0 CmdType cmdfield"

section \<open>The answers\<close>

definition Onresponse :: "int \<Rightarrow> string \<Rightarrow> string \<Rightarrow> string \<Rightarrow> json" where
  "Onresponse code desc agentId operation =
     obj [(''cause'', WText desc), (''result'', WInt code), (''event'', WText operation),
          (''param'', obj [(''agentId'', WText agentId)]), (''token'', WText [])]"

definition OnparamError :: "int \<Rightarrow> string \<Rightarrow> string \<Rightarrow> string \<Rightarrow> json" where
  "OnparamError code desc agentId operaton = Onresponse code desc agentId operaton"

text \<open>The two other forms, with one more parameter in a list.\<close>

definition Onresponse_text :: "int \<Rightarrow> string \<Rightarrow> string \<Rightarrow> string \<Rightarrow> string \<Rightarrow> json" where
  "Onresponse_text code desc agentId strkey2 param2 =
     obj [(''result'', WInt code),
          (''param'', WArr [obj [(''desc'', WText desc), (''agentId'', WText agentId), (strkey2, WText param2)]])]"

definition Onresponse_int :: "int \<Rightarrow> string \<Rightarrow> string \<Rightarrow> string \<Rightarrow> int \<Rightarrow> string \<Rightarrow> json" where
  "Onresponse_int code desc agentId strkey2 param2 operation =
     obj [(''result'', WInt code),
          (''param'', WArr [obj [(''desc'', WText desc), (''agentId'', WText agentId), (strkey2, WInt param2)]]),
          (''operator'', WText operation)]"

definition OngetAgentStatus :: "int \<Rightarrow> string \<Rightarrow> string \<Rightarrow> int \<Rightarrow> json" where
  "OngetAgentStatus code desc agentId status = Onresponse_int code desc agentId ''agentStatus'' status ''getAgentStatus''"

definition OnSignIn :: "int \<Rightarrow> string \<Rightarrow> string \<Rightarrow> java_user \<Rightarrow> json" where
  "OnSignIn code desc agentId userinfo =
     (let agentStatus = obj [(''userId'', WText agentId), (''status'', WText ''1''), (''lastState'', WText ''1''),
            (''callType'', WText ''0''), (''targetType'', WText []), (''target'', WText []), (''heldtarget'', WText []),
            (''callId'', WText []), (''privateData'', WText [])];
          agentInfo = obj [(''userId'', WText agentId), (''nickName'', WText (ju_nick_name userinfo)), (''role'', WText []),
            (''department'', WInt (ju_department_id userinfo)), (''phoneNum'', WText (ju_mobile userinfo)),
            (''enableConference'', WText ''1''), (''enabletransferToIVR'', WText ''1''), (''freeswitchRegAddr'', WText []),
            (''freeswitchMediaAddr'', WText [])]
      in obj [(''event'', WText ''onlogin''), (''result'', WInt code), (''cause'', WText desc),
              (''param'', obj [(''agentStatus'', agentStatus), (''agentInfo'', agentInfo)]), (''token'', WText [])])"

definition Onreset :: "int \<Rightarrow> string \<Rightarrow> string \<Rightarrow> java_user \<Rightarrow> json" where
  "Onreset code desc agentId userinfo =
     obj [(''event'', WText ''onreset''), (''result'', WInt code), (''cause'', WText desc),
          (''param'', obj [(''userId'', WText agentId), (''nickName'', WText (ju_nick_name userinfo)),
             (''department'', WInt (ju_department_id userinfo)), (''phoneNum'', WText (ju_mobile userinfo)),
             (''enableConference'', WText ''1''), (''enabletransferToIVR'', WText ''1'')]),
          (''token'', WText [])]"

definition Ondail :: "int \<Rightarrow> string \<Rightarrow> string \<Rightarrow> bool \<Rightarrow> json" where
  "Ondail code desc agentId bforbidden =
     obj [(''event'', WText ''ondial''), (''result'', WInt code), (''cause'', WText desc),
          (''param'', obj [(''userId'', WText agentId), (''forbidden'', WBool bforbidden)]), (''token'', WText [])]"

definition Onheartbeat :: "int \<Rightarrow> string \<Rightarrow> string \<Rightarrow> json" where
  "Onheartbeat code desc agentId =
     obj [(''event'', WText ''onheartbeat''), (''result'', WInt code), (''cause'', WText desc),
          (''param'', obj [(''userId'', WText agentId)]), (''token'', WText [])]"

definition Sendevent2dn :: "string \<Rightarrow> string \<Rightarrow> int \<Rightarrow> int \<Rightarrow> json" where
  "Sendevent2dn msg agentId handle code =
     obj [(''event'', WText msg), (''param'', obj [(''agentId'', WText agentId), (''handle'', WInt handle), (''code'', WInt code)])]"

section \<open>The requests\<close>

type_synonym ('s, 'd) ws_result = "(('s, 'd) call_center \<times> json list) c_result"

text \<open>An action whose parameters are the given texts; when one is missing there is only an error answer.\<close>

definition with_params ::
  "json \<Rightarrow> string list \<Rightarrow> string \<Rightarrow> string \<Rightarrow> ('s, 'd) call_center \<Rightarrow> (string list \<Rightarrow> ('s, 'd) ws_result) \<Rightarrow> ('s, 'd) ws_result" where
  "with_params p ks lost event cc act =
     res_bind (text_params p ks) (\<lambda>r. case r of None \<Rightarrow> Inr (cc, [OnparamError (-1) lost [] event]) | Some ts \<Rightarrow> act ts)"

definition ws_signin :: "('s, 'd) ws_env \<Rightarrow> string \<Rightarrow> string \<Rightarrow> string \<Rightarrow> ('s, 'd) call_center \<Rightarrow> ('s, 'd) ws_result" where
  "ws_signin E peerIP userId password cc =
     res_bind (GetJavaUserInfo (ws_db E) userId new_java_user) (\<lambda>(userinfo, found).
     if \<not> found then Inr (cc, [OnparamError (-1) ''cannot find the userinfo in bussiness '' [] ''onlogin''])
     else res_bind (Signin (ws_dn E) userId userId password 1 False False (ju_skill_id userinfo) (ju_department_id userinfo) []
                      (ju_user_name userinfo) peerIP (cc_dn cc)) (\<lambda>(ret, mgr).
          Inr (cc\<lparr>cc_dn := mgr\<rparr>, [OnSignIn ret [] userId userinfo])))"

definition ws_signout :: "('s, 'd) ws_env \<Rightarrow> string \<Rightarrow> ('s, 'd) call_center \<Rightarrow> ('s, 'd) ws_result" where
  "ws_signout E userId cc =
     res_bind (Signout (ws_dn E) userId (cc_dn cc)) (\<lambda>(iret, mgr). Inr (cc\<lparr>cc_dn := mgr\<rparr>, [Onresponse iret [] userId ''onlogout'']))"

text \<open>The member \<open>state\<close> must be a text, but the status is taken from the member \<open>agentStatus\<close>.\<close>

definition ws_set_status :: "('s, 'd) ws_env \<Rightarrow> json \<Rightarrow> string \<Rightarrow> ('s, 'd) call_center \<Rightarrow> ('s, 'd) ws_result" where
  "ws_set_status E jsonparam agentId cc =
     res_bind (member jsonparam ''agentStatus'') (\<lambda>v.
     res_bind (ws_as_int E v) (\<lambda>agentStatus.
     res_bind (SetDNstatus (ws_dn E) agentId agentStatus (cc_dn cc)) (\<lambda>(iret, mgr).
       Inr (cc\<lparr>cc_dn := mgr\<rparr>, [Onresponse iret [] agentId ''onchangestate'']))))"

text \<open>
  The agents by department. Inside the loop over the departments the number of the department is read
  through the iterator \<open>ite\<close>, which stands at the end of the vector of the users.
\<close>

definition ws_getusers :: "string \<Rightarrow> string \<Rightarrow> string \<Rightarrow> ('s, 'd) call_center \<Rightarrow> ('s, 'd) ws_result" where
  "ws_getusers userId department_id status cc =
     (case GetUserInfolist userId department_id status (cc_dn cc) of
        (iret, userlist) \<Rightarrow>
          if userlist \<noteq> [] then Inl OutOfBounds
          else Inr (cc, [obj [(''event'', WText ''ongetusers''), (''result'', WInt iret), (''cause'', WText []), (''data'', WNull)]]))"

definition ws_reset :: "('s, 'd) ws_env \<Rightarrow> string \<Rightarrow> ('s, 'd) call_center \<Rightarrow> ('s, 'd) ws_result" where
  "ws_reset E userId cc =
     res_bind (GetJavaUserInfo (ws_db E) userId new_java_user) (\<lambda>(userinfo, found).
     if \<not> found then Inr (cc, [OnparamError (-1) ''cannot find the userinfo in bussiness '' userId ''onreset''])
     else case ResetDNinfo userId (ju_department_id userinfo) [] (ju_user_name userinfo) (cc_dn cc) of
            (iiret, mgr) \<Rightarrow>
              Inr (cc\<lparr>cc_dn := mgr\<rparr>, [Onreset (case iiret of None \<Rightarrow> ws_ret E | Some c \<Rightarrow> c) [] userId userinfo]))"

definition ws_heartbeat :: "('s, 'd) ws_env \<Rightarrow> json \<Rightarrow> ('s, 'd) call_center \<Rightarrow> ('s, 'd) ws_result" where
  "ws_heartbeat E jsonparam cc =
     with_params jsonparam [''userId''] ''lose param of Action SetAgentStatus field'' ''onreset'' cc (\<lambda>ts.
       Inr (cc, [Onheartbeat (ws_ret E) [] (hd ts)]))"

text \<open>\<open>WSAP_OutboundCall\<close> has no \<open>break\<close>: the heartbeat follows.\<close>

definition ws_dial :: "('s, 'd) ws_env \<Rightarrow> json \<Rightarrow> ('s, 'd) call_center \<Rightarrow> ('s, 'd) ws_result" where
  "ws_dial E jsonparam cc =
     with_params jsonparam [''userId''] ''lose param of Action SetAgentStatus field'' ''ondial'' cc (\<lambda>ts.
       res_bind (Getpermission (ws_db E) (hd ts)) (\<lambda>(found, ispermit).
       res_bind (ws_heartbeat E jsonparam cc) (\<lambda>(cc1, answers).
         Inr (cc1, Ondail (ws_ret E) [] (hd ts) ispermit # answers))))"

definition ws_reset_config :: "('s, 'd) ws_env \<Rightarrow> json \<Rightarrow> ('s, 'd) call_center \<Rightarrow> ('s, 'd) ws_result" where
  "ws_reset_config E jsonparam cc =
     with_params jsonparam [''acdpassword''] ''lose param of Action ResetConfig field'' [] cc (\<lambda>ts.
       res_bind (reload_from_db (ws_agent E) (ws_tail E) (ws_db E) (ws_stray E) (ws_menu E) cc) (\<lambda>cc1.
         Inr (cc1, [Onresponse 0 [] [] ''ResetConfig''])))"

definition ws_action :: "('s, 'd) ws_env \<Rightarrow> string \<Rightarrow> nat \<Rightarrow> json \<Rightarrow> ('s, 'd) call_center \<Rightarrow> ('s, 'd) ws_result" where
  "ws_action E peerIP cmdNUM jsonparam cc =
     (if cmdNUM = WSAP_ResetConfig then ws_reset_config E jsonparam cc
      else if cmdNUM = WSAP_SignIn then
        with_params jsonparam [''userId'', ''password''] ''lose param of Action SignIn field'' ''onlogin'' cc (\<lambda>ts.
          ws_signin E peerIP (ts ! 0) (ts ! 1) cc)
      else if cmdNUM = WSAP_SignOut then
        with_params jsonparam [''userId''] ''lose param of Action SetAgentStatus field'' ''onlogout'' cc (\<lambda>ts. ws_signout E (ts ! 0) cc)
      else if cmdNUM = WSAP_SetAgentStatus then
        with_params jsonparam [''userId'', ''state''] ''lose param of Action SetAgentStatus field'' ''onchangestate'' cc (\<lambda>ts.
          ws_set_status E jsonparam (ts ! 0) cc)
      else if cmdNUM = WSAP_getusers then
        with_params jsonparam [''userId'', ''state'', ''department''] ''lose param of Action SetAgentStatus field'' ''ongetusers'' cc (\<lambda>ts.
          ws_getusers (ts ! 0) (ts ! 2) (ts ! 1) cc)
      else if cmdNUM = WSAP_Reset then
        with_params jsonparam [''userId''] ''lose param of Action SetAgentStatus field'' ''onreset'' cc (\<lambda>ts. ws_reset E (ts ! 0) cc)
      else if cmdNUM = WSAP_OutboundCall then ws_dial E jsonparam cc
      else if cmdNUM = WSAP_Heartbeat then ws_heartbeat E jsonparam cc
      else Inr (cc, []))"

definition on_callapclient :: "('s, 'd) ws_env \<Rightarrow> string \<Rightarrow> ('s, 'd) call_center \<Rightarrow> ('s, 'd) ws_result" where
  "on_callapclient E applicationcmd cc =
     (case ws_parse E applicationcmd of
        None \<Rightarrow> Inr (cc, [OnparamError (-1) ''json parse failed'' [] []])
      | Some root \<Rightarrow>
          res_bind (member root ''action'') (\<lambda>action.
          case action of
            WText cmd \<Rightarrow>
              (case ws_peer E of
                 None \<Rightarrow> Inr (cc, [])
               | Some peerIP \<Rightarrow>
                   res_bind (member root ''param'') (\<lambda>jsonparam.
                   if jsonparam = WNull then Inr (cc, [OnparamError (-1) ''lose param field'' [] []])
                   else ws_action E peerIP (GetcmdType cmd) jsonparam cc))
          | _ \<Rightarrow> Inr (cc, [OnparamError (-1) ''lose [action] field'' [] []])))"

text \<open>\<open>on_message\<close>: the last component tells whether the server goes on listening.\<close>

definition on_message ::
  "('s, 'd) ws_env \<Rightarrow> string \<Rightarrow> ('s, 'd) call_center \<Rightarrow> (('s, 'd) call_center \<times> json list \<times> bool) c_result" where
  "on_message E payload cc =
     (if payload = ''stop-listening'' then Inr (cc, [], False)
      else if payload \<noteq> [] then res_bind (on_callapclient E payload cc) (\<lambda>(cc1, answers). Inr (cc1, answers, True))
      else Inr (cc, [], True))"

section \<open>Requests are steps of the call centre\<close>

declare text_params.simps [simp del]

lemma step_reaches: "center_step S s t \<Longrightarrow> center_reachable S s t"
  by (rule center_next [OF center_start])

lemma with_params_Inr:
  "with_params p ks lost event cc act = Inr (cc', answers) \<longleftrightarrow>
     (\<exists>r. text_params p ks = Inr r \<and>
       (case r of None \<Rightarrow> cc' = cc \<and> answers = [OnparamError (-1) lost [] event] | Some ts \<Rightarrow> act ts = Inr (cc', answers)))"
  by (auto simp: with_params_def res_bind_Inr_iff split: option.splits)

lemma reach_dn:
  "center_step S s (set_dn s mgr) \<Longrightarrow> center_reachable S s (s\<lparr>center := (center s)\<lparr>cc_dn := mgr\<rparr>\<rparr>)"
  by (drule step_reaches) (simp add: set_dn_def)

lemma signin_reaches:
  assumes "e_sema (ws_dn E) = S" "ws_signin E peerIP userId password (center s) = Inr (cc, answers)"
  shows "center_reachable S s (s\<lparr>center := cc\<rparr>)"
  using assms by (fastforce simp: ws_signin_def res_bind_Inr_iff intro: reach_dn center_start step_signin split: if_splits)

lemma signout_reaches:
  assumes "e_sema (ws_dn E) = S" "ws_signout E userId (center s) = Inr (cc, answers)"
  shows "center_reachable S s (s\<lparr>center := cc\<rparr>)"
  using assms by (fastforce simp: ws_signout_def res_bind_Inr_iff intro: reach_dn step_signout)

lemma set_status_reaches:
  assumes "e_sema (ws_dn E) = S" "ws_set_status E p agentId (center s) = Inr (cc, answers)"
  shows "center_reachable S s (s\<lparr>center := cc\<rparr>)"
  using assms by (fastforce simp: ws_set_status_def res_bind_Inr_iff intro: reach_dn step_status)

lemma reset_reaches:
  assumes "ws_reset E userId (center s) = Inr (cc, answers)"
  shows "center_reachable S s (s\<lparr>center := cc\<rparr>)"
  using assms
  by (fastforce simp: ws_reset_def res_bind_Inr_iff intro: reach_dn center_start step_reset split: if_splits prod.splits)

lemma heartbeat_keeps: "ws_heartbeat E p c = Inr (cc, answers) \<Longrightarrow> cc = c \<and> length answers = 1"
  by (auto simp: ws_heartbeat_def with_params_Inr split: option.splits)

lemma dial_keeps: "ws_dial E p c = Inr (cc, answers) \<Longrightarrow> cc = c"
  by (auto simp: ws_dial_def with_params_Inr res_bind_Inr_iff dest: heartbeat_keeps split: option.splits)

lemma getusers_keeps: "ws_getusers a d st c = Inr (cc, answers) \<Longrightarrow> cc = c \<and> length answers = 1"
  by (auto simp: ws_getusers_def split: if_splits prod.splits)

lemma quiet_reaches:
  "ws_getusers a d st (center s) = Inr (cc, answers) \<Longrightarrow> center_reachable S s (s\<lparr>center := cc\<rparr>)"
  "ws_dial E p (center s) = Inr (cc, answers) \<Longrightarrow> center_reachable S s (s\<lparr>center := cc\<rparr>)"
  "ws_heartbeat E p (center s) = Inr (cc, answers) \<Longrightarrow> center_reachable S s (s\<lparr>center := cc\<rparr>)"
  by (auto simp: center_start dest: dial_keeps heartbeat_keeps getusers_keeps)

lemma reset_config_reaches:
  assumes "ws_reset_config E p (center s) = Inr (cc, answers)"
  shows "center_reachable S s (s\<lparr>center := cc\<rparr>)"
proof -
  consider "cc = center s" | "reload_from_db (ws_agent E) (ws_tail E) (ws_db E) (ws_stray E) (ws_menu E) (center s) = Inr cc"
    using assms by (auto simp: ws_reset_config_def with_params_Inr res_bind_Inr_iff split: option.splits)
  then show ?thesis
  proof cases
    case 2
    from reload_is_step [OF this] show ?thesis by (auto intro: step_reaches step_reload)
  qed (simp add: center_start)
qed

lemma action_reaches:
  assumes "e_sema (ws_dn E) = S" "ws_action E peerIP n p (center s) = Inr (cc, answers)"
  shows "center_reachable S s (s\<lparr>center := cc\<rparr>)"
  using assms
  by (auto simp: ws_action_def with_params_Inr center_start intro: quiet_reaches reset_config_reaches signin_reaches signout_reaches set_status_reaches reset_reaches
      split: if_splits option.splits)

lemma callapclient_action:
  assumes "on_callapclient E cmd c = Inr (cc, answers)"
  shows "cc = c \<or> (\<exists>ip n p. ws_action E ip n p c = Inr (cc, answers))"
proof (cases "ws_parse E cmd")
  case (Some root)
  then obtain action where a: "member root ''action'' = Inr action"
    using assms by (auto simp: on_callapclient_def res_bind_Inr_iff)
  show ?thesis using assms Some a
    by (cases action) (auto simp: on_callapclient_def res_bind_Inr_iff split: option.splits if_splits)
qed (use assms in \<open>simp add: on_callapclient_def\<close>)


section \<open>What the requests do\<close>

text \<open>The message \<open>msg\<close> asks for the action \<open>cmd\<close> with the parameters \<open>p\<close>, and the client is there.\<close>

definition ws_request :: "('s, 'd) ws_env \<Rightarrow> string \<Rightarrow> string \<Rightarrow> json \<Rightarrow> bool" where
  "ws_request E msg cmd p \<longleftrightarrow>
     (case ws_parse E msg of
        None \<Rightarrow> False
      | Some root \<Rightarrow> member root ''action'' = Inr (WText cmd) \<and> member root ''param'' = Inr p) \<and>
     p \<noteq> WNull \<and> ws_peer E \<noteq> None"

lemma request_action:
  assumes "ws_request E msg cmd p"
  shows "on_callapclient E msg cc = ws_action E (the (ws_peer E)) (GetcmdType cmd) p cc"
  using assms by (auto simp: ws_request_def on_callapclient_def split: option.splits)

lemma cmd_codes:
  "GetcmdType ''login'' = WSAP_SignIn" "GetcmdType ''logout'' = WSAP_SignOut" "GetcmdType ''changestate'' = WSAP_SetAgentStatus"
  "GetcmdType ''reset'' = WSAP_Reset" "GetcmdType ''dial'' = WSAP_OutboundCall" "GetcmdType ''ResetConfig'' = WSAP_ResetConfig"
  "GetcmdType ''getusers'' = WSAP_getusers" "GetcmdType ''heartbeat'' = WSAP_Heartbeat"
  by (simp_all add: GetcmdType_def CmdType_def wsap_codes)

lemma cmd_from_nth:
  "distinct cs \<Longrightarrow> n < length cs \<Longrightarrow> i + length cs \<le> WSAP_ERRORTYPE \<Longrightarrow> cmd_from i cs cmd = i + n \<longleftrightarrow> cmd = cs ! n"
proof (induction cs arbitrary: i n)
  case (Cons c cs)
  have low: "Suc i \<le> cmd_from (Suc i) cs cmd"
    using Cons.prems(3) by (induction "Suc i" cs cmd arbitrary: i rule: cmd_from.induct) force+
  show ?case
  proof (cases n)
    case 0
    then show ?thesis using low by auto
  next
    case (Suc m)
    then show ?thesis using Cons.IH [of m "Suc i"] Cons.prems by (auto simp: in_set_conv_nth)
  qed
qed simp

lemma distinct_commands: "distinct CmdType"
  by (simp add: CmdType_def)

lemma cmd_code_names:
  "GetcmdType cmd = WSAP_SignIn \<longleftrightarrow> cmd = ''login''" "GetcmdType cmd = WSAP_SignOut \<longleftrightarrow> cmd = ''logout''"
  "GetcmdType cmd = WSAP_SetAgentStatus \<longleftrightarrow> cmd = ''changestate''" "GetcmdType cmd = WSAP_Reset \<longleftrightarrow> cmd = ''reset''"
  "GetcmdType cmd = WSAP_OutboundCall \<longleftrightarrow> cmd = ''dial''" "GetcmdType cmd = WSAP_ResetConfig \<longleftrightarrow> cmd = ''ResetConfig''"
  "GetcmdType cmd = WSAP_getusers \<longleftrightarrow> cmd = ''getusers''" "GetcmdType cmd = WSAP_Heartbeat \<longleftrightarrow> cmd = ''heartbeat''"
  using cmd_from_nth [OF distinct_commands, of _ 0 cmd] unfolding GetcmdType_def
  by (simp_all add: wsap_codes CmdType_def del: cmd_from.simps)

lemma action_answers:
  assumes "ws_action E ip (GetcmdType cmd) p c = Inr (cc, answers)"
  shows "length answers =
     (if cmd \<notin> {''login'', ''logout'', ''changestate'', ''getusers'', ''reset'', ''dial'', ''heartbeat'', ''ResetConfig''} then 0
      else if cmd = ''dial'' \<and> text_params p [''userId''] \<noteq> Inr None then 2 else 1)"
proof -
  have d: "ws_dial E p c = Inr (cc, answers) \<Longrightarrow> length answers = (if text_params p [''userId''] \<noteq> Inr None then 2 else 1)"
    by (auto simp: ws_dial_def with_params_Inr res_bind_Inr_iff dest!: heartbeat_keeps split: option.splits)
  have a: "\<And>u v. ws_signin E ip u v c = Inr (cc, answers) \<Longrightarrow> length answers = 1"
      "\<And>u. ws_signout E u c = Inr (cc, answers) \<Longrightarrow> length answers = 1"
      "\<And>u. ws_set_status E p u c = Inr (cc, answers) \<Longrightarrow> length answers = 1"
      "\<And>u. ws_reset E u c = Inr (cc, answers) \<Longrightarrow> length answers = 1"
      "ws_reset_config E p c = Inr (cc, answers) \<Longrightarrow> length answers = 1"
    by (auto simp: ws_signin_def ws_signout_def ws_set_status_def ws_reset_def ws_reset_config_def with_params_Inr
        res_bind_Inr_iff split: if_splits prod.splits option.splits)
  note q = heartbeat_keeps [THEN conjunct2] getusers_keeps [THEN conjunct2]
  show ?thesis
    using assms unfolding ws_action_def cmd_code_names by (auto simp: with_params_Inr split: if_splits option.splits dest: d intro: a [unfolded One_nat_def] q [unfolded One_nat_def])
qed

text \<open>
  How many answers a request gets, when the server survives it: none when its action is not one of
  the eight the server knows (and then nothing changes), two for \<open>dial\<close> with a number, whose case runs
  on into that of the heartbeat, and one otherwise.
\<close>

theorem ws_answers_each_request:
  assumes "ws_request E msg cmd p" "on_callapclient E msg c = Inr (cc, answers)"
  shows "length answers =
     (if cmd \<notin> {''login'', ''logout'', ''changestate'', ''getusers'', ''reset'', ''dial'', ''heartbeat'', ''ResetConfig''} then 0
      else if cmd = ''dial'' \<and> text_params p [''userId''] \<noteq> Inr None then 2 else 1) \<and>
    (answers = [] \<longrightarrow> cc = c)"
proof -
  have a: "ws_action E (the (ws_peer E)) (GetcmdType cmd) p c = Inr (cc, answers)"
    using assms by (simp add: request_action)
  have "answers = [] \<Longrightarrow> cc = c"
    using a action_answers [OF a] by (auto simp: ws_action_def cmd_code_names split: if_splits)
  then show ?thesis using action_answers [OF a] by blast
qed

text \<open>
  Signing in does not ask for the password: whatever the text \<open>password\<close> holds, an agent the database
  knows under a number of the routing table is ready afterwards, and the answer is that of a success.
\<close>

theorem login_without_password:
  assumes "ws_request E msg ''login'' p" "text_params p [''userId'', ''password''] = Inr (Some [dn, password])"
    "GetJavaUserInfo (ws_db E) dn new_java_user = Inr (u, True)" "checkvaildDN dn (cc_dn c)"
    "on_callapclient E msg c = Inr (cc, answers)"
  shows "\<exists>v code. map_find (m_DNmap (cc_dn cc)) dn = Some v \<and> m_agentstatus v = DN_Waiting_ready \<and>
    code = (if map_find (m_DNmap (cc_dn c)) dn = None then DN_OPERATOR_SUCCESSED else DN_HAS_SIGNINED) \<and>
    answers = [OnSignIn code [] dn u]"
proof -
  have s: "ws_signin E (the (ws_peer E)) dn password c = Inr (cc, answers)"
    using assms(5) by (simp add: request_action [OF assms(1)] cmd_codes ws_action_def with_params_Inr assms(2) wsap_codes)
  have "\<And>r mgr. Signin (ws_dn E) dn dn password 1 False False (ju_skill_id u) (ju_department_id u) [] (ju_user_name u)
      (the (ws_peer E)) (cc_dn c) = Inr (r, mgr) \<Longrightarrow>
      r = (if map_find (m_DNmap (cc_dn c)) dn = None then DN_OPERATOR_SUCCESSED else DN_HAS_SIGNINED) \<and>
      (\<exists>v. map_find (m_DNmap mgr) dn = Some v \<and> m_agentstatus v = DN_Waiting_ready)"
    using assms(4)
    by (auto simp: Signin_def put_user_def map_find_put map_insert_def new_user_def res_bind_Inr_iff signal_keeps DN_Waiting_ready_def
        Let_def dest!: sql_keeps_map split: option.splits if_splits)
  then show ?thesis using s assms(3) by (auto simp: ws_signin_def res_bind_Inr_iff)
qed

text \<open>
  A client that asks for a change of its status in the documented form, with the new status in the
  member \<open>state\<close> and no other number, is signed off instead: the status of the agent becomes 0
  (\<open>DN_NoLogin\<close>) whatever is asked for, and the answer is that of a success.
\<close>

theorem changestate_signs_off:
  assumes "dn_inv (cc_dn c)" "ws_request E msg ''changestate'' p"
    "text_params p [''userId'', ''state''] = Inr (Some [agentId, state])"
    "member p ''agentStatus'' = Inr WNull" "ws_as_int E WNull = Inr 0"
    "GetDNbyagentid agentId (cc_dn c) \<noteq> []" "on_callapclient E msg c = Inr (cc, answers)"
  shows "answers = [Onresponse DN_OPERATOR_SUCCESSED [] agentId ''onchangestate''] \<and>
    (\<exists>u. map_find (m_DNmap (cc_dn c)) (GetDNbyagentid agentId (cc_dn c)) = Some u \<and>
       map_find (m_DNmap (cc_dn cc)) =
         (map_find (m_DNmap (cc_dn c)))(GetDNbyagentid agentId (cc_dn c) := Some (u\<lparr>m_agentstatus := DN_NoLogin\<rparr>)))"
proof -
  obtain r mgr where s: "SetDNstatus (ws_dn E) agentId 0 (cc_dn c) = Inr (r, mgr)"
      "cc = c\<lparr>cc_dn := mgr\<rparr>" "answers = [Onresponse r [] agentId ''onchangestate'']"
    using assms(3-5,7)
    by (auto simp: request_action [OF assms(2)] cmd_codes ws_action_def with_params_Inr wsap_codes ws_set_status_def res_bind_Inr_iff)
  show ?thesis using SetDNstatus_exact [OF assms(1,6) s(1)] s(2,3) by (auto simp: DN_NoLogin_def)
qed

text \<open>
  The list of the agents cannot be asked for: as soon as one agent is in it, the code reads the
  number of its department through the end of the vector.
\<close>

theorem getusers_reads_behind:
  assumes "ws_request E msg ''getusers'' p"
    "text_params p [''userId'', ''state'', ''department''] = Inr (Some [userId, state, department])"
    "map_find (m_DNmap (cc_dn c)) userId \<noteq> None" "(dn, u) \<in> set (m_DNmap (cc_dn c))"
    "department = [] \<or> m_department_id u = c_atoi department" "state = ''0'' \<or> m_agentstatus u = c_atoi state"
  shows "on_callapclient E msg c = Inl OutOfBounds"
proof -
  let ?us = "filter (\<lambda>u. (department = [] \<or> m_department_id u = c_atoi department) \<and>
      (state = ''0'' \<or> m_agentstatus u = c_atoi state)) (map snd (m_DNmap (cc_dn c)))"
  have "u \<in> set ?us" using assms(4-6) by force
  then obtain v us where "?us = v # us" by (cases ?us) auto
  then have "GetUserInfolist userId department state (cc_dn c) = (DN_OPERATOR_SUCCESSED, v # us)"
    using assms(3) unfolding GetUserInfolist_def by simp
  then show ?thesis
    by (simp add: request_action [OF assms(1)] cmd_codes ws_action_def wsap_codes with_params_def assms(2) ws_getusers_def)
qed

section \<open>Examples\<close>

definition demo_ws :: "string \<Rightarrow> (string \<times> json) list \<Rightarrow> (nat, string list) ws_env" where
  "demo_ws cmd ps = \<lparr>ws_dn = demo_env, ws_db = demo_db,
     ws_parse = (\<lambda>msg. Some (obj [(''action'', WText cmd), (''param'', obj ps)])), ws_as_int = (\<lambda>v. Inr 0), ws_peer = Some ''ip'',
     ws_ret = 0, ws_agent = \<lparr>ag_exten = [], ag_uuid = [], ag_state = 0\<rparr>, ws_tail = [], ws_stray = None, ws_menu = menu_parse\<rparr>"

lemma demo_request: "ws_request (demo_ws cmd ps) msg cmd (obj ps)"
  by (simp add: ws_request_def demo_ws_def obj_def map_find_Cons)

lemma demo_ws_fields [simp]:
  "ws_dn (demo_ws cmd ps) = demo_env" "ws_db (demo_ws cmd ps) = demo_db" "ws_as_int (demo_ws cmd ps) v = Inr 0"
  "ws_peer (demo_ws cmd ps) = Some ''ip''"
  by (simp_all add: demo_ws_def)

abbreviation demo_cc :: "(string \<times> dn_user) list \<Rightarrow> (nat, string list) call_center" where
  "demo_cc m \<equiv> demo_center\<lparr>cc_dn := demo_manager m\<rparr>"

abbreviation "demo_login \<equiv> demo_ws ''login'' [(''userId'', WText ''1001''), (''password'', WText ''wrong'')]"
abbreviation "demo_change \<equiv> demo_ws ''changestate'' [(''userId'', WText ''id1001''), (''state'', WText ''1'')]"

lemma demo_params:
  "text_params (obj [(''userId'', WText a), (''password'', WText b)]) [''userId'', ''password''] = Inr (Some [a, b])"
  "text_params (obj [(''userId'', WText a), (''state'', WText b)]) [''userId'', ''state''] = Inr (Some [a, b])"
  "text_params (obj [(''userId'', WText a), (''state'', WText b), (''department'', WText d)]) [''userId'', ''state'', ''department''] = Inr (Some [a, b, d])"
  "text_params (obj [(''userId'', WText a)]) [''userId''] = Inr (Some [a])"
  by (simp_all add: text_params.simps obj_def map_find_Cons)

lemma demo_user: "\<exists>u. GetJavaUserInfo demo_db ''1001'' new_java_user = Inr (u, True) \<and> ju_password u = ''right''"
  by (simp add: GetJavaUserInfo_def run_query_def demo_db_def java_user_row_def java_user_fields_def demo_row_def
      text_field_def int_field_def)

lemma demo_login_runs: "\<exists>cc answers. on_callapclient demo_login ''msg'' (demo_cc []) = Inr (cc, answers)"
proof -
  obtain u where u: "GetJavaUserInfo demo_db ''1001'' new_java_user = Inr (u, True)" using demo_user by blast
  show ?thesis
    by (simp add: request_action [OF demo_request] cmd_codes ws_action_def wsap_codes with_params_def demo_params ws_signin_def u
        Signin_def InsertTable_def run_sql_def demo_env_def user_serialize_def new_user_def SetDNsemaSignal_def Let_def)
qed

lemma demo_sign_off: "\<exists>r. SetDNstatus demo_env ''id1001'' 0 (demo_manager demo_agents) = Inr r"
  by (simp add: SetDNstatus_def Changestate_def DeleteTable_def InsertTable_def run_sql_def demo_env_def
      user_serialize_def GetDNbyagentid_def SetagnetStatus_def put_user_def user_at_def map_find_Cons Let_def dn_codes)

lemma demo_no_number: "member (obj [(''userId'', WText a), (''state'', WText b)]) ''agentStatus'' = Inr WNull"
  by (simp add: obj_def map_find_Cons)

lemma demo_change_runs: "\<exists>cc answers. on_callapclient demo_change ''msg'' (demo_cc demo_agents) = Inr (cc, answers)"
proof -
  obtain r mgr where r: "SetDNstatus demo_env ''id1001'' 0 (demo_manager demo_agents) = Inr (r, mgr)" using demo_sign_off by auto
  show ?thesis
    by (simp add: request_action [OF demo_request] cmd_codes ws_action_def wsap_codes with_params_def demo_params ws_set_status_def
        demo_no_number r)
qed


theorem ws_answers_each_request_witness:
  "\<exists>cc answers. on_callapclient (demo_ws ''dial'' [(''userId'', WText ''1001'')]) ''msg'' (demo_cc []) = Inr (cc, answers) \<and> length answers = 2"
proof -
  obtain cc answers where r: "on_callapclient (demo_ws ''dial'' [(''userId'', WText ''1001'')]) ''msg'' (demo_cc []) = Inr (cc, answers)"
    by (simp add: request_action [OF demo_request] cmd_codes ws_action_def wsap_codes ws_dial_def ws_heartbeat_def with_params_def
        demo_params Getpermission_def run_query_def demo_db_def)
  show ?thesis using ws_answers_each_request [OF demo_request r] r by (simp add: demo_params)
qed

theorem login_without_password_witness:
  "\<exists>cc u answers. on_callapclient demo_login ''msg'' (demo_cc []) = Inr (cc, answers) \<and>
     GetJavaUserInfo demo_db ''1001'' new_java_user = Inr (u, True) \<and> ju_password u = ''right'' \<and>
     answers = [OnSignIn DN_OPERATOR_SUCCESSED [] ''1001'' u]"
proof -
  obtain u where u: "GetJavaUserInfo demo_db ''1001'' new_java_user = Inr (u, True)" "ju_password u = ''right''" using demo_user by blast
  obtain cc answers where r: "on_callapclient demo_login ''msg'' (demo_cc []) = Inr (cc, answers)" using demo_login_runs by blast
  show ?thesis using login_without_password [OF demo_request demo_params(1) _ _ r, of u] u r by auto
qed

theorem changestate_signs_off_witness:
  "\<exists>cc answers u. on_callapclient demo_change ''msg'' (demo_cc demo_agents) = Inr (cc, answers) \<and>
     map_find (m_DNmap (cc_dn cc)) ''1001'' = Some u \<and> m_agentstatus u = DN_NoLogin"
proof -
  obtain cc answers where r: "on_callapclient demo_change ''msg'' (demo_cc demo_agents) = Inr (cc, answers)" using demo_change_runs by blast
  have g: "GetDNbyagentid ''id1001'' (demo_manager demo_agents) = ''1001''" by (simp add: GetDNbyagentid_def)
  show ?thesis
    using changestate_signs_off [OF _ demo_request demo_params(2) _ _ _ r] r demo_agents_ok
    by (auto simp: g obj_def map_find_Cons)
qed

theorem getusers_reads_behind_witness:
  "on_callapclient (demo_ws ''getusers'' [(''userId'', WText ''1001''), (''state'', WText ''0''), (''department'', WText [])]) ''msg''
     (demo_cc demo_agents) = Inl OutOfBounds"
  by (rule getusers_reads_behind [OF demo_request demo_params(3), where dn = "''1002''" and u = "agent ''1002'' 1 0 0 0"]) (simp_all add: map_find_Cons)

end
