(* ===== verification/CalloutManager.thy ===== *)
theory CalloutManager
  imports WsServer
begin

text \<open>
  The predictive dialler (\<^verbatim>\<open>CalloutManager.cpp\<close>): the tasks, whose threads call the numbers of the table of
  the database as agents become ready; the JSON messages that create tasks, set their rate and write the
  XML files of FreeSWITCH; and the list of the tasks.

  pugixml is not in the repository: a document is the list of its elements, saving and loading a file
  give the document back, and what \<open>load\<close> makes of a text is a parameter.
\<close>

section \<open>Tasks\<close>

definition TASK_Init :: int where "TASK_Init = 0"
definition TASK_FINISH :: int where "TASK_FINISH = 1"

record call_task =
  ct_task_id :: string
  ct_company_id :: string
  ct_rate :: int
  ct_status :: int
  ct_calls :: "out_call list"

text \<open>
  \<open>m_rate\<close> is a \<^verbatim>\<open>float\<close>, but it only ever holds whole numbers: those an \<^verbatim>\<open>int\<close> is converted to. A whole
  number of more than 24 binary digits is rounded to the nearest one that has 24, ties to the even one.
\<close>

fun scale24 :: "nat \<Rightarrow> nat" where
  "scale24 n = (if n < 2 ^ 24 then 0 else Suc (scale24 (n div 2)))"

declare scale24.simps [simp del]

definition round24 :: "nat \<Rightarrow> nat" where
  "round24 n =
     (let k = scale24 n; q = n div 2 ^ k; r = n mod 2 ^ k
      in (if 2 * r < 2 ^ k \<or> 2 * r = 2 ^ k \<and> even q then q else q + 1) * 2 ^ k)"

definition to_float :: "int \<Rightarrow> int" where
  "to_float i = (if i < 0 then - int (round24 (nat (- i))) else int (round24 (nat i)))"

definition new_task :: "string \<Rightarrow> string \<Rightarrow> call_task" where
  "new_task taskid conpanyid =
     \<lparr>ct_task_id = taskid, ct_company_id = conpanyid, ct_rate = to_float 1, ct_status = TASK_Init, ct_calls = []\<rparr>"

text \<open>
  \<open>num = GetWaitingDN(...) * m_rate\<close>: the product is a \<^verbatim>\<open>float\<close>, whose conversion is undefined when it is no
  \<^verbatim>\<open>int\<close>.
\<close>

definition call_quota :: "nat \<Rightarrow> int \<Rightarrow> int c_result" where
  "call_quota waiting rate =
     (let x = to_float (to_float (int waiting) * rate) in if - (2 ^ 31) \<le> x \<and> x < 2 ^ 31 then Inr x else Inl OutOfBounds)"

definition originate_cmd :: "string \<Rightarrow> out_call \<Rightarrow> string" where
  "originate_cmd pre c =
     ''bgapi originate {ignore_early_media=true,company_id='' @ dec_int (oc_company_id c) @ '',taskID='' @ oc_task_id c @
     ''}sofia/gateway/reingw/'' @ pre @ oc_phone c @ '' &park()''"

text \<open>
  The loop of \<open>CallTask::run\<close>. While no call may be made it waits for \<open>m_calloutsema\<close>; \<open>wakes\<close> are the waits
  that return, each with the number of waiting agents and the rate found then. The result is what was
  sent and what is left: the loop is over when nothing is left, otherwise it is still waiting. The
  command is printed into an array of 256 characters.
\<close>

fun run_calls :: "string \<Rightarrow> int \<Rightarrow> out_call list \<Rightarrow> (nat \<times> int) list \<Rightarrow> (string list \<times> out_call list) c_result" where
  "run_calls pre num [] wakes = Inr ([], [])"
| "run_calls pre num (c # cs) wakes =
     (if num \<le> 0
      then case wakes of
             [] \<Rightarrow> Inr ([], c # cs)
           | (waiting, rate) # later \<Rightarrow> res_bind (call_quota waiting rate) (\<lambda>n. run_calls pre n (c # cs) later)
      else if length (originate_cmd pre c) < 256
      then res_bind (run_calls pre (num - 1) cs wakes) (\<lambda>(sent, left). Inr (originate_cmd pre c # sent, left))
      else Inl OutOfBounds)"

text \<open>\<open>CallTask::run\<close>; at the start the rate is not used.\<close>

definition CallTask_run ::
  "string \<Rightarrow> db \<Rightarrow> ('s, 'd) dn_manager \<Rightarrow> (nat \<times> int) list \<Rightarrow> call_task \<Rightarrow> (call_task \<times> string list) c_result" where
  "CallTask_run pre db mgr wakes task =
     res_bind (GetOutcalllist db (ct_calls task)) (\<lambda>(calls, found).
     let num = int (GetWaitingDN (c_atoi (ct_company_id task)) mgr)
     in res_bind (run_calls pre num calls wakes) (\<lambda>(sent, left).
        Inr (task\<lparr>ct_calls := calls, ct_status := (if left = [] then TASK_FINISH else ct_status task)\<rparr>, sent)))"

text \<open>
  \<open>Deletetask\<close>: \<open>i\<close> is the iterator. \<open>erase(ite++)\<close> moves the following tasks one place down while the
  iterator goes one place up; an iterator behind the end is not equal to the end, and is read.
\<close>

function delete_tasks :: "nat \<Rightarrow> call_task list \<Rightarrow> call_task list c_result" where
  "delete_tasks i ts =
     (if i = length ts \<or> ts = [] then Inr ts
      else if length ts < i then Inl OutOfBounds
      else if ct_status (ts ! i) = TASK_FINISH then delete_tasks (Suc i) (take i ts @ drop (Suc i) ts)
      else delete_tasks (Suc i) ts)"
  by pat_completeness auto
termination
  by (relation "measure (\<lambda>(i, ts). Suc (length ts) - i)") auto

declare delete_tasks.simps [simp del]

definition Deletetask :: "call_task list \<Rightarrow> call_task list c_result" where
  "Deletetask ts = delete_tasks 0 ts"

section \<open>The XML files of FreeSWITCH\<close>

datatype xml = Elem string "(string \<times> string) list" "xml list"

text \<open>
  \<open>child(name)\<close> is the first child of that name; setting an attribute of an element, or of a null node,
  that does not have it changes nothing.
\<close>

fun set_value :: "string \<Rightarrow> string \<Rightarrow> (string \<times> string) list \<Rightarrow> (string \<times> string) list" where
  "set_value a v [] = []"
| "set_value a v ((b, w) # as) = (if b = a then (b, v) # as else (b, w) # set_value a v as)"

fun set_attr :: "string \<Rightarrow> string \<Rightarrow> xml \<Rightarrow> xml" where
  "set_attr a v (Elem n as cs) = Elem n (set_value a v as) cs"

fun at_child :: "string \<Rightarrow> (xml \<Rightarrow> xml) \<Rightarrow> xml list \<Rightarrow> xml list" where
  "at_child n f [] = []"
| "at_child n f (Elem m as cs # es) = (if m = n then f (Elem m as cs) # es else Elem m as cs # at_child n f es)"

fun in_children :: "(xml list \<Rightarrow> xml list) \<Rightarrow> xml \<Rightarrow> xml" where
  "in_children f (Elem n as cs) = Elem n as (f cs)"

fun at_first :: "(xml \<Rightarrow> xml) \<Rightarrow> xml list \<Rightarrow> xml list" where
  "at_first f [] = []"
| "at_first f (e # es) = f e # es"

definition name_value :: "string \<Rightarrow> string \<Rightarrow> string \<Rightarrow> xml" where
  "name_value tag n v = Elem tag [(''name'', n), (''value'', v)] []"

definition gateway_xml :: "string \<Rightarrow> string \<Rightarrow> string \<Rightarrow> string \<Rightarrow> string \<Rightarrow> string \<Rightarrow> string \<Rightarrow> xml list" where
  "gateway_xml name realm proxy expirese username password strregister =
     [Elem ''include'' [] [Elem ''gateway'' [(''name'', name)]
        [name_value ''param'' ''realm'' realm, name_value ''param'' ''proxy'' proxy, name_value ''param'' ''expire-seconds'' expirese,
         name_value ''param'' ''username'' username, name_value ''param'' ''password'' password, name_value ''param'' ''register'' strregister]]]"

definition dn_xml :: "string \<Rightarrow> string \<Rightarrow> xml list" where
  "dn_xml password dnnumber =
     [Elem ''include'' [] [Elem ''user'' []
        [Elem ''params'' [] [name_value ''param'' ''password'' password, name_value ''param'' ''vm-password'' dnnumber],
         Elem ''variables'' []
           [name_value ''variable'' ''toll_allow'' ''domestic,international,local'', name_value ''variable'' ''accountcode'' dnnumber,
            name_value ''variable'' ''user_context'' ''default'',
            name_value ''variable'' ''effective_caller_id_name'' (''Extension '' @ dnnumber),
            name_value ''variable'' ''effective_caller_id_number'' dnnumber,
            name_value ''variable'' ''outbound_caller_id_name'' ''$${outbound_caller_name}'',
            name_value ''variable'' ''outbound_caller_id_number'' ''$${outbound_caller_id}'',
            name_value ''variable'' ''callgroup'' ''techsupport'']]]]"

section \<open>The manager\<close>

text \<open>\<open>cm_sent\<close> are the commands sent to FreeSWITCH to make it read the files again.\<close>

record callout_manager =
  cm_tasklist :: "call_task list"
  cm_files :: "(string, xml list) std_map"
  cm_sent :: "string list"

record callout_env =
  ce_parse :: "string \<Rightarrow> json option"
  ce_int :: "json \<Rightarrow> int option"
  ce_string :: "json \<Rightarrow> string c_result"
  ce_load :: "string \<Rightarrow> xml list option"
  ce_xmlpath :: string

abbreviation NEWLINE :: string where "NEWLINE \<equiv> [CHR 0x0A]"

definition Reloadfs :: "callout_manager \<Rightarrow> callout_manager" where
  "Reloadfs cm = cm\<lparr>cm_sent := cm_sent cm @
     [''api sofia profile external restart reloadxml '' @ NEWLINE @ ''console_execute: true'' @ NEWLINE @ NEWLINE]\<rparr>"

definition Reloadconf_directory :: "callout_manager \<Rightarrow> callout_manager" where
  "Reloadconf_directory cm = cm\<lparr>cm_sent := cm_sent cm @
     [''api reloadxml '' @ NEWLINE @ ''console_execute: true'' @ NEWLINE @ NEWLINE]\<rparr>"

definition save_file :: "string \<Rightarrow> xml list \<Rightarrow> callout_manager \<Rightarrow> callout_manager" where
  "save_file path doc cm = cm\<lparr>cm_files := map_put path doc (cm_files cm)\<rparr>"

definition Creategata ::
  "callout_env \<Rightarrow> string \<Rightarrow> string \<Rightarrow> string \<Rightarrow> string \<Rightarrow> string \<Rightarrow> string \<Rightarrow> string \<Rightarrow> callout_manager \<Rightarrow> callout_manager" where
  "Creategata E name realm proxy expirese username password strregister cm =
     Reloadfs (save_file (ce_xmlpath E @ name @ ''.xml'') (gateway_xml name realm proxy expirese username password strregister) cm)"

text \<open>
  \<open>Setgataxml\<close> (whose call of \<open>load\<close> lacks a parenthesis): the path itself, not the file, is parsed as a
  document, in which the attribute \<open>vaule\<close> of an element is set; the document is then written to the file.
\<close>

definition Setgataxml :: "callout_env \<Rightarrow> string \<Rightarrow> string \<Rightarrow> string \<Rightarrow> callout_manager \<Rightarrow> callout_manager" where
  "Setgataxml E name param strvalue cm =
     (let fullpath = ce_xmlpath E @ name @ ''.xml''
      in Reloadfs (case ce_load E fullpath of
           None \<Rightarrow> cm
         | Some xdoc \<Rightarrow>
             save_file fullpath
               (at_child ''include'' (in_children
                  (if param = ''register'' then at_child ''register'' (set_attr ''vaule'' strvalue)
                   else at_child name (in_children (at_child param (set_attr ''vaule'' strvalue))))) xdoc) cm))"

definition dn_path :: "string \<Rightarrow> string" where
  "dn_path dnnumber = ''/usr/local/freeswitch/conf/directory/default/'' @ dnnumber @ ''.xml''"

definition CreateDNxml :: "string \<Rightarrow> callout_manager \<Rightarrow> callout_manager" where
  "CreateDNxml dnnumber cm =
     Reloadconf_directory (save_file (dn_path dnnumber) (dn_xml ''$${default_password}'' dnnumber) cm)"

definition SetDNpasswd :: "string \<Rightarrow> string \<Rightarrow> callout_manager \<Rightarrow> callout_manager" where
  "SetDNpasswd dnnumber password cm =
     Reloadconf_directory
       (case map_find (cm_files cm) (dn_path dnnumber) of
          None \<Rightarrow> cm
        | Some xdoc \<Rightarrow>
            save_file (dn_path dnnumber)
              (at_child ''include'' (in_children (at_child ''user'' (in_children (at_child ''params''
                 (in_children (at_first (set_attr ''value'' password))))))) xdoc) cm)"

section \<open>The messages\<close>

text \<open>
  A command whose parameters are the given texts. \<open>ce_int\<close> is a number that is an \<^verbatim>\<open>int\<close>, \<open>ce_string\<close> the
  conversion to a text.
\<close>

definition cmd_params ::
  "json \<Rightarrow> string list \<Rightarrow> string \<Rightarrow> callout_manager \<Rightarrow> (string list \<Rightarrow> (string \<times> callout_manager) c_result) \<Rightarrow> (string \<times> callout_manager) c_result" where
  "cmd_params root ks lost cm act = res_bind (text_params root ks) (\<lambda>r. case r of None \<Rightarrow> Inr (lost, cm) | Some ts \<Rightarrow> act ts)"

definition set_rate :: "string \<Rightarrow> int \<Rightarrow> call_task list \<Rightarrow> call_task list" where
  "set_rate taskid rate ts = map (\<lambda>t. if ct_task_id t = taskid then t\<lparr>ct_rate := to_float rate\<rparr> else t) ts"

definition on_command :: "callout_env \<Rightarrow> json \<Rightarrow> string \<Rightarrow> callout_manager \<Rightarrow> (string \<times> callout_manager) c_result" where
  "on_command E root strcmd cm =
     (if strcmd = ''CreateTask'' then
        cmd_params root [''companyID'', ''taskID''] ''CreateTask lost param'' cm (\<lambda>ts.
          Inr (''create task successfully '', cm\<lparr>cm_tasklist := cm_tasklist cm @ [new_task (ts ! 1) (ts ! 0)]\<rparr>))
      else if strcmd = ''SetCallrate'' then
        cmd_params root [''companyID'', ''taskID''] ''SetCallrate lost param'' cm (\<lambda>ts.
          res_bind (member root ''rate'') (\<lambda>v.
          case ce_int E v of
            None \<Rightarrow> Inr (''SetCallrate lost param'', cm)
          | Some rate \<Rightarrow> Inr (''ok'', cm\<lparr>cm_tasklist := set_rate (ts ! 1) rate (cm_tasklist cm)\<rparr>)))
      else if strcmd = ''CreateFSxml'' then
        cmd_params root [''name'', ''realm'', ''proxy'', ''expirese'', ''username'', ''password'', ''register''] ''CreateFSxml lost param'' cm (\<lambda>ts.
          Inr (''ok'', Creategata E (ts ! 0) (ts ! 1) (ts ! 2) (ts ! 3) (ts ! 4) (ts ! 5) (ts ! 6) cm))
      else if strcmd = ''SetFSxml'' then
        cmd_params root [''name'', ''param'', ''value''] ''SetFSxml lost param'' cm (\<lambda>ts.
          res_bind (member root ''root'') (\<lambda>v. res_bind (ce_string E v) (\<lambda>name.
          Inr (''ok'', Setgataxml E name (ts ! 1) (ts ! 2) cm))))
      else if strcmd = ''CreateDNxml'' then
        cmd_params root [''DNnumber''] ''SetFSxml lost param'' cm (\<lambda>ts. Inr (''ok'', CreateDNxml (ts ! 0) cm))
      else if strcmd = ''SetDNpasswd'' then
        cmd_params root [''DNnumber'', ''password''] ''SetFSxml lost param'' cm (\<lambda>ts. Inr (''ok'', SetDNpasswd (ts ! 0) (ts ! 1) cm))
      else Inr (''ok'', cm))"

definition OnMsg :: "callout_env \<Rightarrow> string \<Rightarrow> callout_manager \<Rightarrow> (string \<times> callout_manager) c_result" where
  "OnMsg E data cm =
     res_bind (Deletetask (cm_tasklist cm)) (\<lambda>ts.
     let cm1 = cm\<lparr>cm_tasklist := ts\<rparr>
     in case ce_parse E data of
          None \<Rightarrow> Inr (''parse json failed'', cm1)
        | Some root \<Rightarrow> cmd_params root [''cmd''] ''param type or num is less'' cm1 (\<lambda>cs. on_command E root (cs ! 0) cm1))"

text \<open>\<open>Ondata\<close>: the answer\<close>

definition Ondata :: "callout_env \<Rightarrow> string \<Rightarrow> callout_manager \<Rightarrow> (json \<times> callout_manager) c_result" where
  "Ondata E data cm = res_bind (OnMsg E data cm) (\<lambda>(strmsg, cm1). Inr (obj [(''status'', WText strmsg)], cm1))"

section \<open>The dialler\<close>

declare run_calls.simps [simp del]

text \<open>The calls a wait allows.\<close>

definition quota_of :: "nat \<times> int \<Rightarrow> nat" where
  "quota_of w = (case call_quota (fst w) (snd w) of Inl e \<Rightarrow> 0 | Inr x \<Rightarrow> nat x)"

lemma run_calls_spec:
  assumes "\<forall>c \<in> set cs. length (originate_cmd pre c) < 256" "\<forall>(n, r) \<in> set wakes. no_fault (call_quota n r)"
  shows "run_calls pre num cs wakes =
    (let k = nat num + sum_list (map quota_of wakes) in Inr (map (originate_cmd pre) (take k cs), drop k cs))"
  using assms
proof (induction pre num cs wakes rule: run_calls.induct)
  case (2 pre num c cs wakes)
  show ?case
  proof (cases "num \<le> 0")
    case True
    show ?thesis
    proof (cases wakes)
      case (Cons w later)
      obtain n r where w: "w = (n, r)" by (cases w)
      then obtain x where x: "call_quota n r = Inr x" using "2.prems"(2) Cons by (auto simp: no_fault_iff)
      have "run_calls pre num (c # cs) wakes = run_calls pre x (c # cs) later"
        by (simp add: run_calls.simps(2) [of pre num] True Cons w x)
      also have "\<dots> = (let k = nat x + sum_list (map quota_of later) in Inr (map (originate_cmd pre) (take k (c # cs)), drop k (c # cs)))"
        by (rule "2.IH"(1) [OF True Cons w [symmetric]]) (use "2.prems" Cons in auto)
      moreover have "quota_of (n, r) = nat x" by (simp add: quota_of_def x)
      ultimately show ?thesis using True by (simp add: Cons w)
    qed (simp add: True run_calls.simps)
  next
    case False
    then have "nat num = Suc (nat (num - 1))" by simp
    then show ?thesis using "2.IH"(2) [OF False] "2.prems" False by (simp add: run_calls.simps Let_def)
  qed
qed (simp add: run_calls.simps)


section \<open>Deleting tasks\<close>

abbreviation finished :: "call_task \<Rightarrow> bool" where
  "finished t \<equiv> ct_status t = TASK_FINISH"

text \<open>What the loop leaves of the tasks from the iterator on, \<open>None\<close> when it runs behind the end.\<close>

fun sweep :: "call_task list \<Rightarrow> call_task list option" where
  "sweep [] = Some []"
| "sweep [x] = (if finished x then None else Some [x])"
| "sweep (x # y # xs) = (if finished x then map_option ((#) y) (sweep xs) else map_option ((#) x) (sweep (y # xs)))"

lemma delete_tasks_sweep:
  "delete_tasks (length us) (us @ ts) =
     (case sweep ts of
        Some r \<Rightarrow> Inr (us @ r)
      | None \<Rightarrow> if us = [] \<and> length ts = 1 then Inr [] else Inl OutOfBounds)"
proof (induction ts arbitrary: us rule: sweep.induct)
  case (2 x)
  show ?case
    by (subst delete_tasks.simps) (simp add: delete_tasks.simps [of "Suc (length us)"])
next
  case (3 x y xs)
  show ?case
  proof (cases "finished x")
    case True
    then show ?thesis using "3.IH"(1) [OF True, of "us @ [y]"]
      by (subst delete_tasks.simps) (simp split: option.split)
  next
    case False
    then show ?thesis using "3.IH"(2) [OF False, of "us @ [x]"]
      by (subst delete_tasks.simps) (simp split: option.split)
  qed
qed (subst delete_tasks.simps, simp)

lemma sweep_running: "\<forall>t \<in> set us. \<not> finished t \<Longrightarrow> sweep (us @ ts) = map_option ((@) us) (sweep ts)"
proof (induction us)
  case (Cons u us)
  then show ?case by (cases "us @ ts") (auto simp: option.map_comp o_def)
next
  case Nil
  show ?case by (cases "sweep ts") simp_all
qed

lemma sweep_isolated:
  "\<forall>i < length ts. finished (ts ! i) \<longrightarrow> Suc i < length ts \<and> \<not> finished (ts ! Suc i) \<Longrightarrow>
     sweep ts = Some (filter (\<lambda>t. \<not> finished t) ts)"
proof (induction ts rule: sweep.induct)
  case (3 x y xs)
  have later: "\<forall>i < length (y # xs). finished ((y # xs) ! i) \<longrightarrow> Suc i < length (y # xs) \<and> \<not> finished ((y # xs) ! Suc i)"
    using "3.prems" by force
  have rest: "\<forall>i < length xs. finished (xs ! i) \<longrightarrow> Suc i < length xs \<and> \<not> finished (xs ! Suc i)"
    using later by force
  show ?case
  proof (cases "finished x")
    case True
    then show ?thesis using "3.IH"(1) [OF True rest] "3.prems" by force
  next
    case False
    then show ?thesis using "3.IH"(2) [OF False later] by simp
  qed
qed auto

text \<open>
  \<open>Deletetask\<close> deletes the finished tasks as long as each of them has an unfinished one behind it. Of
  two finished tasks in a row the second stays in the list; and when the last of several tasks is the one
  that is finished the loop goes on behind the end of the list.
\<close>

theorem deletetask_skips:
  "(\<forall>i < length ts. finished (ts ! i) \<longrightarrow> Suc i < length ts \<and> \<not> finished (ts ! Suc i)) \<Longrightarrow>
     Deletetask ts = Inr (filter (\<lambda>t. \<not> finished t) ts) \<and>
     (finished x \<longrightarrow> Deletetask (filter (\<lambda>t. \<not> finished t) ts @ [x, y]) = Inr (filter (\<lambda>t. \<not> finished t) ts @ [y])) \<and>
     (finished x \<and> filter (\<lambda>t. \<not> finished t) ts \<noteq> [] \<longrightarrow> Deletetask (filter (\<lambda>t. \<not> finished t) ts @ [x]) = Inl OutOfBounds)"
  using delete_tasks_sweep [of "[]"] sweep_isolated [of ts] sweep_running [of "filter (\<lambda>t. \<not> finished t) ts"]
  by (simp add: Deletetask_def)

section \<open>The password of a number\<close>

lemma reload_files [simp]: "cm_files (Reloadfs cm) = cm_files cm" "cm_files (Reloadconf_directory cm) = cm_files cm"
  by (simp_all add: Reloadfs_def Reloadconf_directory_def)

lemma save_file_files [simp]: "cm_files (save_file path doc cm) = map_put path doc (cm_files cm)"
  by (simp add: save_file_def)

text \<open>
  The file of a number that is created and then given a password is the file of the number with that
  password, in which nothing else has changed, and no other file has; FreeSWITCH is told twice to read
  its files. A password for a number without file is not written anywhere.
\<close>

theorem dn_password_round_trip:
  "map_find (cm_files (SetDNpasswd dn pw (CreateDNxml dn cm))) = (map_find (cm_files cm))(dn_path dn := Some (dn_xml pw dn)) \<and>
   length (cm_sent (SetDNpasswd dn pw (CreateDNxml dn cm))) = length (cm_sent cm) + 2 \<and>
   (map_find (cm_files cm) (dn_path dn) = None \<longrightarrow> cm_files (SetDNpasswd dn pw cm) = cm_files cm)"
  by (auto simp: SetDNpasswd_def CreateDNxml_def map_find_put dn_xml_def name_value_def Reloadconf_directory_def save_file_def)

text \<open>Setting a parameter of a gateway sets nothing, since a path is not a document.\<close>

lemma gateway_never_set:
  assumes "ce_load E (ce_xmlpath E @ name @ ''.xml'') = None \<or> ce_load E (ce_xmlpath E @ name @ ''.xml'') = Some []"
  shows "cm_files (Setgataxml E name param v cm) = cm_files cm \<or>
    cm_files (Setgataxml E name param v cm) = map_put (ce_xmlpath E @ name @ ''.xml'') [] (cm_files cm)"
  using assms by (auto simp: Setgataxml_def Let_def)

section \<open>Examples\<close>

lemma to_float_small: "0 \<le> i \<Longrightarrow> i < 2 ^ 24 \<Longrightarrow> to_float i = i"
  by (simp add: to_float_def round24_def scale24.simps [of "nat i"] nat_less_iff)

definition call_row :: "string \<Rightarrow> db_row" where
  "call_row phone = demo_row [(''task_id'', ''t1''), (''sex'', []), (''name'', []), (''phone'', phone)] [(''company_id'', 3)]"

definition call_db :: db where
  "call_db sql = (if sql = ''select * from outdial_task_tbl '' then Rows [call_row ''555'', call_row ''556'', call_row ''557''] True else Rows [] True)"

definition demo_call :: "string \<Rightarrow> out_call" where
  "demo_call phone = \<lparr>oc_phone = phone, oc_name = [], oc_task_id = ''t1'', oc_company_id = 3, oc_sex = []\<rparr>"

lemma demo_calls: "GetOutcalllist call_db [] = Inr ([demo_call ''555'', demo_call ''556'', demo_call ''557''], True)"
  by (simp add: GetOutcalllist_def run_query_def call_db_def call_row_def demo_row_def push_row_def read_out_call_def
      text_field_def int_field_def demo_call_def)

lemma demo_quota: "call_quota (Suc 0) 1 = Inr 1"
  by (simp add: call_quota_def to_float_small)

lemma demo_originate: "length p < 20 \<Longrightarrow> length (originate_cmd ''9'' (demo_call p)) < 256"
  by (simp add: originate_cmd_def demo_call_def dec_int_def dec_digits.simps)


definition demo_task :: "int \<Rightarrow> call_task" where
  "demo_task st = (new_task ''t'' ''3'')\<lparr>ct_status := st\<rparr>"

theorem deletetask_skips_witness:
  "Deletetask [demo_task TASK_FINISH, demo_task TASK_Init] = Inr [demo_task TASK_Init] \<and>
   Deletetask [demo_task TASK_Init, demo_task TASK_FINISH] = Inl OutOfBounds"
proof -
  have "\<forall>i < length [demo_task TASK_FINISH, demo_task TASK_Init]. finished ([demo_task TASK_FINISH, demo_task TASK_Init] ! i) \<longrightarrow>
      Suc i < length [demo_task TASK_FINISH, demo_task TASK_Init] \<and> \<not> finished ([demo_task TASK_FINISH, demo_task TASK_Init] ! Suc i)"
    by (auto simp: demo_task_def TASK_Init_def TASK_FINISH_def less_Suc_eq nth_Cons')
  from deletetask_skips [OF this, of "demo_task TASK_FINISH"] show ?thesis
    by (simp add: demo_task_def TASK_Init_def TASK_FINISH_def)
qed

theorem dn_password_round_trip_witness:
  "cm_files (SetDNpasswd ''1001'' ''pw'' \<lparr>cm_tasklist = [], cm_files = [], cm_sent = []\<rparr>) = [] \<and>
   map_find (cm_files (SetDNpasswd ''1001'' ''pw'' (CreateDNxml ''1001'' \<lparr>cm_tasklist = [], cm_files = [], cm_sent = []\<rparr>)))
     (dn_path ''1001'') = Some (dn_xml ''pw'' ''1001'')"
  using dn_password_round_trip [of "''1001''" "''pw''" "\<lparr>cm_tasklist = [], cm_files = [], cm_sent = []\<rparr>"] by simp

end
