(* ===== verification/UserTables.thy ===== *)
theory UserTables
  imports WsServer
begin

text \<open>
  The rest of the tables and of the server of the clients: the list of the users and the registrations of
  \<^verbatim>\<open>common/DBOperator.cpp\<close>, what \<^verbatim>\<open>WS_ApServer.cpp\<close> passes on to it, the set-up of that server and its
  third form of an answer, the sqlite file of \<^verbatim>\<open>DNManager.cpp\<close> as such, and the members of an agent.
\<close>

section \<open>The list of the users\<close>

text \<open>
  The text fields are assigned the number of the column: a \<^verbatim>\<open>std::string\<close> takes it as one character, of its low
  byte. \<open>login_ip\<close> is read from the column of the department.
\<close>

definition char_text :: "int \<Rightarrow> string" where
  "char_text v = [char_of (nat (v mod 256))]"

definition user_list_fields :: "(db_row \<Rightarrow> (java_user \<Rightarrow> java_user) option) list" where
  "user_list_fields =
     [int_field ''enterprise_id'' (\<lambda>v u. u\<lparr>ju_enterprise_id := v\<rparr>), int_field ''company_id'' (\<lambda>v u. u\<lparr>ju_company_id := v\<rparr>),
      int_field ''email'' (\<lambda>v u. u\<lparr>ju_email := char_text v\<rparr>), int_field ''department_id'' (\<lambda>v u. u\<lparr>ju_department_id := v\<rparr>),
      int_field ''department_id'' (\<lambda>v u. u\<lparr>ju_login_ip := char_text v\<rparr>), int_field ''mobile'' (\<lambda>v u. u\<lparr>ju_mobile := char_text v\<rparr>),
      int_field ''nick_name'' (\<lambda>v u. u\<lparr>ju_nick_name := char_text v\<rparr>), int_field ''password'' (\<lambda>v u. u\<lparr>ju_password := char_text v\<rparr>),
      int_field ''skill_id'' (\<lambda>v u. u\<lparr>ju_skill_id := char_text v\<rparr>)]"

definition read_list_user :: "db_row \<Rightarrow> java_user option" where
  "read_list_user r = (case set_fields user_list_fields r new_java_user of (u, ok) \<Rightarrow> if ok then Some u else None)"

definition GetjavauserInfoList :: "db \<Rightarrow> java_user list \<Rightarrow> (java_user list \<times> bool) c_result" where
  "GetjavauserInfoList db userlist =
     res_bind (run_query db ''select * from t_user_tbl '' (push_row read_list_user (\<lambda>u (us, iret). (us @ [u], True))) (userlist, False))
       (\<lambda>(r, ok). Inr r)"

section \<open>Registrations\<close>

text \<open>
  The statement is cut at 1023 characters; the times are unsigned but printed as signed. The result set is dropped, the
  answer is \<open>nSuccess\<close> as a \<open>bool\<close>: \<open>False\<close> for success.
\<close>

definition reg_statement :: "string \<Rightarrow> 64 word \<Rightarrow> 64 word \<Rightarrow> string \<Rightarrow> string" where
  "reg_statement agentnum startTime endTime group_id =
     snprintf_text 1024 (''INSERT INTO reg_info_tbl(group_id,reg_state,reg_start,reg_end,agent) VALUES ('' @
       QUOTE @ group_id @ QUOTE @ '', '' @ QUOTE @ ''2'' @ QUOTE @ '','' @ QUOTE @ dec_int (sint startTime) @ QUOTE @ '','' @
       QUOTE @ dec_int (sint endTime) @ QUOTE @ '','' @ QUOTE @ agentnum @ QUOTE @ '')'')"

definition insertRegInfo :: "db \<Rightarrow> string \<Rightarrow> 64 word \<Rightarrow> 64 word \<Rightarrow> string \<Rightarrow> bool c_result" where
  "insertRegInfo db agentnum startTime endTime group_id =
     (case db (reg_statement agentnum startTime endTime group_id) of
        NoConnection \<Rightarrow> Inl NullPointer
      | NoStatement \<Rightarrow> Inl OutOfBounds
      | QueryThrows \<Rightarrow> Inr True
      | Rows rs ended \<Rightarrow> Inr False)"

section \<open>The server of the clients\<close>

definition Onresponse_list :: "int \<Rightarrow> string \<Rightarrow> string \<Rightarrow> string \<Rightarrow> string \<Rightarrow> string \<Rightarrow> json" where
  "Onresponse_list code desc agentId strkey2 param2 operation =
     obj [(''result'', WInt code),
          (''param'', WArr [obj [(''desc'', WText desc), (''agentId'', WText agentId), (strkey2, WText param2)], WNull]),
          (''event'', WText operation)]"

definition FindJavaUserInfo :: "db \<Rightarrow> string \<Rightarrow> java_user \<Rightarrow> (java_user \<times> bool) c_result" where
  "FindJavaUserInfo db userid userinfo = GetJavaUserInfo db userid userinfo"

definition ws_GetJavauserInfoList :: "db \<Rightarrow> java_user list \<Rightarrow> java_user list c_result" where
  "ws_GetJavauserInfoList db userinfolist = res_bind (GetjavauserInfoList db userinfolist) (\<lambda>(us, found). Inr us)"

definition GetPermission :: "db \<Rightarrow> string \<Rightarrow> bool c_result" where
  "GetPermission db userid = res_bind (Getpermission db userid) (\<lambda>(found, ispermited). Inr ispermited)"

record ap_server =
  m_ApListenIp :: string
  m_ApListenPort :: int
  m_threadPoolNum :: int
  m_server :: bool

definition InitApServer :: "string \<Rightarrow> int \<Rightarrow> int \<Rightarrow> ap_server \<Rightarrow> ap_server \<times> bool" where
  "InitApServer ApListenIp ApListenPort threadPoolNum s =
     (s\<lparr>m_ApListenIp := ApListenIp, m_ApListenPort := ApListenPort, m_threadPoolNum := threadPoolNum, m_server := True\<rparr>, True)"

datatype ap_call = InitAsio | HandleMessages | HandleOpen | HandleClose | ReuseAddress | ListenPort int | StartAccept | RunServer | StopServer | StopListening

text \<open>Neither the address nor the number of threads is used.\<close>

definition ap_startServer :: "ap_server \<Rightarrow> ap_call list c_result" where
  "ap_startServer s =
     (if \<not> m_server s then Inl NullPointer
      else Inr [InitAsio, HandleMessages, HandleOpen, HandleClose, ReuseAddress, ListenPort (m_ApListenPort s), StartAccept, RunServer])"

definition ap_stopServer :: "ap_server \<Rightarrow> ap_call list c_result" where
  "ap_stopServer s = (if \<not> m_server s then Inl NullPointer else Inr [StopServer, StopListening])"

definition on_open :: string where "on_open = ''connect succeed''"

section \<open>The sqlite file\<close>

text \<open>\<open>exec\<close> and \<open>table\<close> are \<^verbatim>\<open>sqlite3_exec\<close> and \<^verbatim>\<open>sqlite3_get_table\<close>, for which only success counts here.\<close>

definition CreateDB :: "(string \<Rightarrow> 'd option) \<Rightarrow> string \<Rightarrow> 'd option \<Rightarrow> 'd option \<times> bool" where
  "CreateDB opens daname pdb = (case opens daname of None \<Rightarrow> (pdb, False) | Some d \<Rightarrow> (Some d, True))"

text \<open>The answer of \<^verbatim>\<open>sqlite3_close\<close> is dropped.\<close>

definition CloseDB :: "bool \<Rightarrow> bool" where
  "CloseDB closed = True"

definition CreateTable :: "(string \<Rightarrow> 'd \<Rightarrow> bool \<times> 'd) \<Rightarrow> 'd \<Rightarrow> bool \<times> 'd" where
  "CreateTable exec pdb = exec ''create table dnuser(strdn varchar(255) ,strserize varchar(255))'' pdb"

definition IsExistTable :: "(string \<Rightarrow> 'd \<Rightarrow> 'r option) \<Rightarrow> 'd \<Rightarrow> bool" where
  "IsExistTable get_table pdb = (get_table (''SELECT COUNT(*) FROM '' @ QUOTE @ ''dnuser'' @ QUOTE @ '' '') pdb \<noteq> None)"

section \<open>Access to the members of an agent and of the server\<close>

definition inline_Setcompanyid :: "int \<Rightarrow> dn_user \<Rightarrow> dn_user" where
  "inline_Setcompanyid companyid u = u\<lparr>m_commpanyid := companyid\<rparr>"

definition inline_Getcompanyid :: "dn_user \<Rightarrow> int" where
  "inline_Getcompanyid u = m_commpanyid u"

definition GetagnetStatus :: "dn_user \<Rightarrow> int" where
  "GetagnetStatus u = m_agentstatus u"

section \<open>Properties\<close>

lemma rows_pushed:
  "rows_loop (push_row rd (\<lambda>u (us, iret). (us @ [u], True))) rs (us, found) =
     (let good = takeWhile (\<lambda>r. rd r \<noteq> None) rs
      in ((us @ map (the \<circ> rd) good, found \<or> good \<noteq> []), good = rs))"
proof (induction rs arbitrary: us found)
  case (Cons r rs)
  then show ?case by (cases "rd r") (auto simp: push_row_def Let_def)
qed (simp add: Let_def)

text \<open>The text fields of a user in the list.\<close>

definition list_texts :: "java_user \<Rightarrow> string list" where
  "list_texts u = [ju_email u, ju_login_ip u, ju_mobile u, ju_nick_name u, ju_password u, ju_skill_id u]"

lemma read_list_user_texts:
  "read_list_user r = Some u \<Longrightarrow> (\<forall>t \<in> set (list_texts u). length t = 1) \<and> ju_login_ip u = char_text (ju_department_id u) \<and>
     ju_user_name u = [] \<and> ju_ext_number u = []"
  by (auto simp: read_list_user_def user_list_fields_def int_field_def new_java_user_def list_texts_def char_text_def
      split: option.splits)

text \<open>
  The list of the users gets a user for every row up to the first that cannot be read, in their order, and
  tells whether there was one. But of every text it keeps one character, the address of the login is made of the
  department, and the name and the extension of the user are missing.
\<close>

theorem user_list_exact:
  assumes "db ''select * from t_user_tbl '' = Rows rs ended"
  shows "\<exists>us'. GetjavauserInfoList db us = Inr (us @ us', us' \<noteq> []) \<and>
    us' = map (the \<circ> read_list_user) (takeWhile (\<lambda>r. read_list_user r \<noteq> None) rs) \<and>
    (\<forall>u \<in> set us'. (\<forall>t \<in> set (list_texts u). length t = 1) \<and> ju_login_ip u = char_text (ju_department_id u) \<and>
      ju_user_name u = [] \<and> ju_ext_number u = [])"
proof -
  let ?us = "map (the \<circ> read_list_user) (takeWhile (\<lambda>r. read_list_user r \<noteq> None) rs)"
  have "GetjavauserInfoList db us = Inr (us @ ?us, ?us \<noteq> [])"
    by (simp add: GetjavauserInfoList_def run_query_def assms rows_pushed Let_def)
  moreover have "(\<forall>t \<in> set (list_texts u). length t = 1) \<and> ju_login_ip u = char_text (ju_department_id u) \<and>
      ju_user_name u = [] \<and> ju_ext_number u = []" if u: "u \<in> set ?us" for u
  proof -
    obtain r where r: "r \<in> set (takeWhile (\<lambda>r. read_list_user r \<noteq> None) rs)" "u = the (read_list_user r)"
      using u by (auto simp del: not_None_eq)
    then have "read_list_user r = Some u" using set_takeWhileD [OF r(1)] by auto
    then show ?thesis by (rule read_list_user_texts)
  qed
  ultimately show ?thesis by blast
qed

theorem user_list_exact_witness:
  "\<exists>u. GetjavauserInfoList (\<lambda>q. Rows [\<lparr>get_string = (\<lambda>c. Some ''secret''), get_int = (\<lambda>c. Some 65)\<rparr>] True) [] = Inr ([u], True) \<and>
     length (ju_password u) = 1"
proof -
  let ?r = "\<lparr>get_string = (\<lambda>c. Some ''secret''), get_int = (\<lambda>c. Some 65)\<rparr>"
  have r: "read_list_user ?r \<noteq> None" by (simp add: read_list_user_def user_list_fields_def int_field_def)
  from user_list_exact [of "\<lambda>q. Rows [?r] True" "[?r]" True "[]", OF refl] obtain u where
      "GetjavauserInfoList (\<lambda>q. Rows [?r] True) [] = Inr ([u], True)" "\<forall>t \<in> set (list_texts u). length t = 1"
    using r by auto
  then show ?thesis by (intro exI [of _ u]) (simp add: list_texts_def)
qed

end
