(* ===== verification/TextCodes.thy ===== *)
theory TextCodes
  imports EslText EslJson "HOL-Library.Multiset"
begin

text \<open>
  The text functions of \<^verbatim>\<open>common/codeHelper.cpp\<close>: URL and UTF-8 decoding, splitting, key words, the text of an
  XML element. A \<^verbatim>\<open>wstring\<close> is the list of its code values; a byte behind the NUL of a C string is outside of
  it. The conversion to GBK (\<^verbatim>\<open>wcstombs\<close>) is the C library and its result is never used.
\<close>

section \<open>Hexadecimal digits and URL decoding\<close>

definition ToHex :: "nat \<Rightarrow> nat" where
  "ToHex x = (if 9 < x then x + 55 else x + 48) mod 256"

definition FromHex :: "char \<Rightarrow> nat c_result" where
  "FromHex c =
     (let x = byte_of c
      in if 65 \<le> x \<and> x \<le> 90 then Inr (x - 65 + 10)
         else if 97 \<le> x \<and> x \<le> 122 then Inr (x - 97 + 10)
         else if 48 \<le> x \<and> x \<le> 57 then Inr (x - 48)
         else Inl AssertFailed)"

fun UrlDecode :: "string \<Rightarrow> string c_result" where
  "UrlDecode [] = Inr []"
| "UrlDecode (c # s) =
     (if c = CHR ''+'' then res_bind (UrlDecode s) (\<lambda>t. Inr (CHR '' '' # t))
      else if c = CHR 0x25 then
        (case s of
           h # l # r \<Rightarrow>
             res_bind (FromHex h) (\<lambda>high.
             res_bind (FromHex l) (\<lambda>low.
             res_bind (UrlDecode r) (\<lambda>t. Inr (char_of ((high * 16 + low) mod 256) # t))))
         | _ \<Rightarrow> Inl AssertFailed)
      else res_bind (UrlDecode s) (\<lambda>t. Inr (c # t)))"

definition notYinghao :: "string \<Rightarrow> string" where
  "notYinghao str = (let temp = (if 1 < length str then tl str else []) in take (length temp - 1) temp)"

section \<open>UTF-8\<close>

text \<open>\<open>src[s + k]\<close>: the NUL behind the string can be read, what is behind it cannot.\<close>

definition src_at :: "string \<Rightarrow> nat \<Rightarrow> nat c_result" where
  "src_at s k = (if k < length s then Inr (byte_of (s ! k)) else if k = length s then Inr 0 else Inl OutOfBounds)"

text \<open>The bits of \<open>src[s + k]\<close> under a mask, moved to the left.\<close>

definition src_bits :: "string \<Rightarrow> nat \<Rightarrow> nat \<Rightarrow> nat \<Rightarrow> nat c_result" where
  "src_bits s k m sh = res_bind (src_at s k) (\<lambda>b. Inr (push_bit sh (and b m)))"

definition src_or :: "nat c_result list \<Rightarrow> nat c_result" where
  "src_or rs = foldr (\<lambda>r acc. res_bind r (\<lambda>x. res_bind acc (\<lambda>y. Inr (or x y)))) rs (Inr 0)"

text \<open>
  One character: its value and the number of its bytes. The byte read first is always read; of the forms of
  four and five bytes the higher parts are overwritten.
\<close>

definition uni_char :: "string \<Rightarrow> (nat \<times> nat) c_result" where
  "uni_char s =
     (let c = byte_of (hd s)
      in if and c 0x80 = 0 then Inr (c, 1)
         else if and c 0xE0 = 0xC0 then res_bind (src_or [src_bits s 0 0x3F 6, src_bits s 1 0x3F 0]) (\<lambda>w. Inr (w, 2))
         else if and c 0xF0 = 0xE0 then
           res_bind (src_or [src_bits s 0 0x1F 12, src_bits s 1 0x3F 6, src_bits s 2 0x3F 0]) (\<lambda>w. Inr (w, 3))
         else if and c 0xF8 = 0xF0 then
           res_bind (src_or [src_bits s 1 0x3F 12, src_bits s 2 0x3F 6, src_bits s 3 0x3F 0]) (\<lambda>w. Inr (w, 4))
         else
           res_bind (src_or [src_bits s 2 0x3F 12, src_bits s 3 0x3F 6, src_bits s 4 0x3F 0]) (\<lambda>w. Inr (w, 5)))"

lemma uni_char_length: "uni_char s = Inr (w, n) \<Longrightarrow> 1 \<le> n"
  by (auto simp: uni_char_def Let_def res_bind_Inr_iff split: if_splits)

function uni_loop :: "string \<Rightarrow> nat list c_result" where
  "uni_loop s =
     (if s = [] then Inr []
      else case uni_char s of
        Inl e \<Rightarrow> Inl e
      | Inr (w, n) \<Rightarrow> res_bind (uni_loop (drop n s)) (\<lambda>ws. Inr (w # ws)))"
  by pat_completeness auto
termination
  by (relation "measure length") (auto dest: uni_char_length)

declare uni_loop.simps [simp del]

text \<open>
  \<open>UTF2Uni\<close>: the return value and the new text, which ends at the first zero. For the empty string the block
  has no element, and the text is read from it all the same.
\<close>

definition UTF2Uni :: "string option \<Rightarrow> nat list \<Rightarrow> (int \<times> nat list) c_result" where
  "UTF2Uni src t =
     (case src of
        None \<Rightarrow> Inr (-1, t)
      | Some s \<Rightarrow>
          if s = [] then Inl OutOfBounds
          else res_bind (uni_loop s) (\<lambda>ws. Inr (0, takeWhile (\<lambda>w. w \<noteq> 0) ws)))"

text \<open>\<open>UnicodeToUTF_8\<close>: the bytes written for each value; a value above the last one writes none.\<close>

definition utf8_of :: "nat \<Rightarrow> nat list" where
  "utf8_of w =
     (if w \<le> 0x7F then [and w 0x7F]
      else if w \<le> 0x7FF then [or (drop_bit 6 (and w 0x7C0)) 0xE0, or (and w 0x3F) 0x80]
      else if w \<le> 0xFFFF then [or (drop_bit 12 (and w 0xF000)) 0xE0, or (drop_bit 6 (and w 0xFC0)) 0x80, or (and w 0x3F) 0x80]
      else if w \<le> 0x10FFFF then
        [or (drop_bit 16 (and w 0x1C0000)) 0xF0, or (drop_bit 12 (and w 0x3F000)) 0x80, or (drop_bit 6 (and w 0xFC0)) 0x80,
         or (and w 0x3F) 0x80]
      else [])"

definition UnicodeToUTF_8 :: "nat list \<Rightarrow> int \<times> string" where
  "UnicodeToUTF_8 ws = (let out = map (\<lambda>b. char_of (b mod 256)) (concat (map utf8_of ws)) in (int (length out), out))"

section \<open>Splitting and key words\<close>

text \<open>\<open>getline\<close> on a string stream gives no piece behind a separator at the end.\<close>

function split_str :: "char \<Rightarrow> string \<Rightarrow> string list" where
  "split_str flag s =
     (if s = [] then [] else takeWhile (\<lambda>c. c \<noteq> flag) s # split_str flag (tl (dropWhile (\<lambda>c. c \<noteq> flag) s)))"
  by pat_completeness auto
termination
proof (relation "measure (\<lambda>(flag, s). length s)", goal_cases)
  case (2 flag s)
  have "length (tl (dropWhile (\<lambda>c. c \<noteq> flag) s)) < length s"
    using 2 length_dropWhile_le [of "\<lambda>c. c \<noteq> flag" s] unfolding length_tl length_greater_0_conv [symmetric] by linarith
  then show ?case by simp
qed simp

declare split_str.simps [simp del]

text \<open>A \<^verbatim>\<open>multimap\<close>: a new entry goes behind those of its key.\<close>

fun multimap_insert :: "int \<Rightarrow> 'v \<Rightarrow> (int \<times> 'v) list \<Rightarrow> (int \<times> 'v) list" where
  "multimap_insert k v [] = [(k, v)]"
| "multimap_insert k v ((k', v') # m) = (if k < k' then (k, v) # (k', v') # m else (k', v') # multimap_insert k v m)"

text \<open>The entries so far, and whether \<open>at\<close> did not throw.\<close>

fun key_words :: "string list \<Rightarrow> (int \<times> string) list \<Rightarrow> (int \<times> string) list \<times> bool" where
  "key_words [] m = (m, True)"
| "key_words (one # v) m =
     (case split_str CHR '':'' one of
        n # w # _ \<Rightarrow> key_words v (multimap_insert (c_atoi n) w m)
      | _ \<Rightarrow> (m, False))"

definition getKeyWord :: "string \<Rightarrow> (int \<times> string) list \<Rightarrow> (int \<times> string) list \<times> bool" where
  "getKeyWord word m = key_words (split_str CHR ''|'' word) m"

section \<open>The text of an element\<close>

text \<open>
  The text between \<^verbatim>\<open>h">\<close> and \<^verbatim>\<open></input>\<close>, whose length wraps around when the end stands in front of the
  start. The text is decoded on the way, for nothing but the faults.
\<close>

definition getXmlInput :: "string \<Rightarrow> string c_result" where
  "getXmlInput xml =
     (case (strstr xml [CHR ''h'', CHR 0x22, CHR 0x3E], strstr xml ''</input>'') of
        (Some a, Some b) \<Rightarrow>
          (let start = length xml - length a; stop = length xml - length b;
               ret = take (sub64 (sub64 stop start) 3) (drop (start + 3) xml)
           in res_bind (UTF2Uni (Some ret) []) (\<lambda>_. Inr ret))
      | _ \<Rightarrow> Inr [])"

section \<open>UTF-8: reference and decoding\<close>

definition utf8_std :: "nat \<Rightarrow> nat list" where
  "utf8_std w =
     (if w < 0x80 then [w]
      else if w < 0x800 then [0xC0 + w div 64, 0x80 + w mod 64]
      else if w < 0x10000 then [0xE0 + w div 4096, 0x80 + w div 64 mod 64, 0x80 + w mod 64]
      else [0xF0 + w div 262144, 0x80 + w div 4096 mod 64, 0x80 + w div 64 mod 64, 0x80 + w mod 64])"

definition utf8_text :: "nat list \<Rightarrow> string" where
  "utf8_text ws = map char_of (concat (map utf8_std ws))"

lemma bit_below: "(c :: nat) < 2 ^ m \<Longrightarrow> bit c n \<Longrightarrow> n < m"
  by (metis bit_take_bit_iff take_bit_nat_eq_self)

lemma and_high: "(c :: nat) < 2 ^ (j + k) \<Longrightarrow> and c (push_bit j (mask k)) = c div 2 ^ j * 2 ^ j"
proof -
  assume "c < 2 ^ (j + k)"
  then have "and c (push_bit j (mask k)) = push_bit j (drop_bit j c)"
    by (intro bit_eqI) (auto simp: bit_simps dest: bit_below)
  then show ?thesis by (simp add: push_bit_eq_mult drop_bit_eq_div)
qed

lemma high_bits:
  assumes "(c :: nat) < 256"
  shows "and c 0x80 = c div 128 * 128" "and c 0xE0 = c div 32 * 32" "and c 0xF0 = c div 16 * 16" "and c 0xF8 = c div 8 * 8"
proof -
  have c: "c < 2 ^ (7 + 1)" "c < 2 ^ (5 + 3)" "c < 2 ^ (4 + 4)" "c < 2 ^ (3 + 5)" using assms by simp_all
  have m: "push_bit 7 (mask 1) = (0x80 :: nat)" "push_bit 5 (mask 3) = (0xE0 :: nat)" "push_bit 4 (mask 4) = (0xF0 :: nat)"
    "push_bit 3 (mask 5) = (0xF8 :: nat)" by (simp_all add: push_bit_eq_mult mask_eq_exp_minus_1)
  show "and c 0x80 = c div 128 * 128" "and c 0xE0 = c div 32 * 32" "and c 0xF0 = c div 16 * 16" "and c 0xF8 = c div 8 * 8"
    using and_high [OF c(1)] and_high [OF c(2)] and_high [OF c(3)] and_high [OF c(4)] by (simp_all add: m)
qed

lemma low_bits: "and c 0x3F = (c :: nat) mod 64" "and c 0x1F = c mod 32" "and c 0x7F = c mod 128"
  using take_bit_eq_mask [of 6 c] take_bit_eq_mask [of 5 c] take_bit_eq_mask [of 7 c]
  by (simp_all add: take_bit_eq_mod mask_eq_exp_minus_1)

lemma or_below: "y < 2 ^ k \<Longrightarrow> or (push_bit k x) y = x * 2 ^ k + (y :: nat)"
proof -
  assume y: "y < 2 ^ k"
  have "and (push_bit k x) y = 0"
  proof (rule bit_eqI)
    fix n
    show "bit (and (push_bit k x) y) n = bit 0 n" using bit_below [OF y, of n] by (auto simp: bit_simps)
  qed
  then show ?thesis by (simp add: disjunctive_add_eq_or [symmetric] push_bit_eq_mult)
qed

lemma src_bits_Cons: "src_bits (c # s) 0 m sh = Inr (push_bit sh (and (byte_of c) m))" "src_bits (c # s) (Suc k) m sh = src_bits s k m sh"
  by (simp_all add: src_bits_def src_at_def)

lemma src_or_two: "src_or [Inr a, Inr b] = Inr (or a b)" "src_or [Inr a, Inr b, Inr c] = Inr (or a (or b c))"
  by (simp_all add: src_or_def)

lemma pack_two: "y < 64 \<Longrightarrow> or (push_bit 6 x) (push_bit 0 y) = x * 64 + (y :: nat)"
  using or_below [of y 6 x] by simp

lemma pack_three: "y < 64 \<Longrightarrow> z < 64 \<Longrightarrow> or (push_bit 12 x) (or (push_bit 6 y) (push_bit 0 z)) = x * 4096 + y * 64 + (z :: nat)"
  using or_below [of z 6 y] or_below [of "y * 64 + z" 12 x] by simp

text \<open>The bytes of the standard encoding.\<close>

lemma next_byte: "(0x80 + y mod 64) mod 64 = y mod (64 :: nat)"
proof -
  have "(2 * 64 + y mod 64) mod 64 = y mod (64 :: nat)" by (simp only: mod_mult_self3 mod_mod_trivial)
  then show ?thesis by simp
qed

lemma next_byte_of: "byte_of (char_of (0x80 + y mod 64 :: nat)) = 0x80 + y mod 64"
proof -
  have "y mod 64 < 64" by simp
  then have "0x80 + y mod 64 < 256" by linarith
  then show ?thesis by (rule byte_of_char_of)
qed

lemma lead_two:
  assumes "x < (32 :: nat)"
  shows "0xC0 + x < 256" "(0xC0 + x) div 128 = 1" "(0xC0 + x) div 32 = 6" "(0xC0 + x) mod 64 = x"
proof -
  have "(3 * 64 + x) mod 64 = x" using assms by (simp only: mod_mult_self3 mod_less)
  then show "(0xC0 + x) mod 64 = x" by simp
  show "(0xC0 + x) div 128 = 1" "(0xC0 + x) div 32 = 6" by (rule div_nat_eqI; use assms in simp)+
qed (use assms in simp)

lemma lead_three:
  assumes "x < (16 :: nat)"
  shows "0xE0 + x < 256" "(0xE0 + x) div 128 = 1" "(0xE0 + x) div 32 = 7" "(0xE0 + x) div 16 = 14" "(0xE0 + x) mod 32 = x"
proof -
  have "(7 * 32 + x) mod 32 = x" using assms by (simp only: mod_mult_self3 mod_less)
  then show "(0xE0 + x) mod 32 = x" by simp
  show "(0xE0 + x) div 128 = 1" "(0xE0 + x) div 32 = 7" "(0xE0 + x) div 16 = 14" by (rule div_nat_eqI; use assms in simp)+
qed (use assms in simp)

lemma lead_four:
  assumes "x < (8 :: nat)"
  shows "0xF0 + x < 256" "(0xF0 + x) div 128 = 1" "(0xF0 + x) div 32 = 7" "(0xF0 + x) div 16 = 15" "(0xF0 + x) div 8 = 30"
proof -
  show "(0xF0 + x) div 128 = 1" "(0xF0 + x) div 32 = 7" "(0xF0 + x) div 16 = 15" "(0xF0 + x) div 8 = 30"
    by (rule div_nat_eqI; use assms in simp)+
qed (use assms in simp)

lemma split_bits: "w mod 4096 = w div 64 mod 64 * 64 + w mod (64 :: nat)"
  using mod_mult2_eq [of w 64 64] by simp

lemmas uni_decode = uni_char_def Let_def numeral_2_eq_2 numeral_3_eq_3 src_bits_Cons src_or_two low_bits next_byte next_byte_of

lemma uni_char_four:
  assumes "x < 8"
  shows "uni_char (map char_of [0xF0 + x, 0x80 + a mod 64, 0x80 + b mod 64, 0x80 + c mod 64] @ r) =
    Inr (a mod 64 * 4096 + b mod 64 * 64 + c mod 64, 4)"
proof -
  note l = lead_four [OF assms]
  show ?thesis
    using assms l(2-5) high_bits [OF l(1)] pack_three [of "b mod 64" "c mod 64" "a mod 64"] by (simp add: uni_decode del: push_bit_of_nat)
qed

text \<open>One character of the standard encoding; of four bytes the upper three bits are lost.\<close>

lemma uni_char_std:
  assumes "w < 0x110000"
  shows "uni_char (map char_of (utf8_std w) @ r) = Inr (if w < 0x10000 then w else w mod 0x40000, length (utf8_std w))"
proof -
  note decode = utf8_std_def uni_decode
  consider "w < 0x80" | "0x80 \<le> w" "w < 0x800" | "0x800 \<le> w" "w < 0x10000" | "0x10000 \<le> w" by linarith
  then show ?thesis
  proof cases
    case 1
    then show ?thesis using high_bits(1) [of w] by (simp add: utf8_std_def uni_char_def)
  next
    case 2
    then have "w div 64 < 32" by (simp add: less_mult_imp_div_less)
    note b = lead_two [OF this]
    show ?thesis
      using 2 b high_bits(1,2) [OF b(1)] pack_two [of "w mod 64" "w div 64"] by (simp add: decode)
  next
    case 3
    then have "w div 4096 < 16" by (simp add: less_mult_imp_div_less)
    note b = lead_three [OF this]
    show ?thesis
      using 3 b split_bits [of w] div_mult_mod_eq [of w 4096] high_bits(1,2,3) [OF b(1)] pack_three [of "w div 64 mod 64" "w mod 64" "w div 4096"] by (simp add: decode)
  next
    case 4
    have "w div 262144 < 8" using assms by (simp add: less_mult_imp_div_less)
    note b = uni_char_four [OF this]
    have "w div 4096 mod 64 * 4096 + w div 64 mod 64 * 64 + w mod 64 = w mod 262144"
      using split_bits [of w] mod_mult2_eq [of w 4096 64] by simp
    then show ?thesis
      using 4 b [of "w div 4096" "w div 64" w r] by (simp add: utf8_std_def)
  qed
qed

lemma utf8_std_bytes: "w < 0x110000 \<Longrightarrow> utf8_std w \<noteq> []"
  by (simp add: utf8_std_def)

lemma uni_loop_text:
  assumes "\<forall>w \<in> set ws. w < 0x110000"
  shows "uni_loop (utf8_text ws) = Inr (map (\<lambda>w. if w < 0x10000 then w else w mod 0x40000) ws)"
  using assms
proof (induction ws)
  case Nil
  then show ?case by (simp add: utf8_text_def uni_loop.simps)
next
  case (Cons w ws)
  have t: "utf8_text (w # ws) = map char_of (utf8_std w) @ utf8_text ws" by (simp add: utf8_text_def)
  have n: "map char_of (utf8_std w) @ utf8_text ws \<noteq> []" using utf8_std_bytes Cons.prems by simp
  have "drop (length (utf8_std w)) (map char_of (utf8_std w) @ utf8_text ws) = utf8_text ws" by simp
  then show ?case
    using uni_char_std [of w "utf8_text ws"] Cons n unfolding t by (subst uni_loop.simps) simp
qed

text \<open>The bytes \<open>UnicodeToUTF_8\<close> writes for one value.\<close>

lemma or_lead: "x < 2 ^ j \<Longrightarrow> or x (k * 2 ^ j) = k * 2 ^ j + (x :: nat)"
  using or_below [of x j k] by (simp add: push_bit_eq_mult or.commute)

lemma field_bits:
  "drop_bit 6 (and w 0xFC0) = w div 64 mod (64 :: nat)" "drop_bit 12 (and w 0xF000) = w div 4096 mod (16 :: nat)"
  "drop_bit 12 (and w 0x3F000) = w div 4096 mod (64 :: nat)" "drop_bit 6 (and w 0x7C0) = w div 64 mod (32 :: nat)"
  "drop_bit 16 (and w 0x1C0000) = 4 * (w div 262144 mod (8 :: nat))"
proof -
  have f: "drop_bit j (and w (push_bit j (mask k))) = w div 2 ^ j mod (2 ^ k :: nat)" for j k
  proof -
    have "drop_bit j (and w (push_bit j (mask k))) = take_bit k (drop_bit j w)"
      by (rule bit_eqI) (auto simp: bit_simps)
    then show ?thesis by (simp add: take_bit_eq_mod drop_bit_eq_div)
  qed
  have g: "drop_bit 16 (and w (push_bit 18 (mask 3))) = 4 * (w div 2 ^ 18 mod (2 ^ 3 :: nat))"
  proof -
    have "drop_bit 16 (and w (push_bit 18 (mask 3))) = push_bit 2 (take_bit 3 (drop_bit 18 w))"
      by (rule bit_eqI) (auto simp: bit_simps)
    then show ?thesis by (simp add: take_bit_eq_mod drop_bit_eq_div push_bit_eq_mult)
  qed
  show "drop_bit 6 (and w 0xFC0) = w div 64 mod (64 :: nat)" "drop_bit 12 (and w 0xF000) = w div 4096 mod (16 :: nat)"
    "drop_bit 12 (and w 0x3F000) = w div 4096 mod (64 :: nat)" "drop_bit 6 (and w 0x7C0) = w div 64 mod (32 :: nat)"
    "drop_bit 16 (and w 0x1C0000) = 4 * (w div 262144 mod (8 :: nat))"
    using f [of 6 6] f [of 12 4] f [of 12 6] f [of 6 5] g by (simp_all add: push_bit_eq_mult mask_eq_exp_minus_1)
qed

lemma or_flags:
  "or (x mod 64) 0x80 = 0x80 + x mod (64 :: nat)" "x < 32 \<Longrightarrow> or x 0xE0 = 0xE0 + (x :: nat)"
proof -
  have "x mod 64 < 64" by simp
  then have "x mod 64 < 2 ^ 7" by (rule less_trans) simp
  then show "or (x mod 64) 0x80 = 0x80 + x mod (64 :: nat)" using or_lead [of "x mod 64" 7 1] by simp
  show "x < 32 \<Longrightarrow> or x 0xE0 = 0xE0 + (x :: nat)" using or_lead [of x 5 7] by simp
qed

lemma utf8_of_std:
  assumes "w < 0x80 \<or> 0x800 \<le> w \<and> w < 0x40000"
  shows "utf8_of w = utf8_std w"
proof -
  consider "w < 0x80" | "0x800 \<le> w" "w < 0x10000" | "0x10000 \<le> w" "w < 0x40000" using assms by linarith
  then show ?thesis
  proof cases
    case 1
    then show ?thesis by (simp add: utf8_of_def utf8_std_def low_bits)
  next
    case 2
    then have l: "w div 4096 < 16" by (simp add: less_mult_imp_div_less)
    have "utf8_of w = [or (drop_bit 12 (and w 0xF000)) 0xE0, or (drop_bit 6 (and w 0xFC0)) 0x80, or (and w 0x3F) 0x80]"
      using 2 by (simp add: utf8_of_def)
    also have "\<dots> = [0xE0 + w div 4096, 0x80 + w div 64 mod 64, 0x80 + w mod 64]"
      unfolding field_bits low_bits or_flags(1) using or_flags(2) [of "w div 4096"] l by simp
    finally show ?thesis using 2 by (simp add: utf8_std_def)
  next
    case 3
    then have l: "w div 262144 = 0" by simp
    have "utf8_of w = [or (drop_bit 16 (and w 0x1C0000)) 0xF0, or (drop_bit 12 (and w 0x3F000)) 0x80, or (drop_bit 6 (and w 0xFC0)) 0x80,
         or (and w 0x3F) 0x80]"
      using 3 by (simp add: utf8_of_def)
    also have "\<dots> = [0xF0 + w div 262144, 0x80 + w div 4096 mod 64, 0x80 + w div 64 mod 64, 0x80 + w mod 64]"
      unfolding field_bits low_bits or_flags(1) l by simp
    finally show ?thesis using 3 by (simp add: utf8_std_def)
  qed
qed

text \<open>The two-byte form has the first byte of the three-byte one, and that of four bytes loses its upper bits.\<close>

lemma utf8_of_two_bytes:
  assumes "0x80 \<le> w" "w < 0x800"
  shows "utf8_of w = [0xE0 + w div 64, 0x80 + w mod 64]"
proof -
  have l: "w div 64 < 32" using assms(2) by (simp add: less_mult_imp_div_less)
  have "utf8_of w = [or (drop_bit 6 (and w 0x7C0)) 0xE0, or (and w 0x3F) 0x80]" using assms by (simp add: utf8_of_def)
  then show ?thesis unfolding field_bits low_bits or_flags(1) using or_flags(2) [OF l] l by simp
qed

lemma utf8_of_lead: "utf8_of 0x40000 = [0xF4, 0x80, 0x80, 0x80] \<and> utf8_std 0x40000 = [0xF1, 0x80, 0x80, 0x80]"
  by (simp add: utf8_of_def utf8_std_def)

section \<open>Splitting\<close>

lemma split_piece: "flag \<notin> set p \<Longrightarrow> p \<noteq> [] \<Longrightarrow> split_str flag p = [p]"
proof -
  assume "flag \<notin> set p" "p \<noteq> []"
  moreover from this have t: "takeWhile (\<lambda>c. c \<noteq> flag) p = p" "dropWhile (\<lambda>c. c \<noteq> flag) p = []" by (induction p) auto
  ultimately show ?thesis by (subst split_str.simps, subst t(2), subst t(1)) (simp add: split_str.simps)
qed

lemma split_at: "flag \<notin> set p \<Longrightarrow> split_str flag (p @ flag # r) = p # split_str flag r"
proof -
  assume "flag \<notin> set p"
  then have "takeWhile (\<lambda>c. c \<noteq> flag) (p @ flag # r) = p" "dropWhile (\<lambda>c. c \<noteq> flag) (p @ flag # r) = flag # r" by (induction p) auto
  then show ?thesis by (subst split_str.simps) simp
qed

lemma multimap_insert_keys: "set (map fst (multimap_insert k v m)) = insert k (set (map fst m))"
  by (induction k v m rule: multimap_insert.induct) auto

lemma multimap_insert_sorted: "sorted (map fst m) \<Longrightarrow> sorted (map fst (multimap_insert k v m))"
proof (induction k v m rule: multimap_insert.induct)
  case (2 k v k' v' m)
  have "fst ` set (multimap_insert k v m) = insert k (fst ` set m)" using multimap_insert_keys [of k v m] by simp
  then show ?case using 2 by (cases "k < k'") (auto simp flip: image_image)
qed simp

lemma multimap_insert_mset: "mset (multimap_insert k v m) = add_mset (k, v) (mset m)"
  by (induction k v m rule: multimap_insert.induct) auto

lemma multimap_insert_filter:
  "sorted (map fst m) \<Longrightarrow> filter (\<lambda>p. fst p = x) (multimap_insert k v m) = filter (\<lambda>p. fst p = x) m @ (if k = x then [(k, v)] else [])"
proof (induction k v m rule: multimap_insert.induct)
  case (2 k v k' v' m)
  show ?case
  proof (cases "k < k'")
    case True
    then have "k = x \<Longrightarrow> filter (\<lambda>p. fst p = x) ((k', v') # m) = []" using 2(2) by (auto simp: filter_empty_conv)
    then show ?thesis using True by auto
  qed (use 2 in auto)
qed simp

section \<open>Key words\<close>

text \<open>The text of key words, as \<open>getKeyWord\<close> expects it.\<close>

definition word_text :: "nat \<times> string \<Rightarrow> string" where
  "word_text p = dec_digits (fst p) @ CHR '':'' # snd p"

definition words_text :: "(nat \<times> string) list \<Rightarrow> string" where
  "words_text ps = concat (map (\<lambda>p. word_text p @ ''|'') ps)"

definition word_ok :: "nat \<times> string \<Rightarrow> bool" where
  "word_ok p \<longleftrightarrow> fst p < 2 ^ 31 \<and> snd p \<noteq> [] \<and> CHR '':'' \<notin> set (snd p) \<and> CHR ''|'' \<notin> set (snd p)"

lemma atoi_dec: "n < 2 ^ 31 \<Longrightarrow> c_atoi (dec_digits n) = int n"
proof -
  assume n: "n < 2 ^ 31"
  then have "n < 2 ^ 63" by (rule less_trans) simp
  then have "c_strtol10 (dec_digits n) = int n" by (rule c_strtol10_dec)
  moreover have "int n < 2 ^ 31" using n by simp
  then have "signed_take_bit 31 (int n) = int n" by (intro signed_take_bit_int_eq_self) simp_all
  ultimately show ?thesis by (simp add: c_atoi_def)
qed

lemma digits_no_sep: "CHR '':'' \<notin> set (dec_digits n) \<and> CHR ''|'' \<notin> set (dec_digits n)"
  using dec_digits_all [of n] by (auto simp: list_all_iff c_isdigit_def byte_of_def)

lemma split_word: "word_ok p \<Longrightarrow> split_str CHR '':'' (word_text p) = [dec_digits (fst p), snd p]"
  using split_at [of "CHR '':''" "dec_digits (fst p)" "snd p"] split_piece [of "CHR '':''" "snd p"] digits_no_sep [of "fst p"]
  by (simp add: word_text_def word_ok_def)

lemma split_words: "list_all word_ok ps \<Longrightarrow> split_str CHR ''|'' (words_text ps) = map word_text ps"
proof (induction ps)
  case Nil
  then show ?case by (simp add: words_text_def split_str.simps)
next
  case (Cons p ps)
  have "CHR ''|'' \<notin> set (word_text p)" using Cons.prems digits_no_sep [of "fst p"] by (simp add: word_text_def word_ok_def)
  then show ?case using split_at [of "CHR ''|''" "word_text p" "words_text ps"] Cons by (simp add: words_text_def)
qed

abbreviation word_entries :: "(nat \<times> string) list \<Rightarrow> (int \<times> string) list" where
  "word_entries ps \<equiv> map (\<lambda>p. (int (fst p), snd p)) ps"

lemma key_words_fold:
  "list_all word_ok ps \<Longrightarrow> key_words (map word_text ps) m = (fold (\<lambda>(k, w). multimap_insert k w) (word_entries ps) m, True)"
proof (induction ps arbitrary: m)
  case (Cons p ps)
  then have "c_atoi (dec_digits (fst p)) = int (fst p)" by (intro atoi_dec) (simp add: word_ok_def)
  then show ?case using Cons split_word [of p] by simp
qed simp

lemma multimap_fold:
  assumes "sorted (map fst m)"
  shows "sorted (map fst (fold (\<lambda>(k, w). multimap_insert k w) es m)) \<and> mset (fold (\<lambda>(k, w). multimap_insert k w) es m) = mset m + mset es \<and>
    filter (\<lambda>p. fst p = x) (fold (\<lambda>(k, w). multimap_insert k w) es m) = filter (\<lambda>p. fst p = x) m @ filter (\<lambda>p. fst p = x) es"
  using assms
proof (induction es arbitrary: m)
  case (Cons e es)
  obtain k w where e: "e = (k, w)" by (cases e)
  show ?case
    using Cons.IH [OF multimap_insert_sorted [OF Cons.prems, of k w]] multimap_insert_filter [OF Cons.prems, of x k w]
    by (simp add: e multimap_insert_mset)
qed simp

section \<open>Properties\<close>

text \<open>
  C37. The decoder of UTF-8 gives back what the standard encoding encodes, character by character: exactly for
  values below \<open>0x40000\<close>, the lower 18 bits of every value above. The text ends at the first value that becomes 0.
\<close>

theorem utf8_decoded:
  assumes "ws \<noteq> []" "\<forall>w \<in> set ws. w < 0x110000"
  shows "UTF2Uni (Some (utf8_text ws)) t = Inr (0, takeWhile (\<lambda>w. w \<noteq> 0) (map (\<lambda>w. w mod 0x40000) ws))"
proof -
  have "utf8_text ws \<noteq> []" using assms utf8_std_bytes by (cases ws) (auto simp: utf8_text_def)
  moreover have "map (\<lambda>w. if w < 0x10000 then w else w mod 0x40000) ws = map (\<lambda>w. w mod 0x40000) ws"
    by (rule map_cong) auto
  then have "uni_loop (utf8_text ws) = Inr (map (\<lambda>w. w mod 0x40000) ws)" using uni_loop_text [OF assms(2)] by simp
  ultimately show ?thesis by (simp add: UTF2Uni_def)
qed

theorem utf8_decoded_witness:
  "UTF2Uni (Some (utf8_text [0x41, 0xE9, 0x4F60, 0x1F600, 0x50041])) [] = Inr (0, [0x41, 0xE9, 0x4F60, 0x1F600, 0x10041])"
  using utf8_decoded [of "[0x41, 0xE9, 0x4F60, 0x1F600, 0x50041]" "[]"] by simp

text \<open>
  The encoder writes what the decoder reads, for values below \<open>0x80\<close> and from \<open>0x800\<close> to \<open>0x3FFFF\<close>. For those
  between, the Latin, Greek, Cyrillic, Hebrew and Arabic letters, the first of the two bytes announces three.
\<close>

theorem unicode_round_trip:
  assumes "ws \<noteq> []" "\<forall>w \<in> set ws. 0 < w \<and> (w < 0x80 \<or> 0x800 \<le> w \<and> w < 0x40000)"
  shows "UTF2Uni (Some (snd (UnicodeToUTF_8 ws))) t = Inr (0, ws) \<and>
    (\<forall>w. 0x80 \<le> w \<and> w < 0x800 \<longrightarrow> snd (UnicodeToUTF_8 [w]) = [char_of (0xE0 + w div 64), char_of (0x80 + w mod 64)])"
proof -
  have small: "b < 256" if "b \<in> set (utf8_std w)" "w < 0x40000" for b w
  proof -
    have "w div 64 mod 64 < 64" "w mod 64 < 64" "w div 4096 mod 64 < 64" by simp_all
    moreover have "w < 0x800 \<Longrightarrow> w div 64 < 32" "w < 0x10000 \<Longrightarrow> w div 4096 < 16" by (simp_all add: less_mult_imp_div_less)
    ultimately show ?thesis using that by (auto simp: utf8_std_def split: if_splits)
  qed
  have std: "map utf8_of ws = map utf8_std ws" using assms(2) utf8_of_std by (intro map_cong) auto
  have "snd (UnicodeToUTF_8 ws) = utf8_text ws"
    unfolding UnicodeToUTF_8_def utf8_text_def std Let_def snd_conv
    by (rule map_cong [OF refl]) (use assms(2) small in fastforce)
  moreover have "uni_loop (utf8_text ws) = Inr (map (\<lambda>w. if w < 0x10000 then w else w mod 0x40000) ws)"
    using assms(2) by (intro uni_loop_text) auto
  moreover have "map (\<lambda>w. if w < 0x10000 then w else w mod 0x40000) ws = ws" using assms(2) by (intro map_idI) auto
  moreover have "takeWhile (\<lambda>w. w \<noteq> 0) ws = ws" using assms(2) by (simp add: takeWhile_eq_all_conv)
  moreover have "utf8_text ws \<noteq> []" using assms utf8_std_bytes by (cases ws) (auto simp: utf8_text_def)
  moreover have "snd (UnicodeToUTF_8 [w]) = [char_of (0xE0 + w div 64), char_of (0x80 + w mod 64)]" if "0x80 \<le> w \<and> w < 0x800" for w
  proof -
    have "w div 64 < 32" "w mod 64 < 64" using that by (simp_all add: less_mult_imp_div_less)
    then have "(0xE0 + w div 64) mod 256 = 0xE0 + w div 64" "(0x80 + w mod 64) mod 256 = 0x80 + w mod 64" by simp_all
    then show ?thesis using utf8_of_two_bytes that by (simp add: UnicodeToUTF_8_def)
  qed
  ultimately show ?thesis by (simp add: UTF2Uni_def)
qed

theorem unicode_round_trip_witness:
  "UTF2Uni (Some (snd (UnicodeToUTF_8 [0x41, 0x4F60, 0x1F600]))) [] = Inr (0, [0x41, 0x4F60, 0x1F600]) \<and>
   snd (UnicodeToUTF_8 [0xE9]) = [char_of (0xE3 :: nat), char_of (0xA9 :: nat)]"
  using unicode_round_trip [of "[0x41, 0x4F60, 0x1F600]" "[]"] by simp

text \<open>
  Key words with their weights are read completely and kept in the order of the weights, those of one weight
  in the order of the text.
\<close>

theorem key_words_sorted:
  assumes "list_all word_ok ps"
  shows "getKeyWord (words_text ps) [] = (sort_key fst (word_entries ps), True)"
proof -
  let ?r = "fold (\<lambda>(k, w). multimap_insert k w) (word_entries ps) []"
  have "sort_key fst (word_entries ps) = ?r"
  proof (rule properties_for_sort_key)
    show "mset ?r = mset (word_entries ps)" "sorted (map fst ?r)" using multimap_fold [of "[]" "word_entries ps" 0] by simp_all
    show "filter (\<lambda>x. fst k = fst x) ?r = filter (\<lambda>x. fst k = fst x) (word_entries ps)" for k
      using multimap_fold [of "[]" "word_entries ps" "fst k"] by (simp add: eq_commute [of "fst k"])
  qed
  then show ?thesis using key_words_fold [OF assms, of "[]"] split_words [OF assms] by (simp add: getKeyWord_def)
qed

theorem key_words_sorted_witness:
  "getKeyWord (words_text [(2, ''yes''), (1, ''no''), (2, ''ok'')]) [] = ([(1, ''no''), (2, ''yes''), (2, ''ok'')], True)"
  using key_words_sorted [of "[(2, ''yes''), (1, ''no''), (2, ''ok'')]"] by (simp add: word_ok_def)

lemma FromHex_digit: "n < 16 \<Longrightarrow> FromHex (url_hex ! n) = Inr n"
proof -
  have "list_all (\<lambda>n. FromHex (url_hex ! n) = Inr n) [0..<16]"
    by (simp add: upt_rec url_hex_def FromHex_def byte_of_def Let_def)
  then show "n < 16 \<Longrightarrow> FromHex (url_hex ! n) = Inr n" by (auto simp: list_all_iff)
qed

lemma UrlDecode_enc_char:
  assumes "byte_of c < 128"
  shows "UrlDecode (url_enc_char c @ r) = res_bind (UrlDecode r) (\<lambda>t. Inr (c # t))"
proof (cases "url_is_unsafe c")
  case True
  have "byte_of c div 16 < 16" "byte_of c mod 16 < 16" using assms by simp_all
  moreover have "byte_of c div 16 * 16 + byte_of c mod 16 = byte_of c" by (rule div_mult_mod_eq)
  ultimately show ?thesis using True FromHex_digit by (simp add: url_enc_char_def)
next
  case False
  then have "c \<noteq> CHR ''+''" "c \<noteq> CHR ''%''" by (auto simp: url_is_unsafe_def urlunsafe_def)
  then show ?thesis using False by (simp add: url_enc_char_def)
qed

text \<open>
  The decoder of the services reads what the encoder of the event socket library writes: a text of ASCII
  characters, encoded into a buffer with three bytes per character and two more, is decoded to itself.
\<close>

theorem url_services_agree:
  assumes "ascii s" "3 * length s + 2 \<le> len" "len \<le> cap" "len < 2 ^ 64"
  shows "\<exists>out. esl_url_encode (Some s) (Some cap) len = Inr (Some out) \<and> UrlDecode out = Inr s"
proof -
  have l: "sub64 len 1 = len - 1" using assms by (intro sub64_exact) auto
  have e: "url_encode_loop cap (len - 1) s [] = Inr (concat (map url_enc_char s))"
    using url_encode_all [of s "[]" "len - 1" cap] assms by simp
  have "length (concat (map url_enc_char s)) < cap" using enc_length [of s] assms(2,3) by simp
  moreover have "UrlDecode (concat (map url_enc_char s)) = Inr s"
    using assms(1) by (induction s) (simp_all add: UrlDecode_enc_char)
  ultimately show ?thesis using l e by (simp add: esl_url_encode_def)
qed

theorem url_services_agree_witness:
  "\<exists>out. esl_url_encode (Some ''a b+%'') (Some 20) 20 = Inr (Some out) \<and> UrlDecode out = Inr ''a b+%''"
  by (rule url_services_agree) (simp_all add: byte_of_def)

section \<open>What the code does not expect\<close>

text \<open>An empty element reads in front of nothing; a character cut off at the end reads behind the string.\<close>

lemma xml_empty_element: "getXmlInput ([CHR ''h'', CHR 0x22, CHR 0x3E] @ ''</input>'') = Inl OutOfBounds"
  by (simp add: getXmlInput_def UTF2Uni_def Let_def sub64_def)

lemma utf8_cut_off: "UTF2Uni (Some [char_of (0xE4 :: nat)]) t = Inl OutOfBounds"
proof -
  have h: "and (228 :: nat) 0x80 = 128" "and (228 :: nat) 0xE0 = 224" "and (228 :: nat) 0xF0 = 224" by (simp_all add: high_bits)
  have "uni_char [char_of (0xE4 :: nat)] = Inl OutOfBounds"
    by (simp add: uni_char_def h src_or_def src_bits_def src_at_def)
  then show ?thesis by (simp add: UTF2Uni_def uni_loop.simps)
qed

text \<open>A key word without a colon makes \<open>at\<close> throw; the words in front of it stay.\<close>

lemma key_word_throws: "getKeyWord ''1:a|b'' [] = ([(1, ''a'')], False)"
  by (simp add: getKeyWord_def split_str.simps c_atoi_def c_strtol10_def c_isspace_def c_isdigit_def digit_val_def byte_of_def Let_def)

end
