(* ===== verification/IniRw.thy ===== *)
theory IniRw
  imports Prelude ConfigStore
begin

text \<open>
  The second reader and writer of ini files (\<^verbatim>\<open>database/config/inirw.cpp\<close>). The file is held in a block of
  bytes, \<open>gBuffer\<close>, in which a line is a suffix and a pointer is its distance from the start of the line. The
  disk is a map from names to contents, \<open>can_open\<close> tells which names \<^verbatim>\<open>fopen\<close> opens. The object starts
  with pointers that nobody has set (\<open>Unset\<close>): the constructor calls \<open>iniFileLoad\<close> only.
\<close>

section \<open>The object and the disk\<close>

datatype ini_buffer = Unset | NullBuffer | Loaded "char list"

record inirw =
  gFilename :: string
  gBuffer :: ini_buffer

record disk =
  can_open :: "string \<Rightarrow> bool"
  content_of :: "string \<Rightarrow> char list option"

type_synonym rw_state = "inirw \<times> disk"

datatype line_type = LINE_IDLE | LINE_ERROR | LINE_EMPTY | LINE_SECTION | LINE_VALUE

definition SIZE_LINE :: int where "SIZE_LINE = 1024"
definition SIZE_FILENAME :: nat where "SIZE_FILENAME = 50"

section \<open>Strings\<close>

definition StrStrip :: "string \<Rightarrow> string" where
  "StrStrip s = dropWhile c_isspace (rev (dropWhile c_isspace (rev s)))"

text \<open>The sign of the result is not used: every caller asks for equality.\<close>

fun StriCmp :: "string \<Rightarrow> string \<Rightarrow> int" where
  "StriCmp [] [] = 0"
| "StriCmp [] (d # ds) = - int (byte_of (c_tolower d))"
| "StriCmp (c # cs) [] = int (byte_of (c_tolower c))"
| "StriCmp (c # cs) (d # ds) =
     (if c_tolower c = c_tolower d then StriCmp cs ds else int (byte_of (c_tolower c)) - int (byte_of (c_tolower d)))"

section \<open>One line\<close>

record scan =
  cntblank :: int
  cntCR :: int
  cntLF :: int
  isQuot1 :: bool
  isQuot2 :: bool
  sc_rem1 :: "int option"
  sc_cont1 :: "int option"

definition scan_start :: scan where
  "scan_start = \<lparr>cntblank = 0, cntCR = 0, cntLF = 0, isQuot1 = False, isQuot2 = False, sc_rem1 = None, sc_cont1 = None\<rparr>"

definition scan_char :: "char \<Rightarrow> int \<Rightarrow> scan \<Rightarrow> scan" where
  "scan_char c i g =
     (if c = CR then g\<lparr>cntCR := cntCR g + 1\<rparr>
      else if c = LF then g\<lparr>cntLF := cntLF g + 1\<rparr>
      else if c = CHR 0x27 then (if isQuot2 g then g else g\<lparr>isQuot1 := \<not> isQuot1 g\<rparr>)
      else if c = CHR 0x22 then (if isQuot1 g then g else g\<lparr>isQuot2 := \<not> isQuot2 g\<rparr>)
      else if c = CHR '';'' \<or> c = CHR ''#'' then
        (if isQuot1 g \<or> isQuot2 g then g
         else if sc_rem1 g = None then g\<lparr>sc_rem1 := Some (i - cntblank g)\<rparr> else g)
      else if c_isspace c then g\<lparr>cntblank := cntblank g + 1\<rparr>
      else (let g1 = g\<lparr>cntblank := 0\<rparr>
            in if sc_rem1 g = None \<and> sc_cont1 g = None then g1\<lparr>sc_cont1 := Some i\<rparr> else g1))"

text \<open>The loop; the first component is where \<open>p\<close> stands at its end.\<close>

fun scan_line :: "int \<Rightarrow> scan \<Rightarrow> char list \<Rightarrow> int \<times> scan" where
  "scan_line i g [] = (i, g)"
| "scan_line i g (c # cs) =
     (if c = NUL then (i + 1, g)
      else if cntCR g = 2 \<or> cntLF g = 2 then (i - 1, g)
      else if 2 \<le> cntCR g + cntLF g then (i, g)
      else if (cntCR g \<noteq> 0 \<or> cntLF g \<noteq> 0) \<and> c \<noteq> CR \<and> c \<noteq> LF then (i, g)
      else scan_line (i + 1) (scan_char c i g) cs)"

record line_info =
  li_type :: line_type
  li_content :: string
  li_rem1 :: int
  li_next :: int

definition bytes_between :: "int \<Rightarrow> int \<Rightarrow> char list \<Rightarrow> char list" where
  "bytes_between a b buf = take (nat (b - a)) (drop (nat a) buf)"

text \<open>
  The type of the line, its content, where its comment and where the next line begins. A content of negative
  length is copied with a length of nearly \<open>2 ^ 64\<close> bytes.
\<close>

definition GetLine :: "char list \<Rightarrow> line_info c_result" where
  "GetLine buf =
     (case scan_line 0 scan_start buf of (p, g) \<Rightarrow>
        let rem2 = p - cntCR g - cntLF g;
            rem1 = (case sc_rem1 g of None \<Rightarrow> rem2 | Some r \<Rightarrow> r);
            cont2 = rem1 - cntblank g
        in case sc_cont1 g of
             None \<Rightarrow> Inr \<lparr>li_type = LINE_EMPTY, li_content = [], li_rem1 = rem1, li_next = p\<rparr>
           | Some cont1 \<Rightarrow>
               if SIZE_LINE \<le> cont2 - cont1 then Inr \<lparr>li_type = LINE_ERROR, li_content = [], li_rem1 = rem1, li_next = p\<rparr>
               else if cont2 < cont1 then Inl OutOfBounds
               else (let content = bytes_between cont1 cont2 buf;
                         type = (if content \<noteq> [] \<and> hd content = CHR ''['' \<and> last content = CHR '']'' then LINE_SECTION
                                 else if CHR ''='' \<in> set (c_str content) then LINE_VALUE else LINE_ERROR)
                     in Inr \<lparr>li_type = type, li_content = c_str content, li_rem1 = rem1, li_next = p\<rparr>))"

text \<open>The name of a section line, and key and value of an assignment.\<close>

definition section_name :: "string \<Rightarrow> string" where
  "section_name content = StrStrip (tl (butlast content))"

definition GetKeyValue :: "string \<Rightarrow> string \<times> string" where
  "GetKeyValue content =
     (StrStrip (before_chr content CHR ''=''), StrStrip (drop (length (before_chr content CHR ''='') + 1) content))"

lemma scan_line_bounds:
  "scan_line i g cs = (p, g') \<Longrightarrow> cntCR g + cntLF g \<le> i \<Longrightarrow> 0 \<le> cntCR g \<Longrightarrow> 0 \<le> cntLF g \<Longrightarrow>
   (cs \<noteq> [] \<longrightarrow> 1 \<le> p) \<and> p \<le> i + int (length cs)"
proof (induction i g cs rule: scan_line.induct)
  case (2 i g c cs)
  show ?case
  proof (cases "c = NUL \<or> cntCR g = 2 \<or> cntLF g = 2 \<or> 2 \<le> cntCR g + cntLF g \<or> (cntCR g \<noteq> 0 \<or> cntLF g \<noteq> 0) \<and> c \<noteq> CR \<and> c \<noteq> LF")
    case True
    then show ?thesis using 2(2-5) by (auto split: if_splits)
  next
    case False
    let ?g = "scan_char c i g"
    have g: "cntCR ?g + cntLF ?g \<le> i + 1" "0 \<le> cntCR ?g" "0 \<le> cntLF ?g"
      using 2(3-5) by (auto simp: scan_char_def Let_def)
    have s: "scan_line (i + 1) ?g cs = (p, g')" using 2(2) False by auto
    have "0 \<le> i" using 2(3-5) by simp
    then show ?thesis using "2.IH" False s g by (cases "cs = []") auto
  qed
qed auto

lemma GetLine_next: "GetLine buf = Inr li \<Longrightarrow> buf \<noteq> [] \<Longrightarrow> 1 \<le> li_next li \<and> li_next li \<le> int (length buf)"
  using scan_line_bounds [of 0 scan_start buf]
  by (auto simp: GetLine_def scan_start_def Let_def split: prod.splits option.splits if_splits)

section \<open>Reading\<close>

text \<open>
  The loop of \<open>iniGetValue\<close> over the bytes that are left: the value found, which is never empty.
  Whether a section is looked for and whether it has been found are the first two arguments.
\<close>

function find_value :: "string option \<Rightarrow> bool \<Rightarrow> string \<Rightarrow> char list \<Rightarrow> string option c_result" where
  "find_value sect found key buf =
     (if buf = [] then Inr None
      else case GetLine buf of
        Inl e \<Rightarrow> Inl e
      | Inr li \<Rightarrow>
          (let rest = drop (nat (li_next li)) buf
           in if li_type li = LINE_SECTION then
                (case sect of
                   None \<Rightarrow> Inr None
                 | Some s \<Rightarrow> if found then Inr None else find_value sect (StriCmp (section_name (li_content li)) s = 0) key rest)
              else if li_type li = LINE_VALUE then
                (if \<not> (found \<or> sect = None) then find_value sect found key rest
                 else if StriCmp (fst (GetKeyValue (li_content li))) key = 0 then
                   Inr (if snd (GetKeyValue (li_content li)) = [] then None else Some (snd (GetKeyValue (li_content li))))
                 else find_value sect True key rest)
              else find_value sect found key rest))"
  by pat_completeness auto
termination
  by (relation "measure (\<lambda>(sect, found, key, buf). length buf)") (auto dest!: GetLine_next)

declare find_value.simps [simp del]

text \<open>\<open>FindSection\<close>: where the contents of the section begin and end, \<open>None\<close> when it is not there.\<close>

record section_span =
  ss_found :: bool
  ss_cont1 :: int
  ss_cont2 :: int

function find_section :: "string option \<Rightarrow> section_span \<Rightarrow> int \<Rightarrow> char list \<Rightarrow> section_span c_result" where
  "find_section sect sp uselen buf =
     (if buf = [] then Inr sp
      else case GetLine buf of
        Inl e \<Rightarrow> Inl e
      | Inr li \<Rightarrow>
          (let rest = drop (nat (li_next li)) buf; p = uselen; nextline = uselen + li_next li
           in if li_type li = LINE_SECTION then
                (case sect of
                   None \<Rightarrow> Inr sp
                 | Some s \<Rightarrow>
                     if ss_found sp then Inr sp
                     else find_section sect
                            (if StriCmp (section_name (li_content li)) s = 0
                             then \<lparr>ss_found = True, ss_cont1 = nextline, ss_cont2 = nextline\<rparr> else sp\<lparr>ss_cont2 := nextline\<rparr>) nextline rest)
              else if li_type li = LINE_VALUE then
                find_section sect
                  ((if \<not> ss_found sp \<and> sect = None then sp\<lparr>ss_found := True, ss_cont1 := p\<rparr> else sp)\<lparr>ss_cont2 := nextline\<rparr>) nextline rest
              else find_section sect sp nextline rest))"
  by pat_completeness auto
termination
  by (relation "measure (\<lambda>(sect, sp, uselen, buf). length buf)") (auto dest!: GetLine_next)

declare find_section.simps [simp del]

definition FindSection :: "string option \<Rightarrow> char list \<Rightarrow> (int \<times> int) option c_result" where
  "FindSection sect buf =
     res_bind (find_section sect \<lparr>ss_found = False, ss_cont1 = 0, ss_cont2 = 0\<rparr> 0 buf) (\<lambda>sp.
     Inr (if ss_found sp then Some (ss_cont1 sp, ss_cont2 sp) else None))"

section \<open>Loading and writing\<close>

text \<open>\<open>fopen\<close> with \<open>ab+\<close> makes the file when there is none.\<close>

definition iniFileLoad :: "string \<Rightarrow> rw_state \<Rightarrow> int \<times> rw_state" where
  "iniFileLoad filename st =
     (case st of (ini, d) \<Rightarrow>
        if SIZE_FILENAME \<le> length filename then (0, ini, d)
        else let ini1 = ini\<lparr>gFilename := filename\<rparr>
             in if \<not> can_open d filename then (0, ini1, d)
                else let bytes = (case content_of d filename of None \<Rightarrow> [] | Some bs \<Rightarrow> bs)
                     in (1, ini1\<lparr>gBuffer := Loaded bytes\<rparr>, d\<lparr>content_of := (content_of d)(filename := Some bytes)\<rparr>))"

definition iniFileFree :: "rw_state \<Rightarrow> rw_state c_result" where
  "iniFileFree st =
     (case st of (ini, d) \<Rightarrow>
        case gBuffer ini of
          Unset \<Rightarrow> Inl NullPointer
        | NullBuffer \<Rightarrow> Inr st
        | Loaded bs \<Rightarrow> Inr (ini\<lparr>gBuffer := NullBuffer\<rparr>, d))"

definition new_inirw :: "string \<Rightarrow> disk \<Rightarrow> rw_state" where
  "new_inirw filename d = snd (iniFileLoad filename (\<lparr>gFilename = [], gBuffer = Unset\<rparr>, d))"

text \<open>Writing the bytes to the file and loading it again.\<close>

definition rewrite_file :: "char list \<Rightarrow> rw_state \<Rightarrow> int \<times> rw_state" where
  "rewrite_file bytes st =
     (case st of (ini, d) \<Rightarrow>
        if \<not> can_open d (gFilename ini) then (0, st)
        else (1, snd (iniFileLoad (gFilename ini) (ini, d\<lparr>content_of := (content_of d)(gFilename ini := Some bytes)\<rparr>))))"

definition append_file :: "char list \<Rightarrow> rw_state \<Rightarrow> int \<times> rw_state" where
  "append_file bytes st =
     (case st of (ini, d) \<Rightarrow>
        rewrite_file ((case content_of d (gFilename ini) of None \<Rightarrow> [] | Some bs \<Rightarrow> bs) @ bytes) st)"

text \<open>The loop of \<open>iniSetString\<close>: the line of the key, as the place of its start and its line.\<close>

function find_key :: "string \<Rightarrow> int \<Rightarrow> char list \<Rightarrow> (int \<times> line_info) option c_result" where
  "find_key key p buf =
     (if buf = [] then Inr None
      else case GetLine buf of
        Inl e \<Rightarrow> Inl e
      | Inr li \<Rightarrow>
          if li_type li = LINE_VALUE \<and> StriCmp (fst (GetKeyValue (li_content li))) key = 0 then Inr (Some (p, li))
          else find_key key (p + li_next li) (drop (nat (li_next li)) buf))"
  by pat_completeness auto
termination
  by (relation "measure (\<lambda>(key, p, buf). length buf)") (auto dest!: GetLine_next)

declare find_key.simps [simp del]

definition CRLF :: string where "CRLF = [CR, LF]"

definition or_null :: "string option \<Rightarrow> string" where
  "or_null s = (case s of None \<Rightarrow> ''(null)'' | Some t \<Rightarrow> t)"

definition iniSetString :: "string option \<Rightarrow> string \<Rightarrow> string option \<Rightarrow> rw_state \<Rightarrow> (int \<times> rw_state) c_result" where
  "iniSetString sect key v st =
     (case gBuffer (fst st) of
        Unset \<Rightarrow> Inl NullPointer
      | NullBuffer \<Rightarrow> Inr (0, st)
      | Loaded buf \<Rightarrow>
          res_bind (FindSection sect buf) (\<lambda>span.
          case span of
            None \<Rightarrow>
              (case v of
                 None \<Rightarrow> Inr (0, st)
               | Some t \<Rightarrow> Inr (append_file (CRLF @ ''['' @ or_null sect @ '']'' @ CRLF @ key @ ''='' @ t @ '';'' @ CRLF) st))
          | Some (cont1, cont2) \<Rightarrow>
              res_bind (find_key key cont1 (bytes_between cont1 cont2 buf)) (\<lambda>line.
              case (line, v) of
                (Some (p, li), None) \<Rightarrow> Inr (rewrite_file (take (nat p) buf @ drop (nat (p + li_next li)) buf) st)
              | (Some (p, li), Some t) \<Rightarrow>
                  Inr (rewrite_file (take (nat p) buf @ key @ ''='' @ t @ drop (nat (p + li_rem1 li)) buf) st)
              | (None, None) \<Rightarrow> Inr (0, st)
              | (None, Some t) \<Rightarrow>
                  Inr (rewrite_file (take (nat cont2) buf @ key @ ''='' @ t @ '';'' @ CRLF @ drop (nat cont2) buf) st))))"

section \<open>The interface\<close>

text \<open>\<open>value\<close> has room for \<open>maxlen\<close> bytes.\<close>

definition fit :: "int \<Rightarrow> string \<Rightarrow> string c_result" where
  "fit maxlen s = (if maxlen < 1 then Inl OutOfBounds else Inr (take (nat (maxlen - 1)) s))"

definition iniGetValue ::
    "string option \<Rightarrow> string \<Rightarrow> int \<Rightarrow> string option \<Rightarrow> rw_state \<Rightarrow> (int \<times> string \<times> rw_state) c_result" where
  "iniGetValue sect key maxlen defvalue st =
     (case gBuffer (fst st) of
        Unset \<Rightarrow> Inl NullPointer
      | NullBuffer \<Rightarrow> Inr (0, [], st)
      | Loaded buf \<Rightarrow>
          res_bind (find_value sect False key buf) (\<lambda>r.
          case (r, defvalue) of
            (Some v, _) \<Rightarrow> res_bind (fit maxlen v) (\<lambda>t. Inr (1, t, st))
          | (None, Some d) \<Rightarrow>
              res_bind (fit maxlen d) (\<lambda>t.
              res_bind (iniSetString sect key (Some d) st) (\<lambda>(r, st1). Inr (0, t, st1)))
          | (None, None) \<Rightarrow> Inr (0, [], st)))"

definition unquote :: "string \<Rightarrow> string" where
  "unquote v =
     (if v \<noteq> [] \<and> hd v = CHR 0x27 \<and> last v = CHR 0x27 then butlast (tl v)
      else if v \<noteq> [] \<and> hd v = CHR 0x22 \<and> last v = CHR 0x22 then butlast (tl v) else v)"

definition iniGetString ::
    "string option \<Rightarrow> string \<Rightarrow> int \<Rightarrow> string option \<Rightarrow> rw_state \<Rightarrow> (int \<times> string \<times> rw_state) c_result" where
  "iniGetString sect key maxlen defvalue st =
     res_bind (iniGetValue sect key maxlen defvalue st) (\<lambda>(ret, v, st1).
     Inr (ret, if ret = 0 then v else unquote v, st1))"

text \<open>\<open>strtol\<close> with the base of the prefix, and the formats of \<open>iniSetInt\<close>; numbers have 32 bits.\<close>

definition digit_in :: "nat \<Rightarrow> char \<Rightarrow> bool" where
  "digit_in base c = (case hex_val c of None \<Rightarrow> False | Some v \<Rightarrow> v < base)"

fun digits_in :: "nat \<Rightarrow> nat \<Rightarrow> string \<Rightarrow> nat" where
  "digits_in base acc [] = acc"
| "digits_in base acc (c # cs) = (if digit_in base c then digits_in base (base * acc + the (hex_val c)) cs else acc)"

definition strtol0 :: "string \<Rightarrow> int" where
  "strtol0 s =
     (let t = dropWhile c_isspace s;
          neg = (t \<noteq> [] \<and> hd t = CHR ''-'');
          u = (if t \<noteq> [] \<and> (hd t = CHR ''-'' \<or> hd t = CHR ''+'') then tl t else t);
          hex = (2 < length u \<and> hd u = CHR ''0'' \<and> (u ! 1 = CHR ''x'' \<or> u ! 1 = CHR ''X'') \<and> digit_in 16 (u ! 2));
          v = int (if hex then digits_in 16 0 (drop 2 u) else if u \<noteq> [] \<and> hd u = CHR ''0'' then digits_in 8 0 u else digits_in 10 0 u)
      in max (- (2 ^ 63)) (min (2 ^ 63 - 1) (if neg then - v else v)))"

fun base_digits :: "nat \<Rightarrow> nat \<Rightarrow> string" where
  "base_digits base n =
     (if base < 2 \<or> n < base then [''0123456789abcdef'' ! (n mod 16)] else base_digits base (n div base) @ [''0123456789abcdef'' ! (n mod base mod 16)])"

declare base_digits.simps [simp del]

definition int_text :: "int \<Rightarrow> int \<Rightarrow> string" where
  "int_text base v =
     (if base = 16 then ''0x'' @ base_digits 16 (nat (v mod 2 ^ 32))
      else if base = 8 then ''0'' @ base_digits 8 (nat (v mod 2 ^ 32)) else dec_int v)"

definition iniSetInt :: "string option \<Rightarrow> string \<Rightarrow> int \<Rightarrow> int \<Rightarrow> rw_state \<Rightarrow> (int \<times> rw_state) c_result" where
  "iniSetInt sect key v base st = iniSetString sect key (Some (int_text base v)) st"

definition iniGetInt :: "string option \<Rightarrow> string \<Rightarrow> int \<Rightarrow> rw_state \<Rightarrow> (int \<times> rw_state) c_result" where
  "iniGetInt sect key defvalue st =
     res_bind (iniGetValue sect key 64 None st) (\<lambda>(ret, v, st1).
     if ret \<noteq> 0 then Inr (signed_take_bit 31 (strtol0 v), st1)
     else res_bind (iniSetInt sect key defvalue 10 st1) (\<lambda>(r, st2). Inr (defvalue, st2)))"

section \<open>The files the class writes itself\<close>

text \<open>
  Starting from nothing, the class writes sections, each behind an empty line, of assignments that end with
  \<^verbatim>\<open>;\<close>. \<open>ini_doc\<close> is such a file as data.
\<close>

type_synonym ini_doc = "(string \<times> (string \<times> string) list) list"

definition pair_text :: "string \<times> string \<Rightarrow> string" where
  "pair_text p = fst p @ ''='' @ snd p @ '';'' @ CRLF"

definition sect_text :: "string \<times> (string \<times> string) list \<Rightarrow> string" where
  "sect_text s = CRLF @ ''['' @ fst s @ '']'' @ CRLF @ concat (map pair_text (snd s))"

definition doc_text :: "ini_doc \<Rightarrow> string" where
  "doc_text d = concat (map sect_text d)"

definition ordinary :: "char \<Rightarrow> bool" where
  "ordinary c \<longleftrightarrow> c \<notin> {NUL, CR, LF, CHR 0x27, CHR 0x22, CHR '';'', CHR ''#''}"

definition stripped :: "string \<Rightarrow> bool" where
  "stripped s \<longleftrightarrow> s = [] \<or> \<not> c_isspace (hd s) \<and> \<not> c_isspace (last s)"

definition good_pair :: "string \<times> string \<Rightarrow> bool" where
  "good_pair p \<longleftrightarrow> list_all ordinary (fst p) \<and> list_all ordinary (snd p) \<and> stripped (fst p) \<and> stripped (snd p) \<and>
     CHR ''='' \<notin> set (fst p) \<and> (fst p = [] \<or> hd (fst p) \<noteq> CHR ''['') \<and> snd p \<noteq> [] \<and> length (fst p) + length (snd p) + 1 < 1024"

definition good_name :: "string \<Rightarrow> bool" where
  "good_name s \<longleftrightarrow> list_all ordinary s \<and> stripped s \<and> length s + 2 < 1024"

definition good_doc :: "ini_doc \<Rightarrow> bool" where
  "good_doc d \<longleftrightarrow> list_all (\<lambda>(n, kvs). good_name n \<and> list_all good_pair kvs) d"

text \<open>Keys and names are found without regard to case.\<close>

fun pairs_set :: "string \<Rightarrow> string \<Rightarrow> (string \<times> string) list \<Rightarrow> (string \<times> string) list" where
  "pairs_set k v [] = [(k, v)]"
| "pairs_set k v ((k', v') # r) = (if strcaseeq k' k then (k, v) # r else (k', v') # pairs_set k v r)"

fun doc_set :: "string \<Rightarrow> string \<Rightarrow> string \<Rightarrow> ini_doc \<Rightarrow> ini_doc" where
  "doc_set s k v [] = [(s, [(k, v)])]"
| "doc_set s k v ((n, kvs) # d) = (if strcaseeq n s then (n, pairs_set k v kvs) # d else (n, kvs) # doc_set s k v d)"

definition pairs_get :: "string \<Rightarrow> (string \<times> string) list \<Rightarrow> string option" where
  "pairs_get k kvs = map_option snd (find (\<lambda>p. strcaseeq (fst p) k) kvs)"

definition doc_get :: "string \<Rightarrow> string \<Rightarrow> ini_doc \<Rightarrow> string option" where
  "doc_get s k d = (case find (\<lambda>p. strcaseeq (fst p) s) d of None \<Rightarrow> None | Some p \<Rightarrow> pairs_get k (snd p))"

lemma pairs_get_set: "pairs_get k' (pairs_set k v kvs) = (if strcaseeq k k' then Some v else pairs_get k' kvs)"
  by (induction k v kvs rule: pairs_set.induct) (auto simp: pairs_get_def dest: strcaseeq_trans strcaseeq_sym [THEN iffD1])

lemma doc_get_set:
  "doc_get s' k' (doc_set s k v d) = (if strcaseeq s s' \<and> strcaseeq k k' then Some v else doc_get s' k' d)"
proof (induction s k v d rule: doc_set.induct)
  case (2 s k v n kvs d)
  have "strcaseeq n s \<Longrightarrow> strcaseeq n s' = strcaseeq s s'" by (metis strcaseeq_sym strcaseeq_trans)
  moreover have "\<not> strcaseeq n s \<Longrightarrow> strcaseeq n s' \<Longrightarrow> \<not> strcaseeq s s'" by (metis strcaseeq_sym strcaseeq_trans)
  ultimately show ?case using 2 by (auto simp: doc_get_def pairs_get_set)
qed (auto simp: doc_get_def pairs_get_def)

lemma good_pairs_set: "list_all good_pair kvs \<Longrightarrow> good_pair (k, v) \<Longrightarrow> list_all good_pair (pairs_set k v kvs)"
  by (induction k v kvs rule: pairs_set.induct) auto

lemma good_doc_set: "good_doc d \<Longrightarrow> good_name s \<Longrightarrow> good_pair (k, v) \<Longrightarrow> good_doc (doc_set s k v d)"
  by (induction s k v d rule: doc_set.induct) (auto simp: good_doc_def good_pairs_set)

section \<open>Their lines\<close>

lemma CRLF_length [simp]: "length CRLF = 2" "CRLF \<noteq> []"
  by (simp_all add: CRLF_def)

fun scan_chars :: "int \<Rightarrow> scan \<Rightarrow> string \<Rightarrow> scan" where
  "scan_chars i g [] = g"
| "scan_chars i g (c # cs) = scan_chars (i + 1) (scan_char c i g) cs"

lemma scan_line_chars:
  assumes "\<forall>c \<in> set l. c \<noteq> NUL \<and> c \<noteq> CR \<and> c \<noteq> LF" "cntCR g = 0" "cntLF g = 0"
  shows "scan_line i g (l @ r) = scan_line (i + int (length l)) (scan_chars i g l) r"
  using assms
proof (induction l arbitrary: i g)
  case (Cons c l)
  have "cntCR (scan_char c i g) = 0" "cntLF (scan_char c i g) = 0"
    using Cons.prems by (auto simp: scan_char_def Let_def)
  then show ?case using Cons by (simp add: algebra_simps)
qed simp

lemma scan_chars_tail:
  assumes "list_all ordinary t" "sc_cont1 g = Some x" "sc_rem1 g = None"
  shows "\<exists>b. scan_chars i g t = g\<lparr>cntblank := b\<rparr> \<and> (t = [] \<longrightarrow> b = cntblank g) \<and> (t \<noteq> [] \<longrightarrow> \<not> c_isspace (last t) \<longrightarrow> b = 0)"
  using assms
proof (induction t arbitrary: i g)
  case Nil
  then show ?case by (intro exI [of _ "cntblank g"]) simp
next
  case (Cons c t)
  have s: "scan_char c i g = g\<lparr>cntblank := (if c_isspace c then cntblank g + 1 else 0)\<rparr>"
    using Cons.prems by (auto simp: scan_char_def ordinary_def Let_def)
  obtain b where "scan_chars (i + 1) (scan_char c i g) t = (scan_char c i g)\<lparr>cntblank := b\<rparr>"
    "t = [] \<longrightarrow> b = cntblank (scan_char c i g)" "t \<noteq> [] \<longrightarrow> \<not> c_isspace (last t) \<longrightarrow> b = 0"
    using Cons.IH [of "scan_char c i g" "i + 1"] Cons.prems s by auto
  then show ?case using s by (intro exI [of _ b]) auto
qed

lemma scan_chars_line:
  assumes "list_all ordinary l" "l \<noteq> []" "\<not> c_isspace (hd l)" "\<not> c_isspace (last l)"
  shows "scan_chars 0 scan_start l = scan_start\<lparr>sc_cont1 := Some 0\<rparr>"
proof -
  obtain c t where l: "l = c # t" using assms(2) by (cases l) auto
  have s: "scan_char c 0 scan_start = scan_start\<lparr>sc_cont1 := Some 0\<rparr>"
    using assms(1,3) by (auto simp: l scan_char_def ordinary_def scan_start_def Let_def)
  obtain b where b: "scan_chars 1 (scan_start\<lparr>sc_cont1 := Some 0\<rparr>) t = scan_start\<lparr>sc_cont1 := Some 0, cntblank := b\<rparr>"
    "t = [] \<longrightarrow> b = 0" "t \<noteq> [] \<longrightarrow> \<not> c_isspace (last t) \<longrightarrow> b = 0"
    using scan_chars_tail [of t "scan_start\<lparr>sc_cont1 := Some 0\<rparr>" 0 1] assms(1) by (auto simp: l scan_start_def)
  then have "b = 0" using assms(4) by (cases "t = []") (auto simp: l)
  then show ?thesis using b(1) s by (simp add: l scan_start_def)
qed

lemma scan_crlf:
  assumes "cntCR g = 0" "cntLF g = 0" "r = [] \<or> hd r \<noteq> NUL"
  shows "scan_line i g (CRLF @ r) = (i + 2, g\<lparr>cntCR := 1, cntLF := 1\<rparr>)"
  using assms by (cases r) (auto simp: CRLF_def scan_char_def)

lemma ordinary_line: "list_all ordinary l \<Longrightarrow> \<forall>c \<in> set l. c \<noteq> NUL \<and> c \<noteq> CR \<and> c \<noteq> LF"
  by (auto simp: list_all_iff ordinary_def)

lemma GetLine_empty:
  assumes "r = [] \<or> hd r \<noteq> NUL"
  shows "GetLine (CRLF @ r) = Inr \<lparr>li_type = LINE_EMPTY, li_content = [], li_rem1 = 0, li_next = 2\<rparr>"
  using scan_crlf [of scan_start r 0] assms by (simp add: GetLine_def scan_start_def)

lemma c_str_ordinary: "list_all ordinary l \<Longrightarrow> c_str l = l"
  by (rule c_str_id) (auto simp: cstring_def list_all_iff ordinary_def)

lemma GetLine_section:
  assumes "good_name n" "r = [] \<or> hd r \<noteq> NUL"
  shows "GetLine (''['' @ n @ '']'' @ CRLF @ r) =
    Inr \<lparr>li_type = LINE_SECTION, li_content = ''['' @ n @ '']'', li_rem1 = int (length n) + 2, li_next = int (length n) + 4\<rparr>"
proof -
  define l where "l = ''['' @ n @ '']''"
  have l: "list_all ordinary l" "l \<noteq> []" "\<not> c_isspace (hd l)" "\<not> c_isspace (last l)"
    using assms(1) by (auto simp: l_def good_name_def ordinary_def c_isspace_def byte_of_def)
  have len: "int (length l) = int (length n) + 2" by (simp add: l_def)
  have "scan_line 0 scan_start (l @ CRLF @ r) = (int (length l) + 2, scan_start\<lparr>sc_cont1 := Some 0, cntCR := 1, cntLF := 1\<rparr>)"
    using scan_line_chars [OF ordinary_line [OF l(1)], of scan_start 0 "CRLF @ r"] scan_chars_line [OF l] assms(2)
      scan_crlf [of "scan_start\<lparr>sc_cont1 := Some 0\<rparr>" r "int (length l)"] by (simp add: scan_start_def)
  moreover have "bytes_between 0 (int (length l)) (l @ CRLF @ r) = l" by (simp add: bytes_between_def)
  moreover have "hd l = CHR ''[''" "last l = CHR '']''" by (simp_all add: l_def)
  moreover have "int (length l) < SIZE_LINE" using assms(1) by (simp add: len good_name_def SIZE_LINE_def)
  ultimately have "GetLine (l @ CRLF @ r) = Inr \<lparr>li_type = LINE_SECTION, li_content = l, li_rem1 = int (length l), li_next = int (length l) + 2\<rparr>"
    using l(2) c_str_ordinary [OF l(1)] by (simp add: GetLine_def scan_start_def Let_def)
  then show ?thesis by (simp add: len l_def)
qed

lemma GetLine_pair:
  assumes "good_pair (k, v)" "r = [] \<or> hd r \<noteq> NUL"
  shows "GetLine (pair_text (k, v) @ r) =
    Inr \<lparr>li_type = LINE_VALUE, li_content = k @ ''='' @ v, li_rem1 = int (length (k @ ''='' @ v)), li_next = int (length (pair_text (k, v)))\<rparr>"
proof -
  define l where "l = k @ ''='' @ v"
  have v: "v \<noteq> []" "\<not> c_isspace (last v)" using assms(1) by (auto simp: good_pair_def stripped_def)
  have l: "list_all ordinary l" "l \<noteq> []" "\<not> c_isspace (hd l)" "\<not> c_isspace (last l)"
    using assms(1) v by (cases k; auto simp: l_def good_pair_def stripped_def ordinary_def c_isspace_def byte_of_def)+
  let ?n = "int (length l)"
  have "scan_line 0 scan_start (l @ '';'' @ CRLF @ r) = scan_line (?n + 1) (scan_start\<lparr>sc_cont1 := Some 0, sc_rem1 := Some ?n\<rparr>) (CRLF @ r)"
    using scan_line_chars [OF ordinary_line [OF l(1)], of scan_start 0 "'';'' @ CRLF @ r"] scan_chars_line [OF l]
    by (simp add: scan_start_def scan_char_def)
  also have "\<dots> = (?n + 3, scan_start\<lparr>sc_cont1 := Some 0, sc_rem1 := Some ?n, cntCR := 1, cntLF := 1\<rparr>)"
    using scan_crlf [of "scan_start\<lparr>sc_cont1 := Some 0, sc_rem1 := Some ?n\<rparr>" r "?n + 1"] assms(2) by (simp add: scan_start_def)
  finally have "scan_line 0 scan_start (l @ '';'' @ CRLF @ r) =
      (?n + 3, scan_start\<lparr>sc_cont1 := Some 0, sc_rem1 := Some ?n, cntCR := 1, cntLF := 1\<rparr>)" .
  moreover have "bytes_between 0 ?n (l @ '';'' @ CRLF @ r) = l" by (simp add: bytes_between_def)
  moreover have "hd l \<noteq> CHR ''[''" using assms(1) by (cases k) (auto simp: l_def good_pair_def)
  moreover have "?n < SIZE_LINE" using assms(1) by (simp add: l_def good_pair_def SIZE_LINE_def)
  moreover have "CHR ''='' \<in> set l" by (simp add: l_def)
  ultimately have "GetLine (l @ '';'' @ CRLF @ r) = Inr \<lparr>li_type = LINE_VALUE, li_content = l, li_rem1 = ?n, li_next = ?n + 3\<rparr>"
    using l(2) c_str_ordinary [OF l(1)] by (simp add: GetLine_def scan_start_def Let_def)
  then show ?thesis by (simp add: l_def pair_text_def CRLF_def)
qed

lemma StrStrip_stripped: "stripped s \<Longrightarrow> StrStrip s = s"
proof (cases s rule: rev_cases)
  case (snoc t c)
  assume "stripped s"
  then show ?thesis using snoc by (cases t) (auto simp: StrStrip_def stripped_def)
qed (simp add: StrStrip_def)

lemma pair_key_value: "good_pair (k, v) \<Longrightarrow> GetKeyValue (k @ ''='' @ v) = (k, v)"
  by (simp add: GetKeyValue_def good_pair_def before_chr_append StrStrip_stripped)

lemma name_section: "good_name n \<Longrightarrow> section_name (''['' @ n @ '']'') = n"
  by (simp add: section_name_def good_name_def StrStrip_stripped)


lemma tolower_pos: "c \<noteq> NUL \<Longrightarrow> byte_of (c_tolower c) \<noteq> 0"
proof -
  assume "c \<noteq> NUL"
  then have "byte_of c \<noteq> byte_of NUL" by (simp only: byte_of_inject not_False_eq_True)
  then have "byte_of c \<noteq> 0" by (simp add: byte_of_def)
  then show ?thesis by (simp add: c_tolower_def)
qed

lemma StriCmp_ordinary: "list_all ordinary s \<Longrightarrow> list_all ordinary t \<Longrightarrow> StriCmp s t = 0 \<longleftrightarrow> strcaseeq s t"
proof (induction s t rule: StriCmp.induct)
  case (2 d ds)
  then show ?case using tolower_pos [of d] by (auto simp: ordinary_def)
next
  case (3 c cs)
  then show ?case using tolower_pos [of c] by (auto simp: ordinary_def)
qed (auto simp: strcaseeq_def)

section \<open>Reading them\<close>

lemma pairs_text_hd: "list_all good_pair kvs \<Longrightarrow> r = [] \<or> hd r \<noteq> NUL \<Longrightarrow> concat (map pair_text kvs) @ r = [] \<or> hd (concat (map pair_text kvs) @ r) \<noteq> NUL"
proof (cases kvs)
  case (Cons p ps)
  assume "list_all good_pair kvs"
  then show ?thesis using Cons by (cases p; cases "fst p") (auto simp: pair_text_def good_pair_def ordinary_def)
qed simp

lemma doc_text_hd: "doc_text d = [] \<or> hd (doc_text d) = CR"
  by (cases d) (simp_all add: doc_text_def sect_text_def CRLF_def)

lemma doc_text_start: "doc_text d = [] \<or> hd (doc_text d) \<noteq> NUL"
  using doc_text_hd [of d] by auto

lemma find_value_pairs:
  assumes "list_all good_pair kvs" "list_all ordinary key" "r = [] \<or> hd r \<noteq> NUL"
  shows "find_value (Some s) found key (concat (map pair_text kvs) @ r) =
    (if found then (case pairs_get key kvs of Some v \<Rightarrow> Inr (Some v) | None \<Rightarrow> find_value (Some s) True key r)
     else find_value (Some s) False key r)"
  using assms
proof (induction kvs)
  case (Cons p kvs)
  obtain k v where p: "p = (k, v)" by (cases p)
  have g: "good_pair (k, v)" "list_all ordinary k" "v \<noteq> []" using Cons.prems by (auto simp: p good_pair_def)
  have h: "concat (map pair_text kvs) @ r = [] \<or> hd (concat (map pair_text kvs) @ r) \<noteq> NUL"
    using pairs_text_hd Cons.prems by simp
  have n: "pair_text (k, v) \<noteq> []" by (simp add: pair_text_def)
  have "find_value (Some s) found key (concat (map pair_text (p # kvs)) @ r) =
      (if found \<and> strcaseeq k key then Inr (Some v) else find_value (Some s) found key (concat (map pair_text kvs) @ r))"
    using Cons.prems g n
    by (subst find_value.simps)
      (simp add: p GetLine_pair [OF g(1) h] pair_key_value [OF g(1), simplified] StriCmp_ordinary Let_def)
  then show ?case
    using Cons.IH Cons.prems by (cases found) (simp_all add: p pairs_get_def)
qed (simp add: pairs_get_def)

lemma find_value_empty_line:
  assumes "r = [] \<or> hd r \<noteq> NUL"
  shows "find_value sect found key (CRLF @ r) = find_value sect found key r"
proof -
  have "drop 2 (CRLF @ r) = r" by (simp add: CRLF_def)
  then show ?thesis by (subst find_value.simps) (simp add: GetLine_empty [OF assms])
qed

lemma find_value_section:
  assumes "good_name n" "list_all ordinary s" "r = [] \<or> hd r \<noteq> NUL"
  shows "find_value (Some s) found key (''['' @ n @ '']'' @ CRLF @ r) =
    (if found then Inr None else find_value (Some s) (strcaseeq n s) key r)"
proof -
  have n: "list_all ordinary n" using assms(1) by (simp add: good_name_def)
  have "nat (int (length n) + 4) = length (''['' @ n @ '']'' @ CRLF)" by simp
  then have d: "drop (nat (int (length n) + 4)) (''['' @ n @ '']'' @ CRLF @ r) = r"
    by (metis append_eq_conv_conj append.assoc)
  have "find_value (Some s) found key (''['' @ n @ '']'' @ CRLF @ r) =
      (if found then Inr None else find_value (Some s) (StriCmp (section_name (''['' @ n @ '']'')) s = 0) key
         (drop (nat (int (length n) + 4)) (''['' @ n @ '']'' @ CRLF @ r)))"
    by (subst find_value.simps) (simp add: GetLine_section [OF assms(1,3), simplified])
  then show ?thesis unfolding d name_section [OF assms(1)] StriCmp_ordinary [OF n assms(2)] .
qed

lemma sect_text_start: "sect_text p @ r = CRLF @ ''['' @ fst p @ '']'' @ CRLF @ concat (map pair_text (snd p)) @ r"
  by (simp add: sect_text_def)

lemma find_value_doc:
  assumes "good_doc d" "list_all ordinary s" "list_all ordinary key"
  shows "find_value (Some s) False key (doc_text d) = Inr (doc_get s key d)"
  using assms(1)
proof (induction d)
  case Nil
  then show ?case by (subst find_value.simps) (simp add: doc_text_def doc_get_def)
next
  case (Cons p d)
  obtain n kvs where p: "p = (n, kvs)" by (cases p)
  have g: "good_name n" "list_all good_pair kvs" "good_doc d" using Cons.prems by (auto simp: p good_doc_def)
  have done_doc: "find_value (Some s) True key (doc_text d) = Inr None"
  proof (cases d)
    case Nil
    then show ?thesis by (subst find_value.simps) (simp add: doc_text_def)
  next
    case (Cons q e)
    then have q: "good_name (fst q)" "list_all good_pair (snd q)" using g(3) by (auto simp: good_doc_def split_def)
    have h: "concat (map pair_text (snd q)) @ doc_text e = [] \<or> hd (concat (map pair_text (snd q)) @ doc_text e) \<noteq> NUL"
      using pairs_text_hd [OF q(2) doc_text_start] .
    have "doc_text d = CRLF @ ''['' @ fst q @ '']'' @ CRLF @ concat (map pair_text (snd q)) @ doc_text e"
      using Cons by (simp add: doc_text_def sect_text_def)
    then show ?thesis using find_value_section [OF q(1) assms(2) h, of True key] by (simp add: find_value_empty_line)
  qed
  have h: "concat (map pair_text kvs) @ doc_text d = [] \<or> hd (concat (map pair_text kvs) @ doc_text d) \<noteq> NUL"
    using pairs_text_hd [OF g(2) doc_text_start] .
  have "doc_text (p # d) = CRLF @ ''['' @ n @ '']'' @ CRLF @ concat (map pair_text kvs) @ doc_text d"
    by (simp add: doc_text_def sect_text_def p)
  then have "find_value (Some s) False key (doc_text (p # d)) =
      find_value (Some s) (strcaseeq n s) key (concat (map pair_text kvs) @ doc_text d)"
    using find_value_section [OF g(1) assms(2) h, of False key] by (simp add: find_value_empty_line)
  then show ?case
    using find_value_pairs [OF g(2) assms(3) doc_text_start, of s _ d] done_doc Cons.IH [OF g(3)]
    by (simp add: doc_get_def p split: option.split)
qed

section \<open>Writing them\<close>

lemma doc_set_new: "\<forall>p \<in> set d. \<not> strcaseeq (fst p) s \<Longrightarrow> doc_set s k v d = d @ [(s, [(k, v)])]"
  by (induction s k v d rule: doc_set.induct) auto

lemma doc_set_at:
  "\<forall>p \<in> set d1. \<not> strcaseeq (fst p) s \<Longrightarrow> strcaseeq n s \<Longrightarrow> doc_set s k v (d1 @ (n, kvs) # d2) = d1 @ (n, pairs_set k v kvs) # d2"
  by (induction d1) auto

lemma pairs_set_new: "\<forall>p \<in> set kvs. \<not> strcaseeq (fst p) k \<Longrightarrow> pairs_set k v kvs = kvs @ [(k, v)]"
  by (induction k v kvs rule: pairs_set.induct) auto

lemma pairs_set_at:
  "\<forall>p \<in> set kv1. \<not> strcaseeq (fst p) k \<Longrightarrow> strcaseeq k' k \<Longrightarrow> pairs_set k v (kv1 @ (k', v') # kv2) = kv1 @ (k, v) # kv2"
  by (induction kv1) auto

lemma find_section_empty_line:
  assumes "r = [] \<or> hd r \<noteq> NUL"
  shows "find_section sect sp u (CRLF @ r) = find_section sect sp (u + 2) r"
proof -
  have "drop 2 (CRLF @ r) = r" by (simp add: CRLF_def)
  then show ?thesis by (subst find_section.simps) (simp add: GetLine_empty [OF assms])
qed

lemma find_section_header:
  assumes "good_name n" "list_all ordinary s" "r = [] \<or> hd r \<noteq> NUL"
  shows "find_section (Some s) sp u (''['' @ n @ '']'' @ CRLF @ r) =
    (if ss_found sp then Inr sp
     else find_section (Some s)
       (if strcaseeq n s then \<lparr>ss_found = True, ss_cont1 = u + int (length n) + 4, ss_cont2 = u + int (length n) + 4\<rparr>
        else sp\<lparr>ss_cont2 := u + int (length n) + 4\<rparr>) (u + int (length n) + 4) r)"
proof -
  have n: "list_all ordinary n" using assms(1) by (simp add: good_name_def)
  have "nat (int (length n) + 4) = length (''['' @ n @ '']'' @ CRLF)" by simp
  then have d: "drop (nat (int (length n) + 4)) (''['' @ n @ '']'' @ CRLF @ r) = r"
    by (metis append_eq_conv_conj append.assoc)
  have "find_section (Some s) sp u (''['' @ n @ '']'' @ CRLF @ r) =
      (if ss_found sp then Inr sp
       else find_section (Some s)
         (if StriCmp (section_name (''['' @ n @ '']'')) s = 0
          then \<lparr>ss_found = True, ss_cont1 = u + (int (length n) + 4), ss_cont2 = u + (int (length n) + 4)\<rparr>
          else sp\<lparr>ss_cont2 := u + (int (length n) + 4)\<rparr>) (u + (int (length n) + 4))
         (drop (nat (int (length n) + 4)) (''['' @ n @ '']'' @ CRLF @ r)))"
    by (subst find_section.simps) (simp add: GetLine_section [OF assms(1,3), simplified] Let_def)
  then show ?thesis unfolding d name_section [OF assms(1)] StriCmp_ordinary [OF n assms(2)] by (simp add: add.assoc)
qed

abbreviation pairs_len :: "(string \<times> string) list \<Rightarrow> int" where
  "pairs_len kvs \<equiv> int (length (concat (map pair_text kvs)))"

lemma find_section_pairs:
  assumes "list_all good_pair kvs" "r = [] \<or> hd r \<noteq> NUL"
  shows "find_section (Some s) sp u (concat (map pair_text kvs) @ r) =
    find_section (Some s) (if kvs = [] then sp else sp\<lparr>ss_cont2 := u + pairs_len kvs\<rparr>) (u + pairs_len kvs) r"
  using assms
proof (induction kvs arbitrary: sp u)
  case (Cons p kvs)
  obtain k v where p: "p = (k, v)" by (cases p)
  have g: "good_pair (k, v)" using Cons.prems by (simp add: p)
  have h: "concat (map pair_text kvs) @ r = [] \<or> hd (concat (map pair_text kvs) @ r) \<noteq> NUL"
    using pairs_text_hd Cons.prems by simp
  have n: "pair_text (k, v) \<noteq> []" by (simp add: pair_text_def)
  have "find_section (Some s) sp u (concat (map pair_text (p # kvs)) @ r) =
      find_section (Some s) (sp\<lparr>ss_cont2 := u + int (length (pair_text (k, v)))\<rparr>) (u + int (length (pair_text (k, v))))
        (concat (map pair_text kvs) @ r)"
    using n by (subst find_section.simps) (simp add: p GetLine_pair [OF g h] Let_def)
  then show ?case using Cons by (simp add: p add.assoc)
qed simp

lemma doc_text_append: "doc_text (d @ e) = doc_text d @ doc_text e"
  by (simp add: doc_text_def)

lemma sect_follow:
  "list_all good_pair kvs \<Longrightarrow> r = [] \<or> hd r \<noteq> NUL \<Longrightarrow>
   find_section (Some s) sp u (sect_text (n, kvs) @ r) = find_section (Some s) sp (u + 2) (''['' @ n @ '']'' @ CRLF @ concat (map pair_text kvs) @ r)"
proof -
  assume "list_all good_pair kvs" "r = [] \<or> hd r \<noteq> NUL"
  have "sect_text (n, kvs) @ r = CRLF @ ''['' @ n @ '']'' @ CRLF @ concat (map pair_text kvs) @ r" by (simp add: sect_text_def)
  then show ?thesis by (simp add: find_section_empty_line)
qed

lemma find_section_others:
  assumes "good_doc d" "list_all ordinary s" "\<forall>p \<in> set d. \<not> strcaseeq (fst p) s" "\<not> ss_found sp" "r = [] \<or> hd r = CR"
  shows "\<exists>x. find_section (Some s) sp u (doc_text d @ r) = find_section (Some s) (sp\<lparr>ss_cont2 := x\<rparr>) (u + int (length (doc_text d))) r"
  using assms
proof (induction d arbitrary: sp u)
  case Nil
  then show ?case by (intro exI [of _ "ss_cont2 sp"]) (simp add: doc_text_def)
next
  case (Cons p d)
  obtain n kvs where p: "p = (n, kvs)" by (cases p)
  have g: "good_name n" "list_all good_pair kvs" "good_doc d" using Cons.prems by (auto simp: p good_doc_def)
  have h: "doc_text d @ r = [] \<or> hd (doc_text d @ r) \<noteq> NUL"
    using doc_text_hd [of d] Cons.prems(5) by (cases "doc_text d") auto
  define u1 where "u1 = u + 2 + int (length n) + 4"
  have ul: "u1 + pairs_len kvs = u + int (length (sect_text p))" by (simp add: u1_def p sect_text_def)
  have "find_section (Some s) sp u (sect_text p @ doc_text d @ r) =
      find_section (Some s) (sp\<lparr>ss_cont2 := u1\<rparr>) u1 (concat (map pair_text kvs) @ doc_text d @ r)"
    using sect_follow [OF g(2) h] find_section_header [OF g(1) Cons.prems(2) pairs_text_hd [OF g(2) h]] Cons.prems(3,4)
    by (simp add: p u1_def)
  also have "\<dots> = find_section (Some s) (if kvs = [] then sp\<lparr>ss_cont2 := u1\<rparr> else sp\<lparr>ss_cont2 := u1 + pairs_len kvs\<rparr>)
      (u + int (length (sect_text p))) (doc_text d @ r)"
    using find_section_pairs [OF g(2) h, of s "sp\<lparr>ss_cont2 := u1\<rparr>" u1] by (simp add: ul)
  finally have e: "find_section (Some s) sp u (doc_text (p # d) @ r) =
      find_section (Some s) (sp\<lparr>ss_cont2 := (if kvs = [] then u1 else u1 + pairs_len kvs)\<rparr>) (u + int (length (sect_text p))) (doc_text d @ r)"
    by (simp add: doc_text_def split: if_splits)
  obtain x where "find_section (Some s) (sp\<lparr>ss_cont2 := (if kvs = [] then u1 else u1 + pairs_len kvs)\<rparr>) (u + int (length (sect_text p))) (doc_text d @ r) =
      find_section (Some s) (sp\<lparr>ss_cont2 := x\<rparr>) (u + int (length (sect_text p)) + int (length (doc_text d))) r"
    using Cons.IH [OF g(3) Cons.prems(2), of "sp\<lparr>ss_cont2 := (if kvs = [] then u1 else u1 + pairs_len kvs)\<rparr>" "u + int (length (sect_text p))"] Cons.prems(3-5)
    by auto
  then show ?case using e by (intro exI [of _ x]) (simp add: doc_text_def add.assoc)
qed

lemma FindSection_none:
  assumes "good_doc d" "list_all ordinary s" "\<forall>p \<in> set d. \<not> strcaseeq (fst p) s"
  shows "FindSection (Some s) (doc_text d) = Inr None"
proof -
  let ?sp = "\<lparr>ss_found = False, ss_cont1 = 0, ss_cont2 = 0\<rparr>"
  obtain x where "find_section (Some s) ?sp 0 (doc_text d @ []) = find_section (Some s) (?sp\<lparr>ss_cont2 := x\<rparr>) (0 + int (length (doc_text d))) []"
    using find_section_others [OF assms, of ?sp "[]" 0] by auto
  then show ?thesis by (simp add: FindSection_def find_section.simps)
qed

lemma FindSection_some:
  assumes "good_doc (d1 @ (n, kvs) # d2)" "list_all ordinary s" "\<forall>p \<in> set d1. \<not> strcaseeq (fst p) s" "strcaseeq n s"
  shows "FindSection (Some s) (doc_text (d1 @ (n, kvs) # d2)) =
    Inr (Some (int (length (doc_text d1)) + int (length n) + 6, int (length (doc_text d1)) + int (length n) + 6 + pairs_len kvs))"
proof -
  let ?sp = "\<lparr>ss_found = False, ss_cont1 = 0, ss_cont2 = 0\<rparr>"
  define u where "u = int (length (doc_text d1))"
  define c where "c = u + int (length n) + 6"
  have g: "good_doc d1" "good_name n" "list_all good_pair kvs" "good_doc d2" using assms(1) by (auto simp: good_doc_def)
  have h: "doc_text d2 = [] \<or> hd (doc_text d2) \<noteq> NUL" by (rule doc_text_start)
  have split: "doc_text (d1 @ (n, kvs) # d2) = doc_text d1 @ sect_text (n, kvs) @ doc_text d2"
    by (simp add: doc_text_def)
  have "sect_text (n, kvs) @ doc_text d2 = [] \<or> hd (sect_text (n, kvs) @ doc_text d2) = CR" by (simp add: sect_text_def CRLF_def)
  then obtain x where "find_section (Some s) ?sp 0 (doc_text (d1 @ (n, kvs) # d2)) =
      find_section (Some s) (?sp\<lparr>ss_cont2 := x\<rparr>) u (sect_text (n, kvs) @ doc_text d2)"
    using find_section_others [OF g(1) assms(2,3), of ?sp "sect_text (n, kvs) @ doc_text d2" 0]
    unfolding split by (auto simp: u_def)
  also have "\<dots> = find_section (Some s) \<lparr>ss_found = True, ss_cont1 = c, ss_cont2 = c\<rparr> c (concat (map pair_text kvs) @ doc_text d2)"
    using sect_follow [OF g(3) h] find_section_header [OF g(2) assms(2) pairs_text_hd [OF g(3) h]] assms(4)
    by (simp add: c_def algebra_simps)
  also have "\<dots> = find_section (Some s) \<lparr>ss_found = True, ss_cont1 = c, ss_cont2 = c + pairs_len kvs\<rparr> (c + pairs_len kvs) (doc_text d2)"
    using find_section_pairs [OF g(3) h] by (cases kvs) auto
  also have "\<dots> = Inr \<lparr>ss_found = True, ss_cont1 = c, ss_cont2 = c + pairs_len kvs\<rparr>"
  proof (cases d2)
    case Nil
    then show ?thesis by (simp add: doc_text_def find_section.simps)
  next
    case (Cons p e)
    obtain m ks where p: "p = (m, ks)" by (cases p)
    have q: "good_name m" "list_all good_pair ks" using g(4) by (auto simp: good_doc_def Cons p)
    have "doc_text d2 = sect_text (m, ks) @ doc_text e" by (simp add: Cons p doc_text_def)
    then show ?thesis
      using sect_follow [OF q(2) doc_text_start] find_section_header [OF q(1) assms(2) pairs_text_hd [OF q(2) doc_text_start]]
      by simp
  qed
  finally show ?thesis by (simp add: FindSection_def c_def u_def)
qed

lemma find_key_pairs:
  assumes "list_all good_pair kv1" "list_all ordinary key" "\<forall>p \<in> set kv1. \<not> strcaseeq (fst p) key" "r = [] \<or> hd r \<noteq> NUL"
  shows "find_key key p (concat (map pair_text kv1) @ r) = find_key key (p + pairs_len kv1) r"
  using assms
proof (induction kv1 arbitrary: p)
  case (Cons q kvs)
  obtain k v where q: "q = (k, v)" by (cases q)
  have g: "good_pair (k, v)" "list_all ordinary k" using Cons.prems by (auto simp: q good_pair_def)
  have h: "concat (map pair_text kvs) @ r = [] \<or> hd (concat (map pair_text kvs) @ r) \<noteq> NUL"
    using pairs_text_hd Cons.prems by simp
  have n: "pair_text (k, v) \<noteq> []" by (simp add: pair_text_def)
  have "\<not> strcaseeq k key" using Cons.prems(3) by (simp add: q)
  then have "find_key key p (concat (map pair_text (q # kvs)) @ r) =
      find_key key (p + int (length (pair_text (k, v)))) (concat (map pair_text kvs) @ r)"
    using n Cons.prems(2) g(2)
    by (subst find_key.simps) (simp add: q GetLine_pair [OF g(1) h] pair_key_value [OF g(1), simplified] StriCmp_ordinary Let_def)
  then show ?case using Cons by (simp add: q add.assoc)
qed simp

lemma find_key_here:
  assumes "good_pair (k, v)" "list_all ordinary key" "strcaseeq k key" "r = [] \<or> hd r \<noteq> NUL"
  shows "\<exists>li. find_key key p (pair_text (k, v) @ r) = Inr (Some (p, li)) \<and> li_rem1 li = int (length (k @ ''='' @ v))"
proof -
  have "pair_text (k, v) \<noteq> []" "list_all ordinary k" using assms(1) by (simp_all add: pair_text_def good_pair_def)
  then show ?thesis
    using assms by (subst find_key.simps) (simp add: GetLine_pair [OF assms(1,4)] pair_key_value [OF assms(1), simplified] StriCmp_ordinary)
qed

text \<open>\<open>iniSetString\<close> writes the text of the changed file.\<close>

lemma set_bytes:
  assumes "good_doc d" "good_name s" "good_pair (k, v)" "gBuffer (fst st) = Loaded (doc_text d)"
    "content_of (snd st) (gFilename (fst st)) = Some (doc_text d)"
  shows "iniSetString (Some s) k (Some v) st = Inr (rewrite_file (doc_text (doc_set s k v d)) st)"
proof (cases "\<exists>p \<in> set d. strcaseeq (fst p) s")
  case False
  have o: "list_all ordinary s" using assms(2) by (simp add: good_name_def)
  have "doc_text (doc_set s k v d) = doc_text d @ CRLF @ ''['' @ s @ '']'' @ CRLF @ k @ ''='' @ v @ '';'' @ CRLF"
    using doc_set_new [of d s k v] False by (simp add: doc_text_def sect_text_def pair_text_def)
  then show ?thesis
    using FindSection_none [OF assms(1) o] False assms(4,5)
    by (cases st) (simp add: iniSetString_def append_file_def or_null_def)
next
  case True
  have o: "list_all ordinary s" "list_all ordinary k" using assms(2,3) by (simp_all add: good_name_def good_pair_def)
  obtain d1 p d2 where "d = d1 @ p # d2" "strcaseeq (fst p) s" "\<forall>q \<in> set d1. \<not> strcaseeq (fst q) s"
    using split_list_first_prop [OF True] by blast
  then obtain n kvs where d: "d = d1 @ (n, kvs) # d2" and n: "strcaseeq n s" and d1: "\<forall>q \<in> set d1. \<not> strcaseeq (fst q) s"
    by (cases p) auto
  have g: "good_name n" "list_all good_pair kvs" using assms(1) by (auto simp: good_doc_def d)
  define pre where "pre = doc_text d1 @ CRLF @ ''['' @ n @ '']'' @ CRLF"
  define its where "its = concat (map pair_text kvs)"
  have lp: "int (length pre) = int (length (doc_text d1)) + int (length n) + 6" by (simp add: pre_def)
  have text_at: "doc_text (d1 @ (n, l) # d2) = pre @ concat (map pair_text l) @ doc_text d2" for l
    by (simp add: doc_text_def sect_text_def pre_def)
  have f: "FindSection (Some s) (doc_text d) = Inr (Some (int (length pre), int (length pre) + int (length its)))"
    using FindSection_some [OF assms(1)[unfolded d] o(1) d1 n] by (simp add: d lp its_def)
  have b: "bytes_between (int (length pre)) (int (length pre) + int (length its)) (doc_text d) = its"
    by (simp add: bytes_between_def d text_at its_def)
  show ?thesis
  proof (cases "\<exists>q \<in> set kvs. strcaseeq (fst q) k")
    case False
    have "find_key k (int (length pre)) its = Inr None"
      using find_key_pairs [OF g(2) o(2), of "[]" "int (length pre)"] False by (simp add: its_def find_key.simps)
    moreover have "doc_text (doc_set s k v d) = pre @ its @ k @ ''='' @ v @ '';'' @ CRLF @ doc_text d2"
      using doc_set_at [OF d1 n] pairs_set_new [of kvs k v] False by (simp add: d text_at its_def pair_text_def)
    moreover have "take (nat (int (length pre) + int (length its))) (doc_text d) = pre @ its"
      "drop (nat (int (length pre) + int (length its))) (doc_text d) = doc_text d2"
      by (simp_all add: d text_at its_def nat_add_distrib)
    ultimately show ?thesis using f b assms(4) by (cases st) (simp add: iniSetString_def)
  next
    case True
    obtain kv1 q kv2 where "kvs = kv1 @ q # kv2" "strcaseeq (fst q) k" "\<forall>x \<in> set kv1. \<not> strcaseeq (fst x) k"
      using split_list_first_prop [OF True] by blast
    then obtain k' v' where kvs: "kvs = kv1 @ (k', v') # kv2" and k': "strcaseeq k' k" and kv1: "\<forall>x \<in> set kv1. \<not> strcaseeq (fst x) k"
      by (cases q) auto
    have gp: "list_all good_pair kv1" "good_pair (k', v')" "list_all good_pair kv2" using g(2) by (simp_all add: kvs)
    define tl2 where "tl2 = concat (map pair_text kv2)"
    define hd1 where "hd1 = concat (map pair_text kv1)"
    have i: "its = hd1 @ pair_text (k', v') @ tl2" by (simp add: its_def hd1_def tl2_def kvs)
    have h2: "tl2 = [] \<or> hd tl2 \<noteq> NUL" using pairs_text_hd [OF gp(3), of "[]"] by (simp add: tl2_def)
    have h1: "pair_text (k', v') @ tl2 = [] \<or> hd (pair_text (k', v') @ tl2) \<noteq> NUL"
      using pairs_text_hd [of "(k', v') # kv2" "[]"] gp by (simp add: tl2_def)
    obtain li where li: "find_key k (int (length pre)) its = Inr (Some (int (length pre) + int (length hd1), li))"
      "li_rem1 li = int (length (k' @ ''='' @ v'))"
      using find_key_here [OF gp(2) o(2) k' h2, of "int (length pre) + int (length hd1)"]
        find_key_pairs [OF gp(1) o(2) kv1 h1, of "int (length pre)"] by (auto simp: i hd1_def)
    have "doc_text d = (pre @ hd1) @ (k' @ ''='' @ v') @ '';'' @ CRLF @ tl2 @ doc_text d2"
      by (simp add: d text_at kvs hd1_def tl2_def pair_text_def)
    moreover from this have "take (nat (int (length pre) + int (length hd1))) (doc_text d) = pre @ hd1"
      by (simp add: nat_add_distrib)
    moreover have "nat (int (length pre) + int (length hd1) + li_rem1 li) = length ((pre @ hd1) @ (k' @ ''='' @ v'))"
      using li(2) by simp
    then have "drop (nat (int (length pre) + int (length hd1) + li_rem1 li)) (doc_text d) = '';'' @ CRLF @ tl2 @ doc_text d2"
      using calculation(1) by (metis append.assoc append_eq_conv_conj)
    moreover have "doc_text (doc_set s k v d) = pre @ hd1 @ k @ ''='' @ v @ '';'' @ CRLF @ tl2 @ doc_text d2"
      using doc_set_at [OF d1 n] pairs_set_at [OF kv1 k'] by (simp add: d kvs text_at hd1_def tl2_def pair_text_def)
    ultimately show ?thesis using f b li(1) assms(4) by (cases st) (simp add: iniSetString_def)
  qed
qed

section \<open>The class as a configuration\<close>

lemma find_in_set: "find P xs = Some x \<Longrightarrow> x \<in> set xs"
  by (induction xs) (auto split: if_splits)

definition rw_ok :: "ini_doc \<Rightarrow> rw_state \<Rightarrow> bool" where
  "rw_ok d st \<longleftrightarrow> gBuffer (fst st) = Loaded (doc_text d) \<and> content_of (snd st) (gFilename (fst st)) = Some (doc_text d) \<and>
     can_open (snd st) (gFilename (fst st)) \<and> length (gFilename (fst st)) < SIZE_FILENAME"

lemma rewrite_ok: "rw_ok d st \<Longrightarrow> \<exists>st'. rewrite_file (doc_text e) st = (1, st') \<and> rw_ok e st'"
  by (cases st) (auto simp: rw_ok_def rewrite_file_def iniFileLoad_def Let_def)

lemma new_inirw_ok:
  assumes "can_open d name" "length name < SIZE_FILENAME" "content_of d name \<in> {None, Some []}"
  shows "rw_ok [] (new_inirw name d)"
  using assms by (auto simp: rw_ok_def new_inirw_def iniFileLoad_def Let_def doc_text_def)

lemma set_keeps_doc:
  assumes "rw_ok d st" "good_doc d" "good_name s" "good_pair (k, v)"
  shows "\<exists>st'. iniSetString (Some s) k (Some v) st = Inr (1, st') \<and> rw_ok (doc_set s k v d) st'"
  using set_bytes [OF assms(2-4)] rewrite_ok [OF assms(1)] assms(1) by (auto simp: rw_ok_def)

lemma get_reads_doc:
  assumes "rw_ok d st" "good_doc d" "list_all ordinary s" "list_all ordinary k" "1 \<le> maxlen"
  shows "iniGetValue (Some s) k maxlen None st =
    Inr (case doc_get s k d of Some v \<Rightarrow> (1, take (nat (maxlen - 1)) v, st) | None \<Rightarrow> (0, [], st))"
  using assms find_value_doc [OF assms(2-4)]
  by (auto simp: iniGetValue_def rw_ok_def fit_def split: option.split)

definition rw_get :: "rw_state \<Rightarrow> string \<Rightarrow> string \<Rightarrow> string option" where
  "rw_get st n k =
     (case gBuffer (fst st) of
        Loaded buf \<Rightarrow> (case find_value (Some n) False k buf of Inl e \<Rightarrow> None | Inr r \<Rightarrow> r) | _ \<Rightarrow> None)"

definition rw_put :: "string \<Rightarrow> string \<Rightarrow> string \<Rightarrow> rw_state \<Rightarrow> rw_state" where
  "rw_put n k v st = (case iniSetString (Some n) k (Some v) st of Inl e \<Rightarrow> st | Inr (r, st') \<Rightarrow> st')"

definition rw_valid :: "string \<Rightarrow> string \<Rightarrow> string \<Rightarrow> bool" where
  "rw_valid n k v \<longleftrightarrow> good_name n \<and> good_pair (k, v)"

definition rw_readable :: "string \<Rightarrow> string \<Rightarrow> bool" where
  "rw_readable n k \<longleftrightarrow> list_all ordinary n \<and> list_all ordinary k"

definition rw_inv :: "rw_state \<Rightarrow> bool" where
  "rw_inv st \<longleftrightarrow> (\<exists>d. good_doc d \<and> rw_ok d st)"

lemma rw_get_doc: "rw_ok d st \<Longrightarrow> good_doc d \<Longrightarrow> rw_readable n k \<Longrightarrow> rw_get st n k = doc_get n k d"
  by (simp add: rw_get_def rw_ok_def rw_readable_def find_value_doc)

interpretation rw: config_store rw_get rw_put rw_inv rw_valid rw_readable strcaseeq
proof
  fix st n k v
  assume "rw_inv st" "rw_valid n k v"
  then obtain d where d1: "good_doc d" "rw_ok d st" by (auto simp: rw_inv_def)
  have v: "good_name n" "good_pair (k, v)" using \<open>rw_valid n k v\<close> by (simp_all add: rw_valid_def)
  obtain st' where st': "iniSetString (Some n) k (Some v) st = Inr (1, st')" "rw_ok (doc_set n k v d) st'"
    using set_keeps_doc [OF d1(2,1) v] by blast
  have d: "good_doc d" "rw_ok d st" "rw_put n k v st = st'" "rw_ok (doc_set n k v d) st'"
    using d1 st' by (simp_all add: rw_put_def)
  have g: "good_doc (doc_set n k v d)" using d(1) \<open>rw_valid n k v\<close> by (simp add: rw_valid_def good_doc_set)
  then show "rw_inv (rw_put n k v st)" using d by (auto simp: rw_inv_def)
  fix n' k'
  assume r: "rw_readable n' k'"
  show "rw_get (rw_put n k v st) n' k' = (if strcaseeq n n' \<and> strcaseeq k k' then Some v else rw_get st n' k')"
    using rw_get_doc [OF d(4) g r] rw_get_doc [OF d(2,1) r] by (simp add: d(3) doc_get_set)
qed

section \<open>Properties\<close>

text \<open>
  C34. A file that the class wrote from nothing is read back exactly: whatever has been set, in any order,
  with names, keys and values that fit on their line and hold none of the characters of a comment or a
  quotation, \<open>iniGetString\<close> gives the value set last under the section and the key, up to the size of the
  caller's array, and reports 0 when there was none. Sections and keys are compared without regard to case.
\<close>

theorem ini_settings_history:
  assumes "can_open d name" "length name < SIZE_FILENAME" "content_of d name \<in> {None, Some []}"
    and "\<forall>(n, k, v) \<in> set ws. good_name n \<and> good_pair (k, v)"
    and "list_all ordinary n" "list_all ordinary k" "1 \<le> maxlen"
    and "st = fold (\<lambda>(n, k, v) s. rw_put n k v s) ws (new_inirw name d)"
  shows "iniGetString (Some n) k maxlen None st =
    Inr (case find (\<lambda>(n', k', v). strcaseeq n' n \<and> strcaseeq k' k) (rev ws) of
           Some (_, _, v) \<Rightarrow> (1, take (nat (maxlen - 1)) v, st)
         | None \<Rightarrow> (0, [], st))"
proof -
  have inv: "rw_inv (new_inirw name d)"
    using new_inirw_ok [OF assms(1-3)] by (auto simp: rw_inv_def good_doc_def intro: exI [of _ "[]"])
  have valid: "\<forall>(n, k, v) \<in> set ws. rw_valid n k v" using assms(4) by (auto simp: rw_valid_def)
  have st: "st = rw.put_all ws (new_inirw name d)" by (simp add: assms(8) rw.put_all_def)
  have "rw_inv st" unfolding st by (rule rw.ok_put_all [OF inv valid])
  then obtain e where e: "good_doc e" "rw_ok e st" by (auto simp: rw_inv_def)
  have r: "rw_readable n k" using assms(5,6) by (simp add: rw_readable_def)
  have none: "rw_get (new_inirw name d) n k = None"
    using rw_get_doc [OF new_inirw_ok [OF assms(1-3)] _ r] by (simp add: good_doc_def doc_get_def)
  have g: "doc_get n k e = (case find (\<lambda>(n', k', v). strcaseeq n' n \<and> strcaseeq k' k) (rev ws) of Some (_, _, v) \<Rightarrow> Some v | None \<Rightarrow> None)"
    using rw.get_put_all [OF inv valid r] rw_get_doc [OF e(2,1) r] unfolding st rw.last_put_def none
    by (rule box_equals [OF _ _ refl])
  show ?thesis
  proof (cases "find (\<lambda>(n', k', v). strcaseeq n' n \<and> strcaseeq k' k) (rev ws)")
    case None
    then show ?thesis using get_reads_doc [OF e(2,1) assms(5-7)] g by (simp add: iniGetString_def)
  next
    case (Some w)
    obtain n' k' v where w: "w = (n', k', v)" by (cases w)
    have "w \<in> set ws" using find_in_set [OF Some] by simp
    then have "list_all ordinary v" using assms(4) by (auto simp: w good_pair_def)
    then have "list_all ordinary (take (nat (maxlen - 1)) v)" by (auto simp: list_all_iff dest: in_set_takeD)
    then have "unquote (take (nat (maxlen - 1)) v) = take (nat (maxlen - 1)) v"
      by (cases "take (nat (maxlen - 1)) v") (auto simp: unquote_def ordinary_def)
    then show ?thesis using get_reads_doc [OF e(2,1) assms(5-7)] g Some by (simp add: w iniGetString_def)
  qed
qed

theorem ini_settings_history_witness:
  "\<exists>st. iniGetString (Some ''EMS'') ''URL'' 200 None st = Inr (1, ''http://b'', st) \<and>
     iniGetString (Some ''ems'') ''port'' 3 None st = Inr (1, ''80'', st) \<and> iniGetString (Some ''x'') ''port'' 9 None st = Inr (0, [], st)"
proof -
  let ?d = "\<lparr>can_open = (\<lambda>n. n = ''a.conf''), content_of = (\<lambda>_. None)\<rparr>"
  let ?ws = "[(''EMS'', ''url'', ''a''), (''EMS'', ''port'', ''8080''), (''Ems'', ''Url'', ''http://b'')]"
  have v: "\<forall>(n, k, v) \<in> set ?ws. good_name n \<and> good_pair (k, v)" by code_simp
  have o: "list_all ordinary ''EMS''" "list_all ordinary ''URL''" "list_all ordinary ''ems''" "list_all ordinary ''port''" "list_all ordinary ''x''"
    by code_simp+
  have f: "find (\<lambda>(n', k', v). strcaseeq n' ''EMS'' \<and> strcaseeq k' ''URL'') (rev ?ws) = Some (''Ems'', ''Url'', ''http://b'')"
    "find (\<lambda>(n', k', v). strcaseeq n' ''ems'' \<and> strcaseeq k' ''port'') (rev ?ws) = Some (''EMS'', ''port'', ''8080'')"
    "find (\<lambda>(n', k', v). strcaseeq n' ''x'' \<and> strcaseeq k' ''port'') (rev ?ws) = None" by code_simp+
  have c: "can_open ?d ''a.conf''" "length ''a.conf'' < SIZE_FILENAME" "content_of ?d ''a.conf'' \<in> {None, Some []}"
    by (simp_all add: SIZE_FILENAME_def)
  show ?thesis
    using ini_settings_history [OF c v o(1,2) _ refl, of 200] ini_settings_history [OF c v o(3,4) _ refl, of 3]
      ini_settings_history [OF c v o(5,4) _ refl, of 9] f by fastforce
qed

text \<open>
  Setting a value rewrites the file as the text of the changed settings: a new section is written behind
  all others, a new key behind those of its section, and of a key that is there only the assignment is replaced;
  the object holds what the file holds. The file never changes without the object.
\<close>

theorem ini_set_refines:
  assumes "gBuffer ini = Loaded (doc_text d)" "content_of dk (gFilename ini) = Some (doc_text d)"
    and "can_open dk (gFilename ini)" "length (gFilename ini) < SIZE_FILENAME"
    and "good_doc d" "good_name s" "good_pair (k, v)"
  shows "iniSetString (Some s) k (Some v) (ini, dk) =
    Inr (1, ini\<lparr>gBuffer := Loaded (doc_text (doc_set s k v d))\<rparr>,
            dk\<lparr>content_of := (content_of dk)(gFilename ini := Some (doc_text (doc_set s k v d)))\<rparr>)"
  using set_bytes [OF assms(5-7), of "(ini, dk)"] assms(1-4) by (simp add: rewrite_file_def iniFileLoad_def Let_def)

theorem ini_set_refines_witness:
  "\<exists>st. iniSetString (Some ''S'') ''b'' (Some ''2'')
      (\<lparr>gFilename = ''f'', gBuffer = Loaded (doc_text [(''s'', [(''a'', ''1'')]), (''t'', [])])\<rparr>,
       \<lparr>can_open = (\<lambda>_. True), content_of = (\<lambda>_. Some (doc_text [(''s'', [(''a'', ''1'')]), (''t'', [])]))\<rparr>) = Inr (1, st) \<and>
     gBuffer (fst st) = Loaded (CRLF @ ''[s]'' @ CRLF @ ''a=1;'' @ CRLF @ ''b=2;'' @ CRLF @ CRLF @ ''[t]'' @ CRLF)"
proof -
  let ?d = "[(''s'', [(''a'', ''1'')]), (''t'', [])]"
  let ?i = "\<lparr>gFilename = ''f'', gBuffer = Loaded (doc_text ?d)\<rparr>"
  let ?k = "\<lparr>can_open = (\<lambda>_. True), content_of = (\<lambda>_. Some (doc_text ?d))\<rparr>"
  have g: "good_doc ?d" "good_name ''S''" "good_pair (''b'', ''2'')" by code_simp+
  have s: "doc_text (doc_set ''S'' ''b'' ''2'' ?d) = CRLF @ ''[s]'' @ CRLF @ ''a=1;'' @ CRLF @ ''b=2;'' @ CRLF @ CRLF @ ''[t]'' @ CRLF"
    by code_simp
  show ?thesis using ini_set_refines [of ?i ?d ?k, OF _ _ _ _ g] s by (simp add: SIZE_FILENAME_def)
qed

section \<open>What the code does not expect\<close>

text \<open>
  A line that ends with a single line feed and is followed by an empty one loses its last character; blanks
  behind a comment, or in front of an empty one, are taken from the value, until the length of the copy is
  negative; an object whose file is not opened has a buffer nobody has set.
\<close>

lemma value_before_empty_line: "find_value (Some ''s'') False ''k'' (''[s]'' @ [LF] @ ''k=ab'' @ [LF, LF] @ ''x=1'' @ [LF]) = Inr (Some ''a'')"
  by code_simp

lemma blanks_behind_comment: "find_value None False ''k'' (''k=value ; '' @ CRLF) = Inr (Some ''val'')"
  by code_simp

lemma blanks_before_comment: "find_value None False ''k'' (''k   ;'' @ CRLF) = Inl OutOfBounds"
  by code_simp

lemma unopened_file: "\<not> can_open d name \<Longrightarrow> iniGetString sect key n v (new_inirw name d) = Inl NullPointer"
  by (simp add: iniGetString_def iniGetValue_def new_inirw_def iniFileLoad_def)

end
