(* ===== verification/SpeechApi.thy ===== *)
theory SpeechApi
  imports TextCodes IniRw
begin

text \<open>
  The clients of the web services (\<^verbatim>\<open>common/codeHelper.cpp\<close>, \<^verbatim>\<open>common/speech\<close>): the access token, speech
  synthesis, sentiment, the callbacks of the message services. The library curl is a parameter: whether a handle
  can be had, and for each request the reply, with the header lines and the pieces of the body that the callbacks
  are called with. An array of the stack holds some bytes before anything is written to it.
\<close>

section \<open>Requests and replies\<close>

datatype RETURN_CODE =
    RETURN_OK | RETURN_ERROR | RETURN_FAIL | ERROR_TOKEN_CURL | ERROR_TOKEN_PARSE_ACCESS_TOKEN | ERROR_TOKEN_PARSE_SCOPE
  | ERROR_ASR_FILE_NOT_EXIST | ERROR_ASR_CURL | ERROR_TTS_CURL

record curl_request =
  rq_url :: "string option"
  rq_headers :: "string list"
  rq_post :: "string option"

text \<open>A header line stands in a block that may be longer than the line.\<close>

record curl_reply =
  rp_ok :: bool
  rp_headers :: "(char list \<times> nat) list"
  rp_chunks :: "string list"

record curl =
  has_handle :: bool
  perform :: "curl_request \<Rightarrow> curl_reply"
  easy_escape :: "string \<Rightarrow> string"

text \<open>A text printed into an array, and an array read as a string.\<close>

definition put_str :: "char list \<Rightarrow> string \<Rightarrow> char list c_result" where
  "put_str arr s = mem_write arr 0 (s @ [NUL])"

definition get_str :: "char list \<Rightarrow> string c_result" where
  "get_str arr = (if NUL \<in> set arr then Inr (c_str arr) else Inl OutOfBounds)"

definition put_opt :: "char list \<Rightarrow> string option \<Rightarrow> char list c_result" where
  "put_opt arr s = (case s of None \<Rightarrow> Inl NullPointer | Some t \<Rightarrow> put_str arr t)"

text \<open>\<open>writefunc\<close> and \<open>cbwritefunc\<close> take memory for the new piece and copy it to its front.\<close>

definition writefunc :: "allocator \<Rightarrow> string \<Rightarrow> string option \<Rightarrow> nat \<times> string option" where
  "writefunc A ptr result =
     (if malloc_ok A (length ptr + 1) then (length ptr, Some ptr) else (1, None))"

text \<open>What curl does: the transfer ends when the callback does not take the whole piece.\<close>

fun receive :: "allocator \<Rightarrow> string list \<Rightarrow> string option \<Rightarrow> bool \<times> string option" where
  "receive A [] result = (True, result)"
| "receive A (c # cs) result =
     (case writefunc A c result of (n, result') \<Rightarrow> if n = length c then receive A cs result' else (False, result'))"

definition easy_perform :: "curl \<Rightarrow> allocator \<Rightarrow> curl_request \<Rightarrow> bool \<times> string option" where
  "easy_perform C A rq =
     (if \<not> has_handle C then (False, None)
      else case receive A (rp_chunks (perform C rq)) None of (whole, response) \<Rightarrow> (whole \<and> rp_ok (perform C rq), response))"

section \<open>Replies in JSON\<close>

definition print_opt :: "'d double_ops \<Rightarrow> 'd cJSON option \<Rightarrow> string option c_result" where
  "print_opt F item = (case item of None \<Rightarrow> Inr None | Some it \<Rightarrow> res_bind (cJSON_Print F it) (\<lambda>t. Inr (Some t)))"

definition parse_reply :: "'d double_ops \<Rightarrow> string option \<Rightarrow> 'd cJSON option c_result" where
  "parse_reply F json = (case json of None \<Rightarrow> Inr None | Some s \<Rightarrow> cJSON_Parse F s)"

definition obtain_json_str ::
    "'d double_ops \<Rightarrow> string option \<Rightarrow> string \<Rightarrow> char list \<Rightarrow> (RETURN_CODE \<times> char list) c_result" where
  "obtain_json_str F json key arr =
     res_bind (parse_reply F json) (\<lambda>root.
       case root of
         None \<Rightarrow> Inr (RETURN_ERROR, arr)
       | Some r \<Rightarrow>
           res_bind (print_opt F (cJSON_GetObjectItem r (Some key))) (\<lambda>t.
           res_bind (put_opt arr t) (\<lambda>arr'. Inr (RETURN_OK, arr'))))"

fun positive_prob :: "'d double_ops \<Rightarrow> string \<Rightarrow> 'd cJSON list \<Rightarrow> char list \<Rightarrow> char list c_result" where
  "positive_prob F key [] arr = Inr arr"
| "positive_prob F key (item # is) arr =
     res_bind (print_opt F (cJSON_GetObjectItem item (Some key))) (\<lambda>t.
     res_bind (put_opt arr t) (positive_prob F key is))"

definition parse_positive_prob ::
    "'d double_ops \<Rightarrow> string option \<Rightarrow> string \<Rightarrow> char list \<Rightarrow> (RETURN_CODE \<times> char list) c_result" where
  "parse_positive_prob F json key arr =
     res_bind (parse_reply F json) (\<lambda>root.
       case root of
         None \<Rightarrow> Inr (RETURN_ERROR, arr)
       | Some r \<Rightarrow>
           (case cJSON_GetObjectItem r (Some ''items'') of
              None \<Rightarrow> Inl NullPointer
            | Some items \<Rightarrow> res_bind (positive_prob F key (cj_child items) arr) (\<lambda>arr'. Inr (RETURN_OK, arr'))))"

definition parse_ali_asr ::
    "'d double_ops \<Rightarrow> string option \<Rightarrow> string \<Rightarrow> char list \<Rightarrow> (RETURN_CODE \<times> char list) c_result" where
  "parse_ali_asr F json key arr =
     res_bind (parse_reply F json) (\<lambda>root.
       case root of
         None \<Rightarrow> Inr (RETURN_ERROR, arr)
       | Some r \<Rightarrow>
           (case cJSON_GetObjectItem r (Some ''result'') of
              None \<Rightarrow> Inl NullPointer
            | Some items \<Rightarrow>
                res_bind (print_opt F (cJSON_GetObjectItem items (Some key))) (\<lambda>t.
                res_bind (put_opt arr t) (\<lambda>arr'. Inr (RETURN_OK, arr')))))"

definition getAliAsrTxt :: "'d double_ops \<Rightarrow> char list \<Rightarrow> string \<Rightarrow> string c_result" where
  "getAliAsrTxt F raw json =
     res_bind (put_str (take 1024 raw) json) (\<lambda>cjson.
     res_bind (get_str cjson) (\<lambda>s.
     res_bind (parse_ali_asr F (Some s) ''text'' (replicate 1024 NUL)) (\<lambda>(_, val). get_str val)))"

section \<open>The access token\<close>

definition MAX_TOKEN_SIZE :: nat where "MAX_TOKEN_SIZE = 100"

definition parse_token ::
    "'d double_ops \<Rightarrow> string option \<Rightarrow> string \<Rightarrow> char list \<Rightarrow> (RETURN_CODE \<times> char list) c_result" where
  "parse_token F response scope token =
     res_bind (obtain_json_str F response ''access_token'' token) (\<lambda>(res, token1).
       if res \<noteq> RETURN_OK then Inr (ERROR_TOKEN_PARSE_ACCESS_TOKEN, token1)
       else res_bind (obtain_json_str F response ''scope'' (replicate 1200 NUL)) (\<lambda>(res2, scopes).
         if res2 \<noteq> RETURN_OK then Inr (ERROR_TOKEN_PARSE_ACCESS_TOKEN, token1)
         else res_bind (get_str scopes) (\<lambda>s.
           Inr (if strstr s scope = None then ERROR_TOKEN_PARSE_SCOPE else RETURN_OK, token1))))"

definition API_TOKEN_URL :: string where "API_TOKEN_URL = ''http://openapi.baidu.com/oauth/2.0/token''"

definition token_url :: "string \<Rightarrow> string \<Rightarrow> string" where
  "token_url api_key secret_key =
     snprintf_text 200 (API_TOKEN_URL @ ''?grant_type=client_credentials&client_id='' @ api_key @ ''&client_secret='' @ secret_key)"

definition speech_get_token ::
    "'d double_ops \<Rightarrow> curl \<Rightarrow> allocator \<Rightarrow> string \<Rightarrow> string \<Rightarrow> string \<Rightarrow> char list \<Rightarrow> (RETURN_CODE \<times> char list) c_result" where
  "speech_get_token F C A api_key secret_key scope token =
     (case easy_perform C A \<lparr>rq_url = Some (token_url api_key secret_key), rq_headers = [], rq_post = None\<rparr> of
        (False, _) \<Rightarrow> Inr (ERROR_TOKEN_CURL, token)
      | (True, response) \<Rightarrow> parse_token F response scope token)"

text \<open>The other way to a token: what the callback finds in a piece stays in its own array.\<close>

definition token_callback :: "'d double_ops \<Rightarrow> char list \<Rightarrow> string \<Rightarrow> nat c_result" where
  "token_callback F raw ptr =
     res_bind (obtain_json_str F (Some (c_str ptr)) ''access_token'' (take MAX_TOKEN_SIZE raw)) (\<lambda>(_, token).
     res_bind (get_str token) (\<lambda>_. Inr (length ptr)))"

fun token_pieces :: "'d double_ops \<Rightarrow> char list \<Rightarrow> string list \<Rightarrow> unit c_result" where
  "token_pieces F raw [] = Inr ()"
| "token_pieces F raw (c # cs) = res_bind (token_callback F raw c) (\<lambda>_. token_pieces F raw cs)"

definition access_token_url :: string where
  "access_token_url = ''https://aip.baidubce.com/oauth/2.0/token?grant_type=client_credentials''"

definition get_access_token ::
    "'d double_ops \<Rightarrow> curl \<Rightarrow> char list \<Rightarrow> string \<Rightarrow> string \<Rightarrow> string \<Rightarrow> (int \<times> string) c_result" where
  "get_access_token F C raw AK SK access_token =
     (if \<not> has_handle C then Inr (1, access_token)
      else let rp = perform C \<lparr>rq_url = Some (access_token_url @ ''&client_id='' @ AK @ ''&client_secret='' @ SK),
                               rq_headers = [], rq_post = None\<rparr>
           in res_bind (token_pieces F raw (rp_chunks rp)) (\<lambda>_.
                Inr (if rp_ok rp then (0, []) else (1, access_token))))"

section \<open>Requests in JSON\<close>

definition add_str :: "'d double_ops \<Rightarrow> string \<Rightarrow> string \<Rightarrow> 'd cJSON \<Rightarrow> 'd cJSON" where
  "add_str F name v obj = cJSON_AddItemToObject obj (Some name) (Some (cJSON_CreateString F (Some v)))"

definition request_entity :: "'d double_ops \<Rightarrow> string \<Rightarrow> string \<Rightarrow> string \<Rightarrow> string \<Rightarrow> string \<Rightarrow> string \<Rightarrow> 'd cJSON" where
  "request_entity F phone status type content rid recordId =
     (let item = add_str F ''FUNC_CODE'' ''MOBP026'' (add_str F ''PASSWORD'' ''4BD065C44151F8F6F65C18A38FFE5ECA''
                   (add_str F ''USERNAME'' ''GZPOST'' (add_str F ''SYS_CODE'' ''5001'' (cJSON_CreateObject F))));
          root = cJSON_AddItemToObject (cJSON_CreateObject F) (Some ''HEAD'') (Some item);
          arrItem = add_str F ''id'' rid (add_str F ''recordId'' recordId (add_str F ''content'' content
                      (add_str F ''type'' type (add_str F ''status'' status
                        (add_str F ''phoneNumber'' phone (cJSON_CreateObject F))))));
          arr = cJSON_AddItemToObject (cJSON_CreateArray F) (Some ''data'') (Some arrItem);
          nxt = cJSON_AddItemToObject (cJSON_CreateObject F) (Some ''data'') (Some arr)
      in cJSON_AddItemToObject root (Some ''BODY'') (Some nxt))"

definition createRequestEntity ::
    "'d double_ops \<Rightarrow> string \<Rightarrow> string \<Rightarrow> string \<Rightarrow> string \<Rightarrow> string \<Rightarrow> string \<Rightarrow> string c_result" where
  "createRequestEntity F phone status type content rid recordId =
     cJSON_Print F (request_entity F phone status type content rid recordId)"

definition mos_entity :: "'d double_ops \<Rightarrow> string \<Rightarrow> string \<Rightarrow> string \<Rightarrow> string \<Rightarrow> string \<Rightarrow> 'd cJSON" where
  "mos_entity F phone batchName bizType type content =
     (let item = add_str F ''content'' content (add_str F ''to'' phone (cJSON_CreateObject F));
          arrItem = cJSON_AddItemToObject (cJSON_CreateArray F) (Some ''items'') (Some item);
          root = cJSON_AddItemToObject (cJSON_CreateObject F) (Some ''items'') (Some arrItem)
      in add_str F ''bizType'' bizType (add_str F ''msgType'' type (add_str F ''batchName'' batchName root)))"

definition createMosRequestEntity ::
    "'d double_ops \<Rightarrow> string \<Rightarrow> string \<Rightarrow> string \<Rightarrow> string \<Rightarrow> string \<Rightarrow> string c_result" where
  "createMosRequestEntity F phone batchName bizType type content =
     cJSON_Print F (mos_entity F phone batchName bizType type content)"

text \<open>Both texts are decoded for nothing but the faults.\<close>

definition createSimnetBody :: "'d double_ops \<Rightarrow> string \<Rightarrow> string \<Rightarrow> string c_result" where
  "createSimnetBody F text1 text2 =
     res_bind (UTF2Uni (Some text1) []) (\<lambda>_.
     res_bind (UTF2Uni (Some text2) []) (\<lambda>_.
     cJSON_Print F (add_str F ''text_2'' text2 (add_str F ''text_1'' text1 (cJSON_CreateObject F)))))"

text \<open>The result with the request that was sent, if any.\<close>

definition sentiment_classifyRequesst ::
    "'d double_ops \<Rightarrow> curl \<Rightarrow> allocator \<Rightarrow> char list \<Rightarrow> string \<Rightarrow> (string \<times> curl_request option) c_result" where
  "sentiment_classifyRequesst F C A raw txt =
     res_bind (cJSON_Print F (add_str F ''text'' txt (cJSON_CreateObject F))) (\<lambda>ret.
       if \<not> has_handle C then Inr (''OK'', None)
       else
         let rq = \<lparr>rq_url = Some ''http://www.forevermaybe.xyz/sentiment_classify'',
                   rq_headers = [''Content-Type:application/json; charset=utf-8''], rq_post = Some ret\<rparr>
         in case easy_perform C A rq of (_, response) \<Rightarrow>
              res_bind (parse_positive_prob F response ''positive_prob'' (take 300 raw)) (\<lambda>(_, val).
              res_bind (get_str val) (\<lambda>s. Inr (s, Some rq))))"

text \<open>\<open>st\<close> is the object for \<^verbatim>\<open>./database.conf\<close>.\<close>

definition emsCallbackRequest ::
    "'d double_ops \<Rightarrow> curl \<Rightarrow> rw_state \<Rightarrow> string \<Rightarrow> string \<Rightarrow> string \<Rightarrow> string \<Rightarrow> string \<Rightarrow> string \<Rightarrow>
     (string \<times> curl_request option) c_result" where
  "emsCallbackRequest F C st phone state type content recordId order_id =
     res_bind (createRequestEntity F phone state type content order_id recordId) (\<lambda>json.
       if json = [] then Inr ([], None)
       else
         res_bind (iniGetString (Some ''EMS'') ''callbackUrl'' 200 (Some ''0'') st) (\<lambda>(_, emsUrl, _).
         res_bind (put_str (replicate 1024 NUL) json) (\<lambda>szJsonData.
         res_bind (get_str szJsonData) (\<lambda>post.
           Inr (''OK'', if has_handle C
                        then Some \<lparr>rq_url = Some emsUrl, rq_headers = [''Content-Type: text/plain; charset=utf-8''],
                                   rq_post = Some post\<rparr>
                        else None)))))"

definition mosCallbackRequest ::
    "'d double_ops \<Rightarrow> curl \<Rightarrow> string \<Rightarrow> string \<Rightarrow> string \<Rightarrow> string \<Rightarrow> string \<Rightarrow> (string \<times> curl_request option) c_result" where
  "mosCallbackRequest F C phone batchName bizType type content =
     res_bind (createMosRequestEntity F phone batchName bizType type content) (\<lambda>json.
       if json = [] then Inr ([], None)
       else
         res_bind (put_str (replicate 1024 NUL) json) (\<lambda>szJsonData.
         res_bind (get_str szJsonData) (\<lambda>post.
           Inr (''OK'', if has_handle C
                        then Some \<lparr>rq_url = None,
                                   rq_headers = [''Content-Type:application/json;charset=UTF-8'',
                                     ''Authorization:Z2RlbXM6MzcwMWJmNjM4NjA5ZjM0ZDc4OGMxZDM1ZGNkOTE4ZmQ='',
                                     ''Accept:application/json''],
                                   rq_post = Some post\<rparr>
                        else None))))"

section \<open>Speech synthesis\<close>

text \<open>The lines of the header: the type of what follows tells whether the file is sound or a report.\<close>

definition MAX_HEADER_VALUE_LEN :: nat where "MAX_HEADER_VALUE_LEN = 100"

definition search_header :: "char list \<Rightarrow> nat \<Rightarrow> string \<Rightarrow> char list \<Rightarrow> (RETURN_CODE \<times> char list) c_result" where
  "search_header buffer len key val =
     res_bind (mem_read buffer 0 (length key)) (\<lambda>header_key.
       if strcaseeq key (c_str header_key) \<and> sub64 len (length key) < MAX_HEADER_VALUE_LEN
       then let len_value = sub64 len (length key)
            in if len_value = 0 then Inl OutOfBounds
               else res_bind (mem_write val (len_value - 1) [NUL]) (\<lambda>v1.
                    res_bind (mem_read buffer (length key + 1) len_value) (\<lambda>bs.
                    res_bind (mem_write v1 0 bs) (\<lambda>v2. Inr (RETURN_OK, v2))))
       else Inr (RETURN_FAIL, val))"

record http_result =
  has_error :: bool
  hr_format :: string
  hr_fp :: "string option"
  fileName :: string

definition header_callback :: "char list \<Rightarrow> char list \<Rightarrow> nat \<Rightarrow> http_result \<Rightarrow> (nat \<times> http_result) c_result" where
  "header_callback raw buffer len result =
     res_bind (search_header buffer len ''Content-Type'' (take MAX_HEADER_VALUE_LEN raw)) (\<lambda>(res, val).
       if res \<noteq> RETURN_OK then Inr (len, result)
       else res_bind (get_str val) (\<lambda>s.
              Inr (len, if strstr s ''audio/'' \<noteq> None then result\<lparr>has_error := False\<rparr> else result)))"

text \<open>The files are those of the disk; \<^verbatim>\<open>fopen\<close> with \<^verbatim>\<open>w+\<close> empties the file, \<^verbatim>\<open>fwrite\<close> appends.\<close>

definition writefunc_data :: "string \<Rightarrow> http_result \<Rightarrow> disk \<Rightarrow> (nat \<times> http_result \<times> disk) c_result" where
  "writefunc_data ptr result d =
     res_bind (print_into 50 (snprintf_text 260 (fileName result @ ''.'' @ (if has_error result then ''txt'' else hr_format result))))
       (\<lambda>filename.
         case (case hr_fp result of
                 Some f \<Rightarrow> Some (f, result, d)
               | None \<Rightarrow> if can_open d filename
                         then Some (filename, result\<lparr>hr_fp := Some filename\<rparr>, d\<lparr>content_of := (content_of d)(filename := Some [])\<rparr>)
                         else None) of
           None \<Rightarrow> Inr (0, result, d)
         | Some (f, result1, d1) \<Rightarrow>
             Inr (length ptr, result1,
                  d1\<lparr>content_of := (content_of d1)(f := Some ((case content_of d1 f of None \<Rightarrow> [] | Some bs \<Rightarrow> bs) @ ptr))\<rparr>))"

fun receive_headers :: "char list \<Rightarrow> (char list \<times> nat) list \<Rightarrow> http_result \<Rightarrow> http_result c_result" where
  "receive_headers raw [] result = Inr result"
| "receive_headers raw ((b, n) # hs) result = res_bind (header_callback raw b n result) (\<lambda>(_, r). receive_headers raw hs r)"

fun receive_data :: "string list \<Rightarrow> http_result \<Rightarrow> disk \<Rightarrow> (bool \<times> http_result \<times> disk) c_result" where
  "receive_data [] result d = Inr (True, result, d)"
| "receive_data (c # cs) result d =
     res_bind (writefunc_data c result d) (\<lambda>(n, result', d').
       if n = length c then receive_data cs result' d' else Inr (False, result', d'))"

record tts_config =
  api_key :: string
  secret_key :: string
  tts_text :: "char list"
  text_len :: nat
  cuid :: string
  spd :: int
  pit :: int
  vol :: int
  per :: int
  aue :: int
  tts_format :: string

definition fill_config :: "char list \<Rightarrow> string \<Rightarrow> (RETURN_CODE \<times> tts_config) c_result" where
  "fill_config raw str =
     res_bind (print_into 2000 str) (\<lambda>txt1.
     res_bind (put_str (take (512 * 3 + 1) raw) (snprintf_text 2000 txt1)) (\<lambda>txt2.
       Inr (RETURN_OK, \<lparr>api_key = snprintf_text 40 ''4E1BG9lTnlSeIf1NQFlrSq6h'',
         secret_key = snprintf_text 40 ''544ca4657ba8002e3dea3ac2f5fdd241'', tts_text = txt2, text_len = 2000 - 1,
         cuid = snprintf_text 20 ''1234567C'', spd = 5, pit = 5, vol = 5, per = 0, aue = 6,
         tts_format = snprintf_text 4 ([''mp3'', ''pcm'', ''pcm'', ''wav''] ! (6 - 3))\<rparr>)))"

definition tts_params :: "curl \<Rightarrow> tts_config \<Rightarrow> string \<Rightarrow> string \<Rightarrow> string" where
  "tts_params C config token tex =
     snprintf_text (200 + text_len config * 9)
       (''ctp=1&lan=zh&cuid='' @ easy_escape C (cuid config) @ ''&tok='' @ token @ ''&tex='' @ tex @
        ''&per='' @ dec_int (per config) @ ''&spd='' @ dec_int (spd config) @ ''&pit='' @ dec_int (pit config) @
        ''&vol='' @ dec_int (vol config) @ ''&aue='' @ dec_int (aue config))"

definition API_TTS_URL :: string where "API_TTS_URL = ''http://tsn.baidu.com/text2audio''"

definition run_tts ::
    "curl \<Rightarrow> char list \<Rightarrow> tts_config \<Rightarrow> string \<Rightarrow> string \<Rightarrow> disk \<Rightarrow> (RETURN_CODE \<times> disk) c_result" where
  "run_tts C raw config token name d =
     res_bind (mem_read (tts_text config) 0 (text_len config)) (\<lambda>txt.
     let params = tts_params C config token (easy_escape C (easy_escape C txt));
         rp = (if has_handle C
               then perform C \<lparr>rq_url = Some API_TTS_URL, rq_headers = [], rq_post = Some params\<rparr>
               else \<lparr>rp_ok = False, rp_headers = [], rp_chunks = []\<rparr>)
     in res_bind (print_into 360 name) (\<lambda>file.
        res_bind (receive_headers raw (rp_headers rp)
                    \<lparr>has_error = True, hr_format = tts_format config, hr_fp = None, fileName = file\<rparr>) (\<lambda>result.
        res_bind (receive_data (rp_chunks rp) result d) (\<lambda>(whole, _, d').
          Inr (if whole \<and> rp_ok rp then RETURN_OK else ERROR_TTS_CURL, d')))))"

definition TTS_SCOPE :: string where "TTS_SCOPE = ''audio_tts_post''"

text \<open>Behind the token stands what the array held before, and with no token it is read all the same.\<close>

definition run ::
    "'d double_ops \<Rightarrow> curl \<Rightarrow> allocator \<Rightarrow> char list \<Rightarrow> string \<Rightarrow> string \<Rightarrow> disk \<Rightarrow> (RETURN_CODE \<times> disk) c_result" where
  "run F C A raw name str d =
     res_bind (fill_config raw str) (\<lambda>(res, config).
       if res \<noteq> RETURN_OK then Inr (RETURN_OK, d)
       else
         res_bind (speech_get_token F C A (api_key config) (secret_key config) TTS_SCOPE (take MAX_TOKEN_SIZE raw))
           (\<lambda>(res1, token).
         res_bind (get_str token) (\<lambda>t.
           if res1 = RETURN_OK
           then res_bind (run_tts C raw config (notYinghao t) name d) (\<lambda>(_, d'). Inr (RETURN_OK, d'))
           else Inr (RETURN_OK, d))))"

section \<open>What is printed, what is parsed\<close>

lemma parse_text: "tree_item F it \<Longrightarrow> cj_string it = None \<Longrightarrow> cJSON_Parse F (item_text it fmt d) = Inr (Some it)"
proof -
  assume it: "tree_item F it" "cj_string it = None"
  have "parse_value F (item_text it fmt d @ []) = Inr (Some (set_string None it, []))"
    using parse_item_text [OF it(1), of fmt d] unfolding reads_back_def by blast
  then show "cJSON_Parse F (item_text it fmt d) = Inr (Some it)"
    using skip_item_text [OF it(1), of fmt d "[]"] set_string_None_id [OF it(2)] by (simp add: cJSON_Parse_def)
qed

lemma print_str: "cstring v \<Longrightarrow> print_value F fmt d (Item JString (Some v) vi vd nm ch) = Inr (string_text v)"
  by (simp add: string_text_def print_string_text)

lemma print_opt_str:
  "cj_type it = JString \<Longrightarrow> cj_valuestring it = Some v \<Longrightarrow> cstring v \<Longrightarrow> print_opt F (Some it) = Inr (Some (string_text v))"
  by (cases it) (simp add: print_opt_def cJSON_Print_def print_str del: print_value.simps)

lemma escape_char_cstring: "c \<noteq> NUL \<Longrightarrow> NUL \<notin> set (escape_char c)"
proof -
  have no: "NUL \<noteq> hex_lower n" if "n < 16" for n using hex_lower_val [OF that] by (auto simp: hex_val_def byte_of_def dest!: sym [of NUL])
  have "byte_of c div 16 < 16" using byte_of_less [of c] by (simp add: less_mult_imp_div_less)
  then have "NUL \<noteq> hex_lower (byte_of c div 16)" "NUL \<noteq> hex_lower (byte_of c mod 16)" by (rule no) (rule no, simp)
  then show "NUL \<notin> set (escape_char c)" if "c \<noteq> NUL" using that unfolding escape_char_def by simp
qed

lemma string_text_cstring: "cstring v \<Longrightarrow> cstring (string_text v)"
proof -
  assume "cstring v"
  then have "\<forall>c \<in> set v. NUL \<notin> set (escape_char c)" using escape_char_cstring unfolding cstring_def by metis
  then show "cstring (string_text v)" by (simp add: string_text_def cstring_def)
qed

lemma put_get_str:
  assumes "cstring s" "length s < length arr"
  shows "put_str arr s = Inr (s @ NUL # drop (Suc (length s)) arr) \<and> get_str (s @ NUL # r) = Inr s"
proof -
  have "takeWhile (\<lambda>c. c \<noteq> NUL) (s @ NUL # r) = s" using assms(1) by (auto simp: cstring_def takeWhile_append)
  then show ?thesis using assms by (simp add: put_str_def get_str_def mem_write_def c_str_def)
qed

lemma obtain_string:
  assumes "cJSON_Parse F t = Inr (Some root)" "cJSON_GetObjectItem root (Some key) = Some it"
    "cj_type it = JString" "cj_valuestring it = Some v" "cstring v" "length (string_text v) < length arr"
  shows "obtain_json_str F (Some t) key arr = Inr (RETURN_OK, string_text v @ NUL # drop (Suc (length (string_text v))) arr)"
  using assms put_get_str [OF string_text_cstring [OF assms(5)] assms(6)]
  by (simp add: obtain_json_str_def parse_reply_def print_opt_str put_opt_def)

text \<open>The quotes are taken off again.\<close>

lemma notYinghao_string: "notYinghao (string_text v) = concat (map escape_char v)"
  by (simp add: notYinghao_def string_text_def Let_def)

lemma plain_escape: "list_all (\<lambda>c. 31 < byte_of c \<and> c \<noteq> DQ \<and> c \<noteq> BSL) v \<Longrightarrow> concat (map escape_char v) = v"
  by (induction v) (simp_all add: escape_char_def)

text \<open>Of the pieces of a reply the last one is left.\<close>

lemma receive_last: "list_all (\<lambda>c. malloc_ok A (length c + 1)) (cs @ [t]) \<Longrightarrow> receive A (cs @ [t]) r = (True, Some t)"
  by (induction cs arbitrary: r) (simp_all add: writefunc_def)

section \<open>The request of the message service\<close>

abbreviation esc :: "string \<Rightarrow> string" where "esc s \<equiv> concat (map escape_char s)"

definition sent_item :: "'d double_ops \<Rightarrow> string \<Rightarrow> string \<Rightarrow> 'd cJSON" where
  "sent_item F name v = Item JString (Some v) 0 (dbl_of_int F 0) (Some name) []"

text \<open>The request as the other side reads it: the entry of the array has no name there.\<close>

definition entity_read :: "'d double_ops \<Rightarrow> string \<Rightarrow> string \<Rightarrow> string \<Rightarrow> string \<Rightarrow> string \<Rightarrow> string \<Rightarrow> 'd cJSON" where
  "entity_read F phone status type content rid recordId =
     (let obj = (\<lambda>name ch. Item JObject None 0 (dbl_of_int F 0) name ch)
      in obj None
        [obj (Some ''HEAD'') [sent_item F ''SYS_CODE'' ''5001'', sent_item F ''USERNAME'' ''GZPOST'',
           sent_item F ''PASSWORD'' ''4BD065C44151F8F6F65C18A38FFE5ECA'', sent_item F ''FUNC_CODE'' ''MOBP026''],
         obj (Some ''BODY'')
           [Item JArray None 0 (dbl_of_int F 0) (Some ''data'')
              [obj None [sent_item F ''phoneNumber'' phone, sent_item F ''status'' status, sent_item F ''type'' type,
                 sent_item F ''content'' content, sent_item F ''recordId'' recordId, sent_item F ''id'' rid]]]])"

lemma print_entity_read:
  "cJSON_Print F (request_entity F phone status type content rid recordId) =
   cJSON_Print F (entity_read F phone status type content rid recordId)"
  by (simp add: cJSON_Print_def request_entity_def entity_read_def sent_item_def add_str_def cJSON_AddItemToObject_def
      cJSON_AddItemToArray_def cJSON_CreateObject_def cJSON_CreateArray_def cJSON_CreateString_def cJSON_New_Item_def Let_def)

lemma entity_tree:
  "list_all cstring [phone, status, type, content, rid, recordId] \<Longrightarrow>
   tree_item F (entity_read F phone status type content rid recordId)"
  by (simp add: entity_read_def sent_item_def Let_def cstring_def)

text \<open>The names and the fixed values, the quotes and the tabulators take 281 characters.\<close>

lemma entity_length:
  "length (item_text (entity_read F phone status type content rid recordId) True 0) =
     281 + length (esc phone) + length (esc status) + length (esc type) + length (esc content) + length (esc rid) + length (esc recordId)"
  by (simp add: entity_read_def sent_item_def Let_def string_text_def name_of_def escape_char_def byte_of_def)

lemma entity_printed:
  assumes "list_all cstring [phone, status, type, content, rid, recordId]"
  shows "createRequestEntity F phone status type content rid recordId =
    Inr (item_text (entity_read F phone status type content rid recordId) True 0)"
  unfolding createRequestEntity_def print_entity_read unfolding cJSON_Print_def by (rule print_value_text [OF entity_tree [OF assms]])

lemma item_text_cstring: "tree_item F it \<Longrightarrow> cstring (item_text it fmt d)"
proof (induction it arbitrary: d)
  case (Item t vs vi vd s ch d)
  have ch: "\<forall>c \<in> set ch. NUL \<notin> set (item_text c fmt (d + 1))" using Item by (auto simp: list_all_iff cstring_def)
  have el: "NUL \<notin> set (elems_text fmt es)" if "\<forall>e \<in> set es. NUL \<notin> set e" for es
    using that by (induction fmt es rule: elems_text.induct) auto
  have me: "NUL \<notin> set (members_text fmt k ps)" if "\<forall>(n, e) \<in> set ps. NUL \<notin> set n \<and> NUL \<notin> set e" for k ps
    using that by (induction fmt k ps rule: members_text.induct) auto
  have st: "NUL \<notin> set (string_text v)" if "cstring v" for v using string_text_cstring [OF that] by (simp add: cstring_def)
  show ?case
  proof (cases t)
    case JArray
    then show ?thesis using ch el [of "map (\<lambda>c. item_text c fmt (d + 1)) ch"] by (simp add: cstring_def o_def)
  next
    case JObject
    have "NUL \<notin> set (string_text (name_of c))" if "c \<in> set ch" for c
      using Item.prems JObject that by (intro st) (auto simp: name_of_def list_all_iff split: option.splits)
    then have "NUL \<notin> set (members_text fmt (d + 1) (zip (map (string_text o name_of) ch) (map (\<lambda>c. item_text c fmt (d + 1)) ch)))"
      using ch by (intro me) (fastforce dest: set_zip_leftD set_zip_rightD)
    then show ?thesis using JObject by (simp add: cstring_def o_def)
  next
    case JString
    then show ?thesis using Item.prems st by (auto simp: cstring_def split: option.splits)
  qed (simp_all add: cstring_def)
qed

section \<open>Properties\<close>

text \<open>
  A reply that carries a token gives it: of the pieces of the body only the last one counts, and when it is
  an object with a token below 98 characters and a scope that holds the one asked for, the token, without its
  quotes, is the one of the reply.
\<close>

theorem token_of_last_piece:
  assumes "has_handle C"
    and "perform C \<lparr>rq_url = Some (token_url ak sk), rq_headers = [], rq_post = None\<rparr> = rp"
    and "rp_ok rp" "rp_chunks rp = cs @ [t]" "list_all (\<lambda>c. malloc_ok A (length c + 1)) (cs @ [t])"
    and "cJSON_Parse F t = Inr (Some root)"
    and "cJSON_GetObjectItem root (Some ''access_token'') = Some a" "cj_type a = JString" "cj_valuestring a = Some tok"
    and "cstring tok" "length (esc tok) < 98" "length token = MAX_TOKEN_SIZE"
    and "cJSON_GetObjectItem root (Some ''scope'') = Some b" "cj_type b = JString" "cj_valuestring b = Some sc"
    and "cstring sc" "length (esc sc) < 1198" "strstr (string_text sc) scope \<noteq> None"
  shows "\<exists>token'. speech_get_token F C A ak sk scope token = Inr (RETURN_OK, token') \<and>
    get_str token' = Inr (string_text tok) \<and> notYinghao (string_text tok) = esc tok"
proof -
  have "easy_perform C A \<lparr>rq_url = Some (token_url ak sk), rq_headers = [], rq_post = None\<rparr> = (True, Some t)"
    using assms(1-5) receive_last [OF assms(5)] by (simp add: easy_perform_def)
  moreover have l: "length (string_text tok) < length token" "length (string_text sc) < length (replicate 1200 NUL)"
    using assms(11,12,17) by (simp_all add: string_text_def MAX_TOKEN_SIZE_def)
  ultimately show ?thesis
    using obtain_string [OF assms(6-10) l(1)] obtain_string [OF assms(6) assms(13-16) l(2)] assms(18)
      put_get_str [OF string_text_cstring [OF assms(10)] l(1)] put_get_str [OF string_text_cstring [OF assms(16)] l(2)]
      notYinghao_string
    by (simp add: speech_get_token_def parse_token_def)
qed

definition token_reply :: "unit cJSON" where
  "token_reply = Item JObject None 0 () None
     [sent_item unit_ops ''access_token'' ''24.abc'', sent_item unit_ops ''scope'' ''audio_tts_post'']"

theorem token_of_last_piece_witness:
  "\<exists>token'. speech_get_token unit_ops
      \<lparr>has_handle = True, perform = (\<lambda>_. \<lparr>rp_ok = True, rp_headers = [], rp_chunks = [''x'', item_text token_reply True 0]\<rparr>),
       easy_escape = (\<lambda>s. s)\<rparr>
      \<lparr>can_alloc = (\<lambda>_. True), raw_byte = (\<lambda>_. NUL)\<rparr> ''k'' ''s'' TTS_SCOPE (replicate 100 CHR ''j'') = Inr (RETURN_OK, token') \<and>
    get_str token' = Inr (string_text ''24.abc'') \<and> notYinghao (string_text ''24.abc'') = esc ''24.abc''"
proof -
  have "cJSON_Parse unit_ops (item_text token_reply True 0) = Inr (Some token_reply)"
    by (rule parse_text) (simp_all add: token_reply_def sent_item_def unit_ops_def)
  moreover have "cJSON_GetObjectItem token_reply (Some ''access_token'') = Some (sent_item unit_ops ''access_token'' ''24.abc'')"
    "cJSON_GetObjectItem token_reply (Some ''scope'') = Some (sent_item unit_ops ''scope'' ''audio_tts_post'')"
    by (simp_all add: cJSON_GetObjectItem_def token_reply_def sent_item_def cJSON_strcasecmp_eq_def strcaseeq_def c_tolower_def byte_of_def)
  moreover have "length (item_text token_reply True 0) < 1000"
    by (simp add: token_reply_def sent_item_def string_text_def name_of_def escape_char_def byte_of_def)
  ultimately show ?thesis
    by (intro token_of_last_piece [where cs = "[''x'']" and t = "item_text token_reply True 0"])
       (auto simp: sent_item_def MAX_TOKEN_SIZE_def malloc_ok_def TTS_SCOPE_def string_text_def escape_char_def byte_of_def)
qed

text \<open>
  C36. The request of the message service says what it was given: printed and parsed, it has the six values under
  their names. It is copied into an array of 1024 bytes without a check, and so it is sent, as it is, exactly when
  the escaped values have together fewer than 743 characters; longer ones are written behind the array.
\<close>

theorem ems_callback_bounds:
  assumes "list_all cstring [phone, state, type, content, recordId, order_id]"
    and "iniGetString (Some ''EMS'') ''callbackUrl'' 200 (Some ''0'') st = Inr (r, url, st')"
  shows "\<exists>json. createRequestEntity F phone state type content order_id recordId = Inr json \<and>
    cJSON_Parse F json = Inr (Some (entity_read F phone state type content order_id recordId)) \<and>
    emsCallbackRequest F C st phone state type content recordId order_id =
      (if length (esc phone) + length (esc state) + length (esc type) + length (esc content) + length (esc order_id) + length (esc recordId) < 743
       then Inr (''OK'', if has_handle C
                         then Some \<lparr>rq_url = Some url, rq_headers = [''Content-Type: text/plain; charset=utf-8''], rq_post = Some json\<rparr>
                         else None)
       else Inl OutOfBounds)"
proof -
  let ?it = "entity_read F phone state type content order_id recordId" let ?t = "item_text ?it True 0"
  have args: "list_all cstring [phone, state, type, content, order_id, recordId]" using assms(1) by simp
  have "cj_string ?it = None" by (simp add: entity_read_def Let_def)
  then have parse: "cJSON_Parse F ?t = Inr (Some ?it)" by (rule parse_text [OF entity_tree [OF args]])
  have len: "length ?t = 281 + length (esc phone) + length (esc state) + length (esc type) + length (esc content) + length (esc order_id) + length (esc recordId)"
    by (rule entity_length)
  have "?t \<noteq> []" using len by auto
  moreover have "put_str (replicate 1024 NUL) ?t = Inl OutOfBounds" if "1024 \<le> length ?t"
    using that by (simp add: put_str_def mem_write_def)
  ultimately show ?thesis
    using parse entity_printed [OF args, of F] assms(2) put_get_str [OF item_text_cstring [OF entity_tree [OF args]], of F True 0 "replicate 1024 NUL"] len
    by (auto simp: emsCallbackRequest_def)
qed

theorem ems_callback_bounds_witness:
  "\<exists>json. createRequestEntity unit_ops ''10086'' ''0'' ''1'' ''hi'' ''7'' ''5'' = Inr json \<and>
    cJSON_Parse unit_ops json = Inr (Some (entity_read unit_ops ''10086'' ''0'' ''1'' ''hi'' ''7'' ''5'')) \<and>
    emsCallbackRequest unit_ops \<lparr>has_handle = True, perform = (\<lambda>_. \<lparr>rp_ok = True, rp_headers = [], rp_chunks = []\<rparr>), easy_escape = (\<lambda>s. s)\<rparr>
      (\<lparr>gFilename = ''./database.conf'', gBuffer = Loaded []\<rparr>, \<lparr>can_open = (\<lambda>_. True), content_of = (\<lambda>_. Some [])\<rparr>)
      ''10086'' ''0'' ''1'' ''hi'' ''5'' ''7'' =
      Inr (''OK'', Some \<lparr>rq_url = Some ''0'', rq_headers = [''Content-Type: text/plain; charset=utf-8''], rq_post = Some json\<rparr>)"
proof -
  let ?st = "(\<lparr>gFilename = ''./database.conf'', gBuffer = Loaded []\<rparr>, \<lparr>can_open = (\<lambda>_. True), content_of = (\<lambda>_. Some [])\<rparr>)"
  obtain st' where "iniGetString (Some ''EMS'') ''callbackUrl'' 200 (Some ''0'') ?st = Inr (0, ''0'', st')"
    by (simp add: iniGetString_def iniGetValue_def find_value.simps fit_def iniSetString_def FindSection_def find_section.simps
        append_file_def rewrite_file_def iniFileLoad_def SIZE_FILENAME_def Let_def)
  moreover have "list_all cstring [''10086'', ''0'', ''1'', ''hi'', ''5'', ''7'']" by (simp add: cstring_def)
  ultimately show ?thesis
    using ems_callback_bounds [where F = unit_ops and r = 0 and url = "''0''" and st = ?st
        and C = "\<lparr>has_handle = True, perform = (\<lambda>_. \<lparr>rp_ok = True, rp_headers = [], rp_chunks = []\<rparr>), easy_escape = (\<lambda>s. s)\<rparr>"]
    by (fastforce simp: escape_char_def byte_of_def)
qed

text \<open>The configuration says that its text has 1999 bytes, and its array has 1537.\<close>

lemma run_tts_reads_behind: "length (tts_text cfg) < text_len cfg \<Longrightarrow> run_tts C raw cfg token name d = Inl OutOfBounds"
  by (simp add: run_tts_def mem_read_def)

lemma fill_config_length: "fill_config raw str = Inr (res, cfg) \<Longrightarrow> length (tts_text cfg) \<le> 1537 \<and> text_len cfg = 1999"
  by (auto simp: fill_config_def put_str_def mem_write_def fault_simps split: if_splits)

text \<open>
  Speech is never synthesised: \<open>run\<close> returns only when it has no token, and then it reports success and no
  file is written; with a token it reads 1999 bytes from an array of 1537.
\<close>

theorem run_never_speaks:
  "(run F C A raw name str d = Inr (res, d') \<longrightarrow> res = RETURN_OK \<and> d' = d) \<and>
   (length str < 1537 \<and> 1537 \<le> length raw \<and>
    speech_get_token F C A ''4E1BG9lTnlSeIf1NQFlrSq6h'' ''544ca4657ba8002e3dea3ac2f5fdd241'' TTS_SCOPE (take MAX_TOKEN_SIZE raw) = Inr (RETURN_OK, token) \<longrightarrow>
    run F C A raw name str d = Inl OutOfBounds)"
proof -
  have never: "run_tts C raw cfg tok name d = Inl OutOfBounds" if "fill_config raw str = Inr (r, cfg)" for r cfg tok
    using fill_config_length [OF that] by (intro run_tts_reads_behind) simp
  have "res = RETURN_OK \<and> d' = d" if "run F C A raw name str d = Inr (res, d')"
    using that never by (auto simp: run_def fault_simps split: if_splits)
  moreover have "run F C A raw name str d = Inl OutOfBounds"
    if "length str < 1537" "1537 \<le> length raw"
      "speech_get_token F C A ''4E1BG9lTnlSeIf1NQFlrSq6h'' ''544ca4657ba8002e3dea3ac2f5fdd241'' TTS_SCOPE (take MAX_TOKEN_SIZE raw) = Inr (RETURN_OK, token)"
  proof -
    note a = that
    obtain cfg where c: "fill_config raw str = Inr (RETURN_OK, cfg)" "api_key cfg = ''4E1BG9lTnlSeIf1NQFlrSq6h''"
        "secret_key cfg = ''544ca4657ba8002e3dea3ac2f5fdd241''"
      using a(1,2) by (simp add: fill_config_def print_into_def put_str_def mem_write_def)
    show ?thesis using c never [OF c(1)] a(3) by (simp add: run_def get_str_def)
  qed
  ultimately show ?thesis by blast
qed

theorem run_never_speaks_witness:
  "\<exists>r. run unit_ops \<lparr>has_handle = False, perform = (\<lambda>_. \<lparr>rp_ok = True, rp_headers = [], rp_chunks = []\<rparr>), easy_escape = (\<lambda>s. s)\<rparr>
      \<lparr>can_alloc = (\<lambda>_. True), raw_byte = (\<lambda>_. NUL)\<rparr> (replicate 1537 NUL) ''a'' ''hi''
      \<lparr>can_open = (\<lambda>_. True), content_of = (\<lambda>_. None)\<rparr> = Inr r \<and>
    r = (RETURN_OK, \<lparr>can_open = (\<lambda>_. True), content_of = (\<lambda>_. None)\<rparr>)"
proof -
  let ?C = "\<lparr>has_handle = False, perform = (\<lambda>_. \<lparr>rp_ok = True, rp_headers = [], rp_chunks = []\<rparr>), easy_escape = (\<lambda>s. s)\<rparr>"
  let ?A = "\<lparr>can_alloc = (\<lambda>_. True), raw_byte = (\<lambda>_. NUL)\<rparr>"
  let ?d = "\<lparr>can_open = (\<lambda>_. True), content_of = (\<lambda>_. None)\<rparr>"
  have "no_fault (run unit_ops ?C ?A (replicate 1537 NUL) ''a'' ''hi'' ?d)"
    by (simp add: run_def fill_config_def print_into_def put_str_def mem_write_def speech_get_token_def easy_perform_def get_str_def
        MAX_TOKEN_SIZE_def)
  then obtain res d' where "run unit_ops ?C ?A (replicate 1537 NUL) ''a'' ''hi'' ?d = Inr (res, d')"
    by (auto simp: no_fault_iff)
  then show ?thesis
    using run_never_speaks [of unit_ops ?C ?A "replicate 1537 NUL" "''a''" "''hi''" ?d res d'] by blast
qed

section \<open>What the code does not expect\<close>

text \<open>The token of the other service is found and dropped.\<close>

lemma access_token_lost: "get_access_token F C raw AK SK s = Inr (0, s') \<Longrightarrow> s' = []"
  by (auto simp: get_access_token_def Let_def fault_simps split: if_splits)

text \<open>No reply at all: the sentiment is what the array held before.\<close>

lemma sentiment_no_reply:
  assumes "has_handle C" "cstring txt" "perform C = (\<lambda>rq. \<lparr>rp_ok = False, rp_headers = [], rp_chunks = []\<rparr>)" "sentiment_classifyRequesst F C A raw txt = Inr (s, rq)"
  shows "get_str (take 300 raw) = Inr s"
  using assms by (auto simp: sentiment_classifyRequesst_def easy_perform_def parse_positive_prob_def parse_reply_def fault_simps)

text \<open>The sentiment is that of the last item.\<close>

lemma positive_prob_last:
  "list_all (\<lambda>i. \<exists>t. print_opt F (cJSON_GetObjectItem i (Some key)) = Inr (Some t) \<and> cstring t \<and> length t < length arr) is \<Longrightarrow>
   is \<noteq> [] \<Longrightarrow> print_opt F (cJSON_GetObjectItem (last is) (Some key)) = Inr (Some t) \<Longrightarrow>
   \<exists>arr'. positive_prob F key is arr = Inr arr' \<and> get_str arr' = Inr t"
proof (induction "is" arbitrary: arr)
  case (Cons i js)
  then obtain u where u: "print_opt F (cJSON_GetObjectItem i (Some key)) = Inr (Some u)" "cstring u" "length u < length arr" by auto
  note p = put_get_str [OF u(2,3)]
  show ?case
  proof (cases "js = []")
    case True
    then show ?thesis using Cons.prems u p by (simp add: put_opt_def)
  next
    case False
    have len: "length (u @ NUL # drop (Suc (length u)) arr) = length arr" using u(3) by simp
    show ?thesis using False Cons.prems u p Cons.IH [of "u @ NUL # drop (Suc (length u)) arr"] unfolding len by (simp add: put_opt_def)
  qed
qed simp

text \<open>A line of the header is read one byte behind its end, and the empty line at the end of a header twelve bytes.\<close>

lemma header_reads_behind:
  "header_callback raw [CR, LF] 2 r = Inl OutOfBounds"
  "100 \<le> length raw \<Longrightarrow> header_callback raw ''Content-Type: audio/wav'' 23 r = Inl OutOfBounds"
  by (simp_all add: header_callback_def search_header_def mem_read_def sub64_def c_str_def strcaseeq_def MAX_HEADER_VALUE_LEN_def mem_write_def)

text \<open>The messages go to no address: the URL of the second service is never set.\<close>

lemma mos_without_url: "mosCallbackRequest F C p b z t c = Inr (s, Some rq) \<Longrightarrow> rq_url rq = None"
  by (auto simp: mosCallbackRequest_def fault_simps split: if_splits)

end
