(* ===== verification/LocaleText.thy ===== *)
theory LocaleText
  imports TextCodes
begin

text \<open>
  The functions of \<^verbatim>\<open>common/codeHelper.cpp\<close> that convert between the bytes and the wide characters of a locale.
  The C library is a parameter: the locale of the environment, the locales that are installed, and for each locale
  the reading of the first character of a text and the bytes of a character. \<^verbatim>\<open>setlocale\<close>, \<^verbatim>\<open>mbstowcs\<close> and
  \<^verbatim>\<open>wcstombs\<close> are defined over it as the standard describes them. The state is the current locale of the process.
  Texts are shorter than \<open>2 ^ 31\<close> bytes, so that their lengths are values of \<^verbatim>\<open>int\<close>.
\<close>

section \<open>The C library\<close>

record c_locales =
  env_locale :: string
  installed :: "string \<Rightarrow> bool"
  first_char :: "string \<Rightarrow> string \<Rightarrow> (nat \<times> nat) option"  \<comment> \<open>its value and the number of its bytes\<close>
  char_bytes :: "string \<Rightarrow> nat \<Rightarrow> string option"

text \<open>\<open>setlocale(LC_ALL, req)\<close>: the result (none for a null pointer) and the current locale.\<close>

definition setlocale :: "c_locales \<Rightarrow> string \<Rightarrow> string \<Rightarrow> string option \<times> string" where
  "setlocale K cur req =
     (let new = (if req = [] then env_locale K else req) in if installed K new then (Some new, new) else (None, cur))"

text \<open>All characters of a text; nothing when a part of it is not a character.\<close>

function mbs_chars :: "c_locales \<Rightarrow> string \<Rightarrow> string \<Rightarrow> nat list option" where
  "mbs_chars K cur s =
     (if s = [] then Some []
      else case first_char K cur s of
             None \<Rightarrow> None
           | Some (w, k) \<Rightarrow> map_option (Cons w) (mbs_chars K cur (drop (max 1 k) s)))"
  by pat_completeness auto

termination by (relation "measure (\<lambda>(_, _, s). length s)") auto

declare mbs_chars.simps [simp del]

text \<open>The bytes of all characters; and the bytes that fit into a room, up to the first that is no character.\<close>

fun wcs_bytes :: "c_locales \<Rightarrow> string \<Rightarrow> nat list \<Rightarrow> string option" where
  "wcs_bytes K cur [] = Some []"
| "wcs_bytes K cur (w # ws) =
     (case char_bytes K cur w of None \<Rightarrow> None | Some bs \<Rightarrow> map_option ((@) bs) (wcs_bytes K cur ws))"

fun wcs_into :: "c_locales \<Rightarrow> string \<Rightarrow> nat list \<Rightarrow> nat \<Rightarrow> string" where
  "wcs_into K cur [] n = []"
| "wcs_into K cur (w # ws) n =
     (case char_bytes K cur w of
        None \<Rightarrow> []
      | Some bs \<Rightarrow> if length bs \<le> n then bs @ wcs_into K cur ws (n - length bs) else [])"

definition wc_str :: "nat list \<Rightarrow> nat list" where
  "wc_str ws = takeWhile (\<lambda>w. w \<noteq> 0) ws"

section \<open>The functions\<close>

text \<open>
  \<open>String2WString\<close>: what is restored is the result of the first call, the locale of the environment. For a text that
  is not valid the size is \<open>-1 + 1\<close>, and the string is read from an array without elements.
\<close>

definition String2WString :: "c_locales \<Rightarrow> string \<Rightarrow> string \<Rightarrow> (nat list \<times> string) c_result" where
  "String2WString K cur s =
     (case setlocale K cur [] of
        (None, _) \<Rightarrow> Inl NullPointer
      | (Some strLocale, cur1) \<Rightarrow>
          (case mbs_chars K cur1 (c_str s) of
             None \<Rightarrow> Inl OutOfBounds
           | Some ws \<Rightarrow> Inr (wc_str ws, snd (setlocale K cur1 strLocale))))"

text \<open>
  The array \<open>unicodestr\<close> of \<open>gbk2utf8\<close>: \<open>unicodelen + 1\<close> elements, all 0, into which at most \<open>strlen(srcstr)\<close>
  characters are written, with the one that ends the text if it is reached. A text that is not valid does not come
  here: \<open>String2WString\<close> has read it in the same locale.
\<close>

definition unicode_array :: "c_locales \<Rightarrow> string \<Rightarrow> string \<Rightarrow> nat \<Rightarrow> nat list c_result" where
  "unicode_array K cur src unicodelen =
     (case mbs_chars K cur src of
        None \<Rightarrow> Inl OutOfBounds
      | Some ws \<Rightarrow>
          let written = take (length src) (ws @ [0])
          in if length written \<le> unicodelen + 1 then Inr (wc_str (written @ [0])) else Inl OutOfBounds)"

text \<open>The result of \<open>gbk2utf8\<close>: its value, the text in \<open>utfstr\<close>, whether the array was freed, the current locale.\<close>

record gbk_result =
  gr_ret :: int
  gr_utfstr :: "string option"
  gr_leak :: bool
  gr_locale :: string

definition gbk2utf8 :: "c_locales \<Rightarrow> allocator \<Rightarrow> string \<Rightarrow> string option \<Rightarrow> int \<Rightarrow> gbk_result c_result" where
  "gbk2utf8 K A cur srcstr maxutfstrlen =
     (case srcstr of
        None \<Rightarrow> Inr \<lparr>gr_ret = -1, gr_utfstr = None, gr_leak = False, gr_locale = cur\<rparr>
      | Some src \<Rightarrow>
          (case setlocale K cur ''zh_CN.gbk'' of
             (None, cur1) \<Rightarrow> Inr \<lparr>gr_ret = -1, gr_utfstr = None, gr_leak = False, gr_locale = cur1\<rparr>
           | (Some _, cur1) \<Rightarrow>
               res_bind (String2WString K cur1 src) (\<lambda>(ws, cur2).
               if \<not> malloc_ok A (4 * (length ws + 1)) then Inl NullPointer
               else res_bind (unicode_array K cur2 (c_str src) (length ws)) (\<lambda>unicodestr.
               case setlocale K cur2 ''zh_CN.utf8'' of
                 (None, cur3) \<Rightarrow> Inr \<lparr>gr_ret = -1, gr_utfstr = None, gr_leak = True, gr_locale = cur3\<rparr>
               | (Some _, cur3) \<Rightarrow>
                   (case wcs_bytes K cur3 unicodestr of
                      None \<Rightarrow> Inr \<lparr>gr_ret = -1, gr_utfstr = None, gr_leak = True, gr_locale = cur3\<rparr>
                    | Some bs \<Rightarrow>
                        if bs = [] \<or> maxutfstrlen \<le> int (length bs)
                        then Inr \<lparr>gr_ret = -1, gr_utfstr = None, gr_leak = True, gr_locale = cur3\<rparr>
                        else Inr \<lparr>gr_ret = int (length bs), gr_utfstr = Some (c_str bs), gr_leak = False, gr_locale = cur3\<rparr>)))))"

text \<open>
  \<open>ws2s\<close>: the array has two bytes for each character and one for the NUL; when the characters fill it there is no
  NUL, and the string is read behind it. Whether \<^verbatim>\<open>zh_CN.gbk\<close> is installed is not asked.
\<close>

definition ws2s :: "c_locales \<Rightarrow> string \<Rightarrow> nat list \<Rightarrow> (string \<times> string) c_result" where
  "ws2s K cur ws =
     (let cur1 = snd (setlocale K cur ''zh_CN.gbk'');
          dsize = 2 * length ws + 1;
          dest = wcs_into K cur1 (wc_str ws) dsize
      in if length dest = dsize \<and> NUL \<notin> set dest then Inl OutOfBounds
         else Inr (c_str dest, snd (setlocale K cur1 cur)))"

section \<open>What the conversions do\<close>

lemma setlocale_installed [simp]:
  "req \<noteq> [] \<Longrightarrow> setlocale K cur req = (if installed K req then (Some req, req) else (None, cur))"
  "setlocale K cur [] = (if installed K (env_locale K) then (Some (env_locale K), env_locale K) else (None, cur))"
  by (simp_all add: setlocale_def Let_def)

lemma setlocale_env [simp]: "installed K (env_locale K) \<Longrightarrow> snd (setlocale K cur (env_locale K)) = env_locale K"
  by (simp add: setlocale_def Let_def)

lemma wc_str_all [simp]: "0 \<notin> set ws \<Longrightarrow> wc_str ws = ws"
  by (auto simp: wc_str_def takeWhile_eq_all_conv intro: gr0I)

lemma mbs_chars_length: "mbs_chars K cur s = Some ws \<Longrightarrow> length ws \<le> length s"
proof (induction K cur s arbitrary: ws rule: mbs_chars.induct)
  case (1 K cur s)
  show ?case
  proof (cases "s = []")
    case True
    then show ?thesis using "1.prems" by (simp add: mbs_chars.simps)
  next
    case False
    then obtain w k vs where "first_char K cur s = Some (w, k)" "mbs_chars K cur (drop (max 1 k) s) = Some vs" "ws = w # vs"
      using "1.prems" by (subst (asm) mbs_chars.simps) (auto split: option.splits)
    then show ?thesis using "1.IH" [OF False] False by (cases s) fastforce+
  qed
qed

text \<open>The characters depend only on the reading in the one locale.\<close>

lemma mbs_chars_cong:
  "(\<And>t. first_char K' cur t = first_char K cur t) \<Longrightarrow> mbs_chars K' cur s = mbs_chars K cur s"
proof (induction K cur s rule: mbs_chars.induct)
  case (1 K cur s)
  show ?case
  proof (cases "s = []")
    case True
    then show ?thesis by (simp add: mbs_chars.simps)
  next
    case False
    then show ?thesis
      using 1 by (subst (1 2) mbs_chars.simps) (auto split: option.split)
  qed
qed

lemma unicode_array_all [simp]:
  assumes "mbs_chars K cur src = Some ws" "0 \<notin> set ws"
  shows "unicode_array K cur src (length ws) = Inr ws"
proof -
  have "length ws \<le> length src" using assms(1) by (rule mbs_chars_length)
  then consider "length src = length ws" | "length ws < length src" by linarith
  then have "wc_str (take (length src) (ws @ [0]) @ [0]) = ws"
    using assms(2) by cases (auto simp: wc_str_def takeWhile_append takeWhile_eq_all_conv Suc_le_eq)
  then show ?thesis using assms by (simp add: unicode_array_def Let_def)
qed

text \<open>A valid text, the three locales installed, and memory.\<close>

definition gbk_ready :: "c_locales \<Rightarrow> allocator \<Rightarrow> string \<Rightarrow> nat list \<Rightarrow> bool" where
  "gbk_ready K A src ws \<longleftrightarrow> installed K ''zh_CN.gbk'' \<and> installed K ''zh_CN.utf8'' \<and> installed K (env_locale K) \<and>
     mbs_chars K (env_locale K) (c_str src) = Some ws \<and> 0 \<notin> set ws \<and> malloc_ok A (4 * (length ws + 1))"

lemma String2WString_ready:
  "gbk_ready K A src ws \<Longrightarrow> String2WString K cur src = Inr (ws, env_locale K)"
  by (simp add: gbk_ready_def String2WString_def)

lemma gbk2utf8_ready:
  assumes "gbk_ready K A src ws"
  shows "gbk2utf8 K A cur (Some src) n =
     (case wcs_bytes K ''zh_CN.utf8'' ws of
        Some bs \<Rightarrow>
          if bs \<noteq> [] \<and> int (length bs) < n
          then Inr \<lparr>gr_ret = int (length bs), gr_utfstr = Some (c_str bs), gr_leak = False, gr_locale = ''zh_CN.utf8''\<rparr>
          else Inr \<lparr>gr_ret = -1, gr_utfstr = None, gr_leak = True, gr_locale = ''zh_CN.utf8''\<rparr>
      | None \<Rightarrow> Inr \<lparr>gr_ret = -1, gr_utfstr = None, gr_leak = True, gr_locale = ''zh_CN.utf8''\<rparr>)"
  using assms String2WString_ready [OF assms]
  by (auto simp: gbk2utf8_def gbk_ready_def split: option.split)

definition with_gbk :: "(string \<Rightarrow> (nat \<times> nat) option) \<Rightarrow> c_locales \<Rightarrow> c_locales" where
  "with_gbk D K = K\<lparr>first_char := (\<lambda>l. if l = ''zh_CN.gbk'' then D else first_char K l)\<rparr>"

lemma wcs_bytes_with [simp]: "wcs_bytes (with_gbk D K) cur ws = wcs_bytes K cur ws"
  by (induction ws) (auto simp: with_gbk_def split: option.split)

lemma gbk_ready_with:
  "env_locale K \<noteq> ''zh_CN.gbk'' \<Longrightarrow> gbk_ready (with_gbk D K) A src ws = gbk_ready K A src ws"
  using mbs_chars_cong [of "with_gbk D K" "env_locale K" K "c_str src"]
  by (simp add: gbk_ready_def with_gbk_def)
text \<open>Characters of at most two bytes fit; with three bytes each, a third of the room is the number that fits.\<close>

lemma wcs_into_fits:
  assumes "\<forall>w \<in> set ws. \<exists>bs. char_bytes K cur w = Some bs \<and> length bs \<le> 2 \<and> cstring bs" "2 * length ws \<le> n"
  shows "Some (wcs_into K cur ws n) = wcs_bytes K cur ws \<and> length (wcs_into K cur ws n) \<le> 2 * length ws \<and>
    cstring (wcs_into K cur ws n)"
  using assms
proof (induction ws arbitrary: n)
  case (Cons w ws)
  then obtain bs where bs: "char_bytes K cur w = Some bs" "length bs \<le> 2" "cstring bs" by auto
  have "Some (wcs_into K cur ws (n - length bs)) = wcs_bytes K cur ws \<and>
     length (wcs_into K cur ws (n - length bs)) \<le> 2 * length ws \<and> cstring (wcs_into K cur ws (n - length bs))"
    using Cons.prems bs by (intro Cons.IH) auto
  then show ?case using bs Cons.prems(2)
    by (cases "wcs_bytes K cur ws") (auto simp: cstring_def)
qed (simp add: cstring_def)

lemma wcs_into_three:
  assumes "\<forall>w \<in> set ws. \<exists>bs. char_bytes K cur w = Some bs \<and> length bs = 3 \<and> cstring bs"
  shows "length (wcs_into K cur ws n) = 3 * min (length ws) (n div 3) \<and> cstring (wcs_into K cur ws n)"
  using assms
proof (induction ws arbitrary: n)
  case (Cons w ws)
  then obtain bs where bs: "char_bytes K cur w = Some bs" "length bs = 3" "cstring bs" by auto
  have IH: "length (wcs_into K cur ws (n - 3)) = 3 * min (length ws) ((n - 3) div 3) \<and> cstring (wcs_into K cur ws (n - 3))"
    using Cons.prems by (intro Cons.IH) auto
  show ?case
  proof (cases "3 \<le> n")
    case True
    then have "n div 3 = Suc ((n - 3) div 3)" by (simp add: le_div_geq)
    then show ?thesis using True IH bs by (auto simp: cstring_def)
  qed (use bs in \<open>simp add: cstring_def\<close>)
qed (simp add: cstring_def)

lemma third_full: "3 * min n ((2 * n + 1) div 3) = 2 * n + 1 \<longleftrightarrow> n mod 3 = (1 :: nat)"
proof -
  have "(2 * n + 1) mod 3 = 0 \<longleftrightarrow> n mod 3 = 1" by presburger
  moreover have "3 * ((2 * n + 1) div 3) = 2 * n + 1 \<longleftrightarrow> (2 * n + 1) mod 3 = 0" by presburger
  moreover have "(2 * n + 1) div 3 \<le> n \<or> n = 0" by presburger
  ultimately show ?thesis by (cases "n = 0") (simp_all add: min_absorb2)
qed

text \<open>
  C39. \<open>gbk2utf8\<close> does not convert from GBK. On a valid text it returns the UTF-8 bytes of the characters that the
  text has in the locale of the environment, whatever the GBK reading is: replacing that reading changes nothing. The
  result is the number of bytes, which with the NUL fit into the room; -1 is returned when there is no room, for the
  empty text, and for a character UTF-8 does not have, each time without freeing the array. The process is left in
  the locale \<^verbatim>\<open>zh_CN.utf8\<close>.
\<close>

theorem gbk_never_read:
  assumes "gbk_ready K A src ws" "env_locale K \<noteq> ''zh_CN.gbk''"
  shows "(\<forall>D. gbk2utf8 (with_gbk D K) A cur (Some src) n = gbk2utf8 K A cur (Some src) n) \<and>
    (\<exists>r. gbk2utf8 K A cur (Some src) n = Inr r \<and> gr_locale r = ''zh_CN.utf8'' \<and>
      (case wcs_bytes K ''zh_CN.utf8'' ws of
         None \<Rightarrow> gr_ret r = -1 \<and> gr_leak r
       | Some bs \<Rightarrow>
           if bs \<noteq> [] \<and> int (length bs) < n then gr_ret r = int (length bs) \<and> gr_utfstr r = Some (c_str bs) \<and> \<not> gr_leak r
           else gr_ret r = -1 \<and> gr_utfstr r = None \<and> gr_leak r))"
proof (intro conjI allI)
  fix D
  have "gbk_ready (with_gbk D K) A src ws" using assms by (simp add: gbk_ready_with)
  then show "gbk2utf8 (with_gbk D K) A cur (Some src) n = gbk2utf8 K A cur (Some src) n"
    using assms(1) by (simp add: gbk2utf8_ready)
next
  show "\<exists>r. gbk2utf8 K A cur (Some src) n = Inr r \<and> gr_locale r = ''zh_CN.utf8'' \<and>
      (case wcs_bytes K ''zh_CN.utf8'' ws of
         None \<Rightarrow> gr_ret r = -1 \<and> gr_leak r
       | Some bs \<Rightarrow>
           if bs \<noteq> [] \<and> int (length bs) < n then gr_ret r = int (length bs) \<and> gr_utfstr r = Some (c_str bs) \<and> \<not> gr_leak r
           else gr_ret r = -1 \<and> gr_utfstr r = None \<and> gr_leak r)"
    using assms(1) by (cases "wcs_bytes K ''zh_CN.utf8'' ws") (simp_all add: gbk2utf8_ready)
qed

text \<open>Locales of one byte for each character, where the capital letters of UTF-8 are two bytes.\<close>

definition byte_locales :: c_locales where
  "byte_locales = \<lparr>env_locale = ''C'', installed = (\<lambda>_. True), first_char = (\<lambda>_ s. Some (byte_of (hd s), 1)),
     char_bytes = (\<lambda>l w. Some (if l = ''zh_CN.utf8'' then [CHR ''u'', char_of w] else [char_of w]))\<rparr>"

theorem gbk_never_read_witness:
  "\<exists>r. gbk2utf8 byte_locales \<lparr>can_alloc = (\<lambda>_. True), raw_byte = (\<lambda>_. NUL)\<rparr> ''C'' (Some ''a'') 600 = Inr r \<and>
     gr_ret r = 2 \<and> gr_utfstr r = Some ''ua'' \<and> gr_locale r = ''zh_CN.utf8''"
proof -
  let ?A = "\<lparr>can_alloc = (\<lambda>_. True), raw_byte = (\<lambda>_. NUL)\<rparr>"
  have r: "gbk_ready byte_locales ?A ''a'' [97]"
    by (simp add: gbk_ready_def byte_locales_def mbs_chars.simps c_str_def malloc_ok_def byte_of_def)
  have e: "env_locale byte_locales \<noteq> ''zh_CN.gbk''" by (simp add: byte_locales_def)
  have "char_of (97 :: nat) = CHR ''a''" by code_simp
  then have b: "wcs_bytes byte_locales ''zh_CN.utf8'' [97] = Some ''ua''" by (simp add: byte_locales_def)
  show ?thesis using conjunct2 [OF gbk_never_read [OF r e, of "''C''" 600]] unfolding b by (auto simp: c_str_def)
qed



end
