(* ===== verification/JsonMemory.thy ===== *)
theory JsonMemory
  imports EslJson IoMonad "HOL-Library.Multiset"
begin

text \<open>
  The items of \<^verbatim>\<open>esl/esl_json.c\<close> as the code has them: blocks of memory that point to each other, with
  \<open>cJSON_Delete\<close>, the reference items and the operations on the chain of the children. \<open>EslJson\<close> has the same
  operations on values; here they are done on the pointers, and the two are shown to agree.

  An address that has been freed is not given out again, so that a use of freed memory, or freeing it twice, is
  always a fault. A loop along a chain that closes on itself does not return.
\<close>

section \<open>The memory\<close>

record 'd jnode =
  n_next :: "nat option"
  n_prev :: "nat option"
  n_child :: "nat option"
  n_type :: json_type
  n_isref :: bool                  \<comment> \<open>\<open>cJSON_IsReference\<close>, a bit of \<open>type\<close>\<close>
  n_valuestring :: "nat option"
  n_valueint :: int
  n_valuedouble :: 'd
  n_string :: "nat option"

record 'd jmem =
  jm_nodes :: "nat \<Rightarrow> 'd jnode option"
  jm_strs :: "nat \<Rightarrow> string option"
  jm_top :: nat                    \<comment> \<open>the next address\<close>

definition get_node :: "nat \<Rightarrow> 'd jmem \<Rightarrow> 'd jnode io" where
  "get_node a m = (case jm_nodes m a of None \<Rightarrow> Some (Inl OutOfBounds) | Some nd \<Rightarrow> io_return nd)"

definition put_node :: "nat \<Rightarrow> ('d jnode \<Rightarrow> 'd jnode) \<Rightarrow> 'd jmem \<Rightarrow> 'd jmem io" where
  "put_node a f m = io_bind (get_node a m) (\<lambda>nd. io_return (m\<lparr>jm_nodes := (jm_nodes m)(a := Some (f nd))\<rparr>))"

definition free_node :: "nat \<Rightarrow> 'd jmem \<Rightarrow> 'd jmem io" where
  "free_node a m = io_bind (get_node a m) (\<lambda>nd. io_return (m\<lparr>jm_nodes := (jm_nodes m)(a := None)\<rparr>))"

text \<open>\<open>if (p) cJSON_free (p)\<close> for a string.\<close>

definition free_text :: "nat option \<Rightarrow> 'd jmem \<Rightarrow> 'd jmem io" where
  "free_text p m =
     (case p of
        None \<Rightarrow> io_return m
      | Some a \<Rightarrow> if jm_strs m a = None then Some (Inl OutOfBounds) else io_return (m\<lparr>jm_strs := (jm_strs m)(a := None)\<rparr>))"

text \<open>\<open>cJSON_strdup\<close>; \<open>None\<close> is a null pointer, whose copy is the empty text.\<close>

definition cJSON_strdup :: "allocator \<Rightarrow> string option \<Rightarrow> 'd jmem \<Rightarrow> nat option \<times> 'd jmem" where
  "cJSON_strdup A str m =
     (let s = (case str of None \<Rightarrow> [] | Some s \<Rightarrow> s)
      in if malloc_ok A (length s + 1)
         then (Some (jm_top m), m\<lparr>jm_strs := (jm_strs m)(jm_top m := Some s), jm_top := jm_top m + 1\<rparr>)
         else (None, m))"

text \<open>\<open>cJSON_InitHooks\<close>: the functions that allocate and free; a missing one is that of the C library.\<close>

definition cJSON_InitHooks :: "'f \<Rightarrow> 'g \<Rightarrow> ('f option \<times> 'g option) option \<Rightarrow> 'f \<times> 'g" where
  "cJSON_InitHooks malloc free hooks =
     (case hooks of
        None \<Rightarrow> (malloc, free)
      | Some (malloc_fn, free_fn) \<Rightarrow>
          (case malloc_fn of None \<Rightarrow> malloc | Some f \<Rightarrow> f, case free_fn of None \<Rightarrow> free | Some f \<Rightarrow> f))"

definition NODE_SIZE :: nat where "NODE_SIZE = 64"

definition zero_node :: "'d double_ops \<Rightarrow> 'd jnode" where
  "zero_node F = \<lparr>n_next = None, n_prev = None, n_child = None, n_type = JFalse, n_isref = False, n_valuestring = None,
     n_valueint = 0, n_valuedouble = dbl_of_int F 0, n_string = None\<rparr>"

definition New_node :: "allocator \<Rightarrow> 'd jnode \<Rightarrow> 'd jmem \<Rightarrow> nat option \<times> 'd jmem" where
  "New_node A nd m =
     (if malloc_ok A NODE_SIZE
      then (Some (jm_top m), m\<lparr>jm_nodes := (jm_nodes m)(jm_top m := Some nd), jm_top := jm_top m + 1\<rparr>)
      else (None, m))"

section \<open>The operations\<close>

partial_function (option) cJSON_Delete :: "nat option \<Rightarrow> 'd jmem \<Rightarrow> 'd jmem io" where
  "cJSON_Delete c m =
     (case c of
        None \<Rightarrow> io_return m
      | Some a \<Rightarrow>
          io_bind (get_node a m) (\<lambda>nd.
          io_bind (if \<not> n_isref nd \<and> n_child nd \<noteq> None then cJSON_Delete (n_child nd) m else io_return m) (\<lambda>m1.
          io_bind (get_node a m1) (\<lambda>nd1.
          io_bind (if \<not> n_isref nd1 then free_text (n_valuestring nd1) m1 else io_return m1) (\<lambda>m2.
          io_bind (free_text (n_string nd1) m2) (\<lambda>m3.
          io_bind (free_node a m3) (\<lambda>m4. cJSON_Delete (n_next nd) m4)))))))"

text \<open>\<open>while (c && c->next) c = c->next\<close>, and \<open>while (c && which > 0) c = c->next, which--\<close>.\<close>

partial_function (option) walk_last :: "nat \<Rightarrow> 'd jmem \<Rightarrow> nat io" where
  "walk_last c m = io_bind (get_node c m) (\<lambda>nd. case n_next nd of None \<Rightarrow> io_return c | Some q \<Rightarrow> walk_last q m)"

fun walk_nth :: "nat option \<Rightarrow> nat \<Rightarrow> 'd jmem \<Rightarrow> nat option io" where
  "walk_nth c 0 m = io_return c"
| "walk_nth None (Suc which) m = io_return None"
| "walk_nth (Some c) (Suc which) m = io_bind (get_node c m) (\<lambda>nd. walk_nth (n_next nd) which m)"

definition suffix_object :: "nat \<Rightarrow> nat \<Rightarrow> 'd jmem \<Rightarrow> 'd jmem io" where
  "suffix_object prev item m =
     io_bind (put_node prev (\<lambda>nd. nd\<lparr>n_next := Some item\<rparr>) m) (\<lambda>m1. put_node item (\<lambda>nd. nd\<lparr>n_prev := Some prev\<rparr>) m1)"

text \<open>The operations of \<open>EslJson\<close>, on the memory.\<close>

definition AddItemToArray :: "nat \<Rightarrow> nat option \<Rightarrow> 'd jmem \<Rightarrow> 'd jmem io" where
  "AddItemToArray array item m =
     io_bind (get_node array m) (\<lambda>nd.
       case item of
         None \<Rightarrow> io_return m
       | Some i \<Rightarrow>
           (case n_child nd of
              None \<Rightarrow> put_node array (\<lambda>nd. nd\<lparr>n_child := Some i\<rparr>) m
            | Some c \<Rightarrow> io_bind (walk_last c m) (\<lambda>l. suffix_object l i m)))"

definition AddItemToObject :: "allocator \<Rightarrow> nat \<Rightarrow> string option \<Rightarrow> nat option \<Rightarrow> 'd jmem \<Rightarrow> 'd jmem io" where
  "AddItemToObject A object name item m =
     (case item of
        None \<Rightarrow> io_return m
      | Some i \<Rightarrow>
          io_bind (get_node i m) (\<lambda>nd.
          io_bind (free_text (n_string nd) m) (\<lambda>m1.
          case cJSON_strdup A name m1 of
            (s, m2) \<Rightarrow> io_bind (put_node i (\<lambda>nd. nd\<lparr>n_string := s\<rparr>) m2) (\<lambda>m3. AddItemToArray object (Some i) m3))))"

definition create_reference :: "allocator \<Rightarrow> nat \<Rightarrow> 'd jmem \<Rightarrow> (nat option \<times> 'd jmem) io" where
  "create_reference A item m =
     (if malloc_ok A NODE_SIZE
      then io_bind (get_node item m) (\<lambda>nd.
             io_return (New_node A (nd\<lparr>n_string := None, n_isref := True, n_next := None, n_prev := None\<rparr>) m))
      else io_return (None, m))"

definition cJSON_AddItemReferenceToArray :: "allocator \<Rightarrow> nat \<Rightarrow> nat \<Rightarrow> 'd jmem \<Rightarrow> 'd jmem io" where
  "cJSON_AddItemReferenceToArray A array item m =
     io_bind (create_reference A item m) (\<lambda>(r, m1). AddItemToArray array r m1)"

definition cJSON_AddItemReferenceToObject :: "allocator \<Rightarrow> nat \<Rightarrow> string option \<Rightarrow> nat \<Rightarrow> 'd jmem \<Rightarrow> 'd jmem io" where
  "cJSON_AddItemReferenceToObject A object name item m =
     io_bind (create_reference A item m) (\<lambda>(r, m1). AddItemToObject A object name r m1)"

text \<open>What is read before a store is read again behind it, as in the code.\<close>

definition DetachItemFromArray :: "nat \<Rightarrow> int \<Rightarrow> 'd jmem \<Rightarrow> (nat option \<times> 'd jmem) io" where
  "DetachItemFromArray array which m =
     io_bind (get_node array m) (\<lambda>nd.
     io_bind (walk_nth (n_child nd) (nat which) m) (\<lambda>c.
       case c of
         None \<Rightarrow> io_return (None, m)
       | Some a \<Rightarrow>
           io_bind (get_node a m) (\<lambda>c0.
           io_bind (case n_prev c0 of None \<Rightarrow> io_return m | Some p \<Rightarrow> put_node p (\<lambda>nd. nd\<lparr>n_next := n_next c0\<rparr>) m) (\<lambda>m1.
           io_bind (get_node a m1) (\<lambda>c1.
           io_bind (case n_next c1 of None \<Rightarrow> io_return m1 | Some q \<Rightarrow> put_node q (\<lambda>nd. nd\<lparr>n_prev := n_prev c1\<rparr>) m1) (\<lambda>m2.
           io_bind (get_node array m2) (\<lambda>nd2.
           io_bind (get_node a m2) (\<lambda>c2.
           io_bind (if n_child nd2 = Some a then put_node array (\<lambda>nd. nd\<lparr>n_child := n_next c2\<rparr>) m2 else io_return m2) (\<lambda>m3.
           io_bind (put_node a (\<lambda>nd. nd\<lparr>n_prev := None, n_next := None\<rparr>) m3) (\<lambda>m4. io_return (Some a, m4)))))))))))"

definition DeleteItemFromArray :: "nat \<Rightarrow> int \<Rightarrow> 'd jmem \<Rightarrow> 'd jmem io" where
  "DeleteItemFromArray array which m = io_bind (DetachItemFromArray array which m) (\<lambda>(c, m1). cJSON_Delete c m1)"

definition ReplaceItemInArray :: "nat \<Rightarrow> int \<Rightarrow> nat \<Rightarrow> 'd jmem \<Rightarrow> 'd jmem io" where
  "ReplaceItemInArray array which newitem m =
     io_bind (get_node array m) (\<lambda>nd.
     io_bind (walk_nth (n_child nd) (nat which) m) (\<lambda>c.
       case c of
         None \<Rightarrow> io_return m
       | Some a \<Rightarrow>
           io_bind (get_node a m) (\<lambda>c0.
           io_bind (put_node newitem (\<lambda>nd. nd\<lparr>n_next := n_next c0, n_prev := n_prev c0\<rparr>) m) (\<lambda>m1.
           io_bind (get_node newitem m1) (\<lambda>i1.
           io_bind (case n_next i1 of None \<Rightarrow> io_return m1 | Some q \<Rightarrow> put_node q (\<lambda>nd. nd\<lparr>n_prev := Some newitem\<rparr>) m1) (\<lambda>m2.
           io_bind (get_node array m2) (\<lambda>nd2.
           io_bind (get_node newitem m2) (\<lambda>i2.
           io_bind (if n_child nd2 = Some a then put_node array (\<lambda>nd. nd\<lparr>n_child := Some newitem\<rparr>) m2
                    else case n_prev i2 of
                           None \<Rightarrow> Some (Inl NullPointer)
                         | Some p \<Rightarrow> put_node p (\<lambda>nd. nd\<lparr>n_next := Some newitem\<rparr>) m2) (\<lambda>m3.
           io_bind (put_node a (\<lambda>nd. nd\<lparr>n_next := None, n_prev := None\<rparr>) m3) (\<lambda>m4. cJSON_Delete (Some a) m4))))))))))"

definition read_text :: "nat option \<Rightarrow> 'd jmem \<Rightarrow> string option io" where
  "read_text p m =
     (case p of
        None \<Rightarrow> io_return None
      | Some a \<Rightarrow> (case jm_strs m a of None \<Rightarrow> Some (Inl OutOfBounds) | Some s \<Rightarrow> io_return (Some s)))"

text \<open>The search of a name along the chain, which counts the items it passes.\<close>

partial_function (option) walk_name :: "string option \<Rightarrow> nat option \<Rightarrow> nat \<Rightarrow> 'd jmem \<Rightarrow> nat option io" where
  "walk_name name c i m =
     (case c of
        None \<Rightarrow> io_return None
      | Some a \<Rightarrow>
          io_bind (get_node a m) (\<lambda>nd.
          io_bind (read_text (n_string nd) m) (\<lambda>s.
            if cJSON_strcasecmp_eq s name then io_return (Some i) else walk_name name (n_next nd) (i + 1) m)))"

definition DetachItemFromObject :: "nat \<Rightarrow> string option \<Rightarrow> 'd jmem \<Rightarrow> (nat option \<times> 'd jmem) io" where
  "DetachItemFromObject object name m =
     io_bind (get_node object m) (\<lambda>nd.
     io_bind (walk_name name (n_child nd) 0 m) (\<lambda>r.
       case r of None \<Rightarrow> io_return (None, m) | Some i \<Rightarrow> DetachItemFromArray object (int i) m))"

definition DeleteItemFromObject :: "nat \<Rightarrow> string option \<Rightarrow> 'd jmem \<Rightarrow> 'd jmem io" where
  "DeleteItemFromObject object name m = io_bind (DetachItemFromObject object name m) (\<lambda>(c, m1). cJSON_Delete c m1)"

definition ReplaceItemInObject :: "allocator \<Rightarrow> nat \<Rightarrow> string \<Rightarrow> nat \<Rightarrow> 'd jmem \<Rightarrow> 'd jmem io" where
  "ReplaceItemInObject A object name newitem m =
     io_bind (get_node object m) (\<lambda>nd.
     io_bind (walk_name (Some name) (n_child nd) 0 m) (\<lambda>r.
       case r of
         None \<Rightarrow> io_return m
       | Some i \<Rightarrow>
           (case cJSON_strdup A (Some name) m of
              (s, m1) \<Rightarrow> io_bind (put_node newitem (\<lambda>nd. nd\<lparr>n_string := s\<rparr>) m1) (\<lambda>m2.
                           ReplaceItemInArray object (int i) newitem m2))))"

text \<open>The items that are created: \<open>cJSON_CreateString\<close>, and the others, of a given type and number.\<close>

definition CreateItem :: "allocator \<Rightarrow> 'd double_ops \<Rightarrow> json_type \<Rightarrow> int \<Rightarrow> 'd \<Rightarrow> 'd jmem \<Rightarrow> nat option \<times> 'd jmem" where
  "CreateItem A F ty i d m = New_node A ((zero_node F)\<lparr>n_type := ty, n_valueint := i, n_valuedouble := d\<rparr>) m"

definition CreateString :: "allocator \<Rightarrow> 'd double_ops \<Rightarrow> string option \<Rightarrow> 'd jmem \<Rightarrow> (nat option \<times> 'd jmem) io" where
  "CreateString A F str m =
     (case New_node A ((zero_node F)\<lparr>n_type := JString\<rparr>) m of
        (None, m1) \<Rightarrow> io_return (None, m1)
      | (Some a, m1) \<Rightarrow>
          (case cJSON_strdup A str m1 of
             (s, m2) \<Rightarrow> io_bind (put_node a (\<lambda>nd. nd\<lparr>n_valuestring := s\<rparr>) m2) (\<lambda>m3. io_return (Some a, m3))))"

section \<open>What the memory holds\<close>

text \<open>
  A map holds exactly the entries of a multiset. The sum of two multisets says that the parts of the memory they
  describe are apart.
\<close>

definition heap_of :: "('a \<Rightarrow> 'b option) \<Rightarrow> ('a \<times> 'b) multiset \<Rightarrow> bool" where
  "heap_of H M \<longleftrightarrow> finite (dom H) \<and> M = mset_set (Map.graph H)"

lemma finite_graph [simp]: "finite (Map.graph H) \<longleftrightarrow> finite (dom H)"
  by (metis finite_graph_iff_finite_dom)

lemma heap_find: "heap_of H (add_mset (a, v) M) \<Longrightarrow> H a = Some v"
proof -
  assume "heap_of H (add_mset (a, v) M)"
  then have "(a, v) \<in># mset_set (Map.graph H)" "finite (dom H)" unfolding heap_of_def by (metis union_single_eq_member)+
  then show ?thesis by (simp add: in_graphD)
qed

lemma heap_empty: "heap_of Map.empty {#}"
  by (simp add: heap_of_def)

lemma heap_new:
  assumes "heap_of H M" "H a = None"
  shows "heap_of (H(a := Some v)) (add_mset (a, v) M)"
proof -
  note h = assms
  have "Map.graph (H(a := Some v)) = insert (a, v) (Map.graph H)" "(a, v) \<notin> Map.graph H" using h by (auto simp: graph_def split: if_splits)
  moreover have "finite (Map.graph H)" using h(1) by (simp add: heap_of_def)
  ultimately show ?thesis using h(1) by (simp add: heap_of_def)
qed

lemma heap_free:
  assumes "heap_of H (add_mset (a, v) M)"
  shows "heap_of (H(a := None)) M"
proof -
  have H: "H a = Some v" by (rule heap_find [OF assms])
  have f: "finite (dom H)" "add_mset (a, v) M = mset_set (Map.graph H)" using assms by (auto simp: heap_of_def)
  have "Map.graph (H(a := None)) = Map.graph H - {(a, v)}" using H by (auto simp: graph_def split: if_splits)
  moreover have "(a, v) \<in> Map.graph H" using H by (simp add: in_graphI)
  ultimately show ?thesis
    using f by (simp add: heap_of_def mset_set_Diff) (metis add_mset_remove_trivial)
qed

lemma heap_put: "heap_of H (add_mset (a, v) M) \<Longrightarrow> heap_of (H(a := Some w)) (add_mset (a, w) M)"
  using heap_new [OF heap_free, of H a v M a w] by simp

lemma heap_none:
  assumes "heap_of H {#}"
  shows "H = Map.empty"
proof -
  have "Map.graph H = {}" by (metis assms finite_graph heap_of_def mset_set_empty_iff)
  then show ?thesis by (auto simp: graph_def)
qed

text \<open>Everything lies below the next address.\<close>

definition holds :: "'d jmem \<Rightarrow> (nat \<times> 'd jnode) multiset \<Rightarrow> (nat \<times> string) multiset \<Rightarrow> bool" where
  "holds m N T \<longleftrightarrow> heap_of (jm_nodes m) N \<and> heap_of (jm_strs m) T \<and> (\<forall>a \<ge> jm_top m. jm_nodes m a = None \<and> jm_strs m a = None)"

text \<open>A call returns and leaves this behind; \<open>gives\<close> also says what it answers.\<close>

definition leaves :: "'d jmem io \<Rightarrow> (nat \<times> 'd jnode) multiset \<Rightarrow> (nat \<times> string) multiset \<Rightarrow> bool" where
  "leaves r N T \<longleftrightarrow> (\<exists>m. r = io_return m \<and> holds m N T)"

definition gives :: "('x \<times> 'd jmem) io \<Rightarrow> 'x \<Rightarrow> (nat \<times> 'd jnode) multiset \<Rightarrow> (nat \<times> string) multiset \<Rightarrow> bool" where
  "gives r x N T \<longleftrightarrow> (\<exists>m. r = io_return (x, m) \<and> holds m N T)"

lemma leaves_return: "holds m N T \<Longrightarrow> leaves (io_return m) N T"
  by (auto simp: leaves_def)

lemma leaves_bind: "leaves r N T \<Longrightarrow> (\<And>m. holds m N T \<Longrightarrow> leaves (f m) N' T') \<Longrightarrow> leaves (io_bind r f) N' T'"
  by (auto simp: leaves_def io_bind_simps)

lemma gives_bind: "leaves r N T \<Longrightarrow> (\<And>m. holds m N T \<Longrightarrow> gives (f m) x N' T') \<Longrightarrow> gives (io_bind r f) x N' T'"
  by (auto simp: leaves_def gives_def io_bind_simps)

lemma gives_then: "gives r x N T \<Longrightarrow> (\<And>m. holds m N T \<Longrightarrow> leaves (f (x, m)) N' T') \<Longrightarrow> leaves (io_bind r f) N' T'"
  by (auto simp: leaves_def gives_def io_bind_simps)

lemma get_held: "holds m (add_mset (a, nd) N) T \<Longrightarrow> get_node a m = io_return nd"
  using heap_find [of "jm_nodes m" a nd N] by (simp add: holds_def get_node_def)

lemma put_held: "holds m (add_mset (a, nd) N) T \<Longrightarrow> leaves (put_node a f m) (add_mset (a, f nd) N) T"
  using heap_put [of "jm_nodes m" a nd N "f nd"] heap_find [of "jm_nodes m" a nd N]
  by (auto simp: holds_def get_node_def put_node_def leaves_def)

lemma free_node_held: "holds m (add_mset (a, nd) N) T \<Longrightarrow> leaves (free_node a m) N T"
  using heap_free [of "jm_nodes m" a nd N] heap_find [of "jm_nodes m" a nd N]
  by (auto simp: holds_def get_node_def free_node_def leaves_def)

definition opt_mset :: "'x option \<Rightarrow> 'x multiset" where
  "opt_mset p = (case p of None \<Rightarrow> {#} | Some x \<Rightarrow> {#x#})"

lemma opt_mset_simps [simp]: "opt_mset None = {#}" "opt_mset (Some x) = {#x#}"
  by (simp_all add: opt_mset_def)

lemma free_text_held: "holds m N (opt_mset p + T) \<Longrightarrow> leaves (free_text (map_option fst p) m) N T"
proof (cases p)
  case (Some x)
  assume "holds m N (opt_mset p + T)"
  then show ?thesis
    using heap_free [of "jm_strs m" "fst x" "snd x" T] heap_find [of "jm_strs m" "fst x" "snd x" T] Some
    by (auto simp: holds_def free_text_def leaves_def)
qed (simp add: free_text_def leaves_return)

section \<open>Items in the memory\<close>

text \<open>
  An item that owns its strings and its children, and one that only refers to those of another. The strings come
  with their addresses.
\<close>

datatype 'd shape =
    Own (sh_at: nat) (sh_name: "(nat \<times> string) option") json_type "(nat \<times> string) option" int 'd "'d shape list"
  | Alias (sh_at: nat) (sh_name: "(nat \<times> string) option") json_type "nat option" int 'd "nat option"

definition first_at :: "'d shape list \<Rightarrow> nat option \<Rightarrow> nat option" where
  "first_at ss q = (case ss of [] \<Rightarrow> q | s # _ \<Rightarrow> Some (sh_at s))"

definition last_at :: "nat option \<Rightarrow> 'd shape list \<Rightarrow> nat option" where
  "last_at p ss = (if ss = [] then p else Some (sh_at (last ss)))"

lemma first_at_simps [simp]: "first_at [] q = q" "first_at (s # ss) q = Some (sh_at s)"
  by (simp_all add: first_at_def)

lemma first_at_append [simp]: "first_at (xs @ ys) q = first_at xs (first_at ys q)"
  by (cases xs) simp_all

lemma last_at_simps [simp]: "last_at p [] = p" "last_at p (s # ss) = last_at (Some (sh_at s)) ss"
  by (simp_all add: last_at_def)

lemma last_at_snoc [simp]: "last_at p (ss @ [s]) = Some (sh_at s)"
  by (simp add: last_at_def)

text \<open>The block of an item between its neighbours, the blocks of a chain, and its strings.\<close>

fun node_of :: "'d shape \<Rightarrow> nat option \<Rightarrow> nat option \<Rightarrow> 'd jnode" where
  "node_of (Own a n ty v i d ks) p q =
     \<lparr>n_next = q, n_prev = p, n_child = first_at ks None, n_type = ty, n_isref = False, n_valuestring = map_option fst v,
      n_valueint = i, n_valuedouble = d, n_string = map_option fst n\<rparr>"
| "node_of (Alias a n ty v i d c) p q =
     \<lparr>n_next = q, n_prev = p, n_child = c, n_type = ty, n_isref = True, n_valuestring = v,
      n_valueint = i, n_valuedouble = d, n_string = map_option fst n\<rparr>"

fun cells :: "nat option \<Rightarrow> 'd shape list \<Rightarrow> nat option \<Rightarrow> (nat \<times> 'd jnode) multiset" where
  "cells p [] q = {#}"
| "cells p (Own a n ty v i d ks # ss) q =
     add_mset (a, node_of (Own a n ty v i d ks) p (first_at ss q)) (cells None ks None + cells (Some a) ss q)"
| "cells p (Alias a n ty v i d c # ss) q =
     add_mset (a, node_of (Alias a n ty v i d c) p (first_at ss q)) (cells (Some a) ss q)"

fun texts :: "'d shape list \<Rightarrow> (nat \<times> string) multiset" where
  "texts [] = {#}"
| "texts (Own a n ty v i d ks # ss) = opt_mset n + opt_mset v + texts ks + texts ss"
| "texts (Alias a n ty v i d c # ss) = opt_mset n + texts ss"

text \<open>What hangs below an item, and its own strings.\<close>

fun inner :: "'d shape \<Rightarrow> (nat \<times> 'd jnode) multiset" where
  "inner (Own a n ty v i d ks) = cells None ks None"
| "inner (Alias a n ty v i d c) = {#}"

lemma cells_Cons: "cells p (s # ss) q = add_mset (sh_at s, node_of s p (first_at ss q)) (inner s + cells (Some (sh_at s)) ss q)"
  by (cases s) simp_all

lemma cells_append: "cells p (xs @ ys) q = cells p xs (first_at ys q) + cells (last_at p xs) ys q"
  by (induction xs arbitrary: p) (simp_all add: cells_Cons)

lemma texts_append: "texts (xs @ ys) = texts xs + texts ys"
  by (induction xs rule: texts.induct) simp_all

lemma texts_Cons: "texts (s # ss) = texts [s] + texts ss"
  using texts_append [of "[s]" ss] by simp

lemma node_of_links [simp]:
  "n_next (node_of s p q) = q" "n_prev (node_of s p q) = p"
  "(node_of s p q)\<lparr>n_next := q'\<rparr> = node_of s p q'" "(node_of s p q)\<lparr>n_prev := p'\<rparr> = node_of s p' q"
  "n_string (node_of s p q) = map_option fst (sh_name s)"
  by (cases s; simp)+

declare cJSON_Delete.simps [code] walk_last.simps [code] walk_name.simps [code]

text \<open>Deleting one item, when its children are gone.\<close>

lemma delete_step:
  assumes "get_node a m = io_return nd"
    and "leaves (if \<not> n_isref nd \<and> n_child nd \<noteq> None then cJSON_Delete (n_child nd) m else io_return m)
      (add_mset (a, nd) N1) (opt_mset v + (opt_mset n + T1))"
    and "if n_isref nd then v = None else n_valuestring nd = map_option fst v" "n_string nd = map_option fst n"
    and "\<And>m'. holds m' N1 T1 \<Longrightarrow> leaves (cJSON_Delete (n_next nd) m') N T"
  shows "leaves (cJSON_Delete (Some a) m) N T"
proof -
  have "leaves (io_bind (get_node a m1) (\<lambda>nd1.
          io_bind (if \<not> n_isref nd1 then free_text (n_valuestring nd1) m1 else io_return m1) (\<lambda>m2.
          io_bind (free_text (n_string nd1) m2) (\<lambda>m3.
          io_bind (free_node a m3) (\<lambda>m4. cJSON_Delete (n_next nd) m4))))) N T"
    if m1: "holds m1 (add_mset (a, nd) N1) (opt_mset v + (opt_mset n + T1))" for m1
  proof -
    have "leaves (if \<not> n_isref nd then free_text (n_valuestring nd) m1 else io_return m1) (add_mset (a, nd) N1) (opt_mset n + T1)"
      using free_text_held [OF m1] m1 assms(3) by (auto simp: leaves_return)
    moreover have "leaves (io_bind (free_text (n_string nd) m2) (\<lambda>m3. io_bind (free_node a m3) (\<lambda>m4. cJSON_Delete (n_next nd) m4))) N T"
      if "holds m2 (add_mset (a, nd) N1) (opt_mset n + T1)" for m2
      unfolding assms(4) by (rule leaves_bind [OF free_text_held [OF that]], rule leaves_bind [OF free_node_held], assumption, rule assms(5))
    ultimately show ?thesis by (simp add: get_held [OF m1] leaves_bind)
  qed
  then show ?thesis
    by (subst cJSON_Delete.simps) (simp only: option.case assms(1) io_bind_simps, rule leaves_bind [OF assms(2)])
qed

text \<open>Deleting a chain frees all that belongs to it, each block once, and nothing else.\<close>

lemma delete_held:
  "holds m (cells p ss None + N) (texts ss + T) \<Longrightarrow> leaves (cJSON_Delete (first_at ss None) m) N T"
proof (induction p ss "None :: nat option" arbitrary: m N T rule: cells.induct)
  case (1 p)
  then show ?case by (simp add: cJSON_Delete.simps leaves_return)
next
  case (2 p a n ty v i d ks ss)
  let ?nd = "node_of (Own a n ty v i d ks) p (first_at ss None)"
  let ?N = "cells (Some a) ss None + N" and ?T = "texts ss + T"
  have 0: "holds m (add_mset (a, ?nd) (cells None ks None + ?N)) (texts ks + (opt_mset v + (opt_mset n + ?T)))"
    using "2.prems" by (simp add: ac_simps)
  have "leaves (if \<not> n_isref ?nd \<and> n_child ?nd \<noteq> None then cJSON_Delete (n_child ?nd) m else io_return m)
      (add_mset (a, ?nd) ?N) (opt_mset v + (opt_mset n + ?T))"
  proof (cases "ks = []")
    case False
    have "leaves (cJSON_Delete (first_at ks None) m) (add_mset (a, ?nd) ?N) (opt_mset v + (opt_mset n + ?T))"
      using 0 by (intro "2.hyps"(1)) (simp add: ac_simps)
    then show ?thesis using False by (cases ks) simp_all
  qed (use 0 in \<open>simp add: leaves_return\<close>)
  then show ?case
    unfolding first_at_simps shape.sel
    by (intro delete_step [OF get_held [OF 0]]) (auto intro: "2.hyps"(2))
next
  case (3 p a n ty v i d c ss)
  let ?nd = "node_of (Alias a n ty v i d c) p (first_at ss None)"
  have 0: "holds m (add_mset (a, ?nd) (cells (Some a) ss None + N)) (opt_mset None + (opt_mset n + (texts ss + T)))"
    using "3.prems" by (simp add: ac_simps)
  then show ?case
    unfolding first_at_simps shape.sel
    by (intro delete_step [OF get_held [OF 0]]) (auto simp: leaves_return intro: "3.hyps")
qed

section \<open>Operations on a chain\<close>

lemma holds_apart: "holds m (add_mset (a, v) (add_mset (b, w) N)) T \<Longrightarrow> a \<noteq> b"
proof
  assume h: "holds m (add_mset (a, v) (add_mset (b, w) N)) T" and "a = b"
  then have "heap_of ((jm_nodes m)(a := None)) (add_mset (a, w) N)" by (auto simp: holds_def intro: heap_free)
  from heap_find [OF this] show False by simp
qed

lemma holds_perm: "holds m N T \<Longrightarrow> N' = N \<Longrightarrow> T' = T \<Longrightarrow> holds m N' T'"
  by simp

lemma leaves_perm: "leaves r N T \<Longrightarrow> N' = N \<Longrightarrow> T' = T \<Longrightarrow> leaves r N' T'"
  by simp

lemma gives_perm: "gives r x N T \<Longrightarrow> N' = N \<Longrightarrow> T' = T \<Longrightarrow> gives r x N' T'"
  by simp

lemma cells_snoc: "cells p (xs @ [s]) q = cells p xs (Some (sh_at s)) + add_mset (sh_at s, node_of s (last_at p xs) q) (inner s)"
  by (simp add: cells_append cells_Cons)

lemma cells_at: "cells p (xs @ s # ys) q =
    add_mset (sh_at s, node_of s (last_at p xs) (first_at ys q)) (inner s + (cells p xs (Some (sh_at s)) + cells (Some (sh_at s)) ys q))"
  by (simp add: cells_append cells_Cons ac_simps)

lemma walk_last_held: "holds m (cells p (s # ss) None + N) T \<Longrightarrow> walk_last (sh_at s) m = io_return (sh_at (last (s # ss)))"
proof (induction ss arbitrary: p s N)
  case Nil
  then show ?case by (subst walk_last.simps) (simp add: cells_Cons get_held)
next
  case (Cons s' ss)
  have "holds m (cells (Some (sh_at s)) (s' # ss) None + (add_mset (sh_at s, node_of s p (Some (sh_at s'))) (inner s + N))) T"
    using Cons.prems by (rule holds_perm) (simp_all add: cells_Cons ac_simps)
  from Cons.IH [OF this] show ?case
    using Cons.prems by (subst walk_last.simps) (simp add: cells_Cons get_held)
qed

lemma walk_nth_held: "holds m (cells p ss None + N) T \<Longrightarrow> walk_nth (first_at ss None) k m = io_return (first_at (drop k ss) None)"
proof (induction k arbitrary: p ss N)
  case (Suc k)
  show ?case
  proof (cases ss)
    case (Cons s ss')
    have "holds m (cells (Some (sh_at s)) ss' None + (add_mset (sh_at s, node_of s p (first_at ss' None)) (inner s + N))) T"
      using Suc.prems by (rule holds_perm) (simp_all add: Cons cells_Cons ac_simps)
    from Suc.IH [OF this] show ?thesis
      using Suc.prems by (simp add: Cons cells_Cons get_held)
  qed simp
qed simp

lemma chain_apart: "holds m (cells p (k # ks) q + (add_mset (b, w) N)) T \<Longrightarrow> sh_at k \<noteq> b"
  by (erule holds_apart [OF holds_perm, OF _ _ refl]) (simp add: cells_Cons add_mset_commute [of "(sh_at k, _)"] ac_simps)

text \<open>Setting the links of the neighbours of a place in the chain.\<close>

lemma relink_prev:
  assumes "holds m (cells None xs q + N) T"
  shows "leaves (case last_at None xs of None \<Rightarrow> io_return m | Some p \<Rightarrow> put_node p (\<lambda>nd. nd\<lparr>n_next := q'\<rparr>) m) (cells None xs q' + N) T"
proof (cases xs rule: rev_cases)
  case (snoc ys l)
  have "holds m (add_mset (sh_at l, node_of l (last_at None ys) q) (inner l + (cells None ys (Some (sh_at l)) + N))) T"
    using assms by (rule holds_perm) (simp_all add: snoc cells_snoc ac_simps)
  from put_held [OF this, of "\<lambda>nd. nd\<lparr>n_next := q'\<rparr>"] show ?thesis
    by (simp add: snoc) (erule leaves_perm, simp_all add: cells_snoc ac_simps)
qed (use assms in \<open>simp add: leaves_return\<close>)

lemma relink_next:
  assumes "holds m (cells p ys None + N) T"
  shows "leaves (case first_at ys None of None \<Rightarrow> io_return m | Some q \<Rightarrow> put_node q (\<lambda>nd. nd\<lparr>n_prev := p'\<rparr>) m) (cells p' ys None + N) T"
proof (cases ys)
  case (Cons s ys')
  have "holds m (add_mset (sh_at s, node_of s p (first_at ys' None)) (inner s + (cells (Some (sh_at s)) ys' None + N))) T"
    using assms by (rule holds_perm) (simp_all add: Cons cells_Cons ac_simps)
  from put_held [OF this, of "\<lambda>nd. nd\<lparr>n_prev := p'\<rparr>"] show ?thesis
    by (simp add: Cons) (erule leaves_perm, simp_all add: cells_Cons ac_simps)
qed (use assms in \<open>simp add: leaves_return\<close>)

lemma same_child [simp]: "n_child nd = c \<Longrightarrow> nd\<lparr>n_child := c\<rparr> = nd"
  by auto

lemma add_held:
  assumes "holds m (add_mset (x, nd) (cells None ks None + (cells None [t] None + N))) T" "n_child nd = first_at ks None"
  shows "leaves (AddItemToArray x (Some (sh_at t)) m)
    (add_mset (x, nd\<lparr>n_child := first_at (ks @ [t]) None\<rparr>) (cells None (ks @ [t]) None + N)) T"
proof (cases ks)
  case Nil
  then show ?thesis
    using put_held [of m x nd _ T "\<lambda>nd. nd\<lparr>n_child := Some (sh_at t)\<rparr>"] assms
    by (simp add: AddItemToArray_def get_held [OF assms(1)])
next
  case (Cons k ks')
  have h: "holds m (cells None ks None + (add_mset (x, nd) (cells None [t] None + N))) T"
    using assms(1) by (rule holds_perm) (simp_all add: ac_simps)
  define l where "l = sh_at (last ks)"
  have l: "last_at None ks = Some l" by (simp add: l_def last_at_def Cons)
  have "leaves (put_node l (\<lambda>nd. nd\<lparr>n_next := Some (sh_at t)\<rparr>) m)
      (cells None ks (Some (sh_at t)) + (add_mset (x, nd) (cells None [t] None + N))) T"
    using relink_prev [OF h, of "Some (sh_at t)"] l by simp
  then have "leaves (suffix_object l (sh_at t) m) (add_mset (x, nd) (cells None (ks @ [t]) None + N)) T"
    unfolding suffix_object_def
  proof (rule leaves_bind)
    fix m1 assume h1: "holds m1 (cells None ks (Some (sh_at t)) + (add_mset (x, nd) (cells None [t] None + N))) T"
    have "holds m1 (cells None [t] None + (add_mset (x, nd) (cells None ks (Some (sh_at t)) + N))) T"
      using h1 by (rule holds_perm) (simp_all add: ac_simps)
    from relink_next [OF this, of "Some l"]
    have "leaves (put_node (sh_at t) (\<lambda>nd. nd\<lparr>n_prev := Some l\<rparr>) m1)
        (cells (Some l) [t] None + (add_mset (x, nd) (cells None ks (Some (sh_at t)) + N))) T" by simp
    then show "leaves (put_node (sh_at t) (\<lambda>nd. nd\<lparr>n_prev := Some l\<rparr>) m1) (add_mset (x, nd) (cells None (ks @ [t]) None + N)) T"
      by (rule leaves_perm) (simp_all add: cells_append l ac_simps)
  qed
  moreover have "nd\<lparr>n_child := first_at (ks @ [t]) None\<rparr> = nd" using assms(2) by (simp add: Cons)
  moreover have "walk_last (sh_at k) m = io_return l"
    unfolding l_def Cons by (rule walk_last_held [OF h [unfolded Cons]])
  ultimately show ?thesis
    using assms(2) by (simp add: AddItemToArray_def get_held [OF assms(1)] Cons)
qed

text \<open>Taking an item out of the chain.\<close>

lemma detach_held:
  assumes "holds m (add_mset (x, nd) (cells None (xs @ s # ys) None + N)) T" "n_child nd = first_at (xs @ s # ys) None"
    and "nat which = length xs"
  shows "gives (DetachItemFromArray x which m) (Some (sh_at s))
    (add_mset (x, nd\<lparr>n_child := first_at (xs @ ys) None\<rparr>) (cells None (xs @ ys) None + (cells None [s] None + N))) T"
proof -
  let ?a = "sh_at s" and ?p = "last_at None xs" and ?q = "first_at ys None"
  have chain: "holds m (cells None (xs @ s # ys) None + (add_mset (x, nd) N)) T"
    using assms(1) by (rule holds_perm) (simp_all add: ac_simps)
  have c: "walk_nth (n_child nd) (nat which) m = io_return (Some ?a)"
    using walk_nth_held [OF chain, of "length xs"] assms(2,3) by simp
  let ?R = "add_mset (x, nd) (inner s + N)"
  have 0: "holds m (add_mset (?a, node_of s ?p ?q) (cells None xs (Some ?a) + (cells (Some ?a) ys None + ?R))) T"
    using assms(1) by (rule holds_perm) (simp_all add: cells_at ac_simps)
  have 1: "leaves (case ?p of None \<Rightarrow> io_return m | Some p \<Rightarrow> put_node p (\<lambda>nd. nd\<lparr>n_next := ?q\<rparr>) m)
      (cells None xs ?q + (add_mset (?a, node_of s ?p ?q) (cells (Some ?a) ys None + ?R))) T"
    by (rule relink_prev, rule holds_perm [OF 0]) (simp_all add: ac_simps)
  have 2: "leaves (case ?q of None \<Rightarrow> io_return m1 | Some q \<Rightarrow> put_node q (\<lambda>nd. nd\<lparr>n_prev := ?p\<rparr>) m1)
      (cells ?p ys None + (cells None xs ?q + (add_mset (?a, node_of s ?p ?q) ?R))) T"
    if "holds m1 (cells None xs ?q + (add_mset (?a, node_of s ?p ?q) (cells (Some ?a) ys None + ?R))) T" for m1
    by (rule relink_next, rule holds_perm [OF that]) (simp_all add: ac_simps)
  let ?new = "nd\<lparr>n_child := first_at (xs @ ys) None\<rparr>"
  have 3: "leaves (if n_child nd = Some ?a then put_node x (\<lambda>nd. nd\<lparr>n_child := ?q\<rparr>) m2 else io_return m2)
      (add_mset (x, ?new) (cells ?p ys None + (cells None xs ?q + (add_mset (?a, node_of s ?p ?q) (inner s + N))))) T"
    if "holds m2 (cells ?p ys None + (cells None xs ?q + (add_mset (?a, node_of s ?p ?q) ?R))) T" for m2
  proof -
    have h: "holds m2 (add_mset (x, nd) (cells ?p ys None + (cells None xs ?q + (add_mset (?a, node_of s ?p ?q) (inner s + N))))) T"
      using that by (rule holds_perm) (simp_all add: ac_simps)
    show ?thesis
    proof (cases xs)
      case Nil
      then show ?thesis using put_held [OF h, of "\<lambda>nd. nd\<lparr>n_child := ?q\<rparr>"] assms(2) by simp
    next
      case (Cons k ks)
      have "holds m2 (cells None (k # ks) ?q + (add_mset (?a, node_of s ?p ?q) (cells ?p ys None + ?R))) T"
        using that by (rule holds_perm) (simp_all add: Cons ac_simps)
      note chain_apart [OF this]
      moreover have "?new = nd" using assms(2) by (simp add: Cons)
      ultimately show ?thesis using h assms(2) by (simp add: Cons leaves_return)
    qed
  qed
  have 4: "leaves (put_node ?a (\<lambda>nd. nd\<lparr>n_prev := None, n_next := None\<rparr>) m3)
      (add_mset (x, ?new) (cells None (xs @ ys) None + (cells None [s] None + N))) T"
    if "holds m3 (add_mset (x, ?new) (cells ?p ys None + (cells None xs ?q + (add_mset (?a, node_of s ?p ?q) (inner s + N))))) T" for m3
  proof -
    have "holds m3 (add_mset (?a, node_of s ?p ?q) (add_mset (x, ?new) (cells ?p ys None + (cells None xs ?q + (inner s + N))))) T"
      using that by (rule holds_perm) (simp_all add: ac_simps)
    from put_held [OF this, of "\<lambda>nd. nd\<lparr>n_prev := None, n_next := None\<rparr>"] show ?thesis
      by simp (erule leaves_perm, simp_all add: cells_append cells_Cons ac_simps)
  qed
  have g1: "get_node ?a m1 = io_return (node_of s ?p ?q)"
    if "holds m1 (cells None xs ?q + (add_mset (?a, node_of s ?p ?q) (cells (Some ?a) ys None + ?R))) T" for m1
    by (rule get_held, rule holds_perm [OF that]) (simp_all add: ac_simps)
  have g2: "get_node ?a m2 = io_return (node_of s ?p ?q)" "get_node x m2 = io_return nd"
    if "holds m2 (cells ?p ys None + (cells None xs ?q + (add_mset (?a, node_of s ?p ?q) ?R))) T" for m2
    by (rule get_held, rule holds_perm [OF that], simp_all add: ac_simps)+
  show ?thesis
    unfolding DetachItemFromArray_def get_held [OF assms(1)] io_bind_simps c option.case get_held [OF 0] node_of_links
    apply (rule gives_bind [OF 1])
    apply (simp only: g1 io_bind_simps node_of_links)
    apply (rule gives_bind [OF 2], assumption)
    apply (simp only: g2 io_bind_simps node_of_links)
    apply (rule gives_bind [OF 3], assumption)
    apply (rule gives_bind [OF 4], assumption)
    apply (auto simp: gives_def)
    done
qed

text \<open>Putting an item in the place of another, which is deleted.\<close>

lemma replace_held:
  assumes "holds m (add_mset (x, nd) (cells None (xs @ s # ys) None + (cells None [t] None + N))) (texts [s] + T)"
    and "n_child nd = first_at (xs @ s # ys) None" "nat which = length xs"
  shows "leaves (ReplaceItemInArray x which (sh_at t) m)
    (add_mset (x, nd\<lparr>n_child := first_at (xs @ t # ys) None\<rparr>) (cells None (xs @ t # ys) None + N)) T"
proof -
  let ?a = "sh_at s" and ?t = "sh_at t" and ?p = "last_at None xs" and ?q = "first_at ys None" and ?T = "texts [s] + T"
  have chain: "holds m (cells None (xs @ s # ys) None + (add_mset (x, nd) (cells None [t] None + N))) ?T"
    using assms(1) by (rule holds_perm) (simp_all add: ac_simps)
  have c: "walk_nth (n_child nd) (nat which) m = io_return (Some ?a)"
    using walk_nth_held [OF chain, of "length xs"] assms(2,3) by simp
  let ?s = "add_mset (?a, node_of s ?p ?q) (inner s)" and ?X = "cells None xs (Some ?a)"
  let ?Y = "cells (Some ?a) ys None" and ?Y' = "cells (Some ?t) ys None"
  have 0: "holds m (add_mset (?t, node_of t None None) (inner t + (add_mset (x, nd) (?s + (?X + (?Y + N)))))) ?T"
    using assms(1) by (rule holds_perm) (simp_all add: cells_at cells_Cons ac_simps)
  have 1: "leaves (put_node ?t (\<lambda>nd. nd\<lparr>n_next := ?q, n_prev := ?p\<rparr>) m)
      (add_mset (?t, node_of t ?p ?q) (inner t + (add_mset (x, nd) (?s + (?X + (?Y + N)))))) ?T"
    using put_held [OF 0, of "\<lambda>nd. nd\<lparr>n_next := ?q, n_prev := ?p\<rparr>"] by simp
  have 2: "leaves (case ?q of None \<Rightarrow> io_return m1 | Some q \<Rightarrow> put_node q (\<lambda>nd. nd\<lparr>n_prev := Some ?t\<rparr>) m1)
      (?Y' + (add_mset (?t, node_of t ?p ?q) (inner t + (add_mset (x, nd) (?s + (?X + N)))))) ?T"
    if "holds m1 (add_mset (?t, node_of t ?p ?q) (inner t + (add_mset (x, nd) (?s + (?X + (?Y + N)))))) ?T" for m1
    by (rule relink_next, rule holds_perm [OF that]) (simp_all add: ac_simps)
  let ?new = "nd\<lparr>n_child := first_at (xs @ t # ys) None\<rparr>"
  have 3: "leaves (if n_child nd = Some ?a then put_node x (\<lambda>nd. nd\<lparr>n_child := Some ?t\<rparr>) m2
        else case ?p of None \<Rightarrow> Some (Inl NullPointer) | Some p \<Rightarrow> put_node p (\<lambda>nd. nd\<lparr>n_next := Some ?t\<rparr>) m2)
      (add_mset (x, ?new) (cells None (xs @ t # ys) None + (?s + N))) ?T"
    if h2: "holds m2 (?Y' + (add_mset (?t, node_of t ?p ?q) (inner t + (add_mset (x, nd) (?s + (?X + N)))))) ?T" for m2
  proof (cases xs)
    case Nil
    have "holds m2 (add_mset (x, nd) (cells None (xs @ t # ys) None + (?s + N))) ?T"
      using h2 by (rule holds_perm) (simp_all add: Nil cells_Cons ac_simps)
    from put_held [OF this, of "\<lambda>nd. nd\<lparr>n_child := Some ?t\<rparr>"] show ?thesis
      using assms(2) by (simp add: Nil)
  next
    case (Cons k ks)
    have "holds m2 (cells None (k # ks) (Some ?a) + (add_mset (?a, node_of s ?p ?q)
        (inner s + (?Y' + (add_mset (?t, node_of t ?p ?q) (inner t + (add_mset (x, nd) N))))))) ?T"
      using h2 by (rule holds_perm) (simp_all add: Cons ac_simps)
    note chain_apart [OF this]
    moreover have "leaves (case ?p of None \<Rightarrow> io_return m2 | Some p \<Rightarrow> put_node p (\<lambda>nd. nd\<lparr>n_next := Some ?t\<rparr>) m2)
        (cells None xs (Some ?t) + (?Y' + (add_mset (?t, node_of t ?p ?q) (inner t + (add_mset (x, nd) (?s + N)))))) ?T"
      by (rule relink_prev, rule holds_perm [OF h2]) (simp_all add: ac_simps)
    then have "leaves (case ?p of None \<Rightarrow> io_return m2 | Some p \<Rightarrow> put_node p (\<lambda>nd. nd\<lparr>n_next := Some ?t\<rparr>) m2)
        (add_mset (x, ?new) (cells None (xs @ t # ys) None + (?s + N))) ?T"
      by (rule leaves_perm) (use assms(2) in \<open>simp_all add: Cons cells_append cells_Cons ac_simps\<close>)
    moreover have "?p \<noteq> None" by (simp add: Cons last_at_def)
    ultimately show ?thesis using assms(2) by (auto simp: Cons)
  qed
  let ?N = "add_mset (x, ?new) (cells None (xs @ t # ys) None + N)"
  have 4: "leaves (put_node ?a (\<lambda>nd. nd\<lparr>n_next := None, n_prev := None\<rparr>) m3) (cells None [s] None + ?N) ?T"
    if "holds m3 (add_mset (x, ?new) (cells None (xs @ t # ys) None + (?s + N))) ?T" for m3
  proof -
    have "holds m3 (add_mset (?a, node_of s ?p ?q) (inner s + ?N)) ?T"
      using that by (rule holds_perm) (simp_all add: ac_simps)
    from put_held [OF this, of "\<lambda>nd. nd\<lparr>n_next := None, n_prev := None\<rparr>"] show ?thesis
      by simp (erule leaves_perm, simp_all add: cells_Cons ac_simps)
  qed
  have 5: "leaves (cJSON_Delete (Some ?a) m4) ?N T" if "holds m4 (cells None [s] None + ?N) ?T" for m4
    using delete_held [OF that] by simp
  have g: "get_node ?a m = io_return (node_of s ?p ?q)"
    by (rule get_held, rule holds_perm [OF 0]) (simp_all add: ac_simps)
  have g2: "get_node ?t m2 = io_return (node_of t ?p ?q)" "get_node x m2 = io_return nd"
    if "holds m2 (?Y' + (add_mset (?t, node_of t ?p ?q) (inner t + (add_mset (x, nd) (?s + (?X + N)))))) ?T" for m2
    by (rule get_held, rule holds_perm [OF that], simp_all add: ac_simps)+
  show ?thesis
    unfolding ReplaceItemInArray_def get_held [OF assms(1)] io_bind_simps c option.case g node_of_links
    apply (rule leaves_bind [OF 1])
    apply (simp only: get_held io_bind_simps node_of_links)
    apply (rule leaves_bind [OF 2], assumption)
    apply (simp only: g2 io_bind_simps node_of_links)
    apply (rule leaves_bind [OF 3], assumption)
    apply (rule leaves_bind [OF 4 5])
    apply assumption+
    done
qed

text \<open>A block that is not among those that are left is gone.\<close>

lemma cell_gone:
  assumes "holds m1 (add_mset (b, v) (N + R)) T" "holds m2 N T2"
  shows "jm_nodes m2 b = None"
proof (rule ccontr)
  assume "jm_nodes m2 b \<noteq> None"
  then obtain w where "(b, w) \<in> Map.graph (jm_nodes m2)" by (auto simp: graph_def)
  moreover have "N = mset_set (Map.graph (jm_nodes m2))" "finite (Map.graph (jm_nodes m2))" using assms(2) by (simp_all add: holds_def heap_of_def)
  ultimately obtain N' where "N = add_mset (b, w) N'" by (metis elem_mset_set multi_member_split)
  then show False using holds_apart [of m1 b v b w "N' + R" T] assms(1) by simp
qed

section \<open>New blocks\<close>

lemma fresh_block: "holds m N T \<Longrightarrow> jm_nodes m (jm_top m) = None \<and> jm_strs m (jm_top m) = None"
  by (simp add: holds_def)

lemma New_node_held:
  assumes "holds m N T" "New_node A nd m = (Some a, m')"
  shows "a = jm_top m \<and> holds m' (add_mset (a, nd) N) T"
  using assms heap_new [of "jm_nodes m" N "jm_top m" nd] fresh_block [OF assms(1)]
  by (auto simp: New_node_def holds_def split: if_splits)

text \<open>The text a pointer points to, with its address.\<close>

definition owned_text :: "'d jmem \<Rightarrow> nat option \<Rightarrow> (nat \<times> string) option" where
  "owned_text m p = map_option (\<lambda>a. (a, the (jm_strs m a))) p"

lemma owned_text_ptr [simp]: "map_option fst (owned_text m p) = p"
  by (cases p) (simp_all add: owned_text_def)

lemma strdup_held:
  assumes "holds m N T" "cJSON_strdup A str m = (p, m')"
  shows "holds m' N (opt_mset (owned_text m' p) + T)"
  using assms heap_new [of "jm_strs m" T "jm_top m" "case str of None \<Rightarrow> [] | Some s \<Rightarrow> s"] fresh_block [OF assms(1)]
  by (auto simp: cJSON_strdup_def holds_def owned_text_def Let_def split: if_splits)

lemma owned_text_held: "holds m N (opt_mset n + T) \<Longrightarrow> owned_text m (map_option fst n) = n"
  using heap_find [of "jm_strs m" "fst (the n)" "snd (the n)" T] by (cases n) (auto simp: holds_def owned_text_def)

lemma owned_text_nodes [simp]: "owned_text (m\<lparr>jm_nodes := n\<rparr>) p = owned_text m p"
  by (simp add: owned_text_def)

lemma put_owned: "put_node a f m = io_return m' \<Longrightarrow> owned_text m' p = owned_text m p"
  by (auto simp: put_node_def get_node_def fault_simps io_return_def split: option.splits)

lemma create_string_held:
  assumes "holds m N T" "CreateString A F str m = io_return (Some a, m')" "jm_nodes m' a = Some nd"
  shows "holds m' (cells None [Own a None JString (owned_text m' (n_valuestring nd)) 0 (dbl_of_int F 0) []] None + N)
    (texts [Own a None JString (owned_text m' (n_valuestring nd)) 0 (dbl_of_int F 0) ([] :: 'd shape list)] + T)"
proof -
  let ?nd = "(zero_node F)\<lparr>n_type := JString\<rparr>"
  obtain b m1 where n: "New_node A ?nd m = (Some b, m1)"
    using assms(2) by (auto simp: CreateString_def split: prod.splits option.splits)
  obtain s m2 where s: "cJSON_strdup A str m1 = (s, m2)" by fastforce
  have h1: "holds m1 (add_mset (b, ?nd) N) T" using New_node_held [OF assms(1) n] by blast
  have h2: "holds m2 (add_mset (b, ?nd) N) (opt_mset (owned_text m2 s) + T)" using strdup_held [OF h1 s] .
  obtain m3 where m3: "put_node b (\<lambda>nd. nd\<lparr>n_valuestring := s\<rparr>) m2 = io_return m3"
      "holds m3 (add_mset (b, ?nd\<lparr>n_valuestring := s\<rparr>) N) (opt_mset (owned_text m2 s) + T)"
    using put_held [OF h2, of "\<lambda>nd. nd\<lparr>n_valuestring := s\<rparr>"] by (auto simp: leaves_def)
  have "b = a" "m3 = m'" using assms(2) n s m3(1) by (simp_all add: CreateString_def)
  moreover have "nd = ?nd\<lparr>n_valuestring := s\<rparr>"
    using get_held [OF m3(2)] assms(3) \<open>b = a\<close> \<open>m3 = m'\<close> by (simp add: get_node_def)
  ultimately show ?thesis
    using m3 put_owned [OF m3(1), of s] by (simp add: zero_node_def)
qed

fun rename :: "(nat \<times> string) option \<Rightarrow> 'd shape \<Rightarrow> 'd shape" where
  "rename n (Own a _ ty v i d ks) = Own a n ty v i d ks"
| "rename n (Alias a _ ty v i d c) = Alias a n ty v i d c"

lemma rename_simps [simp]:
  "sh_at (rename n s) = sh_at s" "inner (rename n s) = inner s" "sh_name (rename n s) = n"
  "node_of (rename n s) p q = (node_of s p q)\<lparr>n_string := map_option fst n\<rparr>"
  by (cases s; simp)+

text \<open>The strings of an item without its name.\<close>

fun body_texts :: "'d shape \<Rightarrow> (nat \<times> string) multiset" where
  "body_texts (Own a n ty v i d ks) = opt_mset v + texts ks"
| "body_texts (Alias a n ty v i d c) = {#}"

lemma texts_one: "texts [s] = opt_mset (sh_name s) + body_texts s"
  by (cases s) simp_all

lemma body_rename [simp]: "body_texts (rename n s) = body_texts s"
  by (cases s) simp_all

text \<open>The copy of a name, if there is memory for it.\<close>

definition copied :: "allocator \<Rightarrow> string option \<Rightarrow> string option" where
  "copied A name = (let s = (case name of None \<Rightarrow> [] | Some s \<Rightarrow> s) in if malloc_ok A (length s + 1) then Some s else None)"

lemma add_named_held:
  assumes "holds m (add_mset (x, nd) (cells None ks None + (cells None [t] None + N))) (texts [t] + T)"
    and "n_child nd = first_at ks None"
  shows "\<exists>m' n. AddItemToObject A x name (Some (sh_at t)) m = io_return m' \<and>
    map_option snd n = copied A name \<and>
    holds m' (add_mset (x, nd\<lparr>n_child := first_at (ks @ [t]) None\<rparr>) (cells None (ks @ [rename n t]) None + N)) (texts [rename n t] + T)"
proof -
  let ?R = "add_mset (x, nd) (cells None ks None + N)"
  have 0: "holds m (add_mset (sh_at t, node_of t None None) (inner t + ?R)) (opt_mset (sh_name t) + (body_texts t + T))"
    using assms(1) by (rule holds_perm) (simp_all add: cells_Cons texts_one ac_simps)
  obtain m1 where m1: "free_text (n_string (node_of t None None)) m = io_return m1"
      "holds m1 (add_mset (sh_at t, node_of t None None) (inner t + ?R)) (body_texts t + T)"
    using free_text_held [OF 0] by (auto simp: leaves_def)
  obtain s m2 where s: "cJSON_strdup A name m1 = (s, m2)" by fastforce
  let ?n = "owned_text m2 s"
  obtain m3 where m3: "put_node (sh_at t) (\<lambda>nd. nd\<lparr>n_string := s\<rparr>) m2 = io_return m3"
      "holds m3 (add_mset (sh_at t, node_of (rename ?n t) None None) (inner t + ?R)) (opt_mset ?n + (body_texts t + T))"
    using put_held [OF strdup_held [OF m1(2) s], of "\<lambda>nd. nd\<lparr>n_string := s\<rparr>"] by (auto simp: leaves_def)
  have 3: "holds m3 (add_mset (x, nd) (cells None ks None + (cells None [rename ?n t] None + N))) (texts [rename ?n t] + T)"
    using m3(2) by (rule holds_perm) (simp_all add: cells_Cons texts_one ac_simps)
  obtain m4 where m4: "AddItemToArray x (Some (sh_at t)) m3 = io_return m4"
      "holds m4 (add_mset (x, nd\<lparr>n_child := first_at (ks @ [t]) None\<rparr>) (cells None (ks @ [rename ?n t]) None + N)) (texts [rename ?n t] + T)"
    using add_held [OF 3 assms(2)] by (auto simp: leaves_def)
  have "map_option snd ?n = copied A name"
    using s by (auto simp: cJSON_strdup_def copied_def owned_text_def Let_def split: if_splits)
  moreover have "AddItemToObject A x name (Some (sh_at t)) m = io_return m4"
    using get_held [OF 0] m1(1) s m3(1) m4(1) by (simp add: AddItemToObject_def)
  ultimately show ?thesis using m4(2) by blast
qed

lemma reference_held:
  assumes "holds m N T" "jm_nodes m y = Some nd" "malloc_ok A NODE_SIZE"
  shows "\<exists>m'. create_reference A y m = io_return (Some (jm_top m), m') \<and>
    holds m' (cells None [Alias (jm_top m) None (n_type nd) (n_valuestring nd) (n_valueint nd) (n_valuedouble nd) (n_child nd)] None + N) T"
proof -
  let ?nd = "nd\<lparr>n_string := None, n_isref := True, n_next := None, n_prev := None\<rparr>"
  obtain m' where m': "New_node A ?nd m = (Some (jm_top m), m')" using assms(3) by (simp add: New_node_def)
  have "?nd = node_of (Alias (jm_top m) None (n_type nd) (n_valuestring nd) (n_valueint nd) (n_valuedouble nd) (n_child nd)) None None"
    (is "_ = ?ref") by (cases nd) simp
  then have "holds m' (add_mset (jm_top m, ?ref) N) T"
    using New_node_held [OF assms(1) m'] by metis
  then show ?thesis
    using m' assms(2,3) by (simp add: create_reference_def get_node_def)
qed

end
