(* ===== verification/JsonOwned.thy ===== *)
theory JsonOwned
  imports JsonMemory
begin

text \<open>
  Programs that use the items of \<open>JsonMemory\<close>: what such a program owns is a multiset of item trees, and the memory
  holds their blocks and nothing else. The operations on the memory agree with those on values of \<open>EslJson\<close>.
\<close>

section \<open>The items a program holds\<close>

text \<open>The children of the item at an address, and the chain in which they are changed.\<close>

fun kids_at :: "nat \<Rightarrow> 'd shape list \<Rightarrow> 'd shape list option" where
  "kids_at x [] = None"
| "kids_at x (Own a n ty v i d ks # ss) =
     (if a = x then Some ks else case kids_at x ks of Some r \<Rightarrow> Some r | None \<Rightarrow> kids_at x ss)"
| "kids_at x (Alias a n ty v i d c # ss) = kids_at x ss"

fun graft :: "nat \<Rightarrow> ('d shape list \<Rightarrow> 'd shape list) \<Rightarrow> 'd shape list \<Rightarrow> 'd shape list" where
  "graft x f [] = []"
| "graft x f (Own a n ty v i d ks # ss) =
     (if a = x then Own a n ty v i d (f ks) # ss
      else if kids_at x ks \<noteq> None then Own a n ty v i d (graft x f ks) # ss
      else Own a n ty v i d ks # graft x f ss)"
| "graft x f (Alias a n ty v i d c # ss) = Alias a n ty v i d c # graft x f ss"

lemma graft_first [simp]: "first_at (graft x f ss) q = first_at ss q"
  by (induction x f ss rule: graft.induct) simp_all

lemma graft_cells:
  assumes "kids_at x ss = Some ks"
  shows "\<exists>nd R U. n_child nd = first_at ks None \<and> (\<forall>f.
    cells p (graft x f ss) q = add_mset (x, nd\<lparr>n_child := first_at (f ks) None\<rparr>) (cells None (f ks) None + R) \<and>
    texts (graft x f ss) = texts (f ks) + U)"
  using assms
proof (induction x ss arbitrary: p q rule: kids_at.induct)
  case (2 x a n ty v i d ks' ss)
  let ?nd = "node_of (Own a n ty v i d ks') p (first_at ss q)"
  consider (here) "a = x" | (below) "a \<noteq> x" "kids_at x ks' = Some ks" | (behind) "a \<noteq> x" "kids_at x ks' = None" "kids_at x ss = Some ks"
    using "2.prems" by (auto split: if_splits option.splits)
  then show ?case
  proof cases
    case here
    then have "ks' = ks" using "2.prems" by simp
    then show ?thesis
      by (intro exI [of _ ?nd] exI [of _ "cells (Some a) ss q"] exI [of _ "opt_mset n + opt_mset v + texts ss"]) (simp add: here ac_simps)
  next
    case below
    from "2.IH"(1) [OF below, of None None] obtain nd R U where "n_child nd = first_at ks None" "\<forall>f.
        cells None (graft x f ks') None = add_mset (x, nd\<lparr>n_child := first_at (f ks) None\<rparr>) (cells None (f ks) None + R) \<and>
        texts (graft x f ks') = texts (f ks) + U" by blast
    then show ?thesis
      by (intro exI [of _ nd] exI [of _ "add_mset (a, ?nd) (cells (Some a) ss q + R)"] exI [of _ "opt_mset n + opt_mset v + texts ss + U"])
        (simp add: below ac_simps)
  next
    case behind
    from "2.IH"(2) [OF behind, of "Some a" q] obtain nd R U where "n_child nd = first_at ks None" "\<forall>f.
        cells (Some a) (graft x f ss) q = add_mset (x, nd\<lparr>n_child := first_at (f ks) None\<rparr>) (cells None (f ks) None + R) \<and>
        texts (graft x f ss) = texts (f ks) + U" by blast
    then show ?thesis
      by (intro exI [of _ nd] exI [of _ "add_mset (a, ?nd) (cells None ks' None + R)"] exI [of _ "opt_mset n + opt_mset v + texts ks' + U"])
        (simp add: behind ac_simps)
  qed
next
  case (3 x a n ty v i d c ss)
  then have "kids_at x ss = Some ks" by simp
  from "3.IH" [OF this, of "Some a" q] obtain nd R U where "n_child nd = first_at ks None" "\<forall>f.
      cells (Some a) (graft x f ss) q = add_mset (x, nd\<lparr>n_child := first_at (f ks) None\<rparr>) (cells None (f ks) None + R) \<and>
      texts (graft x f ss) = texts (f ks) + U" by blast
  then show ?case
    by (intro exI [of _ nd] exI [of _ "add_mset (a, node_of (Alias a n ty v i d c) p (first_at ss q)) R"] exI [of _ "opt_mset n + U"])
      (simp add: ac_simps)
qed simp

lemma graft_id: "graft x (\<lambda>ks. ks) ss = ss"
proof -
  have "f = (\<lambda>ks. ks) \<Longrightarrow> graft x f ss = ss" for f
    by (induction x f ss rule: graft.induct) auto
  then show ?thesis by simp
qed

definition world_cells :: "'d shape multiset \<Rightarrow> (nat \<times> 'd jnode) multiset" where
  "world_cells W = (\<Sum>s\<in>#W. cells None [s] None)"

definition world_texts :: "'d shape multiset \<Rightarrow> (nat \<times> string) multiset" where
  "world_texts W = (\<Sum>s\<in>#W. texts [s])"

lemma world_simps [simp]:
  "world_cells {#} = {#}" "world_cells (add_mset s W) = cells None [s] None + world_cells W"
  "world_texts {#} = {#}" "world_texts (add_mset s W) = texts [s] + world_texts W"
  by (simp_all add: world_cells_def world_texts_def)

definition change :: "nat \<Rightarrow> ('d shape list \<Rightarrow> 'd shape list) \<Rightarrow> 'd shape \<Rightarrow> 'd shape" where
  "change x f r = hd (graft x f [r])"

lemma change_graft: "[change x f r] = graft x f [r]"
  by (cases r) (auto simp: change_def)

text \<open>An item somewhere in what is held: its block, its children, and what it means to change them.\<close>

lemma inside:
  assumes "kids_at x [r] = Some ks"
  obtains nd R U where "n_child nd = first_at ks None"
    "cells None [r] None = add_mset (x, nd) (cells None ks None + R)" "texts [r] = texts ks + U"
    "\<And>f. cells None [change x f r] None = add_mset (x, nd\<lparr>n_child := first_at (f ks) None\<rparr>) (cells None (f ks) None + R)"
    "\<And>f. texts [change x f r] = texts (f ks) + U"
proof -
  obtain nd R U where g: "n_child nd = first_at ks None" "\<And>f.
      cells None (graft x f [r]) None = add_mset (x, nd\<lparr>n_child := first_at (f ks) None\<rparr>) (cells None (f ks) None + R)"
      "\<And>f. texts (graft x f [r]) = texts (f ks) + U"
    using graft_cells [OF assms, of None None] by blast
  have "cells None [r] None = add_mset (x, nd) (cells None ks None + R)" "texts [r] = texts ks + U"
    using g(1) g(2,3) [of "\<lambda>ks. ks"] by (simp_all add: graft_id)
  from that [OF g(1) this] show ?thesis using g(2,3) by (simp add: change_graft)
qed

section \<open>Programs that use the items\<close>

text \<open>
  What a program does that owns some items: it creates one, puts one that stands alone below another, as an element
  or under a name, puts a reference to any item below one, takes one out, replaces one, deletes one that stands alone.
  \<open>W\<close> is what it owns.
\<close>

inductive json_reachable :: "allocator \<Rightarrow> 'd double_ops \<Rightarrow> 'd jmem \<Rightarrow> 'd shape multiset \<Rightarrow> bool" for A F where
  nothing: "jm_nodes m = Map.empty \<Longrightarrow> jm_strs m = Map.empty \<Longrightarrow> json_reachable A F m {#}"
| item: "json_reachable A F m W \<Longrightarrow> CreateItem A F ty i d m = (Some a, m') \<Longrightarrow>
    json_reachable A F m' (add_mset (Own a None ty None i d []) W)"
| string: "json_reachable A F m W \<Longrightarrow> CreateString A F str m = io_return (Some a, m') \<Longrightarrow> jm_nodes m' a = Some nd \<Longrightarrow>
    json_reachable A F m' (add_mset (Own a None JString (owned_text m' (n_valuestring nd)) 0 (dbl_of_int F 0) []) W)"
| added: "json_reachable A F m (add_mset r (add_mset t W)) \<Longrightarrow> kids_at x [r] = Some ks \<Longrightarrow>
    AddItemToArray x (Some (sh_at t)) m = io_return m' \<Longrightarrow>
    json_reachable A F m' (add_mset (change x (\<lambda>ks. ks @ [t]) r) W)"
| named: "json_reachable A F m (add_mset r (add_mset t W)) \<Longrightarrow> kids_at x [r] = Some ks \<Longrightarrow>
    AddItemToObject A x name (Some (sh_at t)) m = io_return m' \<Longrightarrow> jm_nodes m' (sh_at t) = Some nd \<Longrightarrow>
    json_reachable A F m' (add_mset (change x (\<lambda>ks. ks @ [rename (owned_text m' (n_string nd)) t]) r) W)"
| referred: "json_reachable A F m (add_mset r W) \<Longrightarrow> kids_at x [r] = Some ks \<Longrightarrow> jm_nodes m y = Some nd \<Longrightarrow> malloc_ok A NODE_SIZE \<Longrightarrow>
    cJSON_AddItemReferenceToArray A x y m = io_return m' \<Longrightarrow>
    json_reachable A F m' (add_mset (change x (\<lambda>ks. ks @
      [Alias (jm_top m) None (n_type nd) (n_valuestring nd) (n_valueint nd) (n_valuedouble nd) (n_child nd)]) r) W)"
| detached: "json_reachable A F m (add_mset r W) \<Longrightarrow> kids_at x [r] = Some ks \<Longrightarrow> nat which < length ks \<Longrightarrow>
    DetachItemFromArray x which m = io_return (c, m') \<Longrightarrow>
    json_reachable A F m' (add_mset (ks ! nat which) (add_mset (change x (\<lambda>ks. take (nat which) ks @ drop (Suc (nat which)) ks) r) W))"
| replaced: "json_reachable A F m (add_mset r (add_mset t W)) \<Longrightarrow> kids_at x [r] = Some ks \<Longrightarrow> nat which < length ks \<Longrightarrow>
    ReplaceItemInArray x which (sh_at t) m = io_return m' \<Longrightarrow>
    json_reachable A F m' (add_mset (change x (\<lambda>ks. ks[nat which := t]) r) W)"
| deleted: "json_reachable A F m (add_mset r W) \<Longrightarrow> cJSON_Delete (Some (sh_at r)) m = io_return m' \<Longrightarrow> json_reachable A F m' W"

text \<open>The operations, done somewhere in what a program owns.\<close>

definition owned :: "'d jmem \<Rightarrow> 'd shape multiset \<Rightarrow> bool" where
  "owned m W \<longleftrightarrow> holds m (world_cells W) (world_texts W)"

definition leads :: "'d jmem io \<Rightarrow> 'd shape multiset \<Rightarrow> bool" where
  "leads r W \<longleftrightarrow> (\<exists>m. r = io_return m \<and> owned m W)"

lemma owned_add:
  assumes "owned m (add_mset r (add_mset t W))" "kids_at x [r] = Some ks"
  shows "leads (AddItemToArray x (Some (sh_at t)) m) (add_mset (change x (\<lambda>ks. ks @ [t]) r) W)"
proof -
  obtain nd R U where i: "n_child nd = first_at ks None" "cells None [r] None = add_mset (x, nd) (cells None ks None + R)" "texts [r] = texts ks + U"
      "\<And>f. cells None [change x f r] None = add_mset (x, nd\<lparr>n_child := first_at (f ks) None\<rparr>) (cells None (f ks) None + R)"
      "\<And>f. texts [change x f r] = texts (f ks) + U"
    using inside [OF assms(2)] by metis
  have "holds m (add_mset (x, nd) (cells None ks None + (cells None [t] None + (R + world_cells W)))) (texts ks + texts [t] + U + world_texts W)"
    using assms(1) unfolding owned_def by (rule holds_perm) (simp_all add: i ac_simps)
  from add_held [OF this i(1)] show ?thesis
    by (auto simp: leaves_def leads_def owned_def i texts_append ac_simps)
qed

lemma owned_named:
  assumes "owned m (add_mset r (add_mset t W))" "kids_at x [r] = Some ks"
  shows "\<exists>m' n. AddItemToObject A x name (Some (sh_at t)) m = io_return m' \<and>
    map_option snd n = copied A name \<and>
    (\<forall>nd. jm_nodes m' (sh_at t) = Some nd \<longrightarrow> owned_text m' (n_string nd) = n) \<and>
    owned m' (add_mset (change x (\<lambda>ks. ks @ [rename n t]) r) W)"
proof -
  obtain nd R U where i: "n_child nd = first_at ks None" "cells None [r] None = add_mset (x, nd) (cells None ks None + R)" "texts [r] = texts ks + U"
      "\<And>f. cells None [change x f r] None = add_mset (x, nd\<lparr>n_child := first_at (f ks) None\<rparr>) (cells None (f ks) None + R)"
      "\<And>f. texts [change x f r] = texts (f ks) + U"
    using inside [OF assms(2)] by metis
  have "holds m (add_mset (x, nd) (cells None ks None + (cells None [t] None + (R + world_cells W)))) (texts [t] + (texts ks + (U + world_texts W)))"
    using assms(1) unfolding owned_def by (rule holds_perm) (simp_all add: i ac_simps)
  from add_named_held [OF this i(1), of A name] obtain m' n where m': "AddItemToObject A x name (Some (sh_at t)) m = io_return m'"
      "map_option snd n = copied A name"
      "holds m' (add_mset (x, nd\<lparr>n_child := first_at (ks @ [t]) None\<rparr>) (cells None (ks @ [rename n t]) None + (R + world_cells W)))
        (texts [rename n t] + (texts ks + (U + world_texts W)))" by blast
  have "owned m' (add_mset (change x (\<lambda>ks. ks @ [rename n t]) r) W)"
    unfolding owned_def using m'(3) by (rule holds_perm) (simp_all add: i texts_append ac_simps)
  moreover have "owned_text m' (n_string nd') = n" if "jm_nodes m' (sh_at t) = Some nd'" for nd'
  proof -
    let ?nd = "node_of (rename n t) (last_at None ks) None"
    have "holds m' (add_mset (sh_at t, ?nd) (add_mset (x, nd\<lparr>n_child := first_at (ks @ [t]) None\<rparr>)
        (cells None ks (Some (sh_at t)) + (inner t + (R + world_cells W))))) (opt_mset n + (body_texts t + (texts ks + (U + world_texts W))))"
      using m'(3) by (rule holds_perm) (simp_all add: cells_snoc texts_one ac_simps)
    then have "nd' = ?nd" "owned_text m' (map_option fst n) = n"
      using get_held [of m' "sh_at t" ?nd] that by (auto simp: get_node_def owned_text_held)
    then show ?thesis by simp
  qed
  ultimately show ?thesis using m'(1,2) by blast
qed

lemma owned_detach:
  assumes "owned m (add_mset r W)" "kids_at x [r] = Some ks" "nat which < length ks"
  shows "\<exists>m'. DetachItemFromArray x which m = io_return (Some (sh_at (ks ! nat which)), m') \<and>
    owned m' (add_mset (ks ! nat which) (add_mset (change x (\<lambda>ks. take (nat which) ks @ drop (Suc (nat which)) ks) r) W))"
proof -
  let ?k = "nat which"
  obtain nd R U where i: "n_child nd = first_at ks None" "cells None [r] None = add_mset (x, nd) (cells None ks None + R)" "texts [r] = texts ks + U"
      "\<And>f. cells None [change x f r] None = add_mset (x, nd\<lparr>n_child := first_at (f ks) None\<rparr>) (cells None (f ks) None + R)"
      "\<And>f. texts [change x f r] = texts (f ks) + U"
    using inside [OF assms(2)] by metis
  have ks: "ks = take ?k ks @ ks ! ?k # drop (Suc ?k) ks" using assms(3) by (simp add: id_take_nth_drop)
  have "holds m (add_mset (x, nd) (cells None (take ?k ks @ ks ! ?k # drop (Suc ?k) ks) None + (R + world_cells W))) (texts ks + U + world_texts W)"
    using assms(1) unfolding owned_def by (rule holds_perm) (simp_all add: i ks [symmetric] ac_simps)
  moreover have "n_child nd = first_at (take ?k ks @ ks ! ?k # drop (Suc ?k) ks) None" using i(1) ks by simp
  moreover have "?k = length (take ?k ks)" using assms(3) by simp
  ultimately have "gives (DetachItemFromArray x which m) (Some (sh_at (ks ! ?k)))
      (add_mset (x, nd\<lparr>n_child := first_at (take ?k ks @ drop (Suc ?k) ks) None\<rparr>)
        (cells None (take ?k ks @ drop (Suc ?k) ks) None + (cells None [ks ! ?k] None + (R + world_cells W)))) (texts ks + U + world_texts W)"
    by (rule detach_held)
  moreover have "texts ks = texts [ks ! ?k] + texts (take ?k ks @ drop (Suc ?k) ks)"
    using arg_cong [OF ks, of texts] by (simp add: texts_append texts_Cons [of "ks ! ?k" "drop (Suc ?k) ks"] ac_simps)
  ultimately show ?thesis by (auto simp: gives_def owned_def i ac_simps)
qed

lemma owned_delete:
  assumes "owned m (add_mset r W)"
  shows "leads (cJSON_Delete (Some (sh_at r)) m) W"
  using delete_held [of m None "[r]" "world_cells W" "world_texts W"] assms
  by (simp add: owned_def leads_def leaves_def)

lemma replace_framed:
  assumes "holds m (world_cells (add_mset r (add_mset t W))) (world_texts (add_mset r (add_mset t W)) + L)" "kids_at x [r] = Some ks" "nat which < length ks"
  shows "leaves (ReplaceItemInArray x which (sh_at t) m) (world_cells (add_mset (change x (\<lambda>ks. ks[nat which := t]) r) W))
    (world_texts (add_mset (change x (\<lambda>ks. ks[nat which := t]) r) W) + L)"
proof -
  let ?k = "nat which"
  obtain nd R U where i: "n_child nd = first_at ks None" "cells None [r] None = add_mset (x, nd) (cells None ks None + R)" "texts [r] = texts ks + U"
      "\<And>f. cells None [change x f r] None = add_mset (x, nd\<lparr>n_child := first_at (f ks) None\<rparr>) (cells None (f ks) None + R)"
      "\<And>f. texts [change x f r] = texts (f ks) + U"
    using inside [OF assms(2)] by metis
  have ks: "ks = take ?k ks @ ks ! ?k # drop (Suc ?k) ks" using assms(3) by (simp add: id_take_nth_drop)
  have new: "ks[?k := t] = take ?k ks @ t # drop (Suc ?k) ks" using assms(3) by (rule upd_conv_take_nth_drop)
  have tx: "texts ks = texts [ks ! ?k] + texts (take ?k ks @ drop (Suc ?k) ks)"
    using arg_cong [OF ks, of texts] by (simp add: texts_append texts_Cons [of "ks ! ?k" "drop (Suc ?k) ks"] ac_simps)
  have "holds m (add_mset (x, nd) (cells None (take ?k ks @ ks ! ?k # drop (Suc ?k) ks) None + (cells None [t] None + (R + world_cells W))))
      (texts [ks ! ?k] + (texts [t] + texts (take ?k ks @ drop (Suc ?k) ks) + U + world_texts W + L))"
    using assms(1) by (rule holds_perm) (simp_all add: i tx ks [symmetric] ac_simps)
  moreover have "n_child nd = first_at (take ?k ks @ ks ! ?k # drop (Suc ?k) ks) None" using i(1) ks by simp
  moreover have "?k = length (take ?k ks)" using assms(3) by simp
  ultimately have "leaves (ReplaceItemInArray x which (sh_at t) m)
      (add_mset (x, nd\<lparr>n_child := first_at (ks[?k := t]) None\<rparr>) (cells None (ks[?k := t]) None + (R + world_cells W)))
      (texts [t] + texts (take ?k ks @ drop (Suc ?k) ks) + U + world_texts W + L)"
    unfolding new by (rule replace_held)
  moreover have "texts (ks[?k := t]) = texts [t] + texts (take ?k ks @ drop (Suc ?k) ks)"
    unfolding new by (simp add: texts_append texts_Cons [of t "drop (Suc ?k) ks"] ac_simps)
  ultimately show ?thesis by (auto simp: leaves_def i ac_simps)
qed

lemma owned_replace:
  assumes "owned m (add_mset r (add_mset t W))" "kids_at x [r] = Some ks" "nat which < length ks"
  shows "leads (ReplaceItemInArray x which (sh_at t) m) (add_mset (change x (\<lambda>ks. ks[nat which := t]) r) W)"
  using replace_framed [of m r t W "{#}", OF _ assms(2,3)] assms(1) by (simp add: leaves_def leads_def owned_def)

lemma owned_refer:
  assumes "owned m (add_mset r W)" "kids_at x [r] = Some ks" "jm_nodes m y = Some nd" "malloc_ok A NODE_SIZE"
  shows "leads (cJSON_AddItemReferenceToArray A x y m) (add_mset (change x (\<lambda>ks. ks @
      [Alias (jm_top m) None (n_type nd) (n_valuestring nd) (n_valueint nd) (n_valuedouble nd) (n_child nd)]) r) W)"
proof -
  let ?t = "Alias (jm_top m) None (n_type nd) (n_valuestring nd) (n_valueint nd) (n_valuedouble nd) (n_child nd)"
  obtain m1 where m1: "create_reference A y m = io_return (Some (jm_top m), m1)"
      "holds m1 (cells None [?t] None + world_cells (add_mset r W)) (world_texts (add_mset r W))"
    using reference_held [OF _ assms(3,4)] assms(1) unfolding owned_def by blast
  have "owned m1 (add_mset r (add_mset ?t W))" unfolding owned_def using m1(2) by (rule holds_perm) (simp_all add: ac_simps)
  from owned_add [OF this assms(2)] show ?thesis using m1(1) by (simp add: cJSON_AddItemReferenceToArray_def)
qed

lemma owned_item:
  assumes "owned m W" "CreateItem A F ty i d m = (Some a, m')"
  shows "owned m' (add_mset (Own a None ty None i d []) W)"
proof -
  have "holds m' (add_mset (a, (zero_node F)\<lparr>n_type := ty, n_valueint := i, n_valuedouble := d\<rparr>) (world_cells W)) (world_texts W)"
    using New_node_held [OF assms(1) [unfolded owned_def] assms(2) [unfolded CreateItem_def]] by blast
  then show ?thesis by (simp add: owned_def zero_node_def)
qed

lemma leads_result: "leads (io_return m) W \<longleftrightarrow> owned m W"
  by (auto simp: leads_def)

text \<open>Whatever a program does, the memory holds what the program owns, and nothing else.\<close>

lemma reachable_owned: "json_reachable A F m W \<Longrightarrow> owned m W"
proof (induction rule: json_reachable.induct)
  case (nothing m)
  then show ?case by (simp add: owned_def holds_def heap_empty)
next
  case (item m W ty i d a m')
  then show ?case by (simp add: owned_item)
next
  case (string m W str a m' nd)
  have "holds m (world_cells W) (world_texts W)" using string.IH by (simp add: owned_def)
  from create_string_held [OF this string.hyps(2,3)] show ?case by (simp add: owned_def)
next
  case (added m r t W x ks m')
  then show ?case using owned_add [OF added.IH added.hyps(2)] by (simp add: leads_result)
next
  case (named m r t W x ks name m' nd)
  then show ?case using owned_named [OF named.IH named.hyps(2), of A name] by auto
next
  case (referred m r W x ks y nd m')
  then show ?case using owned_refer [OF referred.IH referred.hyps(2-4)] by (simp add: leads_result)
next
  case (detached m r W x ks "which" c m')
  then show ?case using owned_detach [OF detached.IH detached.hyps(2,3)] by auto
next
  case (replaced m r t W x ks "which" m')
  then show ?case using owned_replace [OF replaced.IH replaced.hyps(2,3)] by (simp add: leads_result)
next
  case (deleted m r W m')
  then show ?case using owned_delete [OF deleted.IH] by (simp add: leads_result)
qed

section \<open>What the items stand for\<close>

text \<open>The value of an item; a reference is read without what it refers to.\<close>

fun item_of :: "'d shape \<Rightarrow> 'd cJSON" where
  "item_of (Own a n ty v i d ks) = Item ty (map_option snd v) i d (map_option snd n) (map item_of ks)"
| "item_of (Alias a n ty v i d c) = Item ty None i d (map_option snd n) []"

lemma item_rename: "item_of (rename n t) = set_string (map_option snd n) (item_of t)"
  by (cases t) simp_all

lemma cj_child_set [simp]: "cj_child (set_child l arr) = l"
  by (cases arr) simp

lemma kids_change: "kids_at x [r] = Some ks \<Longrightarrow> kids_at x [change x f r] = Some (f ks)"
proof -
  have "kids_at x ss = Some ks \<Longrightarrow> kids_at x (graft x f ss) = Some (f ks)" for ss
    by (induction x ss rule: kids_at.induct) (auto split: if_splits option.splits)
  then show "kids_at x [r] = Some ks \<Longrightarrow> ?thesis" by (simp add: change_graft)
qed

lemma detach_none:
  assumes "owned m (add_mset r W)" "kids_at x [r] = Some ks" "length ks \<le> nat which"
  shows "DetachItemFromArray x which m = io_return (None, m)"
proof -
  obtain nd R U where i: "n_child nd = first_at ks None" "cells None [r] None = add_mset (x, nd) (cells None ks None + R)" "texts [r] = texts ks + U"
    using inside [OF assms(2)] by metis
  have h: "holds m (cells None ks None + (add_mset (x, nd) (R + world_cells W))) (world_texts (add_mset r W))"
    using assms(1) unfolding owned_def by (rule holds_perm) (simp_all add: i ac_simps)
  then have "get_node x m = io_return nd"
    by (intro get_held [of m x nd]) (erule holds_perm, simp_all add: ac_simps)
  then show ?thesis
    using walk_nth_held [OF h, of "nat which"] assms(3) i(1) by (simp add: DetachItemFromArray_def)
qed

text \<open>The item below which the memory was changed.\<close>

definition below :: "nat \<Rightarrow> 'd shape \<Rightarrow> 'd cJSON \<Rightarrow> bool" where
  "below x r arr \<longleftrightarrow> (\<exists>ks. kids_at x [r] = Some ks \<and> cj_child arr = map item_of ks)"

section \<open>Properties\<close>


text \<open>
  C25. The operations on the memory do what the operations on values do: the children of the array or object at
  \<open>x\<close>, wherever it is, stand for those of the value the operation on values gives; so does what is taken out.
\<close>

theorem json_memory_refines:
  assumes "owned m (add_mset r (add_mset t W))" "below x r arr"
    and "malloc_ok A (length (case name of None \<Rightarrow> [] | Some s \<Rightarrow> s) + 1)"
  shows "(\<exists>m' r'. AddItemToArray x (Some (sh_at t)) m = io_return m' \<and> owned m' (add_mset r' W) \<and>
      below x r' (cJSON_AddItemToArray arr (Some (item_of t)))) \<and>
    (\<exists>m' r'. AddItemToObject A x name (Some (sh_at t)) m = io_return m' \<and> owned m' (add_mset r' W) \<and>
      below x r' (cJSON_AddItemToObject arr name (Some (item_of t)))) \<and>
    (case cJSON_DetachItemFromArray arr which of
       (None, arr') \<Rightarrow> DetachItemFromArray x which m = io_return (None, m)
     | (Some v, arr') \<Rightarrow> \<exists>c m' r'. DetachItemFromArray x which m = io_return (Some (sh_at c), m') \<and> item_of c = v \<and>
         owned m' (add_mset c (add_mset r' (add_mset t W))) \<and> below x r' arr') \<and>
    (nat which < length (cj_child arr) \<longrightarrow>
      (\<exists>m' r'. ReplaceItemInArray x which (sh_at t) m = io_return m' \<and> owned m' (add_mset r' W) \<and>
        below x r' (cJSON_ReplaceItemInArray arr which (item_of t))))"
proof -
  obtain ks where ks: "kids_at x [r] = Some ks" "cj_child arr = map item_of ks" using assms(2) by (auto simp: below_def)
  have below: "below x (change x f r) arr'" if "cj_child arr' = map item_of (f ks)" for f arr'
    using kids_change [OF ks(1), of f] that by (simp add: below_def)
  have 1: "\<exists>m' r'. AddItemToArray x (Some (sh_at t)) m = io_return m' \<and> owned m' (add_mset r' W) \<and>
      below x r' (cJSON_AddItemToArray arr (Some (item_of t)))"
    using owned_add [OF assms(1) ks(1)] below [of "cJSON_AddItemToArray arr (Some (item_of t))" "\<lambda>ks. ks @ [t]"]
    by (auto simp: leads_def cJSON_AddItemToArray_def ks)
  obtain m2 n where m2: "AddItemToObject A x name (Some (sh_at t)) m = io_return m2" "map_option snd n = copied A name"
      "owned m2 (add_mset (change x (\<lambda>ks. ks @ [rename n t]) r) W)"
    using owned_named [OF assms(1) ks(1), of A name] by blast
  have "below x (change x (\<lambda>ks. ks @ [rename n t]) r) (cJSON_AddItemToObject arr name (Some (item_of t)))"
    using assms(3) by (intro below) (simp add: cJSON_AddItemToObject_def cJSON_AddItemToArray_def ks item_rename m2(2) copied_def)
  then have 2: "\<exists>m' r'. AddItemToObject A x name (Some (sh_at t)) m = io_return m' \<and> owned m' (add_mset r' W) \<and>
      below x r' (cJSON_AddItemToObject arr name (Some (item_of t)))" using m2(1,3) by blast
  have 4: "\<exists>m' r'. ReplaceItemInArray x which (sh_at t) m = io_return m' \<and> owned m' (add_mset r' W) \<and>
        below x r' (cJSON_ReplaceItemInArray arr which (item_of t))" if "nat which < length (cj_child arr)"
  proof -
    have "below x (change x (\<lambda>ks. ks[nat which := t]) r) (cJSON_ReplaceItemInArray arr which (item_of t))"
      using that by (intro below) (simp add: cJSON_ReplaceItemInArray_def ks map_update)
    moreover have "nat which < length ks" using that by (simp add: ks)
    ultimately show ?thesis using owned_replace [OF assms(1) ks(1)] unfolding leads_def by blast
  qed
  have 3: "case cJSON_DetachItemFromArray arr which of
       (None, arr') \<Rightarrow> DetachItemFromArray x which m = io_return (None, m)
     | (Some v, arr') \<Rightarrow> \<exists>c m' r'. DetachItemFromArray x which m = io_return (Some (sh_at c), m') \<and> item_of c = v \<and>
         owned m' (add_mset c (add_mset r' (add_mset t W))) \<and> below x r' arr'"
  proof (cases "nat which < length ks")
    case True
    let ?f = "\<lambda>ks :: 'a shape list. take (nat which) ks @ drop (Suc (nat which)) ks"
    let ?arr = "set_child (map item_of (?f ks)) arr"
    have "drop (nat which) (map item_of ks) = item_of (ks ! nat which) # map item_of (drop (Suc (nat which)) ks)"
      using True by (simp add: drop_map Cons_nth_drop_Suc [symmetric])
    then have d: "cJSON_DetachItemFromArray arr which = (Some (item_of (ks ! nat which)), ?arr)"
      by (simp add: cJSON_DetachItemFromArray_def ks take_map)
    have "below x (change x ?f r) ?arr" by (rule below) simp
    then show ?thesis using owned_detach [OF assms(1) ks(1) True] by (simp add: d) blast
  next
    case False
    then have "cJSON_DetachItemFromArray arr which = (None, arr)" by (simp add: cJSON_DetachItemFromArray_def ks)
    then show ?thesis using detach_none [OF assms(1) ks(1)] False by simp
  qed
  show ?thesis using 1 2 3 4 by blast
qed

text \<open>A program with an array and a string.\<close>

abbreviation "always \<equiv> \<lparr>can_alloc = (\<lambda>n. True), raw_byte = (\<lambda>n. NUL)\<rparr>"
abbreviation "demo_array \<equiv> Own 0 None JArray None 0 () []"
abbreviation "demo_string \<equiv> Own 1 None JString (Some (2, ''x'')) 0 () ([] :: unit shape list)"

lemma demo_json: "\<exists>m. json_reachable always unit_ops m {#demo_array, demo_string#}"
proof -
  let ?m0 = "\<lparr>jm_nodes = Map.empty, jm_strs = Map.empty, jm_top = 0\<rparr> :: unit jmem"
  let ?n0 = "\<lparr>n_next = None, n_prev = None, n_child = None, n_type = JArray, n_isref = False, n_valuestring = None,
      n_valueint = 0, n_valuedouble = (), n_string = None\<rparr>"
  let ?n1 = "?n0\<lparr>n_type := JString, n_valuestring := Some 2\<rparr>"
  let ?m1 = "\<lparr>jm_nodes = [0 \<mapsto> ?n0], jm_strs = Map.empty, jm_top = 1\<rparr>"
  let ?m2 = "\<lparr>jm_nodes = [0 \<mapsto> ?n0, 1 \<mapsto> ?n1], jm_strs = [2 \<mapsto> ''x''], jm_top = 3\<rparr>"
  have "json_reachable always unit_ops ?m0 {#}" by (rule nothing) simp_all
  moreover have "CreateItem always unit_ops JArray 0 () ?m0 = (Some 0, ?m1)"
    by (simp add: CreateItem_def New_node_def malloc_ok_def NODE_SIZE_def zero_node_def unit_ops_def)
  ultimately have "json_reachable always unit_ops ?m1 {#demo_array#}" by (rule item)
  moreover have "CreateString always unit_ops (Some ''x'') ?m1 = io_return (Some 1, ?m2)"
    by (simp add: CreateString_def New_node_def malloc_ok_def NODE_SIZE_def zero_node_def unit_ops_def cJSON_strdup_def put_node_def get_node_def flip: numeral_2_eq_2)
  moreover have "jm_nodes ?m2 1 = Some ?n1" by simp
  ultimately have "json_reachable always unit_ops ?m2
      (add_mset (Own 1 None JString (owned_text ?m2 (n_valuestring ?n1)) 0 (dbl_of_int unit_ops 0) []) {#demo_array#})" by (rule string)
  then show ?thesis by (auto simp: owned_text_def unit_ops_def add_mset_commute)
qed


theorem json_memory_refines_witness:
  "\<exists>m m' r'. json_reachable always unit_ops m {#demo_array, demo_string#} \<and> AddItemToArray 0 (Some 1) m = io_return m' \<and>
     owned m' {#r'#} \<and> below 0 r' (cJSON_AddItemToArray (item_of demo_array) (Some (item_of demo_string)))"
proof -
  obtain m where m: "json_reachable always unit_ops m {#demo_array, demo_string#}" using demo_json by blast
  have b: "below 0 demo_array (item_of demo_array)" by (simp add: below_def)
  have "malloc_ok always (length (case None :: string option of None \<Rightarrow> [] | Some s \<Rightarrow> s) + 1)" by (simp add: malloc_ok_def)
  from json_memory_refines [OF reachable_owned [OF m] b this, of 0] show ?thesis using m by auto
qed

text \<open>
  C27. A reference shares the children of the item it refers to: deleting the array that holds the reference leaves
  the item as it was. Deleting the item leaves the reference with a pointer to its freed children, which may no longer
  be read; the array may still be deleted, and the children are freed once.
\<close>

theorem json_references_share:
  assumes "owned m (add_mset r (add_mset y W))" "kids_at x [r] = Some ks" "y = Own a n ty v i d (c # cs)" "malloc_ok A NODE_SIZE"
  shows "\<exists>m1. cJSON_AddItemReferenceToArray A x a m = io_return m1 \<and>
    leads (cJSON_Delete (Some (sh_at r)) m1) (add_mset y W) \<and>
    (\<exists>m2 nd. cJSON_Delete (Some a) m1 = io_return m2 \<and> jm_nodes m2 (jm_top m) = Some nd \<and> n_child nd = Some (sh_at c) \<and>
      get_node (sh_at c) m2 = Some (Inl OutOfBounds) \<and> leads (cJSON_Delete (Some (sh_at r)) m2) W)"
proof -
  let ?y = "node_of y None None" and ?t = "Alias (jm_top m) None ty (map_option fst v) i d (Some (sh_at c))"
  let ?r = "change x (\<lambda>ks. ks @ [?t]) r"
  have "holds m (add_mset (a, ?y) (cells None (c # cs) None + (cells None [r] None + world_cells W))) (world_texts (add_mset r (add_mset y W)))"
    using assms(1) unfolding owned_def by (rule holds_perm) (simp_all add: assms(3) ac_simps)
  then have "jm_nodes m a = Some ?y" by (auto simp: holds_def intro: heap_find)
  from owned_refer [OF assms(1,2) this assms(4)] obtain m1 where m1: "cJSON_AddItemReferenceToArray A x a m = io_return m1" "owned m1 (add_mset ?r (add_mset y W))"
    by (auto simp: leads_def assms(3))
  have at: "sh_at ?r = sh_at r" by (cases r) (auto simp: change_def)
  obtain m2 where m2: "cJSON_Delete (Some a) m1 = io_return m2" "owned m2 (add_mset ?r W)"
    using owned_delete [of m1 y "add_mset ?r W"] m1(2) by (auto simp: leads_def assms(3) add_mset_commute)
  obtain nd R where "cells None [?r] None = add_mset (x, nd) (cells None (ks @ [?t]) None + R)"
    using inside [OF assms(2)] by metis
  then have t: "cells None [?r] None = add_mset (jm_top m, node_of ?t (last_at None ks) None) (add_mset (x, nd) (cells None ks (Some (jm_top m)) + R))"
    by (simp add: cells_snoc ac_simps)
  have "get_node (jm_top m) m2 = io_return (node_of ?t (last_at None ks) None)"
    using m2(2) by (intro get_held) (simp add: owned_def t)
  then have nd: "jm_nodes m2 (jm_top m) = Some (node_of ?t (last_at None ks) None)" by (simp add: get_node_def io_return_def split: option.splits)
  have "holds m1 (add_mset (sh_at c, node_of c None (first_at cs None)) (world_cells (add_mset ?r W) +
      (add_mset (a, ?y) (inner c + cells (Some (sh_at c)) cs None)))) (world_texts (add_mset ?r (add_mset y W)))"
    using m1(2) unfolding owned_def by (rule holds_perm) (simp_all add: assms(3) cells_Cons ac_simps)
  from cell_gone [OF this m2(2) [unfolded owned_def]] have "get_node (sh_at c) m2 = Some (Inl OutOfBounds)" by (simp add: get_node_def)
  moreover have "leads (cJSON_Delete (Some (sh_at r)) m1) (add_mset y W)" "leads (cJSON_Delete (Some (sh_at r)) m2) W"
    using owned_delete [OF m1(2)] owned_delete [OF m2(2)] by (simp_all add: at)
  ultimately show ?thesis using m1(1) m2(1) nd by (intro exI [of _ m1] conjI exI [of _ m2]) auto
qed

theorem json_references_share_witness:
  "\<exists>(m :: unit jmem) m1 m2. cJSON_AddItemReferenceToArray always 3 0 m = io_return m1 \<and> cJSON_Delete (Some 0) m1 = io_return m2 \<and>
     get_node 1 m2 = Some (Inl OutOfBounds)"
proof -
  let ?c = "Own 1 None JNull None 0 () ([] :: unit shape list)" and ?r = "Own 3 None JArray None 0 () ([] :: unit shape list)"
  let ?y = "Own 0 None JArray None 0 () [?c]"
  let ?m = "\<lparr>jm_nodes = [0 \<mapsto> node_of ?y None None, 1 \<mapsto> node_of ?c None None, 3 \<mapsto> node_of ?r None None], jm_strs = Map.empty, jm_top = 4\<rparr>"
  have "heap_of ([0 :: nat \<mapsto> node_of ?y None None, 1 \<mapsto> node_of ?c None None, 3 \<mapsto> node_of ?r None None])
      (add_mset (3, node_of ?r None None) (add_mset (1, node_of ?c None None) (add_mset (0, node_of ?y None None) {#})))"
    by (intro heap_new heap_empty) simp_all
  then have o: "owned ?m (add_mset ?r (add_mset ?y {#}))"
    by (simp add: owned_def holds_def heap_empty add_mset_commute)
  have "kids_at 3 [?r] = Some []" "malloc_ok always NODE_SIZE" by (simp_all add: malloc_ok_def NODE_SIZE_def)
  from json_references_share [OF o this(1) refl this(2)] show ?thesis by fastforce
qed

section \<open>Names\<close>

definition hits :: "string option \<Rightarrow> 'd shape \<Rightarrow> bool" where
  "hits name s \<longleftrightarrow> cJSON_strcasecmp_eq (map_option snd (sh_name s)) name"

lemma read_text_held: "holds m N (opt_mset n + T) \<Longrightarrow> read_text (map_option fst n) m = io_return (map_option snd n)"
  using heap_find [of "jm_strs m" "fst (the n)" "snd (the n)" T] by (cases n) (auto simp: holds_def read_text_def)

lemma walk_name_held:
  "holds m (cells p ss None + N) (texts ss + T) \<Longrightarrow>
   walk_name name (first_at ss None) i m =
     io_return (if \<exists>s \<in> set ss. hits name s then Some (i + length (takeWhile (\<lambda>s. \<not> hits name s) ss)) else None)"
proof (induction ss arbitrary: p i N T)
  case Nil
  then show ?case by (simp add: walk_name.simps)
next
  case (Cons s ss)
  have h: "holds m (add_mset (sh_at s, node_of s p (first_at ss None)) (inner s + (cells (Some (sh_at s)) ss None + N)))
      (opt_mset (sh_name s) + (body_texts s + (texts ss + T)))"
    using Cons.prems by (rule holds_perm) (simp_all add: cells_Cons texts_Cons [of s ss] texts_one ac_simps)
  have "holds m (cells (Some (sh_at s)) ss None + (add_mset (sh_at s, node_of s p (first_at ss None)) (inner s + N)))
      (texts ss + (opt_mset (sh_name s) + body_texts s + T))"
    using h by (rule holds_perm) (simp_all add: ac_simps)
  note IH = Cons.IH [OF this, of "i + 1"]
  show ?case
    by (subst walk_name.simps) (use IH in \<open>simp add: get_held [OF h] read_text_held [OF h] hits_def\<close>)
qed

text \<open>
  Replacing by name puts the item, under the name, where the first item of that name was. But its old name is
  not freed: it stays in the memory, and nothing the program owns has it.
\<close>

theorem json_replace_named:
  assumes "owned m (add_mset r (add_mset t W))" "below x r arr" "malloc_ok A (length name + 1)"
    and "object_position arr (Some name) < length (cj_child arr)"
  shows "\<exists>m' r'. ReplaceItemInObject A x name (sh_at t) m = io_return m' \<and>
    holds m' (world_cells (add_mset r' W)) (world_texts (add_mset r' W) + opt_mset (sh_name t)) \<and>
    below x r' (cJSON_ReplaceItemInObject arr name (item_of t))"
proof -
  obtain ks where ks: "kids_at x [r] = Some ks" "cj_child arr = map item_of ks" using assms(2) by (auto simp: below_def)
  have nm: "cj_string (item_of s) = map_option snd (sh_name s)" for s :: "'a shape" by (cases s) simp_all
  let ?k = "length (takeWhile (\<lambda>s. \<not> hits (Some name) s) ks)"
  have k: "object_position arr (Some name) = ?k" by (simp add: object_position_def ks takeWhile_map hits_def nm comp_def)
  then have len: "?k < length ks" using assms(4) by (simp add: ks)
  then have hit: "\<exists>s \<in> set ks. hits (Some name) s" by (metis nat_neq_iff takeWhile_eq_all_conv)
  obtain nd R U where i: "n_child nd = first_at ks None" "cells None [r] None = add_mset (x, nd) (cells None ks None + R)" "texts [r] = texts ks + U"
    using inside [OF ks(1)] by metis
  have h: "holds m (cells None ks None + (add_mset (x, nd) (R + (cells None [t] None + world_cells W)))) (texts ks + (U + (texts [t] + world_texts W)))"
    using assms(1) unfolding owned_def by (rule holds_perm) (simp_all add: i ac_simps)
  then have x: "get_node x m = io_return nd" by (intro get_held [of m x nd]) (erule holds_perm, simp_all add: ac_simps)
  have w: "walk_name (Some name) (n_child nd) 0 m = io_return (Some ?k)" using walk_name_held [OF h, of "Some name" 0] hit by (simp add: i(1))
  obtain s m1 where s: "cJSON_strdup A (Some name) m = (s, m1)" by fastforce
  let ?n = "owned_text m1 s"
  have n: "map_option snd ?n = Some name" using s assms(3) by (auto simp: cJSON_strdup_def owned_text_def Let_def)
  have "holds m (add_mset (sh_at t, node_of t None None) (inner t + (cells None [r] None + world_cells W))) (world_texts (add_mset r (add_mset t W)))"
    using assms(1) unfolding owned_def by (rule holds_perm) (simp_all add: cells_Cons ac_simps)
  from put_held [OF strdup_held [OF this s], of "\<lambda>nd. nd\<lparr>n_string := s\<rparr>"]
  obtain m2 where m2: "put_node (sh_at t) (\<lambda>nd. nd\<lparr>n_string := s\<rparr>) m1 = io_return m2"
      "holds m2 (add_mset (sh_at t, node_of (rename ?n t) None None) (inner t + (cells None [r] None + world_cells W)))
        (opt_mset ?n + world_texts (add_mset r (add_mset t W)))" by (auto simp: leaves_def)
  have "holds m2 (world_cells (add_mset r (add_mset (rename ?n t) W))) (world_texts (add_mset r (add_mset (rename ?n t) W)) + opt_mset (sh_name t))"
    using m2(2) by (rule holds_perm) (simp_all add: cells_Cons texts_one ac_simps)
  from replace_framed [OF this ks(1), of "int ?k"] len
  obtain m3 where m3: "ReplaceItemInArray x (int ?k) (sh_at t) m2 = io_return m3"
      "holds m3 (world_cells (add_mset (change x (\<lambda>ks. ks[?k := rename ?n t]) r) W))
        (world_texts (add_mset (change x (\<lambda>ks. ks[?k := rename ?n t]) r) W) + opt_mset (sh_name t))" by (auto simp: leaves_def)
  have "below x (change x (\<lambda>ks. ks[?k := rename ?n t]) r) (cJSON_ReplaceItemInObject arr name (item_of t))"
    using kids_change [OF ks(1)] len
    by (simp add: below_def cJSON_ReplaceItemInObject_def cJSON_ReplaceItemInArray_def ks k map_update item_rename n)
  moreover have "ReplaceItemInObject A x name (sh_at t) m = io_return m3"
    using x w s m2(1) m3(1) by (simp add: ReplaceItemInObject_def)
  ultimately show ?thesis using m3(2) by blast
qed

theorem json_replace_named_witness:
  "\<exists>(m :: unit jmem) m'. jm_strs m 6 = Some ''old'' \<and> ReplaceItemInObject always 3 ''K'' 0 m = io_return m' \<and> jm_strs m' 6 = Some ''old''"
proof -
  let ?c = "Own 1 (Some (5, ''k'')) JNull None 0 () ([] :: unit shape list)"
  let ?r = "Own 3 None JObject None 0 () [?c]" and ?t = "Own 0 (Some (6, ''old'')) JNull None 0 () ([] :: unit shape list)"
  let ?m = "\<lparr>jm_nodes = [0 \<mapsto> node_of ?t None None, 1 \<mapsto> node_of ?c None None, 3 \<mapsto> node_of ?r None None],
      jm_strs = [5 \<mapsto> ''k'', 6 \<mapsto> ''old''], jm_top = 7\<rparr>"
  have "heap_of ([0 :: nat \<mapsto> node_of ?t None None, 1 \<mapsto> node_of ?c None None, 3 \<mapsto> node_of ?r None None])
      (add_mset (3, node_of ?r None None) (add_mset (1, node_of ?c None None) (add_mset (0, node_of ?t None None) {#})))"
    by (intro heap_new heap_empty) simp_all
  moreover have "heap_of ([5 :: nat \<mapsto> ''k'', 6 \<mapsto> ''old'']) (add_mset (6, ''old'') (add_mset (5, ''k'') {#}))"
    by (intro heap_new heap_empty) simp_all
  ultimately have o: "owned ?m (add_mset ?r (add_mset ?t {#}))" by (simp add: owned_def holds_def add_mset_commute)
  have b: "below 3 ?r (item_of ?r)" by (simp add: below_def)
  have c: "cJSON_strcasecmp_eq (Some ''k'') (Some ''K'')" by (simp add: cJSON_strcasecmp_eq_def strcaseeq_def c_tolower_def char_eval)
  have "malloc_ok always (length ''K'' + 1)" "object_position (item_of ?r) (Some ''K'') < length (cj_child (item_of ?r))"
    by (simp_all add: malloc_ok_def object_position_def c)
  from json_replace_named [OF o b this] obtain m' r' where r: "ReplaceItemInObject always 3 ''K'' (sh_at ?t) ?m = io_return m'"
      "holds m' (world_cells {#r'#}) (world_texts {#r'#} + opt_mset (sh_name ?t))" by auto
  then have "jm_strs m' 6 = Some ''old''" using heap_find [of "jm_strs m'" 6 "''old''"] by (auto simp: holds_def)
  then show ?thesis using r(1) by (intro exI [of _ ?m] exI [of _ m']) simp
qed

end
