(* ===== verification/JsonTyped.thy ===== *)
theory JsonTyped
  imports EslJson
begin

text \<open>
  The types of the JSON items of \<^verbatim>\<open>esl/esl_json.c\<close>: which of the fields of the struct belong to which \<open>type\<close>. The
  parser keeps to them, the functions that create items too, and the operations on the children of an item.
\<close>

section \<open>Typed items\<close>

text \<open>Text where there should be text, an integer that fits the number, children only below arrays and objects, names below objects.\<close>

primrec typed_item :: "'d double_ops \<Rightarrow> 'd cJSON \<Rightarrow> bool" where
  "typed_item F (Item t vs vi vd s ch) \<longleftrightarrow>
     list_all (\<lambda>b. b) (map (typed_item F) ch) \<and> (\<forall>n. s = Some n \<longrightarrow> cstring n) \<and>
     (case t of
        JNumber \<Rightarrow> vs = None \<and> vi = dbl_trunc F vd \<and> ch = []
      | JString \<Rightarrow> (\<exists>v. vs = Some v \<and> cstring v) \<and> vi = 0 \<and> vd = dbl_of_int F 0 \<and> ch = []
      | JTrue \<Rightarrow> vs = None \<and> vi \<in> {0, 1} \<and> vd = dbl_of_int F 0 \<and> ch = []
      | JFalse \<Rightarrow> vs = None \<and> vi = 0 \<and> vd = dbl_of_int F 0 \<and> ch = []
      | JNull \<Rightarrow> vs = None \<and> vi = 0 \<and> vd = dbl_of_int F 0 \<and> ch = []
      | JArray \<Rightarrow> vs = None \<and> vi = 0 \<and> vd = dbl_of_int F 0
      | JObject \<Rightarrow> vs = None \<and> vi = 0 \<and> vd = dbl_of_int F 0 \<and> list_all (\<lambda>c. cj_string c \<noteq> None) ch)"

lemma typed_child: "typed_item F it \<Longrightarrow> list_all (typed_item F) (cj_child it)"
  by (cases it) (simp add: list_all_iff)

lemma typed_named: "typed_item F it \<Longrightarrow> cstring n \<Longrightarrow> typed_item F (set_string (Some n) it)"
  by (cases it) simp

lemma type_of_set [simp]: "cj_type (set_child l it) = cj_type it" "cj_string (set_string n it) = n" "cj_child (set_child l it) = l"
  by (cases it; simp)+

lemma typed_children:
  assumes "typed_item F it" "cj_type it \<in> {JArray, JObject}" "list_all (typed_item F) l"
    and "cj_type it = JObject \<longrightarrow> list_all (\<lambda>c. cj_string c \<noteq> None) l"
  shows "typed_item F (set_child l it)"
  using assms by (cases it) (auto simp: list_all_iff)

lemma c_str_cstring: "cstring (c_str s)"
  by (auto simp: cstring_def c_str_def dest: set_takeWhileD)

lemma parse_string_typed:
  assumes "parse_string (cJSON_New_Item F) s = Inr (Some (it, r))"
  shows "typed_item F it \<and> cj_string it = None \<and> (\<exists>v. cj_valuestring it = Some v \<and> cstring v)"
proof -
  obtain out rest where u: "unescape (tl s) = (out, rest)" by fastforce
  have "it = Item JString (Some (c_str out)) 0 (dbl_of_int F 0) None []"
    using assms by (auto simp: parse_string_def u cJSON_New_Item_def fault_simps split: if_splits)
  then show ?thesis by (simp add: c_str_cstring)
qed

lemma parse_number_typed: "parse_number F (cJSON_New_Item F) s = (it, r) \<Longrightarrow> typed_item F it \<and> cj_string it = None"
  by (auto simp: parse_number_def cJSON_New_Item_def Let_def split: prod.splits)

lemma parse_typed:
  "parse_value F v = Inr (Some (it, r)) \<Longrightarrow> typed_item F it \<and> cj_string it = None"
  "parse_elems F v = Inr (Some (its, r)) \<Longrightarrow> list_all (typed_item F) its"
  "parse_members F v = Inr (Some (its, r)) \<Longrightarrow> list_all (typed_item F) its \<and> list_all (\<lambda>c. cj_string c \<noteq> None) its"
proof (induction F v and F v and F v arbitrary: it r and its r and its r rule: parse_value_parse_elems_parse_members.induct)
  case (1 F v)
  let ?new = "cJSON_New_Item F"
  have new: "typed_item F (set_child l (set_type JArray ?new)) \<and> cj_string (set_child l (set_type JArray ?new)) = None"
    if "list_all (typed_item F) l" for l using that by (simp add: cJSON_New_Item_def list_all_iff)
  have obj: "typed_item F (set_child l (set_type JObject ?new)) \<and> cj_string (set_child l (set_type JObject ?new)) = None"
    if "list_all (typed_item F) l" "list_all (\<lambda>c. cj_string c \<noteq> None) l" for l using that by (simp add: cJSON_New_Item_def list_all_iff)
  have leaf: "typed_item F (set_type t ?new) \<and> cj_string (set_type t ?new) = None" if "t \<in> {JNull, JFalse, JArray, JObject}" for t
    using that by (auto simp: cJSON_New_Item_def)
  have true: "typed_item F (set_type JTrue (set_number 1 (cj_valuedouble ?new) ?new)) \<and>
      cj_string (set_type JTrue (set_number 1 (cj_valuedouble ?new) ?new)) = None"
    by (simp add: cJSON_New_Item_def)
  note e = "1.prems" [unfolded parse_value.simps [of F v] Let_def]
  show ?case
  proof (cases "prefix ''null'' v \<or> prefix ''false'' v \<or> prefix ''true'' v")
    case True
    then show ?thesis using e leaf true by (auto split: if_splits)
  next
    case word: False
    then obtain c t where v: "v = c # t" using e by (cases v) auto
    show ?thesis
    proof (cases "c = DQ \<or> c = CHR ''-'' \<or> c_isdigit c")
      case True
      then have "parse_string ?new v = Inr (Some (it, r)) \<or> parse_number F ?new v = (it, r)"
        using e word v by (simp split: if_splits)
      then show ?thesis using parse_string_typed parse_number_typed by blast
    next
      case other: False
      have w: "\<not> prefix ''null'' v" "\<not> prefix ''false'' v" "\<not> prefix ''true'' v" "c \<noteq> DQ" "\<not> (c = CHR ''-'' \<or> c_isdigit c)"
        using word other by blast+
      have brace: "c = CHR ''{''" if "c \<noteq> CHR ''[''" using e word v other that by (simp split: if_splits)
      consider (array) "c = CHR ''[''" "starts (skip t) (\<lambda>c. c = CHR '']'')" | (elems) "c = CHR ''[''" "\<not> starts (skip t) (\<lambda>c. c = CHR '']'')"
        | (object) "c \<noteq> CHR ''[''" "c = CHR ''{''" "starts (skip t) (\<lambda>c. c = CHR ''}'')"
        | (members) "c \<noteq> CHR ''[''" "c = CHR ''{''" "\<not> starts (skip t) (\<lambda>c. c = CHR ''}'')"
        using brace by blast
      then show ?thesis
      proof cases
        case elems
        then obtain its where its: "parse_elems F (skip t) = Inr (Some (its, r))" "it = set_child its (set_type JArray ?new)"
          using e v w by (simp split: sum.splits option.splits prod.splits)
        have "list_all (typed_item F) its"
          by (rule "1.IH"(1) [OF refl w(1-3) v w(4,5) elems its(1)])
        then show ?thesis unfolding its(2) by (rule new)
      next
        case members
        then obtain its where its: "parse_members F (skip t) = Inr (Some (its, r))" "it = set_child its (set_type JObject ?new)"
          using e v w by (simp split: sum.splits option.splits prod.splits)
        have "list_all (typed_item F) its \<and> list_all (\<lambda>c. cj_string c \<noteq> None) its"
          by (rule "1.IH"(2) [OF refl w(1-3) v w(4,5) members its(1)])
        then show ?thesis unfolding its(2) by (intro obj) (rule conjunct1, assumption, rule conjunct2)
      qed (use e v w leaf in auto)
    qed
  qed
next
  case (2 F s)
  note e = "2.prems" [unfolded parse_elems.simps [of F s]]
  obtain it r1 c r2 where p: "parse_value F (skip s) = Inr (Some (it, r1))" and k: "skip r1 = c # r2"
    using e by (auto split: sum.splits option.splits list.splits)
  have it: "typed_item F it" using "2.IH"(1) [OF p] by simp
  show ?case
  proof (cases "c = CHR '',''")
    case True
    then obtain its' where its: "parse_elems F r2 = Inr (Some (its', r))" "its = it # its'"
      using e p k by (auto split: sum.splits option.splits)
    then show ?thesis using "2.IH"(2) [OF p refl refl k True its(1)] it by simp
  next
    case False
    then have "its = [it]" using e p k by (auto split: if_splits)
    then show ?thesis using it by simp
  qed
next
  case (3 F s)
  note e = "3.prems" [unfolded parse_members.simps [of F s] Let_def]
  obtain nm r0 where n: "parse_string (cJSON_New_Item F) (skip s) = Inr (Some (nm, r0))" and col: "starts (skip r0) (\<lambda>c. c = CHR '':'')"
    using e by (auto split: sum.splits option.splits if_splits)
  obtain it r1 c r2 where p: "parse_value F (skip (tl (skip r0))) = Inr (Some (it, r1))" and k: "skip r1 = c # r2"
    using e n col by (auto split: sum.splits option.splits list.splits)
  let ?it = "set_string (cj_valuestring nm) it"
  have "typed_item F it" using "3.IH"(1) [OF n refl refl] col p by auto
  then have it: "typed_item F ?it" "cj_string ?it \<noteq> None" using parse_string_typed [OF n] by (auto intro: typed_named)
  show ?case
  proof (cases "c = CHR '',''")
    case True
    then obtain its' where its: "parse_members F r2 = Inr (Some (its', r))" "its = ?it # its'"
      using e n col p k by (auto split: sum.splits option.splits)
    have "list_all (typed_item F) its' \<and> list_all (\<lambda>c. cj_string c \<noteq> None) its'"
      using "3.IH"(2) [OF n refl refl _ p refl refl refl k True its(1)] col by simp
    then show ?thesis using it its(2) by simp
  next
    case False
    then have "its = [?it]" using e n col p k by (auto split: if_splits)
    then show ?thesis using it by simp
  qed
qed

section \<open>Properties\<close>



end
