(* ===== verification/TaskQueue.thy ===== *)
theory TaskQueue
  imports Prelude StepSystem
begin

text \<open>
  The queue of tasks for the threads of a pool (\<^verbatim>\<open>base/output/include/xTaskqueue.h\<close>) with the conditions of
  \<^verbatim>\<open>xAutoLock.h\<close>. A method is its sections under the lock: the one up to its end or to its wait, and the one
  behind the wait. The threads that wait at a condition, and those that have been woken and wait for the lock, are
  part of the state. As POSIX allows it, a thread may also wake up for no reason, or because its time is up.
\<close>

section \<open>The queue\<close>

type_synonym timespec = "int \<times> int"

definition maxTimeWait :: timespec where "maxTimeWait = (-1, -1)"
definition zeroTimeWait :: timespec where "zeroTimeWait = (0, 0)"

definition TimevalIsequal :: "timespec \<Rightarrow> timespec \<Rightarrow> bool" where
  "TimevalIsequal first second \<longleftrightarrow> fst first = fst second \<and> snd first = snd second"

record 'a task_queue =
  IsActive :: bool
  Maxsize :: nat
  CurTaskCount :: nat
  CurReadWaiter :: nat
  CurWriteWaiter :: nat
  tasklist :: "'a list"

definition new_task_queue :: "nat \<Rightarrow> 'a task_queue" where
  "new_task_queue n = \<lparr>IsActive = True, Maxsize = n, CurTaskCount = 0, CurReadWaiter = 0, CurWriteWaiter = 0, tasklist = []\<rparr>"

definition queueIsFull :: "'a task_queue \<Rightarrow> bool" where
  "queueIsFull q \<longleftrightarrow> Maxsize q \<le> CurTaskCount q"

text \<open>What a section tells the conditions \<open>m_CondTask\<close> and \<open>m_CondTaskFree\<close>, and how it ends.\<close>

datatype cond_op = NoOp | SignalTask | SignalFree | BroadcastBoth

datatype 'r outcome = Returns 'r | WaitsForSignal

text \<open>Taking the first task: the end of \<open>waitForTask\<close>.\<close>

definition take_task :: "'a task_queue \<Rightarrow> 'a option outcome \<times> cond_op \<times> 'a task_queue" where
  "take_task q =
     (case tasklist q of
        [] \<Rightarrow> (Returns None, NoOp, q)
      | node # rest \<Rightarrow>
          (Returns (Some node), if CurWriteWaiter q \<noteq> 0 then SignalFree else NoOp,
           q\<lparr>tasklist := rest, CurTaskCount := CurTaskCount q - 1\<rparr>))"

definition waitForTask :: "timespec \<Rightarrow> 'a task_queue \<Rightarrow> 'a option outcome \<times> cond_op \<times> 'a task_queue" where
  "waitForTask timeval q =
     (if \<not> IsActive q then (Returns None, NoOp, q)
      else if tasklist q = [] then
        (if TimevalIsequal timeval maxTimeWait then (WaitsForSignal, NoOp, q\<lparr>CurReadWaiter := CurReadWaiter q + 1\<rparr>)
         else if TimevalIsequal timeval zeroTimeWait then (Returns None, NoOp, q)
         else (WaitsForSignal, NoOp, q\<lparr>CurReadWaiter := CurReadWaiter q + 1\<rparr>))
      else take_task q)"

definition waitForTask_woken :: "'a task_queue \<Rightarrow> 'a option outcome \<times> cond_op \<times> 'a task_queue" where
  "waitForTask_woken q =
     (let q1 = q\<lparr>CurReadWaiter := CurReadWaiter q - 1\<rparr>
      in if \<not> IsActive q1 \<or> tasklist q1 = [] then (Returns None, NoOp, q1) else take_task q1)"

definition put_task :: "'a \<Rightarrow> 'a task_queue \<Rightarrow> bool outcome \<times> cond_op \<times> 'a task_queue" where
  "put_task node q =
     (Returns True, if CurReadWaiter q \<noteq> 0 then SignalTask else NoOp,
      q\<lparr>tasklist := tasklist q @ [node], CurTaskCount := CurTaskCount q + 1\<rparr>)"

definition pushTask :: "'a \<Rightarrow> 'a task_queue \<Rightarrow> bool outcome \<times> cond_op \<times> 'a task_queue" where
  "pushTask node q = (if \<not> IsActive q then (Returns False, NoOp, q) else put_task node q)"

definition pushTaskWithTimeOut :: "'a \<Rightarrow> timespec \<Rightarrow> 'a task_queue \<Rightarrow> bool outcome \<times> cond_op \<times> 'a task_queue" where
  "pushTaskWithTimeOut node timeval q =
     (if \<not> IsActive q then (Returns False, NoOp, q)
      else if queueIsFull q then
        (if TimevalIsequal timeval maxTimeWait then (WaitsForSignal, NoOp, q\<lparr>CurWriteWaiter := CurWriteWaiter q + 1\<rparr>)
         else if TimevalIsequal timeval zeroTimeWait then (Returns False, NoOp, q)
         else (WaitsForSignal, NoOp, q\<lparr>CurWriteWaiter := CurWriteWaiter q + 1\<rparr>))
      else put_task node q)"

definition pushTask_woken :: "'a \<Rightarrow> 'a task_queue \<Rightarrow> bool outcome \<times> cond_op \<times> 'a task_queue" where
  "pushTask_woken node q =
     (let q1 = q\<lparr>CurWriteWaiter := CurWriteWaiter q - 1\<rparr>
      in if \<not> IsActive q1 \<or> queueIsFull q1 then (Returns False, NoOp, q1) else put_task node q1)"

definition setActive :: "'a task_queue \<Rightarrow> 'a task_queue" where
  "setActive q = q\<lparr>IsActive := True\<rparr>"

definition setDeadstatus :: "'a task_queue \<Rightarrow> cond_op \<times> 'a task_queue" where
  "setDeadstatus q = (BroadcastBoth, q\<lparr>IsActive := False\<rparr>)"

definition clearAllTask :: "'a task_queue \<Rightarrow> cond_op \<times> 'a task_queue" where
  "clearAllTask q = (BroadcastBoth, q\<lparr>tasklist := [], CurTaskCount := 0\<rparr>)"

definition tq_wakeup :: "'a task_queue \<Rightarrow> cond_op \<times> 'a task_queue" where
  "tq_wakeup q = (BroadcastBoth, q)"

definition resizeQueue :: "nat \<Rightarrow> 'a task_queue \<Rightarrow> 'a task_queue" where
  "resizeQueue n q = q\<lparr>Maxsize := n\<rparr>"

section \<open>The threads\<close>

text \<open>
  Readers are known by their numbers, writers by their tasks. What was put and what was taken since the last time
  the queue was cleared is kept to state the order.
\<close>

record 'a tq_system =
  sy_queue :: "'a task_queue"
  sy_readers :: "nat list"
  sy_readers_woken :: "nat list"
  sy_writers :: "'a list"
  sy_writers_woken :: "'a list"
  sy_put :: "'a list"
  sy_taken :: "'a list"

definition tq_start :: "nat \<Rightarrow> 'a tq_system" where
  "tq_start n = \<lparr>sy_queue = new_task_queue n, sy_readers = [], sy_readers_woken = [], sy_writers = [],
     sy_writers_woken = [], sy_put = [], sy_taken = []\<rparr>"

definition remove_at :: "nat \<Rightarrow> 'b list \<Rightarrow> 'b list" where
  "remove_at i xs = take i xs @ drop (Suc i) xs"

text \<open>A signal wakes one of those that wait, whichever (\<open>i\<close>), if there is one.\<close>

definition deliver :: "nat \<Rightarrow> cond_op \<Rightarrow> 'a tq_system \<Rightarrow> 'a tq_system" where
  "deliver i sig s =
     (case sig of
        NoOp \<Rightarrow> s
      | SignalTask \<Rightarrow>
          if sy_readers s = [] then s
          else let k = i mod length (sy_readers s)
               in s\<lparr>sy_readers := remove_at k (sy_readers s), sy_readers_woken := sy_readers_woken s @ [sy_readers s ! k]\<rparr>
      | SignalFree \<Rightarrow>
          if sy_writers s = [] then s
          else let k = i mod length (sy_writers s)
               in s\<lparr>sy_writers := remove_at k (sy_writers s), sy_writers_woken := sy_writers_woken s @ [sy_writers s ! k]\<rparr>
      | BroadcastBoth \<Rightarrow>
          s\<lparr>sy_readers := [], sy_readers_woken := sy_readers_woken s @ sy_readers s,
            sy_writers := [], sy_writers_woken := sy_writers_woken s @ sy_writers s\<rparr>)"

definition after_read :: "nat \<Rightarrow> nat \<Rightarrow> 'a option outcome \<times> cond_op \<times> 'a task_queue \<Rightarrow> 'a tq_system \<Rightarrow> 'a tq_system" where
  "after_read i t r s =
     (case r of
        (WaitsForSignal, sig, q) \<Rightarrow> deliver i sig (s\<lparr>sy_queue := q, sy_readers := sy_readers s @ [t]\<rparr>)
      | (Returns None, sig, q) \<Rightarrow> deliver i sig (s\<lparr>sy_queue := q\<rparr>)
      | (Returns (Some node), sig, q) \<Rightarrow> deliver i sig (s\<lparr>sy_queue := q, sy_taken := sy_taken s @ [node]\<rparr>))"

definition after_write :: "nat \<Rightarrow> 'a \<Rightarrow> bool outcome \<times> cond_op \<times> 'a task_queue \<Rightarrow> 'a tq_system \<Rightarrow> 'a tq_system" where
  "after_write i node r s =
     (case r of
        (WaitsForSignal, sig, q) \<Rightarrow> deliver i sig (s\<lparr>sy_queue := q, sy_writers := sy_writers s @ [node]\<rparr>)
      | (Returns ok, sig, q) \<Rightarrow> deliver i sig (s\<lparr>sy_queue := q, sy_put := if ok then sy_put s @ [node] else sy_put s\<rparr>))"

definition after_all :: "cond_op \<times> 'a task_queue \<Rightarrow> 'a tq_system \<Rightarrow> 'a tq_system" where
  "after_all r s = deliver 0 (fst r) (s\<lparr>sy_queue := snd r\<rparr>)"

text \<open>One section of one thread. \<open>grow\<close> tells whether the queue may be made larger while it is used.\<close>

inductive tq_step :: "bool \<Rightarrow> 'a tq_system \<Rightarrow> 'a tq_system \<Rightarrow> bool" for grow where
  fetch: "tq_step grow s (after_read i t (waitForTask timeval (sy_queue s)) s)"
| read_woken: "k < length (sy_readers_woken s) \<Longrightarrow>
    tq_step grow s (after_read i (sy_readers_woken s ! k) (waitForTask_woken (sy_queue s))
      (s\<lparr>sy_readers_woken := remove_at k (sy_readers_woken s)\<rparr>))"
| read_wakes: "k < length (sy_readers s) \<Longrightarrow>
    tq_step grow s (s\<lparr>sy_readers := remove_at k (sy_readers s), sy_readers_woken := sy_readers_woken s @ [sy_readers s ! k]\<rparr>)"
| put: "tq_step grow s (after_write i node (pushTask node (sy_queue s)) s)"
| put_timed: "tq_step grow s (after_write i node (pushTaskWithTimeOut node timeval (sy_queue s)) s)"
| write_woken: "k < length (sy_writers_woken s) \<Longrightarrow>
    tq_step grow s (after_write i (sy_writers_woken s ! k) (pushTask_woken (sy_writers_woken s ! k) (sy_queue s))
      (s\<lparr>sy_writers_woken := remove_at k (sy_writers_woken s)\<rparr>))"
| write_wakes: "k < length (sy_writers s) \<Longrightarrow>
    tq_step grow s (s\<lparr>sy_writers := remove_at k (sy_writers s), sy_writers_woken := sy_writers_woken s @ [sy_writers s ! k]\<rparr>)"
| set_active: "tq_step grow s (s\<lparr>sy_queue := setActive (sy_queue s)\<rparr>)"
| set_dead: "tq_step grow s (after_all (setDeadstatus (sy_queue s)) s)"
| clear_all: "tq_step grow s ((after_all (clearAllTask (sy_queue s)) s)\<lparr>sy_put := sy_taken s\<rparr>)"
| wake_up: "tq_step grow s (after_all (tq_wakeup (sy_queue s)) s)"
| set_size: "grow \<or> n \<le> Maxsize (sy_queue s) \<Longrightarrow>
    tq_step grow s (s\<lparr>sy_queue := resizeQueue n (sy_queue s)\<rparr>)"

inductive_cases tq_stepE: "tq_step grow s t"

section \<open>The accounts and the order\<close>

definition tq_accounts :: "'a tq_system \<Rightarrow> bool" where
  "tq_accounts s \<longleftrightarrow>
     CurTaskCount (sy_queue s) = length (tasklist (sy_queue s)) \<and>
     CurReadWaiter (sy_queue s) = length (sy_readers s) + length (sy_readers_woken s) \<and>
     CurWriteWaiter (sy_queue s) = length (sy_writers s) + length (sy_writers_woken s) \<and>
     sy_put s = sy_taken s @ tasklist (sy_queue s)"

text \<open>Nobody waits at the condition of a dead queue, or while there are tasks and nobody is on the way to them.\<close>

definition tq_no_lost_reader :: "'a tq_system \<Rightarrow> bool" where
  "tq_no_lost_reader s \<longleftrightarrow>
     (\<not> IsActive (sy_queue s) \<longrightarrow> sy_readers s = [] \<and> sy_writers s = []) \<and>
     (sy_readers s \<noteq> [] \<longrightarrow> length (tasklist (sy_queue s)) \<le> length (sy_readers_woken s))"

definition tq_no_lost_writer :: "'a tq_system \<Rightarrow> bool" where
  "tq_no_lost_writer s \<longleftrightarrow>
     (sy_writers s \<noteq> [] \<longrightarrow> Maxsize (sy_queue s) \<le> length (tasklist (sy_queue s)) + length (sy_writers_woken s))"

lemma remove_at_length [simp]: "k < length xs \<Longrightarrow> length (remove_at k xs) = length xs - 1"
  by (simp add: remove_at_def)

lemma mod_inside [simp]: "xs \<noteq> [] \<Longrightarrow> i mod length xs < length xs"
  by (simp add: length_greater_0_conv [symmetric] del: length_greater_0_conv)

lemma remove_at_nil: "k < length xs \<Longrightarrow> remove_at k xs \<noteq> [] \<Longrightarrow> 1 < length xs"
  by (cases xs) (auto simp: remove_at_def)

lemma deliver_queue [simp]:
  "sy_queue (deliver i sig s) = sy_queue s" "sy_put (deliver i sig s) = sy_put s" "sy_taken (deliver i sig s) = sy_taken s"
  by (simp_all add: deliver_def Let_def split: cond_op.split)

lemma deliver_counts [simp]:
  "length (sy_readers (deliver i sig s)) + length (sy_readers_woken (deliver i sig s)) = length (sy_readers s) + length (sy_readers_woken s)"
  "length (sy_writers (deliver i sig s)) + length (sy_writers_woken (deliver i sig s)) = length (sy_writers s) + length (sy_writers_woken s)"
  by (simp_all add: deliver_def Let_def Suc_le_eq split: cond_op.split)

lemma deliver_accounts [simp]: "tq_accounts (deliver i sig s) = tq_accounts s"
  by (simp add: tq_accounts_def)

lemmas tq_ops = waitForTask_def waitForTask_woken_def take_task_def pushTask_def pushTaskWithTimeOut_def pushTask_woken_def
  put_task_def setActive_def setDeadstatus_def clearAllTask_def tq_wakeup_def resizeQueue_def queueIsFull_def Let_def

lemma accounts_step: "tq_accounts s \<Longrightarrow> tq_step grow s t \<Longrightarrow> tq_accounts t"
proof (erule tq_stepE, goal_cases)
  case (1 i x timeval)
  then show ?thesis by (auto simp: after_read_def tq_ops tq_accounts_def split: list.splits)
next
  case (2 k i)
  then show ?thesis by (auto simp: after_read_def tq_ops tq_accounts_def split: list.splits)
next
  case (4 i node)
  then show ?thesis by (auto simp: after_write_def tq_ops tq_accounts_def)
next
  case (5 i node timeval)
  then show ?thesis by (auto simp: after_write_def tq_ops tq_accounts_def)
next
  case (6 k i)
  then show ?thesis by (auto simp: after_write_def tq_ops tq_accounts_def)
qed (auto simp: after_all_def tq_ops tq_accounts_def)

lemma reader_step: "tq_accounts s \<Longrightarrow> tq_no_lost_reader s \<Longrightarrow> tq_step grow s t \<Longrightarrow> tq_no_lost_reader t"
proof (erule tq_stepE, goal_cases)
  case (1 i x timeval)
  then show ?thesis
    by (auto simp: after_read_def tq_ops tq_accounts_def tq_no_lost_reader_def deliver_def split: list.splits if_splits)
next
  case (2 k i)
  then show ?thesis
    by (auto simp: after_read_def tq_ops tq_accounts_def tq_no_lost_reader_def deliver_def split: list.splits if_splits)
next
  case (3 k)
  then show ?thesis by (auto simp: tq_no_lost_reader_def)
next
  case (4 i node)
  then show ?thesis
    by (auto simp: after_write_def tq_ops tq_accounts_def tq_no_lost_reader_def deliver_def split: if_splits)
next
  case (5 i node timeval)
  then show ?thesis
    by (auto simp: after_write_def tq_ops tq_accounts_def tq_no_lost_reader_def deliver_def split: if_splits)
next
  case (6 k i)
  then show ?thesis
    by (auto simp: after_write_def tq_ops tq_accounts_def tq_no_lost_reader_def deliver_def split: if_splits)
qed (auto simp: after_all_def tq_ops tq_no_lost_reader_def deliver_def)

lemma writer_step:
  "tq_accounts s \<Longrightarrow> tq_no_lost_reader s \<Longrightarrow> tq_no_lost_writer s \<Longrightarrow> tq_step False s t \<Longrightarrow> tq_no_lost_writer t"
proof (erule tq_stepE, goal_cases)
  case (1 i x timeval)
  then show ?thesis
    by (auto simp: after_read_def tq_ops tq_accounts_def tq_no_lost_writer_def deliver_def split: list.splits if_splits)
next
  case (2 k i)
  then show ?thesis
    by (auto simp: after_read_def tq_ops tq_accounts_def tq_no_lost_writer_def deliver_def split: list.splits if_splits)
next
  case (4 i node)
  then show ?thesis
    by (auto simp: after_write_def tq_ops tq_accounts_def tq_no_lost_writer_def deliver_def split: if_splits)
next
  case (5 i node timeval)
  then show ?thesis
    by (auto simp: after_write_def tq_ops tq_accounts_def tq_no_lost_writer_def deliver_def split: if_splits)
next
  case (6 k i)
  then show ?thesis
    by (auto simp: after_write_def tq_ops tq_accounts_def tq_no_lost_writer_def tq_no_lost_reader_def deliver_def split: if_splits)
qed (auto simp: after_all_def tq_ops tq_no_lost_writer_def deliver_def)

lemma tq_start_inv: "tq_accounts (tq_start n)" "tq_no_lost_reader (tq_start n)" "tq_no_lost_writer (tq_start n)"
  by (simp_all add: tq_start_def new_task_queue_def tq_accounts_def tq_no_lost_reader_def tq_no_lost_writer_def)

text \<open>Both invariants hold in every state that can be reached; the one on writers when the queue does not grow.\<close>

interpretation tq_any: step_system "\<lambda>s. s = tq_start n" "tq_step grow" "\<lambda>s. tq_accounts s \<and> tq_no_lost_reader s" for n grow
  by unfold_locales (use tq_start_inv in \<open>blast intro: accounts_step reader_step\<close>)+

interpretation tq_fixed: step_system "\<lambda>s. s = tq_start n" "tq_step False"
  "\<lambda>s. tq_accounts s \<and> tq_no_lost_reader s \<and> tq_no_lost_writer s" for n
  by unfold_locales (use tq_start_inv in \<open>blast intro: accounts_step reader_step writer_step\<close>)+

section \<open>Properties\<close>

text \<open>
  C14. Whatever the threads do, tasks are taken in the order in which they were put: those put since the queue was
  cleared last are those taken and, behind them, those in the queue. The counter of the tasks is their number, and
  the counters of the waiters count the threads between the start of their wait and its end.
\<close>

theorem task_queue_order:
  assumes "(tq_step grow)\<^sup>*\<^sup>* (tq_start n) s"
  shows "sy_put s = sy_taken s @ tasklist (sy_queue s) \<and>
    CurTaskCount (sy_queue s) = length (tasklist (sy_queue s)) \<and>
    CurReadWaiter (sy_queue s) = length (sy_readers s) + length (sy_readers_woken s) \<and>
    CurWriteWaiter (sy_queue s) = length (sy_writers s) + length (sy_writers_woken s)"
  using tq_any.reached_inv [OF refl assms] by (simp add: tq_accounts_def)

text \<open>A short run: a reader waits, a task wakes it up, and it takes the task.\<close>

definition run_reader :: "nat tq_system" where
  "run_reader = after_read 0 7 (waitForTask maxTimeWait (new_task_queue 1)) (tq_start 1)"

definition run_pushed :: "nat tq_system" where
  "run_pushed = after_write 0 5 (pushTask 5 (sy_queue run_reader)) run_reader"

lemma run_reader_step: "tq_step grow (tq_start 1) run_reader"
proof -
  have "tq_step grow (tq_start 1) (after_read 0 7 (waitForTask maxTimeWait (sy_queue (tq_start 1))) (tq_start 1 :: nat tq_system))"
    by (rule fetch)
  then show ?thesis by (simp add: run_reader_def tq_start_def)
qed

lemma run_pushed_step: "tq_step grow run_reader run_pushed"
  unfolding run_pushed_def by (rule put)

lemma run_pushed_state:
  "sy_put run_pushed = [5]" "sy_taken run_pushed = []" "sy_readers_woken run_pushed = [7]" "sy_readers run_pushed = []"
  "tasklist (sy_queue run_pushed) = [5]"
  by (simp_all add: run_pushed_def run_reader_def after_write_def after_read_def tq_ops tq_start_def new_task_queue_def
      TimevalIsequal_def deliver_def remove_at_def)

theorem task_queue_order_witness:
  "CurTaskCount (sy_queue run_pushed) = 1 \<and> CurReadWaiter (sy_queue run_pushed) = 1"
  using task_queue_order [of True 1 run_pushed] run_reader_step [of True] run_pushed_step [of True] run_pushed_state
  by (simp add: converse_rtranclp_into_rtranclp)

text \<open>
  C15. No wake-up is lost: a reader is asleep only when there are no more tasks than readers on their way to them, a
  writer only when there is no more room than writers on their way to it, and nobody sleeps at a dead queue. For
  the writers the queue must not be made larger while it is used.
\<close>

theorem task_queue_wakes:
  assumes "(tq_step False)\<^sup>*\<^sup>* (tq_start n) s"
  shows "(sy_readers s \<noteq> [] \<longrightarrow> IsActive (sy_queue s) \<and> length (tasklist (sy_queue s)) \<le> length (sy_readers_woken s)) \<and>
    (sy_writers s \<noteq> [] \<longrightarrow>
       IsActive (sy_queue s) \<and> Maxsize (sy_queue s) \<le> length (tasklist (sy_queue s)) + length (sy_writers_woken s))"
  using tq_fixed.reached_inv [OF refl assms] by (auto simp: tq_no_lost_reader_def tq_no_lost_writer_def)

theorem task_queue_wakes_witness:
  "IsActive (sy_queue run_reader) \<and> length (tasklist (sy_queue run_reader)) \<le> length (sy_readers_woken run_reader)"
proof -
  have "sy_readers run_reader \<noteq> []"
    by (simp add: run_reader_def after_read_def tq_ops new_task_queue_def TimevalIsequal_def tq_start_def deliver_def)
  then show ?thesis using task_queue_wakes [of 1 run_reader] run_reader_step [of False] by (simp add: r_into_rtranclp)
qed

section \<open>What the code does not expect\<close>

text \<open>\<open>pushTask\<close> does not look at the size.\<close>

lemma push_over_size: "IsActive q \<Longrightarrow> length (tasklist (snd (snd (pushTask x q)))) = Suc (length (tasklist q))"
  by (simp add: tq_ops)

text \<open>
  A reader that waits without limit returns without a task when another one takes the task it was woken for: the
  wait is not repeated.
\<close>

lemma stolen_wakeup:
  "fst (waitForTask_woken (snd (snd (waitForTask maxTimeWait (sy_queue run_pushed))))) = Returns None"
  by (simp add: run_pushed_def run_reader_def after_write_def after_read_def tq_ops tq_start_def new_task_queue_def
      TimevalIsequal_def deliver_def)

text \<open>A writer sleeps on when the queue is made larger.\<close>

definition run_writer :: "nat tq_system" where
  "run_writer = after_write 0 5 (pushTaskWithTimeOut 5 maxTimeWait (new_task_queue 0)) (tq_start 0)"

lemma grown_queue_sleeps:
  "\<exists>s. (tq_step True)\<^sup>*\<^sup>* (tq_start 0) s \<and> sy_writers s = [5 :: nat] \<and> sy_writers_woken s = [] \<and> \<not> queueIsFull (sy_queue s)"
proof -
  let ?s = "run_writer\<lparr>sy_queue := resizeQueue 9 (sy_queue run_writer)\<rparr>"
  have "tq_step True (tq_start 0) (after_write 0 5 (pushTaskWithTimeOut 5 maxTimeWait (sy_queue (tq_start 0))) (tq_start 0 :: nat tq_system))"
    by (rule put_timed)
  then have "tq_step True (tq_start 0) run_writer" by (simp add: run_writer_def tq_start_def)
  moreover have "tq_step True run_writer ?s" by (rule set_size) simp
  ultimately have "(tq_step True)\<^sup>*\<^sup>* (tq_start 0) ?s" by (simp add: converse_rtranclp_into_rtranclp)
  moreover have "sy_writers ?s = [5]" "sy_writers_woken ?s = []" "\<not> queueIsFull (sy_queue ?s)"
    by (simp_all add: run_writer_def after_write_def tq_ops new_task_queue_def TimevalIsequal_def tq_start_def deliver_def)
  ultimately show ?thesis by blast
qed

end
