(* ===== verification/CondWait.thy ===== *)
theory CondWait
  imports TaskQueue
begin

text \<open>
  The waiting time of a condition (\<^verbatim>\<open>xCondition\<close> of \<^verbatim>\<open>base/output/include/xAutoLock.h\<close>), as the queue of tasks
  gives it: \<open>timewait\<close> turns a duration into the point in time up to which \<^verbatim>\<open>pthread_cond_timedwait\<close> waits. That
  function is POSIX: for a time whose nanoseconds are not between 0 and 999999999 it returns \<^verbatim>\<open>EINVAL\<close> at once. Its
  result is dropped, the method returns true in every case. Seconds and nanoseconds are 64 bits wide and not near
  their ends.
\<close>

definition CONST_NAO_PER_SECOND :: int where "CONST_NAO_PER_SECOND = 1000000000"
definition CONST_NAO_PER_MICRO :: int where "CONST_NAO_PER_MICRO = 1000"

datatype cond_wait = WaitsForever | WaitsUntil timespec | ReturnsAtOnce

definition timeWaitUntil :: "timespec \<Rightarrow> cond_wait" where
  "timeWaitUntil waitTime =
     (if TimevalIsequal waitTime maxTimeWait then WaitsForever
      else if 0 \<le> snd waitTime \<and> snd waitTime < CONST_NAO_PER_SECOND then WaitsUntil waitTime else ReturnsAtOnce)"

text \<open>The clock \<open>now\<close> is in seconds and microseconds.\<close>

definition timewait :: "int \<times> int \<Rightarrow> timespec \<Rightarrow> cond_wait" where
  "timewait now abstime =
     (if TimevalIsequal abstime maxTimeWait then WaitsForever
      else
        let sec = fst abstime + fst now;
            nsec = snd abstime + snd now * CONST_NAO_PER_MICRO
        in timeWaitUntil
             (if CONST_NAO_PER_SECOND \<le> nsec then (sec + 1, nsec - CONST_NAO_PER_SECOND) else (sec, nsec)))"

definition nanoseconds :: "timespec \<Rightarrow> int" where
  "nanoseconds t = fst t * CONST_NAO_PER_SECOND + snd t"

lemma one_carry:
  fixes n k N :: int
  assumes "0 \<le> n" "n < 2 * N"
  shows "(n + k * N) div N = (if N \<le> n then k + 1 else k) \<and> (n + k * N) mod N = (if N \<le> n then n - N else n)"
proof (cases "N \<le> n")
  case True
  then have c: "n + k * N = N * (k + 1) + (n - N)" "0 \<le> n - N" "n - N < N" using assms by (simp_all add: algebra_simps)
  show ?thesis using True int_div_pos_eq [OF c] int_mod_pos_eq [OF c] by simp
next
  case False
  then have c: "n + k * N = N * k + n" "0 \<le> n" "n < N" using assms by simp_all
  show ?thesis using False int_div_pos_eq [OF c] int_mod_pos_eq [OF c] by simp
qed

text \<open>
  The deadline of a wait is the current time and the duration, exactly, when the nanoseconds are in their range,
  or at most one second above it less the fraction of the clock. One second is carried only once: for more nanoseconds
  (a duration of three seconds written as nanoseconds) the thread does not wait at all, and the caller is told the
  same as after a signal.
\<close>

theorem wait_deadline:
  assumes "0 \<le> snd now" "snd now < 1000000" "0 \<le> snd t"
  shows "timewait now t =
     (if snd t + 1000 * snd now < 2 * CONST_NAO_PER_SECOND
      then WaitsUntil ((nanoseconds t + nanoseconds (fst now, 1000 * snd now)) div CONST_NAO_PER_SECOND,
        (nanoseconds t + nanoseconds (fst now, 1000 * snd now)) mod CONST_NAO_PER_SECOND)
      else ReturnsAtOnce)"
proof -
  let ?n = "snd t + 1000 * snd now" and ?k = "fst t + fst now"
  have n: "nanoseconds t + nanoseconds (fst now, 1000 * snd now) = ?n + ?k * CONST_NAO_PER_SECOND"
    by (simp add: nanoseconds_def distrib_right)
  have pos: "0 \<le> ?n" "0 < CONST_NAO_PER_SECOND" using assms by (simp_all add: CONST_NAO_PER_SECOND_def)
  have r: "timewait now t =
     (if CONST_NAO_PER_SECOND \<le> ?n then timeWaitUntil (?k + 1, ?n - CONST_NAO_PER_SECOND) else timeWaitUntil (?k, ?n))"
    using assms by (simp add: timewait_def TimevalIsequal_def maxTimeWait_def Let_def CONST_NAO_PER_MICRO_def mult.commute)
  have w: "timeWaitUntil (a, b) = (if b < CONST_NAO_PER_SECOND then WaitsUntil (a, b) else ReturnsAtOnce)" if "0 \<le> b" for a b
    using that by (simp add: timeWaitUntil_def TimevalIsequal_def maxTimeWait_def)
  show ?thesis
    using one_carry [of ?n CONST_NAO_PER_SECOND ?k] pos unfolding n r by (auto simp: w)
qed

theorem wait_deadline_witness:
  "timewait (100, 700000) (0, 500000000) = WaitsUntil (101, 200000000) \<and> timewait (100, 0) (0, 3000000000) = ReturnsAtOnce"
  using wait_deadline [of "(100, 700000)" "(0, 500000000)"] wait_deadline [of "(100, 0)" "(0, 3000000000)"]
  by (simp add: CONST_NAO_PER_SECOND_def nanoseconds_def)

end
