(* ===== verification/SyncQueue.thy ===== *)
theory SyncQueue
  imports Prelude StepSystem
begin

text \<open>
  The queues of \<^verbatim>\<open>base/output/include/xsync_queue.h\<close> and \<^verbatim>\<open>xsync_vector.h\<close>, whose users wait at semaphores, and the
  message queue \<^verbatim>\<open>xEMsgqueue.h\<close> on top of the first. A method is up to three actions: waiting at a semaphore, its
  section under the lock, signalling a semaphore. Threads are counted by where they are between two actions. Taking
  from the empty queue is a fault.
\<close>

section \<open>The queue with two semaphores\<close>

definition MAX_QUEUE_COUNT :: nat where "MAX_QUEUE_COUNT = 1000000"

record 'a sync_queue =
  m_queue :: "'a list"
  m_Fullsema :: nat
  m_Emptysema :: nat

definition new_sync_queue :: "'a sync_queue" where
  "new_sync_queue = \<lparr>m_queue = [], m_Fullsema = 0, m_Emptysema = MAX_QUEUE_COUNT\<rparr>"

text \<open>Waiting at a semaphore: \<open>None\<close> while its value is 0.\<close>

definition sem_wait :: "nat \<Rightarrow> nat option" where
  "sem_wait v = (if v = 0 then None else Some (v - 1))"

definition sq_size :: "'a sync_queue \<Rightarrow> nat" where
  "sq_size q = length (m_queue q)"

text \<open>The sections under the lock.\<close>

definition sq_front :: "'a sync_queue \<Rightarrow> 'a c_result" where
  "sq_front q = (case m_queue q of [] \<Rightarrow> Inl OutOfBounds | x # _ \<Rightarrow> Inr x)"

definition sq_pop :: "'a sync_queue \<Rightarrow> ('a \<times> 'a sync_queue) c_result" where
  "sq_pop q = (case m_queue q of [] \<Rightarrow> Inl OutOfBounds | x # xs \<Rightarrow> Inr (x, q\<lparr>m_queue := xs\<rparr>))"

definition sq_push :: "'a \<Rightarrow> 'a sync_queue \<Rightarrow> 'a sync_queue" where
  "sq_push x q = q\<lparr>m_queue := m_queue q @ [x]\<rparr>"

definition Pop :: "'a sync_queue \<Rightarrow> 'a option \<times> 'a sync_queue" where
  "Pop q = (case m_queue q of [] \<Rightarrow> (None, q) | x # xs \<Rightarrow> (Some x, q\<lparr>m_queue := xs\<rparr>))"

text \<open>A full queue loses its oldest message.\<close>

definition push_over :: "'a \<Rightarrow> 'a sync_queue \<Rightarrow> bool \<times> 'a sync_queue" where
  "push_over x q =
     (let isFull = MAX_QUEUE_COUNT \<le> sq_size q
      in (isFull, sq_push x (if isFull then q\<lparr>m_queue := tl (m_queue q)\<rparr> else q)))"

definition Push :: "'a \<Rightarrow> 'a sync_queue \<Rightarrow> 'a sync_queue" where
  "Push x q = snd (push_over x q)"

section \<open>The threads\<close>

datatype sq_call = BlockFront | BlockPop | HarfBlockPop | BlockPush | HarfBlockPush | UnblockedPop | UnblockedPush

record 'a sq_system =
  ss_queue :: "'a sync_queue"
  ss_fronts :: nat        \<comment> \<open>\<open>BlockFront\<close> behind its wait\<close>
  ss_fronts_done :: nat   \<comment> \<open>\<open>BlockFront\<close> before its signal\<close>
  ss_pops :: nat          \<comment> \<open>\<open>BlockPop\<close> behind its wait\<close>
  ss_pops_done :: nat     \<comment> \<open>\<open>BlockPop\<close> before its signal\<close>
  ss_harf_pops :: nat     \<comment> \<open>\<open>HarfBlockPop\<close> behind its wait\<close>
  ss_pushes :: "'a list"  \<comment> \<open>\<open>BlockPush\<close> behind its wait, by the messages\<close>
  ss_pushes_done :: nat   \<comment> \<open>\<open>BlockPush\<close> and \<open>HarfBlockPush\<close> before the signal\<close>

definition sq_start :: "'a sq_system" where
  "sq_start = \<lparr>ss_queue = new_sync_queue, ss_fronts = 0, ss_fronts_done = 0, ss_pops = 0, ss_pops_done = 0,
     ss_harf_pops = 0, ss_pushes = [], ss_pushes_done = 0\<rparr>"

text \<open>One action of one thread; \<open>calls\<close> are the methods the program uses. An action that faults has no step.\<close>

inductive sq_step :: "sq_call set \<Rightarrow> 'a sq_system \<Rightarrow> 'a sq_system \<Rightarrow> bool" for calls where
  front_wait: "BlockFront \<in> calls \<Longrightarrow> sem_wait (m_Fullsema (ss_queue s)) = Some v \<Longrightarrow>
    sq_step calls s (s\<lparr>ss_queue := (ss_queue s)\<lparr>m_Fullsema := v\<rparr>, ss_fronts := ss_fronts s + 1\<rparr>)"
| front_read: "ss_fronts s = Suc n \<Longrightarrow> sq_front (ss_queue s) = Inr x \<Longrightarrow>
    sq_step calls s (s\<lparr>ss_fronts := n, ss_fronts_done := ss_fronts_done s + 1\<rparr>)"
| front_signal: "ss_fronts_done s = Suc n \<Longrightarrow>
    sq_step calls s (s\<lparr>ss_queue := (ss_queue s)\<lparr>m_Fullsema := m_Fullsema (ss_queue s) + 1\<rparr>, ss_fronts_done := n\<rparr>)"
| pop_wait: "BlockPop \<in> calls \<Longrightarrow> sem_wait (m_Fullsema (ss_queue s)) = Some v \<Longrightarrow>
    sq_step calls s (s\<lparr>ss_queue := (ss_queue s)\<lparr>m_Fullsema := v\<rparr>, ss_pops := ss_pops s + 1\<rparr>)"
| pop_take: "ss_pops s = Suc n \<Longrightarrow> sq_pop (ss_queue s) = Inr (x, q) \<Longrightarrow>
    sq_step calls s (s\<lparr>ss_queue := q, ss_pops := n, ss_pops_done := ss_pops_done s + 1\<rparr>)"
| pop_signal: "ss_pops_done s = Suc n \<Longrightarrow>
    sq_step calls s (s\<lparr>ss_queue := (ss_queue s)\<lparr>m_Emptysema := m_Emptysema (ss_queue s) + 1\<rparr>, ss_pops_done := n\<rparr>)"
| harf_pop_wait: "HarfBlockPop \<in> calls \<Longrightarrow> sem_wait (m_Fullsema (ss_queue s)) = Some v \<Longrightarrow>
    sq_step calls s (s\<lparr>ss_queue := (ss_queue s)\<lparr>m_Fullsema := v\<rparr>, ss_harf_pops := ss_harf_pops s + 1\<rparr>)"
| harf_pop_take: "ss_harf_pops s = Suc n \<Longrightarrow> sq_pop (ss_queue s) = Inr (x, q) \<Longrightarrow>
    sq_step calls s (s\<lparr>ss_queue := q, ss_harf_pops := n\<rparr>)"
| push_wait: "BlockPush \<in> calls \<Longrightarrow> sem_wait (m_Emptysema (ss_queue s)) = Some v \<Longrightarrow>
    sq_step calls s (s\<lparr>ss_queue := (ss_queue s)\<lparr>m_Emptysema := v\<rparr>, ss_pushes := ss_pushes s @ [x]\<rparr>)"
| push_put: "ss_pushes s = xs @ x # ys \<Longrightarrow>
    sq_step calls s (s\<lparr>ss_queue := sq_push x (ss_queue s), ss_pushes := xs @ ys, ss_pushes_done := ss_pushes_done s + 1\<rparr>)"
| push_signal: "ss_pushes_done s = Suc n \<Longrightarrow>
    sq_step calls s (s\<lparr>ss_queue := (ss_queue s)\<lparr>m_Fullsema := m_Fullsema (ss_queue s) + 1\<rparr>, ss_pushes_done := n\<rparr>)"
| harf_push: "HarfBlockPush \<in> calls \<Longrightarrow> push_over x (ss_queue s) = (isFull, q) \<Longrightarrow>
    sq_step calls s (s\<lparr>ss_queue := q, ss_pushes_done := ss_pushes_done s + (if isFull then 0 else 1)\<rparr>)"
| unblocked_pop: "UnblockedPop \<in> calls \<Longrightarrow> sq_step calls s (s\<lparr>ss_queue := snd (Pop (ss_queue s))\<rparr>)"
| unblocked_push: "UnblockedPush \<in> calls \<Longrightarrow> sq_step calls s (s\<lparr>ss_queue := Push x (ss_queue s)\<rparr>)"

inductive_cases sq_stepE: "sq_step calls s t"

text \<open>A thread is about to read or take from the empty queue.\<close>

definition sq_faults :: "'a sq_system \<Rightarrow> bool" where
  "sq_faults s \<longleftrightarrow>
     ss_fronts s \<noteq> 0 \<and> sq_front (ss_queue s) = Inl OutOfBounds \<or>
     (ss_pops s \<noteq> 0 \<or> ss_harf_pops s \<noteq> 0) \<and> sq_pop (ss_queue s) = Inl OutOfBounds"

section \<open>The accounts of the semaphores\<close>

definition full_accounts :: "'a sq_system \<Rightarrow> bool" where
  "full_accounts s \<longleftrightarrow>
     length (m_queue (ss_queue s)) =
       m_Fullsema (ss_queue s) + ss_fronts s + ss_fronts_done s + ss_pops s + ss_harf_pops s + ss_pushes_done s"

definition empty_accounts :: "'a sq_system \<Rightarrow> bool" where
  "empty_accounts s \<longleftrightarrow>
     m_Emptysema (ss_queue s) + length (ss_pushes s) + length (m_queue (ss_queue s)) + ss_pops_done s = MAX_QUEUE_COUNT"

definition harf_accounts :: "'a sq_system \<Rightarrow> bool" where
  "harf_accounts s \<longleftrightarrow> ss_pushes s = [] \<and> length (m_queue (ss_queue s)) \<le> MAX_QUEUE_COUNT"

lemmas sq_ops = sem_wait_def sq_size_def sq_front_def sq_pop_def sq_push_def push_over_def Push_def Pop_def

lemma full_step: "UnblockedPop \<notin> calls \<Longrightarrow> UnblockedPush \<notin> calls \<Longrightarrow> full_accounts s \<Longrightarrow> sq_step calls s t \<Longrightarrow> full_accounts t"
  by (erule sq_stepE)
     (auto simp: full_accounts_def sq_ops Let_def MAX_QUEUE_COUNT_def split: if_splits list.splits)

lemma empty_step:
  "calls \<subseteq> {BlockFront, BlockPop, BlockPush} \<Longrightarrow> ss_harf_pops s = 0 \<Longrightarrow> empty_accounts s \<Longrightarrow> sq_step calls s t \<Longrightarrow>
   empty_accounts t \<and> ss_harf_pops t = 0"
  by (erule sq_stepE) (auto simp: empty_accounts_def sq_ops split: if_splits list.splits)

lemma harf_step:
  "BlockPush \<notin> calls \<Longrightarrow> UnblockedPop \<notin> calls \<Longrightarrow> UnblockedPush \<notin> calls \<Longrightarrow> harf_accounts s \<Longrightarrow> sq_step calls s t \<Longrightarrow> harf_accounts t"
  by (erule sq_stepE)
     (auto simp: harf_accounts_def sq_ops Let_def MAX_QUEUE_COUNT_def split: if_splits list.splits)

lemma sq_start_inv: "full_accounts sq_start" "empty_accounts sq_start" "harf_accounts sq_start" "ss_harf_pops sq_start = 0"
  by (simp_all add: sq_start_def new_sync_queue_def full_accounts_def empty_accounts_def harf_accounts_def)

interpretation sq_sem: step_system "\<lambda>s. s = sq_start" "sq_step (calls - {UnblockedPop, UnblockedPush})" full_accounts for calls
  by unfold_locales (use sq_start_inv in simp, rule full_step, auto)

interpretation sq_block: step_system "\<lambda>s. s = sq_start" "sq_step {BlockFront, BlockPop, BlockPush}"
    "\<lambda>s. empty_accounts s \<and> ss_harf_pops s = 0"
  by unfold_locales (use sq_start_inv in simp, rule empty_step, auto)

interpretation sq_harf: step_system "\<lambda>s. s = sq_start" "sq_step {BlockFront, BlockPop, HarfBlockPop, HarfBlockPush}" harf_accounts
  by unfold_locales (use sq_start_inv in simp, rule harf_step, auto)

section \<open>The queue with one semaphore\<close>

record 'a sync_vector =
  sv_queue :: "'a list"
  sv_sem :: nat
  sv_puts :: nat   \<comment> \<open>\<open>put\<close> before its signal\<close>
  sv_gets :: nat   \<comment> \<open>\<open>get\<close> behind its wait\<close>

definition new_sync_vector :: "'a sync_vector" where
  "new_sync_vector = \<lparr>sv_queue = [], sv_sem = 0, sv_puts = 0, sv_gets = 0\<rparr>"

definition sv_put :: "'a \<Rightarrow> 'a sync_vector \<Rightarrow> 'a sync_vector" where
  "sv_put x v = v\<lparr>sv_queue := sv_queue v @ [x], sv_puts := sv_puts v + 1\<rparr>"

definition sv_put_signal :: "'a sync_vector \<Rightarrow> 'a sync_vector" where
  "sv_put_signal v = v\<lparr>sv_sem := sv_sem v + 1, sv_puts := sv_puts v - 1\<rparr>"

text \<open>The wait of \<open>get\<close>: with the time up the result is -1.\<close>

definition sv_get_wait :: "bool \<Rightarrow> 'a sync_vector \<Rightarrow> (int option \<times> 'a sync_vector) option" where
  "sv_get_wait time_up v =
     (case sem_wait (sv_sem v) of
        Some n \<Rightarrow> Some (None, v\<lparr>sv_sem := n, sv_gets := sv_gets v + 1\<rparr>)
      | None \<Rightarrow> if time_up then Some (Some (-1), v) else None)"

definition sv_get_take :: "'a sync_vector \<Rightarrow> (int \<times> 'a \<times> 'a sync_vector) c_result" where
  "sv_get_take v =
     (case sv_queue v of
        [] \<Rightarrow> Inl OutOfBounds
      | x # xs \<Rightarrow> Inr (0, x, v\<lparr>sv_queue := xs, sv_gets := sv_gets v - 1\<rparr>))"

definition sv_clear :: "'a sync_vector \<Rightarrow> 'a sync_vector" where
  "sv_clear v = v\<lparr>sv_queue := []\<rparr>"

definition sv_size :: "'a sync_vector \<Rightarrow> int" where
  "sv_size v = sint (word_of_nat (length (sv_queue v)) :: 32 word)"

inductive sv_step :: "bool \<Rightarrow> 'a sync_vector \<Rightarrow> 'a sync_vector \<Rightarrow> bool" for clears where
  "sv_step clears v (sv_put x v)"
| "sv_puts v \<noteq> 0 \<Longrightarrow> sv_step clears v (sv_put_signal v)"
| "sv_get_wait time_up v = Some (r, v') \<Longrightarrow> sv_step clears v v'"
| "sv_gets v \<noteq> 0 \<Longrightarrow> sv_get_take v = Inr (r, x, v') \<Longrightarrow> sv_step clears v v'"
| "clears \<Longrightarrow> sv_step clears v (sv_clear v)"

inductive_cases sv_stepE: "sv_step clears v w"

definition sv_accounts :: "'a sync_vector \<Rightarrow> bool" where
  "sv_accounts v \<longleftrightarrow> length (sv_queue v) = sv_sem v + sv_puts v + sv_gets v"

lemma sv_accounts_step: "sv_accounts v \<Longrightarrow> sv_step False v w \<Longrightarrow> sv_accounts w"
  by (erule sv_stepE)
     (auto simp: sv_accounts_def sv_put_def sv_put_signal_def sv_get_wait_def sv_get_take_def sem_wait_def
       split: if_splits list.splits)

interpretation sv_all: step_system "\<lambda>v. v = new_sync_vector" "sv_step False" sv_accounts
  by unfold_locales (simp add: sv_accounts_def new_sync_vector_def, rule sv_accounts_step)

section \<open>The message queue\<close>

datatype run_pc = AtTest | AtWait | AtTake | Ended

text \<open>The loop of \<open>run\<close>, one action at a time; \<open>None\<close> while it waits.\<close>

definition run_action :: "bool \<Rightarrow> run_pc \<Rightarrow> 'a sync_queue \<Rightarrow> (run_pc \<times> 'a sync_queue) option c_result" where
  "run_action m_flag pc q =
     (case pc of
        AtTest \<Rightarrow> Inr (Some (if m_flag then AtWait else Ended, q))
      | AtWait \<Rightarrow> Inr (map_option (\<lambda>v. (AtTake, q\<lparr>m_Fullsema := v\<rparr>)) (sem_wait (m_Fullsema q)))
      | AtTake \<Rightarrow> res_bind (sq_pop q) (\<lambda>(x, q'). Inr (Some (AtTest, q'\<lparr>m_Emptysema := m_Emptysema q' + 1\<rparr>)))
      | Ended \<Rightarrow> Inr None)"

section \<open>Properties\<close>


definition sq_pushed :: "nat sq_system" where
  "sq_pushed = sq_start\<lparr>ss_queue := \<lparr>m_queue = [3], m_Fullsema = 0, m_Emptysema = MAX_QUEUE_COUNT\<rparr>, ss_pushes_done := 1\<rparr>"

lemma sq_pushed_reached: "HarfBlockPush \<in> calls \<Longrightarrow> (sq_step calls)\<^sup>*\<^sup>* sq_start sq_pushed"
proof -
  assume "HarfBlockPush \<in> calls"
  moreover have "push_over 3 (ss_queue sq_start) = (False, \<lparr>m_queue = [3 :: nat], m_Fullsema = 0, m_Emptysema = MAX_QUEUE_COUNT\<rparr>)"
    by (simp add: push_over_def Let_def sq_start_def new_sync_queue_def sq_size_def sq_push_def MAX_QUEUE_COUNT_def)
  ultimately have "sq_step calls sq_start (sq_start\<lparr>ss_queue := \<lparr>m_queue = [3 :: nat], m_Fullsema = 0, m_Emptysema = MAX_QUEUE_COUNT\<rparr>,
      ss_pushes_done := ss_pushes_done (sq_start :: nat sq_system) + (if False then 0 else 1)\<rparr>)"
    by (rule harf_push)
  then show ?thesis by (simp add: sq_pushed_def sq_start_def r_into_rtranclp)
qed


text \<open>
  C17. A queue with one semaphore that is never cleared has a message for every thread that has passed the
  semaphore; once it is cleared, the semaphore still counts the messages that are gone, and taking one is a fault.
\<close>

theorem sync_vector_clear_faults:
  "((sv_step False)\<^sup>*\<^sup>* new_sync_vector v \<and> sv_gets v \<noteq> 0 \<longrightarrow> (\<exists>x v'. sv_get_take v = Inr (0, x, v'))) \<and>
   (\<exists>v. (sv_step True)\<^sup>*\<^sup>* new_sync_vector (v :: 'a sync_vector) \<and> sv_gets v \<noteq> 0 \<and> sv_get_take v = Inl OutOfBounds)"
proof (intro conjI impI)
  assume r: "(sv_step False)\<^sup>*\<^sup>* new_sync_vector v \<and> sv_gets v \<noteq> 0"
  then have "sv_accounts v" using sv_all.reached_inv by blast
  then show "\<exists>x v'. sv_get_take v = Inr (0, x, v')"
    using r by (cases "sv_queue v") (auto simp: sv_accounts_def sv_get_take_def)
next
  let ?v0 = "new_sync_vector :: 'a sync_vector"
  fix x :: 'a
  let ?v1 = "sv_put x ?v0"
  let ?v2 = "sv_put_signal ?v1"
  let ?v3 = "sv_clear ?v2"
  let ?v4 = "?v3\<lparr>sv_sem := 0, sv_gets := 1\<rparr>"
  have 1: "sv_step True ?v0 ?v1" by (rule sv_step.intros)
  have 2: "sv_step True ?v1 ?v2" by (rule sv_step.intros) (simp add: sv_put_def)
  have 3: "sv_step True ?v2 ?v3" by (rule sv_step.intros) simp
  have 4: "sv_step True ?v3 ?v4"
    by (rule sv_step.intros(3) [where time_up = False and r = None])
       (simp add: sv_get_wait_def sem_wait_def sv_clear_def sv_put_signal_def sv_put_def new_sync_vector_def)
  note rtranclp.rtrancl_into_rtrancl [OF rtranclp.rtrancl_into_rtrancl [OF rtranclp.rtrancl_into_rtrancl [OF r_into_rtranclp [of "sv_step True", OF 1] 2] 3] 4]
  then show "\<exists>v. (sv_step True)\<^sup>*\<^sup>* new_sync_vector (v :: 'a sync_vector) \<and> sv_gets v \<noteq> 0 \<and> sv_get_take v = Inl OutOfBounds"
    by (intro exI [of _ ?v4]) (simp add: sv_get_take_def sv_clear_def)
qed

theorem sync_vector_clear_faults_witness:
  "\<exists>x v'. sv_get_take \<lparr>sv_queue = [4 :: nat], sv_sem = 0, sv_puts = 0, sv_gets = 1\<rparr> = Inr (0, x, v')"
proof -
  let ?v0 = "new_sync_vector :: nat sync_vector"
  let ?v1 = "sv_put 4 ?v0"
  let ?v2 = "sv_put_signal ?v1"
  let ?v3 = "?v2\<lparr>sv_sem := 0, sv_gets := 1\<rparr>"
  have 1: "sv_step False ?v0 ?v1" by (rule sv_step.intros)
  have 2: "sv_step False ?v1 ?v2" by (rule sv_step.intros) (simp add: sv_put_def)
  have 3: "sv_step False ?v2 ?v3"
    by (rule sv_step.intros(3) [where time_up = False and r = None])
       (simp add: sv_get_wait_def sem_wait_def sv_put_signal_def sv_put_def new_sync_vector_def)
  note rtranclp.rtrancl_into_rtrancl [OF rtranclp.rtrancl_into_rtrancl [OF r_into_rtranclp [of "sv_step False", OF 1] 2] 3]
  moreover have "?v3 = \<lparr>sv_queue = [4], sv_sem = 0, sv_puts = 0, sv_gets = 1\<rparr>"
    by (simp add: sv_put_signal_def sv_put_def new_sync_vector_def)
  ultimately show ?thesis using sync_vector_clear_faults [of ?v3] by auto
qed

section \<open>What the code does not expect\<close>

text \<open>A message put with \<open>Push\<close> is never announced: a thread that waits for one goes on waiting.\<close>

lemma push_unannounced: "m_Fullsema (Push x q) = m_Fullsema q"
  by (simp add: Push_def push_over_def Let_def sq_push_def)

text \<open>\<open>Pop\<close> takes a message that was announced: the thread that has passed the semaphore finds the queue empty.\<close>

lemma pop_steals:
  "sq_faults (sq_start\<lparr>ss_queue := snd (Pop \<lparr>m_queue = [x], m_Fullsema = 0, m_Emptysema = e\<rparr>), ss_pops := 1\<rparr>)"
  by (simp add: sq_faults_def Pop_def sq_pop_def)

text \<open>Stopping the message queue does not wake its thread, which stays in its wait.\<close>

lemma stopped_thread_waits: "m_Fullsema q = 0 \<Longrightarrow> run_action False AtWait q = Inr None"
  by (simp add: run_action_def sem_wait_def)

end
