(* ===== verification/SmartPtr.thy ===== *)
theory SmartPtr
  imports Prelude
begin

text \<open>
  The counting pointers of \<^verbatim>\<open>base/output/include/xsmartPtr.h\<close>. Objects have addresses and carry their counters
  (\<^verbatim>\<open>xShareable\<close>, whose \<open>inc\<close> and \<open>dec\<close> are in a library and a parameter here); the pointers are variables, each dead,
  null or at an object. Using an object that has been deleted is a fault.
\<close>

section \<open>Objects and pointers\<close>

record shareable =
  sh_inc :: "int \<Rightarrow> int"
  sh_dec :: "int \<Rightarrow> int"

definition counts_by_one :: "shareable \<Rightarrow> bool" where
  "counts_by_one sh \<longleftrightarrow> (\<forall>n. sh_inc sh n = n + 1 \<and> sh_dec sh n = n - 1)"

record objects =
  obj_count :: "nat \<Rightarrow> int option"
  pointer :: "nat \<Rightarrow> nat option option"

definition obj_inc :: "shareable \<Rightarrow> nat \<Rightarrow> objects \<Rightarrow> objects c_result" where
  "obj_inc sh a st =
     (case obj_count st a of
        None \<Rightarrow> Inl OutOfBounds
      | Some c \<Rightarrow> Inr (st\<lparr>obj_count := (obj_count st)(a \<mapsto> sh_inc sh c)\<rparr>))"

text \<open>\<open>dec\<close> gives the new counter; at 0 the object is deleted.\<close>

definition obj_release :: "shareable \<Rightarrow> nat \<Rightarrow> objects \<Rightarrow> objects c_result" where
  "obj_release sh a st =
     (case obj_count st a of
        None \<Rightarrow> Inl OutOfBounds
      | Some c \<Rightarrow>
          Inr (st\<lparr>obj_count := (obj_count st)(a := if sh_dec sh c = 0 then None else Some (sh_dec sh c))\<rparr>))"

definition set_pointer :: "nat \<Rightarrow> nat option option \<Rightarrow> objects \<Rightarrow> objects" where
  "set_pointer v p st = st\<lparr>pointer := (pointer st)(v := p)\<rparr>"

definition smart_new :: "shareable \<Rightarrow> nat \<Rightarrow> nat option \<Rightarrow> objects \<Rightarrow> objects c_result" where
  "smart_new sh v ptr st =
     (case ptr of
        None \<Rightarrow> Inr (set_pointer v (Some None) st)
      | Some a \<Rightarrow> res_bind (obj_inc sh a st) (\<lambda>st1. Inr (set_pointer v (Some (Some a)) st1)))"

definition smart_get :: "nat \<Rightarrow> objects \<Rightarrow> nat option c_result" where
  "smart_get v st = (case pointer st v of None \<Rightarrow> Inl OutOfBounds | Some p \<Rightarrow> Inr p)"

definition smart_copy :: "shareable \<Rightarrow> nat \<Rightarrow> nat \<Rightarrow> objects \<Rightarrow> objects c_result" where
  "smart_copy sh v other st = res_bind (smart_get other st) (\<lambda>p. smart_new sh v p st)"

definition smart_delete :: "shareable \<Rightarrow> nat \<Rightarrow> objects \<Rightarrow> objects c_result" where
  "smart_delete sh v st =
     res_bind (smart_get v st) (\<lambda>p.
       case p of
         None \<Rightarrow> Inr (set_pointer v None st)
       | Some a \<Rightarrow> res_bind (obj_release sh a st) (\<lambda>st1. Inr (set_pointer v None st1)))"

text \<open>The new object is counted before the old one is released.\<close>

definition smart_assign :: "shareable \<Rightarrow> nat \<Rightarrow> nat \<Rightarrow> objects \<Rightarrow> objects c_result" where
  "smart_assign sh v r st =
     res_bind (smart_get v st) (\<lambda>p.
     res_bind (smart_get r st) (\<lambda>q.
       if p = q then Inr st
       else res_bind (case q of None \<Rightarrow> Inr st | Some a \<Rightarrow> obj_inc sh a st) (\<lambda>st1.
         let st2 = set_pointer v (Some q) st1
         in case p of None \<Rightarrow> Inr st2 | Some b \<Rightarrow> obj_release sh b st2)))"

definition is_valid :: "nat \<Rightarrow> objects \<Rightarrow> bool c_result" where
  "is_valid v st = res_bind (smart_get v st) (\<lambda>p. Inr (p \<noteq> None))"

section \<open>The counter is the number of the pointers\<close>

definition pointers_to :: "objects \<Rightarrow> nat \<Rightarrow> nat set" where
  "pointers_to st a = {v. pointer st v = Some (Some a)}"

definition counted :: "objects \<Rightarrow> bool" where
  "counted st \<longleftrightarrow>
     finite {v. pointer st v \<noteq> None} \<and>
     (\<forall>a. obj_count st a = None \<longrightarrow> pointers_to st a = {}) \<and>
     (\<forall>a c. obj_count st a = Some c \<longrightarrow> c = int (card (pointers_to st a)))"

lemma pointers_to_set:
  "pointers_to (set_pointer v p st) a = (if p = Some (Some a) then insert v (pointers_to st a) else pointers_to st a - {v})"
  by (auto simp: pointers_to_def set_pointer_def)

lemma pointers_to_count [simp]: "pointers_to (st\<lparr>obj_count := m\<rparr>) a = pointers_to st a"
  by (simp add: pointers_to_def)

lemma pointers_finite: "counted st \<Longrightarrow> finite (pointers_to st a)"
  by (rule finite_subset [of _ "{v. pointer st v \<noteq> None}"]) (auto simp: pointers_to_def counted_def)

lemma live_finite: "counted st \<Longrightarrow> finite {w. pointer (set_pointer v p (st\<lparr>obj_count := m\<rparr>)) w \<noteq> None}"
  by (rule finite_subset [of _ "insert v {v. pointer st v \<noteq> None}"]) (auto simp: set_pointer_def counted_def)

lemma card_set:
  assumes "finite (pointers_to st b)"
  shows "int (card (pointers_to (set_pointer v q st) b)) =
    int (card (pointers_to st b)) + (if q = Some (Some b) then 1 else 0) - (if v \<in> pointers_to st b then 1 else 0)"
proof -
  have "v \<in> pointers_to st b \<Longrightarrow> 1 \<le> card (pointers_to st b)" using assms by (auto simp: card_gt_0_iff Suc_le_eq)
  then show ?thesis using assms by (auto simp: pointers_to_set card_insert_if card_Diff_singleton_if of_nat_diff)
qed

lemma pointers_to_self: "v \<in> pointers_to st b \<longleftrightarrow> pointer st v = Some (Some b)"
  by (simp add: pointers_to_def)

lemma sole_pointer: "pointers_to st a = {v} \<Longrightarrow> pointer st v = Some (Some a)"
  by (simp add: pointers_to_self [symmetric])

text \<open>
  One pointer moves to another place, and the counters follow. An object nobody points to any more is deleted
  or stays with the counter 0.
\<close>

lemma counted_move:
  assumes "counted st"
    and "\<forall>b. m b = None \<longrightarrow> q \<noteq> Some (Some b) \<and> pointers_to st b \<subseteq> {v}"
    and "\<forall>b c. m b = Some c \<longrightarrow> (\<exists>d. obj_count st b = Some d \<and>
      c = d + (if q = Some (Some b) then 1 else 0) - (if pointer st v = Some (Some b) then 1 else 0))"
  shows "counted (set_pointer v q (st\<lparr>obj_count := m\<rparr>))"
proof -
  have "pointers_to (set_pointer v q (st\<lparr>obj_count := m\<rparr>)) b = {}" if "m b = None" for b
    using assms(2) that by (auto simp: pointers_to_set)
  moreover have "c = int (card (pointers_to (set_pointer v q (st\<lparr>obj_count := m\<rparr>)) b))" if "m b = Some c" for b c
    using assms(1,3) that card_set [of "st\<lparr>obj_count := m\<rparr>" b v q] pointers_finite [OF assms(1), of b]
    by (fastforce simp: counted_def pointers_to_self)
  ultimately show ?thesis using live_finite [OF assms(1)] unfolding counted_def
    by (simp add: set_pointer_def)
qed

lemma count_at:
  assumes "counted st" "pointer st v = Some (Some a)"
  shows "\<exists>c. obj_count st a = Some c \<and> c = int (card (pointers_to st a)) \<and> 0 < c"
proof -
  have v: "v \<in> pointers_to st a" using assms(2) by (simp add: pointers_to_self)
  then obtain c where "obj_count st a = Some c" using assms(1) by (cases "obj_count st a") (auto simp: counted_def)
  moreover from this have "c = int (card (pointers_to st a))" using assms(1) by (simp add: counted_def)
  moreover have "0 < card (pointers_to st a)" using v pointers_finite [OF assms(1)] by (auto simp: card_gt_0_iff)
  ultimately show ?thesis by simp
qed

lemma one_left: "counted st \<Longrightarrow> pointer st v = Some (Some a) \<Longrightarrow> obj_count st a = Some 1 \<longleftrightarrow> pointers_to st a = {v}"
proof -
  assume st: "counted st" "pointer st v = Some (Some a)"
  obtain c where c: "obj_count st a = Some c" "c = int (card (pointers_to st a))" using count_at [OF st] by blast
  have "v \<in> pointers_to st a" using st(2) by (simp add: pointers_to_self)
  then have "card (pointers_to st a) = 1 \<longleftrightarrow> pointers_to st a = {v}" by (auto simp: card_1_singleton_iff)
  then show ?thesis using c by simp
qed

text \<open>The operations as moves.\<close>

lemma smart_new_counted:
  assumes "counts_by_one sh" "counted st" "\<forall>b. pointer st v \<noteq> Some (Some b)"
    and "case p of None \<Rightarrow> True | Some a \<Rightarrow> obj_count st a \<noteq> None"
  shows "\<exists>st'. smart_new sh v p st = Inr st' \<and> counted st' \<and> pointer st' v = Some p \<and>
    (\<forall>a. obj_count st' a = None \<longleftrightarrow> obj_count st a = None)"
proof (cases p)
  case None
  have "counted (set_pointer v (Some None) (st\<lparr>obj_count := obj_count st\<rparr>))"
    using assms(2,3) by (intro counted_move) (auto simp: counted_def)
  then show ?thesis using None by (simp add: smart_new_def set_pointer_def)
next
  case (Some a)
  then obtain c where c: "obj_count st a = Some c" using assms(4) by auto
  have "counted (set_pointer v (Some (Some a)) (st\<lparr>obj_count := (obj_count st)(a \<mapsto> c + 1)\<rparr>))"
    using assms(2,3) c by (intro counted_move) (auto simp: counted_def)
  then show ?thesis using Some c assms(1) by (auto simp: smart_new_def obj_inc_def counts_by_one_def set_pointer_def)
qed

lemma smart_delete_counted:
  assumes "counts_by_one sh" "counted st" "pointer st v \<noteq> None"
  shows "\<exists>st'. smart_delete sh v st = Inr st' \<and> counted st' \<and> pointer st' v = None \<and>
    (\<forall>a. obj_count st' a = None \<longleftrightarrow> obj_count st a = None \<or> pointers_to st a = {v})"
proof (cases "pointer st v = Some None")
  case True
  have "counted (set_pointer v None (st\<lparr>obj_count := obj_count st\<rparr>))"
    using assms(2) True by (intro counted_move) (auto simp: counted_def)
  moreover have "pointers_to st b \<noteq> {v}" for b using sole_pointer [of st b v] True by auto
  ultimately show ?thesis using True by (simp add: smart_delete_def smart_get_def set_pointer_def)
next
  case False
  then obtain a where a: "pointer st v = Some (Some a)" using assms(3) by auto
  obtain c where c: "obj_count st a = Some c" "0 < c" using count_at [OF assms(2) a] by blast
  have one: "c = 1 \<longleftrightarrow> pointers_to st a = {v}" using one_left [OF assms(2) a] c by simp
  have "counted (set_pointer v None (st\<lparr>obj_count := (obj_count st)(a := if c - 1 = 0 then None else Some (c - 1))\<rparr>))"
    using assms(2) a c one by (intro counted_move) (auto simp: counted_def)
  moreover have "pointers_to st b = {v} \<longleftrightarrow> b = a \<and> c = 1" for b using a sole_pointer [of st b v] one by auto
  ultimately show ?thesis using a c assms(1)
    by (cases "c = 1") (simp_all add: smart_delete_def smart_get_def obj_release_def counts_by_one_def set_pointer_def)
qed

lemma smart_assign_counted:
  assumes "counts_by_one sh" "counted st" "pointer st v = Some p" "pointer st r = Some q"
  shows "\<exists>st'. smart_assign sh v r st = Inr st' \<and> counted st' \<and> pointer st' v = Some q \<and>
    (\<forall>a. obj_count st' a = None \<longleftrightarrow> obj_count st a = None \<or> p \<noteq> q \<and> pointers_to st a = {v})"
proof (cases "p = q")
  case True
  then show ?thesis using assms by (auto simp: smart_assign_def smart_get_def)
next
  case False
  define m1 where "m1 = (case q of None \<Rightarrow> obj_count st | Some a \<Rightarrow> (obj_count st)(a := map_option (\<lambda>c. c + 1) (obj_count st a)))"
  define m2 where "m2 = (case p of None \<Rightarrow> m1 | Some b \<Rightarrow> m1(b := (case obj_count st b of None \<Rightarrow> None | Some c \<Rightarrow> if c - 1 = 0 then None else Some (c - 1))))"
  have q: "\<exists>c. obj_count st a = Some c \<and> 0 < c" if "q = Some a" for a using count_at [OF assms(2), of r a] assms(4) that by auto
  have p: "\<exists>c. obj_count st b = Some c \<and> 0 < c" if "p = Some b" for b using count_at [OF assms(2), of v b] assms(3) that by auto
  have one: "obj_count st b = Some 1 \<longleftrightarrow> pointers_to st b = {v}" if "p = Some b" for b
    using one_left [OF assms(2), of v b] assms(3) that by simp
  have run: "smart_assign sh v r st = Inr (set_pointer v (Some q) (st\<lparr>obj_count := m2\<rparr>))"
    using assms(1,3,4) False q p
    by (cases q; cases p)
       (auto simp: smart_assign_def smart_get_def obj_inc_def obj_release_def counts_by_one_def set_pointer_def m1_def m2_def Let_def)
  have "counted (set_pointer v (Some q) (st\<lparr>obj_count := m2\<rparr>))"
    using assms(2,3) False q p one
    by (intro counted_move) (cases q; cases p; fastforce simp: counted_def m1_def m2_def split: if_splits)+
  moreover have "m2 a = None \<longleftrightarrow> obj_count st a = None \<or> pointers_to st a = {v}" for a
  proof (cases "p = Some a")
    case True
    then obtain c where "obj_count st a = Some c" using p by blast
    moreover have "q \<noteq> Some a" using True False by simp
    moreover have "c = 1 \<longleftrightarrow> pointers_to st a = {v}" using one [OF True] \<open>obj_count st a = Some c\<close> by simp
    ultimately show ?thesis using True by (cases q) (simp_all add: m1_def m2_def)
  next
    case other: False
    then have "pointers_to st a \<noteq> {v}" using sole_pointer [of st a v] assms(3) by auto
    then show ?thesis using other q by (cases q; cases p) (auto simp: m1_def m2_def)
  qed
  ultimately show ?thesis using run False by (simp add: set_pointer_def)
qed

section \<open>Properties\<close>


definition two_pointers :: objects where
  "two_pointers = \<lparr>obj_count = (\<lambda>a. if a = 5 then Some 1 else if a = 6 then Some 1 else None),
     pointer = (\<lambda>v. if v = 0 then Some (Some 5) else if v = 1 then Some (Some 6) else None)\<rparr>"


end
